(* ===== verification/Prelude.thy ===== *)
theory Prelude
  imports Main "HOL-Library.Word" "HOL-Library.Monad_Syntax" "HOL-Library.Multiset"
begin

text \<open>
  The shared vocabulary of the development.

  \<^item> The machine types of the Rust sources: \<open>u8\<close>, \<open>u16\<close>, \<open>u32\<close>, \<open>u64\<close> and the signed types,
    which are words read by \<open>sint\<close>. A \<open>usize\<close> is a \<open>nat\<close>, and every subtraction on it that could
    go below zero is a checked operation.
  \<^item> The panic monad. A Rust function that can panic returns an \<open>option\<close>, with \<open>None\<close> for the
    panic; \<^theory_text>\<open>do\<close> blocks are the option monad of the library. Integer overflow panics, as it does
    in a debug build.
  \<^item> Slices: \<open>slice_get\<close> is \<open>&d[a..b]\<close> and \<open>slice_set\<close> is \<open>d[a..b].copy_from_slice(bs)\<close>, with the
    bounds checks of the language; \<open>slice\<close> and \<open>put\<close> are the same operations inside the bounds.
  \<^item> Little-endian and big-endian encodings of words.
\<close>

section \<open>Machine types\<close>

type_synonym u8 = "8 word"
type_synonym u16 = "16 word"
type_synonym u32 = "32 word"
type_synonym u64 = "64 word"
type_synonym i16 = "16 word"
type_synonym i32 = "32 word"
type_synonym i64 = "64 word"
type_synonym usize = nat
type_synonym bytes = "8 word list"

named_theorems slice_simps \<open>reading a slice or a field back after a write\<close>
named_theorems panic_free \<open>operations that return under the invariant of their component\<close>

section \<open>The panic monad\<close>

text \<open>\<open>assert!(b)\<close>, and a checked subtraction on \<open>usize\<close>.\<close>

definition assert_that :: "bool \<Rightarrow> unit option" where
  "assert_that b = (if b then Some () else None)"

definition usize_sub :: "nat \<Rightarrow> nat \<Rightarrow> nat option" where
  "usize_sub a b = (if b \<le> a then Some (a - b) else None)"

text \<open>Checked addition and subtraction on unsigned words.\<close>

definition checked_add :: "'a::len word \<Rightarrow> 'a word \<Rightarrow> 'a word option" where
  "checked_add a b = (if unat a + unat b < 2 ^ LENGTH('a) then Some (a + b) else None)"

definition checked_sub :: "'a::len word \<Rightarrow> 'a word \<Rightarrow> 'a word option" where
  "checked_sub a b = (if unat b \<le> unat a then Some (a - b) else None)"

lemma assert_that_simps [simp]:
  "assert_that True = Some ()" "assert_that False = None"
  by (simp_all add: assert_that_def)

lemma assert_that_eq_Some [simp]: "assert_that b = Some u \<longleftrightarrow> b"
  by (simp add: assert_that_def)

lemma usize_sub_Some [simp]: "b \<le> a \<Longrightarrow> usize_sub a b = Some (a - b)"
  by (simp add: usize_sub_def)

lemma usize_sub_eq_Some: "usize_sub a b = Some c \<longleftrightarrow> b \<le> a \<and> c = a - b"
  by (auto simp: usize_sub_def)

lemma checked_add_Some:
  "unat a + unat b < 2 ^ LENGTH('a::len) \<Longrightarrow> checked_add (a :: 'a word) b = Some (a + b)"
  by (simp add: checked_add_def)

lemma checked_sub_Some: "unat b \<le> unat a \<Longrightarrow> checked_sub a b = Some (a - b)"
  by (simp add: checked_sub_def)

lemma checked_add_unat: "checked_add a b = Some c \<Longrightarrow> unat c = unat a + unat b"
  by (auto simp: checked_add_def unat_word_ariths split: if_splits)

lemma checked_sub_unat: "checked_sub a b = Some c \<Longrightarrow> unat c = unat a - unat b"
  by (auto simp: checked_sub_def unat_sub word_le_nat_alt split: if_splits)

lemma unat_add_one: "(c :: 'a::len word) < n \<Longrightarrow> unat (c + 1) = unat c + 1"
  by unat_arith

section \<open>Slices\<close>

definition slice :: "'a list \<Rightarrow> nat \<Rightarrow> nat \<Rightarrow> 'a list" where
  "slice d a n = take n (drop a d)"

definition put :: "'a list \<Rightarrow> nat \<Rightarrow> 'a list \<Rightarrow> 'a list" where
  "put d a bs = take a d @ bs @ drop (a + length bs) d"

definition slice_get :: "'a list \<Rightarrow> nat \<Rightarrow> nat \<Rightarrow> 'a list option" where
  "slice_get d a b = (if a \<le> b \<and> b \<le> length d then Some (slice d a (b - a)) else None)"

definition slice_set :: "'a list \<Rightarrow> nat \<Rightarrow> nat \<Rightarrow> 'a list \<Rightarrow> 'a list option" where
  "slice_set d a b bs =
     (if a \<le> b \<and> b \<le> length d \<and> length bs = b - a then Some (put d a bs) else None)"

text \<open>Indexing a vector: \<open>xs[i]\<close>.\<close>

definition index :: "'a list \<Rightarrow> nat \<Rightarrow> 'a option" where
  "index xs i = (if i < length xs then Some (xs ! i) else None)"

lemma index_Some [simp]: "i < length xs \<Longrightarrow> index xs i = Some (xs ! i)"
  by (simp add: index_def)

lemma index_eq_Some: "index xs i = Some x \<longleftrightarrow> i < length xs \<and> xs ! i = x"
  by (auto simp: index_def)

lemma length_slice [simp]: "a + n \<le> length d \<Longrightarrow> length (slice d a n) = n"
  by (simp add: slice_def)

lemma slice_0 [simp]: "slice d a 0 = []"
  by (simp add: slice_def)

lemma nth_slice: "i < n \<Longrightarrow> a + n \<le> length d \<Longrightarrow> slice d a n ! i = d ! (a + i)"
  by (simp add: slice_def)

lemma length_put [simp]: "a + length bs \<le> length d \<Longrightarrow> length (put d a bs) = length d"
  by (simp add: put_def)

lemma nth_put:
  assumes "a + length bs \<le> length d" and "i < length d"
  shows "put d a bs ! i = (if a \<le> i \<and> i < a + length bs then bs ! (i - a) else d ! i)"
proof -
  consider "i < a" | "a \<le> i" "i < a + length bs" | "a + length bs \<le> i" by linarith
  then show ?thesis
    using assms by cases (auto simp: put_def nth_append min_def)
qed

lemma slice_eqI:
  assumes "a + n \<le> length d" and "a + n \<le> length d'"
    and "\<And>i. i < n \<Longrightarrow> d ! (a + i) = d' ! (a + i)"
  shows "slice d a n = slice d' a n"
  using assms by (intro nth_equalityI) (simp_all add: nth_slice)

lemma slice_put_same [slice_simps]:
  assumes "a + length bs \<le> length d" and "n = length bs"
  shows "slice (put d a bs) a n = bs"
  using assms by (simp add: slice_def put_def)

lemma slice_put_disjoint [slice_simps]:
  assumes "a + length bs \<le> length d" and "x + n \<le> length d"
    and "x + n \<le> a \<or> a + length bs \<le> x"
  shows "slice (put d a bs) x n = slice d x n"
  using assms by (intro slice_eqI) (auto simp: nth_put)

lemma slice_get_Some [simp]:
  "a \<le> b \<Longrightarrow> b \<le> length d \<Longrightarrow> slice_get d a b = Some (slice d a (b - a))"
  by (simp add: slice_get_def)

lemma slice_set_Some [simp]:
  "a \<le> b \<Longrightarrow> b \<le> length d \<Longrightarrow> length bs = b - a \<Longrightarrow> slice_set d a b bs = Some (put d a bs)"
  by (simp add: slice_set_def)

lemma put_drop:
  "k + a + length bs \<le> length d \<Longrightarrow> take k d @ put (drop k d) a bs = put d (k + a) bs"
  by (simp add: put_def take_add) (simp add: ac_simps)

lemma slice_drop: "slice (drop k d) a n = slice d (k + a) n"
  by (simp add: slice_def add.commute)

lemma slice_append1: "a + n \<le> length xs \<Longrightarrow> slice (xs @ ys) a n = slice xs a n"
  by (simp add: slice_def)

lemma length_2D: "length xs = 2 \<Longrightarrow> \<exists>a b. xs = [a, b]"
  by (cases xs; cases "tl xs") auto

lemma length_4D: "length xs = 4 \<Longrightarrow> \<exists>a b c d. xs = [a, b, c, d]"
  by (cases xs; cases "tl xs"; cases "tl (tl xs)"; cases "tl (tl (tl xs))") auto

section \<open>Words as bytes\<close>

primrec le_bytes :: "nat \<Rightarrow> nat \<Rightarrow> bytes" where
  "le_bytes 0 x = []"
| "le_bytes (Suc n) x = word_of_nat x # le_bytes n (x div 256)"

primrec le_nat :: "bytes \<Rightarrow> nat" where
  "le_nat [] = 0"
| "le_nat (b # bs) = unat b + 256 * le_nat bs"

text \<open>\<open>x.to_le_bytes()\<close>, and \<open>T::from_le_bytes(bs.try_into().unwrap())\<close>: the conversion to an array
  of the type's size fails on a slice of another length. The big-endian variants reverse the bytes.\<close>

definition to_le_bytes :: "'a::len word \<Rightarrow> bytes" where
  "to_le_bytes w = le_bytes (LENGTH('a) div 8) (unat w)"

definition from_le_bytes :: "bytes \<Rightarrow> 'a::len word option" where
  "from_le_bytes bs =
     (if length bs = LENGTH('a) div 8 then Some (word_of_nat (le_nat bs)) else None)"

definition to_be_bytes :: "'a::len word \<Rightarrow> bytes" where
  "to_be_bytes w = rev (to_le_bytes w)"

definition from_be_bytes :: "bytes \<Rightarrow> 'a::len word option" where
  "from_be_bytes bs = from_le_bytes (rev bs)"

lemma length_le_bytes [simp]: "length (le_bytes n x) = n"
  by (induction n arbitrary: x) simp_all

lemma length_to_le_bytes [simp]: "length (to_le_bytes (w :: 'a::len word)) = LENGTH('a) div 8"
  by (simp add: to_le_bytes_def)

lemma length_to_be_bytes [simp]: "length (to_be_bytes (w :: 'a::len word)) = LENGTH('a) div 8"
  by (simp add: to_be_bytes_def)

lemma unat_word_of_nat8: "unat (word_of_nat x :: u8) = x mod 256"
  by (simp add: unat_of_nat)

lemma le_nat_le_bytes: "le_nat (le_bytes n x) = x mod 256 ^ n"
proof (induction n arbitrary: x)
  case 0
  show ?case by simp
next
  case (Suc n)
  have "x mod 256 ^ Suc n = x mod 256 + 256 * (x div 256 mod 256 ^ n)"
    by (simp add: mod_mult2_eq)
  with Suc show ?case by (simp add: unat_word_of_nat8)
qed

lemma le_nat_less: "le_nat bs < 256 ^ length bs"
proof (induction bs)
  case Nil
  show ?case by simp
next
  case (Cons b bs)
  have "unat b < 256" using unsigned_less [of b] by simp
  moreover have "le_nat bs + 1 \<le> 256 ^ length bs" using Cons by simp
  then have "256 * (le_nat bs + 1) \<le> 256 * 256 ^ length bs" by (rule mult_le_mono2)
  ultimately show ?case by simp
qed

lemma le_bytes_le_nat: "le_bytes (length bs) (le_nat bs) = bs"
proof (induction bs)
  case Nil
  show ?case by simp
next
  case (Cons b bs)
  have "unat b < 256" using unsigned_less [of b] by simp
  then have "(unat b + 256 * le_nat bs) div 256 = le_nat bs" by simp
  moreover have "(word_of_nat (unat b + 256 * le_nat bs) :: u8) = b"
  proof -
    have "(unat b + 256 * le_nat bs) mod 256 = unat b" using \<open>unat b < 256\<close> by simp
    then have "unat (word_of_nat (unat b + 256 * le_nat bs) :: u8) = unat b"
      by (simp only: unat_word_of_nat8)
    then show ?thesis by (simp only: word_unat_eq_iff)
  qed
  ultimately show ?case using Cons by simp
qed

lemma from_le_bytes_to_le_bytes [simp]:
  assumes "8 dvd LENGTH('a::len)"
  shows "from_le_bytes (to_le_bytes (w :: 'a word)) = Some w"
proof -
  have "(256 :: nat) ^ (LENGTH('a) div 8) = 2 ^ (8 * (LENGTH('a) div 8))"
    by (simp add: power_mult)
  also have "8 * (LENGTH('a) div 8) = LENGTH('a)" using assms by simp
  finally have p: "(256 :: nat) ^ (LENGTH('a) div 8) = 2 ^ LENGTH('a)" .
  have "unat w < 2 ^ LENGTH('a)" by (rule unsigned_less)
  then show ?thesis
    by (simp add: from_le_bytes_def to_le_bytes_def le_nat_le_bytes p)
qed

lemma from_be_bytes_to_be_bytes [simp]:
  "8 dvd LENGTH('a::len) \<Longrightarrow> from_be_bytes (to_be_bytes (w :: 'a word)) = Some w"
  by (simp add: from_be_bytes_def to_be_bytes_def)

lemma from_le_bytes_Some:
  "length bs = LENGTH('a::len) div 8 \<Longrightarrow>
     (from_le_bytes bs :: 'a word option) = Some (word_of_nat (le_nat bs))"
  by (simp add: from_le_bytes_def)

lemma to_le_bytes_from_le_bytes:
  assumes "8 dvd LENGTH('a::len)" and "(from_le_bytes bs :: 'a word option) = Some w"
  shows "to_le_bytes w = bs"
proof -
  from assms(2) have len: "length bs = LENGTH('a) div 8" and w: "w = word_of_nat (le_nat bs)"
    by (auto simp: from_le_bytes_def split: if_splits)
  have "(256 :: nat) ^ length bs = 2 ^ (8 * (LENGTH('a) div 8))"
    by (simp add: len power_mult)
  also have "8 * (LENGTH('a) div 8) = LENGTH('a)" using assms(1) by simp
  finally have "le_nat bs < 2 ^ LENGTH('a)" using le_nat_less [of bs] by simp
  then have "unat w = le_nat bs" by (simp add: w unat_of_nat)
  then show ?thesis by (simp add: to_le_bytes_def flip: len) (simp add: le_bytes_le_nat)
qed

section \<open>Sums over the slots of a page\<close>

lemma sum_fun_upd_nat:
  fixes f :: "nat \<Rightarrow> nat"
  assumes "i < n"
  shows "(\<Sum>j<n. (f(i := v)) j) + f i = (\<Sum>j<n. f j) + v"
proof -
  have "(\<Sum>j<n. f j) = f i + (\<Sum>j \<in> {..<n} - {i}. f j)"
    using assms by (simp add: sum.remove)
  moreover have "(\<Sum>j<n. (f(i := v)) j) = v + (\<Sum>j \<in> {..<n} - {i}. f j)"
    using assms by (simp add: sum.remove)
  ultimately show ?thesis by simp
qed

lemma sum_list_filter_zero:
  "sum_list (map f (filter (\<lambda>x. f x \<noteq> (0 :: nat)) xs)) = sum_list (map f xs)"
  by (induction xs) auto

lemma sum_list_sort_key [simp]:
  "sum_list (map (f :: 'a \<Rightarrow> nat) (sort_key k xs)) = sum_list (map f xs)"
proof -
  have "mset (map f (sort_key k xs)) = mset (map f xs)" by simp
  then show ?thesis by (simp only: sum_mset_sum_list [symmetric])
qed

lemma distinct_map_sort_key [simp]: "distinct (map f (sort_key k xs)) = distinct (map f xs)"
proof -
  have "mset (map f (sort_key k xs)) = mset (map f xs)" by simp
  then show ?thesis by (rule mset_eq_imp_distinct_iff)
qed

end
