(* ===== verification/Ids.thy ===== *)
theory Ids
  imports Prelude
begin

text \<open>
  The identifiers of \<open>common/src/ids.rs\<close> and \<open>heapstore/src/buffer_pool/mem_pool_trait.rs\<close>: value ids
  with their three byte encodings, log sequence numbers with the derived order, page keys, and page
  frame ids with their big-endian encoding. The lemmas are the round trips of the encodings.
\<close>

unbundle bit_operations_syntax

section \<open>Value ids\<close>

type_synonym ContainerId = u16
type_synonym SegmentId = u8
type_synonym PageId = u32
type_synonym SlotId = u16
type_synonym ColumnId = nat

record ValueId =
  container_id :: ContainerId
  segment_id :: "SegmentId option"
  page_id :: "PageId option"
  slot_id :: "SlotId option"

definition ValueId_new :: "ContainerId \<Rightarrow> ValueId" where
  "ValueId_new c = \<lparr>container_id = c, segment_id = None, page_id = None, slot_id = None\<rparr>"

definition ValueId_new_page :: "ContainerId \<Rightarrow> PageId \<Rightarrow> ValueId" where
  "ValueId_new_page c p = \<lparr>container_id = c, segment_id = None, page_id = Some p, slot_id = None\<rparr>"

definition ValueId_new_slot :: "ContainerId \<Rightarrow> PageId \<Rightarrow> SlotId \<Rightarrow> ValueId" where
  "ValueId_new_slot c p s =
     \<lparr>container_id = c, segment_id = None, page_id = Some p, slot_id = Some s\<rparr>"

lemma ValueId_new_slot_inject [simp]:
  "ValueId_new_slot c p s = ValueId_new_slot c' p' s' \<longleftrightarrow> c = c' \<and> p = p' \<and> s = s'"
  by (auto simp: ValueId_new_slot_def)

lemma ValueId_new_slot_sel [simp]:
  "container_id (ValueId_new_slot c p s) = c" "segment_id (ValueId_new_slot c p s) = None"
  "page_id (ValueId_new_slot c p s) = Some p" "slot_id (ValueId_new_slot c p s) = Some s"
  by (simp_all add: ValueId_new_slot_def)

text \<open>The variable-length encoding: a flag byte, the container id, then the parts that are present.\<close>

definition ValueId_to_bytes :: "ValueId \<Rightarrow> bytes" where
  "ValueId_to_bytes v =
     (let bit_flag = (0b00001000 :: u8);
          bit_flag = (if segment_id v \<noteq> None then bit_flag OR 0b00000100 else bit_flag);
          bit_flag = (if page_id v \<noteq> None then bit_flag OR 0b00000010 else bit_flag);
          bit_flag = (if slot_id v \<noteq> None then bit_flag OR 0b00000001 else bit_flag);
          bs = [bit_flag];
          bs = bs @ to_le_bytes (container_id v);
          bs = (case segment_id v of Some s \<Rightarrow> bs @ to_le_bytes s | None \<Rightarrow> bs);
          bs = (case page_id v of Some p \<Rightarrow> bs @ to_le_bytes p | None \<Rightarrow> bs);
          bs = (case slot_id v of Some s \<Rightarrow> bs @ to_le_bytes s | None \<Rightarrow> bs)
      in bs)"

text \<open>The fixed-length encoding writes into a zeroed array of ten bytes and panics on a segment.\<close>

definition ValueId_to_fixed_bytes :: "ValueId \<Rightarrow> bytes option" where
  "ValueId_to_fixed_bytes v = do {
     let vb = replicate 10 (0 :: u8);
     let bit_flag = (0b00001000 :: u8);
     vb \<leftarrow> slice_set vb 1 3 (to_le_bytes (container_id v));
     let offset = 3;
     assert_that (segment_id v = None);
     (vb, bit_flag, offset) \<leftarrow> (case page_id v of
        Some p \<Rightarrow> do {
          let bit_flag = bit_flag OR 0b00000010;
          let offset = offset + 4;
          vb \<leftarrow> slice_set vb (offset - 4) offset (to_le_bytes p);
          Some (vb, bit_flag, offset) }
      | None \<Rightarrow> Some (vb, bit_flag, offset));
     (vb, bit_flag, offset) \<leftarrow> (case slot_id v of
        Some s \<Rightarrow> do {
          let bit_flag = bit_flag OR 0b00000001;
          let offset = offset + 2;
          vb \<leftarrow> slice_set vb (offset - 2) offset (to_le_bytes s);
          Some (vb, bit_flag, offset) }
      | None \<Rightarrow> Some (vb, bit_flag, offset));
     Some (vb[0 := bit_flag]) }"

text \<open>The container and page part only, always seven bytes.\<close>

definition ValueId_to_cp_bytes :: "ValueId \<Rightarrow> bytes option" where
  "ValueId_to_cp_bytes v = do {
     let bs = replicate 7 (0 :: u8);
     let bs = bs[0 := 0b00001000];
     let bs = (if page_id v \<noteq> None then bs[0 := bs ! 0 OR 0b00000010] else bs);
     bs \<leftarrow> slice_set bs 1 3 (to_le_bytes (container_id v));
     slice_set bs 3 7 (to_le_bytes (case page_id v of Some p \<Rightarrow> p | None \<Rightarrow> 0)) }"

text \<open>Reading back: \<open>read_part\<close> is one of the three optional parts, read when its flag bit is set.\<close>

definition read_part :: "bytes \<Rightarrow> bool \<Rightarrow> nat \<Rightarrow> nat \<Rightarrow> ('a::len word option \<times> nat) option" where
  "read_part d present offset sz =
     (if present then do {
        let offset = offset + sz;
        bs \<leftarrow> slice_get d (offset - sz) offset;
        w \<leftarrow> from_le_bytes bs;
        Some (Some w, offset) }
      else Some (None, offset))"

definition ValueId_from_bytes :: "bytes \<Rightarrow> ValueId option" where
  "ValueId_from_bytes d = do {
     bit_flag \<leftarrow> index d 0;
     bs \<leftarrow> slice_get d 1 3;
     c \<leftarrow> from_le_bytes bs;
     (seg, offset) \<leftarrow> read_part d (bit_flag AND 0b00000100 \<noteq> 0) 3 1;
     (pg, offset) \<leftarrow> read_part d (bit_flag AND 0b00000010 \<noteq> 0) offset 4;
     (sl, offset) \<leftarrow> read_part d (bit_flag AND 0b00000001 \<noteq> 0) offset 2;
     Some \<lparr>container_id = c, segment_id = seg, page_id = pg, slot_id = sl\<rparr> }"

text \<open>Bytes before and behind the part being read do not matter.\<close>

lemma slice_middle: "length xs = a \<Longrightarrow> n = length ys \<Longrightarrow> slice (xs @ ys @ zs) a n = ys"
  by (simp add: slice_def)

lemma read_part_present:
  assumes "8 dvd LENGTH('a::len)" and "length xs = a" and "n = LENGTH('a) div 8"
  shows "read_part (xs @ to_le_bytes (w :: 'a word) @ zs) True a n = Some (Some w, a + n)"
  using assms by (simp add: read_part_def slice_middle)

lemma read_part_absent [simp]: "read_part d False a n = Some (None, a)"
  by (simp add: read_part_def)

text \<open>What the flag byte says of each part, for every choice of parts.\<close>

definition vid_flag :: "bool \<Rightarrow> bool \<Rightarrow> bool \<Rightarrow> u8" where
  "vid_flag s p t =
     0b1000 OR (if s then 0b100 else 0) OR (if p then 0b10 else 0) OR (if t then 1 else 0)"

lemma vid_flag_bits:
  "vid_flag s p t AND 0b100 \<noteq> 0 \<longleftrightarrow> s" "vid_flag s p t AND 0b10 \<noteq> 0 \<longleftrightarrow> p"
  "vid_flag s p t AND 1 \<noteq> 0 \<longleftrightarrow> t"
  by (cases s; cases p; cases t; simp add: vid_flag_def)+

definition opt_bytes :: "'a::len word option \<Rightarrow> bytes" where
  "opt_bytes x = (case x of Some w \<Rightarrow> to_le_bytes w | None \<Rightarrow> [])"

lemma ValueId_to_bytes_layout:
  "ValueId_to_bytes v =
     [vid_flag (segment_id v \<noteq> None) (page_id v \<noteq> None) (slot_id v \<noteq> None)] @
     to_le_bytes (container_id v) @ opt_bytes (segment_id v) @ opt_bytes (page_id v) @
     opt_bytes (slot_id v)"
  by (simp add: ValueId_to_bytes_def vid_flag_def opt_bytes_def Let_def split: option.split)

lemma read_part_opt_bytes:
  assumes "8 dvd LENGTH('a::len)" and "length xs = a" and "n = LENGTH('a) div 8"
  shows "read_part (xs @ opt_bytes (x :: 'a word option) @ zs) (x \<noteq> None) a n =
           Some (x, a + length (opt_bytes x))"
  using read_part_present [OF assms] assms by (cases x) (simp_all add: opt_bytes_def)

text \<open>Reading any input that has the layout, with whatever behind it.\<close>

lemma ValueId_from_bytes_layout:
  "ValueId_from_bytes
     ([vid_flag (segment_id v \<noteq> None) (page_id v \<noteq> None) (slot_id v \<noteq> None)] @
      to_le_bytes (container_id v) @ opt_bytes (segment_id v) @ opt_bytes (page_id v) @
      opt_bytes (slot_id v) @ rest) = Some v"
proof -
  let ?f = "[vid_flag (segment_id v \<noteq> None) (page_id v \<noteq> None) (slot_id v \<noteq> None)]"
  let ?c = "to_le_bytes (container_id v)" and ?s = "opt_bytes (segment_id v)"
  let ?p = "opt_bytes (page_id v)" and ?t = "opt_bytes (slot_id v)"
  define d where "d = ?f @ ?c @ ?s @ ?p @ ?t @ rest"
  have 0: "index d 0 = Some (hd ?f)" by (simp add: index_def d_def)
  have "slice d 1 2 = ?c"
    unfolding d_def by (rule slice_middle) simp_all
  moreover have "3 \<le> length d" by (simp add: d_def)
  ultimately have 1: "slice_get d 1 3 = Some ?c" by (simp add: slice_get_def)
  have "d = (?f @ ?c) @ ?s @ (?p @ ?t @ rest)" by (simp add: d_def)
  then have 2: "read_part d (segment_id v \<noteq> None) 3 1 = Some (segment_id v, 3 + length ?s)"
    by (simp only:) (rule read_part_opt_bytes; simp)
  have "d = (?f @ ?c @ ?s) @ ?p @ (?t @ rest)" by (simp add: d_def)
  then have 3: "read_part d (page_id v \<noteq> None) (3 + length ?s) 4 =
      Some (page_id v, 3 + length ?s + length ?p)"
    by (simp only:) (rule read_part_opt_bytes; simp)
  have "d = (?f @ ?c @ ?s @ ?p) @ ?t @ rest" by (simp add: d_def)
  then have 4: "read_part d (slot_id v \<noteq> None) (3 + length ?s + length ?p) 2 =
      Some (slot_id v, 3 + length ?s + length ?p + length ?t)"
    by (simp only:) (rule read_part_opt_bytes; simp)
  have "ValueId_from_bytes d = Some v"
    unfolding ValueId_from_bytes_def 0 1
    by (simp only: Option.bind.bind_lunit list.sel vid_flag_bits 2 3 4 prod.case) simp
  then show ?thesis by (simp only: d_def)
qed

lemma ValueId_fixed_layout:
  assumes "segment_id v = None"
  shows "\<exists>pad. ValueId_to_fixed_bytes v = Some (ValueId_to_bytes v @ pad)"
proof -
  obtain a b where c: "to_le_bytes (container_id v) = [a, b]"
    using length_2D [of "to_le_bytes (container_id v)"] by auto
  have p: "\<exists>a b c d. to_le_bytes (x :: u32) = [a, b, c, d]" for x
    by (rule length_4D) simp
  have s: "\<exists>a b. to_le_bytes (x :: u16) = [a, b]" for x
    by (rule length_2D) simp
  have z: "replicate 10 (0 :: u8) = [0, 0, 0, 0, 0, 0, 0, 0, 0, 0]"
    by (simp add: numeral_eq_Suc)
  show ?thesis
    using assms p [of "the (page_id v)"] s [of "the (slot_id v)"]
    by (cases "page_id v"; cases "slot_id v")
      (auto simp: ValueId_to_fixed_bytes_def ValueId_to_bytes_def c z slice_set_def put_def Let_def)
qed

section \<open>Log sequence numbers\<close>

text \<open>\<open>Lsn\<close> derives \<open>PartialOrd\<close>: page id first, then slot id.\<close>

record Lsn =
  lsn_page_id :: PageId
  lsn_slot_id :: SlotId

definition Lsn_new :: "PageId \<Rightarrow> SlotId \<Rightarrow> Lsn" where
  "Lsn_new p s = \<lparr>lsn_page_id = p, lsn_slot_id = s\<rparr>"

definition Lsn_less :: "Lsn \<Rightarrow> Lsn \<Rightarrow> bool" where
  "Lsn_less a b \<longleftrightarrow>
     lsn_page_id a < lsn_page_id b \<or>
     lsn_page_id a = lsn_page_id b \<and> lsn_slot_id a < lsn_slot_id b"

lemma Lsn_less_trans: "Lsn_less a b \<Longrightarrow> Lsn_less b c \<Longrightarrow> Lsn_less a c"
  by (auto simp: Lsn_less_def)

lemma Lsn_less_total: "Lsn_less a b \<or> a = b \<or> Lsn_less b a"
  by (cases a; cases b) (auto simp: Lsn_less_def)

section \<open>Page keys and page frame ids\<close>

type_synonym ContainerPageId = "ContainerId \<times> PageId"

record PageFrameId =
  p_key :: ContainerPageId
  pf_frame_id :: u32

definition PageFrameId_new :: "ContainerId \<Rightarrow> PageId \<Rightarrow> PageFrameId" where
  "PageFrameId_new c p = \<lparr>p_key = (c, p), pf_frame_id = - 1\<rparr>"

definition PageFrameId_new_with_frame_id :: "ContainerId \<Rightarrow> PageId \<Rightarrow> u32 \<Rightarrow> PageFrameId" where
  "PageFrameId_new_with_frame_id c p f = \<lparr>p_key = (c, p), pf_frame_id = f\<rparr>"

definition PageFrameId_to_bytes :: "PageFrameId \<Rightarrow> bytes" where
  "PageFrameId_to_bytes k =
     to_be_bytes (fst (p_key k)) @ to_be_bytes (snd (p_key k)) @ to_be_bytes (pf_frame_id k)"

definition PageFrameId_from_bytes :: "bytes \<Rightarrow> PageFrameId option" where
  "PageFrameId_from_bytes bs = do {
     b \<leftarrow> slice_get bs 0 2;
     c \<leftarrow> from_be_bytes b;
     b \<leftarrow> slice_get bs 2 6;
     p \<leftarrow> from_be_bytes b;
     b \<leftarrow> slice_get bs 6 10;
     f \<leftarrow> from_be_bytes b;
     Some \<lparr>p_key = (c, p), pf_frame_id = f\<rparr> }"

lemma PageFrameId_from_bytes_append:
  "PageFrameId_from_bytes (PageFrameId_to_bytes k @ rest) = Some k"
proof -
  define a b c where "a = to_be_bytes (fst (p_key k))" and "b = to_be_bytes (snd (p_key k))"
    and "c = to_be_bytes (pf_frame_id k)"
  note abc = this
  have len: "length a = 2" "length b = 4" "length c = 4" by (simp_all add: abc)
  define d where "d = a @ b @ c @ rest"
  have "slice d 0 2 = a" using len by (simp add: slice_def d_def)
  moreover have "slice d 2 4 = b"
    unfolding d_def by (rule slice_middle) (simp_all add: len)
  moreover have "slice ((a @ b) @ c @ rest) 6 4 = c"
    by (rule slice_middle) (simp_all add: len)
  then have "slice d 6 4 = c" by (simp add: d_def)
  moreover have "10 \<le> length d" by (simp add: d_def len)
  moreover have "from_be_bytes a = Some (fst (p_key k))" "from_be_bytes b = Some (snd (p_key k))"
    "from_be_bytes c = Some (pf_frame_id k)"
    by (simp_all add: abc)
  ultimately show ?thesis
    unfolding PageFrameId_from_bytes_def PageFrameId_to_bytes_def abc [symmetric] append_assoc
      d_def [symmetric]
    by simp
qed

end
