(* ===== verification/Page.thy ===== *)
theory Page
  imports Ids
begin

text \<open>
  \<open>heapstore/src/page.rs\<close>: a page is an array of \<open>PAGE_SIZE\<close> bytes whose first sixteen bytes hold the
  page id, the log sequence number and the checksum. The record has the one field of the struct;
  \<open>page_wf\<close> says that the array has its fixed length. The lemmas say what each accessor returns after
  each mutator.
\<close>

unbundle bit_operations_syntax

abbreviation (input) PAGE_SIZE :: nat where "PAGE_SIZE \<equiv> 4096"
abbreviation (input) PAGE_ID_SIZE :: nat where "PAGE_ID_SIZE \<equiv> 4"
abbreviation (input) SLOT_ID_SIZE :: nat where "SLOT_ID_SIZE \<equiv> 2"
abbreviation (input) CHECKSUM_SIZE :: nat where "CHECKSUM_SIZE \<equiv> 2"
abbreviation (input) LSN_PAGE_OFFSET :: nat where "LSN_PAGE_OFFSET \<equiv> 4"
abbreviation (input) LSN_SLOT_OFFSET :: nat where "LSN_SLOT_OFFSET \<equiv> 8"
abbreviation (input) CHECKSUM_OFFSET :: nat where "CHECKSUM_OFFSET \<equiv> 10"
abbreviation (input) PAGE_FIXED_HEADER_LEN :: nat where "PAGE_FIXED_HEADER_LEN \<equiv> 16"
abbreviation (input) HEAP_PAGE_FIXED_METADATA_SIZE :: nat where "HEAP_PAGE_FIXED_METADATA_SIZE \<equiv> 8"

record Page =
  data :: bytes

definition page_wf :: "Page \<Rightarrow> bool" where
  "page_wf p \<longleftrightarrow> length (data p) = PAGE_SIZE"

section \<open>Operations\<close>

definition Page_new :: "PageId \<Rightarrow> Page option" where
  "Page_new pid = do {
     let page_id_bytes = to_le_bytes pid;
     let d = replicate PAGE_SIZE (0 :: u8);
     d \<leftarrow> slice_set d 0 PAGE_ID_SIZE page_id_bytes;
     let lsn_page = (0 :: u32);
     let lsn_slot = (0 :: u16);
     d \<leftarrow> slice_set d LSN_PAGE_OFFSET (LSN_PAGE_OFFSET + PAGE_ID_SIZE) (to_le_bytes lsn_page);
     d \<leftarrow> slice_set d LSN_SLOT_OFFSET (LSN_SLOT_OFFSET + SLOT_ID_SIZE) (to_le_bytes lsn_slot);
     let checksum = (0 :: u16);
     d \<leftarrow> slice_set d CHECKSUM_OFFSET (CHECKSUM_OFFSET + CHECKSUM_SIZE) (to_le_bytes checksum);
     let spare_offset = CHECKSUM_OFFSET + CHECKSUM_SIZE;
     let spare_bytes = replicate (PAGE_FIXED_HEADER_LEN - (CHECKSUM_OFFSET + CHECKSUM_SIZE)) (0 :: u8);
     d \<leftarrow> slice_set d spare_offset PAGE_FIXED_HEADER_LEN spare_bytes;
     let heap_meta = replicate HEAP_PAGE_FIXED_METADATA_SIZE (0 :: u8);
     d \<leftarrow> slice_set d PAGE_FIXED_HEADER_LEN
            (PAGE_FIXED_HEADER_LEN + HEAP_PAGE_FIXED_METADATA_SIZE) heap_meta;
     Some \<lparr>data = d\<rparr> }"

definition Page_new_empty :: "Page option" where
  "Page_new_empty = Page_new 0"

definition get_page_id :: "Page \<Rightarrow> PageId option" where
  "get_page_id p = do { bs \<leftarrow> slice_get (data p) 0 PAGE_ID_SIZE; from_le_bytes bs }"

definition set_page_id :: "Page \<Rightarrow> PageId \<Rightarrow> Page option" where
  "set_page_id p pid = do {
     d \<leftarrow> slice_set (data p) 0 PAGE_ID_SIZE (to_le_bytes pid);
     Some (p\<lparr>data := d\<rparr>) }"

definition get_lsn :: "Page \<Rightarrow> Lsn option" where
  "get_lsn p = do {
     bs \<leftarrow> slice_get (data p) LSN_PAGE_OFFSET (LSN_PAGE_OFFSET + PAGE_ID_SIZE);
     pid \<leftarrow> from_le_bytes bs;
     bs \<leftarrow> slice_get (data p) LSN_SLOT_OFFSET (LSN_SLOT_OFFSET + SLOT_ID_SIZE);
     sid \<leftarrow> from_le_bytes bs;
     Some (Lsn_new pid sid) }"

definition set_lsn :: "Page \<Rightarrow> Lsn \<Rightarrow> Page option" where
  "set_lsn p lsn = do {
     current \<leftarrow> get_lsn p;
     if Lsn_less current lsn then do {
       d \<leftarrow> slice_set (data p) LSN_PAGE_OFFSET (LSN_PAGE_OFFSET + PAGE_ID_SIZE)
              (to_le_bytes (lsn_page_id lsn));
       d \<leftarrow> slice_set d LSN_SLOT_OFFSET (LSN_SLOT_OFFSET + SLOT_ID_SIZE)
              (to_le_bytes (lsn_slot_id lsn));
       Some (p\<lparr>data := d\<rparr>) }
     else Some p }"

definition get_checksum :: "Page \<Rightarrow> u16 option" where
  "get_checksum p = do {
     bs \<leftarrow> slice_get (data p) CHECKSUM_OFFSET (CHECKSUM_OFFSET + CHECKSUM_SIZE);
     from_le_bytes bs }"

text \<open>The hasher of the standard library is a parameter: its algorithm is unspecified.\<close>

definition set_checksum :: "(bytes \<Rightarrow> u64) \<Rightarrow> Page \<Rightarrow> Page option" where
  "set_checksum hasher p = do {
     d \<leftarrow> slice_set (data p) CHECKSUM_OFFSET (CHECKSUM_OFFSET + CHECKSUM_SIZE)
            (replicate CHECKSUM_SIZE 0);
     let checksum_64 = hasher d;
     let checksum = (ucast (checksum_64 AND 0xFFFF) :: u16);
     d \<leftarrow> slice_set d CHECKSUM_OFFSET (CHECKSUM_OFFSET + CHECKSUM_SIZE) (to_le_bytes checksum);
     Some (p\<lparr>data := d\<rparr>) }"

definition Page_from_bytes :: "bytes \<Rightarrow> Page" where
  "Page_from_bytes d = \<lparr>data = d\<rparr>"

definition Page_to_bytes :: "Page \<Rightarrow> bytes" where
  "Page_to_bytes p = data p"

text \<open>\<open>compare_page\<close>: the loop over the zipped arrays, with the loop variables of the source.\<close>

fun compare_loop ::
  "(u8 \<times> u8) list \<Rightarrow> nat \<Rightarrow> (u16 \<times> bytes) list \<Rightarrow> bool \<Rightarrow> nat \<Rightarrow> bytes \<Rightarrow> (u16 \<times> bytes) list"
where
  "compare_loop [] i res in_diff diff_start diff_vec = res"
| "compare_loop ((b1, b2) # rest) i res in_diff diff_start diff_vec =
     (if b1 \<noteq> b2 then
        compare_loop rest (Suc i) res True (if in_diff then diff_start else i) (diff_vec @ [b1])
      else if in_diff then
        compare_loop rest (Suc i) (res @ [(word_of_nat diff_start, diff_vec)]) False diff_start []
      else compare_loop rest (Suc i) res False diff_start diff_vec)"

definition compare_page :: "Page \<Rightarrow> bytes \<Rightarrow> (u16 \<times> bytes) list option" where
  "compare_page p other = do {
     assert_that (length (data p) = length other);
     Some (compare_loop (zip (data p) other) 0 [] False 0 []) }"

text \<open>\<open>Deref\<close> and \<open>DerefMut\<close>: the bytes behind the fixed header.\<close>

definition deref :: "Page \<Rightarrow> bytes" where
  "deref p = drop PAGE_FIXED_HEADER_LEN (data p)"

definition deref_mut :: "Page \<Rightarrow> bytes \<Rightarrow> Page" where
  "deref_mut p s = p\<lparr>data := take PAGE_FIXED_HEADER_LEN (data p) @ s\<rparr>"

section \<open>Reading and writing words in the array\<close>

text \<open>The value of the two bytes at an offset, and the array with these bytes replaced.\<close>

definition u16_at :: "bytes \<Rightarrow> nat \<Rightarrow> u16" where
  "u16_at d a = word_of_nat (le_nat (slice d a 2))"

definition put_u16 :: "bytes \<Rightarrow> nat \<Rightarrow> u16 \<Rightarrow> bytes" where
  "put_u16 d a w = put d a (to_le_bytes w)"

lemma from_le_bytes_u16_at [simp]:
  "a + 2 \<le> length d \<Longrightarrow> from_le_bytes (slice d a 2) = Some (u16_at d a)"
  by (simp add: from_le_bytes_def u16_at_def)

lemma from_le_bytes_u16_at' [simp]:
  "Suc (Suc a) \<le> length d \<Longrightarrow> from_le_bytes (slice d a (Suc (Suc 0))) = Some (u16_at d a)"
  using from_le_bytes_u16_at [of a d] by (simp add: numeral_2_eq_2)

lemma length_put_u16 [simp]: "a + 2 \<le> length d \<Longrightarrow> length (put_u16 d a w) = length d"
  by (simp add: put_u16_def)

lemma u16_at_put_u16_same [slice_simps]: "a + 2 \<le> length d \<Longrightarrow> u16_at (put_u16 d a w) a = w"
proof -
  assume "a + 2 \<le> length d"
  then have "slice (put_u16 d a w) a 2 = to_le_bytes w"
    by (simp add: put_u16_def slice_put_same)
  moreover have "from_le_bytes (to_le_bytes w) = Some w" by simp
  ultimately show ?thesis by (simp add: u16_at_def from_le_bytes_def)
qed

lemma slice_put_u16_disjoint [slice_simps]:
  "a + 2 \<le> length d \<Longrightarrow> x + n \<le> length d \<Longrightarrow> x + n \<le> a \<or> a + 2 \<le> x \<Longrightarrow>
     slice (put_u16 d a w) x n = slice d x n"
  by (simp add: put_u16_def slice_put_disjoint)

lemma u16_at_put_u16_disjoint [slice_simps]:
  "a + 2 \<le> length d \<Longrightarrow> x + 2 \<le> length d \<Longrightarrow> x + 2 \<le> a \<or> a + 2 \<le> x \<Longrightarrow>
     u16_at (put_u16 d a w) x = u16_at d x"
  by (simp add: u16_at_def slice_put_u16_disjoint)

lemma u16_at_put_disjoint [slice_simps]:
  "a + length bs \<le> length d \<Longrightarrow> x + 2 \<le> length d \<Longrightarrow> x + 2 \<le> a \<or> a + length bs \<le> x \<Longrightarrow>
     u16_at (put d a bs) x = u16_at d x"
  by (simp add: u16_at_def slice_put_disjoint)

lemma u16_at_cong: "slice d a 2 = slice d' a 2 \<Longrightarrow> u16_at d a = u16_at d' a"
  by (simp add: u16_at_def)

lemma unat_u16_less: "unat (w :: u16) < 65536"
  using unsigned_less [of w] by simp

lemma slice_sub:
  assumes "slice d a n = slice d' a n" and "a \<le> b" and "b + m \<le> a + n"
    and "a + n \<le> length d" and "a + n \<le> length d'"
  shows "slice d b m = slice d' b m"
proof (rule slice_eqI)
  fix i assume "i < m"
  then have "b + i - a < n" "a + (b + i - a) = b + i" using assms(2,3) by simp_all
  then show "d ! (b + i) = d' ! (b + i)"
    using arg_cong [OF assms(1), of "\<lambda>xs. xs ! (b + i - a)"] assms(4,5)
    by (simp add: nth_slice)
qed (use assms in simp_all)

section \<open>Facts about the header\<close>

text \<open>Two pages that agree on the fixed header agree on every accessor of it.\<close>

definition same_header :: "Page \<Rightarrow> Page \<Rightarrow> bool" where
  "same_header p q \<longleftrightarrow> slice (data p) 0 PAGE_FIXED_HEADER_LEN = slice (data q) 0 PAGE_FIXED_HEADER_LEN"

lemma same_header_refl [simp]: "same_header p p"
  by (simp add: same_header_def)

lemma same_header_trans: "same_header p q \<Longrightarrow> same_header q r \<Longrightarrow> same_header p r"
  by (simp add: same_header_def)

lemma get_page_id_Some:
  "page_wf p \<Longrightarrow> get_page_id p = Some (word_of_nat (le_nat (slice (data p) 0 4)))"
  by (simp add: get_page_id_def page_wf_def from_le_bytes_def)

lemma get_page_id_same_header:
  assumes "page_wf p" and "page_wf q" and "same_header p q"
  shows "get_page_id p = get_page_id q"
proof -
  have "slice (data p) 0 4 = slice (data q) 0 4"
    by (rule slice_sub [of _ 0 16]) (use assms in \<open>simp_all add: page_wf_def same_header_def\<close>)
  with assms show ?thesis by (simp add: get_page_id_Some)
qed

lemma set_page_id_Some: "page_wf p \<Longrightarrow> set_page_id p pid = Some (p\<lparr>data := put (data p) 0 (to_le_bytes pid)\<rparr>)"
  by (simp add: set_page_id_def page_wf_def)

lemma set_page_id_wf: "page_wf p \<Longrightarrow> set_page_id p pid = Some q \<Longrightarrow> page_wf q"
  by (auto simp: set_page_id_Some page_wf_def)

lemma get_set_page_id:
  assumes "page_wf p" and "set_page_id p pid = Some q"
  shows "get_page_id q = Some pid"
proof -
  have q: "data q = put (data p) 0 (to_le_bytes pid)"
    using assms by (auto simp: set_page_id_Some)
  have "slice (data q) 0 4 = to_le_bytes pid"
    using assms(1) by (simp add: q page_wf_def slice_put_same)
  moreover have "4 \<le> length (data q)" using assms(1) by (simp add: q page_wf_def)
  ultimately show ?thesis by (simp add: get_page_id_def)
qed

text \<open>The bytes behind the page id do not change when it is set.\<close>

lemma set_page_id_frame:
  assumes "page_wf p" and "set_page_id p pid = Some q" and "4 \<le> a" and "a + n \<le> PAGE_SIZE"
  shows "slice (data q) a n = slice (data p) a n"
  using assms by (auto simp: set_page_id_Some page_wf_def slice_put_disjoint)

lemma get_lsn_Some:
  "page_wf p \<Longrightarrow>
     get_lsn p = Some (Lsn_new (word_of_nat (le_nat (slice (data p) 4 4))) (u16_at (data p) 8))"
  by (simp add: get_lsn_def page_wf_def from_le_bytes_def u16_at_def)

lemma set_lsn_wf: "page_wf p \<Longrightarrow> set_lsn p l = Some q \<Longrightarrow> page_wf q"
  by (auto simp: set_lsn_def get_lsn_Some page_wf_def split: if_splits)

lemma get_set_lsn:
  assumes wf: "page_wf p" and cur: "get_lsn p = Some c" and set: "set_lsn p l = Some q"
  shows "get_lsn q = Some (if Lsn_less c l then l else c)"
proof (cases "Lsn_less c l")
  case False
  with cur set show ?thesis by (simp add: set_lsn_def)
next
  case True
  let ?d = "put (data p) 4 (to_le_bytes (lsn_page_id l))"
  have len: "length (data p) = 4096" using wf by (simp add: page_wf_def)
  have q: "data q = put ?d 8 (to_le_bytes (lsn_slot_id l))"
    using set cur True len by (auto simp: set_lsn_def)
  have "slice (data q) 4 4 = to_le_bytes (lsn_page_id l)"
    using len by (simp add: q slice_put_disjoint slice_put_same)
  moreover have "slice (data q) 8 2 = to_le_bytes (lsn_slot_id l)"
    using len by (simp add: q slice_put_same)
  moreover have "length (data q) = 4096" using len by (simp add: q)
  ultimately show ?thesis
    using True by (simp add: get_lsn_def Lsn_new_def del: from_le_bytes_u16_at)
qed

end
