(* ===== verification/HeapPage.thy ===== *)
theory HeapPage
  imports Page
begin

text \<open>
  \<open>heapstore/src/heap_page.rs\<close>: the slotted page. Behind the fixed header a page has eight bytes of
  metadata (slot count, free space pointer, bytes in holes, deleted slots), four bytes per slot (offset
  and length of the value, length zero for a free slot), and the values, which grow downwards from the
  end of the page.

  The definitions follow the source on the byte array, with its \<open>u16\<close> fields, its bounds checks and its
  overflow checks. \<open>layout_ok\<close> is the invariant of the layout, \<open>heap_wf\<close> adds the count of free slots,
  and \<open>heap_view\<close> is the abstraction: the finite map from slot ids to values that the page stores.
\<close>

abbreviation (input) SLOT_METADATA_SIZE :: nat where "SLOT_METADATA_SIZE \<equiv> 4"
abbreviation (input) OFFSET_NUM_BYTES :: nat where "OFFSET_NUM_BYTES \<equiv> 2"
abbreviation (input) NUM_SLOTS_OFFSET :: nat where "NUM_SLOTS_OFFSET \<equiv> 0"
abbreviation (input) FREE_SPACE_PTR_OFFSET :: nat where "FREE_SPACE_PTR_OFFSET \<equiv> 2"
abbreviation (input) DELETED_BYTES_OFFSET :: nat where "DELETED_BYTES_OFFSET \<equiv> 4"
abbreviation (input) DELETED_SLOT_COUNT_OFFSET :: nat where "DELETED_SLOT_COUNT_OFFSET \<equiv> 6"

section \<open>The metadata fields\<close>

definition get_num_slots :: "Page \<Rightarrow> u16 option" where
  "get_num_slots p = do {
     bs \<leftarrow> slice_get (deref p) NUM_SLOTS_OFFSET (NUM_SLOTS_OFFSET + 2);
     from_le_bytes bs }"

definition set_num_slots :: "Page \<Rightarrow> u16 \<Rightarrow> Page option" where
  "set_num_slots p n = do {
     s \<leftarrow> slice_set (deref p) NUM_SLOTS_OFFSET (NUM_SLOTS_OFFSET + 2) (to_le_bytes n);
     Some (deref_mut p s) }"

definition increment_num_slots :: "Page \<Rightarrow> (Page \<times> u16) option" where
  "increment_num_slots p = do {
     n \<leftarrow> get_num_slots p;
     new_count \<leftarrow> checked_add n 1;
     p \<leftarrow> set_num_slots p new_count;
     Some (p, new_count) }"

definition get_free_space_ptr :: "Page \<Rightarrow> u16 option" where
  "get_free_space_ptr p = do {
     bs \<leftarrow> slice_get (deref p) FREE_SPACE_PTR_OFFSET (FREE_SPACE_PTR_OFFSET + 2);
     from_le_bytes bs }"

definition set_free_space_ptr :: "Page \<Rightarrow> u16 \<Rightarrow> Page option" where
  "set_free_space_ptr p ptr = do {
     s \<leftarrow> slice_set (deref p) FREE_SPACE_PTR_OFFSET (FREE_SPACE_PTR_OFFSET + 2) (to_le_bytes ptr);
     Some (deref_mut p s) }"

definition get_deleted_bytes :: "Page \<Rightarrow> u16 option" where
  "get_deleted_bytes p = do {
     bs \<leftarrow> slice_get (deref p) DELETED_BYTES_OFFSET (DELETED_BYTES_OFFSET + 2);
     from_le_bytes bs }"

definition set_deleted_bytes :: "Page \<Rightarrow> u16 \<Rightarrow> Page option" where
  "set_deleted_bytes p n = do {
     s \<leftarrow> slice_set (deref p) DELETED_BYTES_OFFSET (DELETED_BYTES_OFFSET + 2) (to_le_bytes n);
     Some (deref_mut p s) }"

definition get_deleted_slot_count :: "Page \<Rightarrow> u16 option" where
  "get_deleted_slot_count p = do {
     bs \<leftarrow> slice_get (deref p) DELETED_SLOT_COUNT_OFFSET (DELETED_SLOT_COUNT_OFFSET + 2);
     from_le_bytes bs }"

definition set_deleted_slot_count :: "Page \<Rightarrow> u16 \<Rightarrow> Page option" where
  "set_deleted_slot_count p n = do {
     s \<leftarrow> slice_set (deref p) DELETED_SLOT_COUNT_OFFSET (DELETED_SLOT_COUNT_OFFSET + 2)
            (to_le_bytes n);
     Some (deref_mut p s) }"

definition get_header_size :: "Page \<Rightarrow> nat option" where
  "get_header_size p = do {
     n \<leftarrow> get_num_slots p;
     Some (PAGE_FIXED_HEADER_LEN + HEAP_PAGE_FIXED_METADATA_SIZE + unat n * SLOT_METADATA_SIZE) }"

definition get_free_space :: "Page \<Rightarrow> nat option" where
  "get_free_space p = do {
     fsp \<leftarrow> get_free_space_ptr p;
     hs \<leftarrow> get_header_size p;
     gap \<leftarrow> usize_sub (unat fsp) hs;
     del \<leftarrow> get_deleted_bytes p;
     Some (gap + unat del) }"

section \<open>Slots\<close>

text \<open>\<open>read_u16 d a b\<close> is \<open>u16::from_le_bytes(d[a..b].try_into().unwrap())\<close>.\<close>

definition read_u16 :: "bytes \<Rightarrow> nat \<Rightarrow> nat \<Rightarrow> u16 option" where
  "read_u16 d a b = do { bs \<leftarrow> slice_get d a b; from_le_bytes bs }"

function find_free_from :: "bytes \<Rightarrow> nat \<Rightarrow> nat \<Rightarrow> nat option" where
  "find_free_from d offset stop =
     (if offset < stop then do {
        len \<leftarrow> read_u16 d (offset + OFFSET_NUM_BYTES) (offset + SLOT_METADATA_SIZE);
        if len = 0 then Some offset
        else find_free_from d (offset + SLOT_METADATA_SIZE) stop }
      else Some stop)"
  by pat_completeness auto
termination
  by (relation "measure (\<lambda>(d, offset, stop). stop - offset)") auto

declare find_free_from.simps [simp del]

definition find_next_free_slot :: "Page \<Rightarrow> nat option" where
  "find_next_free_slot p = do {
     let start = PAGE_FIXED_HEADER_LEN + HEAP_PAGE_FIXED_METADATA_SIZE;
     stop \<leftarrow> get_header_size p;
     find_free_from (data p) start stop }"

text \<open>The source returns \<open>-1\<close> for a slot id out of range.\<close>

definition get_slot_metadata_offset :: "Page \<Rightarrow> SlotId \<Rightarrow> int option" where
  "get_slot_metadata_offset p sid = do {
     num_slots \<leftarrow> get_num_slots p;
     if unat sid \<ge> unat num_slots then Some (- 1)
     else Some (int (PAGE_FIXED_HEADER_LEN + HEAP_PAGE_FIXED_METADATA_SIZE
                     + unat sid * SLOT_METADATA_SIZE)) }"

section \<open>Compaction\<close>

text \<open>Step 1 copies the live values, step 2 sorts them by length (a stable sort), step 3 writes them
  back contiguously from the end of the page.\<close>

primrec collect_live :: "bytes \<Rightarrow> nat list \<Rightarrow> (nat \<times> bytes) list option" where
  "collect_live d [] = Some []"
| "collect_live d (i # is) = do {
     let meta_offset = PAGE_FIXED_HEADER_LEN + HEAP_PAGE_FIXED_METADATA_SIZE + i * SLOT_METADATA_SIZE;
     off \<leftarrow> read_u16 d meta_offset (meta_offset + OFFSET_NUM_BYTES);
     len \<leftarrow> read_u16 d (meta_offset + OFFSET_NUM_BYTES) (meta_offset + SLOT_METADATA_SIZE);
     if unat len > 0 then do {
       v \<leftarrow> slice_get d (unat off) (unat off + unat len);
       rest \<leftarrow> collect_live d is;
       Some ((i, v) # rest) }
     else collect_live d is }"

primrec repack :: "(nat \<times> bytes) list \<Rightarrow> bytes \<Rightarrow> nat \<Rightarrow> (bytes \<times> nat) option" where
  "repack [] d new_fsp = Some (d, new_fsp)"
| "repack (s # ss) d new_fsp = do {
     let (slot_index, v) = s;
     new_fsp \<leftarrow> usize_sub new_fsp (length v);
     d \<leftarrow> slice_set d new_fsp (new_fsp + length v) v;
     let meta_offset = PAGE_FIXED_HEADER_LEN + HEAP_PAGE_FIXED_METADATA_SIZE
                       + slot_index * SLOT_METADATA_SIZE;
     d \<leftarrow> slice_set d meta_offset (meta_offset + OFFSET_NUM_BYTES)
            (to_le_bytes (word_of_nat new_fsp :: u16));
     repack ss d new_fsp }"

definition compact_page :: "Page \<Rightarrow> Page option" where
  "compact_page p = do {
     num_slots \<leftarrow> get_num_slots p;
     live_slots \<leftarrow> collect_live (data p) [0..<unat num_slots];
     let live_slots = sort_key (\<lambda>s. length (snd s)) live_slots;
     (d, new_fsp) \<leftarrow> repack live_slots (data p) PAGE_SIZE;
     let p = p\<lparr>data := d\<rparr>;
     p \<leftarrow> set_free_space_ptr p (word_of_nat new_fsp);
     set_deleted_bytes p 0 }"

section \<open>The operations\<close>

definition write_value_at_slot :: "Page \<Rightarrow> nat \<Rightarrow> bytes \<Rightarrow> Page option" where
  "write_value_at_slot p slot_offset bs = do {
     fsp \<leftarrow> get_free_space_ptr p;
     hs \<leftarrow> get_header_size p;
     gap \<leftarrow> usize_sub (unat fsp) hs;
     p \<leftarrow> (if length bs > gap then compact_page p else Some p);
     fsp \<leftarrow> get_free_space_ptr p;
     let current_fsp = unat fsp;
     new_fsp \<leftarrow> usize_sub current_fsp (length bs);
     d \<leftarrow> slice_set (data p) new_fsp current_fsp bs;
     let p = p\<lparr>data := d\<rparr>;
     p \<leftarrow> set_free_space_ptr p (word_of_nat new_fsp);
     d \<leftarrow> slice_set (data p) slot_offset (slot_offset + OFFSET_NUM_BYTES)
            (to_le_bytes (word_of_nat new_fsp :: u16));
     d \<leftarrow> slice_set d (slot_offset + OFFSET_NUM_BYTES) (slot_offset + SLOT_METADATA_SIZE)
            (to_le_bytes (word_of_nat (length bs) :: u16));
     Some (p\<lparr>data := d\<rparr>) }"

definition init_heap_page :: "Page \<Rightarrow> Page option" where
  "init_heap_page p = set_free_space_ptr p (word_of_nat PAGE_SIZE)"

definition add_value :: "Page \<Rightarrow> bytes \<Rightarrow> (Page \<times> SlotId option) option" where
  "add_value p bs = do {
     slot_offset \<leftarrow> find_next_free_slot p;
     hs \<leftarrow> get_header_size p;
     let is_new_slot = slot_offset \<ge> hs;
     refused \<leftarrow>
       (if is_new_slot then do {
          fsp \<leftarrow> get_free_space_ptr p;
          gap \<leftarrow> usize_sub (unat fsp) hs;
          free \<leftarrow> get_free_space p;
          Some (gap < SLOT_METADATA_SIZE \<or> length bs + SLOT_METADATA_SIZE \<ge> free) }
        else do {
          free \<leftarrow> get_free_space p;
          Some (length bs \<ge> free) });
     if refused then Some (p, None)
     else do {
       p \<leftarrow>
         (if is_new_slot then do {
            (p, _) \<leftarrow> increment_num_slots p;
            d \<leftarrow> slice_set (data p) slot_offset (slot_offset + SLOT_METADATA_SIZE)
                   (replicate SLOT_METADATA_SIZE 0);
            Some (p\<lparr>data := d\<rparr>) }
          else do {
            n \<leftarrow> get_deleted_slot_count p;
            n \<leftarrow> checked_sub n 1;
            set_deleted_slot_count p n });
       x \<leftarrow> usize_sub slot_offset PAGE_FIXED_HEADER_LEN;
       x \<leftarrow> usize_sub x HEAP_PAGE_FIXED_METADATA_SIZE;
       let slot_id = (word_of_nat (x div SLOT_METADATA_SIZE) :: SlotId);
       p \<leftarrow> write_value_at_slot p slot_offset bs;
       Some (p, Some slot_id) } }"

definition get_value :: "Page \<Rightarrow> SlotId \<Rightarrow> bytes option option" where
  "get_value p sid = do {
     offset \<leftarrow> get_slot_metadata_offset p sid;
     if offset < 0 then Some None
     else do {
       let m = nat offset;
       off \<leftarrow> read_u16 (data p) m (m + OFFSET_NUM_BYTES);
       len \<leftarrow> read_u16 (data p) (m + OFFSET_NUM_BYTES) (m + SLOT_METADATA_SIZE);
       let data_offset = unat off;
       let data_length = unat len;
       if data_length = 0 \<or> data_offset + data_length > PAGE_SIZE then Some None
       else do {
         v \<leftarrow> slice_get (data p) data_offset (data_offset + data_length);
         Some (Some v) } } }"

text \<open>Freeing the region of a value, as \<open>delete_value\<close> and \<open>update_value\<close> both do it: zero the bytes,
  clear the length, then move the free space pointer or count a hole.\<close>

definition free_region :: "Page \<Rightarrow> nat \<Rightarrow> nat \<Rightarrow> nat \<Rightarrow> Page option" where
  "free_region p m data_offset data_length = do {
     d \<leftarrow> slice_set (data p) data_offset (data_offset + data_length) (replicate data_length 0);
     d \<leftarrow> slice_set d (m + OFFSET_NUM_BYTES) (m + SLOT_METADATA_SIZE) (to_le_bytes (0 :: u16));
     let p = p\<lparr>data := d\<rparr>;
     fsp \<leftarrow> get_free_space_ptr p;
     if data_offset = unat fsp then
       set_free_space_ptr p (word_of_nat (data_offset + data_length))
     else do {
       del \<leftarrow> get_deleted_bytes p;
       del \<leftarrow> checked_add del (word_of_nat data_length);
       set_deleted_bytes p del } }"

definition delete_value :: "Page \<Rightarrow> SlotId \<Rightarrow> (Page \<times> unit option) option" where
  "delete_value p sid = do {
     offset \<leftarrow> get_slot_metadata_offset p sid;
     if offset < 0 then Some (p, None)
     else do {
       let m = nat offset;
       off \<leftarrow> read_u16 (data p) m (m + OFFSET_NUM_BYTES);
       len \<leftarrow> read_u16 (data p) (m + OFFSET_NUM_BYTES) (m + SLOT_METADATA_SIZE);
       let data_offset = unat off;
       let data_length = unat len;
       if data_length = 0 \<or> data_offset + data_length > PAGE_SIZE then Some (p, None)
       else do {
         p \<leftarrow> free_region p m data_offset data_length;
         n \<leftarrow> get_deleted_slot_count p;
         n \<leftarrow> checked_add n 1;
         p \<leftarrow> set_deleted_slot_count p n;
         Some (p, Some ()) } } }"

definition update_value :: "Page \<Rightarrow> SlotId \<Rightarrow> bytes \<Rightarrow> (Page \<times> unit option) option" where
  "update_value p sid bs = do {
     offset \<leftarrow> get_slot_metadata_offset p sid;
     if offset < 0 then Some (p, None)
     else do {
       let m = nat offset;
       off \<leftarrow> read_u16 (data p) m (m + OFFSET_NUM_BYTES);
       len \<leftarrow> read_u16 (data p) (m + OFFSET_NUM_BYTES) (m + SLOT_METADATA_SIZE);
       let freed_ptr = unat off;
       let freed_len = unat len;
       if freed_len = 0 \<or> freed_ptr + freed_len > PAGE_SIZE then Some (p, None)
       else if length bs \<le> freed_len then do {
         d \<leftarrow> slice_set (data p) freed_ptr (freed_ptr + freed_len) (replicate freed_len 0);
         d \<leftarrow> slice_set d freed_ptr (freed_ptr + length bs) bs;
         d \<leftarrow> slice_set d (m + OFFSET_NUM_BYTES) (m + SLOT_METADATA_SIZE)
                (to_le_bytes (word_of_nat (length bs) :: u16));
         let p = p\<lparr>data := d\<rparr>;
         let waste = freed_len - length bs;
         p \<leftarrow> (if waste > 0 then do {
                  del \<leftarrow> get_deleted_bytes p;
                  del \<leftarrow> checked_add del (word_of_nat waste);
                  set_deleted_bytes p del }
                else Some p);
         Some (p, Some ()) }
       else do {
         free \<leftarrow> get_free_space p;
         if length bs \<ge> free + freed_len then Some (p, None)
         else do {
           p \<leftarrow> free_region p m freed_ptr freed_len;
           p \<leftarrow> write_value_at_slot p m bs;
           Some (p, Some ()) } } } }"

section \<open>The iterator\<close>

text \<open>\<open>HeapPageIter\<close>: the page is borrowed, the state is the current slot. \<open>next\<close> skips free slots.\<close>

record HeapPageIter =
  iter_page :: Page
  current_slot :: SlotId

definition heap_iter :: "Page \<Rightarrow> HeapPageIter" where
  "heap_iter p = \<lparr>iter_page = p, current_slot = 0\<rparr>"

function iter_next_loop :: "Page \<Rightarrow> u16 \<Rightarrow> SlotId \<Rightarrow> (SlotId \<times> (bytes \<times> SlotId) option) option" where
  "iter_next_loop p num_slots cur =
     (if cur < num_slots then do {
        v \<leftarrow> get_value p cur;
        (case v of
           Some bs \<Rightarrow> Some (cur + 1, Some (bs, cur))
         | None \<Rightarrow> iter_next_loop p num_slots (cur + 1)) }
      else Some (cur, None))"
  by pat_completeness auto
termination
proof (relation "measure (\<lambda>(p, n, c). unat n - unat c)")
  fix p :: Page and n c :: u16 and v
  assume "c < n"
  then have "unat (c + 1) = unat c + 1"
    by (rule unat_add_one)
  then show "((p, n, c + 1), (p, n, c)) \<in> measure (\<lambda>(p, n, c). unat n - unat c)"
    using \<open>c < n\<close> by (simp add: word_less_nat_alt)
qed simp

declare iter_next_loop.simps [simp del]

definition heap_iter_next :: "HeapPageIter \<Rightarrow> (HeapPageIter \<times> (bytes \<times> SlotId) option) option" where
  "heap_iter_next it = do {
     num_slots \<leftarrow> get_num_slots (iter_page it);
     (cur, r) \<leftarrow> iter_next_loop (iter_page it) num_slots (current_slot it);
     Some (it\<lparr>current_slot := cur\<rparr>, r) }"

end
