(* ===== verification/HeapPageLaws.thy ===== *)
theory HeapPageLaws
  imports HeapPage
begin

text \<open>
  The layout invariant of the slotted page and its laws: every operation of \<open>HeapPage\<close> returns on a
  well-formed page, keeps it well-formed, and acts on the map of slots as its documentation says.
\<close>

section \<open>Views of the byte array\<close>

definition nslots :: "bytes \<Rightarrow> nat" where "nslots d = unat (u16_at d 16)"
definition fsp_of :: "bytes \<Rightarrow> nat" where "fsp_of d = unat (u16_at d 18)"
definition holes :: "bytes \<Rightarrow> nat" where "holes d = unat (u16_at d 20)"
definition free_slots :: "bytes \<Rightarrow> nat" where "free_slots d = unat (u16_at d 22)"
definition slot_off :: "bytes \<Rightarrow> nat \<Rightarrow> nat" where "slot_off d i = unat (u16_at d (24 + 4 * i))"
definition slot_len :: "bytes \<Rightarrow> nat \<Rightarrow> nat" where "slot_len d i = unat (u16_at d (26 + 4 * i))"

definition slot_val :: "bytes \<Rightarrow> nat \<Rightarrow> bytes" where
  "slot_val d i = slice d (slot_off d i) (slot_len d i)"

definition hdr :: "bytes \<Rightarrow> nat" where "hdr d = 24 + 4 * nslots d"

lemmas view_defs = nslots_def fsp_of_def holes_def free_slots_def slot_off_def slot_len_def

definition disjoint_regions :: "nat \<Rightarrow> nat \<Rightarrow> nat \<Rightarrow> nat \<Rightarrow> bool" where
  "disjoint_regions a m b n \<longleftrightarrow> a + m \<le> b \<or> b + n \<le> a"

definition layout_ok :: "bytes \<Rightarrow> bool" where
  "layout_ok d \<longleftrightarrow>
     length d = PAGE_SIZE \<and> hdr d \<le> fsp_of d \<and> fsp_of d \<le> PAGE_SIZE \<and>
     (\<forall>i<nslots d. slot_len d i \<noteq> 0 \<longrightarrow>
        fsp_of d \<le> slot_off d i \<and> slot_off d i + slot_len d i \<le> PAGE_SIZE) \<and>
     (\<forall>i<nslots d. \<forall>j<nslots d. i \<noteq> j \<longrightarrow> slot_len d i \<noteq> 0 \<longrightarrow> slot_len d j \<noteq> 0 \<longrightarrow>
        disjoint_regions (slot_off d i) (slot_len d i) (slot_off d j) (slot_len d j)) \<and>
     fsp_of d + (\<Sum>i<nslots d. slot_len d i) + holes d = PAGE_SIZE"

text \<open>The deleted slot count is the number of slots of length zero.\<close>

definition heap_wf :: "Page \<Rightarrow> bool" where
  "heap_wf p \<longleftrightarrow> layout_ok (data p) \<and>
     free_slots (data p) = length (filter (\<lambda>i. slot_len (data p) i = 0) [0..<nslots (data p)])"

text \<open>What the page stores: the value of every slot in use.\<close>

definition heap_view :: "Page \<Rightarrow> SlotId \<Rightarrow> bytes option" where
  "heap_view p s =
     (if unat s < nslots (data p) \<and> slot_len (data p) (unat s) \<noteq> 0
      then Some (slot_val (data p) (unat s)) else None)"

section \<open>Accessors\<close>


lemma page_wf_put_u16 [simp]: "page_wf p \<Longrightarrow> a + 2 \<le> 4096 \<Longrightarrow> page_wf (p\<lparr>data := put_u16 (data p) a w\<rparr>)"
  by (simp add: page_wf_def)

lemma get_num_slots_Some [simp]: "page_wf p \<Longrightarrow> get_num_slots p = Some (u16_at (data p) 16)"
  by (simp add: get_num_slots_def deref_def slice_drop page_wf_def)

lemma get_free_space_ptr_Some [simp]: "page_wf p \<Longrightarrow> get_free_space_ptr p = Some (u16_at (data p) 18)"
  by (simp add: get_free_space_ptr_def deref_def slice_drop page_wf_def)

lemma get_deleted_bytes_Some [simp]: "page_wf p \<Longrightarrow> get_deleted_bytes p = Some (u16_at (data p) 20)"
  by (simp add: get_deleted_bytes_def deref_def slice_drop page_wf_def)

lemma get_deleted_slot_count_Some [simp]:
  "page_wf p \<Longrightarrow> get_deleted_slot_count p = Some (u16_at (data p) 22)"
  by (simp add: get_deleted_slot_count_def deref_def slice_drop page_wf_def)

lemma set_num_slots_Some [simp]:
  "page_wf p \<Longrightarrow> set_num_slots p n = Some (p\<lparr>data := put_u16 (data p) 16 n\<rparr>)"
  by (simp add: set_num_slots_def deref_def deref_mut_def put_drop put_u16_def page_wf_def)

lemma set_free_space_ptr_Some [simp]:
  "page_wf p \<Longrightarrow> set_free_space_ptr p n = Some (p\<lparr>data := put_u16 (data p) 18 n\<rparr>)"
  by (simp add: set_free_space_ptr_def deref_def deref_mut_def put_drop put_u16_def page_wf_def)

lemma set_deleted_bytes_Some [simp]:
  "page_wf p \<Longrightarrow> set_deleted_bytes p n = Some (p\<lparr>data := put_u16 (data p) 20 n\<rparr>)"
  by (simp add: set_deleted_bytes_def deref_def deref_mut_def put_drop put_u16_def page_wf_def)

lemma set_deleted_slot_count_Some [simp]:
  "page_wf p \<Longrightarrow> set_deleted_slot_count p n = Some (p\<lparr>data := put_u16 (data p) 22 n\<rparr>)"
  by (simp add: set_deleted_slot_count_def deref_def deref_mut_def put_drop put_u16_def page_wf_def)

lemma get_header_size_Some [simp]: "page_wf p \<Longrightarrow> get_header_size p = Some (hdr (data p))"
  by (simp add: get_header_size_def hdr_def nslots_def)

lemma get_free_space_Some [simp]:
  "page_wf p \<Longrightarrow> hdr (data p) \<le> fsp_of (data p) \<Longrightarrow>
     get_free_space p = Some (fsp_of (data p) - hdr (data p) + holes (data p))"
  by (simp add: get_free_space_def fsp_of_def holes_def)

lemma read_u16_Some [simp]: "b = a + 2 \<Longrightarrow> b \<le> length d \<Longrightarrow> read_u16 d a b = Some (u16_at d a)"
  by (simp add: read_u16_def)

lemma layout_ok_wf: "layout_ok (data p) \<Longrightarrow> page_wf p"
  by (simp add: layout_ok_def page_wf_def)

lemma unat_u16_of_nat [simp]: "n < 65536 \<Longrightarrow> unat (word_of_nat n :: u16) = n"
  by (simp add: unat_of_nat)

section \<open>Repacking\<close>

lemma slot_fields_disjoint: "i \<noteq> j \<Longrightarrow> disjoint_regions (24 + 4 * i) 2 (24 + 4 * j) 2"
  unfolding disjoint_regions_def by presburger

text \<open>The outcome of the loop: everything at or above \<open>f\<close> and, below \<open>H\<close>, everything but the offset
  fields of the listed slots is as before; the values lie between \<open>f'\<close> and \<open>f\<close>, one after the other.\<close>

definition repacked ::
  "nat \<Rightarrow> (nat \<times> bytes) list \<Rightarrow> bytes \<Rightarrow> nat \<Rightarrow> bytes \<Rightarrow> nat \<Rightarrow> bool" where
  "repacked H xs d f d' f' \<longleftrightarrow>
     length d' = 4096 \<and> f' + sum_list (map (\<lambda>s. length (snd s)) xs) = f \<and>
     (\<forall>a n. a + n \<le> H \<longrightarrow> (\<forall>s \<in> set xs. disjoint_regions a n (24 + 4 * fst s) 2) \<longrightarrow>
        slice d' a n = slice d a n) \<and>
     (\<forall>a n. f \<le> a \<longrightarrow> a + n \<le> 4096 \<longrightarrow> slice d' a n = slice d a n) \<and>
     (\<forall>s \<in> set xs. f' \<le> slot_off d' (fst s) \<and> slot_off d' (fst s) + length (snd s) \<le> f \<and>
        slice d' (slot_off d' (fst s)) (length (snd s)) = snd s) \<and>
     (\<forall>s \<in> set xs. \<forall>t \<in> set xs. fst s \<noteq> fst t \<longrightarrow>
        disjoint_regions (slot_off d' (fst s)) (length (snd s)) (slot_off d' (fst t)) (length (snd t)))"

text \<open>One iteration: the value \<open>v\<close> of slot \<open>i\<close> is written at \<open>g\<close> and its offset field updated.\<close>

definition place :: "bytes \<Rightarrow> nat \<Rightarrow> nat \<Rightarrow> bytes \<Rightarrow> bytes" where
  "place d i g v = put_u16 (put d g v) (24 + 4 * i) (word_of_nat g)"

definition room :: "bytes \<Rightarrow> nat \<Rightarrow> nat \<Rightarrow> nat \<Rightarrow> bytes \<Rightarrow> bool" where
  "room d H i g v \<longleftrightarrow> length d = 4096 \<and> 28 + 4 * i \<le> H \<and> H \<le> g \<and> g + length v \<le> 4096"

lemma length_place: "room d H i g v \<Longrightarrow> length (place d i g v) = 4096"
  by (simp add: place_def room_def)

lemma place_low:
  "room d H i g v \<Longrightarrow> a + n \<le> H \<Longrightarrow> disjoint_regions a n (24 + 4 * i) 2 \<Longrightarrow>
     slice (place d i g v) a n = slice d a n"
  by (simp add: place_def room_def disjoint_regions_def slice_put_u16_disjoint slice_put_disjoint)

lemma place_high:
  "room d H i g v \<Longrightarrow> g + length v \<le> a \<Longrightarrow> a + n \<le> 4096 \<Longrightarrow>
     slice (place d i g v) a n = slice d a n"
  by (simp add: place_def room_def slice_put_u16_disjoint slice_put_disjoint)

lemma place_value: "room d H i g v \<Longrightarrow> slice (place d i g v) g (length v) = v"
  by (simp add: place_def room_def slice_put_u16_disjoint slice_put_same)

lemma place_offset: "room d H i g v \<Longrightarrow> slot_off (place d i g v) i = g"
  by (simp add: place_def room_def slot_off_def u16_at_put_u16_same)

lemma repack_step:
  assumes "room d H i g v"
  shows "repack ((i, v) # xs) d (g + length v) = repack xs (place d i g v) g"
proof -
  have "slice_set d g (g + length v) v = Some (put d g v)"
    using assms by (simp add: room_def)
  moreover have "slice_set (put d g v) (24 + i * 4) (26 + i * 4) (to_le_bytes (word_of_nat g :: u16))
      = Some (place d i g v)"
    using assms by (simp add: room_def place_def put_u16_def mult.commute)
  ultimately show ?thesis by (simp add: usize_sub_def)
qed

lemma repacked_offset_kept:
  assumes "repacked H xs e g d' f'" and "\<forall>s \<in> set xs. fst s \<noteq> i" and "28 + 4 * i \<le> H"
  shows "slot_off d' i = slot_off e i"
proof -
  have "\<forall>s \<in> set xs. disjoint_regions (24 + 4 * i) 2 (24 + 4 * fst s) 2"
    using assms(2) slot_fields_disjoint by metis
  moreover have "24 + 4 * i + 2 \<le> H" using assms(3) by simp
  ultimately have "slice d' (24 + 4 * i) 2 = slice e (24 + 4 * i) 2"
    using assms(1) unfolding repacked_def by blast
  then show ?thesis by (simp add: slot_off_def u16_at_def)
qed

lemma repacked_Cons:
  assumes room: "room d H i g v"
    and rep: "repacked H xs (place d i g v) g d' f'" and new: "\<forall>s \<in> set xs. fst s \<noteq> i"
  shows "repacked H ((i, v) # xs) d (g + length v) d' f'"
proof -
  note r = rep [unfolded repacked_def]
  have off: "slot_off d' i = g"
    using repacked_offset_kept [OF rep new] room place_offset [OF room] by (simp add: room_def)
  have val: "slice d' g (length v) = v"
    using r room place_value [OF room] by (simp add: room_def)
  have low: "slice d' a n = slice d a n"
    if "a + n \<le> H" "\<forall>s \<in> set ((i, v) # xs). disjoint_regions a n (24 + 4 * fst s) 2" for a n
    using that r place_low [OF room] by simp
  have high: "slice d' a n = slice d a n" if "g + length v \<le> a" "a + n \<le> 4096" for a n
    using that r place_high [OF room] by simp
  have "f' \<le> g" using r by linarith
  have vals: "\<forall>s \<in> set ((i, v) # xs). f' \<le> slot_off d' (fst s) \<and>
      slot_off d' (fst s) + length (snd s) \<le> g + length v \<and>
      slice d' (slot_off d' (fst s)) (length (snd s)) = snd s"
    using r off val \<open>f' \<le> g\<close> by fastforce
  have below: "slot_off d' (fst s) + length (snd s) \<le> g" if "s \<in> set xs" for s
    using r that by blast
  have disj: "disjoint_regions (slot_off d' (fst s)) (length (snd s)) (slot_off d' (fst t)) (length (snd t))"
    if "s \<in> set ((i, v) # xs)" "t \<in> set ((i, v) # xs)" "fst s \<noteq> fst t" for s t
  proof -
    have "\<forall>s \<in> set xs. \<forall>t \<in> set xs. fst s \<noteq> fst t \<longrightarrow>
        disjoint_regions (slot_off d' (fst s)) (length (snd s)) (slot_off d' (fst t)) (length (snd t))"
      using r by blast
    then show ?thesis
      using that off below [of s] below [of t] by (auto simp: disjoint_regions_def)
  qed
  have len: "length d' = 4096" and sum: "f' + sum_list (map (\<lambda>s. length (snd s)) xs) = g"
    using r by blast+
  show ?thesis
    unfolding repacked_def using len sum low high vals disj by (intro conjI) (simp_all (no_asm_simp))
qed

lemma repack_correct:
  assumes "length d = 4096" and "f \<le> 4096"
    and "H + sum_list (map (\<lambda>s. length (snd s)) xs) \<le> f"
    and "distinct (map fst xs)" and "\<forall>s \<in> set xs. 28 + 4 * fst s \<le> H"
  shows "\<exists>d' f'. repack xs d f = Some (d', f') \<and> repacked H xs d f d' f'"
  using assms
proof (induction xs arbitrary: d f)
  case Nil
  then show ?case by (simp add: repacked_def)
next
  case (Cons x xs)
  obtain i v where x: "x = (i, v)" by (cases x)
  define g where "g = f - length v"
  have f: "f = g + length v" and Hg: "H + sum_list (map (\<lambda>s. length (snd s)) xs) \<le> g"
    using Cons.prems(3) by (auto simp: g_def x)
  have room: "room d H i g v"
    using Cons.prems Hg f by (simp add: x room_def)
  have new: "\<forall>s \<in> set xs. fst s \<noteq> i" using Cons.prems(4) by (force simp: x)
  have "\<exists>d' f'. repack xs (place d i g v) g = Some (d', f') \<and> repacked H xs (place d i g v) g d' f'"
    using Cons.prems Hg f length_place [OF room] by (intro Cons.IH) auto
  then show ?case
    using repack_step [OF room] repacked_Cons [OF room _ new] unfolding x f by auto
qed

section \<open>Compaction\<close>

text \<open>Two arrays that hold the same slots with the same values, perhaps in other places.\<close>

definition same_slots :: "bytes \<Rightarrow> bytes \<Rightarrow> bool" where
  "same_slots d d' \<longleftrightarrow>
     nslots d' = nslots d \<and> free_slots d' = free_slots d \<and> slice d' 0 16 = slice d 0 16 \<and>
     (\<forall>i<nslots d. slot_len d' i = slot_len d i \<and>
        (slot_len d i \<noteq> 0 \<longrightarrow> slot_val d' i = slot_val d i))"

definition live_list :: "bytes \<Rightarrow> (nat \<times> bytes) list" where
  "live_list d = map (\<lambda>i. (i, slot_val d i)) (filter (\<lambda>i. slot_len d i \<noteq> 0) [0..<nslots d])"

lemma layout_okD:
  assumes "layout_ok d"
  shows "length d = 4096" "hdr d \<le> fsp_of d" "fsp_of d \<le> 4096"
    "fsp_of d + (\<Sum>i<nslots d. slot_len d i) + holes d = 4096"
    "\<And>i. i < nslots d \<Longrightarrow> slot_len d i \<noteq> 0 \<Longrightarrow> fsp_of d \<le> slot_off d i"
    "\<And>i. i < nslots d \<Longrightarrow> slot_len d i \<noteq> 0 \<Longrightarrow> slot_off d i + slot_len d i \<le> 4096"
    "\<And>i. i < nslots d \<Longrightarrow> 28 + 4 * i \<le> hdr d"
    "\<And>i. i < nslots d \<Longrightarrow> 28 + 4 * i \<le> 4096"
  using assms by (auto simp: layout_ok_def hdr_def)

lemma collect_live_Some:
  assumes ok: "layout_ok d" and "\<forall>i \<in> set is. i < nslots d"
  shows "collect_live d is =
    Some (map (\<lambda>i. (i, slot_val d i)) (filter (\<lambda>i. slot_len d i \<noteq> 0) is))"
  using assms(2)
proof (induction "is")
  case Nil
  then show ?case by simp
next
  case (Cons i "is")
  have i: "i < nslots d" using Cons.prems by simp
  have off: "read_u16 d (24 + i * 4) (26 + i * 4) = Some (u16_at d (24 + 4 * i))"
    and len: "read_u16 d (26 + i * 4) (28 + i * 4) = Some (u16_at d (26 + 4 * i))"
    using layout_okD(1) [OF ok] layout_okD(8) [OF ok i] by (simp_all add: mult.commute)
  show ?case
    using off len layout_okD(1) [OF ok] layout_okD(6) [OF ok i] Cons by (auto simp: slot_len_def slot_off_def slot_val_def)
qed

lemma live_list_props:
  assumes ok: "layout_ok d"
  shows "collect_live d [0..<nslots d] = Some (live_list d)"
    and "distinct (map fst (live_list d))"
    and "set (live_list d) = {(i, slot_val d i) | i. i < nslots d \<and> slot_len d i \<noteq> 0}"
    and "sum_list (map (\<lambda>s. length (snd s)) (live_list d)) = (\<Sum>i<nslots d. slot_len d i)"
    and "\<And>i. i < nslots d \<Longrightarrow> slot_len d i \<noteq> 0 \<Longrightarrow> length (slot_val d i) = slot_len d i"
proof -
  show "collect_live d [0..<nslots d] = Some (live_list d)"
    using collect_live_Some [OF ok] by (simp add: live_list_def)
  show "distinct (map fst (live_list d))"
    by (simp add: live_list_def comp_def)
  show "set (live_list d) = {(i, slot_val d i) | i. i < nslots d \<and> slot_len d i \<noteq> 0}"
    by (auto simp: live_list_def)
  show len: "length (slot_val d i) = slot_len d i" if "i < nslots d" "slot_len d i \<noteq> 0" for i
    using layout_okD(1) [OF ok] layout_okD(6) [OF ok that] by (simp add: slot_val_def)
  have "map (\<lambda>s. length (snd s)) (live_list d)
      = map (slot_len d) (filter (\<lambda>i. slot_len d i \<noteq> 0) [0..<nslots d])"
    using len by (simp add: live_list_def)
  then show "sum_list (map (\<lambda>s. length (snd s)) (live_list d)) = (\<Sum>i<nslots d. slot_len d i)"
    by (simp only: sum_list_filter_zero) (simp add: sum_list_distinct_conv_sum_set atLeast0LessThan)
qed

text \<open>What compaction does to the array: the repacked array with the new pointer and no holes.\<close>

definition compacted :: "bytes \<Rightarrow> nat \<Rightarrow> bytes" where
  "compacted d f = put_u16 (put_u16 d 18 (word_of_nat f)) 20 0"

lemma compacted_fields:
  assumes "length d = 4096" and "f \<le> 4096"
  shows "length (compacted d f) = 4096" "fsp_of (compacted d f) = f" "holes (compacted d f) = 0"
    "nslots (compacted d f) = nslots d" "free_slots (compacted d f) = free_slots d"
    "slice (compacted d f) 0 16 = slice d 0 16"
    "\<And>a n. 22 \<le> a \<Longrightarrow> a + n \<le> 4096 \<Longrightarrow> slice (compacted d f) a n = slice d a n"
  using assms by (simp_all add: compacted_def view_defs slice_simps)

lemma compact_page_Some:
  assumes ok: "layout_ok (data p)"
  obtains d' f where "compact_page p = Some (p\<lparr>data := compacted d' f\<rparr>)" "length d' = 4096"
    "f + (\<Sum>i<nslots (data p). slot_len (data p) i) = 4096"
    "repacked (hdr (data p)) (sort_key (\<lambda>s. length (snd s)) (live_list (data p))) (data p) 4096 d' f"
proof -
  let ?d = "data p" and ?xs = "sort_key (\<lambda>s. length (snd s)) (live_list (data p))"
  note live = live_list_props [OF ok] and l = layout_okD [OF ok]
  have sum: "sum_list (map (\<lambda>s. length (snd s)) ?xs) = (\<Sum>i<nslots ?d. slot_len ?d i)"
    using live(4) by simp
  have dist: "distinct (map fst ?xs)"
    using live(2) by simp
  have "\<exists>d' f'. repack ?xs ?d 4096 = Some (d', f') \<and> repacked (hdr ?d) ?xs ?d 4096 d' f'"
    by (rule repack_correct) (use sum dist l live(3) in auto)
  then obtain d' f where r: "repack ?xs ?d 4096 = Some (d', f)" "repacked (hdr ?d) ?xs ?d 4096 d' f"
    by blast
  have f: "f + (\<Sum>i<nslots ?d. slot_len ?d i) = 4096" and len: "length d' = 4096"
    using r(2) unfolding repacked_def sum by blast+
  have wf: "page_wf p" "page_wf (p\<lparr>data := d'\<rparr>)" "page_wf (p\<lparr>data := put_u16 d' 18 (word_of_nat f)\<rparr>)"
    using l(1) len by (simp_all add: page_wf_def)
  have "compact_page p = Some (p\<lparr>data := compacted d' f\<rparr>)"
    using wf r(1) live(1) by (simp add: compact_page_def nslots_def [symmetric] compacted_def)
  then show thesis using r(2) f len that by blast
qed

lemma compacted_slots:
  assumes "length d = 4096" and "f \<le> 4096" and "28 + 4 * i \<le> 4096"
  shows "slot_off (compacted d f) i = slot_off d i" "slot_len (compacted d f) i = slot_len d i"
  using compacted_fields(7) [OF assms(1,2)] assms(3) by (simp_all add: slot_off_def slot_len_def u16_at_def)

lemma repacked_kept:
  assumes "repacked H xs d f d' f'" and "H \<le> 4096"
  shows "a + n \<le> 24 \<Longrightarrow> 24 \<le> H \<Longrightarrow> slice d' a n = slice d a n"
    and "28 + 4 * i \<le> H \<Longrightarrow> slot_len d' i = slot_len d i"
proof -
  have low: "a + n \<le> H \<Longrightarrow> (\<forall>s \<in> set xs. disjoint_regions a n (24 + 4 * fst s) 2) \<Longrightarrow>
      slice d' a n = slice d a n" for a n
    using assms(1) unfolding repacked_def by blast
  show "slice d' a n = slice d a n" if "a + n \<le> 24" "24 \<le> H"
    using that by (intro low) (auto simp: disjoint_regions_def)
  have "disjoint_regions (26 + 4 * i) 2 (24 + 4 * j) 2" for j
    unfolding disjoint_regions_def by presburger
  then have "slice d' (26 + 4 * i) 2 = slice d (26 + 4 * i) 2" if "28 + 4 * i \<le> H"
    using that by (intro low) auto
  then show "28 + 4 * i \<le> H \<Longrightarrow> slot_len d' i = slot_len d i"
    by (simp add: slot_len_def u16_at_def)
qed

lemma compact_slot:
  assumes ok: "layout_ok d" and rep: "repacked (hdr d) (sort_key k (live_list d)) d 4096 d' f"
    and i: "i < nslots d" "slot_len d i \<noteq> 0"
  shows "f \<le> slot_off d' i" "slot_off d' i + slot_len d i \<le> 4096"
    "slice d' (slot_off d' i) (slot_len d i) = slot_val d i"
    "\<And>j. j < nslots d \<Longrightarrow> slot_len d j \<noteq> 0 \<Longrightarrow> i \<noteq> j \<Longrightarrow>
       disjoint_regions (slot_off d' i) (slot_len d i) (slot_off d' j) (slot_len d j)"
proof -
  have mem: "(j, slot_val d j) \<in> set (sort_key k (live_list d))" and
    len: "length (slot_val d j) = slot_len d j" if "j < nslots d" "slot_len d j \<noteq> 0" for j
    using live_list_props(3,5) [OF ok] that by auto
  note r = rep [unfolded repacked_def]
  show "f \<le> slot_off d' i" "slot_off d' i + slot_len d i \<le> 4096"
    "slice d' (slot_off d' i) (slot_len d i) = slot_val d i"
    using r mem [OF i] len [OF i] by fastforce+
  show "disjoint_regions (slot_off d' i) (slot_len d i) (slot_off d' j) (slot_len d j)"
    if "j < nslots d" "slot_len d j \<noteq> 0" "i \<noteq> j" for j
  proof -
    have "\<forall>s \<in> set (sort_key k (live_list d)). \<forall>t \<in> set (sort_key k (live_list d)).
        fst s \<noteq> fst t \<longrightarrow>
        disjoint_regions (slot_off d' (fst s)) (length (snd s)) (slot_off d' (fst t)) (length (snd t))"
      using r by blast
    from bspec [OF bspec [OF this mem [OF i]] mem [OF that(1,2)]] show ?thesis
      using len [OF i] len [OF that(1,2)] that(3) by simp
  qed
qed

lemma compact_ok:
  assumes ok: "layout_ok (data p)"
  obtains p' where "compact_page p = Some p'" "layout_ok (data p')" "holes (data p') = 0"
    "same_slots (data p) (data p')"
proof -
  let ?d = "data p"
  obtain d' f where c: "compact_page p = Some (p\<lparr>data := compacted d' f\<rparr>)" "length d' = 4096"
    "f + (\<Sum>i<nslots ?d. slot_len ?d i) = 4096"
    and rep: "repacked (hdr ?d) (sort_key (\<lambda>s. length (snd s)) (live_list ?d)) ?d 4096 d' f"
    using compact_page_Some [OF ok] by blast
  note l = layout_okD [OF ok]
  have H: "hdr ?d \<le> 4096" "24 \<le> hdr ?d" using l(2,3) by (simp_all add: hdr_def)
  have f: "f \<le> 4096" using c(3) by simp
  have low: "a + n \<le> 24 \<Longrightarrow> slice d' a n = slice ?d a n" for a n
    using repacked_kept(1) [OF rep] H by blast
  note cf = compacted_fields [OF c(2) f] and cs = compacted_slots [OF c(2) f l(8)]
  have n: "nslots d' = nslots ?d" "free_slots d' = free_slots ?d"
    using low by (simp_all add: view_defs u16_at_def)
  have len: "slot_len d' i = slot_len ?d i" if "i < nslots ?d" for i
    using repacked_kept(2) [OF rep H(1)] l(7) that by blast
  note slot = compact_slot [OF ok rep]
  have val: "slot_val (compacted d' f) i = slot_val ?d i" if "i < nslots ?d" "slot_len ?d i \<noteq> 0" for i
  proof -
    have "22 \<le> slot_off d' i" using slot(1) [OF that] c(3) l(2,4) H(2) by linarith
    then show ?thesis
      using slot(2,3) [OF that] cs [OF that(1)] len [OF that(1)] cf(7) by (simp add: slot_val_def)
  qed
  have "same_slots ?d (compacted d' f)"
    using cf(4,5,6) n low [of 0 16] cs(2) len val by (simp add: same_slots_def)
  moreover have "layout_ok (compacted d' f)"
    using cf(1-4) n cs len slot(1,2,4) c(3) l(2,4) f by (simp add: layout_ok_def hdr_def)
  ultimately show thesis using that c(1) cf(3) by simp
qed

section \<open>Writing a value into a free slot\<close>

text \<open>\<open>slots_upd d i v d'\<close>: slot \<open>i\<close> holds \<open>v\<close> in \<open>d'\<close> and every other slot what it held in \<open>d\<close>.\<close>

definition slots_upd :: "bytes \<Rightarrow> nat \<Rightarrow> bytes \<Rightarrow> bytes \<Rightarrow> bool" where
  "slots_upd d i v d' \<longleftrightarrow>
     nslots d' = nslots d \<and> slice d' 0 16 = slice d 0 16 \<and>
     slot_len d' i = length v \<and> slot_val d' i = v \<and>
     (\<forall>j<nslots d. j \<noteq> i \<longrightarrow> slot_len d' j = slot_len d j \<and>
        (slot_len d j \<noteq> 0 \<longrightarrow> slot_val d' j = slot_val d j))"

definition store :: "bytes \<Rightarrow> nat \<Rightarrow> nat \<Rightarrow> bytes \<Rightarrow> bytes" where
  "store d i g v =
     put_u16 (put_u16 (put_u16 (put d g v) 18 (word_of_nat g)) (24 + 4 * i) (word_of_nat g))
       (26 + 4 * i) (word_of_nat (length v))"

lemma store_fields:
  assumes "length d = 4096" and "28 + 4 * i \<le> g" and "g + length v \<le> 4096"
  shows "length (store d i g v) = 4096" "fsp_of (store d i g v) = g"
    "holes (store d i g v) = holes d" "nslots (store d i g v) = nslots d"
    "free_slots (store d i g v) = free_slots d" "slice (store d i g v) 0 16 = slice d 0 16"
    "slot_off (store d i g v) i = g" "slot_len (store d i g v) i = length v"
    "slice (store d i g v) g (length v) = v"
  using assms by (simp_all add: store_def view_defs slice_simps)

lemma store_other:
  assumes "length d = 4096" and "28 + 4 * i \<le> g" and "g + length v \<le> 4096"
  shows "j \<noteq> i \<Longrightarrow> 28 + 4 * j \<le> g \<Longrightarrow> slot_off (store d i g v) j = slot_off d j"
    "j \<noteq> i \<Longrightarrow> 28 + 4 * j \<le> g \<Longrightarrow> slot_len (store d i g v) j = slot_len d j"
    "g + length v \<le> a \<Longrightarrow> a + n \<le> 4096 \<Longrightarrow> slice (store d i g v) a n = slice d a n"
proof -
  show "slice (store d i g v) a n = slice d a n" if "g + length v \<le> a" "a + n \<le> 4096"
    using assms that by (simp add: store_def slice_simps)
  assume j: "j \<noteq> i" "28 + 4 * j \<le> g"
  then have "i < j \<or> j < i" by auto
  then have d: "28 + 4 * i \<le> 24 + 4 * j \<or> 28 + 4 * j \<le> 24 + 4 * i" by auto
  show "slot_off (store d i g v) j = slot_off d j"
    using assms j d by (auto simp: store_def slot_off_def slice_simps)
  show "slot_len (store d i g v) j = slot_len d j"
    using assms j d by (auto simp: store_def slot_len_def slice_simps)
qed

lemma store_ok:
  assumes ok: "layout_ok d" and i: "i < nslots d" "slot_len d i = 0"
    and fits: "hdr d + length v \<le> fsp_of d" and g: "g = fsp_of d - length v"
  shows "layout_ok (store d i g v)" and "slots_upd d i v (store d i g v)"
proof -
  note l = layout_okD [OF ok]
  have gv: "g + length v = fsp_of d" "hdr d \<le> g" using fits g by simp_all
  have pre: "length d = 4096" "28 + 4 * i \<le> g" "g + length v \<le> 4096"
    using l(1,3) l(7) [OF i(1)] gv by simp_all
  note sf = store_fields [OF pre] and so = store_other [OF pre]
  have other: "slot_off (store d i g v) j = slot_off d j" "slot_len (store d i g v) j = slot_len d j"
    if "j < nslots d" "j \<noteq> i" for j
    using so(1,2) that l(7) [OF that(1)] gv by auto
  have live: "g + length v \<le> slot_off d j \<and> slot_off d j + slot_len d j \<le> 4096"
    if "j < nslots d" "slot_len d j \<noteq> 0" for j
    using l(5,6) that gv by simp
  have val: "slot_val (store d i g v) j = slot_val d j"
    if "j < nslots d" "j \<noteq> i" "slot_len d j \<noteq> 0" for j
    using live [OF that(1,3)] other [OF that(1,2)] so(3) by (simp add: slot_val_def)
  show "slots_upd d i v (store d i g v)"
    using sf other val by (simp add: slots_upd_def slot_val_def)
  have "(\<Sum>j<nslots d. slot_len (store d i g v) j) = (\<Sum>j<nslots d. ((slot_len d)(i := length v)) j)"
    using other(2) sf(8) by (intro sum.cong) auto
  then have sum: "(\<Sum>j<nslots d. slot_len (store d i g v) j) = (\<Sum>j<nslots d. slot_len d j) + length v"
    using sum_fun_upd_nat [OF i(1), of "slot_len d" "length v"] i(2) by simp
  have bounds: "g \<le> slot_off (store d i g v) j \<and>
      slot_off (store d i g v) j + slot_len (store d i g v) j \<le> 4096"
    if "j < nslots d" "slot_len (store d i g v) j \<noteq> 0" for j
    using that live [of j] other [of j] sf(7,8) pre(3) by (cases "j = i") auto
  have disj: "disjoint_regions (slot_off (store d i g v) j) (slot_len (store d i g v) j)
      (slot_off (store d i g v) k) (slot_len (store d i g v) k)"
    if "j < nslots d" "k < nslots d" "j \<noteq> k"
      "slot_len (store d i g v) j \<noteq> 0" "slot_len (store d i g v) k \<noteq> 0" for j k
    using that live [of j] live [of k] other [of j] other [of k] sf(7,8) ok
    by (cases "j = i"; cases "k = i") (auto simp: disjoint_regions_def layout_ok_def)
  show "layout_ok (store d i g v)"
    using sf(1-4) bounds disj sum gv l(3,4) pre by (simp add: layout_ok_def hdr_def)
qed

lemma same_slots_hdr: "same_slots d d' \<Longrightarrow> hdr d' = hdr d"
  by (simp add: same_slots_def hdr_def)

lemma same_slots_sum:
  "same_slots d d' \<Longrightarrow> (\<Sum>i<nslots d'. slot_len d' i) = (\<Sum>i<nslots d. slot_len d i)"
  by (simp add: same_slots_def)

lemma slots_upd_same_slots:
  assumes "same_slots d e" and "slots_upd e i v d'" and "i < nslots d"
  shows "slots_upd d i v d'"
  using assms by (simp add: same_slots_def slots_upd_def)

text \<open>The part of \<open>write_value_at_slot\<close> after the test for compaction.\<close>

lemma write_tail:
  assumes "length (data p) = 4096" and "28 + 4 * i \<le> g" and "fsp_of (data p) = g + length v"
    and "g + length v \<le> 4096"
  shows "do {
     fsp \<leftarrow> get_free_space_ptr p;
     new_fsp \<leftarrow> usize_sub (unat fsp) (length v);
     d \<leftarrow> slice_set (data p) new_fsp (unat fsp) v;
     let p = p\<lparr>data := d\<rparr>;
     p \<leftarrow> set_free_space_ptr p (word_of_nat new_fsp);
     d \<leftarrow> slice_set (data p) (24 + 4 * i) (24 + 4 * i + 2) (to_le_bytes (word_of_nat new_fsp :: u16));
     d \<leftarrow> slice_set d (24 + 4 * i + 2) (24 + 4 * i + 4)
            (to_le_bytes (word_of_nat (length v) :: u16));
     Some (p\<lparr>data := d\<rparr>) } = Some (p\<lparr>data := store (data p) i g v\<rparr>)"
proof -
  have wf: "page_wf p" "page_wf (p\<lparr>data := put (data p) g v\<rparr>)"
    using assms by (simp_all add: page_wf_def)
  have fsp: "unat (u16_at (data p) 18) = g + length v"
    using assms(3) by (simp add: fsp_of_def)
  show ?thesis
    using wf fsp assms(1,2,4) by (simp add: store_def put_u16_def)
qed

lemma write_ok:
  assumes ok: "layout_ok (data p)" and i: "i < nslots (data p)" "slot_len (data p) i = 0"
    and fits: "hdr (data p) + (\<Sum>j<nslots (data p). slot_len (data p) j) + length v \<le> 4096"
  obtains p' where "write_value_at_slot p (24 + 4 * i) v = Some p'" "layout_ok (data p')"
    "slots_upd (data p) i v (data p')" "free_slots (data p') = free_slots (data p)" "holes (data p') \<le> holes (data p)"
proof -
  obtain q where q: "(if length v > fsp_of (data p) - hdr (data p) then compact_page p else Some p) = Some q"
    "layout_ok (data q)" "same_slots (data p) (data q)" "hdr (data q) + length v \<le> fsp_of (data q)"
    "holes (data q) \<le> holes (data p)"
  proof (cases "length v > fsp_of (data p) - hdr (data p)")
    case True
    obtain q where q: "compact_page p = Some q" "layout_ok (data q)" "holes (data q) = 0"
      "same_slots (data p) (data q)"
      using compact_ok [OF ok] by blast
    have "hdr (data q) + length v \<le> fsp_of (data q)"
      using layout_okD(4) [OF q(2)] q(3) same_slots_hdr [OF q(4)] same_slots_sum [OF q(4)] fits by linarith
    then show thesis using that q True by simp
  next
    case False
    then show thesis using that [of p] ok layout_okD(2) [OF ok] by (simp add: same_slots_def)
  qed
  define g where "g = fsp_of (data q) - length v"
  have iq: "i < nslots (data q)" "slot_len (data q) i = 0" using q(3) i by (simp_all add: same_slots_def)
  note lq = layout_okD [OF q(2)]
  have pre: "length (data q) = 4096" "28 + 4 * i \<le> g" "fsp_of (data q) = g + length v"
    "g + length v \<le> 4096"
    using lq(1,3) lq(7) [OF iq(1)] q(4) by (simp_all add: g_def)
  have "write_value_at_slot p (24 + 4 * i) v = Some (q\<lparr>data := store (data q) i g v\<rparr>)"
    unfolding write_tail [OF pre, symmetric]
    using layout_ok_wf [OF ok] layout_okD(2) [OF ok] q(1)
    by (simp add: write_value_at_slot_def fsp_of_def Let_def)
  moreover note store_ok [OF q(2) iq q(4) g_def]
  moreover have "free_slots (store (data q) i g v) = free_slots (data p)" "holes (store (data q) i g v) \<le> holes (data p)"
    using store_fields(3,5) [OF pre(1,2,4)] q(3,5) by (simp_all add: same_slots_def)
  ultimately show thesis
    using that [of "q\<lparr>data := store (data q) i g v\<rparr>"] slots_upd_same_slots [OF q(3) _ i(1)] by simp
qed

section \<open>The search for a free slot\<close>

text \<open>The lowest free slot, or the number of slots when all are in use.\<close>

definition lowest_free :: "bytes \<Rightarrow> nat \<Rightarrow> bool" where
  "lowest_free d i \<longleftrightarrow>
     i \<le> nslots d \<and> (\<forall>j<i. slot_len d j \<noteq> 0) \<and> (i < nslots d \<longrightarrow> slot_len d i = 0)"

lemma lowest_free_unique: "lowest_free d i \<Longrightarrow> lowest_free d j \<Longrightarrow> i = j"
  unfolding lowest_free_def by (meson linorder_neqE_nat order_less_le_trans)

lemma find_free_from_Some:
  assumes len: "length d = 4096" and n: "hdr d \<le> 4096"
    and "i \<le> nslots d" and "\<forall>j<i. slot_len d j \<noteq> 0"
  shows "\<exists>k. find_free_from d (24 + 4 * i) (hdr d) = Some (24 + 4 * k) \<and> lowest_free d k"
  using assms(3,4)
proof (induction "nslots d - i" arbitrary: i)
  case 0
  then have "i = nslots d" by simp
  with 0 show ?case
    by (intro exI [of _ i]) (simp add: find_free_from.simps hdr_def lowest_free_def)
next
  case (Suc m)
  then have i: "i < nslots d" by simp
  have read: "read_u16 d (24 + 4 * i + 2) (24 + 4 * i + 4) = Some (u16_at d (26 + 4 * i))"
    using i len n by (simp add: hdr_def)
  show ?case
  proof (cases "slot_len d i = 0")
    case True
    then have "find_free_from d (24 + 4 * i) (hdr d) = Some (24 + 4 * i)"
      using read i by (subst find_free_from.simps) (simp add: hdr_def slot_len_def unat_eq_zero)
    moreover have "lowest_free d i" using True i Suc.prems by (simp add: lowest_free_def)
    ultimately show ?thesis by blast
  next
    case False
    then have "find_free_from d (24 + 4 * i) (hdr d) = find_free_from d (24 + 4 * Suc i) (hdr d)"
      using read i by (subst find_free_from.simps) (simp add: hdr_def slot_len_def unat_eq_zero)
    then show ?thesis
      using Suc.hyps(1) [of "Suc i"] Suc.hyps(2) Suc.prems False i by (simp add: less_Suc_eq)
  qed
qed

lemma find_next_free_slot_Some:
  assumes ok: "layout_ok (data p)"
  obtains k where "find_next_free_slot p = Some (24 + 4 * k)" "lowest_free (data p) k"
  using find_free_from_Some [of "data p" 0] layout_okD(1,2,3) [OF ok] layout_ok_wf [OF ok]
  by (auto simp: find_next_free_slot_def)

section \<open>Freeing a slot\<close>

lemma u16_field_add:
  "unat (u :: u16) + n \<le> 4096 \<Longrightarrow> checked_add u (word_of_nat n) = Some (u + word_of_nat n)"
  "unat (u :: u16) + n \<le> 4096 \<Longrightarrow> unat (u + word_of_nat n) = unat u + n"
  by (simp_all add: checked_add_def unat_word_ariths unat_of_nat)

text \<open>The layout without the account of the bytes, and the array after a slot's value has been replaced
  in place by one that is not longer.\<close>

definition layout_core :: "bytes \<Rightarrow> bool" where
  "layout_core d \<longleftrightarrow>
     length d = 4096 \<and> hdr d \<le> fsp_of d \<and> fsp_of d \<le> 4096 \<and>
     (\<forall>i<nslots d. slot_len d i \<noteq> 0 \<longrightarrow>
        fsp_of d \<le> slot_off d i \<and> slot_off d i + slot_len d i \<le> 4096) \<and>
     (\<forall>i<nslots d. \<forall>j<nslots d. i \<noteq> j \<longrightarrow> slot_len d i \<noteq> 0 \<longrightarrow> slot_len d j \<noteq> 0 \<longrightarrow>
        disjoint_regions (slot_off d i) (slot_len d i) (slot_off d j) (slot_len d j))"

lemma layout_ok_iff:
  "layout_ok d \<longleftrightarrow> layout_core d \<and> fsp_of d + (\<Sum>i<nslots d. slot_len d i) + holes d = 4096"
  by (auto simp: layout_ok_def layout_core_def)

definition shrink :: "bytes \<Rightarrow> nat \<Rightarrow> bytes \<Rightarrow> bytes" where
  "shrink d i v =
     put_u16 (put (put d (slot_off d i) (replicate (slot_len d i) 0)) (slot_off d i) v)
       (26 + 4 * i) (word_of_nat (length v))"

definition shrinkable :: "bytes \<Rightarrow> nat \<Rightarrow> bytes \<Rightarrow> bool" where
  "shrinkable d i v \<longleftrightarrow>
     layout_ok d \<and> i < nslots d \<and> slot_len d i \<noteq> 0 \<and> length v \<le> slot_len d i"

lemma shrinkableD:
  assumes "shrinkable d i v"
  shows "layout_ok d" "i < nslots d" "slot_len d i \<noteq> 0" "length v \<le> slot_len d i" "length d = 4096"
    "28 + 4 * i \<le> slot_off d i" "slot_off d i + slot_len d i \<le> 4096"
    "slot_off d i + length v \<le> 4096" "hdr d \<le> slot_off d i"
proof -
  show a: "layout_ok d" "i < nslots d" "slot_len d i \<noteq> 0" "length v \<le> slot_len d i"
    using assms by (simp_all add: shrinkable_def)
  note l = layout_okD [OF a(1)]
  show "length d = 4096" "28 + 4 * i \<le> slot_off d i" "slot_off d i + slot_len d i \<le> 4096"
    "slot_off d i + length v \<le> 4096" "hdr d \<le> slot_off d i"
    using l(1,2) l(5,6) [OF a(2,3)] l(7) [OF a(2)] a(4) by linarith+
qed

lemma shrink_slices:
  assumes "shrinkable d i v"
  shows "length (shrink d i v) = 4096" "slot_len (shrink d i v) i = length v"
    "slice (shrink d i v) (slot_off d i) (length v) = v"
    "\<And>a n. a + n \<le> 4096 \<Longrightarrow> disjoint_regions a n (26 + 4 * i) 2 \<Longrightarrow>
       disjoint_regions a n (slot_off d i) (slot_len d i) \<Longrightarrow> slice (shrink d i v) a n = slice d a n"
  using shrinkableD(4-8) [OF assms]
  by (auto simp: shrink_def slot_len_def disjoint_regions_def slice_simps)

lemma shrink_fields:
  assumes s: "shrinkable d i v"
  shows "fsp_of (shrink d i v) = fsp_of d" "holes (shrink d i v) = holes d"
    "nslots (shrink d i v) = nslots d" "free_slots (shrink d i v) = free_slots d"
    "slice (shrink d i v) 0 16 = slice d 0 16"
    "\<And>j. j < nslots d \<Longrightarrow> slot_off (shrink d i v) j = slot_off d j"
    "\<And>j. j < nslots d \<Longrightarrow> j \<noteq> i \<Longrightarrow> slot_len (shrink d i v) j = slot_len d j"
proof -
  have low: "a + n \<le> hdr d \<Longrightarrow> disjoint_regions a n (26 + 4 * i) 2 \<Longrightarrow>
      slice (shrink d i v) a n = slice d a n" for a n
    using shrinkableD(7,9) [OF s] by (intro shrink_slices(4) [OF s]) (auto simp: disjoint_regions_def)
  have lowest: "a + n \<le> 24 \<Longrightarrow> slice (shrink d i v) a n = slice d a n" for a n
    by (rule low) (auto simp: disjoint_regions_def hdr_def)
  show "fsp_of (shrink d i v) = fsp_of d" "holes (shrink d i v) = holes d"
    "nslots (shrink d i v) = nslots d" "free_slots (shrink d i v) = free_slots d"
    "slice (shrink d i v) 0 16 = slice d 0 16"
    by (simp_all add: view_defs u16_at_def lowest)
  note l7 = layout_okD(7) [OF shrinkableD(1) [OF s]]
  have "disjoint_regions (24 + 4 * j) 2 (26 + 4 * i) 2" for j
    unfolding disjoint_regions_def by presburger
  then show "slot_off (shrink d i v) j = slot_off d j" if "j < nslots d" for j
    using l7 [OF that] by (simp add: slot_off_def u16_at_def low)
  have "j \<noteq> i \<Longrightarrow> disjoint_regions (26 + 4 * j) 2 (26 + 4 * i) 2" for j
    unfolding disjoint_regions_def by presburger
  then show "slot_len (shrink d i v) j = slot_len d j" if "j < nslots d" "j \<noteq> i" for j
    using l7 [OF that(1)] that(2) by (simp add: slot_len_def u16_at_def low)
qed

lemma shrink_ok:
  assumes s: "shrinkable d i v"
  shows "slots_upd d i v (shrink d i v)" "layout_core (shrink d i v)"
    "(\<Sum>j<nslots d. slot_len (shrink d i v) j) + slot_len d i = (\<Sum>j<nslots d. slot_len d j) + length v"
proof -
  note sf = shrink_fields [OF s] and ss = shrink_slices [OF s] and sh = shrinkableD [OF s]
  note l = layout_okD [OF sh(1)]
  have disj: "disjoint_regions (slot_off d j) (slot_len d j) (slot_off d k) (slot_len d k)"
    if "j < nslots d" "k < nslots d" "j \<noteq> k" "slot_len d j \<noteq> 0" "slot_len d k \<noteq> 0" for j k
    using sh(1) that by (simp add: layout_ok_def)
  have val: "slot_val (shrink d i v) j = slot_val d j" if j: "j < nslots d" "j \<noteq> i" "slot_len d j \<noteq> 0" for j
  proof -
    have "disjoint_regions (slot_off d j) (slot_len d j) (26 + 4 * i) 2"
      using l(2) l(5) [OF j(1,3)] l(7) [OF sh(2)] by (simp add: disjoint_regions_def)
    then show ?thesis
      using sf(6,7) j ss(4) l(6) [OF j(1,3)] disj [OF j(1) sh(2) j(2,3) sh(3)] by (simp add: slot_val_def)
  qed
  show "slots_upd d i v (shrink d i v)"
    using sf ss(2,3) val sh(2) by (simp add: slots_upd_def slot_val_def)
  have len: "slot_len (shrink d i v) j \<le> slot_len d j" if "j < nslots d" for j
    using sf(7) ss(2) sh(4) that by (cases "j = i") simp_all
  have shr: "disjoint_regions a m' b n'" if "disjoint_regions a m b n" "m' \<le> m" "n' \<le> n" for a m b n m' n'
    using that by (auto simp: disjoint_regions_def)
  have b: "fsp_of d \<le> slot_off d j \<and> slot_off d j + slot_len (shrink d i v) j \<le> 4096"
    if "j < nslots d" "slot_len (shrink d i v) j \<noteq> 0" for j
    using l(5,6) [of j] len [of j] that by fastforce
  have dd: "disjoint_regions (slot_off d j) (slot_len (shrink d i v) j) (slot_off d k) (slot_len (shrink d i v) k)"
    if "j < nslots d" "k < nslots d" "j \<noteq> k" "slot_len (shrink d i v) j \<noteq> 0"
      "slot_len (shrink d i v) k \<noteq> 0" for j k
    by (rule shr [of _ "slot_len d j" _ "slot_len d k"])
      (use disj [of j k] len [of j] len [of k] that in auto)
  show "layout_core (shrink d i v)"
    using sf(1,3,6) ss(1) b dd l(2,3) by (simp add: layout_core_def hdr_def)
  have "(\<Sum>j<nslots d. slot_len (shrink d i v) j) = (\<Sum>j<nslots d. ((slot_len d)(i := length v)) j)"
    using sf(7) ss(2) by (intro sum.cong) auto
  then show "(\<Sum>j<nslots d. slot_len (shrink d i v) j) + slot_len d i = (\<Sum>j<nslots d. slot_len d j) + length v"
    using sum_fun_upd_nat [OF sh(2), of "slot_len d" "length v"] by simp
qed

text \<open>Writing one of the counters behind the slot count leaves the slots alone.\<close>

lemma meta_slots:
  assumes core: "layout_core d" and a: "18 \<le> a" "a \<le> 22"
  shows "length (put_u16 d a w) = 4096" "nslots (put_u16 d a w) = nslots d"
    "slice (put_u16 d a w) 0 16 = slice d 0 16"
    "\<And>j. j < nslots d \<Longrightarrow> slot_off (put_u16 d a w) j = slot_off d j"
    "\<And>j. j < nslots d \<Longrightarrow> slot_len (put_u16 d a w) j = slot_len d j"
    "\<And>j. j < nslots d \<Longrightarrow> slot_val (put_u16 d a w) j = slot_val d j"
proof -
  have len: "length d = 4096" "hdr d \<le> 4096" using core by (simp_all add: layout_core_def)
  show "length (put_u16 d a w) = 4096" "nslots (put_u16 d a w) = nslots d"
    "slice (put_u16 d a w) 0 16 = slice d 0 16"
    using len a by (simp_all add: nslots_def slice_simps)
  fix j assume j: "j < nslots d"
  then have j': "28 + 4 * j \<le> 4096" using len(2) by (simp add: hdr_def)
  show off: "slot_off (put_u16 d a w) j = slot_off d j" and lj: "slot_len (put_u16 d a w) j = slot_len d j"
    using len a j' by (simp_all add: slot_off_def slot_len_def slice_simps)
  have "slot_len d j \<noteq> 0 \<Longrightarrow> 24 \<le> slot_off d j \<and> slot_off d j + slot_len d j \<le> 4096"
    using core j unfolding layout_core_def hdr_def by force
  then show "slot_val (put_u16 d a w) j = slot_val d j"
    using off lj len a by (cases "slot_len d j = 0") (simp_all add: slot_val_def slice_simps)
qed

lemma slots_upd_meta:
  assumes "slots_upd d i v e" and "layout_core e" and "i < nslots d" and "18 \<le> a" "a \<le> 22"
  shows "slots_upd d i v (put_u16 e a w)"
  using assms(1,3) meta_slots [OF assms(2,4,5)] by (simp add: slots_upd_def)

lemma counters:
  assumes "length d = 4096"
  shows "fsp_of (put_u16 d 18 w) = unat w" "holes (put_u16 d 18 w) = holes d"
    "free_slots (put_u16 d 18 w) = free_slots d"
    "holes (put_u16 d 20 w) = unat w" "fsp_of (put_u16 d 20 w) = fsp_of d"
    "free_slots (put_u16 d 20 w) = free_slots d"
    "free_slots (put_u16 d 22 w) = unat w" "fsp_of (put_u16 d 22 w) = fsp_of d"
    "holes (put_u16 d 22 w) = holes d"
  using assms by (simp_all add: view_defs slice_simps)

lemma layout_core_meta:
  assumes core: "layout_core d" and a: "20 \<le> a" "a \<le> 22"
  shows "layout_core (put_u16 d a w)"
proof -
  have "fsp_of (put_u16 d a w) = fsp_of d"
    using core a by (simp add: layout_core_def fsp_of_def slice_simps)
  then show ?thesis
    using core meta_slots [OF core, of a] a by (simp add: layout_core_def hdr_def)
qed

lemma layout_ok_free_slots:
  assumes ok: "layout_ok d"
  shows "layout_ok (put_u16 d 22 w)"
proof -
  have core: "layout_core d" using ok by (simp add: layout_ok_iff)
  show ?thesis
    using ok layout_core_meta [OF core, of 22 w] meta_slots [OF core, of 22] counters(8,9) [of d w] core
    by (simp add: layout_ok_iff layout_core_def)
qed

text \<open>The first value of the area can be given back by moving the pointer; any other region becomes a
  hole.\<close>

lemma reclaim_hole:
  assumes core: "layout_core d"
    and eq: "fsp_of d + (\<Sum>i<nslots d. slot_len d i) + (holes d + n) = 4096"
  shows "checked_add (u16_at d 20) (word_of_nat n) = Some (u16_at d 20 + word_of_nat n)"
    and "layout_ok (put_u16 d 20 (u16_at d 20 + word_of_nat n))"
proof -
  have h: "unat (u16_at d 20) + n \<le> 4096" using eq by (simp add: holes_def)
  then show "checked_add (u16_at d 20) (word_of_nat n) = Some (u16_at d 20 + word_of_nat n)"
    by (rule u16_field_add)
  have "length d = 4096" using core by (simp add: layout_core_def)
  moreover have "unat (u16_at d 20 + word_of_nat n) = holes d + n"
    using u16_field_add(2) [OF h] by (simp add: holes_def)
  ultimately show "layout_ok (put_u16 d 20 (u16_at d 20 + word_of_nat n))"
    using layout_core_meta [OF core, of 20] meta_slots [OF core, of 20] counters(4,5) [of d] eq
    by (simp add: layout_ok_iff)
qed

lemma reclaim_front:
  assumes core: "layout_core d" and fsp: "f \<le> 4096" "fsp_of d \<le> f"
    and above: "\<And>j. j < nslots d \<Longrightarrow> slot_len d j \<noteq> 0 \<Longrightarrow> f \<le> slot_off d j"
    and eq: "f + (\<Sum>i<nslots d. slot_len d i) + holes d = 4096"
  shows "layout_ok (put_u16 d 18 (word_of_nat f))"
proof -
  have "length d = 4096" using core by (simp add: layout_core_def)
  then show ?thesis
    using meta_slots [OF core, of 18] counters(1,2) [of d] core fsp above eq
    by (simp add: layout_ok_iff layout_core_def hdr_def)
qed

end
