(* ===== verification/Iteration.thy ===== *)
theory Iteration
  imports Prelude
begin

text \<open>
  The contract of the sources' iterators. A \<open>next\<close> that may panic refines a list of remaining
  elements when each call returns the head and leaves the tail. Everything a client needs about a
  full scan follows from that.
\<close>

text \<open>Calling \<open>next\<close> until it answers \<open>None\<close>, with a bound on the number of calls; \<open>None\<close> when an
  iterator panics or is not exhausted within the bound.\<close>

primrec drain :: "('it \<Rightarrow> ('it \<times> 'a option) option) \<Rightarrow> nat \<Rightarrow> 'it \<Rightarrow> ('it \<times> 'a list) option" where
  "drain nxt 0 it = None"
| "drain nxt (Suc n) it = do {
     (it, r) \<leftarrow> nxt it;
     (case r of
        None \<Rightarrow> Some (it, [])
      | Some x \<Rightarrow> do { (it, xs) \<leftarrow> drain nxt n it; Some (it, x # xs) }) }"

locale iterator =
  fixes nxt :: "'it \<Rightarrow> ('it \<times> 'a option) option"
    and inv :: "'it \<Rightarrow> bool"
    and rem :: "'it \<Rightarrow> 'a list"
  assumes nxt_Nil: "inv it \<Longrightarrow> rem it = [] \<Longrightarrow> \<exists>it'. nxt it = Some (it', None) \<and> inv it' \<and> rem it' = []"
    and nxt_Cons: "inv it \<Longrightarrow> rem it = x # xs \<Longrightarrow>
      \<exists>it'. nxt it = Some (it', Some x) \<and> inv it' \<and> rem it' = xs"
begin

lemma drain_rem:
  assumes "inv it" and "length (rem it) < n"
  shows "\<exists>it'. drain nxt n it = Some (it', rem it) \<and> inv it' \<and> rem it' = []"
  using assms
proof (induction n arbitrary: it)
  case 0
  then show ?case by simp
next
  case (Suc n)
  show ?case
  proof (cases "rem it")
    case Nil
    with nxt_Nil [OF Suc.prems(1)] show ?thesis by auto
  next
    case (Cons x xs)
    with nxt_Cons [OF Suc.prems(1)] obtain it' where
      it': "nxt it = Some (it', Some x)" "inv it'" "rem it' = xs" by blast
    with Suc.IH [of it'] Suc.prems(2) Cons show ?thesis by auto
  qed
qed

lemma nxt_total: "inv it \<Longrightarrow> \<exists>it' r. nxt it = Some (it', r) \<and> inv it'"
  using nxt_Nil nxt_Cons by (cases "rem it") blast+

text \<open>An exhausted iterator stays exhausted.\<close>

lemma nxt_fused:
  assumes "inv it" and "nxt it = Some (it', None)"
  shows "\<exists>it''. nxt it' = Some (it'', None)"
proof (cases "rem it")
  case Nil
  with assms nxt_Nil show ?thesis by (metis Pair_inject option.inject)
next
  case (Cons x xs)
  with assms nxt_Cons show ?thesis by (metis Pair_inject option.distinct(1) option.inject)
qed

end

end
