(* ===== verification/HeapPageSpec.thy ===== *)
theory HeapPageSpec
  imports HeapPageLaws Iteration
begin

text \<open>
  The operations of the slotted page against the map \<open>heap_view\<close> of its slots: on a well-formed page
  every operation returns, keeps the page well-formed and the fixed header as it was, and reads or
  updates the map. \<open>free_bytes\<close> is the space that is neither header nor value, which decides when a
  value is refused.
\<close>

section \<open>The map of slots\<close>

definition free_bytes :: "Page \<Rightarrow> nat" where
  "free_bytes p = 4096 - hdr (data p) - (\<Sum>i<nslots (data p). slot_len (data p) i)"

lemma get_free_space_free_bytes:
  "layout_ok (data p) \<Longrightarrow> get_free_space p = Some (free_bytes p)"
  using layout_okD(2,4) [of "data p"] layout_ok_wf [of p] by (simp add: free_bytes_def)

lemma nslots_bound: "layout_ok d \<Longrightarrow> nslots d \<le> 1018"
  using layout_okD(2,3) [of d] by (simp add: hdr_def)

lemma unat_slot_id [simp]: "i < 65536 \<Longrightarrow> word_of_nat i = s \<longleftrightarrow> i = unat (s :: SlotId)"
  using unat_u16_of_nat by auto

lemma heap_view_slots_upd:
  assumes ok: "layout_ok (data p)" and upd: "slots_upd (data p) i v (data p')" and i: "i < nslots (data p)"
  shows "heap_view p' = (heap_view p)(word_of_nat i := if v = [] then None else Some v)"
proof
  fix s :: SlotId
  have "i < 65536" using nslots_bound [OF ok] i by simp
  then show "heap_view p' s = ((heap_view p)(word_of_nat i := if v = [] then None else Some v)) s"
    using upd i by (cases "unat s = i") (auto simp: heap_view_def slots_upd_def)
qed

definition zero_count :: "bytes \<Rightarrow> nat" where
  "zero_count d = length (filter (\<lambda>i. slot_len d i = 0) [0..<nslots d])"

lemma heap_wf_iff: "heap_wf p \<longleftrightarrow> layout_ok (data p) \<and> free_slots (data p) = zero_count (data p)"
  by (simp add: heap_wf_def zero_count_def)

lemma zero_count_le: "zero_count d \<le> nslots d"
  using length_filter_le [of "\<lambda>i. slot_len d i = 0" "[0..<nslots d]"] by (simp add: zero_count_def)

lemma zero_count_sum: "zero_count d = (\<Sum>i<nslots d. if slot_len d i = 0 then 1 else 0)"
proof -
  have "length (filter P [0..<n]) = (\<Sum>i<n. if P i then 1 else 0)" for P and n :: nat
    by (induction n) auto
  then show ?thesis by (simp add: zero_count_def)
qed

lemma zero_count_slots_upd:
  assumes upd: "slots_upd d i v d'" and i: "i < nslots d"
  shows "zero_count d' + (if slot_len d i = 0 then 1 else 0) = zero_count d + (if v = [] then 1 else 0)"
proof -
  let ?z = "\<lambda>j. if slot_len d j = 0 then 1 else 0 :: nat"
  have "zero_count d' = (\<Sum>j<nslots d. (?z(i := if v = [] then 1 else 0)) j)"
    unfolding zero_count_sum using upd i by (auto simp: slots_upd_def intro!: sum.cong)
  then show ?thesis
    using sum_fun_upd_nat [OF i, of ?z "if v = [] then 1 else 0"] by (simp only: zero_count_sum)
qed

lemma same_header_slots_upd: "slots_upd (data p) i v (data p') \<Longrightarrow> same_header p p'"
  by (simp add: slots_upd_def same_header_def)

section \<open>Reading\<close>

definition slot_pos :: "nat \<Rightarrow> nat" where "slot_pos i = 24 + 4 * i"

lemma get_slot_metadata_offset_Some:
  "page_wf p \<Longrightarrow> get_slot_metadata_offset p s =
     Some (if unat s < nslots (data p) then int (slot_pos (unat s)) else - 1)"
  by (simp add: get_slot_metadata_offset_def nslots_def slot_pos_def)

lemma read_slot:
  assumes ok: "layout_ok d" and i: "i < nslots d"
  shows "read_u16 d (slot_pos i) (slot_pos i + 2) = Some (word_of_nat (slot_off d i))"
    "read_u16 d (slot_pos i + 2) (slot_pos i + 4) = Some (word_of_nat (slot_len d i))"
    "slot_off d i < 65536" "slot_len d i < 65536"
  using layout_okD(1) [OF ok] layout_okD(8) [OF ok i]
  by (simp_all add: slot_pos_def slot_off_def slot_len_def unat_u16_less)

lemma get_value_view:
  assumes ok: "layout_ok (data p)"
  shows "get_value p s = Some (heap_view p s)"
proof (cases "unat s < nslots (data p)")
  case True
  then show ?thesis
    using read_slot [OF ok True] layout_okD(1) [OF ok] layout_okD(6) [OF ok True] layout_ok_wf [OF ok]
    by (auto simp: get_value_def get_slot_metadata_offset_Some heap_view_def slot_val_def Let_def)
next
  case False
  then show ?thesis
    using layout_ok_wf [OF ok] by (simp add: get_value_def get_slot_metadata_offset_Some heap_view_def)
qed

section \<open>Deleting\<close>

lemma free_region_start:
  assumes s: "shrinkable d i []"
  shows "slice_set d (slot_off d i) (slot_off d i + slot_len d i) (replicate (slot_len d i) 0)
      = Some (put d (slot_off d i) (replicate (slot_len d i) 0))"
    and "slice_set (put d (slot_off d i) (replicate (slot_len d i) 0)) (slot_pos i + 2) (slot_pos i + 4)
      (to_le_bytes (0 :: u16)) = Some (shrink d i [])"
  using shrinkableD(5,6,7) [OF s]
  by (simp_all add: shrink_def put_u16_def put_def [of _ _ "[]"] slot_pos_def)

lemma free_front:
  assumes s: "shrinkable d i []" and front: "slot_off d i = fsp_of d"
  shows "layout_ok (put_u16 (shrink d i []) 18 (word_of_nat (slot_off d i + slot_len d i)))"
proof (rule reclaim_front)
  note sh = shrinkableD [OF s] and so = shrink_ok [OF s] and sf = shrink_fields [OF s]
  show "layout_core (shrink d i [])" by (rule so)
  show "slot_off d i + slot_len d i \<le> 4096" "fsp_of (shrink d i []) \<le> slot_off d i + slot_len d i"
    using sh(7) front sf(1) by simp_all
  show "slot_off d i + slot_len d i \<le> slot_off (shrink d i []) j"
    if "j < nslots (shrink d i [])" "slot_len (shrink d i []) j \<noteq> 0" for j
  proof -
    have j: "j < nslots d" "j \<noteq> i" "slot_len d j \<noteq> 0"
      using that sf(3,7) shrink_slices(2) [OF s] by (cases "j = i"; simp)+
    then have "disjoint_regions (slot_off d i) (slot_len d i) (slot_off d j) (slot_len d j)"
      using sh(1-3) by (simp add: layout_ok_def)
    then show ?thesis
      using layout_okD(5) [OF sh(1) j(1,3)] j sf(6) front by (simp add: disjoint_regions_def)
  qed
  show "slot_off d i + slot_len d i + (\<Sum>j<nslots (shrink d i []). slot_len (shrink d i []) j)
      + holes (shrink d i []) = 4096"
    using so(3) sf(2,3) layout_okD(4) [OF sh(1)] front by simp
qed

lemma free_region_ok:
  assumes ok: "layout_ok (data p)" and i: "i < nslots (data p)" "slot_len (data p) i \<noteq> 0"
  obtains p' where
    "free_region p (slot_pos i) (slot_off (data p) i) (slot_len (data p) i) = Some p'"
    "layout_ok (data p')" "slots_upd (data p) i [] (data p')" "free_slots (data p') = free_slots (data p)"
proof -
  let ?d = "data p" and ?e = "shrink (data p) i []"
  have s: "shrinkable ?d i []" using ok i by (simp add: shrinkable_def)
  note so = shrink_ok [OF s] and sf = shrink_fields [OF s] and len = shrink_slices(1) [OF s]
  have wf: "page_wf (p\<lparr>data := ?e\<rparr>)" using len by (simp add: page_wf_def)
  have eq: "fsp_of ?e + (\<Sum>j<nslots ?e. slot_len ?e j) + (holes ?e + slot_len ?d i) = 4096"
    using so(3) sf(1-3) layout_okD(4) [OF ok] by simp
  note hole = reclaim_hole [OF so(2) eq] and front = free_front [OF s]
  let ?w = "if slot_off ?d i = fsp_of ?d
    then put_u16 ?e 18 (word_of_nat (slot_off ?d i + slot_len ?d i))
    else put_u16 ?e 20 (u16_at ?e 20 + word_of_nat (slot_len ?d i))"
  have "free_region p (slot_pos i) (slot_off ?d i) (slot_len ?d i) = Some (p\<lparr>data := ?w\<rparr>)"
    using free_region_start [OF s] wf sf(1) hole(1) by (simp add: free_region_def fsp_of_def)
  moreover have "layout_ok ?w" using hole(2) front by simp
  moreover have "slots_upd ?d i [] ?w" using slots_upd_meta [OF so(1,2) i(1)] by simp
  moreover have "free_slots ?w = free_slots ?d" using counters [OF len] sf(4) by simp
  ultimately show thesis using that [of "p\<lparr>data := ?w\<rparr>"] by simp
qed

lemma delete_value_ok:
  assumes wf: "heap_wf p"
  obtains p' where
    "delete_value p s = Some (p', if heap_view p s = None then None else Some ())"
    "heap_wf p'" "heap_view p' = (heap_view p)(s := None)" "same_header p p'"
    "heap_view p s = None \<Longrightarrow> p' = p" "nslots (data p') = nslots (data p)"
proof (cases "heap_view p s")
  case None
  have ok: "layout_ok (data p)" using wf by (simp add: heap_wf_iff)
  have "delete_value p s = Some (p, None)"
  proof (cases "unat s < nslots (data p)")
    case True
    then show ?thesis
      using None read_slot [OF ok True] layout_ok_wf [OF ok]
      by (auto simp: delete_value_def get_slot_metadata_offset_Some heap_view_def Let_def split: if_splits)
  next
    case False
    then show ?thesis
      using layout_ok_wf [OF ok] by (simp add: delete_value_def get_slot_metadata_offset_Some)
  qed
  then show thesis using that [of p] None wf by (simp add: fun_upd_idem)
next
  case (Some v)
  let ?d = "data p" and ?i = "unat s"
  have ok: "layout_ok ?d" using wf by (simp add: heap_wf_iff)
  have i: "?i < nslots ?d" "slot_len ?d ?i \<noteq> 0" using Some by (auto simp: heap_view_def split: if_splits)
  obtain q where q: "free_region p (slot_pos ?i) (slot_off ?d ?i) (slot_len ?d ?i) = Some q"
    "layout_ok (data q)" "slots_upd ?d ?i [] (data q)" "free_slots (data q) = free_slots ?d"
    using free_region_ok [OF ok i] by blast
  let ?c = "u16_at (data q) 22"
  have z: "zero_count (data q) = zero_count ?d + 1"
    using zero_count_slots_upd [OF q(3) i(1)] i(2) by simp
  have c: "unat ?c = zero_count ?d" using wf q(4) by (simp add: heap_wf_iff free_slots_def)
  moreover have "zero_count (data q) \<le> 1018"
    using nslots_bound [OF q(2)] zero_count_le [of "data q"] by simp
  ultimately have c1: "checked_add ?c 1 = Some (?c + 1)" "unat (?c + 1) = zero_count (data q)"
    using z by (simp_all add: checked_add_def unat_word_ariths)
  define r where "r = q\<lparr>data := put_u16 (data q) 22 (?c + 1)\<rparr>"
  have "delete_value p s = Some (r, Some ())"
    using q(1) c1(1) read_slot [OF ok i(1)] layout_ok_wf [OF ok] layout_ok_wf [OF q(2)] i
      layout_okD(6) [OF ok i]
    by (simp add: delete_value_def get_slot_metadata_offset_Some r_def Let_def)
  moreover have core: "layout_core (data q)" using q(2) by (simp add: layout_ok_iff)
  have upd: "slots_upd ?d ?i [] (data r)"
    using slots_upd_meta [OF q(3) core i(1)] by (simp add: r_def)
  moreover have "heap_wf r"
    using layout_ok_free_slots [OF q(2)] c1(2) zero_count_slots_upd [OF upd i(1)] i(2) z
      counters(7) [OF layout_okD(1) [OF q(2)]]
    by (simp add: heap_wf_iff r_def)
  moreover have "heap_view r = (heap_view p)(s := None)"
    using heap_view_slots_upd [OF ok upd i(1)] by simp
  ultimately show thesis using that [of r] Some same_header_slots_upd [OF upd] upd by (simp add: slots_upd_def)
qed

section \<open>Updating\<close>

text \<open>When an update succeeds: the slot is in use and the value is not longer than the old one, or
  smaller than the free bytes and the old value together.\<close>

definition update_fits :: "Page \<Rightarrow> SlotId \<Rightarrow> bytes \<Rightarrow> bool" where
  "update_fits p s v =
     (case heap_view p s of
        None \<Rightarrow> False
      | Some old \<Rightarrow> length v \<le> length old \<or> length v < free_bytes p + length old)"

lemma heap_view_SomeD:
  assumes "layout_ok (data p)" and "heap_view p s = Some v"
  shows "unat s < nslots (data p)" "slot_len (data p) (unat s) \<noteq> 0" "v = slot_val (data p) (unat s)"
    "length v = slot_len (data p) (unat s)"
  using assms live_list_props(5) [OF assms(1)] by (auto simp: heap_view_def split: if_splits)

lemma heap_view_NoneD:
  "heap_view p s = None \<Longrightarrow> unat s < nslots (data p) \<Longrightarrow> slot_len (data p) (unat s) = 0"
  by (auto simp: heap_view_def split: if_splits)

text \<open>In place: the rest of the old region becomes a hole.\<close>

lemma update_in_place:
  assumes ok: "layout_ok (data p)" and i: "unat s < nslots (data p)" "slot_len (data p) (unat s) \<noteq> 0"
    and len: "length v \<le> slot_len (data p) (unat s)"
  obtains p' where "update_value p s v = Some (p', Some ())" "layout_ok (data p')"
    "slots_upd (data p) (unat s) v (data p')" "free_slots (data p') = free_slots (data p)"
proof -
  let ?d = "data p" and ?i = "unat s" and ?e = "shrink (data p) (unat s) v"
  let ?waste = "slot_len ?d ?i - length v"
  have s: "shrinkable ?d ?i v" using ok i len by (simp add: shrinkable_def)
  note sh = shrinkableD [OF s] and so = shrink_ok [OF s] and sf = shrink_fields [OF s]
    and se = shrink_slices(1) [OF s]
  have eq: "fsp_of ?e + (\<Sum>j<nslots ?e. slot_len ?e j) + (holes ?e + ?waste) = 4096"
    using so(3) sf(1-3) layout_okD(4) [OF ok] len by simp
  note hole = reclaim_hole [OF so(2) eq]
  define w where "w = (if ?waste > 0 then put_u16 ?e 20 (u16_at ?e 20 + word_of_nat ?waste) else ?e)"
  let ?z = "replicate (slot_len ?d ?i) 0"
  have writes: "slice_set ?d (slot_off ?d ?i) (slot_off ?d ?i + slot_len ?d ?i) ?z = Some (put ?d (slot_off ?d ?i) ?z)"
    "slice_set (put ?d (slot_off ?d ?i) ?z) (slot_off ?d ?i) (slot_off ?d ?i + length v) v
       = Some (put (put ?d (slot_off ?d ?i) ?z) (slot_off ?d ?i) v)"
    "slice_set (put (put ?d (slot_off ?d ?i) ?z) (slot_off ?d ?i) v) (slot_pos ?i + 2) (slot_pos ?i + 4)
       (to_le_bytes (word_of_nat (length v) :: u16)) = Some ?e"
    using sh(5-8) by (simp_all add: shrink_def put_u16_def slot_pos_def)
  have wf: "page_wf (p\<lparr>data := ?e\<rparr>)" using se by (simp add: page_wf_def)
  have "update_value p s v = Some (p\<lparr>data := w\<rparr>, Some ())"
    using writes wf hole(1) read_slot [OF ok i(1)] layout_ok_wf [OF ok] i layout_okD(6) [OF ok i] len
    by (simp add: update_value_def get_slot_metadata_offset_Some w_def Let_def)
  moreover have "layout_ok w"
  proof (cases "?waste > 0")
    case True
    then show ?thesis using hole(2) by (simp only: w_def if_True)
  next
    case False
    then show ?thesis using so(2) eq by (simp add: w_def layout_ok_iff)
  qed
  moreover have "slots_upd ?d ?i v w"
    using slots_upd_meta [OF so(1,2) i(1), of 20] so(1) by (simp add: w_def)
  moreover have "free_slots w = free_slots ?d"
    using counters(6) [OF se] sf(4) by (simp add: w_def)
  ultimately show thesis using that [of "p\<lparr>data := w\<rparr>"] by simp
qed

text \<open>Moved: the old region is freed and the value written as a new one.\<close>

lemma update_moved:
  assumes ok: "layout_ok (data p)" and i: "unat s < nslots (data p)" "slot_len (data p) (unat s) \<noteq> 0"
    and len: "length v > slot_len (data p) (unat s)"
    and fits: "length v < free_bytes p + slot_len (data p) (unat s)"
  obtains p' where "update_value p s v = Some (p', Some ())" "layout_ok (data p')"
    "slots_upd (data p) (unat s) v (data p')" "free_slots (data p') = free_slots (data p)"
proof -
  let ?d = "data p" and ?i = "unat s"
  obtain q where q: "free_region p (slot_pos ?i) (slot_off ?d ?i) (slot_len ?d ?i) = Some q"
    "layout_ok (data q)" "slots_upd ?d ?i [] (data q)" "free_slots (data q) = free_slots ?d"
    using free_region_ok [OF ok i] by blast
  have iq: "?i < nslots (data q)" "slot_len (data q) ?i = 0" "hdr (data q) = hdr ?d"
    using q(3) i by (simp_all add: slots_upd_def hdr_def)
  have "(\<Sum>j<nslots (data q). slot_len (data q) j) = (\<Sum>j<nslots ?d. ((slot_len ?d)(?i := 0)) j)"
    using q(3) by (auto simp: slots_upd_def intro!: sum.cong)
  then have "(\<Sum>j<nslots (data q). slot_len (data q) j) + slot_len ?d ?i = (\<Sum>j<nslots ?d. slot_len ?d j)"
    using sum_fun_upd_nat [OF i(1), of "slot_len ?d" 0] by simp
  then have "hdr (data q) + (\<Sum>j<nslots (data q). slot_len (data q) j) + length v \<le> 4096"
    using fits iq(3) layout_okD(2,4) [OF ok] by (simp add: free_bytes_def)
  then obtain r where r: "write_value_at_slot q (slot_pos ?i) v = Some r" "layout_ok (data r)"
    "slots_upd (data q) ?i v (data r)" "free_slots (data r) = free_slots (data q)"
    using write_ok [OF q(2) iq(1,2), of v] unfolding slot_pos_def by blast
  have "update_value p s v = Some (r, Some ())"
    using q(1) r(1) read_slot [OF ok i(1)] layout_ok_wf [OF ok] i layout_okD(6) [OF ok i] len fits
    by (simp add: update_value_def get_slot_metadata_offset_Some Let_def get_free_space_free_bytes [OF ok])
  moreover have "slots_upd ?d ?i v (data r)"
    using q(3) r(3) i(1) by (simp add: slots_upd_def)
  ultimately show thesis using that [of r] r(2,4) q(4) by simp
qed

lemma update_refused:
  assumes ok: "layout_ok (data p)" and "\<not> update_fits p s v"
  shows "update_value p s v = Some (p, None)"
proof (cases "unat s < nslots (data p)")
  case True
  show ?thesis
  proof (cases "heap_view p s")
    case None
    then show ?thesis
      using heap_view_NoneD [OF None True] read_slot [OF ok True] layout_ok_wf [OF ok] True
      by (simp add: update_value_def get_slot_metadata_offset_Some Let_def)
  next
    case (Some old)
    then show ?thesis
      using heap_view_SomeD [OF ok Some] read_slot [OF ok True] layout_ok_wf [OF ok] assms(2)
        layout_okD(6) [OF ok True]
      by (simp add: update_value_def get_slot_metadata_offset_Some Let_def update_fits_def
          get_free_space_free_bytes [OF ok])
  qed
next
  case False
  then show ?thesis
    using layout_ok_wf [OF ok] by (simp add: update_value_def get_slot_metadata_offset_Some)
qed

lemma update_value_ok:
  assumes wf: "heap_wf p" and v: "v \<noteq> []"
  obtains p' where
    "update_value p s v = Some (p', if update_fits p s v then Some () else None)"
    "heap_wf p'" "heap_view p' = (if update_fits p s v then (heap_view p)(s \<mapsto> v) else heap_view p)"
    "same_header p p'" "\<not> update_fits p s v \<Longrightarrow> p' = p" "nslots (data p') = nslots (data p)"
proof (cases "update_fits p s v")
  case False
  then show thesis using update_refused [of p s v] wf that [of p] by (simp add: heap_wf_iff)
next
  case True
  let ?d = "data p" and ?i = "unat s"
  have ok: "layout_ok ?d" using wf by (simp add: heap_wf_iff)
  from True obtain old where old: "heap_view p s = Some old"
    and fits: "length v \<le> length old \<or> length v < free_bytes p + length old"
    by (auto simp: update_fits_def split: option.splits)
  note i = heap_view_SomeD [OF ok old]
  obtain q where q: "update_value p s v = Some (q, Some ())" "layout_ok (data q)"
    "slots_upd ?d ?i v (data q)" "free_slots (data q) = free_slots ?d"
  proof (cases "length v \<le> length old")
    case True
    then show thesis using update_in_place [OF ok i(1,2), of v] that i(4) by metis
  next
    case False
    then show thesis using update_moved [OF ok i(1,2), of v] fits that i(4) by (metis not_le)
  qed
  have "heap_wf q"
    using wf q zero_count_slots_upd [OF q(3) i(1)] i(2) v by (simp add: heap_wf_iff)
  then show thesis
    using that [of q] True q heap_view_slots_upd [OF ok q(3) i(1)] v same_header_slots_upd [OF q(3)]
    by (simp add: slots_upd_def)
qed

section \<open>Adding\<close>

text \<open>The slot a new value gets, and when it is accepted: a free slot needs the value to be smaller than
  the free bytes; a new slot needs four more bytes, and these contiguously.\<close>

definition add_slot :: "Page \<Rightarrow> nat" where
  "add_slot p = length (takeWhile (\<lambda>i. slot_len (data p) i \<noteq> 0) [0..<nslots (data p)])"

definition add_fits :: "Page \<Rightarrow> bytes \<Rightarrow> bool" where
  "add_fits p v =
     (if add_slot p < nslots (data p) then length v < free_bytes p
      else 4 \<le> fsp_of (data p) - hdr (data p) \<and> length v + 4 < free_bytes p)"

lemma add_slot_lowest: "lowest_free (data p) (add_slot p)"
proof -
  let ?P = "\<lambda>i. slot_len (data p) i \<noteq> 0" and ?xs = "[0..<nslots (data p)]"
  have le: "add_slot p \<le> nslots (data p)"
    using length_takeWhile_le [of ?P ?xs] by (simp add: add_slot_def)
  have "?P j" if "j < add_slot p" for j
  proof -
    have "takeWhile ?P ?xs ! j = j"
      using that le takeWhile_nth [of j ?P ?xs] by (simp add: add_slot_def)
    moreover have "takeWhile ?P ?xs ! j \<in> set (takeWhile ?P ?xs)"
      using that by (simp add: add_slot_def)
    ultimately show ?thesis by (metis (full_types) set_takeWhileD)
  qed
  moreover have "slot_len (data p) (add_slot p) = 0" if "add_slot p < nslots (data p)"
    using nth_length_takeWhile [of ?P ?xs] that by (simp add: add_slot_def)
  ultimately show ?thesis using le by (simp add: lowest_free_def)
qed

definition grow :: "bytes \<Rightarrow> bytes" where
  "grow d = put (put_u16 d 16 (u16_at d 16 + 1)) (24 + 4 * nslots d) (replicate 4 0)"

lemma grow_fields:
  assumes ok: "layout_ok d" and gap: "hdr d + 4 \<le> fsp_of d"
  shows "length (grow d) = 4096" "nslots (grow d) = Suc (nslots d)" "slot_len (grow d) (nslots d) = 0"
    "fsp_of (grow d) = fsp_of d" "holes (grow d) = holes d" "free_slots (grow d) = free_slots d"
    "slice (grow d) 0 16 = slice d 0 16"
    "\<And>j. j < nslots d \<Longrightarrow> slot_off (grow d) j = slot_off d j"
    "\<And>j. j < nslots d \<Longrightarrow> slot_len (grow d) j = slot_len d j"
    "\<And>a n. fsp_of d \<le> a \<Longrightarrow> a + n \<le> 4096 \<Longrightarrow> slice (grow d) a n = slice d a n"
proof -
  note l = layout_okD [OF ok]
  have n: "28 + 4 * nslots d \<le> 4096" "28 + 4 * nslots d \<le> fsp_of d" using l(3) gap by (simp_all add: hdr_def)
  have n1: "unat (u16_at d 16 + 1) = Suc (nslots d)"
    using nslots_bound [OF ok] by (simp add: nslots_def unat_word_ariths)
  show "length (grow d) = 4096" "fsp_of (grow d) = fsp_of d" "holes (grow d) = holes d"
    "free_slots (grow d) = free_slots d" "slice (grow d) 0 16 = slice d 0 16"
    using l(1) n(1) by (simp_all add: grow_def view_defs slice_simps)
  show "nslots (grow d) = Suc (nslots d)"
    using l(1) n(1) n1 by (simp add: grow_def nslots_def [of "put _ _ _"] slice_simps)
  show "slice (grow d) a m = slice d a m" if "fsp_of d \<le> a" "a + m \<le> 4096" for a m
    using l(1) n that by (simp add: grow_def slice_simps)
  show "slot_off (grow d) j = slot_off d j" "slot_len (grow d) j = slot_len d j" if "j < nslots d" for j
    using l(1) n(1) that by (simp_all add: grow_def slot_off_def slot_len_def slice_simps)
  have "slice (grow d) (26 + 4 * nslots d) 2 = replicate 2 0"
    using l(1) n(1) by (intro nth_equalityI) (simp_all add: grow_def nth_slice nth_put)
  then show "slot_len (grow d) (nslots d) = 0"
    by (simp add: slot_len_def u16_at_def numeral_2_eq_2)
qed

lemma grow_ok:
  assumes ok: "layout_ok d" and gap: "hdr d + 4 \<le> fsp_of d"
  shows "layout_ok (grow d)" "zero_count (grow d) = zero_count d + 1"
    "\<And>j. j < nslots d \<Longrightarrow> slot_val (grow d) j = slot_val d j \<or> slot_len d j = 0"
    "(\<Sum>j<nslots (grow d). slot_len (grow d) j) = (\<Sum>j<nslots d. slot_len d j)"
proof -
  note g = grow_fields [OF ok gap] and l = layout_okD [OF ok]
  show sum: "(\<Sum>j<nslots (grow d). slot_len (grow d) j) = (\<Sum>j<nslots d. slot_len d j)"
    using g(2,3,9) by simp
  show "zero_count (grow d) = zero_count d + 1"
    using g(2,3,9) by (simp add: zero_count_sum)
  show "slot_val (grow d) j = slot_val d j \<or> slot_len d j = 0" if "j < nslots d" for j
    using g(8,9,10) that l(5,6) [OF that] by (auto simp: slot_val_def)
  have old: "j < nslots d" "slot_len d j \<noteq> 0" "slot_off (grow d) j = slot_off d j"
    "slot_len (grow d) j = slot_len d j"
    if "j < nslots (grow d)" "slot_len (grow d) j \<noteq> 0" for j
    using that g(2,3,8,9) by (auto simp: less_Suc_eq)
  have "fsp_of (grow d) \<le> slot_off (grow d) j \<and> slot_off (grow d) j + slot_len (grow d) j \<le> 4096"
    if "j < nslots (grow d)" "slot_len (grow d) j \<noteq> 0" for j
    using old [OF that] g(4) l(5,6) by simp
  moreover have "disjoint_regions (slot_off (grow d) i) (slot_len (grow d) i)
      (slot_off (grow d) j) (slot_len (grow d) j)"
    if "i < nslots (grow d)" "j < nslots (grow d)" "i \<noteq> j" "slot_len (grow d) i \<noteq> 0"
      "slot_len (grow d) j \<noteq> 0" for i j
    using old [OF that(1,4)] old [OF that(2,5)] that(3) ok by (simp add: layout_ok_def)
  ultimately show "layout_ok (grow d)"
    using g(1,2,4,5) sum l(3,4) gap unfolding layout_ok_def hdr_def by simp
qed

lemma add_refused:
  assumes ok: "layout_ok (data p)" and "\<not> add_fits p v"
  shows "add_value p v = Some (p, None)"
proof -
  have "find_next_free_slot p = Some (24 + 4 * add_slot p)"
    using find_next_free_slot_Some [OF ok] lowest_free_unique add_slot_lowest by metis
  then show ?thesis
    using assms layout_ok_wf [OF ok] layout_okD(2) [OF ok] get_free_space_free_bytes [OF ok]
    by (auto simp: add_value_def add_fits_def hdr_def fsp_of_def Let_def)
qed

text \<open>Claiming the slot, before the value is written: the page shows the same values, and its count of
  free slots already excludes the claimed one.\<close>

definition claimed :: "Page \<Rightarrow> nat \<Rightarrow> Page \<Rightarrow> bool" where
  "claimed p k q \<longleftrightarrow> layout_ok (data q) \<and> k < nslots (data q) \<and> slot_len (data q) k = 0 \<and>
     heap_view q = heap_view p \<and> same_header p q \<and> free_slots (data q) + 1 = zero_count (data q) \<and>
     (\<Sum>j<nslots (data q). slot_len (data q) j) = (\<Sum>j<nslots (data p). slot_len (data p) j)"

lemma claim_free_slot:
  assumes wf: "heap_wf p" and k: "k < nslots (data p)" "slot_len (data p) k = 0"
  obtains c q where "checked_sub (u16_at (data p) 22) 1 = Some c"
    "set_deleted_slot_count p c = Some q" "claimed p k q" "hdr (data q) = hdr (data p)"
    "holes (data q) = holes (data p)"
proof -
  let ?d = "data p" and ?c = "u16_at (data p) 22 - 1"
  have ok: "layout_ok ?d" and fs: "unat (u16_at ?d 22) = zero_count ?d"
    using wf by (simp_all add: heap_wf_iff free_slots_def)
  have core: "layout_core ?d" using ok by (simp add: layout_ok_iff)
  have "zero_count ?d \<noteq> 0" using k by (auto simp: zero_count_sum)
  then have c: "checked_sub (u16_at ?d 22) 1 = Some ?c" "unat ?c = zero_count ?d - 1"
    using fs by (simp_all add: checked_sub_def) (metis One_nat_def Suc_leI neq0_conv unat_1 unat_sub word_le_nat_alt)
  note m = meta_slots [OF core, of 22]
  let ?e = "put_u16 ?d 22 ?c"
  have z: "zero_count ?e = zero_count ?d" using m(2,5) by (simp add: zero_count_sum)
  have "claimed p k (p\<lparr>data := ?e\<rparr>)"
    using layout_ok_free_slots [OF ok] m k c(2) \<open>zero_count ?d \<noteq> 0\<close> z counters(7) [OF layout_okD(1) [OF ok]]
    by (auto simp: claimed_def same_header_def heap_view_def fun_eq_iff)
  moreover have "holes ?e = holes ?d" using layout_okD(1) [OF ok] by (simp add: holes_def slice_simps)
  ultimately show thesis using that c(1) layout_ok_wf [OF ok] m(2) by (simp add: hdr_def)
qed

lemma claim_new_slot:
  assumes wf: "heap_wf p" and gap: "hdr (data p) + 4 \<le> fsp_of (data p)"
  obtains n q where "increment_num_slots p = Some (q, n)"
    "slice_set (data q) (hdr (data p)) (hdr (data p) + 4) (replicate 4 0) = Some (grow (data p))"
    "claimed p (nslots (data p)) (p\<lparr>data := grow (data p)\<rparr>)"
    "hdr (grow (data p)) = hdr (data p) + 4" "q\<lparr>data := grow (data p)\<rparr> = p\<lparr>data := grow (data p)\<rparr>"
proof -
  let ?d = "data p" and ?n = "u16_at (data p) 16 + 1"
  have ok: "layout_ok ?d" using wf by (simp add: heap_wf_iff)
  note g = grow_fields [OF ok gap] and go = grow_ok [OF ok gap] and l = layout_okD [OF ok]
  define q where "q = p\<lparr>data := put_u16 ?d 16 ?n\<rparr>"
  have "checked_add (u16_at ?d 16) 1 = Some ?n"
    using nslots_bound [OF ok] by (simp add: checked_add_def nslots_def)
  then have inc: "increment_num_slots p = Some (q, ?n)"
    using layout_ok_wf [OF ok] by (simp add: increment_num_slots_def q_def)
  have set: "slice_set (data q) (hdr ?d) (hdr ?d + 4) (replicate 4 0) = Some (grow ?d)"
    using l(1,3) gap by (simp add: q_def grow_def hdr_def)
  have "heap_view (p\<lparr>data := grow ?d\<rparr>) s = heap_view p s" for s
    using g(2,3,9) go(3) [of "unat s"] by (auto simp: heap_view_def less_Suc_eq)
  then have "claimed p (nslots ?d) (p\<lparr>data := grow ?d\<rparr>)"
    using go(1,2,4) g(2,3,6,7) wf by (simp add: claimed_def same_header_def heap_wf_iff fun_eq_iff)
  then show thesis using that inc set g(2) by (simp add: hdr_def q_def)
qed

lemma write_claimed:
  assumes c: "claimed p k q" and fits: "hdr (data q) + (\<Sum>j<nslots (data p). slot_len (data p) j) + length v \<le> 4096"
    and v: "v \<noteq> []"
  obtains r where "write_value_at_slot q (24 + 4 * k) v = Some r" "heap_wf r"
    "heap_view r = (heap_view p)(word_of_nat k \<mapsto> v)" "same_header p r"
    "nslots (data r) = nslots (data q)" "holes (data r) \<le> holes (data q)"
proof -
  note cl = c [unfolded claimed_def]
  have ok: "layout_ok (data q)" and k: "k < nslots (data q)" "slot_len (data q) k = 0" using cl by blast+
  obtain r where r: "write_value_at_slot q (24 + 4 * k) v = Some r" "layout_ok (data r)"
    "slots_upd (data q) k v (data r)" "free_slots (data r) = free_slots (data q)" "holes (data r) \<le> holes (data q)"
    using write_ok [OF ok k, of v] fits cl by metis
  have "heap_wf r"
    using r(2,4) zero_count_slots_upd [OF r(3) k(1)] k(2) v cl by (simp add: heap_wf_iff)
  moreover have "heap_view r = (heap_view p)(word_of_nat k \<mapsto> v)"
    using heap_view_slots_upd [OF ok r(3) k(1)] v cl by simp
  moreover have "same_header p r"
    using same_header_slots_upd [OF r(3)] cl same_header_trans by blast
  moreover have "nslots (data r) = nslots (data q)" using r(3) by (simp add: slots_upd_def)
  ultimately show thesis using that r(1,5) by blast
qed

lemma find_add_slot: "layout_ok (data p) \<Longrightarrow> find_next_free_slot p = Some (24 + 4 * add_slot p)"
  using find_next_free_slot_Some [of p] lowest_free_unique add_slot_lowest by metis

lemma add_into_free_slot:
  assumes wf: "heap_wf p" and v: "v \<noteq> []" and fits: "add_fits p v" and k: "add_slot p < nslots (data p)"
  obtains r where "add_value p v = Some (r, Some (word_of_nat (add_slot p)))" "heap_wf r"
    "heap_view r = (heap_view p)(word_of_nat (add_slot p) \<mapsto> v)" "same_header p r"
    "nslots (data r) = nslots (data p)" "holes (data r) \<le> holes (data p)"
proof -
  let ?d = "data p" and ?k = "add_slot p"
  have ok: "layout_ok ?d" using wf by (simp add: heap_wf_iff)
  note l = layout_okD [OF ok]
  have "slot_len ?d ?k = 0" using add_slot_lowest k by (simp add: lowest_free_def)
  then obtain c q where q: "checked_sub (u16_at ?d 22) 1 = Some c" "set_deleted_slot_count p c = Some q"
    "claimed p ?k q" "hdr (data q) = hdr ?d" "holes (data q) = holes ?d"
    using claim_free_slot [OF wf k] by blast
  have "hdr (data q) + (\<Sum>j<nslots ?d. slot_len ?d j) + length v \<le> 4096"
    using fits k q(4) l(2,4) by (simp add: add_fits_def free_bytes_def)
  then obtain r where r: "write_value_at_slot q (24 + 4 * ?k) v = Some r" "heap_wf r"
    "heap_view r = (heap_view p)(word_of_nat ?k \<mapsto> v)" "same_header p r"
    "nslots (data r) = nslots (data q)" "holes (data r) \<le> holes (data q)"
    using write_claimed [OF q(3) _ v] by blast
  have "add_value p v = Some (r, Some (word_of_nat ?k))"
    using find_add_slot [OF ok] q(1,2) r(1) fits k layout_ok_wf [OF ok] get_free_space_free_bytes [OF ok]
    by (simp add: add_value_def add_fits_def hdr_def Let_def del: set_deleted_slot_count_Some)
  then show thesis using that r q(4,5) by (simp add: hdr_def)
qed

lemma add_into_new_slot:
  assumes wf: "heap_wf p" and v: "v \<noteq> []" and fits: "add_fits p v" and n: "\<not> add_slot p < nslots (data p)"
  obtains r where "add_value p v = Some (r, Some (word_of_nat (add_slot p)))" "heap_wf r"
    "heap_view r = (heap_view p)(word_of_nat (add_slot p) \<mapsto> v)" "same_header p r"
    "nslots (data r) = Suc (nslots (data p))" "holes (data r) \<le> holes (data p)"
proof -
  let ?d = "data p" and ?k = "add_slot p"
  have ok: "layout_ok ?d" using wf by (simp add: heap_wf_iff)
  note l = layout_okD [OF ok]
  have k: "?k = nslots ?d" using add_slot_lowest [of p] n by (simp add: lowest_free_def)
  have gap: "hdr ?d + 4 \<le> fsp_of ?d" and fit: "length v + 4 < free_bytes p"
    using fits n l(2) by (auto simp: add_fits_def)
  obtain c q where q: "increment_num_slots p = Some (q, c)"
    "slice_set (data q) (hdr ?d) (hdr ?d + 4) (replicate 4 0) = Some (grow ?d)"
    "claimed p ?k (p\<lparr>data := grow ?d\<rparr>)" "hdr (grow ?d) = hdr ?d + 4"
    "q\<lparr>data := grow ?d\<rparr> = p\<lparr>data := grow ?d\<rparr>"
    using claim_new_slot [OF wf gap] k by metis
  have "hdr (grow ?d) + (\<Sum>j<nslots ?d. slot_len ?d j) + length v \<le> 4096"
    using fit q(4) l(2,4) by (simp add: free_bytes_def)
  then obtain r where r: "write_value_at_slot (p\<lparr>data := grow ?d\<rparr>) (24 + 4 * ?k) v = Some r" "heap_wf r"
    "heap_view r = (heap_view p)(word_of_nat ?k \<mapsto> v)" "same_header p r"
    "nslots (data r) = nslots (grow ?d)" "holes (data r) \<le> holes (grow ?d)"
    using write_claimed [OF q(3) _ v] by auto
  have "hdr ?d = 24 + 4 * ?k" using k by (simp add: hdr_def)
  then have "add_value p v = Some (r, Some (word_of_nat ?k))"
    using find_add_slot [OF ok] q(1,2) r(1) [folded q(5)] gap fit layout_ok_wf [OF ok] get_free_space_free_bytes [OF ok]
    by (auto simp: add_value_def Let_def fsp_of_def)
  then show thesis using that r grow_fields(2,5) [OF ok gap] by simp
qed

lemma add_value_ok:
  assumes wf: "heap_wf p" and v: "v \<noteq> []"
  obtains p' where
    "add_value p v = Some (p', if add_fits p v then Some (word_of_nat (add_slot p)) else None)"
    "heap_wf p'"
    "heap_view p' = (if add_fits p v then (heap_view p)(word_of_nat (add_slot p) \<mapsto> v) else heap_view p)"
    "same_header p p'" "\<not> add_fits p v \<Longrightarrow> p' = p"
    "nslots (data p') = nslots (data p) + (if add_fits p v \<and> \<not> add_slot p < nslots (data p) then 1 else 0)"
    "holes (data p') \<le> holes (data p)"
proof (cases "add_fits p v")
  case False
  then show thesis using add_refused [of p v] wf that [of p] by (simp add: heap_wf_iff)
next
  case True
  then obtain r where "add_value p v = Some (r, Some (word_of_nat (add_slot p)))" "heap_wf r"
    "heap_view r = (heap_view p)(word_of_nat (add_slot p) \<mapsto> v)" "same_header p r"
    "nslots (data r) = nslots (data p) + (if \<not> add_slot p < nslots (data p) then 1 else 0)" "holes (data r) \<le> holes (data p)"
    using add_into_free_slot [OF wf v True] add_into_new_slot [OF wf v True] by (cases "add_slot p < nslots (data p)") auto
  then show thesis using that [of r] True by simp
qed

lemma add_slot_fresh:
  assumes ok: "layout_ok (data p)"
  shows "heap_view p (word_of_nat (add_slot p)) = None"
    and "s < word_of_nat (add_slot p) \<Longrightarrow> heap_view p s \<noteq> None"
proof -
  have le: "add_slot p \<le> nslots (data p)" using add_slot_lowest by (simp add: lowest_free_def)
  then have u: "unat (word_of_nat (add_slot p) :: SlotId) = add_slot p" using nslots_bound [OF ok] by simp
  show "heap_view p (word_of_nat (add_slot p)) = None"
    using add_slot_lowest [of p] u by (auto simp: heap_view_def lowest_free_def)
  show "heap_view p s \<noteq> None" if "s < word_of_nat (add_slot p)"
    using add_slot_lowest [of p] u that by (auto simp: heap_view_def lowest_free_def word_less_nat_alt)
qed

section \<open>A new page\<close>

lemma init_heap_page_ok:
  assumes wf: "page_wf p" and zero: "slice (data p) 16 8 = replicate 8 0"
  obtains q where "init_heap_page p = Some q" "heap_wf q" "heap_view q = Map.empty" "same_header p q"
    "nslots (data q) = 0" "fsp_of (data q) = 4096"
proof -
  let ?d = "data p" and ?e = "put_u16 (data p) 18 4096"
  have len: "length ?d = 4096" using wf by (simp add: page_wf_def)
  have "slice ?d a 2 = slice (replicate 4096 0) a 2" if "16 \<le> a" "a + 2 \<le> 24" for a
    by (rule slice_sub [of _ 16 8]) (use zero len that in \<open>simp_all add: slice_def\<close>)
  then have "slice ?d a 2 = [0, 0]" if "16 \<le> a" "a + 2 \<le> 24" for a
    using that by (simp add: slice_def numeral_2_eq_2)
  then have z: "u16_at ?d 16 = 0" "u16_at ?d 20 = 0" "u16_at ?d 22 = 0" by (simp_all add: u16_at_def)
  have init: "init_heap_page p = Some (p\<lparr>data := ?e\<rparr>)" using wf by (simp add: init_heap_page_def)
  have n: "nslots ?e = 0" "holes ?e = 0" "free_slots ?e = 0" "fsp_of ?e = 4096"
    using len z by (simp_all add: view_defs slice_simps)
  have "heap_wf (p\<lparr>data := ?e\<rparr>)"
    using n len by (simp add: heap_wf_def layout_ok_def hdr_def)
  moreover have "heap_view (p\<lparr>data := ?e\<rparr>) = Map.empty"
    using n by (simp add: heap_view_def fun_eq_iff)
  moreover have "same_header p (p\<lparr>data := ?e\<rparr>)"
    using len by (simp add: same_header_def slice_simps)
  ultimately show thesis using that init n by simp
qed

lemma Page_new_ok:
  obtains p where "Page_new pid = Some p" "page_wf p" "get_page_id p = Some pid"
    "slice (data p) 16 8 = replicate 8 0"
proof -
  let ?z = "replicate 4096 (0 :: u8)"
  let ?d1 = "put ?z 0 (to_le_bytes pid)"
  let ?d2 = "put ?d1 4 (to_le_bytes (0 :: u32))"
  let ?d3 = "put ?d2 8 (to_le_bytes (0 :: u16))"
  let ?d4 = "put ?d3 10 (to_le_bytes (0 :: u16))"
  let ?d5 = "put ?d4 12 (replicate 4 0)"
  let ?d6 = "put ?d5 16 (replicate 8 0)"
  have len: "length ?d1 = 4096" "length ?d2 = 4096" "length ?d3 = 4096" "length ?d4 = 4096"
    "length ?d5 = 4096" "length ?d6 = 4096"
    by simp_all
  have new: "Page_new pid = Some \<lparr>data = ?d6\<rparr>"
    using len by (simp add: Page_new_def del: length_put)
  have "slice ?d6 0 4 = to_le_bytes pid"
    using len by (simp add: slice_put_disjoint slice_put_same del: length_put)
  moreover have "slice ?d6 16 8 = replicate 8 0"
    using len by (simp add: slice_put_same del: length_put)
  ultimately show thesis
    using that [of "\<lparr>data = ?d6\<rparr>"] new len(6) by (simp add: page_wf_def get_page_id_def del: length_put)
qed

section \<open>Iterating\<close>

text \<open>The entries from a slot on, in slot order.\<close>

definition entries_from :: "Page \<Rightarrow> nat \<Rightarrow> (bytes \<times> SlotId) list" where
  "entries_from p c =
     map (\<lambda>i. (slot_val (data p) i, word_of_nat i))
       (filter (\<lambda>i. slot_len (data p) i \<noteq> 0) [c..<nslots (data p)])"

definition entries :: "Page \<Rightarrow> (bytes \<times> SlotId) list" where
  "entries p = entries_from p 0"

lemma entries_from_end [simp]: "nslots (data p) \<le> c \<Longrightarrow> entries_from p c = []"
  by (simp add: entries_from_def)

lemma entries_from_step:
  "c < nslots (data p) \<Longrightarrow> entries_from p c =
     (if slot_len (data p) c \<noteq> 0 then [(slot_val (data p) c, word_of_nat c)] else []) @ entries_from p (Suc c)"
  by (simp add: entries_from_def upt_conv_Cons)

lemma iter_next_loop_ok:
  assumes ok: "layout_ok (data p)"
  shows "\<exists>c'. iter_next_loop p (u16_at (data p) 16) c =
      Some (c', case entries_from p (unat c) of [] \<Rightarrow> None | x # _ \<Rightarrow> Some x) \<and>
      entries_from p (unat c') = tl (entries_from p (unat c))"
proof (induction "nslots (data p) - unat c" arbitrary: c)
  case 0
  then show ?case
    by (subst iter_next_loop.simps) (simp add: nslots_def word_less_nat_alt)
next
  case (Suc m)
  then have c: "unat c < nslots (data p)" by simp
  then have lt: "c < u16_at (data p) 16" by (simp add: word_less_nat_alt nslots_def)
  then have c1: "unat (c + 1) = Suc (unat c)" using unat_add_one by fastforce
  have IH: "\<exists>c'. iter_next_loop p (u16_at (data p) 16) (c + 1) =
      Some (c', case entries_from p (Suc (unat c)) of [] \<Rightarrow> None | x # _ \<Rightarrow> Some x) \<and>
      entries_from p (unat c') = tl (entries_from p (Suc (unat c)))"
    using Suc.hyps(1) [of "c + 1"] Suc.hyps(2) c1 by simp
  show ?case
  proof (cases "slot_len (data p) (unat c) = 0")
    case True
    then have "heap_view p c = None" by (simp add: heap_view_def)
    then show ?thesis
      using IH True lt entries_from_step [OF c]
      by (subst iter_next_loop.simps) (simp add: get_value_view [OF ok])
  next
    case False
    then have "heap_view p c = Some (slot_val (data p) (unat c))" using c by (simp add: heap_view_def)
    then show ?thesis
      using False lt entries_from_step [OF c] c1
      by (subst iter_next_loop.simps) (simp add: get_value_view [OF ok])
  qed
qed

interpretation page_iter: iterator heap_iter_next "\<lambda>it. layout_ok (data (iter_page it))"
  "\<lambda>it. entries_from (iter_page it) (unat (current_slot it))"
proof
  fix it :: HeapPageIter
  assume ok: "layout_ok (data (iter_page it))"
  note step = iter_next_loop_ok [OF ok, of "current_slot it"] and wf = layout_ok_wf [OF ok]
  {
    assume "entries_from (iter_page it) (unat (current_slot it)) = []"
    with step wf ok show "\<exists>it'. heap_iter_next it = Some (it', None) \<and> layout_ok (data (iter_page it')) \<and>
        entries_from (iter_page it') (unat (current_slot it')) = []"
      by (fastforce simp: heap_iter_next_def)
  next
    fix x xs
    assume "entries_from (iter_page it) (unat (current_slot it)) = x # xs"
    with step wf ok show "\<exists>it'. heap_iter_next it = Some (it', Some x) \<and> layout_ok (data (iter_page it')) \<and>
        entries_from (iter_page it') (unat (current_slot it')) = xs"
      by (fastforce simp: heap_iter_next_def)
  }
qed

lemma set_entries:
  assumes ok: "layout_ok (data p)"
  shows "set (entries p) = {(v, s). heap_view p s = Some v}"
proof -
  have "set (entries p) = (\<lambda>i. (slot_val (data p) i, word_of_nat i)) `
      {i. i < nslots (data p) \<and> slot_len (data p) i \<noteq> 0}"
    by (auto simp: entries_def entries_from_def)
  also have "\<dots> = {(v, s). heap_view p s = Some v}"
  proof (intro set_eqI iffI)
    fix x :: "bytes \<times> SlotId"
    assume "x \<in> (\<lambda>i. (slot_val (data p) i, word_of_nat i)) ` {i. i < nslots (data p) \<and> slot_len (data p) i \<noteq> 0}"
    then show "x \<in> {(v, s). heap_view p s = Some v}"
      using nslots_bound [OF ok] by (auto simp: heap_view_def)
  next
    fix x :: "bytes \<times> SlotId"
    assume "x \<in> {(v, s). heap_view p s = Some v}"
    then show "x \<in> (\<lambda>i. (slot_val (data p) i, word_of_nat i)) ` {i. i < nslots (data p) \<and> slot_len (data p) i \<noteq> 0}"
      by (auto simp: heap_view_def image_iff split: if_splits intro!: exI [of _ "unat (snd x)"])
  qed
  finally show ?thesis .
qed

lemma sorted_entries:
  assumes ok: "layout_ok (data p)"
  shows "sorted_wrt (<) (map snd (entries p))"
proof -
  have "sorted_wrt (<) [0..<nslots (data p)]" by (rule sorted_wrt_upt)
  then have "sorted_wrt (<) (filter (\<lambda>i. slot_len (data p) i \<noteq> 0) [0..<nslots (data p)])"
    by (rule sorted_wrt_filter)
  moreover have "(word_of_nat i :: SlotId) < word_of_nat j" if "i < j" "j < nslots (data p)" for i j
    using that nslots_bound [OF ok] by (simp add: word_less_nat_alt)
  ultimately show ?thesis
    unfolding entries_def entries_from_def map_map sorted_wrt_map comp_def snd_conv
    using sorted_wrt_mono_rel [of "filter (\<lambda>i. slot_len (data p) i \<noteq> 0) [0..<nslots (data p)]" "(<)"
        "\<lambda>i j. (word_of_nat i :: SlotId) < word_of_nat j"] by auto
qed

section \<open>A fresh page, and values of length zero\<close>

definition fresh_page :: "PageId \<Rightarrow> Page option" where
  "fresh_page pid = do { p \<leftarrow> Page_new pid; init_heap_page p }"

lemma fresh_page_ok:
  obtains p where "fresh_page pid = Some p" "heap_wf p" "heap_view p = Map.empty"
    "get_page_id p = Some pid" "nslots (data p) = 0" "fsp_of (data p) = 4096"
proof -
  obtain p where p: "Page_new pid = Some p" "page_wf p" "get_page_id p = Some pid"
    "slice (data p) 16 8 = replicate 8 0"
    by (rule Page_new_ok)
  obtain q where q: "init_heap_page p = Some q" "heap_wf q" "heap_view q = Map.empty" "same_header p q"
    "nslots (data q) = 0" "fsp_of (data q) = 4096"
    using init_heap_page_ok [OF p(2,4)] by blast
  have "page_wf q" using q(2) layout_ok_wf by (simp add: heap_wf_iff)
  then have "get_page_id q = Some pid"
    using get_page_id_same_header [OF p(2) _ q(4)] p(3) by simp
  then show thesis using that q p(1) by (simp add: fresh_page_def)
qed

text \<open>A slot of length zero counts as free, but adding an empty value does not count it: the next value
  that would reuse the slot takes one from a count of zero.\<close>

lemma add_empty_value:
  assumes wf: "heap_wf p" and none: "zero_count (data p) = 0"
    and gap: "hdr (data p) + 4 \<le> fsp_of (data p)" and fits: "4 < free_bytes p"
  obtains q where "add_value p [] = Some (q, Some (word_of_nat (nslots (data p))))"
    "layout_ok (data q)" "free_slots (data q) = 0" "add_slot q = nslots (data p)"
    "nslots (data q) = Suc (nslots (data p))" "free_bytes q = free_bytes p - 4"
proof -
  let ?d = "data p" and ?k = "nslots (data p)"
  have ok: "layout_ok ?d" using wf by (simp add: heap_wf_iff)
  note g = grow_fields [OF ok gap] and l = layout_okD [OF ok] and go = grow_ok [OF ok gap]
  have live: "slot_len ?d j \<noteq> 0" if "j < ?k" for j
    using none that by (auto simp: zero_count_sum split: if_splits)
  have k: "add_slot p = ?k"
    using add_slot_lowest [of p] live [of "add_slot p"] by (auto simp: lowest_free_def)
  obtain c q where q: "increment_num_slots p = Some (q, c)"
    "slice_set (data q) (hdr ?d) (hdr ?d + 4) (replicate 4 0) = Some (grow ?d)"
    "hdr (grow ?d) = hdr ?d + 4" "q\<lparr>data := grow ?d\<rparr> = p\<lparr>data := grow ?d\<rparr>"
    using claim_new_slot [OF wf gap] by metis
  have fit: "hdr (grow ?d) + (\<Sum>j<nslots (grow ?d). slot_len (grow ?d) j) + length ([] :: bytes) \<le> 4096"
    using q(3) fits go(4) l(2,4) by (simp add: free_bytes_def)
  obtain r where r: "write_value_at_slot (p\<lparr>data := grow ?d\<rparr>) (24 + 4 * ?k) [] = Some r"
    "layout_ok (data r)" "slots_upd (grow ?d) ?k [] (data r)" "free_slots (data r) = free_slots (grow ?d)"
    using write_ok [of "p\<lparr>data := grow ?d\<rparr>" ?k "[]"] go(1) g(2,3) fit by auto
  have hdr: "hdr ?d = 24 + 4 * ?k" by (simp add: hdr_def)
  then have "add_value p [] = Some (r, Some (word_of_nat ?k))"
    using find_add_slot [OF ok] k q(1,2) r(1) [folded q(4)] gap fits layout_ok_wf [OF ok]
      get_free_space_free_bytes [OF ok]
    by (auto simp: add_value_def Let_def fsp_of_def)
  moreover have "lowest_free (data r) ?k"
    using r(3) g(2,9) live by (auto simp: slots_upd_def lowest_free_def)
  then have "add_slot r = ?k" using add_slot_lowest lowest_free_unique by blast
  moreover have "(\<Sum>j<nslots (data r). slot_len (data r) j) = (\<Sum>j<nslots ?d. slot_len ?d j)"
    using r(3) g(2,9) by (simp add: slots_upd_def)
  then have "free_bytes r = free_bytes p - 4"
    using r(3) g(2) by (simp add: free_bytes_def slots_upd_def hdr_def)
  moreover have "free_slots (data r) = 0" using r(4) g(6) wf none by (simp add: heap_wf_iff)
  moreover have "nslots (data r) = Suc ?k" using r(3) g(2) by (simp add: slots_upd_def)
  ultimately show thesis using that r(2) by blast
qed

lemma add_reuses_uncounted_slot:
  assumes ok: "layout_ok (data p)" and free: "free_slots (data p) = 0"
    and k: "add_slot p < nslots (data p)" and fits: "length v < free_bytes p"
  shows "add_value p v = None"
proof -
  have "checked_sub (u16_at (data p) 22) 1 = None"
    using free by (simp add: free_slots_def checked_sub_def)
  then show ?thesis
    using find_add_slot [OF ok] k fits layout_ok_wf [OF ok] get_free_space_free_bytes [OF ok]
    by (simp add: add_value_def hdr_def Let_def)
qed

end
