(* ===== verification/HeapPageProps.thy ===== *)
theory HeapPageProps
  imports HeapPageSpec
begin

text \<open>
  The interface of the slotted page as a locale, its interpretation on the operations of
  \<open>heap_page.rs\<close>, and the properties of the page: what each operation does to the map of slots, what
  any sequence of operations does, and what a scan of the page returns.
\<close>

section \<open>The interface\<close>

datatype page_op = AddOp bytes | DeleteOp SlotId | UpdateOp SlotId bytes

datatype page_answer = Added SlotId | Done | Refused

text \<open>One operation, and a sequence of them with the answers, over any implementation.\<close>

primrec page_step ::
  "('p \<Rightarrow> bytes \<Rightarrow> ('p \<times> SlotId option) option) \<Rightarrow> ('p \<Rightarrow> SlotId \<Rightarrow> ('p \<times> unit option) option) \<Rightarrow>
   ('p \<Rightarrow> SlotId \<Rightarrow> bytes \<Rightarrow> ('p \<times> unit option) option) \<Rightarrow> 'p \<Rightarrow> page_op \<Rightarrow> ('p \<times> page_answer) option"
where
  "page_step add del upd p (AddOp v) = do {
     (p, r) \<leftarrow> add p v; Some (p, case r of None \<Rightarrow> Refused | Some s \<Rightarrow> Added s) }"
| "page_step add del upd p (DeleteOp s) = do {
     (p, r) \<leftarrow> del p s; Some (p, case r of None \<Rightarrow> Refused | Some _ \<Rightarrow> Done) }"
| "page_step add del upd p (UpdateOp s v) = do {
     (p, r) \<leftarrow> upd p s v; Some (p, case r of None \<Rightarrow> Refused | Some _ \<Rightarrow> Done) }"

primrec page_steps ::
  "('p \<Rightarrow> bytes \<Rightarrow> ('p \<times> SlotId option) option) \<Rightarrow> ('p \<Rightarrow> SlotId \<Rightarrow> ('p \<times> unit option) option) \<Rightarrow>
   ('p \<Rightarrow> SlotId \<Rightarrow> bytes \<Rightarrow> ('p \<times> unit option) option) \<Rightarrow> 'p \<Rightarrow> page_op list \<Rightarrow>
   ('p \<times> page_answer list) option"
where
  "page_steps add del upd p [] = Some (p, [])"
| "page_steps add del upd p (x # xs) = do {
     (p, a) \<leftarrow> page_step add del upd p x;
     (p, as) \<leftarrow> page_steps add del upd p xs;
     Some (p, a # as) }"

text \<open>The specification: a finite map from slot ids to values. An addition gets a slot that is not in
  use, an update or a deletion is answered on a slot in use only.\<close>

inductive map_step :: "(SlotId \<rightharpoonup> bytes) \<Rightarrow> page_op \<Rightarrow> page_answer \<Rightarrow> (SlotId \<rightharpoonup> bytes) \<Rightarrow> bool" where
  added: "m s = None \<Longrightarrow> map_step m (AddOp v) (Added s) (m(s \<mapsto> v))"
| add_refused: "map_step m (AddOp v) Refused m"
| deleted: "m s \<noteq> None \<Longrightarrow> map_step m (DeleteOp s) Done (m(s := None))"
| delete_refused: "m s = None \<Longrightarrow> map_step m (DeleteOp s) Refused m"
| updated: "m s \<noteq> None \<Longrightarrow> map_step m (UpdateOp s v) Done (m(s \<mapsto> v))"
| update_refused: "map_step m (UpdateOp s v) Refused m"

inductive map_steps ::
  "(SlotId \<rightharpoonup> bytes) \<Rightarrow> page_op list \<Rightarrow> page_answer list \<Rightarrow> (SlotId \<rightharpoonup> bytes) \<Rightarrow> bool" where
  nil: "map_steps m [] [] m"
| cons: "map_step m x a m' \<Longrightarrow> map_steps m' xs as m'' \<Longrightarrow> map_steps m (x # xs) (a # as) m''"

text \<open>The values written must not be empty.\<close>

fun op_ok :: "page_op \<Rightarrow> bool" where
  "op_ok (AddOp v) = (v \<noteq> [])"
| "op_ok (DeleteOp s) = True"
| "op_ok (UpdateOp s v) = (v \<noteq> [])"

locale slotted_page =
  fixes wf :: "'p \<Rightarrow> bool"
    and view :: "'p \<Rightarrow> SlotId \<rightharpoonup> bytes"
    and add :: "'p \<Rightarrow> bytes \<Rightarrow> ('p \<times> SlotId option) option"
    and get :: "'p \<Rightarrow> SlotId \<Rightarrow> bytes option option"
    and del :: "'p \<Rightarrow> SlotId \<Rightarrow> ('p \<times> unit option) option"
    and upd :: "'p \<Rightarrow> SlotId \<Rightarrow> bytes \<Rightarrow> ('p \<times> unit option) option"
  assumes get_view: "wf p \<Longrightarrow> get p s = Some (view p s)"
    and add_view: "wf p \<Longrightarrow> v \<noteq> [] \<Longrightarrow> \<exists>p' r. add p v = Some (p', r) \<and> wf p' \<and>
      (case r of None \<Rightarrow> p' = p | Some s \<Rightarrow> view p s = None \<and> view p' = (view p)(s \<mapsto> v))"
    and del_view: "wf p \<Longrightarrow> \<exists>p' r. del p s = Some (p', r) \<and> wf p' \<and>
      (case r of None \<Rightarrow> p' = p \<and> view p s = None
       | Some _ \<Rightarrow> view p s \<noteq> None \<and> view p' = (view p)(s := None))"
    and upd_view: "wf p \<Longrightarrow> v \<noteq> [] \<Longrightarrow> \<exists>p' r. upd p s v = Some (p', r) \<and> wf p' \<and>
      (case r of None \<Rightarrow> p' = p | Some _ \<Rightarrow> view p s \<noteq> None \<and> view p' = (view p)(s \<mapsto> v))"
begin

lemma step_refines:
  assumes "wf p" and "op_ok x"
  shows "\<exists>p' a. page_step add del upd p x = Some (p', a) \<and> wf p' \<and> map_step (view p) x a (view p')"
proof (cases x)
  case (AddOp v)
  with assms add_view [of p v] show ?thesis
    by (fastforce split: option.splits intro: map_step.intros)
next
  case (DeleteOp s)
  with assms del_view [of p s] show ?thesis
    by (fastforce split: option.splits intro: map_step.intros)
next
  case (UpdateOp s v)
  with assms upd_view [of p v s] show ?thesis
    by (fastforce split: option.splits intro: map_step.intros)
qed

lemma steps_refine:
  assumes "wf p" and "\<forall>x \<in> set xs. op_ok x"
  shows "\<exists>p' as. page_steps add del upd p xs = Some (p', as) \<and> wf p' \<and> map_steps (view p) xs as (view p')"
  using assms
proof (induction xs arbitrary: p)
  case Nil
  then show ?case by (auto intro: map_steps.nil)
next
  case (Cons x xs)
  then obtain p' a where "page_step add del upd p x = Some (p', a)" "wf p'" "map_step (view p) x a (view p')"
    using step_refines [of p x] by auto
  moreover from this Cons obtain p'' as where
    "page_steps add del upd p' xs = Some (p'', as)" "wf p''" "map_steps (view p') xs as (view p'')"
    by (metis list.set_intros(2))
  ultimately show ?case by (auto intro: map_steps.cons)
qed

text \<open>Reading back what was added.\<close>

lemma add_get:
  assumes "wf p" and "v \<noteq> []" and "add p v = Some (p', Some s)"
  shows "get p' s = Some (Some v)" and "t \<noteq> s \<Longrightarrow> get p' t = get p t"
  using add_view [OF assms(1,2)] assms get_view by auto

end

interpretation heap_page: slotted_page heap_wf heap_view add_value get_value delete_value update_value
proof
  fix p s v
  assume wf: "heap_wf p"
  then have ok: "layout_ok (data p)" by (simp add: heap_wf_iff)
  then show "get_value p s = Some (heap_view p s)" by (rule get_value_view)
  show "\<exists>p' r. delete_value p s = Some (p', r) \<and> heap_wf p' \<and>
      (case r of None \<Rightarrow> p' = p \<and> heap_view p s = None
       | Some _ \<Rightarrow> heap_view p s \<noteq> None \<and> heap_view p' = (heap_view p)(s := None))"
    by (rule delete_value_ok [OF wf, of s]) auto
  show "\<exists>p' r. add_value p v = Some (p', r) \<and> heap_wf p' \<and>
      (case r of None \<Rightarrow> p' = p
       | Some s \<Rightarrow> heap_view p s = None \<and> heap_view p' = (heap_view p)(s \<mapsto> v))" if "v \<noteq> []"
    by (rule add_value_ok [OF wf that]) (auto simp: add_slot_fresh(1) [OF ok])
  show "\<exists>p' r. update_value p s v = Some (p', r) \<and> heap_wf p' \<and>
      (case r of None \<Rightarrow> p' = p
       | Some _ \<Rightarrow> heap_view p s \<noteq> None \<and> heap_view p' = (heap_view p)(s \<mapsto> v))" if "v \<noteq> []"
    by (rule update_value_ok [OF wf that, of s]) (auto simp: update_fits_def split: option.splits if_splits)
qed

section \<open>Properties\<close>

abbreviation (input) page0 :: Page where "page0 \<equiv> the (fresh_page 0)"

lemma page0_facts:
  "heap_wf page0" "layout_ok (data page0)" "heap_view page0 = Map.empty" "nslots (data page0) = 0"
  by (rule fresh_page_ok [of 0]; simp add: heap_wf_iff)+

text \<open>C1: From a fresh page, any sequence of additions, deletions and updates of non-empty values runs
  without a panic; its answers and the values the page then returns are those of a map from slot ids to
  values.\<close>

theorem page_refines_map:
  assumes "\<forall>x \<in> set xs. op_ok x"
  shows "\<exists>p p' as. fresh_page pid = Some p \<and>
    page_steps add_value delete_value update_value p xs = Some (p', as) \<and> heap_wf p' \<and>
    map_steps Map.empty xs as (heap_view p') \<and> (\<forall>s. get_value p' s = Some (heap_view p' s))"
proof -
  obtain p where p: "fresh_page pid = Some p" "heap_wf p" "heap_view p = Map.empty"
    using fresh_page_ok by blast
  obtain p' as where r: "page_steps add_value delete_value update_value p xs = Some (p', as)" "heap_wf p'"
    "map_steps (heap_view p) xs as (heap_view p')"
    using heap_page.steps_refine [OF p(2) assms] by blast
  have "\<forall>s. get_value p' s = Some (heap_view p' s)" using heap_page.get_view [OF r(2)] by blast
  with p(1) r(1,2) r(3) [unfolded p(3)] show ?thesis by (intro exI conjI)
qed

theorem page_refines_map_witness:
  "\<exists>p p' as. fresh_page 7 = Some p \<and>
    page_steps add_value delete_value update_value p [AddOp [1, 2], UpdateOp 0 [3], DeleteOp 1] = Some (p', as) \<and>
    heap_wf p' \<and> map_steps Map.empty [AddOp [1, 2], UpdateOp 0 [3], DeleteOp 1] as (heap_view p') \<and>
    (\<forall>s. get_value p' s = Some (heap_view p' s))"
  by (rule page_refines_map) simp

text \<open>C2: \<open>add_value\<close> on a well-formed page returns; it accepts a non-empty value exactly when the free
  bytes allow it, stores it in the lowest slot not in use, keeps every other value, the invariant and
  the page id, and leaves the page as it was when it refuses.\<close>

theorem add_value_spec:
  assumes "heap_wf p" and "v \<noteq> []"
  shows "\<exists>p'. add_value p v = Some (p', if add_fits p v then Some (word_of_nat (add_slot p)) else None) \<and>
    heap_wf p' \<and> get_page_id p' = get_page_id p \<and>
    heap_view p' = (if add_fits p v then (heap_view p)(word_of_nat (add_slot p) \<mapsto> v) else heap_view p) \<and>
    heap_view p (word_of_nat (add_slot p)) = None \<and>
    (\<forall>s. s < word_of_nat (add_slot p) \<longrightarrow> heap_view p s \<noteq> None) \<and> (\<not> add_fits p v \<longrightarrow> p' = p)"
proof -
  have ok: "layout_ok (data p)" using assms(1) by (simp add: heap_wf_iff)
  obtain p' where p': "add_value p v = Some (p', if add_fits p v then Some (word_of_nat (add_slot p)) else None)"
    "heap_wf p'" "same_header p p'" "\<not> add_fits p v \<Longrightarrow> p' = p"
    "heap_view p' = (if add_fits p v then (heap_view p)(word_of_nat (add_slot p) \<mapsto> v) else heap_view p)"
    using add_value_ok [OF assms] by blast
  have "page_wf p'" using p'(2) layout_ok_wf by (simp add: heap_wf_iff)
  then have "get_page_id p' = get_page_id p"
    using get_page_id_same_header [OF layout_ok_wf [OF ok] _ p'(3)] by metis
  then show ?thesis using p' add_slot_fresh [OF ok] by blast
qed

theorem add_value_spec_witness:
  "heap_wf page0 \<and> [1] \<noteq> ([] :: bytes) \<and>
   (\<exists>p'. add_value page0 [1] = Some (p', if add_fits page0 [1] then Some (word_of_nat (add_slot page0)) else None) \<and>
    heap_wf p' \<and> get_page_id p' = get_page_id page0)"
  using add_value_spec [OF page0_facts(1) list.distinct(2), of 1 "[]"] page0_facts(1) by blast

text \<open>C3: \<open>update_value\<close> on a well-formed page returns; it succeeds exactly on a slot in use whose new
  value is not longer than the old one or fits with compaction, and then only that slot changes; a
  refused update leaves the page as it was.\<close>

theorem update_value_spec:
  assumes "heap_wf p" and "v \<noteq> []"
  shows "\<exists>p'. update_value p s v = Some (p', if update_fits p s v then Some () else None) \<and>
    heap_wf p' \<and> same_header p p' \<and>
    heap_view p' = (if update_fits p s v then (heap_view p)(s \<mapsto> v) else heap_view p) \<and>
    (\<not> update_fits p s v \<longrightarrow> p' = p)"
  by (rule update_value_ok [OF assms, of s]) blast

theorem update_value_spec_witness:
  "heap_wf page0 \<and> [1] \<noteq> ([] :: bytes) \<and>
   (\<exists>p'. update_value page0 3 [1] = Some (p', if update_fits page0 3 [1] then Some () else None) \<and> heap_wf p')"
  using update_value_spec [OF page0_facts(1) list.distinct(2), of 3 1 "[]"] page0_facts(1) by blast

text \<open>C4: \<open>delete_value\<close> on a well-formed page returns, answers whether the slot was in use, frees it and
  keeps the other values and the header; deleting a free slot changes nothing.\<close>

theorem delete_value_spec:
  assumes "heap_wf p"
  shows "\<exists>p'. delete_value p s = Some (p', if heap_view p s = None then None else Some ()) \<and>
    heap_wf p' \<and> same_header p p' \<and> heap_view p' = (heap_view p)(s := None) \<and>
    (heap_view p s = None \<longrightarrow> p' = p)"
  by (rule delete_value_ok [OF assms, of s]) (rule_tac x = p' in exI, simp)

theorem delete_value_spec_witness:
  "heap_wf page0 \<and>
   (\<exists>p'. delete_value page0 2 = Some (p', if heap_view page0 2 = None then None else Some ()) \<and> heap_wf p')"
  using delete_value_spec [OF page0_facts(1), of 2] page0_facts(1) by blast

text \<open>C5: Compaction of a page returns, keeps every slot id, value and the header, leaves no holes, and so
  makes all the free bytes contiguous.\<close>

theorem compact_page_spec:
  assumes "layout_ok (data p)"
  shows "\<exists>p'. compact_page p = Some p' \<and> layout_ok (data p') \<and> heap_view p' = heap_view p \<and>
    same_header p p' \<and> fsp_of (data p') - hdr (data p') = free_bytes p \<and> free_bytes p' = free_bytes p"
proof -
  obtain p' where c: "compact_page p = Some p'" "layout_ok (data p')" "holes (data p') = 0"
    "same_slots (data p) (data p')"
    using compact_ok [OF assms] by blast
  have "heap_view p' = heap_view p"
    using c(4) by (auto simp: heap_view_def same_slots_def fun_eq_iff)
  moreover have "same_header p p'" using c(4) by (simp add: same_slots_def same_header_def)
  moreover have fb: "free_bytes p' = free_bytes p"
    using same_slots_hdr [OF c(4)] same_slots_sum [OF c(4)] by (simp add: free_bytes_def)
  moreover have "fsp_of (data p') - hdr (data p') = free_bytes p'"
    using layout_okD(2,4) [OF c(2)] c(3) by (simp add: free_bytes_def)
  ultimately show ?thesis using c(1,2) by auto
qed

theorem compact_page_spec_witness:
  "layout_ok (data page0) \<and> (\<exists>p'. compact_page page0 = Some p' \<and> heap_view p' = heap_view page0)"
  using compact_page_spec [OF page0_facts(2)] page0_facts(2) by blast

text \<open>C6: Scanning a page with its iterator ends after at most one call per slot and one more, and
  returns every stored value once with its slot id, in increasing order of slot ids.\<close>

theorem page_scan:
  assumes "layout_ok (data p)"
  shows "\<exists>it xs. drain heap_iter_next (Suc (nslots (data p))) (heap_iter p) = Some (it, xs) \<and>
    set xs = {(v, s). heap_view p s = Some v} \<and> sorted_wrt (<) (map snd xs)"
proof -
  have "length (entries p) \<le> nslots (data p)"
    using length_filter_le [of "\<lambda>i. slot_len (data p) i \<noteq> 0" "[0..<nslots (data p)]"]
    by (simp add: entries_def entries_from_def)
  then show ?thesis
    using page_iter.drain_rem [of "heap_iter p" "Suc (nslots (data p))"] assms
      set_entries [OF assms] sorted_entries [OF assms]
    by (auto simp: heap_iter_def entries_def)
qed

theorem page_scan_witness:
  "layout_ok (data page0) \<and>
   (\<exists>it xs. drain heap_iter_next (Suc (nslots (data page0))) (heap_iter page0) = Some (it, xs) \<and>
    set xs = {(v, s). heap_view page0 s = Some v} \<and> sorted_wrt (<) (map snd xs))"
  using page_scan [OF page0_facts(2)] page0_facts(2) by blast

text \<open>C7: Adding an empty value to a fresh page succeeds and leaves a slot that counts as in use but is
  found as free; adding any value that fits then panics on the underflow of the deleted slot count.\<close>

theorem add_empty_then_panic:
  assumes "length v < 4068"
  shows "\<exists>p q. fresh_page pid = Some p \<and> add_value p [] = Some (q, Some 0) \<and> add_value q v = None"
proof -
  obtain p where p: "fresh_page pid = Some p" "heap_wf p" "nslots (data p) = 0" "fsp_of (data p) = 4096"
    using fresh_page_ok by blast
  have fb: "free_bytes p = 4072" "zero_count (data p) = 0" "hdr (data p) = 24"
    using p(3) by (simp_all add: free_bytes_def hdr_def zero_count_def)
  then obtain q where q: "add_value p [] = Some (q, Some 0)" "layout_ok (data q)" "free_slots (data q) = 0"
    "add_slot q = 0" "nslots (data q) = 1" "free_bytes q = 4068"
    by (rule_tac add_empty_value [OF p(2)]) (simp_all add: p(3,4))
  have "add_value q v = None"
    by (rule add_reuses_uncounted_slot) (use q assms in simp_all)
  then show ?thesis using p(1) q(1) by blast
qed

theorem add_empty_then_panic_witness:
  "\<exists>p q. fresh_page 0 = Some p \<and> add_value p [] = Some (q, Some 0) \<and> add_value q [5] = None"
  by (rule add_empty_then_panic) simp

end
