(* ===== verification/RwLatch.thy ===== *)
theory RwLatch
  imports Prelude
begin

text \<open>
  \<open>common/src/rwlatch.rs\<close>: the spinning read-write latch, an \<open>AtomicI16\<close> that counts readers, with
  \<open>-1\<close> for a writer.

  The count is an \<open>int\<close> kept in the range of an \<open>i16\<close>: \<open>expected + 1\<close> is checked, \<open>fetch_sub\<close> wraps.
  The first part has the operations as one thread runs them while no other is active; \<open>None\<close> then
  means that a call does not return, because it panics or because its loop spins for ever. The second
  part has the interleavings: each load and each compare-and-exchange is one step of one thread.
\<close>

section \<open>Operations\<close>

type_synonym RwLatch = int

definition RwLatch_default :: RwLatch where "RwLatch_default = 0"

definition is_locked :: "RwLatch \<Rightarrow> bool" where "is_locked cnt \<longleftrightarrow> cnt \<noteq> 0"
definition is_shared :: "RwLatch \<Rightarrow> bool" where "is_shared cnt \<longleftrightarrow> cnt > 0"
definition is_exclusive :: "RwLatch \<Rightarrow> bool" where "is_exclusive cnt \<longleftrightarrow> cnt < 0"

definition i16_inc :: "int \<Rightarrow> int option" where
  "i16_inc x = (if x + 1 \<le> 32767 then Some (x + 1) else None)"

definition i16_wrap :: "int \<Rightarrow> int" where
  "i16_wrap x = (x + 32768) mod 65536 - 32768"

definition shared :: "RwLatch \<Rightarrow> RwLatch option" where
  "shared cnt = (if cnt \<ge> 0 then i16_inc cnt else None)"

definition try_shared :: "RwLatch \<Rightarrow> (RwLatch \<times> bool) option" where
  "try_shared cnt = (if cnt < 0 then Some (cnt, False) else do { n \<leftarrow> i16_inc cnt; Some (n, True) })"

definition exclusive :: "RwLatch \<Rightarrow> RwLatch option" where
  "exclusive cnt = (if cnt = 0 then Some (- 1) else None)"

definition try_exclusive :: "RwLatch \<Rightarrow> RwLatch \<times> bool" where
  "try_exclusive cnt = (if cnt \<noteq> 0 then (cnt, False) else (- 1, True))"

definition upgrade :: "RwLatch \<Rightarrow> RwLatch option" where
  "upgrade cnt = (if cnt = 1 then Some (- 1) else None)"

definition try_upgrade :: "RwLatch \<Rightarrow> RwLatch \<times> bool" where
  "try_upgrade cnt = (if cnt \<noteq> 1 then (cnt, False) else (- 1, True))"

definition downgrade :: "RwLatch \<Rightarrow> RwLatch option" where
  "downgrade cnt = (if cnt = - 1 then Some 1 else None)"

definition release_shared :: "RwLatch \<Rightarrow> RwLatch" where
  "release_shared cnt = i16_wrap (cnt - 1)"

definition release_exclusive :: "RwLatch \<Rightarrow> RwLatch" where
  "release_exclusive cnt = 0"

lemma release_shared_pos [simp]: "0 < cnt \<Longrightarrow> cnt \<le> 32767 \<Longrightarrow> release_shared cnt = cnt - 1"
  by (simp add: release_shared_def i16_wrap_def)

lemma shared_free [simp]: "shared 0 = Some 1"
  by (simp add: shared_def i16_inc_def)

lemma exclusive_free [simp]: "exclusive 0 = Some (- 1)"
  by (simp add: exclusive_def)

lemma try_shared_free [simp]: "try_shared 0 = Some (1, True)"
  by (simp add: try_shared_def i16_inc_def)

lemma try_exclusive_free [simp]: "try_exclusive 0 = (- 1, True)"
  by (simp add: try_exclusive_def)

lemma release_free [simp]: "release_shared 1 = 0" "release_exclusive cnt = 0"
  by (simp_all add: release_exclusive_def)

lemma downgrade_exclusive [simp]: "downgrade (- 1) = Some 1"
  by (simp add: downgrade_def)

section \<open>Interleavings\<close>

datatype latch_op = Shared | TryShared | Exclusive | TryExclusive | Upgrade | TryUpgrade | Downgrade

text \<open>Where a thread is: outside a call, about to load the count, about to exchange the loaded value,
  or stopped by a panic; and which side of the latch it holds.\<close>

datatype pc = Idle | Load latch_op | Cas latch_op int | Panicked

datatype held = Free | HoldS | HoldX

record thread =
  pc :: pc
  held :: held

record 't system =
  cnt :: int
  thr :: "'t \<Rightarrow> thread"

text \<open>After the load: the exchange, or back to the load (spin), or a return with \<open>false\<close>.\<close>

fun after_load :: "latch_op \<Rightarrow> int \<Rightarrow> pc" where
  "after_load Shared e = (if e \<ge> 0 then (if e + 1 \<le> 32767 then Cas Shared e else Panicked) else Load Shared)"
| "after_load TryShared e = (if e < 0 then Idle else if e + 1 \<le> 32767 then Cas TryShared e else Panicked)"
| "after_load Exclusive e = (if e = 0 then Cas Exclusive e else Load Exclusive)"
| "after_load TryExclusive e = (if e \<noteq> 0 then Idle else Cas TryExclusive e)"
| "after_load Upgrade e = (if e = 1 then Cas Upgrade e else Load Upgrade)"
| "after_load TryUpgrade e = (if e \<noteq> 1 then Idle else Cas TryUpgrade e)"
| "after_load Downgrade e = (if e = - 1 then Cas Downgrade e else Load Downgrade)"

text \<open>The value exchanged for the expected one, and what the thread holds then.\<close>

fun desired :: "latch_op \<Rightarrow> int \<Rightarrow> int" where
  "desired Shared e = e + 1"
| "desired TryShared e = e + 1"
| "desired Exclusive e = - 1"
| "desired TryExclusive e = - 1"
| "desired Upgrade e = - 1"
| "desired TryUpgrade e = - 1"
| "desired Downgrade e = 1"

fun acquired :: "latch_op \<Rightarrow> held" where
  "acquired Shared = HoldS"
| "acquired TryShared = HoldS"
| "acquired Exclusive = HoldX"
| "acquired TryExclusive = HoldX"
| "acquired Upgrade = HoldX"
| "acquired TryUpgrade = HoldX"
| "acquired Downgrade = HoldS"

text \<open>What a caller must hold to call an operation. The frame guards follow it: a read guard holds the
  shared side, a write guard the exclusive one.\<close>

fun needs :: "latch_op \<Rightarrow> held" where
  "needs Upgrade = HoldS"
| "needs TryUpgrade = HoldS"
| "needs Downgrade = HoldX"
| "needs _ = Free"

inductive latch_step :: "'t system \<Rightarrow> 't system \<Rightarrow> bool" where
  call: "pc (thr s t) = Idle \<Longrightarrow> held (thr s t) = needs x \<Longrightarrow>
    latch_step s (s\<lparr>thr := (thr s)(t := (thr s t)\<lparr>pc := Load x\<rparr>)\<rparr>)"
| load: "pc (thr s t) = Load x \<Longrightarrow>
    latch_step s (s\<lparr>thr := (thr s)(t := (thr s t)\<lparr>pc := after_load x (cnt s)\<rparr>)\<rparr>)"
| cas_ok: "pc (thr s t) = Cas x e \<Longrightarrow> cnt s = e \<Longrightarrow>
    latch_step s (s\<lparr>cnt := desired x e, thr := (thr s)(t := \<lparr>pc = Idle, held = acquired x\<rparr>)\<rparr>)"
| cas_fail: "pc (thr s t) = Cas x e \<Longrightarrow> cnt s \<noteq> e \<Longrightarrow>
    latch_step s (s\<lparr>thr := (thr s)(t := (thr s t)\<lparr>pc := Load x\<rparr>)\<rparr>)"
| rel_shared: "pc (thr s t) = Idle \<Longrightarrow> held (thr s t) = HoldS \<Longrightarrow>
    latch_step s (s\<lparr>cnt := release_shared (cnt s), thr := (thr s)(t := \<lparr>pc = Idle, held = Free\<rparr>)\<rparr>)"
| rel_exclusive: "pc (thr s t) = Idle \<Longrightarrow> held (thr s t) = HoldX \<Longrightarrow>
    latch_step s (s\<lparr>cnt := release_exclusive (cnt s), thr := (thr s)(t := \<lparr>pc = Idle, held = Free\<rparr>)\<rparr>)"

definition latch_init :: "'t system" where
  "latch_init = \<lparr>cnt = RwLatch_default, thr = (\<lambda>_. \<lparr>pc = Idle, held = Free\<rparr>)\<rparr>"

inductive latch_reachable :: "'t system \<Rightarrow> bool" where
  init: "latch_reachable latch_init"
| step: "latch_reachable s \<Longrightarrow> latch_step s s' \<Longrightarrow> latch_reachable s'"

section \<open>A call that is not interrupted\<close>

text \<open>The operations of the first section, with \<open>False\<close> for an attempt that was refused, and what the steps of one
  thread do when no other thread moves in between.\<close>

fun alone :: "latch_op \<Rightarrow> int \<Rightarrow> (int \<times> bool) option" where
  "alone Shared n = map_option (\<lambda>m. (m, True)) (shared n)"
| "alone TryShared n = try_shared n"
| "alone Exclusive n = map_option (\<lambda>m. (m, True)) (exclusive n)"
| "alone TryExclusive n = Some (try_exclusive n)"
| "alone Upgrade n = map_option (\<lambda>m. (m, True)) (upgrade n)"
| "alone TryUpgrade n = Some (try_upgrade n)"
| "alone Downgrade n = map_option (\<lambda>m. (m, True)) (downgrade n)"

lemmas operation_defs = shared_def try_shared_def exclusive_def try_exclusive_def upgrade_def try_upgrade_def downgrade_def
  i16_inc_def

lemma alone_loaded:
  "alone x n = Some (m, True) \<longleftrightarrow> after_load x n = Cas x n \<and> desired x n = m"
  "alone x n = Some (m, False) \<longleftrightarrow> after_load x n = Idle \<and> m = n"
  "alone x n = None \<longleftrightarrow> after_load x n = Load x \<or> after_load x n = Panicked"
proof -
  show "alone x n = Some (m, True) \<longleftrightarrow> after_load x n = Cas x n \<and> desired x n = m" by (cases x) (auto simp: operation_defs)
  show "alone x n = Some (m, False) \<longleftrightarrow> after_load x n = Idle \<and> m = n" by (cases x) (auto simp: operation_defs)
  show "alone x n = None \<longleftrightarrow> after_load x n = Load x \<or> after_load x n = Panicked" by (cases x) (auto simp: operation_defs)
qed

text \<open>An operation that returns for a thread alone is reached by the steps of that thread: it has exchanged the count
  and holds the latch, or is back outside with nothing changed.\<close>

lemma alone_steps:
  assumes t: "thr s t = \<lparr>pc = Idle, held = needs x\<rparr>" and run: "alone x (cnt s) = Some (m, ok)"
  shows "latch_step\<^sup>*\<^sup>* s (s\<lparr>cnt := m, thr := (thr s)(t := \<lparr>pc = Idle, held = if ok then acquired x else needs x\<rparr>)\<rparr>)"
proof -
  let ?s1 = "s\<lparr>thr := (thr s)(t := \<lparr>pc = Load x, held = needs x\<rparr>)\<rparr>"
  let ?s2 = "s\<lparr>thr := (thr s)(t := \<lparr>pc = after_load x (cnt s), held = needs x\<rparr>)\<rparr>"
  have "latch_step s ?s1" using latch_step.call [of s t x] t by simp
  moreover have "latch_step ?s1 ?s2" using latch_step.load [of ?s1 t x] by simp
  ultimately have two: "latch_step\<^sup>*\<^sup>* s ?s2" by (meson converse_rtranclp_into_rtranclp r_into_rtranclp)
  show ?thesis
  proof (cases ok)
    case True
    then have a: "after_load x (cnt s) = Cas x (cnt s)" "desired x (cnt s) = m" using run alone_loaded(1) by simp_all
    have "latch_step ?s2 (s\<lparr>cnt := m, thr := (thr s)(t := \<lparr>pc = Idle, held = acquired x\<rparr>)\<rparr>)"
      using latch_step.cas_ok [of ?s2 t x "cnt s"] a by simp
    then show ?thesis using two True by (simp add: rtranclp.rtrancl_into_rtrancl)
  next
    case False
    then have "after_load x (cnt s) = Idle" "m = cnt s" using run alone_loaded(2) by simp_all
    then show ?thesis using two False by simp
  qed
qed

section \<open>Mutual exclusion\<close>

definition holders :: "held \<Rightarrow> ('t \<Rightarrow> thread) \<Rightarrow> 't set" where
  "holders h f = {t. held (f t) = h}"

lemma holders_upd:
  "holders h (f(t := v)) = (if held v = h then insert t (holders h f) else holders h f - {t})"
  by (auto simp: holders_def)

lemma holders_same: "held v = held (f t) \<Longrightarrow> holders h (f(t := v)) = holders h f"
  by (auto simp: holders_def)

text \<open>What a thread knows about the value it loaded.\<close>

fun loaded_ok :: "latch_op \<Rightarrow> int \<Rightarrow> bool" where
  "loaded_ok Shared e = (0 \<le> e \<and> e < 32767)"
| "loaded_ok TryShared e = (0 \<le> e \<and> e < 32767)"
| "loaded_ok Exclusive e = (e = 0)"
| "loaded_ok TryExclusive e = (e = 0)"
| "loaded_ok Upgrade e = (e = 1)"
| "loaded_ok TryUpgrade e = (e = 1)"
| "loaded_ok Downgrade e = (e = - 1)"

fun thread_ok :: "thread \<Rightarrow> bool" where
  "thread_ok th = (case pc th of
     Idle \<Rightarrow> True
   | Load x \<Rightarrow> held th = needs x
   | Cas x e \<Rightarrow> held th = needs x \<and> loaded_ok x e
   | Panicked \<Rightarrow> True)"

definition count_ok :: "int \<Rightarrow> 't set \<Rightarrow> 't set \<Rightarrow> bool" where
  "count_ok n S X \<longleftrightarrow> finite S \<and> n \<le> 32767 \<and>
     (X = {} \<and> n = int (card S) \<or> (\<exists>t. X = {t} \<and> S = {} \<and> n = - 1))"

definition latch_inv :: "'t system \<Rightarrow> bool" where
  "latch_inv s \<longleftrightarrow> count_ok (cnt s) (holders HoldS (thr s)) (holders HoldX (thr s)) \<and>
     (\<forall>t. thread_ok (thr s t))"

lemma after_load_ok:
  assumes "held th = needs x"
  shows "thread_ok (th\<lparr>pc := after_load x e\<rparr>)"
  using assms by (cases x) auto

lemma count_ok_cas:
  assumes ok: "count_ok n S X" and ld: "loaded_ok x n" and S: "t \<in> S \<longleftrightarrow> needs x = HoldS"
    and X: "t \<in> X \<longleftrightarrow> needs x = HoldX"
  shows "count_ok (desired x n) (if acquired x = HoldS then insert t S else S - {t})
    (if acquired x = HoldX then insert t X else X - {t})"
proof (cases x)
  case Shared
  with assms show ?thesis by (auto simp: count_ok_def)
next
  case TryShared
  with assms show ?thesis by (auto simp: count_ok_def)
next
  case Exclusive
  with assms show ?thesis by (auto simp: count_ok_def)
next
  case TryExclusive
  with assms show ?thesis by (auto simp: count_ok_def)
next
  case Upgrade
  with assms have "card S = 1" "t \<in> S" "X = {}" by (auto simp: count_ok_def)
  then have "S = {t}" by (metis card_1_singletonE singletonD)
  with Upgrade \<open>X = {}\<close> show ?thesis by (auto simp: count_ok_def)
next
  case TryUpgrade
  with assms have "card S = 1" "t \<in> S" "X = {}" by (auto simp: count_ok_def)
  then have "S = {t}" by (metis card_1_singletonE singletonD)
  with TryUpgrade \<open>X = {}\<close> show ?thesis by (auto simp: count_ok_def)
next
  case Downgrade
  with assms show ?thesis by (auto simp: count_ok_def)
qed

lemma count_ok_release_shared:
  assumes "count_ok n S X" and "t \<in> S"
  shows "count_ok (release_shared n) (S - {t}) X"
proof -
  have a: "X = {}" "n = int (card S)" "finite S" "n \<le> 32767" using assms by (auto simp: count_ok_def)
  have "card (S - {t}) + 1 = card S" using a(3) assms(2) by (metis Suc_eq_plus1 card_Suc_Diff1)
  then have n: "n = int (card (S - {t})) + 1" using a(2) by simp
  then have "release_shared n = int (card (S - {t}))" using a(4) by simp
  then show ?thesis using a n by (simp add: count_ok_def)
qed

lemma latch_step_inv:
  assumes "latch_step s s'" and "latch_inv s"
  shows "latch_inv s'"
  using assms
proof (induction rule: latch_step.induct)
  case (call s t x)
  then show ?case by (auto simp: latch_inv_def holders_same)
next
  case (load s t x)
  then have "thread_ok (thr s t)" by (simp add: latch_inv_def del: thread_ok.simps)
  with load have "held (thr s t) = needs x" by simp
  then have "thread_ok ((thr s t)\<lparr>pc := after_load x (cnt s)\<rparr>)" by (rule after_load_ok)
  with load show ?case by (simp add: latch_inv_def holders_same del: thread_ok.simps)
next
  case (cas_ok s t x e)
  then have "thread_ok (thr s t)" by (simp add: latch_inv_def del: thread_ok.simps)
  with cas_ok have "held (thr s t) = needs x" "loaded_ok x (cnt s)" by simp_all
  moreover have "t \<in> holders h (thr s) \<longleftrightarrow> held (thr s t) = h" for h by (simp add: holders_def)
  ultimately show ?case
    using cas_ok count_ok_cas [of "cnt s" "holders HoldS (thr s)" "holders HoldX (thr s)" x t]
    by (simp add: latch_inv_def holders_upd)
next
  case (cas_fail s t x e)
  then have "thread_ok (thr s t)" by (simp add: latch_inv_def del: thread_ok.simps)
  with cas_fail show ?case by (simp add: latch_inv_def holders_same)
next
  case (rel_shared s t)
  then have "t \<in> holders HoldS (thr s)" "t \<notin> holders HoldX (thr s)" by (simp_all add: holders_def)
  with rel_shared show ?case
    by (simp add: latch_inv_def holders_upd count_ok_release_shared)
next
  case (rel_exclusive s t)
  then have "t \<in> holders HoldX (thr s)" by (simp add: holders_def)
  with rel_exclusive show ?case by (auto simp: latch_inv_def holders_upd count_ok_def)
qed

lemma latch_reachable_inv: "latch_reachable s \<Longrightarrow> latch_inv s"
proof (induction rule: latch_reachable.induct)
  case init
  show ?case by (simp add: latch_inv_def latch_init_def holders_def count_ok_def RwLatch_default_def)
qed (rule latch_step_inv)

text \<open>C8: In every interleaving of any number of threads that follow the guards' discipline, a thread
  that holds the latch exclusively is the only one that holds it, and the count says exactly who holds
  it: \<open>-1\<close> for a writer, else the number of readers, without an overflow of the 16 bits.\<close>

theorem latch_mutual_exclusion:
  assumes "latch_reachable (s :: nat system)"
  shows "(\<forall>t u. held (thr s t) = HoldX \<and> t \<noteq> u \<longrightarrow> held (thr s u) = Free) \<and>
    (is_exclusive (cnt s) \<longleftrightarrow> (\<exists>t. held (thr s t) = HoldX)) \<and>
    (\<not> is_exclusive (cnt s) \<longrightarrow> cnt s = int (card {t. held (thr s t) = HoldS})) \<and>
    - 1 \<le> cnt s \<and> cnt s \<le> 32767"
proof -
  have c: "count_ok (cnt s) (holders HoldS (thr s)) (holders HoldX (thr s))"
    using latch_reachable_inv [OF assms] by (simp add: latch_inv_def)
  have "held (thr s u) = Free" if "held (thr s t) = HoldX" "t \<noteq> u" for t u
    using c that unfolding count_ok_def holders_def
    by (cases "held (thr s u)") (auto simp: set_eq_iff)
  with c show ?thesis
    unfolding count_ok_def holders_def is_exclusive_def by (auto simp: set_eq_iff)
qed

lemma writer_reachable:
  "\<exists>s :: nat system. latch_reachable s \<and> held (thr s 0) = HoldX"
proof -
  let ?s0 = "latch_init :: nat system"
  let ?s1 = "?s0\<lparr>thr := (thr ?s0)(0 := (thr ?s0 0)\<lparr>pc := Load Exclusive\<rparr>)\<rparr>"
  let ?s2 = "?s1\<lparr>thr := (thr ?s1)(0 := (thr ?s1 0)\<lparr>pc := after_load Exclusive (cnt ?s1)\<rparr>)\<rparr>"
  let ?s3 = "?s2\<lparr>cnt := desired Exclusive 0, thr := (thr ?s2)(0 := \<lparr>pc = Idle, held = acquired Exclusive\<rparr>)\<rparr>"
  have "latch_step ?s0 ?s1" by (rule latch_step.call) (simp_all add: latch_init_def)
  moreover have "latch_step ?s1 ?s2" by (rule latch_step.load) (simp add: latch_init_def)
  moreover have "latch_step ?s2 ?s3" by (rule latch_step.cas_ok) (simp_all add: latch_init_def RwLatch_default_def)
  ultimately have "latch_reachable ?s3" using latch_reachable.init latch_reachable.step by metis
  moreover have "held (thr ?s3 0) = HoldX" by simp
  ultimately show ?thesis by blast
qed

theorem latch_mutual_exclusion_witness:
  "\<exists>s :: nat system. latch_reachable s \<and> held (thr s 0) = HoldX \<and> held (thr s 1) = Free \<and> is_exclusive (cnt s)"
proof -
  obtain s :: "nat system" where s: "latch_reachable s" "held (thr s 0) = HoldX" using writer_reachable by blast
  from latch_mutual_exclusion [OF s(1)] s have "held (thr s 1) = Free" "is_exclusive (cnt s)" by (auto dest: spec [of _ 0])
  with s show ?thesis by blast
qed

end
