(* ===== verification/BaseFile.thy ===== *)
theory BaseFile
  imports Page "HOL-Library.AList"
begin

text \<open>
  \<open>heapstore/src/base_file.rs\<close> and \<open>heapstore/src/container_file_catalog.rs\<close>: the files that hold the
  pages, and the catalog of containers.

  The system calls are code outside the repository: they are the record \<open>posix\<close>, an argument of every
  definition that reaches them, over an arbitrary type \<open>'f\<close> of files. \<open>posix_ok\<close> states what POSIX
  documents for a regular file without faults: the size is the length of the contents, \<open>pread\<close> returns
  the bytes that are there, \<open>pwrite\<close> writes all of them and fills a gap with zeros. The directory of
  the database is the map \<open>disk\<close> from container ids, which are the file names, to files.

  A result of type \<open>('s \<times> ('e + 'a)) option\<close> is a call that changes the state \<open>'s\<close> and answers
  \<open>Err\<close> (\<open>Inl\<close>) or \<open>Ok\<close> (\<open>Inr\<close>); \<open>None\<close> is a call that does not return, which is a panic or a loop that
  spins for ever. The counters of the build feature \<open>stat\<close>, which is off, are left out.
\<close>

section \<open>Calls that may fail\<close>

type_synonym ('s, 'e, 'a) run = "('s \<times> ('e + 'a)) option"

definition and_then :: "('s, 'e, 'a) run \<Rightarrow> ('s \<Rightarrow> 'a \<Rightarrow> ('s, 'e, 'b) run) \<Rightarrow> ('s, 'e, 'b) run" where
  "and_then m k = (case m of
     None \<Rightarrow> None
   | Some (s, Inl e) \<Rightarrow> Some (s, Inl e)
   | Some (s, Inr x) \<Rightarrow> k s x)"

text \<open>\<open>r.unwrap()\<close> panics on an error, \<open>r.map_err(f)\<close> converts it.\<close>

definition unwrap :: "('s, 'e, 'a) run \<Rightarrow> ('s \<times> 'a) option" where
  "unwrap m = (case m of Some (s, Inr x) \<Rightarrow> Some (s, x) | _ \<Rightarrow> None)"

definition map_err :: "('e \<Rightarrow> 'f) \<Rightarrow> ('s, 'e, 'a) run \<Rightarrow> ('s, 'f, 'a) run" where
  "map_err f m = (case m of
     None \<Rightarrow> None
   | Some (s, Inl e) \<Rightarrow> Some (s, Inl (f e))
   | Some (s, Inr x) \<Rightarrow> Some (s, Inr x))"

lemma and_then_simps [simp]:
  "and_then None k = None"
  "and_then (Some (s, Inl e)) k = Some (s, Inl e)"
  "and_then (Some (s, Inr x)) k = k s x"
  by (simp_all add: and_then_def)

lemma unwrap_simps [simp]:
  "unwrap None = None" "unwrap (Some (s, Inl e)) = None" "unwrap (Some (s, Inr x)) = Some (s, x)"
  by (simp_all add: unwrap_def)

lemma map_err_simps [simp]:
  "map_err f None = None" "map_err f (Some (s, Inl e)) = Some (s, Inl (f e))"
  "map_err f (Some (s, Inr x)) = Some (s, Inr x)"
  by (simp_all add: map_err_def)

datatype MemPoolStatus =
    BaseFileNotFound
  | BaseFileError string
  | PageNotFound
  | FrameReadLatchGrantFailed
  | FrameWriteLatchGrantFailed
  | CannotEvictPage

section \<open>The system calls\<close>

text \<open>\<open>pread\<close> returns the bytes read, \<open>None\<close> for its result \<open>-1\<close>; \<open>pwrite\<close> returns the count.\<close>

record 'f posix =
  p_empty :: 'f
  p_fstat :: "'f \<Rightarrow> nat option"
  p_pread :: "'f \<Rightarrow> nat \<Rightarrow> nat \<Rightarrow> bytes option"
  p_pwrite :: "'f \<Rightarrow> bytes \<Rightarrow> nat \<Rightarrow> 'f \<times> int"
  p_fsync :: "'f \<Rightarrow> int"
  p_last_error :: string

definition write_at :: "bytes \<Rightarrow> nat \<Rightarrow> bytes \<Rightarrow> bytes" where
  "write_at c off bs = take off (c @ replicate (off - length c) 0) @ bs @ drop (off + length bs) c"

definition posix_ok :: "'f posix \<Rightarrow> ('f \<Rightarrow> bytes) \<Rightarrow> bool" where
  "posix_ok ps content \<longleftrightarrow>
     content (p_empty ps) = [] \<and>
     (\<forall>f. p_fstat ps f = Some (length (content f))) \<and>
     (\<forall>f n off. p_pread ps f n off = Some (slice (content f) off n)) \<and>
     (\<forall>f bs off. \<exists>f'. p_pwrite ps f bs off = (f', int (length bs)) \<and>
        content f' = write_at (content f) off bs)"

text \<open>Files that are their contents, which satisfy it.\<close>

definition posix_mem :: "bytes posix" where
  "posix_mem = \<lparr>p_empty = [], p_fstat = (\<lambda>f. Some (length f)), p_pread = (\<lambda>f n off. Some (slice f off n)),
     p_pwrite = (\<lambda>f bs off. (write_at f off bs, int (length bs))), p_fsync = (\<lambda>f. 0), p_last_error = ''''\<rparr>"

lemma posix_mem_ok: "posix_ok posix_mem (\<lambda>f. f)"
  by (simp add: posix_ok_def posix_mem_def)

section \<open>BaseFile\<close>

text \<open>The functions of \<open>BaseFile\<close> on the file of a container. \<open>direct\<close> is always true.\<close>

definition file_num_pages :: "'f posix \<Rightarrow> 'f \<Rightarrow> nat" where
  "file_num_pages ps f = (case p_fstat ps f of None \<Rightarrow> 0 | Some sz \<Rightarrow> sz div PAGE_SIZE)"

text \<open>A short read has filled the front of the buffer before the error is returned. The two assertions
  are those of a debug build.\<close>

definition file_read_page :: "'f posix \<Rightarrow> 'f \<Rightarrow> PageId \<Rightarrow> Page \<Rightarrow> (Page, MemPoolStatus, unit) run" where
  "file_read_page ps f pid page = do {
     assert_that (pid < word_of_nat (file_num_pages ps f));
     let offset = unat pid * PAGE_SIZE;
     (case p_pread ps f PAGE_SIZE offset of
        None \<Rightarrow> Some (page, Inl (BaseFileError (p_last_error ps)))
      | Some bs \<Rightarrow> do {
          let page = page\<lparr>data := put (data page) 0 bs\<rparr>;
          if length bs \<noteq> PAGE_SIZE then Some (page, Inl (BaseFileError (p_last_error ps)))
          else do {
            found \<leftarrow> get_page_id page;
            assert_that (found = pid);
            Some (page, Inr ()) } }) }"

definition file_write_page :: "'f posix \<Rightarrow> 'f \<Rightarrow> PageId \<Rightarrow> Page \<Rightarrow> ('f, MemPoolStatus, unit) run" where
  "file_write_page ps f pid page = do {
     found \<leftarrow> get_page_id page;
     assert_that (found = pid);
     let offset = unat pid * PAGE_SIZE;
     let (f, ret) = p_pwrite ps f (Page_to_bytes page) offset;
     if ret \<noteq> int PAGE_SIZE then Some (f, Inl (BaseFileError (p_last_error ps)))
     else Some (f, Inr ()) }"

definition file_flush :: "'f posix \<Rightarrow> bool \<Rightarrow> 'f \<Rightarrow> MemPoolStatus + unit" where
  "file_flush ps direct f =
     (if direct then Inr ()
      else if p_fsync ps f \<noteq> 0 then Inl (BaseFileError (p_last_error ps)) else Inr ())"

section \<open>Containers and their catalog\<close>

text \<open>The concurrent map of containers and the directory are association lists with distinct keys; the
  order of the list is the order of an iteration.\<close>

record Container =
  page_count :: PageId
  is_temp :: bool

record 'f ContainerFileCatalog =
  remove_dir_on_drop :: bool
  containers :: "(ContainerId \<times> Container) list"
  disk :: "(ContainerId \<times> 'f) list"

text \<open>\<open>try_into().unwrap()\<close> on the page count panics when it does not fit into a page id.\<close>

definition page_id_of_nat :: "nat \<Rightarrow> PageId option" where
  "page_id_of_nat n = (if n < 2 ^ 32 then Some (word_of_nat n) else None)"

definition Container_new :: "'f posix \<Rightarrow> 'f \<Rightarrow> Container option" where
  "Container_new ps f = do {
     n \<leftarrow> page_id_of_nat (file_num_pages ps f);
     Some \<lparr>page_count = n, is_temp = False\<rparr> }"

definition Container_new_temp :: "'f posix \<Rightarrow> 'f \<Rightarrow> Container option" where
  "Container_new_temp ps f = do {
     n \<leftarrow> page_id_of_nat (file_num_pages ps f);
     Some \<lparr>page_count = n, is_temp = True\<rparr> }"

text \<open>\<open>BaseFile::new\<close> opens the file of the container and creates it when it is not there.\<close>

definition file_open :: "'f posix \<Rightarrow> (ContainerId \<times> 'f) list \<Rightarrow> ContainerId \<Rightarrow> (ContainerId \<times> 'f) list \<times> 'f" where
  "file_open ps dsk c_id = (case map_of dsk c_id of
     Some f \<Rightarrow> (dsk, f)
   | None \<Rightarrow> (AList.update c_id (p_empty ps) dsk, p_empty ps))"

text \<open>The catalog over an existing directory: a container for every file.\<close>

primrec open_all :: "'f posix \<Rightarrow> (ContainerId \<times> 'f) list \<Rightarrow> (ContainerId \<times> Container) list option" where
  "open_all ps [] = Some []"
| "open_all ps (e # es) = do {
     con \<leftarrow> Container_new ps (snd e);
     rest \<leftarrow> open_all ps es;
     Some ((fst e, con) # rest) }"

definition ContainerFileCatalog_new ::
  "'f posix \<Rightarrow> (ContainerId \<times> 'f) list \<Rightarrow> bool \<Rightarrow> 'f ContainerFileCatalog option" where
  "ContainerFileCatalog_new ps dsk remove = do {
     cs \<leftarrow> open_all ps dsk;
     Some \<lparr>remove_dir_on_drop = remove, containers = cs, disk = dsk\<rparr> }"

definition container_ids :: "'f ContainerFileCatalog \<Rightarrow> ContainerId list" where
  "container_ids cat = map fst (containers cat)"

definition register_container ::
  "'f posix \<Rightarrow> 'f ContainerFileCatalog \<Rightarrow> ContainerId \<Rightarrow> bool \<Rightarrow> 'f ContainerFileCatalog option" where
  "register_container ps cat c_id temp = (case map_of (containers cat) c_id of
     Some _ \<Rightarrow> Some cat
   | None \<Rightarrow> do {
       let (dsk, f) = file_open ps (disk cat) c_id;
       con \<leftarrow> (if temp then Container_new_temp ps f else Container_new ps f);
       Some (cat\<lparr>containers := AList.update c_id con (containers cat), disk := dsk\<rparr>) })"

definition get_container ::
  "'f posix \<Rightarrow> 'f ContainerFileCatalog \<Rightarrow> ContainerId \<Rightarrow> ('f ContainerFileCatalog \<times> Container) option" where
  "get_container ps cat c_id = (case map_of (containers cat) c_id of
     Some con \<Rightarrow> Some (cat, con)
   | None \<Rightarrow> do {
       let (dsk, f) = file_open ps (disk cat) c_id;
       con \<leftarrow> Container_new ps f;
       Some (cat\<lparr>containers := AList.update c_id con (containers cat), disk := dsk\<rparr>, con) })"

definition get_container_page_count :: "'f ContainerFileCatalog \<Rightarrow> ContainerId \<Rightarrow> PageId option" where
  "get_container_page_count cat c_id = map_option page_count (map_of (containers cat) c_id)"

text \<open>The methods of a container, which the pool calls on what \<open>get_container\<close> returned.
  \<open>fetch_add\<close> returns the old count and wraps around.\<close>

definition set_temp :: "'f ContainerFileCatalog \<Rightarrow> ContainerId \<Rightarrow> bool \<Rightarrow> 'f ContainerFileCatalog option" where
  "set_temp cat c_id b = do {
     con \<leftarrow> map_of (containers cat) c_id;
     Some (cat\<lparr>containers := AList.update c_id (con\<lparr>is_temp := b\<rparr>) (containers cat)\<rparr>) }"

definition inc_page_count ::
  "'f ContainerFileCatalog \<Rightarrow> ContainerId \<Rightarrow> nat \<Rightarrow> ('f ContainerFileCatalog \<times> PageId) option" where
  "inc_page_count cat c_id n = do {
     con \<leftarrow> map_of (containers cat) c_id;
     Some (cat\<lparr>containers :=
             AList.update c_id (con\<lparr>page_count := page_count con + word_of_nat n\<rparr>) (containers cat)\<rparr>,
           page_count con) }"

definition container_read_page ::
  "'f posix \<Rightarrow> 'f ContainerFileCatalog \<Rightarrow> ContainerId \<Rightarrow> PageId \<Rightarrow> Page \<Rightarrow> (Page, MemPoolStatus, unit) run" where
  "container_read_page ps cat c_id pid page = do {
     f \<leftarrow> map_of (disk cat) c_id;
     file_read_page ps f pid page }"

definition container_write_page ::
  "'f posix \<Rightarrow> 'f ContainerFileCatalog \<Rightarrow> ContainerId \<Rightarrow> PageId \<Rightarrow> Page \<Rightarrow>
   ('f ContainerFileCatalog, MemPoolStatus, unit) run" where
  "container_write_page ps cat c_id pid page = do {
     con \<leftarrow> map_of (containers cat) c_id;
     if \<not> is_temp con then do {
       f \<leftarrow> map_of (disk cat) c_id;
       (f, r) \<leftarrow> file_write_page ps f pid page;
       Some (cat\<lparr>disk := AList.update c_id f (disk cat)\<rparr>, r) }
     else Some (cat, Inr ()) }"

text \<open>\<open>flush_all\<close> of the catalog flushes the containers one by one; their files have \<open>direct\<close> set.\<close>

primrec flush_containers ::
  "'f posix \<Rightarrow> (ContainerId \<times> 'f) list \<Rightarrow> (ContainerId \<times> Container) list \<Rightarrow> (MemPoolStatus + unit) option" where
  "flush_containers ps dsk [] = Some (Inr ())"
| "flush_containers ps dsk (c # cs) = do {
     f \<leftarrow> map_of dsk (fst c);
     (case file_flush ps True f of
        Inl e \<Rightarrow> Some (Inl e)
      | Inr _ \<Rightarrow> flush_containers ps dsk cs) }"

definition cfc_flush_all :: "'f posix \<Rightarrow> 'f ContainerFileCatalog \<Rightarrow> (MemPoolStatus + unit) option" where
  "cfc_flush_all ps cat = flush_containers ps (disk cat) (containers cat)"

text \<open>\<open>remove_all\<close> forgets the containers and removes the files.\<close>

definition remove_all :: "'f ContainerFileCatalog \<Rightarrow> 'f ContainerFileCatalog" where
  "remove_all cat = cat\<lparr>containers := [], disk := []\<rparr>"

end
