(* ===== verification/BufferFrame.thy ===== *)
theory BufferFrame
  imports BaseFile RwLatch
begin

text \<open>
  \<open>heapstore/src/buffer_pool/buffer_frame.rs\<close> and \<open>eviction_policy.rs\<close>: a frame is a page in memory with
  its key, latch, dirty flag and eviction score. A read or write guard is the index of a frame whose
  latch is held; \<open>read_guard_drop\<close> and \<open>write_guard_drop\<close> are its \<open>Drop\<close>.

  The random numbers of the eviction policy come from another crate: \<open>rng\<close> is the sequence of draws, an
  arbitrary function, and \<open>drawn\<close> how many have been used.
\<close>

section \<open>The eviction policy\<close>

record evict_env =
  rng :: "nat \<Rightarrow> u64"
  drawn :: nat
  lru_counter :: u64

abbreviation (input) INITIAL_COUNTER :: u64 where "INITIAL_COUNTER \<equiv> 1"

definition lru_update :: "evict_env \<Rightarrow> u64 \<Rightarrow> evict_env \<times> u64" where
  "lru_update en score = (let x = rng en (drawn en); en = en\<lparr>drawn := Suc (drawn en)\<rparr> in
     if unat x mod 10 = 0 then (en\<lparr>lru_counter := lru_counter en + 1\<rparr>, max score (lru_counter en))
     else (en, score))"

definition lru_reset :: "u64 \<Rightarrow> u64" where
  "lru_reset score = INITIAL_COUNTER"

section \<open>Frames\<close>

record BufferFrame =
  frame_id :: u32
  latch :: RwLatch
  is_dirty :: bool
  evict_info :: u64
  key :: "ContainerPageId option"
  page :: Page

definition BufferFrame_new :: "u32 \<Rightarrow> BufferFrame option" where
  "BufferFrame_new fid = do {
     p \<leftarrow> Page_new_empty;
     Some \<lparr>frame_id = fid, latch = RwLatch_default, is_dirty = False, evict_info = INITIAL_COUNTER,
           key = None, page = p\<rparr> }"

definition frame_read :: "BufferFrame \<Rightarrow> BufferFrame option" where
  "frame_read fr = do { l \<leftarrow> shared (latch fr); Some (fr\<lparr>latch := l\<rparr>) }"

definition frame_try_read :: "BufferFrame \<Rightarrow> (BufferFrame \<times> bool) option" where
  "frame_try_read fr = do { (l, ok) \<leftarrow> try_shared (latch fr); Some (fr\<lparr>latch := l\<rparr>, ok) }"

definition frame_write :: "bool \<Rightarrow> BufferFrame \<Rightarrow> BufferFrame option" where
  "frame_write make_dirty fr = do {
     l \<leftarrow> exclusive (latch fr);
     let fr = fr\<lparr>latch := l\<rparr>;
     Some (if make_dirty then fr\<lparr>is_dirty := True\<rparr> else fr) }"

definition frame_try_write :: "bool \<Rightarrow> BufferFrame \<Rightarrow> BufferFrame \<times> bool" where
  "frame_try_write make_dirty fr = (let (l, ok) = try_exclusive (latch fr); fr = fr\<lparr>latch := l\<rparr> in
     if ok then (if make_dirty then fr\<lparr>is_dirty := True\<rparr> else fr, True) else (fr, False))"

definition guard_page_frame_id :: "BufferFrame \<Rightarrow> PageFrameId option" where
  "guard_page_frame_id fr =
     map_option (\<lambda>k. PageFrameId_new_with_frame_id (fst k) (snd k) (frame_id fr)) (key fr)"

definition guard_try_upgrade :: "bool \<Rightarrow> BufferFrame \<Rightarrow> BufferFrame \<times> bool" where
  "guard_try_upgrade make_dirty fr = (let (l, ok) = try_upgrade (latch fr); fr = fr\<lparr>latch := l\<rparr> in
     if ok then (if make_dirty then fr\<lparr>is_dirty := True\<rparr> else fr, True) else (fr, False))"

definition guard_downgrade :: "BufferFrame \<Rightarrow> BufferFrame option" where
  "guard_downgrade fr = do { l \<leftarrow> downgrade (latch fr); Some (fr\<lparr>latch := l\<rparr>) }"

definition guard_clear :: "BufferFrame \<Rightarrow> BufferFrame" where
  "guard_clear fr = fr\<lparr>is_dirty := False, evict_info := lru_reset (evict_info fr), key := None\<rparr>"

definition read_guard_drop :: "BufferFrame \<Rightarrow> BufferFrame" where
  "read_guard_drop fr = fr\<lparr>latch := release_shared (latch fr)\<rparr>"

definition write_guard_drop :: "BufferFrame \<Rightarrow> BufferFrame" where
  "write_guard_drop fr = fr\<lparr>latch := release_exclusive (latch fr)\<rparr>"

end
