(* ===== verification/BufferPool.thy ===== *)
theory BufferPool
  imports BufferFrame
begin

text \<open>
  \<open>heapstore/src/buffer_pool/buffer_pool.rs\<close>: the buffer pool over the container files.

  The pool is one record with the latch of its map, the queue of eviction hints, the frames, the map
  from page keys to frames and the catalog of files. A guard that a call returns is the index of a
  frame whose latch it holds. An operation is what one thread does while no other holds the pool's own
  latch: a spinning loop that could only be ended by another thread does not return. The functions
  follow the source step by step, with their early returns, panics and the places where a guard is
  dropped.
\<close>

section \<open>The map from pages to frames\<close>

text \<open>Two levels of hash maps, as association lists.\<close>

type_synonym PageToFrame = "(ContainerId \<times> (PageId \<times> nat) list) list"

definition ptf_get :: "PageToFrame \<Rightarrow> ContainerPageId \<Rightarrow> nat option" where
  "ptf_get m k = (case map_of m (fst k) of None \<Rightarrow> None | Some inner \<Rightarrow> map_of inner (snd k))"

definition ptf_contains_key :: "PageToFrame \<Rightarrow> ContainerPageId \<Rightarrow> bool" where
  "ptf_contains_key m k =
     (case map_of m (fst k) of None \<Rightarrow> False | Some inner \<Rightarrow> map_of inner (snd k) \<noteq> None)"

definition ptf_iter_container :: "PageToFrame \<Rightarrow> ContainerId \<Rightarrow> (PageId \<times> nat) list" where
  "ptf_iter_container m c = (case map_of m c of None \<Rightarrow> [] | Some inner \<Rightarrow> inner)"

definition ptf_get_page_frame_ids :: "PageToFrame \<Rightarrow> ContainerId \<Rightarrow> PageFrameId list" where
  "ptf_get_page_frame_ids m c =
     map (\<lambda>(pid, i). PageFrameId_new_with_frame_id c pid (word_of_nat i)) (ptf_iter_container m c)"

text \<open>Inserting a key that is there panics.\<close>

definition ptf_insert :: "PageToFrame \<Rightarrow> ContainerPageId \<Rightarrow> nat \<Rightarrow> PageToFrame option" where
  "ptf_insert m k i = do {
     let inner = ptf_iter_container m (fst k);
     if map_of inner (snd k) \<noteq> None then None
     else Some (AList.update (fst k) (AList.update (snd k) i inner) m) }"

definition ptf_remove :: "PageToFrame \<Rightarrow> ContainerPageId \<Rightarrow> PageToFrame \<times> nat option" where
  "ptf_remove m k = (case map_of m (fst k) of
     None \<Rightarrow> (m, None)
   | Some inner \<Rightarrow> (AList.update (fst k) (AList.delete (snd k) inner) m, map_of inner (snd k)))"

section \<open>The pool\<close>

record 'f BufferPool =
  cfc :: "'f ContainerFileCatalog"
  bp_latch :: RwLatch
  eviction_hints :: "nat list"
  frames :: "BufferFrame list"
  page_to_frame :: PageToFrame
  env :: evict_env

primrec new_frames :: "nat list \<Rightarrow> BufferFrame list option" where
  "new_frames [] = Some []"
| "new_frames (i # is) = do {
     fr \<leftarrow> BufferFrame_new (word_of_nat i);
     frs \<leftarrow> new_frames is;
     Some (fr # frs) }"

definition BufferPool_new :: "evict_env \<Rightarrow> nat \<Rightarrow> 'f ContainerFileCatalog \<Rightarrow> 'f BufferPool option" where
  "BufferPool_new en num_frames cat = do {
     frs \<leftarrow> new_frames [0..<num_frames];
     Some \<lparr>cfc = cat, bp_latch = RwLatch_default, eviction_hints = [0..<num_frames], frames = frs,
           page_to_frame = [], env = en\<rparr> }"

text \<open>The pool's own latch, and a change of one frame.\<close>

definition bp_shared :: "'f BufferPool \<Rightarrow> 'f BufferPool option" where
  "bp_shared bp = do { l \<leftarrow> shared (bp_latch bp); Some (bp\<lparr>bp_latch := l\<rparr>) }"

definition bp_exclusive :: "'f BufferPool \<Rightarrow> 'f BufferPool option" where
  "bp_exclusive bp = do { l \<leftarrow> exclusive (bp_latch bp); Some (bp\<lparr>bp_latch := l\<rparr>) }"

definition bp_release_shared :: "'f BufferPool \<Rightarrow> 'f BufferPool" where
  "bp_release_shared bp = bp\<lparr>bp_latch := release_shared (bp_latch bp)\<rparr>"

definition bp_release_exclusive :: "'f BufferPool \<Rightarrow> 'f BufferPool" where
  "bp_release_exclusive bp = bp\<lparr>bp_latch := release_exclusive (bp_latch bp)\<rparr>"

definition upd_frame :: "'f BufferPool \<Rightarrow> nat \<Rightarrow> (BufferFrame \<Rightarrow> BufferFrame) \<Rightarrow> 'f BufferPool" where
  "upd_frame bp i g = bp\<lparr>frames := (frames bp)[i := g (frames bp ! i)]\<rparr>"

definition evict_update :: "'f BufferPool \<Rightarrow> nat \<Rightarrow> 'f BufferPool" where
  "evict_update bp i = (let (en, sc) = lru_update (env bp) (evict_info (frames bp ! i)) in
     upd_frame (bp\<lparr>env := en\<rparr>) i (\<lambda>fr. fr\<lparr>evict_info := sc\<rparr>))"

section \<open>Victims\<close>

definition choose_eviction_candidate :: "'f BufferPool \<Rightarrow> nat option" where
  "choose_eviction_candidate bp = None"

text \<open>The hints are popped until one names a frame that is not latched.\<close>

primrec pop_hints :: "BufferFrame list \<Rightarrow> nat list \<Rightarrow> (BufferFrame list \<times> nat list \<times> nat option) option" where
  "pop_hints frs [] = Some (frs, [], None)"
| "pop_hints frs (victim # hints) = do {
     fr \<leftarrow> index frs victim;
     let (fr, ok) = frame_try_write False fr;
     if ok then Some (frs[victim := fr], hints, Some victim)
     else pop_hints frs hints }"

definition choose_victim :: "'f BufferPool \<Rightarrow> ('f BufferPool \<times> nat option) option" where
  "choose_victim bp = do {
     (frs, hints, v) \<leftarrow> pop_hints (frames bp) (eviction_hints bp);
     let bp = bp\<lparr>frames := frs, eviction_hints := hints\<rparr>;
     (case v of
        Some i \<Rightarrow> Some (bp, Some i)
      | None \<Rightarrow> Some (bp, choose_eviction_candidate bp)) }"

primrec pop_victims ::
  "nat \<Rightarrow> BufferFrame list \<Rightarrow> nat list \<Rightarrow> nat list \<Rightarrow> (BufferFrame list \<times> nat list \<times> nat list) option" where
  "pop_victims n frs [] victims = Some (frs, [], victims)"
| "pop_victims n frs (victim # hints) victims = do {
     fr \<leftarrow> index frs victim;
     let (fr, ok) = frame_try_write False fr;
     if ok then do {
       let victims = victims @ [victim];
       if length victims = n then Some (frs[victim := fr], hints, victims)
       else pop_victims n (frs[victim := fr]) hints victims }
     else pop_victims n frs hints victims }"

function fill_victims :: "'f BufferPool \<Rightarrow> nat \<Rightarrow> nat list \<Rightarrow> nat list" where
  "fill_victims bp n victims =
     (if length victims < n then
        (case choose_eviction_candidate bp of
           Some victim \<Rightarrow> fill_victims bp n (victims @ [victim])
         | None \<Rightarrow> victims)
      else victims)"
  by pat_completeness auto
termination
  by (relation "measure (\<lambda>(bp, n, victims). n - length victims)") auto

declare fill_victims.simps [simp del]

definition choose_victims :: "'f BufferPool \<Rightarrow> nat \<Rightarrow> ('f BufferPool \<times> nat list) option" where
  "choose_victims bp num_victims = do {
     let num_victims = min (length (frames bp)) num_victims;
     (frs, hints, victims) \<leftarrow> pop_victims num_victims (frames bp) (eviction_hints bp) [];
     let bp = bp\<lparr>frames := frs, eviction_hints := hints\<rparr>;
     Some (bp, fill_victims bp num_victims victims) }"

text \<open>The dirty flag is cleared before the write, and stays cleared when the write fails.\<close>

definition write_victim_to_disk_if_dirty_w ::
  "'f posix \<Rightarrow> 'f BufferPool \<Rightarrow> nat \<Rightarrow> ('f BufferPool, MemPoolStatus, unit) run" where
  "write_victim_to_disk_if_dirty_w ps bp i = do {
     fr \<leftarrow> index (frames bp) i;
     (case key fr of
        None \<Rightarrow> Some (bp, Inr ())
      | Some k \<Rightarrow>
          if is_dirty fr then do {
            let bp = upd_frame bp i (\<lambda>fr. fr\<lparr>is_dirty := False\<rparr>);
            (cat, _) \<leftarrow> get_container ps (cfc bp) (fst k);
            (cat, r) \<leftarrow> container_write_page ps cat (fst k) (snd k) (page fr);
            Some (bp\<lparr>cfc := cat\<rparr>, r) }
          else Some (bp, Inr ())) }"

text \<open>The variant for a read guard has the same body.\<close>

definition write_victim_to_disk_if_dirty_r ::
  "'f posix \<Rightarrow> 'f BufferPool \<Rightarrow> nat \<Rightarrow> ('f BufferPool, MemPoolStatus, unit) run" where
  "write_victim_to_disk_if_dirty_r ps bp i = do {
     fr \<leftarrow> index (frames bp) i;
     (case key fr of
        None \<Rightarrow> Some (bp, Inr ())
      | Some k \<Rightarrow>
          if is_dirty fr then do {
            let bp = upd_frame bp i (\<lambda>fr. fr\<lparr>is_dirty := False\<rparr>);
            (cat, _) \<leftarrow> get_container ps (cfc bp) (fst k);
            (cat, r) \<leftarrow> container_write_page ps cat (fst k) (snd k) (page fr);
            Some (bp\<lparr>cfc := cat\<rparr>, r) }
          else Some (bp, Inr ())) }"

text \<open>\<open>page_to_frame.remove(old_key).unwrap()\<close> for the page the victim holds.\<close>

definition forget_old :: "'f BufferPool \<Rightarrow> nat \<Rightarrow> 'f BufferPool option" where
  "forget_old bp i = (case key (frames bp ! i) of
     None \<Rightarrow> Some bp
   | Some old \<Rightarrow> (let (m, r) = ptf_remove (page_to_frame bp) old in
       if r = None then None else Some (bp\<lparr>page_to_frame := m\<rparr>)))"

definition bind_page :: "'f BufferPool \<Rightarrow> ContainerPageId \<Rightarrow> nat \<Rightarrow> 'f BufferPool option" where
  "bind_page bp k i = do {
     m \<leftarrow> ptf_insert (page_to_frame bp) k (unat (frame_id (frames bp ! i)));
     Some (bp\<lparr>page_to_frame := m\<rparr>) }"

section \<open>Operations of the memory pool\<close>

definition bp_create_container ::
  "'f posix \<Rightarrow> 'f BufferPool \<Rightarrow> ContainerId \<Rightarrow> bool \<Rightarrow> ('f BufferPool, MemPoolStatus, unit) run" where
  "bp_create_container ps bp c temp = do {
     cat \<leftarrow> register_container ps (cfc bp) c temp;
     Some (bp\<lparr>cfc := cat\<rparr>, Inr ()) }"

definition bp_drop_container ::
  "'f posix \<Rightarrow> 'f BufferPool \<Rightarrow> ContainerId \<Rightarrow> ('f BufferPool, MemPoolStatus, unit) run" where
  "bp_drop_container ps bp c = do {
     (cat, _) \<leftarrow> get_container ps (cfc bp) c;
     cat \<leftarrow> set_temp cat c True;
     bp \<leftarrow> bp_shared (bp\<lparr>cfc := cat\<rparr>);
     let bp = bp\<lparr>eviction_hints := eviction_hints bp @ map snd (ptf_iter_container (page_to_frame bp) c)\<rparr>;
     Some (bp_release_shared bp, Inr ()) }"

definition bp_create_new_page_for_write ::
  "'f posix \<Rightarrow> 'f BufferPool \<Rightarrow> ContainerId \<Rightarrow> ('f BufferPool, MemPoolStatus, nat) run" where
  "bp_create_new_page_for_write ps bp c = do {
     (bp, v) \<leftarrow> choose_victim bp;
     (case v of
        None \<Rightarrow> Some (bp, Inl CannotEvictPage)
      | Some i \<Rightarrow> do {
          (bp, res) \<leftarrow> write_victim_to_disk_if_dirty_w ps bp i;
          (case res of
             Inl e \<Rightarrow> Some (upd_frame bp i write_guard_drop, Inl e)
           | Inr _ \<Rightarrow> do {
               bp \<leftarrow> bp_exclusive bp;
               bp \<leftarrow> forget_old bp i;
               (cat, _) \<leftarrow> get_container ps (cfc bp) c;
               (cat, pid) \<leftarrow> inc_page_count cat c 1;
               bp \<leftarrow> bind_page (bp\<lparr>cfc := cat\<rparr>) (c, pid) i;
               let bp = bp_release_exclusive bp;
               pg \<leftarrow> set_page_id (page (frames bp ! i)) pid;
               let bp = upd_frame bp i (\<lambda>fr. fr\<lparr>page := pg, key := Some (c, pid), is_dirty := True\<rparr>);
               Some (bp, Inr i) }) }) }"

text \<open>Several pages at once. The page count grows by the number asked for, the pages are as many as there
  are victims.\<close>

primrec write_victims ::
  "'f posix \<Rightarrow> 'f BufferPool \<Rightarrow> nat list \<Rightarrow> ('f BufferPool, MemPoolStatus, unit) run" where
  "write_victims ps bp [] = Some (bp, Inr ())"
| "write_victims ps bp (i # is) =
     and_then (write_victim_to_disk_if_dirty_w ps bp i) (\<lambda>bp _. write_victims ps bp is)"

primrec forget_olds :: "'f BufferPool \<Rightarrow> nat list \<Rightarrow> 'f BufferPool option" where
  "forget_olds bp [] = Some bp"
| "forget_olds bp (i # is) = do { bp \<leftarrow> forget_old bp i; forget_olds bp is }"

primrec bind_pages :: "'f BufferPool \<Rightarrow> ContainerId \<Rightarrow> PageId \<Rightarrow> nat \<Rightarrow> nat list \<Rightarrow> 'f BufferPool option" where
  "bind_pages bp c start n [] = Some bp"
| "bind_pages bp c start n (i # is) = do {
     pid \<leftarrow> checked_add start (word_of_nat n);
     bp \<leftarrow> bind_page bp (c, pid) i;
     bind_pages bp c start (Suc n) is }"

primrec init_pages :: "'f BufferPool \<Rightarrow> ContainerId \<Rightarrow> PageId \<Rightarrow> nat \<Rightarrow> nat list \<Rightarrow> 'f BufferPool option" where
  "init_pages bp c start n [] = Some bp"
| "init_pages bp c start n (i # is) = do {
     pid \<leftarrow> checked_add start (word_of_nat n);
     pg \<leftarrow> set_page_id (page (frames bp ! i)) pid;
     let bp = upd_frame bp i (\<lambda>fr. fr\<lparr>page := pg, key := Some (c, pid), is_dirty := True\<rparr>);
     init_pages bp c start (Suc n) is }"

definition drop_writes :: "'f BufferPool \<Rightarrow> nat list \<Rightarrow> 'f BufferPool" where
  "drop_writes bp is = foldl (\<lambda>bp i. upd_frame bp i write_guard_drop) bp is"

definition bp_create_new_pages_for_write ::
  "'f posix \<Rightarrow> 'f BufferPool \<Rightarrow> ContainerId \<Rightarrow> nat \<Rightarrow> ('f BufferPool, MemPoolStatus, nat list) run" where
  "bp_create_new_pages_for_write ps bp c num_pages = do {
     assert_that (num_pages > 0);
     (bp, victims) \<leftarrow> choose_victims bp num_pages;
     if victims = [] then Some (bp, Inl CannotEvictPage)
     else do {
       (bp, res) \<leftarrow> write_victims ps bp victims;
       (case res of
          Inl e \<Rightarrow> Some (drop_writes bp victims, Inl e)
        | Inr _ \<Rightarrow> do {
            bp \<leftarrow> bp_exclusive bp;
            bp \<leftarrow> forget_olds bp victims;
            (cat, _) \<leftarrow> get_container ps (cfc bp) c;
            (cat, start) \<leftarrow> inc_page_count cat c num_pages;
            bp \<leftarrow> bind_pages (bp\<lparr>cfc := cat\<rparr>) c start 0 (take num_pages victims);
            let bp = bp_release_exclusive bp;
            bp \<leftarrow> init_pages bp c start 0 victims;
            Some (bp, Inr victims) }) } }"

definition bp_is_in_mem :: "'f BufferPool \<Rightarrow> PageFrameId \<Rightarrow> ('f BufferPool \<times> bool) option" where
  "bp_is_in_mem bp k = do {
     let fid = unat (pf_frame_id k);
     fast \<leftarrow>
       (if fid < length (frames bp) then do {
          (fr, ok) \<leftarrow> frame_try_read (frames bp ! fid);
          Some (ok \<and> key fr = Some (p_key k)) }
        else Some False);
     if fast then Some (bp, True)
     else do {
       bp \<leftarrow> bp_shared bp;
       let res = ptf_contains_key (page_to_frame bp) (p_key k);
       Some (bp_release_shared bp, res) } }"

definition bp_get_max_page_id :: "'f BufferPool \<Rightarrow> ContainerId \<Rightarrow> PageId option" where
  "bp_get_max_page_id bp c = get_container_page_count (cfc bp) c"

definition bp_get_page_ids_in_mem :: "'f BufferPool \<Rightarrow> ContainerId \<Rightarrow> ('f BufferPool \<times> PageFrameId list) option" where
  "bp_get_page_ids_in_mem bp c = do {
     bp \<leftarrow> bp_shared bp;
     let ks = ptf_get_page_frame_ids (page_to_frame bp) c;
     Some (bp_release_shared bp, ks) }"

text \<open>The critical section of a page fault, which the two variants of \<open>get_page\<close> share: the victim's old
  page leaves the map, the wanted one enters it, and the page is read from disk. When the read fails the
  victim's guard is dropped and the map keeps the new entry.\<close>

definition load_victim ::
  "'f posix \<Rightarrow> 'f BufferPool \<Rightarrow> ContainerPageId \<Rightarrow> nat \<Rightarrow> ('f BufferPool, MemPoolStatus, unit) run" where
  "load_victim ps bp k i = do {
     bp \<leftarrow> forget_old bp i;
     bp \<leftarrow> bind_page bp k i;
     let bp = bp_release_exclusive bp;
     (cat, _) \<leftarrow> get_container ps (cfc bp) (fst k);
     let bp = bp\<lparr>cfc := cat\<rparr>;
     (pg, r) \<leftarrow> container_read_page ps cat (fst k) (snd k) (page (frames bp ! i));
     let bp = upd_frame bp i (\<lambda>fr. fr\<lparr>page := pg\<rparr>);
     (case r of
        Inl e \<Rightarrow> Some (upd_frame bp i write_guard_drop, Inl e)
      | Inr _ \<Rightarrow> do {
          let bp = upd_frame bp i (\<lambda>fr. fr\<lparr>key := Some k, evict_info := lru_reset (evict_info fr)\<rparr>);
          Some (evict_update bp i, Inr ()) }) }"

definition bp_get_page_for_write ::
  "'f posix \<Rightarrow> 'f BufferPool \<Rightarrow> PageFrameId \<Rightarrow> ('f BufferPool, MemPoolStatus, nat) run" where
  "bp_get_page_for_write ps bp pk = do {
     let k = p_key pk;
     bp \<leftarrow> bp_shared bp;
     (case ptf_get (page_to_frame bp) k of
        Some i \<Rightarrow> do {
          fr \<leftarrow> index (frames bp) i;
          let (fr, ok) = frame_try_write True fr;
          let bp = bp_release_shared (bp\<lparr>frames := (frames bp)[i := fr]\<rparr>);
          if ok then Some (evict_update bp i, Inr i)
          else Some (bp, Inl FrameWriteLatchGrantFailed) }
      | None \<Rightarrow> do {
          let bp = bp_release_shared bp;
          (bp, v) \<leftarrow> choose_victim bp;
          (case v of
             None \<Rightarrow> Some (bp, Inl CannotEvictPage)
           | Some i \<Rightarrow> do {
               (bp, _) \<leftarrow> unwrap (write_victim_to_disk_if_dirty_w ps bp i);
               assert_that (\<not> is_dirty (frames bp ! i));
               bp \<leftarrow> bp_exclusive bp;
               (case ptf_get (page_to_frame bp) k of
                  Some j \<Rightarrow> do {
                    fr \<leftarrow> index (frames bp) j;
                    let (fr, ok) = frame_try_write True fr;
                    let bp = bp_release_exclusive (bp\<lparr>frames := (frames bp)[j := fr]\<rparr>);
                    let bp = bp\<lparr>eviction_hints := eviction_hints bp @ [j]\<rparr>;
                    let bp = upd_frame bp i write_guard_drop;
                    if ok then Some (evict_update bp j, Inr j)
                    else Some (bp, Inl FrameWriteLatchGrantFailed) }
                | None \<Rightarrow>
                    and_then (load_victim ps bp k i) (\<lambda>bp _.
                      Some (upd_frame bp i (\<lambda>fr. fr\<lparr>is_dirty := True\<rparr>), Inr i))) }) }) }"

definition bp_get_page_for_read ::
  "'f posix \<Rightarrow> 'f BufferPool \<Rightarrow> PageFrameId \<Rightarrow> ('f BufferPool, MemPoolStatus, nat) run" where
  "bp_get_page_for_read ps bp pk = do {
     let k = p_key pk;
     bp \<leftarrow> bp_shared bp;
     (case ptf_get (page_to_frame bp) k of
        Some i \<Rightarrow> do {
          fr \<leftarrow> index (frames bp) i;
          (fr, ok) \<leftarrow> frame_try_read fr;
          let bp = bp_release_shared (bp\<lparr>frames := (frames bp)[i := fr]\<rparr>);
          if ok then Some (evict_update bp i, Inr i)
          else Some (bp, Inl FrameReadLatchGrantFailed) }
      | None \<Rightarrow> do {
          let bp = bp_release_shared bp;
          (bp, v) \<leftarrow> choose_victim bp;
          (case v of
             None \<Rightarrow> Some (bp, Inl CannotEvictPage)
           | Some i \<Rightarrow> do {
               (bp, _) \<leftarrow> unwrap (write_victim_to_disk_if_dirty_w ps bp i);
               assert_that (\<not> is_dirty (frames bp ! i));
               bp \<leftarrow> bp_exclusive bp;
               (case ptf_get (page_to_frame bp) k of
                  Some j \<Rightarrow> do {
                    fr \<leftarrow> index (frames bp) j;
                    (fr, ok) \<leftarrow> frame_try_read fr;
                    let bp = bp_release_exclusive (bp\<lparr>frames := (frames bp)[j := fr]\<rparr>);
                    let bp = bp\<lparr>eviction_hints := eviction_hints bp @ [j]\<rparr>;
                    let bp = upd_frame bp i write_guard_drop;
                    if ok then Some (evict_update bp j, Inr j)
                    else Some (bp, Inl FrameReadLatchGrantFailed) }
                | None \<Rightarrow>
                    and_then (load_victim ps bp k i) (\<lambda>bp _. do {
                      fr \<leftarrow> guard_downgrade (frames bp ! i);
                      Some (bp\<lparr>frames := (frames bp)[i := fr]\<rparr>, Inr i) })) }) }) }"

definition bp_prefetch_page :: "'f BufferPool \<Rightarrow> PageFrameId \<Rightarrow> ('f BufferPool, MemPoolStatus, unit) run" where
  "bp_prefetch_page bp k = Some (bp, Inr ())"

definition bp_fast_evict :: "'f BufferPool \<Rightarrow> u32 \<Rightarrow> ('f BufferPool, MemPoolStatus, unit) run" where
  "bp_fast_evict bp fid = Some (bp, Inr ())"

text \<open>The loops over all frames. Each takes the latch of a frame, which does not return when the latch is
  held in a conflicting mode, and drops its guard at the end of the iteration.\<close>

primrec flush_frames :: "'f posix \<Rightarrow> 'f BufferPool \<Rightarrow> nat list \<Rightarrow> ('f BufferPool, MemPoolStatus, unit) run" where
  "flush_frames ps bp [] = Some (bp, Inr ())"
| "flush_frames ps bp (i # is) = do {
     (fr, ok) \<leftarrow> frame_try_read (frames bp ! i);
     assert_that ok;
     (bp, r) \<leftarrow> write_victim_to_disk_if_dirty_r ps (bp\<lparr>frames := (frames bp)[i := fr]\<rparr>) i;
     let bp = upd_frame bp i read_guard_drop;
     (case r of Inl e \<Rightarrow> Some (bp, Inl e) | Inr _ \<Rightarrow> flush_frames ps bp is) }"

definition bp_flush_all :: "'f posix \<Rightarrow> 'f BufferPool \<Rightarrow> ('f BufferPool, MemPoolStatus, unit) run" where
  "bp_flush_all ps bp = do {
     bp \<leftarrow> bp_shared bp;
     (bp, r) \<leftarrow> flush_frames ps bp [0..<length (frames bp)];
     (case r of
        Inl e \<Rightarrow> Some (bp_release_shared bp, Inl e)
      | Inr _ \<Rightarrow> do {
          r \<leftarrow> cfc_flush_all ps (cfc bp);
          Some (bp_release_shared bp, r) }) }"

primrec clear_frames :: "'f BufferPool \<Rightarrow> nat list \<Rightarrow> 'f BufferPool option" where
  "clear_frames bp [] = Some bp"
| "clear_frames bp (i # is) = do {
     let (fr, ok) = frame_try_write False (frames bp ! i);
     assert_that ok;
     clear_frames (bp\<lparr>frames := (frames bp)[i := write_guard_drop (guard_clear fr)]\<rparr>) is }"

definition bp_reset :: "'f posix \<Rightarrow> 'f BufferPool \<Rightarrow> ('f BufferPool, MemPoolStatus, unit) run" where
  "bp_reset ps bp = do {
     bp \<leftarrow> bp_exclusive bp;
     bp \<leftarrow> clear_frames bp [0..<length (frames bp)];
     r \<leftarrow> cfc_flush_all ps (cfc bp);
     (case r of
        Inl e \<Rightarrow> Some (bp_release_exclusive bp, Inl e)
      | Inr _ \<Rightarrow> do {
          let bp = bp\<lparr>page_to_frame := [], eviction_hints := [0..<length (frames bp)]\<rparr>;
          Some (bp_release_exclusive bp, Inr ()) }) }"

primrec flush_clear_frames ::
  "'f posix \<Rightarrow> 'f BufferPool \<Rightarrow> nat list \<Rightarrow> ('f BufferPool, MemPoolStatus, unit) run" where
  "flush_clear_frames ps bp [] = Some (bp, Inr ())"
| "flush_clear_frames ps bp (i # is) = do {
     let (fr, ok) = frame_try_write False (frames bp ! i);
     assert_that ok;
     (bp, r) \<leftarrow> write_victim_to_disk_if_dirty_w ps (bp\<lparr>frames := (frames bp)[i := fr]\<rparr>) i;
     (case r of
        Inl e \<Rightarrow> Some (upd_frame bp i write_guard_drop, Inl e)
      | Inr _ \<Rightarrow> flush_clear_frames ps (upd_frame bp i (\<lambda>fr. write_guard_drop (guard_clear fr))) is) }"

definition bp_flush_all_and_reset :: "'f posix \<Rightarrow> 'f BufferPool \<Rightarrow> ('f BufferPool, MemPoolStatus, unit) run" where
  "bp_flush_all_and_reset ps bp = do {
     bp \<leftarrow> bp_exclusive bp;
     (bp, r) \<leftarrow> flush_clear_frames ps bp [0..<length (frames bp)];
     (case r of
        Inl e \<Rightarrow> Some (bp_release_exclusive bp, Inl e)
      | Inr _ \<Rightarrow> do {
          r \<leftarrow> cfc_flush_all ps (cfc bp);
          (case r of
             Inl e \<Rightarrow> Some (bp_release_exclusive bp, Inl e)
           | Inr _ \<Rightarrow> do {
               let bp = bp\<lparr>page_to_frame := [], eviction_hints := [0..<length (frames bp)]\<rparr>;
               Some (bp_release_exclusive bp, Inr ()) }) }) }"

primrec clean_frames :: "'f BufferPool \<Rightarrow> nat list \<Rightarrow> 'f BufferPool option" where
  "clean_frames bp [] = Some bp"
| "clean_frames bp (i # is) = do {
     let (fr, ok) = frame_try_write False (frames bp ! i);
     assert_that ok;
     clean_frames (bp\<lparr>frames := (frames bp)[i := write_guard_drop (fr\<lparr>is_dirty := False\<rparr>)]\<rparr>) is }"

definition bp_clear_dirty_flags :: "'f posix \<Rightarrow> 'f BufferPool \<Rightarrow> ('f BufferPool, MemPoolStatus, unit) run" where
  "bp_clear_dirty_flags ps bp = do {
     bp \<leftarrow> bp_exclusive bp;
     bp \<leftarrow> clean_frames bp [0..<length (frames bp)];
     r \<leftarrow> cfc_flush_all ps (cfc bp);
     Some (bp_release_exclusive bp, r) }"

text \<open>Dropping the pool writes every page back unless its directory is to be removed.\<close>

definition BufferPool_drop :: "'f posix \<Rightarrow> 'f BufferPool \<Rightarrow> 'f BufferPool option" where
  "BufferPool_drop ps bp =
     (if remove_dir_on_drop (cfc bp) then Some bp
      else do { (bp, _) \<leftarrow> unwrap (bp_flush_all_and_reset ps bp); Some bp })"

end
