(* ===== verification/BufferPoolLaws.thy ===== *)
theory BufferPoolLaws
  imports BufferPool
begin

text \<open>
  The invariant of the buffer pool between operations and the laws of its operations. \<open>bp_page\<close> is the
  abstraction: the page a key stands for, in its frame when it is resident and in its file otherwise.
  Under \<open>bp_ok\<close> the pool has a frame for every page, so that no page needs to be evicted.
\<close>

section \<open>The map from pages to frames\<close>

lemma ptf_get_insert:
  "ptf_get m k = None \<Longrightarrow> \<exists>m'. ptf_insert m k i = Some m' \<and> ptf_get m' = (ptf_get m)(k \<mapsto> i)"
  by (cases k) (auto simp: ptf_insert_def ptf_get_def ptf_iter_container_def update_conv' fun_eq_iff
      split: option.splits)

lemma ptf_get_remove:
  "snd (ptf_remove m k) = ptf_get m k" "ptf_get (fst (ptf_remove m k)) = (ptf_get m)(k := None)"
  by (cases k; auto simp: ptf_remove_def ptf_get_def update_conv' delete_conv' fun_eq_iff
      split: option.splits)+

lemma ptf_contains_key_get: "ptf_contains_key m k \<longleftrightarrow> ptf_get m k \<noteq> None"
  by (simp add: ptf_contains_key_def ptf_get_def split: option.splits)

section \<open>Files as sequences of pages\<close>

definition file_page :: "bytes \<Rightarrow> PageId \<Rightarrow> Page option" where
  "file_page c pid =
     (if (unat pid + 1) * 4096 \<le> length c then Some \<lparr>data = slice c (unat pid * 4096) 4096\<rparr> else None)"

lemma length_write_at: "length (write_at c off bs) = max (length c) (off + length bs)"
  by (simp add: write_at_def)

lemma nth_write_at:
  "i < length (write_at c off bs) \<Longrightarrow> write_at c off bs ! i =
     (if off \<le> i \<and> i < off + length bs then bs ! (i - off) else if i < length c then c ! i else 0)"
proof -
  assume i: "i < length (write_at c off bs)"
  let ?z = "c @ replicate (off - length c) (0 :: u8)"
  have len: "length (take off ?z) = off" by simp
  have z: "?z ! i = (if i < length c then c ! i else 0)" if "i < off" using that by (simp add: nth_append)
  consider "i < off" | "off \<le> i" "i < off + length bs" | "off + length bs \<le> i" by linarith
  then show ?thesis
  proof cases
    case 1
    then have "write_at c off bs ! i = take off ?z ! i"
      using len nth_append_left [of i "take off ?z"] by (simp only: write_at_def)
    also have "\<dots> = ?z ! i" using 1 by (rule nth_take)
    finally show ?thesis using 1 z by simp
  next
    case 2
    then show ?thesis using len by (simp add: write_at_def nth_append_right nth_append_left del: length_take)
  next
    case 3
    then have "i < length c" using i by (simp add: length_write_at max_def split: if_splits)
    with 3 show ?thesis using len by (simp add: write_at_def nth_append_right del: length_take)
  qed
qed

lemma file_page_write_same:
  assumes "length bs = 4096"
  shows "file_page (write_at c (unat pid * 4096) bs) pid = Some \<lparr>data = bs\<rparr>"
proof -
  let ?w = "write_at c (unat pid * 4096) bs"
  have "(unat pid + 1) * 4096 \<le> length ?w" using assms by (simp add: length_write_at)
  moreover from this have "slice ?w (unat pid * 4096) 4096 = bs"
    using assms by (intro nth_equalityI) (simp_all add: nth_slice nth_write_at)
  ultimately show ?thesis by (simp add: file_page_def)
qed

lemma file_page_write_other:
  assumes "length bs = 4096" and "pid \<noteq> q" and "file_page c q = Some pg"
  shows "file_page (write_at c (unat pid * 4096) bs) q = Some pg"
proof -
  let ?w = "write_at c (unat pid * 4096) bs"
  have c: "(unat q + 1) * 4096 \<le> length c" and pg: "pg = \<lparr>data = slice c (unat q * 4096) 4096\<rparr>"
    using assms(3) by (auto simp: file_page_def split: if_splits)
  then have w: "(unat q + 1) * 4096 \<le> length ?w" by (simp add: length_write_at)
  have "unat pid \<noteq> unat q" using assms(2) by (metis word_unat_eq_iff)
  then have "unat q * 4096 + 4096 \<le> unat pid * 4096 \<or> unat pid * 4096 + 4096 \<le> unat q * 4096"
    by (cases "unat q < unat pid") auto
  then have "slice ?w (unat q * 4096) 4096 = slice c (unat q * 4096) 4096"
    using c w assms(1) by (intro slice_eqI) (auto simp: nth_write_at)
  then show ?thesis using w pg by (simp add: file_page_def)
qed

lemma file_write_page_ok:
  assumes "posix_ok ps content" and "page_wf pg" and "get_page_id pg = Some pid"
  shows "\<exists>f'. file_write_page ps f pid pg = Some (f', Inr ()) \<and>
    content f' = write_at (content f) (unat pid * 4096) (data pg)"
proof -
  obtain f' where "p_pwrite ps f (data pg) (unat pid * 4096) = (f', int (length (data pg)))"
    "content f' = write_at (content f) (unat pid * 4096) (data pg)"
    using assms(1) unfolding posix_ok_def by blast
  with assms show ?thesis by (simp add: file_write_page_def page_wf_def Page_to_bytes_def)
qed

lemma file_read_page_ok:
  assumes ok: "posix_ok ps content" and len: "length (content f) < 2 ^ 32 * 4096"
    and pg: "file_page (content f) pid = Some pg" and pid: "get_page_id pg = Some pid"
    and buf: "page_wf q"
  shows "file_read_page ps f pid q = Some (pg, Inr ())"
proof -
  have n: "file_num_pages ps f = length (content f) div 4096" "p_pread ps f 4096 off = Some (slice (content f) off 4096)" for off
    using ok by (simp_all add: file_num_pages_def posix_ok_def)
  have c: "(unat pid + 1) * 4096 \<le> length (content f)" and d: "pg = \<lparr>data = slice (content f) (unat pid * 4096) 4096\<rparr>"
    using pg by (auto simp: file_page_def split: if_splits)
  have "unat pid < length (content f) div 4096" using c by simp
  moreover have "length (content f) div 4096 < 2 ^ 32" using len by simp
  ultimately have lt: "pid < word_of_nat (file_num_pages ps f)"
    by (simp add: n(1) word_less_nat_alt unat_of_nat)
  have len': "length (slice (content f) (unat pid * 4096) 4096) = 4096" using c by simp
  have "put (data q) 0 (slice (content f) (unat pid * 4096) 4096) = slice (content f) (unat pid * 4096) 4096"
    using buf len' by (simp add: put_def page_wf_def)
  then show ?thesis
    using lt n(2) len' pid d by (cases q) (simp add: file_read_page_def)
qed

section \<open>The invariant\<close>

text \<open>The pages of the containers, those of temporary containers, and what is on disk.\<close>

definition is_pkey :: "'f BufferPool \<Rightarrow> ContainerPageId \<Rightarrow> bool" where
  "is_pkey bp k =
     (case map_of (containers (cfc bp)) (fst k) of None \<Rightarrow> False | Some con \<Rightarrow> snd k < page_count con)"

definition temp_container :: "'f BufferPool \<Rightarrow> ContainerId \<Rightarrow> bool" where
  "temp_container bp c = (case map_of (containers (cfc bp)) c of None \<Rightarrow> False | Some con \<Rightarrow> is_temp con)"

definition disk_page :: "('f \<Rightarrow> bytes) \<Rightarrow> 'f BufferPool \<Rightarrow> ContainerPageId \<Rightarrow> Page option" where
  "disk_page content bp k =
     (case map_of (disk (cfc bp)) (fst k) of None \<Rightarrow> None | Some f \<Rightarrow> file_page (content f) (snd k))"

definition bp_page :: "('f \<Rightarrow> bytes) \<Rightarrow> 'f BufferPool \<Rightarrow> ContainerPageId \<Rightarrow> Page option" where
  "bp_page content bp k =
     (if is_pkey bp k then
        (case ptf_get (page_to_frame bp) k of
           Some i \<Rightarrow> Some (page (frames bp ! i))
         | None \<Rightarrow> disk_page content bp k)
      else None)"

text \<open>A frame holds a page of a container with its id; a clean one holds what is on disk.\<close>

definition frame_ok :: "('f \<Rightarrow> bytes) \<Rightarrow> 'f BufferPool \<Rightarrow> nat \<Rightarrow> BufferFrame \<Rightarrow> bool" where
  "frame_ok content bp i fr \<longleftrightarrow> frame_id fr = word_of_nat i \<and> page_wf (page fr) \<and>
     (case key fr of
        None \<Rightarrow> \<not> is_dirty fr
      | Some k \<Rightarrow> is_pkey bp k \<and> get_page_id (page fr) = Some (snd k) \<and>
          (\<not> is_dirty fr \<and> \<not> temp_container bp (fst k) \<longrightarrow> disk_page content bp k = Some (page fr)))"

definition cat_ok :: "('f \<Rightarrow> bytes) \<Rightarrow> 'f ContainerFileCatalog \<Rightarrow> bool" where
  "cat_ok content cat \<longleftrightarrow> (\<forall>c con. map_of (containers cat) c = Some con \<longrightarrow>
     (\<exists>f. map_of (disk cat) c = Some f \<and> length (content f) \<le> unat (page_count con) * 4096)) \<and>
     (\<forall>c f. map_of (disk cat) c = Some f \<longrightarrow> (\<exists>con. map_of (containers cat) c = Some con))"

lemma cat_okD:
  assumes "cat_ok content cat" and "map_of (containers cat) c = Some con"
  obtains f where "map_of (disk cat) c = Some f" "length (content f) \<le> unat (page_count con) * 4096"
    "length (content f) < 2 ^ 32 * 4096"
proof -
  obtain f where f: "map_of (disk cat) c = Some f" "length (content f) \<le> unat (page_count con) * 4096"
    using assms unfolding cat_ok_def by blast
  have "unat (page_count con) < 2 ^ 32" using unsigned_less [of "page_count con"] by simp
  then show thesis using that [OF f] f(2) by simp
qed

text \<open>The map and the keys of the frames agree, the hints are the empty frames, a page that is not in
  memory is on disk, and there are as many frames as pages.\<close>

definition bp_ok :: "('f \<Rightarrow> bytes) \<Rightarrow> 'f BufferPool \<Rightarrow> bool" where
  "bp_ok content bp \<longleftrightarrow>
     bp_latch bp = 0 \<and> length (frames bp) < 2 ^ 32 \<and> cat_ok content (cfc bp) \<and>
     (\<forall>i<length (frames bp). frame_ok content bp i (frames bp ! i) \<and> latch (frames bp ! i) = 0) \<and>
     (\<forall>k i. ptf_get (page_to_frame bp) k = Some i \<longleftrightarrow> i < length (frames bp) \<and> key (frames bp ! i) = Some k) \<and>
     distinct (eviction_hints bp) \<and>
     (\<forall>i. i \<in> set (eviction_hints bp) \<longleftrightarrow> i < length (frames bp) \<and> key (frames bp ! i) = None) \<and>
     (\<forall>k. is_pkey bp k \<and> ptf_get (page_to_frame bp) k = None \<longrightarrow> \<not> temp_container bp (fst k) \<and>
        (\<exists>pg. disk_page content bp k = Some pg \<and> get_page_id pg = Some (snd k))) \<and>
     card {k. is_pkey bp k} \<le> length (frames bp)"

lemma bp_okD:
  assumes "bp_ok content bp"
  shows "bp_latch bp = 0" "length (frames bp) < 2 ^ 32" "cat_ok content (cfc bp)"
    "\<And>i. i < length (frames bp) \<Longrightarrow> frame_ok content bp i (frames bp ! i)"
    "\<And>i. i < length (frames bp) \<Longrightarrow> latch (frames bp ! i) = 0"
    "\<And>k i. ptf_get (page_to_frame bp) k = Some i \<longleftrightarrow> i < length (frames bp) \<and> key (frames bp ! i) = Some k"
    "distinct (eviction_hints bp)"
    "\<And>i. i \<in> set (eviction_hints bp) \<longleftrightarrow> i < length (frames bp) \<and> key (frames bp ! i) = None"
    "\<And>k. is_pkey bp k \<Longrightarrow> ptf_get (page_to_frame bp) k = None \<Longrightarrow> \<not> temp_container bp (fst k) \<and>
        (\<exists>pg. disk_page content bp k = Some pg \<and> get_page_id pg = Some (snd k))"
    "card {k. is_pkey bp k} \<le> length (frames bp)"
  using assms by (simp_all add: bp_ok_def del: split_paired_All)

lemma bp_okI:
  assumes "bp_latch bp = 0" "length (frames bp) < 2 ^ 32" "cat_ok content (cfc bp)"
    "\<And>i. i < length (frames bp) \<Longrightarrow> frame_ok content bp i (frames bp ! i) \<and> latch (frames bp ! i) = 0"
    "\<And>k i. ptf_get (page_to_frame bp) k = Some i \<longleftrightarrow> i < length (frames bp) \<and> key (frames bp ! i) = Some k"
    "distinct (eviction_hints bp)"
    "\<And>i. i \<in> set (eviction_hints bp) \<longleftrightarrow> i < length (frames bp) \<and> key (frames bp ! i) = None"
    "\<And>k. is_pkey bp k \<Longrightarrow> ptf_get (page_to_frame bp) k = None \<Longrightarrow> \<not> temp_container bp (fst k) \<and>
        (\<exists>pg. disk_page content bp k = Some pg \<and> get_page_id pg = Some (snd k))"
    "card {k. is_pkey bp k} \<le> length (frames bp)"
  shows "bp_ok content bp"
  unfolding bp_ok_def using assms by (simp del: split_paired_All)

lemma file_page_wf: "file_page c pid = Some pg \<Longrightarrow> page_wf pg"
  by (auto simp: file_page_def page_wf_def split: if_splits)

text \<open>Every page has its id and size.\<close>

lemma bp_page_Some:
  assumes ok: "bp_ok content bp" and k: "is_pkey bp k"
  obtains pg where "bp_page content bp k = Some pg" "page_wf pg" "get_page_id pg = Some (snd k)"
proof (cases "ptf_get (page_to_frame bp) k")
  case None
  then obtain pg where "disk_page content bp k = Some pg" "get_page_id pg = Some (snd k)"
    using bp_okD(9) [OF ok k] by blast
  moreover from this have "page_wf pg" by (auto simp: disk_page_def file_page_wf split: option.splits)
  ultimately show thesis using that [of pg] k None by (simp add: bp_page_def)
next
  case (Some i)
  then have i: "i < length (frames bp)" "key (frames bp ! i) = Some k" using bp_okD(6) [OF ok] by auto
  then have "page_wf (page (frames bp ! i))" "get_page_id (page (frames bp ! i)) = Some (snd k)"
    using bp_okD(4) [OF ok i(1)] by (simp_all add: frame_ok_def)
  then show thesis using that k Some by (simp add: bp_page_def)
qed

text \<open>The pool's state without the parts that a call to a resident page may change.\<close>

lemma is_pkey_cong: "cfc bp' = cfc bp \<Longrightarrow> is_pkey bp' = is_pkey bp"
  by (simp add: is_pkey_def fun_eq_iff)

lemma temp_container_cong: "cfc bp' = cfc bp \<Longrightarrow> temp_container bp' = temp_container bp"
  by (simp add: temp_container_def fun_eq_iff)

lemma disk_page_cong: "cfc bp' = cfc bp \<Longrightarrow> disk_page content bp' = disk_page content bp"
  by (simp add: disk_page_def fun_eq_iff)

lemma frame_ok_cong: "cfc bp' = cfc bp \<Longrightarrow> frame_ok content bp' i fr = frame_ok content bp i fr"
  by (simp add: frame_ok_def is_pkey_cong [of bp' bp] temp_container_cong [of bp' bp]
      disk_page_cong [of bp' bp] split: option.splits)

section \<open>Changing one frame\<close>

text \<open>\<open>frame_changed bp i fr q\<close>: frame \<open>i\<close> is \<open>fr\<close> in \<open>q\<close>; the eviction statistics aside, \<open>q\<close> is else as \<open>bp\<close>.\<close>

definition frame_changed :: "'f BufferPool \<Rightarrow> nat \<Rightarrow> BufferFrame \<Rightarrow> 'f BufferPool \<Rightarrow> bool" where
  "frame_changed bp i fr q \<longleftrightarrow> cfc q = cfc bp \<and> bp_latch q = bp_latch bp \<and>
     eviction_hints q = eviction_hints bp \<and> page_to_frame q = page_to_frame bp \<and>
     frames q = (frames bp)[i := fr]"

text \<open>A frame keeps its key: the access to a resident page.\<close>

lemma set_frame_ok:
  assumes ok: "bp_ok content bp" and i: "i < length (frames bp)" and q: "frame_changed bp i fr q"
    and fr: "key fr = key (frames bp ! i)" "latch fr = 0" "frame_ok content bp i fr"
  shows "bp_ok content q"
proof -
  note d = bp_okD [OF ok]
  have q: "cfc q = cfc bp" "bp_latch q = bp_latch bp" "eviction_hints q = eviction_hints bp"
    "page_to_frame q = page_to_frame bp" "frames q = (frames bp)[i := fr]"
    using q by (simp_all add: frame_changed_def)
  note cong = is_pkey_cong [OF q(1)] temp_container_cong [OF q(1)] disk_page_cong [OF q(1)] frame_ok_cong [OF q(1)]
  have key: "key ((frames bp)[i := fr] ! j) = key (frames bp ! j)" if "j < length (frames bp)" for j
    using fr(1) that by (cases "j = i") simp_all
  have frames: "frame_ok content bp j ((frames bp)[i := fr] ! j) \<and> latch ((frames bp)[i := fr] ! j) = 0"
    if "j < length (frames bp)" for j
    using fr(2,3) d(4,5) that by (cases "j = i") simp_all
  have map: "ptf_get (page_to_frame bp) k = Some j \<longleftrightarrow>
      j < length (frames bp) \<and> key ((frames bp)[i := fr] ! j) = Some k" for k j
    using d(6) [of k j] key by auto
  have hints: "j \<in> set (eviction_hints bp) \<longleftrightarrow>
      j < length (frames bp) \<and> key ((frames bp)[i := fr] ! j) = None" for j
    using d(8) [of j] key by auto
  show ?thesis
    unfolding bp_ok_def cong q using d(1,2,3,7,9,10) frames map hints by (simp del: split_paired_All)
qed

lemma bp_page_set_frame:
  assumes ok: "bp_ok content bp" and i: "i < length (frames bp)" and q: "frame_changed bp i fr q"
  shows "bp_page content q = (case key (frames bp ! i) of None \<Rightarrow> bp_page content bp
    | Some k \<Rightarrow> (bp_page content bp)(k \<mapsto> page fr))"
proof
  fix x
  have q: "cfc q = cfc bp" "page_to_frame q = page_to_frame bp" "frames q = (frames bp)[i := fr]"
    using q by (simp_all add: frame_changed_def)
  note cong = is_pkey_cong [OF q(1)] disk_page_cong [OF q(1)] q
  have k: "is_pkey bp k" "ptf_get (page_to_frame bp) k = Some i" if "key (frames bp ! i) = Some k" for k
    using bp_okD(4) [OF ok i] that i bp_okD(6) [OF ok] by (simp_all add: frame_ok_def)
  have other: "ptf_get (page_to_frame bp) x = Some i \<Longrightarrow> key (frames bp ! i) = Some x"
    using bp_okD(6) [OF ok, of x i] by auto
  show "bp_page content q x = (case key (frames bp ! i) of None \<Rightarrow> bp_page content bp
      | Some k \<Rightarrow> (bp_page content bp)(k \<mapsto> page fr)) x"
  proof (cases "ptf_get (page_to_frame bp) x = Some i")
    case True
    then show ?thesis using other k(1) i by (simp add: bp_page_def cong)
  next
    case False
    then have "key (frames bp ! i) \<noteq> Some x" using k(2) [of x] by blast
    with False show ?thesis
      by (auto simp: bp_page_def cong nth_list_update split: option.splits)
  qed
qed

text \<open>An empty frame takes the key \<open>k\<close>: a page fault, or a new page.\<close>

lemma bind_frame_ok:
  assumes ok: "bp_ok content bp"
    and hints: "eviction_hints bp = i # eviction_hints q" and lat: "bp_latch q = 0"
    and frs: "frames q = (frames bp)[i := fr]" and fr: "key fr = Some k" "latch fr = 0" "frame_ok content q i fr"
    and map: "ptf_get (page_to_frame q) = (ptf_get (page_to_frame bp))(k \<mapsto> i)" "ptf_get (page_to_frame bp) k = None"
    and cat: "cat_ok content (cfc q)" and keys: "\<And>x. is_pkey q x \<longleftrightarrow> is_pkey bp x \<or> x = k"
    and same: "temp_container q = temp_container bp" "disk_page content q = disk_page content bp"
    and card: "card {x. is_pkey q x} \<le> length (frames bp)"
  shows "bp_ok content q"
proof -
  note d = bp_okD [OF ok]
  have i: "i < length (frames bp)" "key (frames bp ! i) = None" using d(8) [of i] hints by auto
  have frames: "frame_ok content q j (frames q ! j) \<and> latch (frames q ! j) = 0" if "j < length (frames q)" for j
  proof (cases "j = i")
    case True
    then show ?thesis using frs fr i by simp
  next
    case False
    then have "frame_ok content bp j (frames bp ! j)" using d(4) that frs by simp
    then show ?thesis
      using False that frs d(5) keys same by (auto simp: frame_ok_def split: option.splits)
  qed
  have m: "ptf_get (page_to_frame q) x = Some j \<longleftrightarrow> j < length (frames q) \<and> key (frames q ! j) = Some x" for x j
    using d(6) [of x j] d(6) [of k j] map i fr(1) frs by (cases "j = i"; cases "x = k") auto
  have h: "j \<in> set (eviction_hints q) \<longleftrightarrow> j < length (frames q) \<and> key (frames q ! j) = None" for j
    using d(7) d(8) [of j] hints frs fr(1) i by (cases "j = i") auto
  have dist: "distinct (eviction_hints q)" using d(7) hints by simp
  have absent: "\<not> temp_container q (fst x) \<and> (\<exists>pg. disk_page content q x = Some pg \<and> get_page_id pg = Some (snd x))"
    if "is_pkey q x" "ptf_get (page_to_frame q) x = None" for x
    using that d(9) [of x] keys [of x] map same by (auto split: if_splits)
  show ?thesis
    unfolding bp_ok_def using lat d(2) frs cat frames m h dist absent card
    by (simp del: split_paired_All)
qed

section \<open>Access to a page\<close>

lemma upd_frame_sel [simp]:
  "cfc (upd_frame bp i g) = cfc bp" "bp_latch (upd_frame bp i g) = bp_latch bp"
  "eviction_hints (upd_frame bp i g) = eviction_hints bp" "page_to_frame (upd_frame bp i g) = page_to_frame bp"
  "frames (upd_frame bp i g) = (frames bp)[i := g (frames bp ! i)]"
  by (simp_all add: upd_frame_def)

lemma evict_update_sel [simp]:
  "cfc (evict_update bp i) = cfc bp" "bp_latch (evict_update bp i) = bp_latch bp"
  "eviction_hints (evict_update bp i) = eviction_hints bp" "page_to_frame (evict_update bp i) = page_to_frame bp"
  "frames (evict_update bp i) = (frames bp)[i := (frames bp ! i)
     \<lparr>evict_info := snd (lru_update (env bp) (evict_info (frames bp ! i)))\<rparr>]"
  by (simp_all add: evict_update_def split: prod.splits)

lemma release_sel [simp]:
  "cfc (bp_release_shared bp) = cfc bp" "bp_latch (bp_release_shared bp) = release_shared (bp_latch bp)"
  "eviction_hints (bp_release_shared bp) = eviction_hints bp"
  "page_to_frame (bp_release_shared bp) = page_to_frame bp" "frames (bp_release_shared bp) = frames bp"
  "cfc (bp_release_exclusive bp) = cfc bp" "bp_latch (bp_release_exclusive bp) = 0"
  "eviction_hints (bp_release_exclusive bp) = eviction_hints bp"
  "page_to_frame (bp_release_exclusive bp) = page_to_frame bp" "frames (bp_release_exclusive bp) = frames bp"
  by (simp_all add: bp_release_shared_def bp_release_exclusive_def)

text \<open>Without hints every frame holds a page; so the pool has an empty frame for a page that is not in
  memory, and for a new page while it has fewer pages than frames.\<close>

lemma no_hints_full:
  assumes ok: "bp_ok content bp" and Nil: "eviction_hints bp = []"
  obtains R where "R \<subseteq> {x. is_pkey bp x}" "card R = length (frames bp)"
    "\<forall>x \<in> R. ptf_get (page_to_frame bp) x \<noteq> None"
proof -
  let ?N = "length (frames bp)" and ?g = "\<lambda>i. the (key (frames bp ! i))"
  have keyed: "key (frames bp ! i) = Some (?g i)" if "i < ?N" for i
    using bp_okD(8) [OF ok, of i] Nil that by auto
  have res: "ptf_get (page_to_frame bp) (?g i) = Some i" if "i < ?N" for i
    using keyed [OF that] bp_okD(6) [OF ok, of "?g i" i] that by simp
  have "inj_on ?g {..<?N}"
    by (rule inj_onI) (use res in \<open>metis lessThan_iff option.inject\<close>)
  then have "card (?g ` {..<?N}) = ?N" by (simp add: card_image)
  moreover have "is_pkey bp (?g i)" if i: "i < ?N" for i
  proof -
    obtain x where x: "key (frames bp ! i) = Some x" using keyed [OF i] by blast
    then show ?thesis using bp_okD(4) [OF ok i] by (simp add: frame_ok_def)
  qed
  ultimately show thesis by (intro that [of "?g ` {..<?N}"]) (use res in auto)
qed

lemma hint_frame:
  assumes ok: "bp_ok content bp" and "eviction_hints bp \<noteq> []"
  obtains i hs where "eviction_hints bp = i # hs" "i < length (frames bp)" "key (frames bp ! i) = None"
proof (cases "eviction_hints bp")
  case (Cons i hs)
  then have "i < length (frames bp) \<and> key (frames bp ! i) = None" using bp_okD(8) [OF ok, of i] by simp
  with Cons show thesis using that by blast
qed (use assms in simp)

lemma hint_available:
  assumes ok: "bp_ok content bp" and k: "is_pkey bp k" "ptf_get (page_to_frame bp) k = None"
  shows "eviction_hints bp \<noteq> []"
proof
  assume Nil: "eviction_hints bp = []"
  obtain R where R: "R \<subseteq> {x. is_pkey bp x}" "card R = length (frames bp)"
    "\<forall>x \<in> R. ptf_get (page_to_frame bp) x \<noteq> None"
    by (rule no_hints_full [OF ok Nil])
  have "k \<notin> R" using R(3) k(2) by blast
  with R(1) k(1) have "R \<subset> {x. is_pkey bp x}" by blast
  then have "card R < card {x. is_pkey bp x}" by (rule psubset_card_mono [OF finite])
  then show False using R(2) bp_okD(10) [OF ok] by linarith
qed

lemma hint_available_new:
  assumes ok: "bp_ok content bp" and card: "card {x. is_pkey bp x} < length (frames bp)"
  shows "eviction_hints bp \<noteq> []"
proof
  assume Nil: "eviction_hints bp = []"
  obtain R where R: "R \<subseteq> {x. is_pkey bp x}" "card R = length (frames bp)"
    by (rule no_hints_full [OF ok Nil])
  have "card R \<le> card {x. is_pkey bp x}" by (rule card_mono [OF finite R(1)])
  then show False using R(2) card by linarith
qed

lemma choose_victim_hint:
  assumes "eviction_hints bp = i # hs" and "i < length (frames bp)" and "latch (frames bp ! i) = 0"
  shows "choose_victim bp =
    Some (bp\<lparr>frames := (frames bp)[i := (frames bp ! i)\<lparr>latch := - 1\<rparr>], eviction_hints := hs\<rparr>, Some i)"
  using assms by (simp add: choose_victim_def frame_try_write_def)

lemma get_container_there:
  "map_of (containers cat) c = Some con \<Longrightarrow> get_container ps cat c = Some (cat, con)"
  by (simp add: get_container_def)

lemma container_read_ok:
  assumes px: "posix_ok ps content" and ok: "bp_ok content bp" and k: "is_pkey bp k" "ptf_get (page_to_frame bp) k = None"
    and buf: "page_wf q"
  shows "container_read_page ps (cfc bp) (fst k) (snd k) q = Some (the (bp_page content bp k), Inr ())"
proof -
  obtain pg where pg: "disk_page content bp k = Some pg" "get_page_id pg = Some (snd k)"
    using bp_okD(9) [OF ok k] by blast
  then obtain f where f: "map_of (disk (cfc bp)) (fst k) = Some f" "file_page (content f) (snd k) = Some pg"
    by (auto simp: disk_page_def split: option.splits)
  obtain con where "map_of (containers (cfc bp)) (fst k) = Some con"
    using k(1) by (auto simp: is_pkey_def split: option.splits)
  then have "length (content f) < 2 ^ 32 * 4096"
    using cat_okD [OF bp_okD(3) [OF ok]] f(1) by (metis option.inject)
  then have "file_read_page ps f (snd k) q = Some (pg, Inr ())"
    using file_read_page_ok [OF px _ f(2) pg(2) buf] by blast
  then show ?thesis using f(1) k pg(1) by (simp add: container_read_page_def bp_page_def)
qed

lemma load_victim_ok:
  assumes px: "posix_ok ps content" and ok: "bp_ok content bp" and k: "is_pkey bp k" "ptf_get (page_to_frame bp) k = None"
    and i: "i < length (frames bp)" "key (frames bp ! i) = None"
    and v: "cfc v = cfc bp" "page_to_frame v = page_to_frame bp" "frames v = (frames bp)[i := (frames bp ! i)\<lparr>latch := - 1\<rparr>]"
  obtains q sc where "load_victim ps v k i = Some (q, Inr ())"
    "cfc q = cfc bp" "bp_latch q = 0" "eviction_hints q = eviction_hints v"
    "ptf_get (page_to_frame q) = (ptf_get (page_to_frame bp))(k \<mapsto> i)"
    "frames q = (frames bp)[i := (frames bp ! i)\<lparr>latch := - 1, page := the (bp_page content bp k),
       key := Some k, evict_info := sc\<rparr>]"
proof -
  have fr: "frame_ok content bp i (frames bp ! i)" by (rule bp_okD(4) [OF ok i(1)])
  obtain m where m: "ptf_insert (page_to_frame bp) k i = Some m" "ptf_get m = (ptf_get (page_to_frame bp))(k \<mapsto> i)"
    using ptf_get_insert [OF k(2)] by blast
  have fid: "unat (frame_id (frames bp ! i)) = i"
    using fr i(1) bp_okD(2) [OF ok] by (simp add: frame_ok_def unat_of_nat)
  obtain con where con: "map_of (containers (cfc bp)) (fst k) = Some con"
    using k(1) by (auto simp: is_pkey_def split: option.splits)
  have read: "container_read_page ps (cfc bp) (fst k) (snd k) (page (frames bp ! i)) = Some (the (bp_page content bp k), Inr ())"
    using container_read_ok [OF px ok k] fr by (simp add: frame_ok_def)
  have old: "forget_old v i = Some v" using v(3) i by (simp add: forget_old_def)
  have new: "bind_page v k i = Some (v\<lparr>page_to_frame := m\<rparr>)"
    using v i m(1) fid by (simp add: bind_page_def)
  let ?w = "bp_release_exclusive (v\<lparr>page_to_frame := m\<rparr>)\<lparr>cfc := cfc bp\<rparr>"
  let ?q = "evict_update (upd_frame (upd_frame ?w i (\<lambda>fr. fr\<lparr>page := the (bp_page content bp k)\<rparr>)) i
    (\<lambda>fr. fr\<lparr>key := Some k, evict_info := lru_reset (evict_info fr)\<rparr>)) i"
  have "load_victim ps v k i = Some (?q, Inr ())"
    using old new get_container_there [OF con] read v i(1) by (simp add: load_victim_def)
  then show thesis by (rule that) (simp_all add: m(2) v i(1))
qed

text \<open>What a call that fetches the page \<open>k\<close> leaves behind: frame \<open>i\<close> holds the page with the latch \<open>l\<close>, and
  once its page is set to \<open>pg\<close>, marked dirty if \<open>d\<close>, and unlatched, the pool is well-formed again with \<open>pg\<close> for \<open>k\<close>.\<close>

definition fetched ::
  "('f \<Rightarrow> bytes) \<Rightarrow> 'f BufferPool \<Rightarrow> ContainerPageId \<Rightarrow> int \<Rightarrow> bool \<Rightarrow> 'f BufferPool \<Rightarrow> nat \<Rightarrow> bool" where
  "fetched content bp k l d q i \<longleftrightarrow>
     i < length (frames q) \<and> latch (frames q ! i) = l \<and> key (frames q ! i) = Some k \<and> (d \<longrightarrow> is_dirty (frames q ! i)) \<and>
     Some (page (frames q ! i)) = bp_page content bp k \<and>
     (\<forall>pg. page_wf pg \<and> get_page_id pg = Some (snd k) \<and> (d \<or> pg = page (frames q ! i)) \<longrightarrow>
        (let r = upd_frame q i (\<lambda>fr. fr\<lparr>page := pg, latch := 0\<rparr>) in
         bp_ok content r \<and> cfc r = cfc bp \<and> bp_page content r = (bp_page content bp)(k \<mapsto> pg) \<and>
         length (frames r) = length (frames bp) \<and>
         (\<forall>j<length (frames r). key (frames r ! j) = None \<longrightarrow> frames r ! j = frames bp ! j)))"

lemma fetched_resident:
  assumes ok: "bp_ok content bp" and i: "i < length (frames bp)" "key (frames bp ! i) = Some k"
    and q: "frame_changed bp i fr q" and fr: "key fr = Some k" "page fr = page (frames bp ! i)" "latch fr = l"
      "frame_id fr = frame_id (frames bp ! i)" "is_dirty fr = (d \<or> is_dirty (frames bp ! i))"
  shows "fetched content bp k l d q i"
proof -
  have fo: "frame_ok content bp i (frames bp ! i)" by (rule bp_okD(4) [OF ok i(1)])
  have res: "bp_page content bp k = Some (page (frames bp ! i))"
    using fo i bp_okD(6) [OF ok, of k i] by (simp add: frame_ok_def bp_page_def)
  have frs: "frames q = (frames bp)[i := fr]" using q by (simp add: frame_changed_def)
  {
    fix pg assume pg: "page_wf pg" "get_page_id pg = Some (snd k)" "d \<or> pg = page fr"
    let ?fr = "fr\<lparr>page := pg, latch := 0\<rparr>" and ?r = "upd_frame q i (\<lambda>fr. fr\<lparr>page := pg, latch := 0\<rparr>)"
    have ch: "frame_changed bp i ?fr ?r" using q i(1) by (simp add: frame_changed_def)
    have "frame_ok content bp i ?fr" using fo i(2) fr pg by (auto simp: frame_ok_def)
    then have "bp_ok content ?r" using set_frame_ok [OF ok i(1) ch] fr(1) i(2) by simp
    moreover have "bp_page content ?r = (bp_page content bp)(k \<mapsto> pg)"
      using bp_page_set_frame [OF ok i(1) ch] i(2) by simp
    moreover have "\<forall>j<length (frames ?r). key (frames ?r ! j) = None \<longrightarrow> frames ?r ! j = frames bp ! j"
      using frs i(1) fr(1) by (auto simp: nth_list_update)
    ultimately have "bp_ok content ?r \<and> cfc ?r = cfc bp \<and> bp_page content ?r = (bp_page content bp)(k \<mapsto> pg) \<and>
        length (frames ?r) = length (frames bp) \<and>
        (\<forall>j<length (frames ?r). key (frames ?r ! j) = None \<longrightarrow> frames ?r ! j = frames bp ! j)"
      using ch frs by (simp add: frame_changed_def)
  }
  then show ?thesis
    unfolding fetched_def Let_def using frs i(1) fr res q by (simp add: frame_changed_def)
qed

text \<open>The same after a page fault, with the empty frame \<open>i\<close> taken from the hints.\<close>

lemma fetched_loaded:
  assumes ok: "bp_ok content bp" and k: "is_pkey bp k" "ptf_get (page_to_frame bp) k = None"
    and i: "eviction_hints bp = i # eviction_hints q" and lat: "bp_latch q = 0" and cat: "cfc q = cfc bp"
    and map: "ptf_get (page_to_frame q) = (ptf_get (page_to_frame bp))(k \<mapsto> i)" and frs: "frames q = (frames bp)[i := fr]"
    and fr: "key fr = Some k" "page fr = the (bp_page content bp k)" "latch fr = l" "is_dirty fr = d"
      "frame_id fr = frame_id (frames bp ! i)"
  shows "fetched content bp k l d q i"
proof -
  have iN: "i < length (frames bp)" "key (frames bp ! i) = None" using bp_okD(8) [OF ok, of i] i by auto
  have fo: "frame_ok content bp i (frames bp ! i)" by (rule bp_okD(4) [OF ok iN(1)])
  obtain p where p: "bp_page content bp k = Some p" using bp_page_Some [OF ok k(1)] by blast
  have dp: "disk_page content bp k = Some p" using p k by (simp add: bp_page_def)
  note cong = is_pkey_cong [OF cat] temp_container_cong [OF cat] disk_page_cong [OF cat]
  {
    fix pg assume pg: "page_wf pg" "get_page_id pg = Some (snd k)" "d \<or> pg = page fr"
    let ?fr = "fr\<lparr>page := pg, latch := 0\<rparr>" and ?r = "upd_frame q i (\<lambda>fr. fr\<lparr>page := pg, latch := 0\<rparr>)"
    have rc: "cfc ?r = cfc bp" using cat by simp
    note rcong = is_pkey_cong [OF rc] temp_container_cong [OF rc] disk_page_cong [OF rc]
    have "frame_ok content ?r i ?fr"
      using fo fr pg k(1) dp p by (auto simp: frame_ok_def rcong)
    then have "bp_ok content ?r"
      using bind_frame_ok [OF ok, of i ?r ?fr k] i lat frs iN(1) fr(1) map k cat bp_okD(3,10) [OF ok]
      by (simp add: rcong) (metis (full_types))
    moreover have "bp_page content ?r x = ((bp_page content bp)(k \<mapsto> pg)) x" for x
      using map frs iN k(1) bp_okD(6) [OF ok, of x i]
      by (auto simp: bp_page_def rcong nth_list_update split: option.splits)
    moreover have "\<forall>j<length (frames ?r). key (frames ?r ! j) = None \<longrightarrow> frames ?r ! j = frames bp ! j"
      using frs iN fr(1) by (auto simp: nth_list_update)
    ultimately have "bp_ok content ?r \<and> cfc ?r = cfc bp \<and> bp_page content ?r = (bp_page content bp)(k \<mapsto> pg) \<and>
        length (frames ?r) = length (frames bp) \<and>
        (\<forall>j<length (frames ?r). key (frames ?r ! j) = None \<longrightarrow> frames ?r ! j = frames bp ! j)"
      using rc frs by (simp add: fun_eq_iff)
  }
  then show ?thesis
    unfolding fetched_def Let_def using frs iN(1) fr p cat by simp
qed

lemma bp_shared_free: "bp_latch bp = 0 \<Longrightarrow> bp_shared bp = Some (bp\<lparr>bp_latch := 1\<rparr>)"
  by (simp add: bp_shared_def)

lemma bp_exclusive_free: "bp_latch bp = 0 \<Longrightarrow> bp_exclusive bp = Some (bp\<lparr>bp_latch := - 1\<rparr>)"
  by (simp add: bp_exclusive_def)

lemma write_victim_empty:
  "i < length (frames bp) \<Longrightarrow> key (frames bp ! i) = None \<Longrightarrow>
     write_victim_to_disk_if_dirty_w ps bp i = Some (bp, Inr ())"
  by (simp add: write_victim_to_disk_if_dirty_w_def)

text \<open>The page fault of both accesses, up to the load.\<close>

lemma fault_load:
  assumes px: "posix_ok ps content" and ok: "bp_ok content bp" and k: "is_pkey bp k" "ptf_get (page_to_frame bp) k = None"
  obtains i v w q sc where
    "choose_victim (bp_release_shared (bp\<lparr>bp_latch := 1\<rparr>)) = Some (v, Some i)"
    "write_victim_to_disk_if_dirty_w ps v i = Some (v, Inr ())" "\<not> is_dirty (frames v ! i)"
    "bp_exclusive v = Some w" "ptf_get (page_to_frame w) k = None" "load_victim ps w k i = Some (q, Inr ())"
    "i < length (frames bp)" "key (frames bp ! i) = None" "eviction_hints bp = i # eviction_hints q" "bp_latch q = 0" "cfc q = cfc bp"
    "ptf_get (page_to_frame q) = (ptf_get (page_to_frame bp))(k \<mapsto> i)"
    "frames q = (frames bp)[i := (frames bp ! i)\<lparr>latch := - 1, page := the (bp_page content bp k),
       key := Some k, evict_info := sc\<rparr>]"
proof -
  obtain i hs where h: "eviction_hints bp = i # hs" "i < length (frames bp)" "key (frames bp ! i) = None"
    using hint_frame [OF ok hint_available [OF ok k]] by blast
  have l: "latch (frames bp ! i) = 0" by (rule bp_okD(5) [OF ok h(2)])
  have clean: "\<not> is_dirty (frames bp ! i)"
    using bp_okD(4) [OF ok h(2)] h(3) by (simp add: frame_ok_def)
  let ?b = "bp_release_shared (bp\<lparr>bp_latch := 1\<rparr>)"
  let ?v = "?b\<lparr>frames := (frames bp)[i := (frames bp ! i)\<lparr>latch := - 1\<rparr>], eviction_hints := hs\<rparr>"
  let ?w = "?v\<lparr>bp_latch := - 1\<rparr>"
  have v: "choose_victim ?b = Some (?v, Some i)"
    using choose_victim_hint [of ?b i hs] h l by simp
  have wv: "write_victim_to_disk_if_dirty_w ps ?v i = Some (?v, Inr ())"
    using h by (intro write_victim_empty) simp_all
  have ex: "bp_exclusive ?v = Some ?w" by (rule bp_exclusive_free) simp
  obtain q sc where "load_victim ps ?w k i = Some (q, Inr ())"
    "cfc q = cfc bp" "bp_latch q = 0" "eviction_hints q = eviction_hints ?w"
    "ptf_get (page_to_frame q) = (ptf_get (page_to_frame bp))(k \<mapsto> i)"
    "frames q = (frames bp)[i := (frames bp ! i)\<lparr>latch := - 1, page := the (bp_page content bp k),
       key := Some k, evict_info := sc\<rparr>]"
    by (rule load_victim_ok [OF px ok k h(2,3), of ?w]) simp_all
  then show thesis using that [OF v wv _ ex] h clean k(2) by simp
qed

lemma get_page_for_write_ok:
  assumes px: "posix_ok ps content" and ok: "bp_ok content bp" and k: "is_pkey bp k" "p_key pk = k"
  obtains q i where "bp_get_page_for_write ps bp pk = Some (q, Inr i)" "fetched content bp k (- 1) True q i"
proof (cases "ptf_get (page_to_frame bp) k")
  case (Some i)
  then have i: "i < length (frames bp)" "key (frames bp ! i) = Some k" using bp_okD(6) [OF ok] by auto
  let ?fr = "(frames bp ! i)\<lparr>latch := - 1, is_dirty := True\<rparr>"
  let ?b = "bp_release_shared (bp\<lparr>bp_latch := 1, frames := (frames bp)[i := ?fr]\<rparr>)"
  have "bp_get_page_for_write ps bp pk = Some (evict_update ?b i, Inr i)"
    using Some k(2) i(1) bp_okD(5) [OF ok i(1)] bp_okD(1) [OF ok]
    by (simp add: bp_get_page_for_write_def bp_shared_free frame_try_write_def)
  moreover have "fetched content bp k (- 1) True (evict_update ?b i) i"
    by (rule fetched_resident [OF ok i, of "frames (evict_update ?b i) ! i"])
      (use i bp_okD(1) [OF ok] in \<open>simp_all add: frame_changed_def\<close>)
  ultimately show thesis by (rule that)
next
  case None
  obtain i v w q sc where f:
    "choose_victim (bp_release_shared (bp\<lparr>bp_latch := 1\<rparr>)) = Some (v, Some i)"
    "write_victim_to_disk_if_dirty_w ps v i = Some (v, Inr ())" "\<not> is_dirty (frames v ! i)"
    "bp_exclusive v = Some w" "ptf_get (page_to_frame w) k = None" "load_victim ps w k i = Some (q, Inr ())"
    "i < length (frames bp)" "key (frames bp ! i) = None" "eviction_hints bp = i # eviction_hints q" "bp_latch q = 0" "cfc q = cfc bp"
    "ptf_get (page_to_frame q) = (ptf_get (page_to_frame bp))(k \<mapsto> i)"
    "frames q = (frames bp)[i := (frames bp ! i)\<lparr>latch := - 1, page := the (bp_page content bp k),
       key := Some k, evict_info := sc\<rparr>]"
    by (rule fault_load [OF px ok k(1) None])
  let ?q = "upd_frame q i (\<lambda>fr. fr\<lparr>is_dirty := True\<rparr>)"
  have "bp_get_page_for_write ps bp pk = Some (?q, Inr i)"
    using None k(2) f(1-6) bp_okD(1) [OF ok] by (simp add: bp_get_page_for_write_def bp_shared_free)
  moreover have "fetched content bp k (- 1) True ?q i"
    by (rule fetched_loaded [OF ok k(1) None, where fr = "frames ?q ! i"]) (use f(7-13) in simp_all)
  ultimately show thesis by (rule that)
qed

lemma get_page_for_read_ok:
  assumes px: "posix_ok ps content" and ok: "bp_ok content bp" and k: "is_pkey bp k" "p_key pk = k"
  obtains q i where "bp_get_page_for_read ps bp pk = Some (q, Inr i)" "fetched content bp k 1 False q i"
proof (cases "ptf_get (page_to_frame bp) k")
  case (Some i)
  then have i: "i < length (frames bp)" "key (frames bp ! i) = Some k" using bp_okD(6) [OF ok] by auto
  let ?fr = "(frames bp ! i)\<lparr>latch := 1\<rparr>"
  let ?b = "bp_release_shared (bp\<lparr>bp_latch := 1, frames := (frames bp)[i := ?fr]\<rparr>)"
  have "bp_get_page_for_read ps bp pk = Some (evict_update ?b i, Inr i)"
    using Some k(2) i(1) bp_okD(5) [OF ok i(1)] bp_okD(1) [OF ok]
    by (simp add: bp_get_page_for_read_def bp_shared_free frame_try_read_def)
  moreover have "fetched content bp k 1 False (evict_update ?b i) i"
    by (rule fetched_resident [OF ok i, of "frames (evict_update ?b i) ! i"])
      (use i bp_okD(1) [OF ok] in \<open>simp_all add: frame_changed_def\<close>)
  ultimately show thesis by (rule that)
next
  case None
  obtain i v w q sc where f:
    "choose_victim (bp_release_shared (bp\<lparr>bp_latch := 1\<rparr>)) = Some (v, Some i)"
    "write_victim_to_disk_if_dirty_w ps v i = Some (v, Inr ())" "\<not> is_dirty (frames v ! i)"
    "bp_exclusive v = Some w" "ptf_get (page_to_frame w) k = None" "load_victim ps w k i = Some (q, Inr ())"
    "i < length (frames bp)" "key (frames bp ! i) = None" "eviction_hints bp = i # eviction_hints q" "bp_latch q = 0" "cfc q = cfc bp"
    "ptf_get (page_to_frame q) = (ptf_get (page_to_frame bp))(k \<mapsto> i)"
    "frames q = (frames bp)[i := (frames bp ! i)\<lparr>latch := - 1, page := the (bp_page content bp k),
       key := Some k, evict_info := sc\<rparr>]"
    by (rule fault_load [OF px ok k(1) None])
  let ?fr = "(frames q ! i)\<lparr>latch := 1\<rparr>"
  let ?q = "q\<lparr>frames := (frames q)[i := ?fr]\<rparr>"
  have "guard_downgrade (frames q ! i) = Some ?fr" using f(7,13) by (simp add: guard_downgrade_def)
  then have "bp_get_page_for_read ps bp pk = Some (?q, Inr i)"
    using None k(2) f(1-6) bp_okD(1) [OF ok] by (simp add: bp_get_page_for_read_def bp_shared_free)
  moreover have "\<not> is_dirty (frames bp ! i)"
    using bp_okD(4) [OF ok f(7)] f(8) by (simp add: frame_ok_def)
  then have "fetched content bp k 1 False ?q i"
    by (intro fetched_loaded [OF ok k(1) None, where fr = "frames ?q ! i"]) (use f(7-13) in simp_all)
  ultimately show thesis by (rule that)
qed

section \<open>New pages\<close>

text \<open>The next page id of a container, 0 when it is not registered.\<close>

definition next_page :: "'f BufferPool \<Rightarrow> ContainerId \<Rightarrow> PageId \<Rightarrow> bool" where
  "next_page bp c n \<longleftrightarrow>
     (case map_of (containers (cfc bp)) c of
        Some con \<Rightarrow> n = page_count con
      | None \<Rightarrow> n = 0)"

text \<open>The catalog after a page has been counted.\<close>

lemma count_page_ok:
  assumes px: "posix_ok ps content" and cat: "cat_ok content (cfc bp)" and n: "next_page bp c n" "unat n + 1 < 2 ^ 32"
  obtains cat1 con cat2 where "get_container ps (cfc bp) c = Some (cat1, con)"
    "inc_page_count cat1 c 1 = Some (cat2, n)" "cat_ok content cat2"
    "\<forall>q. cfc q = cat2 \<longrightarrow> temp_container q = temp_container bp"
    "\<forall>q. cfc q = cat2 \<longrightarrow> disk_page content q = disk_page content bp"
    "\<forall>q x. cfc q = cat2 \<longrightarrow> (is_pkey q x \<longleftrightarrow> is_pkey bp x \<or> x = (c, n))"
    "get_container_page_count cat2 = (get_container_page_count (cfc bp))(c \<mapsto> n + 1)"
proof -
  have n1: "unat (n + 1) = unat n + 1" using n(2) by (simp add: unat_word_ariths)
  have lt: "x < n + 1 \<longleftrightarrow> x < n \<or> x = n" for x using n1 by (auto simp: word_less_nat_alt less_Suc_eq word_unat_eq_iff)
  show thesis
  proof (cases "map_of (containers (cfc bp)) c")
    case (Some con)
    then have pc: "page_count con = n" using n(1) by (simp add: next_page_def)
    let ?cat = "(cfc bp)\<lparr>containers := AList.update c (con\<lparr>page_count := n + 1\<rparr>) (containers (cfc bp))\<rparr>"
    have co: "cat_ok content ?cat"
      using cat Some pc n1 by (fastforce simp: cat_ok_def update_conv')
    have keys: "is_pkey q x \<longleftrightarrow> is_pkey bp x \<or> x = (c, n)" if "cfc q = ?cat" for q :: "'a BufferPool" and x
      using that Some pc lt by (cases x) (auto simp: is_pkey_def update_conv' split: option.splits)
    show thesis
      by (rule that [OF get_container_there [OF Some], of ?cat])
        (use Some pc co keys in \<open>simp_all add: inc_page_count_def temp_container_def disk_page_def
          get_container_page_count_def update_conv' fun_eq_iff\<close>)
  next
    case None
    then have d: "map_of (disk (cfc bp)) c = None" "n = 0"
      using n(1) cat by (auto simp add: next_page_def cat_ok_def)
    have e: "content (p_empty ps) = []" "file_num_pages ps (p_empty ps) = 0"
      using px by (simp_all add: posix_ok_def file_num_pages_def)
    let ?con = "\<lparr>page_count = 0, is_temp = False\<rparr>"
    let ?cat1 = "(cfc bp)\<lparr>containers := AList.update c ?con (containers (cfc bp)),
      disk := AList.update c (p_empty ps) (disk (cfc bp))\<rparr>"
    let ?cat2 = "?cat1\<lparr>containers := AList.update c (?con\<lparr>page_count := 1\<rparr>) (containers ?cat1)\<rparr>"
    have g: "get_container ps (cfc bp) c = Some (?cat1, ?con)"
      using None d e(2) by (simp add: get_container_def file_open_def Container_new_def page_id_of_nat_def)
    have co: "cat_ok content ?cat2"
      using cat None d e(1) by (auto simp: cat_ok_def update_conv' split: if_splits)
    have keys: "is_pkey q x \<longleftrightarrow> is_pkey bp x \<or> x = (c, n)" if "cfc q = ?cat2" for q :: "'a BufferPool" and x
      using that None d lt by (cases x) (auto simp: is_pkey_def update_conv' split: option.splits)
    show thesis
      by (rule that [OF g, of ?cat2])
        (use None d co keys e in \<open>simp_all add: inc_page_count_def temp_container_def disk_page_def
          get_container_page_count_def update_conv' fun_eq_iff file_page_def\<close>)
  qed
qed

text \<open>What a call that creates the page \<open>k\<close> leaves behind: the frame \<open>i\<close> was empty and holds its old bytes
  with the page id of \<open>k\<close>; once its page is set to \<open>pg\<close> and unlatched, the pool is well-formed with one more page.\<close>

definition created ::
  "('f \<Rightarrow> bytes) \<Rightarrow> 'f BufferPool \<Rightarrow> ContainerPageId \<Rightarrow> 'f BufferPool \<Rightarrow> nat \<Rightarrow> bool" where
  "created content bp k q i \<longleftrightarrow>
     i < length (frames q) \<and> latch (frames q ! i) = - 1 \<and> key (frames q ! i) = Some k \<and> length (frames q) = length (frames bp) \<and>
     key (frames bp ! i) = None \<and> set_page_id (page (frames bp ! i)) (snd k) = Some (page (frames q ! i)) \<and>
     page_wf (page (frames q ! i)) \<and> get_page_id (page (frames q ! i)) = Some (snd k) \<and>
     (\<forall>pg. page_wf pg \<and> get_page_id pg = Some (snd k) \<longrightarrow>
        (let r = upd_frame q i (\<lambda>fr. fr\<lparr>page := pg, latch := 0\<rparr>) in
         bp_ok content r \<and> bp_page content r = (bp_page content bp)(k \<mapsto> pg) \<and> length (frames r) = length (frames bp) \<and>
         get_container_page_count (cfc r) = (get_container_page_count (cfc bp))(fst k \<mapsto> snd k + 1) \<and>
         (\<forall>j<length (frames r). key (frames r ! j) = None \<longrightarrow> frames r ! j = frames bp ! j)))"

lemma next_page_fresh: "next_page bp c n \<Longrightarrow> \<not> is_pkey bp (c, n)"
  by (auto simp: next_page_def is_pkey_def split: option.splits)

lemma created_bound:
  assumes ok: "bp_ok content bp" and card: "card {x. is_pkey bp x} < length (frames bp)" and new: "\<not> is_pkey bp k"
    and cat: "cat_ok content (cfc q)" "\<And>r. cfc r = cfc q \<Longrightarrow> temp_container r = temp_container bp"
      "\<And>r. cfc r = cfc q \<Longrightarrow> disk_page content r = disk_page content bp"
      "\<And>r x. cfc r = cfc q \<Longrightarrow> is_pkey r x \<longleftrightarrow> is_pkey bp x \<or> x = k"
      "get_container_page_count (cfc q) = (get_container_page_count (cfc bp))(fst k \<mapsto> snd k + 1)"
    and i: "eviction_hints bp = i # eviction_hints q" and lat: "bp_latch q = 0"
    and map: "ptf_get (page_to_frame q) = (ptf_get (page_to_frame bp))(k \<mapsto> i)" "ptf_get (page_to_frame bp) k = None"
    and frs: "frames q = (frames bp)[i := fr]"
    and fr: "key fr = Some k" "set_page_id (page (frames bp ! i)) (snd k) = Some (page fr)" "latch fr = - 1" "is_dirty fr"
      "frame_id fr = frame_id (frames bp ! i)"
  shows "created content bp k q i"
proof -
  have iN: "i < length (frames bp)" "key (frames bp ! i) = None" using bp_okD(8) [OF ok, of i] i by auto
  have fo: "frame_ok content bp i (frames bp ! i)" by (rule bp_okD(4) [OF ok iN(1)])
  have wf: "page_wf (page (frames bp ! i))" using fo by (simp add: frame_ok_def)
  have "{x. is_pkey q x} = insert k {x. is_pkey bp x}" using cat(4) [of q] by auto
  then have card': "card {x. is_pkey q x} \<le> length (frames bp)"
    using card new by simp
  {
    fix pg assume pg: "page_wf pg" "get_page_id pg = Some (snd k)"
    let ?fr = "fr\<lparr>page := pg, latch := 0\<rparr>" and ?r = "upd_frame q i (\<lambda>fr. fr\<lparr>page := pg, latch := 0\<rparr>)"
    have rc: "cfc ?r = cfc q" by simp
    have frs': "frames ?r = (frames bp)[i := ?fr]" using frs iN(1) by simp
    have "frame_ok content ?r i ?fr"
      using fo fr pg cat(4) [OF rc, of k] by (auto simp: frame_ok_def)
    then have "bp_ok content ?r"
      by (intro bind_frame_ok [OF ok _ _ frs', where k = k])
        (use i lat iN(1) fr(1) map cat(1) cat(2-4) [OF rc] card' cat(4) [of q] in simp_all)
    moreover have "bp_page content ?r x = ((bp_page content bp)(k \<mapsto> pg)) x" for x
      using map frs iN bp_okD(6) [OF ok, of x i] cat(4) [OF rc, of x] cat(3) [OF rc]
      by (auto simp: bp_page_def nth_list_update split: option.splits)
    moreover have "\<forall>j<length (frames ?r). key (frames ?r ! j) = None \<longrightarrow> frames ?r ! j = frames bp ! j"
      using frs iN fr(1) by (auto simp: nth_list_update)
    ultimately have "bp_ok content ?r \<and> bp_page content ?r = (bp_page content bp)(k \<mapsto> pg) \<and> length (frames ?r) = length (frames bp) \<and>
        get_container_page_count (cfc ?r) = (get_container_page_count (cfc bp))(fst k \<mapsto> snd k + 1) \<and>
        (\<forall>j<length (frames ?r). key (frames ?r ! j) = None \<longrightarrow> frames ?r ! j = frames bp ! j)"
      using rc frs cat(5) by (simp add: fun_eq_iff)
  }
  then show ?thesis
    unfolding created_def Let_def using frs iN fr set_page_id_wf [OF wf fr(2)] get_set_page_id [OF wf fr(2)] by simp
qed

lemma create_new_page_ok:
  assumes px: "posix_ok ps content" and ok: "bp_ok content bp" and card: "card {x. is_pkey bp x} < length (frames bp)"
    and n: "next_page bp c n" "unat n + 1 < 2 ^ 32"
  obtains q i where "bp_create_new_page_for_write ps bp c = Some (q, Inr i)" "created content bp (c, n) q i"
proof -
  obtain i hs where h: "eviction_hints bp = i # hs" "i < length (frames bp)" "key (frames bp ! i) = None"
    using hint_frame [OF ok hint_available_new [OF ok card]] by blast
  have l: "latch (frames bp ! i) = 0" by (rule bp_okD(5) [OF ok h(2)])
  have fo: "frame_ok content bp i (frames bp ! i)" by (rule bp_okD(4) [OF ok h(2)])
  have new: "ptf_get (page_to_frame bp) (c, n) = None"
  proof (rule ccontr)
    assume "ptf_get (page_to_frame bp) (c, n) \<noteq> None"
    then obtain j where j: "j < length (frames bp)" "key (frames bp ! j) = Some (c, n)" using bp_okD(6) [OF ok] by auto
    then show False using bp_okD(4) [OF ok j(1)] next_page_fresh [OF n(1)] by (simp add: frame_ok_def)
  qed
  obtain m where m: "ptf_insert (page_to_frame bp) (c, n) i = Some m" "ptf_get m = (ptf_get (page_to_frame bp))((c, n) \<mapsto> i)"
    using ptf_get_insert [OF new] by blast
  have fid: "unat (frame_id (frames bp ! i)) = i"
    using fo h(2) bp_okD(2) [OF ok] by (simp add: frame_ok_def unat_of_nat)
  obtain pg where pg: "set_page_id (page (frames bp ! i)) n = Some pg"
    using fo by (simp add: frame_ok_def set_page_id_Some)
  obtain cat1 con cat2 where c: "get_container ps (cfc bp) c = Some (cat1, con)"
    "inc_page_count cat1 c 1 = Some (cat2, n)" "cat_ok content cat2"
    "\<forall>q. cfc q = cat2 \<longrightarrow> temp_container q = temp_container bp"
    "\<forall>q. cfc q = cat2 \<longrightarrow> disk_page content q = disk_page content bp"
    "\<forall>q x. cfc q = cat2 \<longrightarrow> (is_pkey q x \<longleftrightarrow> is_pkey bp x \<or> x = (c, n))"
    "get_container_page_count cat2 = (get_container_page_count (cfc bp))(c \<mapsto> n + 1)"
    by (rule count_page_ok [OF px bp_okD(3) [OF ok] n])
  let ?v = "bp\<lparr>frames := (frames bp)[i := (frames bp ! i)\<lparr>latch := - 1\<rparr>], eviction_hints := hs\<rparr>"
  let ?w = "?v\<lparr>bp_latch := - 1\<rparr>"
  let ?x = "bp_release_exclusive (?w\<lparr>cfc := cat2, page_to_frame := m\<rparr>)"
  let ?q = "upd_frame ?x i (\<lambda>fr. fr\<lparr>page := pg, key := Some (c, n), is_dirty := True\<rparr>)"
  have "bp_create_new_page_for_write ps bp c = Some (?q, Inr i)"
    using choose_victim_hint [OF h(1,2) l] write_victim_empty [of i ?v ps] h bp_exclusive_free [of ?v]
      bp_okD(1) [OF ok] c(1,2) m(1) fid pg
    by (simp add: bp_create_new_page_for_write_def forget_old_def bind_page_def)
  moreover have "created content bp (c, n) ?q i"
    by (rule created_bound [OF ok card next_page_fresh [OF n(1)], where fr = "frames ?q ! i"])
      (use h m new pg c(3-7) bp_okD(1) [OF ok] in \<open>simp_all del: split_paired_All\<close>)
  ultimately show thesis by (rule that)
qed

section \<open>Flushing\<close>

text \<open>A dirty page written to the file of its container.\<close>

definition page_written :: "('f \<Rightarrow> bytes) \<Rightarrow> 'f BufferPool \<Rightarrow> ContainerPageId \<Rightarrow> Page \<Rightarrow> 'f ContainerFileCatalog \<Rightarrow> bool" where
  "page_written content bp k pg cat \<longleftrightarrow> containers cat = containers (cfc bp) \<and> cat_ok content cat \<and>
     (distinct (map fst (disk (cfc bp))) \<longrightarrow> distinct (map fst (disk cat))) \<and>
     dom (map_of (disk cat)) = dom (map_of (disk (cfc bp))) \<and>
     (\<forall>q. cfc q = cat \<longrightarrow> (\<not> temp_container bp (fst k) \<longrightarrow> disk_page content q k = Some pg) \<and>
        (\<forall>x pg. x \<noteq> k \<longrightarrow> disk_page content bp x = Some pg \<longrightarrow> disk_page content q x = Some pg))"

lemma container_write_ok:
  assumes px: "posix_ok ps content" and cat: "cat_ok content (cfc bp)" and k: "is_pkey bp k"
    and pg: "page_wf pg" "get_page_id pg = Some (snd k)"
  obtains cat where "container_write_page ps (cfc bp) (fst k) (snd k) pg = Some (cat, Inr ())"
    "page_written content bp k pg cat"
proof -
  obtain con where con: "map_of (containers (cfc bp)) (fst k) = Some con" "snd k < page_count con"
    using k by (auto simp: is_pkey_def split: option.splits)
  show thesis
  proof (cases "is_temp con")
    case True
    then have "temp_container bp (fst k)" using con by (simp add: temp_container_def)
    then show thesis using that [of "cfc bp"] True con cat
      by (simp add: container_write_page_def page_written_def disk_page_def del: split_paired_All)
  next
    case False
    obtain f where f: "map_of (disk (cfc bp)) (fst k) = Some f" "length (content f) \<le> unat (page_count con) * 4096"
      by (rule cat_okD [OF cat con(1)])
    obtain f' where f': "file_write_page ps f (snd k) pg = Some (f', Inr ())"
      "content f' = write_at (content f) (unat (snd k) * 4096) (data pg)"
      using file_write_page_ok [OF px pg] by blast
    let ?cat = "(cfc bp)\<lparr>disk := AList.update (fst k) f' (disk (cfc bp))\<rparr>"
    have len: "length (data pg) = 4096" using pg(1) by (simp add: page_wf_def)
    have "unat (snd k) + 1 \<le> unat (page_count con)" using con(2) by (simp add: word_less_nat_alt)
    then have "unat (snd k) * 4096 + 4096 \<le> unat (page_count con) * 4096" by linarith
    then have "length (content f') \<le> unat (page_count con) * 4096"
      using f(2) len by (simp add: f'(2) length_write_at)
    then have co: "cat_ok content ?cat" using cat con(1) by (auto simp: cat_ok_def update_conv')
    have new: "disk_page content q k = Some pg" if "cfc q = ?cat" for q :: "'a BufferPool"
      using that len file_page_write_same [of "data pg" "content f" "snd k"]
      by (simp add: disk_page_def update_conv' f'(2))
    have old: "disk_page content q x = Some p" if "cfc q = ?cat" "x \<noteq> k" "disk_page content bp x = Some p" for q :: "'a BufferPool" and x p
    proof (cases "fst x = fst k")
      case True
      then have "snd k \<noteq> snd x" using that(2) by (metis prod.collapse)
      then show ?thesis using that True f(1) len file_page_write_other [of "data pg" "snd k" "snd x" "content f" p]
        by (simp add: disk_page_def update_conv' f'(2))
    qed (use that in \<open>simp add: disk_page_def update_conv'\<close>)
    have "page_written content bp k pg ?cat"
      unfolding page_written_def using co new old f(1)
      by (simp add: distinct_update update_conv' insert_absorb domI del: split_paired_All)
    then show thesis using that [of ?cat] con(1) False f(1) f'(1) by (simp add: container_write_page_def)
  qed
qed

text \<open>One iteration of \<open>flush_all\<close>: the frame \<open>i\<close> is clean afterwards and nothing else changes in memory.\<close>

definition flushed :: "('f \<Rightarrow> bytes) \<Rightarrow> 'f BufferPool \<Rightarrow> nat list \<Rightarrow> 'f BufferPool \<Rightarrow> bool" where
  "flushed content bp is q \<longleftrightarrow> bp_ok content (q\<lparr>bp_latch := 0\<rparr>) \<and> bp_page content q = bp_page content bp \<and>
     containers (cfc q) = containers (cfc bp) \<and> bp_latch q = bp_latch bp \<and> page_to_frame q = page_to_frame bp \<and>
     (distinct (map fst (disk (cfc bp))) \<longrightarrow> distinct (map fst (disk (cfc q)))) \<and>
     dom (map_of (disk (cfc q))) = dom (map_of (disk (cfc bp))) \<and>
     length (frames q) = length (frames bp) \<and>
     (\<forall>j<length (frames bp). frames q ! j =
        (if j \<in> set is \<and> key (frames bp ! j) \<noteq> None then (frames bp ! j)\<lparr>is_dirty := False\<rparr> else frames bp ! j))"

lemma written_ok:
  assumes ok: "bp_ok content bp" and i: "i < length (frames bp)" "key (frames bp ! i) = Some k"
    and w: "page_written content bp k (page (frames bp ! i)) (cfc q)"
    and q: "bp_latch q = 0" "eviction_hints q = eviction_hints bp" "page_to_frame q = page_to_frame bp"
      "frames q = (frames bp)[i := (frames bp ! i)\<lparr>is_dirty := False\<rparr>]"
  shows "bp_ok content q \<and> bp_page content q = bp_page content bp"
proof -
  note d = bp_okD [OF ok]
  have same: "is_pkey q = is_pkey bp" "temp_container q = temp_container bp" "cat_ok content (cfc q)"
    using w by (simp_all add: page_written_def is_pkey_def temp_container_def fun_eq_iff)
  have new: "disk_page content q k = Some (page (frames bp ! i))" if "\<not> temp_container bp (fst k)"
    using w that by (simp add: page_written_def)
  have old: "disk_page content q x = Some pg" if "x \<noteq> k" "disk_page content bp x = Some pg" for x pg
    using w that unfolding page_written_def by blast
  have key: "key (frames q ! j) = key (frames bp ! j)" if "j < length (frames bp)" for j
    using q(4) that by (cases "j = i") simp_all
  have fr: "frame_ok content q j (frames q ! j) \<and> latch (frames q ! j) = 0" if j: "j < length (frames bp)" for j
  proof (cases "j = i")
    case True
    then show ?thesis using d(4,5) [OF i(1)] q(4) i new same by (simp add: frame_ok_def)
  next
    case False
    then have "key (frames bp ! j) \<noteq> Some k" using d(6) [of k i] d(6) [of k j] i j by auto
    then show ?thesis using d(4,5) [OF j] q(4) False old same by (auto simp: frame_ok_def split: option.splits)
  qed
  have res: "ptf_get (page_to_frame bp) k = Some i" using d(6) i by blast
  have non: "\<not> temp_container q (fst x) \<and> (\<exists>pg. disk_page content q x = Some pg \<and> get_page_id pg = Some (snd x))"
    if "is_pkey q x" "ptf_get (page_to_frame q) x = None" for x
  proof -
    have "x \<noteq> k" using that(2) res q(3) by auto
    then show ?thesis using d(9) [of x] that same q(3) old [of x] by auto
  qed
  have "bp_page content q x = bp_page content bp x" for x
  proof (cases "is_pkey bp x \<and> ptf_get (page_to_frame bp) x = None")
    case True
    then have "x \<noteq> k" using res by auto
    then show ?thesis using d(9) [of x] True same q(3) old [of x] by (auto simp: bp_page_def)
  next
    case False
    then show ?thesis using same q(3,4) i(1) by (auto simp: bp_page_def nth_list_update split: option.splits)
  qed
  moreover have "bp_ok content q"
  proof (rule bp_okI)
    show "ptf_get (page_to_frame q) x = Some j \<longleftrightarrow> j < length (frames q) \<and> key (frames q ! j) = Some x" for x j
      using d(6) [of x j] q(3,4) key [of j] by auto
    show "j \<in> set (eviction_hints q) \<longleftrightarrow> j < length (frames q) \<and> key (frames q ! j) = None" for j
      using d(8) [of j] q(2,4) key [of j] by auto
  qed (use d(2,7,10) same q(1-4) fr non in simp_all)
  ultimately show ?thesis by (simp add: fun_eq_iff)
qed

lemma latch_id: "latch fr = l \<Longrightarrow> fr\<lparr>latch := l\<rparr> = fr"
  by auto

lemma flush_frame_ok:
  assumes px: "posix_ok ps content" and ok: "bp_ok content (bp\<lparr>bp_latch := 0\<rparr>)" and i: "i < length (frames bp)"
  obtains q where "\<And>is. flush_frames ps bp (i # is) = flush_frames ps q is" "flushed content bp [i] q"
proof -
  let ?b = "bp\<lparr>bp_latch := 0\<rparr>" and ?fr = "frames bp ! i"
  have l: "latch ?fr = 0" "frame_ok content ?b i ?fr" using bp_okD(4,5) [OF ok, of i] i by simp_all
  have tr: "frame_try_read ?fr = Some (?fr\<lparr>latch := 1\<rparr>, True)"
    using l by (simp add: frame_try_read_def try_shared_def i16_inc_def)
  show thesis
  proof (cases "key ?fr = None \<or> \<not> is_dirty ?fr")
    case True
    then have "frames bp ! i = (if key ?fr \<noteq> None then ?fr\<lparr>is_dirty := False\<rparr> else ?fr)" by (cases ?fr) auto
    then have "flushed content bp [i] bp" using ok i by (auto simp: flushed_def)
    moreover have id: "bp\<lparr>frames := (frames bp)[i := ?fr\<lparr>latch := 0\<rparr>]\<rparr> = bp" using latch_id [OF l(1)] by simp
    have "flush_frames ps bp (i # is) = flush_frames ps bp is" for "is"
      using tr True i l id by (cases "key ?fr") (simp_all add: write_victim_to_disk_if_dirty_r_def read_guard_drop_def upd_frame_def)
    ultimately show thesis using that by blast
  next
    case False
    then obtain k where k: "key ?fr = Some k" "is_dirty ?fr" by auto
    have fo: "is_pkey ?b k" "page_wf (page ?fr)" "get_page_id (page ?fr) = Some (snd k)"
      using l(2) k by (simp_all add: frame_ok_def)
    have co: "cat_ok content (cfc ?b)" by (rule bp_okD(3) [OF ok])
    obtain cat where cat: "container_write_page ps (cfc ?b) (fst k) (snd k) (page ?fr) = Some (cat, Inr ())"
      "page_written content ?b k (page ?fr) cat"
      by (rule container_write_ok [OF px co fo])
    obtain con where con: "map_of (containers (cfc bp)) (fst k) = Some con"
      using fo(1) by (auto simp: is_pkey_def split: option.splits)
    let ?q = "bp\<lparr>cfc := cat, frames := (frames bp)[i := ?fr\<lparr>is_dirty := False\<rparr>]\<rparr>"
    have id: "?fr\<lparr>is_dirty := False, latch := 0\<rparr> = ?fr\<lparr>is_dirty := False\<rparr>"
      using l(1) by (intro latch_id) simp
    have st: "flush_frames ps bp (i # is) = flush_frames ps ?q is" for "is"
      using tr k i l get_container_there [OF con] cat(1)
      by (simp add: write_victim_to_disk_if_dirty_r_def read_guard_drop_def upd_frame_def id)
    have "bp_ok content (?q\<lparr>bp_latch := 0\<rparr>) \<and> bp_page content (?q\<lparr>bp_latch := 0\<rparr>) = bp_page content ?b"
      by (rule written_ok [OF ok]) (use i k cat(2) in simp_all)
    moreover have "bp_page content (r\<lparr>bp_latch := 0\<rparr>) = bp_page content r" for r :: "'a BufferPool"
      by (simp add: bp_page_def is_pkey_def disk_page_def fun_eq_iff split: option.split)
    ultimately have "flushed content bp [i] ?q"
      using k i cat(2) by (cases k) (auto simp add: flushed_def page_written_def nth_list_update)
    with st show thesis using that by blast
  qed
qed

lemma flush_frames_ok:
  assumes px: "posix_ok ps content"
  shows "bp_ok content (bp\<lparr>bp_latch := 0\<rparr>) \<Longrightarrow> \<forall>i\<in>set is. i < length (frames bp) \<Longrightarrow>
    \<exists>q. flush_frames ps bp is = Some (q, Inr ()) \<and> flushed content bp is q"
proof (induction "is" arbitrary: bp)
  case Nil
  then show ?case by (simp add: flushed_def)
next
  case (Cons i js)
  obtain q where q: "flush_frames ps bp (i # js) = flush_frames ps q js" "flushed content bp [i] q"
    using flush_frame_ok [OF px Cons.prems(1), of i] Cons.prems(2) by (metis list.set_intros(1))
  then obtain r where r: "flush_frames ps q js = Some (r, Inr ())" "flushed content q js r"
    using Cons.IH [of q] Cons.prems(2) by (auto simp: flushed_def)
  have "flushed content bp (i # js) r"
    using q(2) r(2) unfolding flushed_def by auto
  with q r show ?case by metis
qed

end
