(* ===== verification/MemPool.thy ===== *)
theory MemPool
  imports BufferPool
begin

text \<open>
  The trait \<open>MemPool\<close> (heapstore/src/buffer_pool/mem_pool_trait.rs) as its clients see it. A pool is a
  record of the methods that the heap file calls, on an arbitrary state \<open>'m\<close>; a guard is the index of its
  frame, \<open>mp_page\<close> its \<open>Deref\<close>, \<open>mp_set_page\<close> a change through its \<open>DerefMut\<close>, and the two drops its \<open>Drop\<close>.
  The locale \<open>mem_pool\<close> is the contract of the trait; the buffer pool and the in-memory pool satisfy it.
\<close>

section \<open>The methods\<close>

record 'm mem_pool_ops =
  mp_create :: "'m \<Rightarrow> ContainerId \<Rightarrow> ('m, MemPoolStatus, nat) run"
  mp_write :: "'m \<Rightarrow> PageFrameId \<Rightarrow> ('m, MemPoolStatus, nat) run"
  mp_read :: "'m \<Rightarrow> PageFrameId \<Rightarrow> ('m, MemPoolStatus, nat) run"
  mp_max_page_id :: "'m \<Rightarrow> ContainerId \<Rightarrow> PageId option"
  mp_page :: "'m \<Rightarrow> nat \<Rightarrow> Page"
  mp_set_page :: "'m \<Rightarrow> nat \<Rightarrow> Page \<Rightarrow> 'm"
  mp_drop_write :: "'m \<Rightarrow> nat \<Rightarrow> 'm"
  mp_drop_read :: "'m \<Rightarrow> nat \<Rightarrow> 'm"

text \<open>A page put behind a write guard and the guard dropped.\<close>

abbreviation mp_put :: "'m mem_pool_ops \<Rightarrow> 'm \<Rightarrow> nat \<Rightarrow> Page \<Rightarrow> 'm" where
  "mp_put mp m i pg \<equiv> mp_drop_write mp (mp_set_page mp m i pg) i"

section \<open>The contract\<close>

text \<open>\<open>pages m\<close> are the pages of all containers, \<open>free m\<close> how many pages can still be created. A pool hands
  out the page last stored; the header of the slotted page is zero in a new page.\<close>

locale mem_pool =
  fixes mp :: "'m mem_pool_ops" and inv :: "'m \<Rightarrow> bool"
    and pages :: "'m \<Rightarrow> ContainerPageId \<Rightarrow> Page option" and free :: "'m \<Rightarrow> nat"
  assumes page_key: "inv m \<Longrightarrow> pages m (c, p) \<noteq> None \<longleftrightarrow> (\<exists>n. mp_max_page_id mp m c = Some n \<and> p < n)"
    and page_ok: "inv m \<Longrightarrow> pages m k = Some pg \<Longrightarrow> page_wf pg \<and> get_page_id pg = Some (snd k)"
    and read_law: "inv m \<Longrightarrow> pages m (p_key pk) = Some pg \<Longrightarrow>
      \<exists>q i. mp_read mp m pk = Some (q, Inr i) \<and> mp_page mp q i = pg \<and>
        mp_max_page_id mp q = mp_max_page_id mp m \<and> inv (mp_drop_read mp q i) \<and>
        pages (mp_drop_read mp q i) = pages m \<and> free (mp_drop_read mp q i) = free m \<and>
        mp_max_page_id mp (mp_drop_read mp q i) = mp_max_page_id mp m"
    and write_law: "inv m \<Longrightarrow> pages m (p_key pk) = Some pg \<Longrightarrow>
      \<exists>q i. mp_write mp m pk = Some (q, Inr i) \<and> mp_page mp q i = pg \<and>
        (\<forall>pg'. page_wf pg' \<longrightarrow> get_page_id pg' = Some (snd (p_key pk)) \<longrightarrow>
           inv (mp_put mp q i pg') \<and> pages (mp_put mp q i pg') = (pages m)(p_key pk \<mapsto> pg') \<and>
           free (mp_put mp q i pg') = free m \<and> mp_max_page_id mp (mp_put mp q i pg') = mp_max_page_id mp m)"
    and create_law: "inv m \<Longrightarrow> 0 < free m \<Longrightarrow> n = (case mp_max_page_id mp m c of None \<Rightarrow> 0 | Some n \<Rightarrow> n) \<Longrightarrow>
      unat n + 1 < 2 ^ 32 \<Longrightarrow>
      \<exists>q i. mp_create mp m c = Some (q, Inr i) \<and> page_wf (mp_page mp q i) \<and>
        get_page_id (mp_page mp q i) = Some n \<and> slice (data (mp_page mp q i)) 16 8 = replicate 8 0 \<and>
        (\<forall>pg'. page_wf pg' \<longrightarrow> get_page_id pg' = Some n \<longrightarrow>
           inv (mp_put mp q i pg') \<and> pages (mp_put mp q i pg') = (pages m)((c, n) \<mapsto> pg') \<and>
           free m \<le> Suc (free (mp_put mp q i pg')) \<and>
           mp_max_page_id mp (mp_put mp q i pg') = (mp_max_page_id mp m)(c \<mapsto> n + 1))"
    and set_same: "mp_set_page mp m i (mp_page mp m i) = m"
begin

lemma max_page_id:
  assumes "inv m" and "pages m (c, p) = Some pg"
  obtains n where "mp_max_page_id mp m c = Some n" "p < n"
  using page_key [OF assms(1), of c p] assms(2) by auto

lemma page_there:
  assumes "inv m" and "mp_max_page_id mp m c = Some n" and "p < n"
  obtains pg where "pages m (c, p) = Some pg" "page_wf pg" "get_page_id pg = Some p"
proof -
  obtain pg where "pages m (c, p) = Some pg" using page_key [OF assms(1), of c p] assms(2,3) by auto
  then show thesis using that page_ok [OF assms(1)] by auto
qed

end

section \<open>Sequences of accesses\<close>

text \<open>What a client of a pool does with pages: read one, replace one, or add one to a container. Each call
  takes a guard and drops it.\<close>

datatype pool_op = PRead PageFrameId | PWrite PageFrameId Page | PCreate ContainerId Page

fun pool_exec :: "'m mem_pool_ops \<Rightarrow> 'm \<Rightarrow> pool_op \<Rightarrow> ('m, MemPoolStatus, Page) run" where
  "pool_exec mp m (PRead pk) =
     and_then (mp_read mp m pk) (\<lambda>m i. Some (mp_drop_read mp m i, Inr (mp_page mp m i)))"
| "pool_exec mp m (PWrite pk pg) =
     and_then (mp_write mp m pk) (\<lambda>m i. Some (mp_put mp m i pg, Inr (mp_page mp m i)))"
| "pool_exec mp m (PCreate c pg) =
     and_then (mp_create mp m c) (\<lambda>m i. Some (mp_put mp m i pg, Inr pg))"

primrec pool_run :: "'m mem_pool_ops \<Rightarrow> 'm \<Rightarrow> pool_op list \<Rightarrow> ('m, MemPoolStatus, Page list) run" where
  "pool_run mp m [] = Some (m, Inr [])"
| "pool_run mp m (e # es) =
     and_then (pool_exec mp m e) (\<lambda>m p. and_then (pool_run mp m es) (\<lambda>m ps. Some (m, Inr (p # ps))))"

text \<open>The same on the specification: the pages of every container as a list.\<close>

type_synonym pool_spec = "ContainerId \<Rightarrow> Page list"

fun spec_exec :: "pool_spec \<Rightarrow> pool_op \<Rightarrow> pool_spec \<times> Page" where
  "spec_exec s (PRead pk) = (s, s (fst (p_key pk)) ! unat (snd (p_key pk)))"
| "spec_exec s (PWrite pk pg) =
     (let (c, p) = p_key pk in (s(c := (s c)[unat p := pg]), s c ! unat p))"
| "spec_exec s (PCreate c pg) = (s(c := s c @ [pg]), pg)"

primrec spec_run :: "pool_spec \<Rightarrow> pool_op list \<Rightarrow> pool_spec \<times> Page list" where
  "spec_run s [] = (s, [])"
| "spec_run s (e # es) = (let (s, p) = spec_exec s e; (s, ps) = spec_run s es in (s, p # ps))"

text \<open>The calls a client may make: on pages that are there, with pages that carry their ids, while there is
  room for new ones.\<close>

fun spec_allows :: "nat \<Rightarrow> pool_spec \<Rightarrow> pool_op \<Rightarrow> bool" where
  "spec_allows room s (PRead pk) = (unat (snd (p_key pk)) < length (s (fst (p_key pk))))"
| "spec_allows room s (PWrite pk pg) =
     (unat (snd (p_key pk)) < length (s (fst (p_key pk))) \<and> page_wf pg \<and> get_page_id pg = Some (snd (p_key pk)))"
| "spec_allows room s (PCreate c pg) =
     (0 < room \<and> length (s c) + 1 < 2 ^ 32 \<and> page_wf pg \<and> get_page_id pg = Some (word_of_nat (length (s c))))"

fun room_after :: "nat \<Rightarrow> pool_op \<Rightarrow> nat" where
  "room_after room (PCreate c pg) = room - 1"
| "room_after room _ = room"

primrec spec_allows_all :: "nat \<Rightarrow> pool_spec \<Rightarrow> pool_op list \<Rightarrow> bool" where
  "spec_allows_all room s [] = True"
| "spec_allows_all room s (e # es) =
     (spec_allows room s e \<and> spec_allows_all (room_after room e) (fst (spec_exec s e)) es)"

text \<open>The pages \<open>f\<close> of a pool are exactly those of \<open>s\<close>.\<close>

definition represents :: "(ContainerPageId \<Rightarrow> Page option) \<Rightarrow> pool_spec \<Rightarrow> bool" where
  "represents f s \<longleftrightarrow> (\<forall>c p. f (c, p) = (if unat p < length (s c) then Some (s c ! unat p) else None)) \<and>
     (\<forall>c. length (s c) < 2 ^ 32)"

lemma represents_update:
  assumes "represents f s" and "unat p < length (s c)"
  shows "represents (f((c, p) \<mapsto> pg)) (s(c := (s c)[unat p := pg]))"
proof -
  have "unat x \<noteq> unat p" if "x \<noteq> p" for x using that word_unat_eq_iff by blast
  then show ?thesis using assms by (force simp: represents_def nth_list_update)
qed

lemma represents_append:
  assumes "represents f s" and "length (s c) + 1 < 2 ^ 32"
  shows "represents (f((c, word_of_nat (length (s c))) \<mapsto> pg)) (s(c := s c @ [pg]))"
proof -
  have "unat (word_of_nat (length (s c)) :: PageId) = length (s c)" using assms(2) by (simp add: unat_of_nat)
  then have "p = word_of_nat (length (s c)) \<longleftrightarrow> unat p = length (s c)" for p :: PageId by (metis word_unat_eq_iff)
  then show ?thesis using assms by (auto simp: represents_def nth_append)
qed

lemma represents_Some:
  "represents f s \<Longrightarrow> unat (snd k) < length (s (fst k)) \<Longrightarrow> f k = Some (s (fst k) ! unat (snd k))"
  by (cases k) (simp add: represents_def)

lemma spec_allows_mono: "spec_allows room s e \<Longrightarrow> room \<le> room' \<Longrightarrow> spec_allows room' s e"
  by (cases e) simp_all

lemma room_after_mono: "room \<le> room' \<Longrightarrow> room_after room e \<le> room_after room' e"
  by (cases e) simp_all

lemma spec_allows_all_mono:
  "spec_allows_all room s es \<Longrightarrow> room \<le> room' \<Longrightarrow> spec_allows_all room' s es"
proof (induction es arbitrary: room room' s)
  case (Cons e es)
  then show ?case using spec_allows_mono [of room s e room'] room_after_mono [of room room' e] by auto
qed simp

context mem_pool
begin

lemma represents_count:
  assumes "inv m" and rep: "represents (pages m) s"
  shows "(case mp_max_page_id mp m c of None \<Rightarrow> 0 | Some n \<Rightarrow> n) = word_of_nat (length (s c))"
proof -
  let ?n = "case mp_max_page_id mp m c of None \<Rightarrow> 0 | Some n \<Rightarrow> n"
  have key: "p < ?n \<longleftrightarrow> unat p < length (s c)" for p
    using page_key [OF assms(1), of c p] rep by (auto simp: represents_def split: option.splits if_splits)
  have "unat ?n = length (s c)"
  proof (rule ccontr)
    assume ne: "unat ?n \<noteq> length (s c)"
    define d :: PageId where "d = word_of_nat (min (unat ?n) (length (s c)))"
    have "min (unat ?n) (length (s c)) < 2 ^ 32" using rep by (simp add: represents_def min_less_iff_disj)
    then have d: "unat d = min (unat ?n) (length (s c))" by (simp add: d_def unat_of_nat)
    show False using key [of d] ne unfolding word_less_nat_alt d min_def by (auto split: if_splits)
  qed
  then have "word_of_nat (unat ?n) = (word_of_nat (length (s c)) :: PageId)" by (rule arg_cong)
  then show ?thesis by simp
qed

lemma exec_refines:
  assumes m: "inv m" "represents (pages m) s" and e: "spec_allows (free m) s e"
  shows "\<exists>q. pool_exec mp m e = Some (q, Inr (snd (spec_exec s e))) \<and> inv q \<and>
    represents (pages q) (fst (spec_exec s e)) \<and> room_after (free m) e \<le> free q"
proof (cases e)
  case (PRead pk)
  then have "pages m (p_key pk) = Some (s (fst (p_key pk)) ! unat (snd (p_key pk)))"
    using e represents_Some [OF m(2)] by simp
  then show ?thesis using read_law [OF m(1)] PRead m(2) by fastforce
next
  case (PWrite pk pg)
  obtain c p where k: "p_key pk = (c, p)" by fastforce
  have "pages m (p_key pk) = Some (s c ! unat p)"
    using e PWrite k represents_Some [OF m(2), of "p_key pk"] by simp
  then obtain q i where "mp_write mp m pk = Some (q, Inr i)" "mp_page mp q i = s c ! unat p"
    "inv (mp_put mp q i pg)" "pages (mp_put mp q i pg) = (pages m)(p_key pk \<mapsto> pg)" "free (mp_put mp q i pg) = free m"
    using write_law [OF m(1)] e PWrite by fastforce
  then show ?thesis using PWrite k e represents_update [OF m(2), of p c pg] by auto
next
  case (PCreate c pg)
  then have n: "length (s c) + 1 < 2 ^ 32" using e by simp
  then have n': "unat (word_of_nat (length (s c)) :: PageId) + 1 < 2 ^ 32" by (simp add: unat_of_nat)
  obtain q i where "mp_create mp m c = Some (q, Inr i)"
    "inv (mp_put mp q i pg)" "pages (mp_put mp q i pg) = (pages m)((c, word_of_nat (length (s c))) \<mapsto> pg)"
    "free m \<le> Suc (free (mp_put mp q i pg))"
    using create_law [OF m(1) _ represents_count [OF m, symmetric] n'] e PCreate by auto
  then show ?thesis using PCreate represents_append [OF m(2) n, of pg] by auto
qed

lemma run_refines:
  "inv m \<Longrightarrow> represents (pages m) s \<Longrightarrow> spec_allows_all (free m) s es \<Longrightarrow>
     \<exists>q. pool_run mp m es = Some (q, Inr (snd (spec_run s es))) \<and> inv q \<and> represents (pages q) (fst (spec_run s es))"
proof (induction es arbitrary: m s)
  case (Cons e es)
  then obtain q where q: "pool_exec mp m e = Some (q, Inr (snd (spec_exec s e)))" "inv q"
    "represents (pages q) (fst (spec_exec s e))" "room_after (free m) e \<le> free q"
    using exec_refines by fastforce
  then show ?case using Cons.IH [OF q(2,3)] Cons.prems(3) spec_allows_all_mono [of "room_after (free m) e" _ es "free q"]
    by (auto simp: Let_def split_beta)
qed simp

end

end
