(* ===== verification/BufferPoolProps.thy ===== *)
theory BufferPoolProps
  imports BufferPoolLaws MemPool HeapPageSpec
begin

text \<open>
  The properties of the buffer pool: a pool is created well-formed over the files of a directory, every
  access sees the page last written, \<open>flush_all\<close> makes the pages durable, so that a pool opened on the
  same files has them, and a pool with no free frame refuses new pages.
\<close>

section \<open>A new pool\<close>

lemma new_frames_ok:
  "\<exists>frs. new_frames is = Some frs \<and> length frs = length is \<and>
     (\<forall>j<length is. frame_id (frs ! j) = word_of_nat (is ! j) \<and> latch (frs ! j) = 0 \<and> \<not> is_dirty (frs ! j) \<and>
        key (frs ! j) = None \<and> page_wf (page (frs ! j)) \<and> slice (data (page (frs ! j))) 16 8 = replicate 8 0)"
proof (induction "is")
  case (Cons i js)
  obtain p where p: "Page_new 0 = Some p" "page_wf p" "slice (data p) 16 8 = replicate 8 0"
    using Page_new_ok by blast
  obtain frs where frs: "new_frames js = Some frs" "length frs = length js"
    "\<forall>j<length js. frame_id (frs ! j) = word_of_nat (js ! j) \<and> latch (frs ! j) = 0 \<and> \<not> is_dirty (frs ! j) \<and>
        key (frs ! j) = None \<and> page_wf (page (frs ! j)) \<and> slice (data (page (frs ! j))) 16 8 = replicate 8 0"
    using Cons.IH by blast
  then show ?case using p
    by (auto simp: BufferFrame_new_def Page_new_empty_def RwLatch_default_def nth_Cons split: nat.split)
qed simp

lemma BufferPool_new_ok:
  assumes cat: "cat_ok content cat" and n: "n < 2 ^ 32"
    and keys: "\<And>bp k. cfc bp = cat \<Longrightarrow> is_pkey bp k \<Longrightarrow> \<not> temp_container bp (fst k) \<and>
      (\<exists>pg. disk_page content bp k = Some pg \<and> get_page_id pg = Some (snd k))"
    and card: "\<And>bp :: 'f BufferPool. cfc bp = cat \<Longrightarrow> card {k. is_pkey bp k} \<le> n"
  obtains bp where "BufferPool_new en n cat = Some bp" "bp_ok content bp" "cfc bp = cat" "length (frames bp) = n"
    "\<forall>k. bp_page content bp k = (if is_pkey bp k then disk_page content bp k else None)"
    "\<forall>j<n. key (frames bp ! j) = None \<and> slice (data (page (frames bp ! j))) 16 8 = replicate 8 0"
proof -
  obtain frs where frs: "new_frames [0..<n] = Some frs" "length frs = n"
    "\<forall>j<n. frame_id (frs ! j) = word_of_nat j \<and> latch (frs ! j) = 0 \<and> \<not> is_dirty (frs ! j) \<and>
        key (frs ! j) = None \<and> page_wf (page (frs ! j)) \<and> slice (data (page (frs ! j))) 16 8 = replicate 8 0"
    using new_frames_ok [of "[0..<n]"] by auto
  let ?bp = "\<lparr>cfc = cat, bp_latch = 0, eviction_hints = [0..<n], frames = frs, page_to_frame = [], env = en\<rparr>"
  have none: "ptf_get [] k = None" for k :: ContainerPageId by (simp add: ptf_get_def)
  have "bp_ok content ?bp"
    by (rule bp_okI) (use cat n frs none keys [of ?bp] card [of ?bp] in \<open>auto simp: frame_ok_def\<close>)
  moreover have "\<forall>k. bp_page content ?bp k = (if is_pkey ?bp k then disk_page content ?bp k else None)"
    by (simp add: bp_page_def none del: split_paired_All)
  ultimately show thesis using that [of ?bp] frs by (simp add: BufferPool_new_def RwLatch_default_def del: split_paired_All)
qed

text \<open>The files a pool can be opened on: whole pages that carry their ids.\<close>

definition disk_ok :: "('f \<Rightarrow> bytes) \<Rightarrow> (ContainerId \<times> 'f) list \<Rightarrow> bool" where
  "disk_ok content dsk \<longleftrightarrow> (\<forall>(c, f) \<in> set dsk. \<exists>n :: PageId. length (content f) = unat n * 4096 \<and>
     (\<forall>pid < n. \<exists>pg. file_page (content f) pid = Some pg \<and> get_page_id pg = Some pid))"

lemma open_all_ok:
  assumes px: "posix_ok ps content"
  shows "disk_ok content dsk \<Longrightarrow> \<exists>cs. open_all ps dsk = Some cs \<and>
    map_of cs = (\<lambda>c. map_option (\<lambda>f. \<lparr>page_count = word_of_nat (length (content f) div 4096), is_temp = False\<rparr>)
      (map_of dsk c))"
proof (induction dsk)
  case (Cons e es)
  obtain n :: PageId where n: "length (content (snd e)) = unat n * 4096"
    using Cons.prems by (auto simp: disk_ok_def)
  have "unat n < 2 ^ 32" using unsigned_less [of n] by simp
  moreover have "p_fstat ps (snd e) = Some (unat n * 4096)" using px n by (simp add: posix_ok_def)
  ultimately have "Container_new ps (snd e) = Some \<lparr>page_count = n, is_temp = False\<rparr>"
    by (simp add: Container_new_def file_num_pages_def page_id_of_nat_def)
  moreover have "disk_ok content es" using Cons.prems by (simp add: disk_ok_def)
  ultimately show ?case using Cons.IH n by (cases e) (auto simp: fun_eq_iff)
qed (simp add: fun_eq_iff)

lemma file_page_count:
  assumes "length c = unat (n :: PageId) * 4096" and "file_page c pid = Some pg" shows "pid < n"
  using assms by (auto simp: file_page_def word_less_nat_alt split: if_splits)

lemma reopen_ok:
  assumes px: "posix_ok ps content" and dsk: "disk_ok content dsk"
    and n: "n < 2 ^ 32" "card {(c, pid). \<exists>f. map_of dsk c = Some f \<and> file_page (content f) pid \<noteq> None} \<le> n"
  obtains cat bp where "ContainerFileCatalog_new ps dsk rm = Some cat" "BufferPool_new en n cat = Some bp" "bp_ok content bp"
    "\<forall>k. bp_page content bp k = Option.bind (map_of dsk (fst k)) (\<lambda>f. file_page (content f) (snd k))"
    "cfc bp = cat" "length (frames bp) = n" "\<forall>c. map_of (containers cat) c = None \<longleftrightarrow> map_of dsk c = None"
    "\<forall>j<n. key (frames bp ! j) = None \<and> slice (data (page (frames bp ! j))) 16 8 = replicate 8 0"
proof -
  obtain cs where cs: "open_all ps dsk = Some cs" "map_of cs = (\<lambda>c. map_option (\<lambda>f.
      \<lparr>page_count = word_of_nat (length (content f) div 4096), is_temp = False\<rparr>) (map_of dsk c))"
    using open_all_ok [OF px dsk] by blast
  let ?cat = "\<lparr>remove_dir_on_drop = rm, containers = cs, disk = dsk\<rparr>"
  have f: "\<exists>m :: PageId. length (content f) = unat m * 4096 \<and>
      (\<forall>pid < m. \<exists>pg. file_page (content f) pid = Some pg \<and> get_page_id pg = Some pid)" if "map_of dsk c = Some f" for c f
    using dsk map_of_SomeD [OF that] by (fastforce simp: disk_ok_def)
  have co: "cat_ok content ?cat" using f by (fastforce simp: cat_ok_def cs(2))
  have key: "is_pkey bp k \<longleftrightarrow> (\<exists>f. map_of dsk (fst k) = Some f \<and> file_page (content f) (snd k) \<noteq> None)" (is ?k)
    and page: "is_pkey bp k \<Longrightarrow> \<not> temp_container bp (fst k) \<and>
      (\<exists>pg. disk_page content bp k = Some pg \<and> get_page_id pg = Some (snd k))" (is "_ \<Longrightarrow> ?p")
    if "cfc bp = ?cat" for bp :: "'a BufferPool" and k
  proof -
    show ?k
    proof (cases "map_of dsk (fst k)")
      case (Some h)
      then obtain m :: PageId where m: "length (content h) = unat m * 4096"
        "\<forall>pid < m. \<exists>pg. file_page (content h) pid = Some pg \<and> get_page_id pg = Some pid" using f by blast
      then show ?thesis using that Some file_page_count [OF m(1), of "snd k"] by (auto simp: is_pkey_def cs(2))
    qed (use that in \<open>simp add: is_pkey_def cs(2)\<close>)
    show ?p if k: "is_pkey bp k"
    proof -
      obtain h where h: "map_of dsk (fst k) = Some h" using k \<open>?k\<close> by blast
      then obtain m :: PageId where m: "length (content h) = unat m * 4096"
        "\<forall>pid < m. \<exists>pg. file_page (content h) pid = Some pg \<and> get_page_id pg = Some pid" using f by blast
      have "snd k < m" using h k \<open>cfc bp = ?cat\<close> m(1) by (simp add: is_pkey_def cs(2))
      then show ?thesis using m(2) h \<open>cfc bp = ?cat\<close> by (simp add: temp_container_def disk_page_def cs(2))
    qed
  qed
  have card: "card {k. is_pkey bp k} \<le> n" if "cfc bp = ?cat" for bp :: "'a BufferPool"
    using n(2) key [OF that] by (simp add: case_prod_beta')
  obtain bp where bp: "BufferPool_new en n ?cat = Some bp" "bp_ok content bp" "cfc bp = ?cat"
    "\<forall>k. bp_page content bp k = (if is_pkey bp k then disk_page content bp k else None)" "length (frames bp) = n"
    "\<forall>j<n. key (frames bp ! j) = None \<and> slice (data (page (frames bp ! j))) 16 8 = replicate 8 0"
    using BufferPool_new_ok [OF co n(1) page card] by metis
  have "bp_page content bp k = Option.bind (map_of dsk (fst k)) (\<lambda>f. file_page (content f) (snd k))" for k
    using bp(4) [THEN spec, of k] key [OF bp(3), of k] bp(3) by (cases "map_of dsk (fst k)") (auto simp: disk_page_def)
  then show thesis using that [of ?cat bp] cs bp by (simp add: ContainerFileCatalog_new_def del: split_paired_All)
qed

section \<open>The buffer pool as a memory pool\<close>

definition bp_pool :: "'f posix \<Rightarrow> 'f BufferPool mem_pool_ops" where
  "bp_pool ps = \<lparr>mp_create = bp_create_new_page_for_write ps, mp_write = bp_get_page_for_write ps,
     mp_read = bp_get_page_for_read ps, mp_max_page_id = bp_get_max_page_id,
     mp_page = (\<lambda>bp i. page (frames bp ! i)), mp_set_page = (\<lambda>bp i pg. upd_frame bp i (\<lambda>fr. fr\<lparr>page := pg\<rparr>)),
     mp_drop_write = (\<lambda>bp i. upd_frame bp i write_guard_drop), mp_drop_read = (\<lambda>bp i. upd_frame bp i read_guard_drop)\<rparr>"

text \<open>The empty frames of a pool that was never reset hold zero slotted-page headers.\<close>

definition clean_empty :: "'f BufferPool \<Rightarrow> bool" where
  "clean_empty bp \<longleftrightarrow> (\<forall>j<length (frames bp). key (frames bp ! j) = None \<longrightarrow>
     slice (data (page (frames bp ! j))) 16 8 = replicate 8 0)"

definition pool_ok :: "('f \<Rightarrow> bytes) \<Rightarrow> 'f BufferPool \<Rightarrow> bool" where
  "pool_ok content bp \<longleftrightarrow> bp_ok content bp \<and> clean_empty bp"

definition bp_free :: "'f BufferPool \<Rightarrow> nat" where
  "bp_free bp = length (frames bp) - card {k. is_pkey bp k}"

lemma bp_page_key:
  assumes ok: "bp_ok content bp"
  shows "bp_page content bp (c, p) \<noteq> None \<longleftrightarrow> (\<exists>n. bp_get_max_page_id bp c = Some n \<and> p < n)"
proof -
  have "is_pkey bp (c, p) \<longleftrightarrow> (\<exists>n. bp_get_max_page_id bp c = Some n \<and> p < n)"
    by (auto simp: is_pkey_def bp_get_max_page_id_def get_container_page_count_def split: option.splits)
  moreover have "bp_page content bp (c, p) \<noteq> None \<longleftrightarrow> is_pkey bp (c, p)"
  proof
    assume "is_pkey bp (c, p)"
    then show "bp_page content bp (c, p) \<noteq> None" using bp_page_Some [OF ok] by (metis option.distinct(1))
  qed (simp add: bp_page_def split: if_splits)
  ultimately show ?thesis by blast
qed

lemma pkey_page: "bp_page content bp k = Some pg \<Longrightarrow> is_pkey bp k"
  by (simp add: bp_page_def split: if_splits)

lemma pkeys_dom:
  assumes ok: "bp_ok content bp"
  shows "{k. is_pkey bp k} = dom (bp_page content bp)"
proof (rule set_eqI)
  fix k
  show "k \<in> {k. is_pkey bp k} \<longleftrightarrow> k \<in> dom (bp_page content bp)"
  proof (cases "is_pkey bp k")
    case True
    obtain pg where "bp_page content bp k = Some pg" by (rule bp_page_Some [OF ok True])
    with True show ?thesis by auto
  qed (simp add: bp_page_def dom_def)
qed

lemma clean_empty_keep:
  assumes "clean_empty bp" and "length (frames r) = length (frames bp)"
    and "\<forall>j<length (frames r). key (frames r ! j) = None \<longrightarrow> frames r ! j = frames bp ! j"
  shows "clean_empty r"
  using assms unfolding clean_empty_def by metis

lemma bp_read_law:
  assumes px: "posix_ok ps content" and ok: "pool_ok content bp" and pg: "bp_page content bp (p_key pk) = Some pg"
  shows "\<exists>q i. bp_get_page_for_read ps bp pk = Some (q, Inr i) \<and> page (frames q ! i) = pg \<and>
    bp_get_max_page_id q = bp_get_max_page_id bp \<and> (let r = upd_frame q i read_guard_drop in
      pool_ok content r \<and> bp_page content r = bp_page content bp \<and> bp_free r = bp_free bp \<and>
      bp_get_max_page_id r = bp_get_max_page_id bp)"
proof -
  have bo: "bp_ok content bp" "clean_empty bp" using ok by (simp_all add: pool_ok_def)
  obtain q i where q: "bp_get_page_for_read ps bp pk = Some (q, Inr i)" "fetched content bp (p_key pk) 1 False q i"
    by (rule get_page_for_read_ok [OF px bo(1) pkey_page [OF pg] refl])
  have pq: "page (frames q ! i) = pg" "latch (frames q ! i) = 1" using q(2) pg by (simp_all add: fetched_def)
  have wf: "page_wf pg" "get_page_id pg = Some (snd (p_key pk))"
    using bp_page_Some [OF bo(1) pkey_page [OF pg]] pg by auto
  let ?r = "upd_frame q i (\<lambda>fr. fr\<lparr>page := pg, latch := 0\<rparr>)"
  have r: "bp_ok content ?r" "cfc ?r = cfc bp" "bp_page content ?r = (bp_page content bp)(p_key pk \<mapsto> pg)"
    "length (frames ?r) = length (frames bp)" "\<forall>j<length (frames ?r). key (frames ?r ! j) = None \<longrightarrow> frames ?r ! j = frames bp ! j"
    using q(2) wf pq(1) by (auto simp: fetched_def Let_def)
  have e: "upd_frame q i read_guard_drop = ?r"
    using pq by (simp add: upd_frame_def read_guard_drop_def) (metis BufferFrame.surjective BufferFrame.update_convs(6))
  have c: "bp_get_max_page_id q = bp_get_max_page_id bp" "bp_get_max_page_id ?r = bp_get_max_page_id bp"
    using r(2) by (simp_all add: bp_get_max_page_id_def fun_eq_iff)
  have "bp_free ?r = bp_free bp" using r(4) is_pkey_cong [OF r(2)] by (simp add: bp_free_def)
  moreover have "pool_ok content ?r" using r(1) clean_empty_keep [OF bo(2) r(4,5)] by (simp add: pool_ok_def)
  moreover have "bp_page content ?r = bp_page content bp" using r(3) pg by (simp add: fun_upd_idem)
  ultimately show ?thesis using q(1) pq(1) c unfolding e [symmetric] Let_def by blast
qed

lemma put_eq:
  "mp_put (bp_pool ps) q i pg = upd_frame q i (\<lambda>fr. fr\<lparr>page := pg, latch := 0\<rparr>)"
  by (cases "i < length (frames q)")
    (simp_all add: bp_pool_def upd_frame_def write_guard_drop_def release_exclusive_def list_update_beyond)

lemma bp_write_law:
  assumes px: "posix_ok ps content" and ok: "pool_ok content bp" and pg: "bp_page content bp (p_key pk) = Some pg"
  shows "\<exists>q i. bp_get_page_for_write ps bp pk = Some (q, Inr i) \<and> page (frames q ! i) = pg \<and>
    (\<forall>pg'. page_wf pg' \<longrightarrow> get_page_id pg' = Some (snd (p_key pk)) \<longrightarrow> (let r = mp_put (bp_pool ps) q i pg' in
      pool_ok content r \<and> bp_page content r = (bp_page content bp)(p_key pk \<mapsto> pg') \<and> bp_free r = bp_free bp \<and>
      bp_get_max_page_id r = bp_get_max_page_id bp))"
proof -
  have bo: "bp_ok content bp" "clean_empty bp" using ok by (simp_all add: pool_ok_def)
  obtain q i where q: "bp_get_page_for_write ps bp pk = Some (q, Inr i)" "fetched content bp (p_key pk) (- 1) True q i"
    by (rule get_page_for_write_ok [OF px bo(1) pkey_page [OF pg] refl])
  {
    fix pg' assume pg': "page_wf pg'" "get_page_id pg' = Some (snd (p_key pk))"
    let ?r = "upd_frame q i (\<lambda>fr. fr\<lparr>page := pg', latch := 0\<rparr>)"
    have r: "bp_ok content ?r" "cfc ?r = cfc bp" "bp_page content ?r = (bp_page content bp)(p_key pk \<mapsto> pg')"
      "length (frames ?r) = length (frames bp)" "\<forall>j<length (frames ?r). key (frames ?r ! j) = None \<longrightarrow> frames ?r ! j = frames bp ! j"
      using q(2) pg' by (auto simp: fetched_def Let_def)
    have "bp_get_max_page_id ?r = bp_get_max_page_id bp" using r(2) by (simp add: bp_get_max_page_id_def fun_eq_iff)
    moreover have "bp_free ?r = bp_free bp" using r(4) is_pkey_cong [OF r(2)] by (simp add: bp_free_def)
    moreover have "pool_ok content ?r" using r(1) clean_empty_keep [OF bo(2) r(4,5)] by (simp add: pool_ok_def)
    ultimately have "let r = mp_put (bp_pool ps) q i pg' in
      pool_ok content r \<and> bp_page content r = (bp_page content bp)(p_key pk \<mapsto> pg') \<and> bp_free r = bp_free bp \<and>
      bp_get_max_page_id r = bp_get_max_page_id bp"
      using r(3) unfolding Let_def put_eq by blast
  }
  then show ?thesis using q pg by (auto simp: fetched_def)
qed

lemma bp_create_law:
  assumes px: "posix_ok ps content" and ok: "pool_ok content bp" and free: "0 < bp_free bp"
    and n: "n = (case bp_get_max_page_id bp c of None \<Rightarrow> 0 | Some n \<Rightarrow> n)" "unat n + 1 < 2 ^ 32"
  shows "\<exists>q i. bp_create_new_page_for_write ps bp c = Some (q, Inr i) \<and> page_wf (page (frames q ! i)) \<and>
    get_page_id (page (frames q ! i)) = Some n \<and> slice (data (page (frames q ! i))) 16 8 = replicate 8 0 \<and>
    (\<forall>pg'. page_wf pg' \<longrightarrow> get_page_id pg' = Some n \<longrightarrow> (let r = mp_put (bp_pool ps) q i pg' in
      pool_ok content r \<and> bp_page content r = (bp_page content bp)((c, n) \<mapsto> pg') \<and> bp_free bp \<le> Suc (bp_free r) \<and>
      bp_get_max_page_id r = (bp_get_max_page_id bp)(c \<mapsto> n + 1)))"
proof -
  have bo: "bp_ok content bp" "clean_empty bp" using ok by (simp_all add: pool_ok_def)
  have nx: "next_page bp c n"
    using n(1) by (auto simp: next_page_def bp_get_max_page_id_def get_container_page_count_def split: option.splits)
  have card: "card {x. is_pkey bp x} < length (frames bp)" using free by (simp add: bp_free_def)
  obtain q i where q: "bp_create_new_page_for_write ps bp c = Some (q, Inr i)" "created content bp (c, n) q i"
    by (rule create_new_page_ok [OF px bo(1) card nx n(2)])
  have i: "i < length (frames bp)" "key (frames bp ! i) = None" "set_page_id (page (frames bp ! i)) n = Some (page (frames q ! i))"
    using q(2) by (simp_all add: created_def)
  have wf: "page_wf (page (frames bp ! i))" using bp_okD(4) [OF bo(1) i(1)] by (simp add: frame_ok_def)
  have "slice (data (page (frames q ! i))) 16 8 = replicate 8 0"
    using set_page_id_frame [OF wf i(3), of 16 8] bo(2) i(1,2) by (simp add: clean_empty_def)
  moreover {
    fix pg' assume pg': "page_wf pg'" "get_page_id pg' = Some n"
    let ?r = "upd_frame q i (\<lambda>fr. fr\<lparr>page := pg', latch := 0\<rparr>)"
    have r: "bp_ok content ?r" "bp_page content ?r = (bp_page content bp)((c, n) \<mapsto> pg')"
      "length (frames ?r) = length (frames bp)" "\<forall>j<length (frames ?r). key (frames ?r ! j) = None \<longrightarrow> frames ?r ! j = frames bp ! j"
      "get_container_page_count (cfc ?r) = (get_container_page_count (cfc bp))(c \<mapsto> n + 1)"
      using q(2) pg' by (auto simp: created_def Let_def)
    have "card {k. is_pkey ?r k} \<le> Suc (card {k. is_pkey bp k})"
      unfolding pkeys_dom [OF r(1)] pkeys_dom [OF bo(1)] r(2) by (simp add: card_insert_le_m1 card_insert_if)
    then have "bp_free bp \<le> Suc (bp_free ?r)" using r(3) by (simp add: bp_free_def)
    moreover have "bp_get_max_page_id ?r = (bp_get_max_page_id bp)(c \<mapsto> n + 1)"
      using r(5) by (simp add: bp_get_max_page_id_def fun_eq_iff)
    moreover have "pool_ok content ?r" using r(1) clean_empty_keep [OF bo(2) r(3,4)] by (simp add: pool_ok_def)
    ultimately have "let r = mp_put (bp_pool ps) q i pg' in
      pool_ok content r \<and> bp_page content r = (bp_page content bp)((c, n) \<mapsto> pg') \<and> bp_free bp \<le> Suc (bp_free r) \<and>
      bp_get_max_page_id r = (bp_get_max_page_id bp)(c \<mapsto> n + 1)"
      using r(2) unfolding Let_def put_eq by blast
  }
  ultimately show ?thesis using q by (auto simp: created_def)
qed

text \<open>The contract holds on every file system that behaves as \<open>posix_ok\<close> says.\<close>

lemma bp_mem_pool:
  assumes px: "posix_ok ps content"
  shows "mem_pool (bp_pool ps) (pool_ok content) (bp_page content) bp_free"
proof
  show "bp_page content m (c, p) \<noteq> None \<longleftrightarrow> (\<exists>n. mp_max_page_id (bp_pool ps) m c = Some n \<and> p < n)" if "pool_ok content m" for m c p
    using bp_page_key [of content m c p] that by (simp add: pool_ok_def bp_pool_def)
  show "page_wf pg \<and> get_page_id pg = Some (snd k)" if "pool_ok content m" "bp_page content m k = Some pg" for m k pg
    using bp_page_Some [OF _ pkey_page [OF that(2)], of content] that by (auto simp: pool_ok_def)
qed (use bp_read_law [OF px] bp_write_law [OF px] bp_create_law [OF px] in
  \<open>simp_all add: bp_pool_def upd_frame_def Let_def\<close>)

interpretation bpm: mem_pool "bp_pool posix_mem" "pool_ok (\<lambda>f. f)" "bp_page (\<lambda>f. f)" bp_free
  by (rule bp_mem_pool [OF posix_mem_ok])

section \<open>Durability\<close>

lemma flush_containers_ok: "\<forall>c\<in>set cs. map_of dsk (fst c) \<noteq> None \<Longrightarrow> flush_containers ps dsk cs = Some (Inr ())"
  by (induction cs) (auto simp: file_flush_def)

lemma flush_all_ok:
  assumes px: "posix_ok ps content" and ok: "bp_ok content bp"
  obtains q where "bp_flush_all ps bp = Some (q, Inr ())" "bp_ok content q" "bp_page content q = bp_page content bp"
    "containers (cfc q) = containers (cfc bp)" "length (frames q) = length (frames bp)"
    "distinct (map fst (disk (cfc bp))) \<longrightarrow> distinct (map fst (disk (cfc q)))"
    "\<forall>k. is_pkey q k \<longrightarrow> \<not> temp_container q (fst k) \<longrightarrow> disk_page content q k = bp_page content bp k"
proof -
  have l: "bp_latch bp = 0" by (rule bp_okD(1) [OF ok])
  let ?b = "bp\<lparr>bp_latch := 1\<rparr>"
  have "bp\<lparr>bp_latch := 0\<rparr> = bp" using l by auto
  then have bo: "bp_ok content (?b\<lparr>bp_latch := 0\<rparr>)" using ok by simp
  obtain r where r: "flush_frames ps ?b [0..<length (frames bp)] = Some (r, Inr ())" "flushed content ?b [0..<length (frames bp)] r"
    using flush_frames_ok [OF px bo, of "[0..<length (frames bp)]"] by auto
  let ?q = "r\<lparr>bp_latch := 0\<rparr>"
  have q: "bp_ok content ?q" "bp_page content r = bp_page content ?b" "bp_latch r = 1" "containers (cfc r) = containers (cfc bp)"
    "length (frames r) = length (frames bp)" "distinct (map fst (disk (cfc bp))) \<longrightarrow> distinct (map fst (disk (cfc r)))"
    "\<And>j. j < length (frames bp) \<Longrightarrow> key (frames r ! j) \<noteq> None \<Longrightarrow> \<not> is_dirty (frames r ! j)"
    using r(2) by (auto simp: flushed_def split: if_splits)
  have latch: "bp_page content (x\<lparr>bp_latch := v\<rparr>) = bp_page content x" for x :: "'a BufferPool" and v
    by (simp add: bp_page_def is_pkey_def disk_page_def fun_eq_iff split: option.split)
  have "flush_containers ps (disk (cfc r)) (containers (cfc r)) = Some (Inr ())"
  proof (rule flush_containers_ok, rule ballI)
    fix c assume "c \<in> set (containers (cfc r))"
    then obtain con where "map_of (containers (cfc r)) (fst c) = Some con"
      by (metis map_of_eq_None_iff image_eqI list.set_map option.exhaust)
    then show "map_of (disk (cfc r)) (fst c) \<noteq> None" using cat_okD [OF bp_okD(3) [OF q(1)]] by (metis BufferPool.select_convs(1) BufferPool.surjective BufferPool.update_convs(2) option.distinct(1))
  qed
  then have run: "bp_flush_all ps bp = Some (?q, Inr ())"
    using l r(1) q(3) by (simp add: bp_flush_all_def bp_shared_free cfc_flush_all_def bp_release_shared_def)
  have "disk_page content ?q k = bp_page content ?q k" if k: "is_pkey ?q k" "\<not> temp_container ?q (fst k)" for k
  proof (cases "ptf_get (page_to_frame ?q) k")
    case (Some i)
    then have i: "i < length (frames ?q)" "key (frames ?q ! i) = Some k" using bp_okD(6) [OF q(1)] by blast+
    then have "\<not> is_dirty (frames ?q ! i)" using q(5,7) by simp
    then show ?thesis using bp_okD(4) [OF q(1) i(1)] i k Some by (simp add: frame_ok_def bp_page_def)
  qed (use k in \<open>simp add: bp_page_def\<close>)
  then show thesis using that [OF run q(1)] q latch by (simp del: split_paired_All)
qed

lemma flushed_disk_ok:
  assumes ok: "bp_ok content q" and dist: "distinct (map fst (disk (cfc q)))"
    and dp: "\<forall>k. is_pkey q k \<longrightarrow> disk_page content q k = bp_page content q k"
  shows "disk_ok content (disk (cfc q))"
    "bp_page content q k = Option.bind (map_of (disk (cfc q)) (fst k)) (\<lambda>f. file_page (content f) (snd k))"
proof -
  have f: "\<exists>con. map_of (containers (cfc q)) c = Some con \<and> length (content f) = unat (page_count con) * 4096 \<and>
      (\<forall>pid < page_count con. \<exists>pg. file_page (content f) pid = Some pg \<and> get_page_id pg = Some pid)"
    if f: "map_of (disk (cfc q)) c = Some f" for c f
  proof -
    obtain con where con: "map_of (containers (cfc q)) c = Some con"
      using bp_okD(3) [OF ok] f by (auto simp: cat_ok_def)
    have le: "length (content f) \<le> unat (page_count con) * 4096"
      by (rule cat_okD [OF bp_okD(3) [OF ok] con]) (use f in simp)
    have pg: "\<exists>pg. file_page (content f) pid = Some pg \<and> get_page_id pg = Some pid" if "pid < page_count con" for pid
    proof -
      have k: "is_pkey q (c, pid)" using con that by (simp add: is_pkey_def)
      obtain pg where "bp_page content q (c, pid) = Some pg" "get_page_id pg = Some pid"
        by (rule bp_page_Some [OF ok k]) simp
      then show ?thesis using dp [THEN spec, of "(c, pid)"] k f by (auto simp: disk_page_def)
    qed
    have "length (content f) = unat (page_count con) * 4096"
    proof (cases "page_count con = 0")
      case False
      then have pos: "0 < unat (page_count con)" by (simp add: unat_gt_0)
      then have u: "unat (page_count con - 1) + 1 = unat (page_count con)" using False by (simp add: unat_minus_one)
      then have "page_count con - 1 < page_count con" by (simp add: word_less_nat_alt)
      then have "unat (page_count con) * 4096 \<le> length (content f)"
        using pg u by (fastforce simp: file_page_def split: if_splits)
      with le show ?thesis by simp
    qed (use le in simp)
    with con pg show ?thesis by blast
  qed
  show "disk_ok content (disk (cfc q))"
    unfolding disk_ok_def using f map_of_is_SomeI [OF dist] by fastforce
  show "bp_page content q k = Option.bind (map_of (disk (cfc q)) (fst k)) (\<lambda>f. file_page (content f) (snd k))"
  proof (cases "map_of (disk (cfc q)) (fst k)")
    case None
    then have "map_of (containers (cfc q)) (fst k) = None"
      using bp_okD(3) [OF ok] by (fastforce simp: cat_ok_def)
    then show ?thesis using None by (simp add: bp_page_def is_pkey_def)
  next
    case (Some h)
    then obtain con where con: "map_of (containers (cfc q)) (fst k) = Some con"
      "length (content h) = unat (page_count con) * 4096" using f by blast
    show ?thesis
    proof (cases "is_pkey q k")
      case True
      then have "disk_page content q k = bp_page content q k" using dp by blast
      then show ?thesis using Some by (simp add: disk_page_def)
    next
      case False
      then have "file_page (content h) (snd k) = None"
        using file_page_count [OF con(2), of "snd k"] con(1) by (cases "file_page (content h) (snd k)") (auto simp: is_pkey_def)
      then show ?thesis using False Some by (simp add: bp_page_def)
    qed
  qed
qed

section \<open>Properties\<close>

text \<open>A pool without pages and without files, for the witnesses.\<close>

definition no_files :: "'f ContainerFileCatalog" where
  "no_files = \<lparr>remove_dir_on_drop = False, containers = [], disk = []\<rparr>"

definition some_env :: evict_env where
  "some_env = \<lparr>rng = (\<lambda>_. 0), drawn = 0, lru_counter = 1\<rparr>"

lemma empty_pool_cat:
  assumes "n < 2 ^ 32" and cat: "containers cat = []" "disk cat = []"
  obtains bp where "BufferPool_new en n cat = Some bp" "pool_ok content bp" "length (frames bp) = n"
    "bp_page content bp = (\<lambda>_. None)" "bp_free bp = n" "cfc bp = cat"
proof -
  have co: "cat_ok content cat" using cat by (simp add: cat_ok_def)
  have nk: "\<not> is_pkey b k" if "cfc b = cat" for b :: "'a BufferPool" and k
    using that cat by (simp add: is_pkey_def)
  obtain bp where bp: "BufferPool_new en n cat = Some bp" "bp_ok content bp" "cfc bp = cat" "length (frames bp) = n"
    "\<forall>j<n. key (frames bp ! j) = None \<and> slice (data (page (frames bp ! j))) 16 8 = replicate 8 0"
    using BufferPool_new_ok [OF co assms(1), of en] nk by (metis (no_types, lifting) Collect_empty_eq card.empty le0)
  moreover have "bp_page content bp = (\<lambda>_. None)" using nk [OF bp(3)] by (simp add: bp_page_def fun_eq_iff)
  moreover have "is_pkey bp = (\<lambda>_. False)" using nk [OF bp(3)] by blast
  then have "bp_free bp = n" using bp(4) by (simp add: bp_free_def)
  ultimately show thesis using that by (simp add: pool_ok_def clean_empty_def)
qed

lemma empty_pool:
  assumes "n < 2 ^ 32"
  obtains bp where "BufferPool_new some_env n no_files = Some bp" "pool_ok content bp" "length (frames bp) = n"
    "bp_page content bp = (\<lambda>_. None)" "bp_free bp = n" "cfc bp = no_files"
  by (rule empty_pool_cat [OF assms, of no_files some_env content]) (simp_all add: no_files_def)

text \<open>C9: With as many frames as pages the buffer pool refines a map from containers to lists of pages:
  every sequence of reads, writes and allocations that stays within the frames returns, without an error,
  the pages the lists have, and the pool has the pages of the lists at the end, whatever is in memory and
  whatever on disk.\<close>

theorem pool_refines_lists:
  assumes "posix_ok ps content" and "pool_ok content bp" and "represents (bp_page content bp) s"
    and "spec_allows_all (bp_free bp) s es"
  shows "\<exists>q. pool_run (bp_pool ps) bp es = Some (q, Inr (snd (spec_run s es))) \<and> pool_ok content q \<and>
    represents (bp_page content q) (fst (spec_run s es))"
  by (rule mem_pool.run_refines [OF bp_mem_pool [OF assms(1)] assms(2-4)])

theorem pool_refines_lists_witness:
  "\<exists>bp q. BufferPool_new some_env 2 no_files = Some bp \<and>
     pool_run (bp_pool posix_mem) bp
       [PCreate 7 (the (Page_new 0)), PCreate 7 (the (Page_new 1)), PRead (PageFrameId_new 7 0)] =
     Some (q, Inr [the (Page_new 0), the (Page_new 1), the (Page_new 0)])"
proof -
  obtain bp where bp: "BufferPool_new some_env 2 no_files = Some bp" "pool_ok (\<lambda>f. f) bp"
    "bp_page (\<lambda>f. f) bp = (\<lambda>_. None)" "bp_free bp = 2"
    using empty_pool [of 2 "\<lambda>f. f"] by auto
  let ?es = "[PCreate 7 (the (Page_new 0)), PCreate 7 (the (Page_new 1)), PRead (PageFrameId_new 7 0)]"
  have rep: "represents (bp_page (\<lambda>f. f) bp) (\<lambda>_. [])" using bp(3) by (simp add: represents_def)
  obtain p q where "Page_new 0 = Some p" "page_wf p" "get_page_id p = Some 0"
    "Page_new 1 = Some q" "page_wf q" "get_page_id q = Some 1"
    by (metis Page_new_ok)
  then have "spec_allows_all (bp_free bp) (\<lambda>_. []) ?es" using bp(4) by (simp add: PageFrameId_new_def)
  from pool_refines_lists [OF posix_mem_ok bp(2) rep this] bp(1) show ?thesis
    by (auto simp: PageFrameId_new_def)
qed

lemma flush_reopen:
  assumes px: "posix_ok ps content" and ok: "bp_ok content bp" and dist: "distinct (map fst (disk (cfc bp)))"
    and temp: "\<forall>c. \<not> temp_container bp c"
  obtains q cat bp' where "bp_flush_all ps bp = Some (q, Inr ())" "bp_ok content q" "bp_page content q = bp_page content bp"
    "ContainerFileCatalog_new ps (disk (cfc q)) rm = Some cat"
    "BufferPool_new en (length (frames bp)) cat = Some bp'" "pool_ok content bp'" "bp_page content bp' = bp_page content bp"
    "\<forall>c. map_of (containers cat) c = None \<longleftrightarrow> map_of (containers (cfc bp)) c = None" "cfc bp' = cat"
    "length (frames bp') = length (frames bp)"
proof -
  obtain q where q: "bp_flush_all ps bp = Some (q, Inr ())" "bp_ok content q" "bp_page content q = bp_page content bp"
    "containers (cfc q) = containers (cfc bp)" "length (frames q) = length (frames bp)"
    "distinct (map fst (disk (cfc bp))) \<longrightarrow> distinct (map fst (disk (cfc q)))"
    "\<forall>k. is_pkey q k \<longrightarrow> \<not> temp_container q (fst k) \<longrightarrow> disk_page content q k = bp_page content bp k"
    by (rule flush_all_ok [OF px ok])
  have "temp_container q = temp_container bp" using q(4) by (simp add: temp_container_def fun_eq_iff)
  then have "\<forall>k. is_pkey q k \<longrightarrow> disk_page content q k = bp_page content q k" using q(3,7) temp by simp
  note d = flushed_disk_ok [OF q(2) q(6) [rule_format, OF dist] this]
  have "{(c, pid). \<exists>f. map_of (disk (cfc q)) c = Some f \<and> file_page (content f) pid \<noteq> None} = dom (bp_page content q)"
    using d(2) by (auto simp: dom_def Option.bind_eq_Some_conv)
  then have card: "card {(c, pid). \<exists>f. map_of (disk (cfc q)) c = Some f \<and> file_page (content f) pid \<noteq> None} \<le> length (frames bp)"
    using bp_okD(10) [OF q(2)] q(5) by (simp add: pkeys_dom [OF q(2)])
  obtain cat bp' where r: "ContainerFileCatalog_new ps (disk (cfc q)) rm = Some cat"
    "BufferPool_new en (length (frames bp)) cat = Some bp'" "bp_ok content bp'"
    "\<forall>k. bp_page content bp' k = Option.bind (map_of (disk (cfc q)) (fst k)) (\<lambda>f. file_page (content f) (snd k))"
    "cfc bp' = cat" "length (frames bp') = length (frames bp)"
    "\<forall>c. map_of (containers cat) c = None \<longleftrightarrow> map_of (disk (cfc q)) c = None"
    "\<forall>j<length (frames bp). key (frames bp' ! j) = None \<and> slice (data (page (frames bp' ! j))) 16 8 = replicate 8 0"
    by (rule reopen_ok [OF px d(1) bp_okD(2) [OF ok] card])
  have "map_of (disk (cfc q)) c = None \<longleftrightarrow> map_of (containers (cfc bp)) c = None" for c
    using bp_okD(3) [OF q(2)] q(4) by (fastforce simp: cat_ok_def)
  moreover have "bp_page content bp' = bp_page content bp" using r(4) d(2) q(3) by (metis ext)
  moreover have "pool_ok content bp'" using r(3,6,8) by (simp add: pool_ok_def clean_empty_def)
  ultimately show thesis using that [OF q(1-3) r(1,2)] r(5-7) by simp
qed

text \<open>C10: After \<open>flush_all\<close> every page is in the files: a pool opened on the same directory has exactly the
  pages the flushed pool had, when no container is temporary.\<close>

theorem flush_all_durable:
  assumes px: "posix_ok ps content" and ok: "bp_ok content bp" and dist: "distinct (map fst (disk (cfc bp)))"
    and temp: "\<forall>c. \<not> temp_container bp c"
  shows "\<exists>q cat bp'. bp_flush_all ps bp = Some (q, Inr ()) \<and> bp_ok content q \<and> bp_page content q = bp_page content bp \<and>
    ContainerFileCatalog_new ps (disk (cfc q)) rm = Some cat \<and>
    BufferPool_new en (length (frames bp)) cat = Some bp' \<and> bp_ok content bp' \<and> bp_page content bp' = bp_page content bp"
proof -
  obtain q cat bp' where "bp_flush_all ps bp = Some (q, Inr ())" "bp_ok content q" "bp_page content q = bp_page content bp"
    "ContainerFileCatalog_new ps (disk (cfc q)) rm = Some cat"
    "BufferPool_new en (length (frames bp)) cat = Some bp'" "pool_ok content bp'" "bp_page content bp' = bp_page content bp"
    by (rule flush_reopen [OF px ok dist temp])
  then show ?thesis by (auto simp: pool_ok_def)
qed

theorem flush_all_durable_witness:
  "\<exists>cat bp q cat' bp'. ContainerFileCatalog_new posix_mem [(7, data (the (Page_new 0)))] False = Some cat \<and>
     BufferPool_new some_env 2 cat = Some bp \<and> bp_flush_all posix_mem bp = Some (q, Inr ()) \<and>
     ContainerFileCatalog_new posix_mem (disk (cfc q)) True = Some cat' \<and> BufferPool_new some_env 2 cat' = Some bp' \<and>
     bp_page (\<lambda>f. f) bp' = bp_page (\<lambda>f. f) bp"
proof -
  obtain p where p: "Page_new 0 = Some p" "page_wf p" "get_page_id p = Some 0" by (rule Page_new_ok)
  let ?d = "[(7, data p)] :: (ContainerId \<times> bytes) list"
  have len: "length (data p) = 4096" using p(2) by (simp add: page_wf_def)
  then have fp: "file_page (data p) pid = (if pid = 0 then Some p else None)" for pid
    by (cases "unat pid") (auto simp: file_page_def slice_def unat_eq_0)
  have dk: "disk_ok (\<lambda>f. f) ?d" using len fp p(3) by (auto simp: disk_ok_def intro!: exI [of _ 1])
  have "{(c, pid). \<exists>f. map_of ?d c = Some f \<and> file_page f pid \<noteq> None} = {(7, 0)}"
    using fp by (auto split: if_splits)
  then have card: "card {(c, pid). \<exists>f. map_of ?d c = Some f \<and> file_page f pid \<noteq> None} \<le> 2"
    by (simp only: card.insert finite.emptyI empty_iff card.empty) simp
  have two: "(2 :: nat) < 2 ^ 32" by simp
  obtain cat bp where cb: "ContainerFileCatalog_new posix_mem ?d False = Some cat"
    "BufferPool_new some_env 2 cat = Some bp" "bp_ok (\<lambda>f. f) bp"
    by (rule reopen_ok [OF posix_mem_ok dk two card])
  have "disk cat = ?d" "\<forall>c con. map_of (containers cat) c = Some con \<longrightarrow> \<not> is_temp con"
    using cb(1) by (auto simp: ContainerFileCatalog_new_def Container_new_def bind_eq_Some_conv split: if_splits)
  moreover have fr: "cfc bp = cat" "length (frames bp) = 2"
    using cb(2) new_frames_ok [of "[0..<2]"] by (auto simp: BufferPool_new_def bind_eq_Some_conv)
  ultimately have "distinct (map fst (disk (cfc bp)))" "\<forall>c. \<not> temp_container bp c"
    by (simp_all add: temp_container_def split: option.split)
  from flush_all_durable [OF posix_mem_ok cb(3) this, of True some_env] cb p(1) fr(2) show ?thesis by auto
qed

lemma no_victim:
  assumes "eviction_hints bp = []"
  shows "choose_victim bp = Some (bp, None)"
proof -
  have "bp\<lparr>eviction_hints := []\<rparr> = bp" using assms by auto
  then show ?thesis using assms by (simp add: choose_victim_def choose_eviction_candidate_def Let_def)
qed

lemma shared_released: "bp_latch bp = 0 \<Longrightarrow> bp_release_shared (bp\<lparr>bp_latch := 1\<rparr>) = bp"
  by (auto simp: bp_release_shared_def)

end
