(* ===== verification/NoEviction.thy ===== *)
theory NoEviction
  imports BufferPoolProps
begin

text \<open>
  What the buffer pool does when its frames are used up, \<open>heapstore/src/buffer_pool/buffer_pool.rs\<close>. A pool is followed
  from \<open>BufferPool_new\<close> through any sequence of page accesses, failed ones included, with no bound on the number of
  pages. The hints only name empty frames then, so a victim never holds a page.
\<close>

section \<open>Victims are empty frames\<close>

definition hints_free :: "'f BufferPool \<Rightarrow> bool" where
  "hints_free bp \<longleftrightarrow> bp_latch bp = 0 \<and> distinct (eviction_hints bp) \<and>
     (\<forall>j\<in>set (eviction_hints bp). j < length (frames bp) \<and> key (frames bp ! j) = None)"

definition unlatched :: "'f BufferPool \<Rightarrow> bool" where
  "unlatched bp \<longleftrightarrow> (\<forall>j<length (frames bp). latch (frames bp ! j) = 0)"

definition latched_at :: "int \<Rightarrow> nat \<Rightarrow> 'f BufferPool \<Rightarrow> bool" where
  "latched_at l i bp \<longleftrightarrow> i < length (frames bp) \<and> latch (frames bp ! i) = l \<and>
     (\<forall>j<length (frames bp). j \<noteq> i \<longrightarrow> latch (frames bp ! j) = 0)"

definition resident_kept :: "'f BufferPool \<Rightarrow> 'f BufferPool \<Rightarrow> bool" where
  "resident_kept bp q \<longleftrightarrow> length (frames q) = length (frames bp) \<and>
     (\<forall>j<length (frames bp). key (frames bp ! j) \<noteq> None \<longrightarrow> key (frames q ! j) = key (frames bp ! j))"

text \<open>The state after a call: a guard with latch value \<open>l\<close> is held, or no latch.\<close>

definition after_call :: "'f BufferPool \<Rightarrow> int \<Rightarrow> 'f BufferPool \<Rightarrow> MemPoolStatus + nat \<Rightarrow> bool" where
  "after_call bp l q r \<longleftrightarrow> hints_free q \<and> resident_kept bp q \<and>
     (case r of Inl _ \<Rightarrow> unlatched q | Inr i \<Rightarrow> latched_at l i q)"

lemmas call_defs = hints_free_def unlatched_def latched_at_def resident_kept_def after_call_def

lemma choose_victim_cases:
  assumes "hints_free bp" and "unlatched bp"
  obtains (none) "eviction_hints bp = []" "choose_victim bp = Some (bp, None)"
    | (hint) i hs where "eviction_hints bp = i # hs" "i < length (frames bp)" "key (frames bp ! i) = None"
        "latch (frames bp ! i) = 0" "i \<notin> set hs"
        "choose_victim bp = Some (bp\<lparr>frames := (frames bp)[i := (frames bp ! i)\<lparr>latch := - 1\<rparr>], eviction_hints := hs\<rparr>, Some i)"
proof (cases "eviction_hints bp")
  case Nil
  then show ?thesis using none no_victim by blast
next
  case (Cons i hs)
  then have "i < length (frames bp)" "key (frames bp ! i) = None" "latch (frames bp ! i) = 0" "i \<notin> set hs"
    using assms by (simp_all add: call_defs)
  then show ?thesis using hint [OF Cons] choose_victim_hint [OF Cons] by blast
qed

lemma create_call:
  assumes inv: "hints_free bp" "unlatched bp" and run: "bp_create_new_page_for_write ps bp c = Some (q, r)"
  shows "after_call bp (- 1) q r"
proof (rule choose_victim_cases [OF inv])
  assume "eviction_hints bp = []" "choose_victim bp = Some (bp, None)"
  then have "q = bp" "r = Inl CannotEvictPage" using run by (simp_all add: bp_create_new_page_for_write_def)
  then show ?thesis using inv by (simp add: after_call_def resident_kept_def)
next
  fix i hs
  assume h: "eviction_hints bp = i # hs" "i < length (frames bp)" "key (frames bp ! i) = None" "latch (frames bp ! i) = 0" "i \<notin> set hs"
    and v: "choose_victim bp = Some (bp\<lparr>frames := (frames bp)[i := (frames bp ! i)\<lparr>latch := - 1\<rparr>], eviction_hints := hs\<rparr>, Some i)"
  let ?v = "bp\<lparr>frames := (frames bp)[i := (frames bp ! i)\<lparr>latch := - 1\<rparr>], eviction_hints := hs\<rparr>"
  have w: "write_victim_to_disk_if_dirty_w ps ?v i = Some (?v, Inr ())" by (rule write_victim_empty) (use h in simp_all)
  have l: "bp_latch bp = 0" using inv(1) by (simp add: hints_free_def)
  obtain pg k where "frames q = (frames bp)[i := (frames bp ! i)\<lparr>latch := - 1, page := pg, key := Some k, is_dirty := True\<rparr>]"
    "eviction_hints q = hs" "bp_latch q = 0" "r = Inr i"
    using run v w h l by (auto simp: bp_create_new_page_for_write_def bp_exclusive_def forget_old_def bind_page_def
        bp_release_exclusive_def bind_eq_Some_conv split: prod.splits)
  then show ?thesis using h inv by (auto simp: call_defs nth_list_update)
qed

lemma load_call:
  assumes i: "i < length (frames b)" "key (frames b ! i) = None" and run: "load_victim ps b k i = Some (q, r)"
  obtains pg e where "eviction_hints q = eviction_hints b" "bp_latch q = 0"
    "frames q = (frames b)[i := (case r of Inl _ \<Rightarrow> write_guard_drop ((frames b ! i)\<lparr>page := pg\<rparr>)
       | Inr _ \<Rightarrow> (frames b ! i)\<lparr>page := pg, key := Some k, evict_info := e\<rparr>)]"
proof -
  obtain m cat con pg r0 where c: "ptf_insert (page_to_frame b) k (unat (frame_id (frames b ! i))) = Some m"
    "get_container ps (cfc b) (fst k) = Some (cat, con)"
    "container_read_page ps cat (fst k) (snd k) (page (frames b ! i)) = Some (pg, r0)"
    using run i(2) by (auto simp: load_victim_def forget_old_def bind_page_def bp_release_exclusive_def bind_eq_Some_conv Let_def)
  show thesis
  proof (cases r0)
    case (Inl e)
    then show ?thesis
      using run i c that [of pg undefined]
      by (auto simp: load_victim_def forget_old_def bind_page_def bp_release_exclusive_def)
  next
    case (Inr x)
    then show ?thesis
      using run i c that [of pg "evict_info (frames q ! i)"]
      by (auto simp: load_victim_def forget_old_def bind_page_def bp_release_exclusive_def)
  qed
qed

lemma victim_loaded:
  assumes h: "eviction_hints bp = i # hs" "i < length (frames bp)" "key (frames bp ! i) = None" "i \<notin> set hs"
    and inv: "hints_free bp" "unlatched bp" and q: "eviction_hints q = hs" "bp_latch q = 0" "frames q = (frames bp)[i := fr]"
  shows "latch fr = 0 \<Longrightarrow> key fr = None \<Longrightarrow> after_call bp l q (Inl e)" "latch fr = l \<Longrightarrow> after_call bp l q (Inr i)"
  using h inv q by (auto simp: call_defs nth_list_update)

lemma load_call':
  assumes h: "eviction_hints bp = i # hs" "i < length (frames bp)" "key (frames bp ! i) = None" "i \<notin> set hs"
    and inv: "hints_free bp" "unlatched bp"
    and u: "load_victim ps (bp\<lparr>frames := (frames bp)[i := (frames bp ! i)\<lparr>latch := - 1\<rparr>], eviction_hints := hs, bp_latch := - 1\<rparr>) k i =
      Some (u, r)"
  obtains (failed) e where "r = Inl e" "after_call bp l u (Inl e)"
    | (loaded) fr where "r = Inr ()" "eviction_hints u = hs" "bp_latch u = 0" "frames u = (frames bp)[i := fr]" "latch fr = - 1"
proof (rule load_call [OF _ _ u])
  let ?b = "bp\<lparr>frames := (frames bp)[i := (frames bp ! i)\<lparr>latch := - 1\<rparr>], eviction_hints := hs, bp_latch := - 1\<rparr>"
  fix pg e
  assume a: "eviction_hints u = eviction_hints ?b" "bp_latch u = 0"
    "frames u = (frames ?b)[i := (case r of Inl _ \<Rightarrow> write_guard_drop ((frames ?b ! i)\<lparr>page := pg\<rparr>)
       | Inr _ \<Rightarrow> (frames ?b ! i)\<lparr>page := pg, key := Some k, evict_info := e\<rparr>)]"
  show thesis
  proof (cases r)
    case (Inl x)
    then show ?thesis
      by (rule failed) (rule victim_loaded(1) [OF h inv, where fr = "(frames bp ! i)\<lparr>page := pg, latch := 0\<rparr>"], use a h Inl in \<open>simp_all add: write_guard_drop_def\<close>)
  qed (use a h loaded in auto)
qed (use h in simp_all)

lemma resident_latched:
  assumes inv: "hints_free bp" "unlatched bp" and i: "i < length (frames bp)"
    and q: "eviction_hints q = eviction_hints bp" "bp_latch q = 0" "frames q = (frames bp)[i := fr]" "latch fr = l" "key fr = key (frames bp ! i)"
  shows "after_call bp l q (Inr i)"
  using assms by (auto simp: call_defs nth_list_update)

lemma write_call:
  assumes inv: "hints_free bp" "unlatched bp" and run: "bp_get_page_for_write ps bp pk = Some (q, r)"
  shows "after_call bp (- 1) q r"
proof (cases "ptf_get (page_to_frame bp) (p_key pk)")
  case (Some i)
  have l: "bp_latch bp = 0" using inv(1) by (simp add: hints_free_def)
  have i: "i < length (frames bp)"
    using run Some l by (auto simp: bp_get_page_for_write_def bp_shared_def bind_eq_Some_conv index_def split: if_splits)
  then have "latch (frames bp ! i) = 0" using inv(2) by (simp add: unlatched_def)
  then obtain e where "eviction_hints q = eviction_hints bp" "bp_latch q = 0" "r = Inr i"
    "frames q = (frames bp)[i := (frames bp ! i)\<lparr>latch := - 1, is_dirty := True, evict_info := e\<rparr>]"
    using run Some l i by (auto simp: bp_get_page_for_write_def bp_shared_def index_def frame_try_write_def)
  then show ?thesis using resident_latched [OF inv i, of q _ "- 1"] by simp
next
  case None
  have l: "bp_latch bp = 0" using inv(1) by (simp add: hints_free_def)
  show ?thesis
  proof (rule choose_victim_cases [OF inv])
    assume "eviction_hints bp = []" "choose_victim bp = Some (bp, None)"
    then have "q = bp" "r = Inl CannotEvictPage" using run None l by (simp_all add: bp_get_page_for_write_def bp_shared_free shared_released)
    then show ?thesis using inv by (simp add: after_call_def resident_kept_def)
  next
    fix i hs
    assume h: "eviction_hints bp = i # hs" "i < length (frames bp)" "key (frames bp ! i) = None" "latch (frames bp ! i) = 0" "i \<notin> set hs"
      and v: "choose_victim bp = Some (bp\<lparr>frames := (frames bp)[i := (frames bp ! i)\<lparr>latch := - 1\<rparr>], eviction_hints := hs\<rparr>, Some i)"
    let ?v = "bp\<lparr>frames := (frames bp)[i := (frames bp ! i)\<lparr>latch := - 1\<rparr>], eviction_hints := hs\<rparr>"
    have w: "write_victim_to_disk_if_dirty_w ps ?v i = Some (?v, Inr ())" by (rule write_victim_empty) (use h in simp_all)
    obtain u r' where u: "load_victim ps (?v\<lparr>bp_latch := - 1\<rparr>) (p_key pk) i = Some (u, r')"
      "(q, r) = (case r' of Inl e \<Rightarrow> (u, Inl e) | Inr _ \<Rightarrow> (upd_frame u i (\<lambda>fr. fr\<lparr>is_dirty := True\<rparr>), Inr i))"
      using run None l v w
      by (auto simp: bp_get_page_for_write_def bp_shared_free shared_released bp_exclusive_free bind_eq_Some_conv unwrap_def
          and_then_def split: if_splits option.splits sum.splits prod.splits)
    show ?thesis
      by (rule load_call' [OF h(1-3,5) inv u(1), where l = "- 1"])
        (use u(2) victim_loaded(2) [OF h(1-3,5) inv] h(2) in auto)
  qed
qed

lemma read_call:
  assumes inv: "hints_free bp" "unlatched bp" and run: "bp_get_page_for_read ps bp pk = Some (q, r)"
  shows "after_call bp 1 q r"
proof (cases "ptf_get (page_to_frame bp) (p_key pk)")
  case (Some i)
  have l: "bp_latch bp = 0" using inv(1) by (simp add: hints_free_def)
  have i: "i < length (frames bp)"
    using run Some l by (auto simp: bp_get_page_for_read_def bp_shared_def bind_eq_Some_conv index_def split: if_splits)
  then have "latch (frames bp ! i) = 0" using inv(2) by (simp add: unlatched_def)
  then obtain e where "eviction_hints q = eviction_hints bp" "bp_latch q = 0" "r = Inr i"
    "frames q = (frames bp)[i := (frames bp ! i)\<lparr>latch := 1, evict_info := e\<rparr>]"
    using run Some l i by (auto simp: bp_get_page_for_read_def bp_shared_def index_def frame_try_read_def)
  then show ?thesis using resident_latched [OF inv i, of q _ 1] by simp
next
  case None
  have l: "bp_latch bp = 0" using inv(1) by (simp add: hints_free_def)
  show ?thesis
  proof (rule choose_victim_cases [OF inv])
    assume "eviction_hints bp = []" "choose_victim bp = Some (bp, None)"
    then have "q = bp" "r = Inl CannotEvictPage" using run None l by (simp_all add: bp_get_page_for_read_def bp_shared_free shared_released)
    then show ?thesis using inv by (simp add: after_call_def resident_kept_def)
  next
    fix i hs
    assume h: "eviction_hints bp = i # hs" "i < length (frames bp)" "key (frames bp ! i) = None" "latch (frames bp ! i) = 0" "i \<notin> set hs"
      and v: "choose_victim bp = Some (bp\<lparr>frames := (frames bp)[i := (frames bp ! i)\<lparr>latch := - 1\<rparr>], eviction_hints := hs\<rparr>, Some i)"
    let ?v = "bp\<lparr>frames := (frames bp)[i := (frames bp ! i)\<lparr>latch := - 1\<rparr>], eviction_hints := hs\<rparr>"
    have w: "write_victim_to_disk_if_dirty_w ps ?v i = Some (?v, Inr ())" by (rule write_victim_empty) (use h in simp_all)
    obtain u r' where u: "load_victim ps (?v\<lparr>bp_latch := - 1\<rparr>) (p_key pk) i = Some (u, r')"
      "Some (q, r) = (case r' of Inl e \<Rightarrow> Some (u, Inl e)
         | Inr _ \<Rightarrow> do { fr \<leftarrow> guard_downgrade (frames u ! i); Some (u\<lparr>frames := (frames u)[i := fr]\<rparr>, Inr i) })"
      using run None l v w
      by (auto simp: bp_get_page_for_read_def bp_shared_free shared_released bp_exclusive_free bind_eq_Some_conv unwrap_def
          and_then_def split: if_splits option.splits sum.splits prod.splits)
    show ?thesis
      by (rule load_call' [OF h(1-3,5) inv u(1), where l = 1])
        (use u(2) victim_loaded(2) [OF h(1-3,5) inv] h(2) in \<open>auto simp: guard_downgrade_def\<close>)
  qed
qed

section \<open>Sequences of accesses\<close>

lemma access_call:
  assumes inv: "hints_free bp" "unlatched bp" and run: "pool_exec (bp_pool ps) bp e = Some (q, r)"
  shows "hints_free q \<and> unlatched q \<and> resident_kept bp q"
proof -
  have put: "hints_free (upd_frame u i g) \<and> unlatched (upd_frame u i g) \<and> resident_kept bp (upd_frame u i g)"
    if "after_call bp l u (Inr i)" "latch (g (frames u ! i)) = 0" "key (g (frames u ! i)) = key (frames u ! i)" for u i l g
    using that by (auto simp: call_defs nth_list_update)
  have err: "hints_free u \<and> unlatched u \<and> resident_kept bp u" if "after_call bp l u (Inl x)" for u l x
    using that by (simp add: after_call_def)
  have at: "latch (frames u ! i) = l" "i < length (frames u)" if "after_call bp l u (Inr i)" for u i l
    using that by (simp_all add: after_call_def latched_at_def)
  have upd2: "upd_frame (upd_frame u i f) i g = upd_frame u i (\<lambda>fr. g (f fr))" if "i < length (frames u)" for u :: "'a BufferPool" and i f g
    using that by (simp add: upd_frame_def)
  show ?thesis
  proof (cases e)
    case (PRead pk)
    obtain u r' where u: "bp_get_page_for_read ps bp pk = Some (u, r')"
      using run PRead by (cases "bp_get_page_for_read ps bp pk") (auto simp: bp_pool_def)
    note c = read_call [OF inv u]
    show ?thesis
      by (cases r') (use run PRead u c put [where g = read_guard_drop] err at in \<open>auto simp: bp_pool_def read_guard_drop_def\<close>)
  next
    case (PWrite pk pg)
    obtain u r' where u: "bp_get_page_for_write ps bp pk = Some (u, r')"
      using run PWrite by (cases "bp_get_page_for_write ps bp pk") (auto simp: bp_pool_def)
    note c = write_call [OF inv u]
    show ?thesis
      by (cases r') (use run PWrite u c put [where g = "\<lambda>fr. write_guard_drop (fr\<lparr>page := pg\<rparr>)"] err at upd2 in
          \<open>auto simp: bp_pool_def write_guard_drop_def\<close>)
  next
    case (PCreate c pg)
    obtain u r' where u: "bp_create_new_page_for_write ps bp c = Some (u, r')"
      using run PCreate by (cases "bp_create_new_page_for_write ps bp c") (auto simp: bp_pool_def)
    note c = create_call [OF inv u]
    show ?thesis
      by (cases r') (use run PCreate u c put [where g = "\<lambda>fr. write_guard_drop (fr\<lparr>page := pg\<rparr>)"] err at upd2 in
          \<open>auto simp: bp_pool_def write_guard_drop_def\<close>)
  qed
qed

text \<open>The pools that accesses lead to, whatever they return.\<close>

inductive accessed :: "'f posix \<Rightarrow> 'f BufferPool \<Rightarrow> 'f BufferPool \<Rightarrow> bool" for ps bp where
  none: "accessed ps bp bp"
| access: "accessed ps bp p \<Longrightarrow> pool_exec (bp_pool ps) p e = Some (q, r) \<Longrightarrow> accessed ps bp q"

lemma accessed_keeps:
  "accessed ps bp q \<Longrightarrow> hints_free bp \<Longrightarrow> unlatched bp \<Longrightarrow> hints_free q \<and> unlatched q \<and> resident_kept bp q"
proof (induction rule: accessed.induct)
  case (access p e q r)
  then show ?case using access_call [OF _ _ access.hyps(2)] by (simp add: resident_kept_def)
qed (simp add: resident_kept_def)

lemma new_pool_free:
  assumes "BufferPool_new en n cat = Some bp"
  shows "hints_free bp" "unlatched bp" "length (frames bp) = n"
proof -
  obtain frs where frs: "new_frames [0..<n] = Some frs" "length frs = n" "\<forall>j<n. latch (frs ! j) = 0 \<and> key (frs ! j) = None"
    using new_frames_ok [of "[0..<n]"] by auto
  have bp: "bp = \<lparr>cfc = cat, bp_latch = RwLatch_default, eviction_hints = [0..<n], frames = frs, page_to_frame = [], env = en\<rparr>"
    using assms frs(1) by (simp add: BufferPool_new_def)
  show "hints_free bp" "unlatched bp" "length (frames bp) = n"
    using bp frs(2,3) by (auto simp: call_defs RwLatch_default_def)
qed

lemma no_hints_refused:
  assumes "eviction_hints bp = []" and "bp_latch bp = 0"
  shows "bp_create_new_page_for_write ps bp c = Some (bp, Inl CannotEvictPage)"
    "ptf_get (page_to_frame bp) (p_key pk) = None \<Longrightarrow> bp_get_page_for_write ps bp pk = Some (bp, Inl CannotEvictPage)"
    "ptf_get (page_to_frame bp) (p_key pk) = None \<Longrightarrow> bp_get_page_for_read ps bp pk = Some (bp, Inl CannotEvictPage)"
  using assms no_victim [OF assms(1)]
  by (simp_all add: bp_create_new_page_for_write_def bp_get_page_for_write_def bp_get_page_for_read_def
      bp_shared_free shared_released)

section \<open>Property\<close>

text \<open>C11: The buffer pool never evicts: while no container is dropped and the pool is not reset, a frame that holds a
  page holds that page after every further read, write or allocation, whatever they return. Once every frame holds a
  page, each new page and each page that is not in memory is refused with \<open>CannotEvictPage\<close> and the pool is unchanged.\<close>

theorem full_pool_cannot_evict:
  assumes "BufferPool_new en n cat = Some bp0" and "accessed ps bp0 bp"
  shows "(\<forall>q i. accessed ps bp q \<and> i < n \<and> key (frames bp ! i) \<noteq> None \<longrightarrow> key (frames q ! i) = key (frames bp ! i)) \<and>
    ((\<forall>i<n. key (frames bp ! i) \<noteq> None) \<longrightarrow>
       (\<forall>c. bp_create_new_page_for_write ps bp c = Some (bp, Inl CannotEvictPage)) \<and>
       (\<forall>pk. ptf_get (page_to_frame bp) (p_key pk) = None \<longrightarrow>
          bp_get_page_for_write ps bp pk = Some (bp, Inl CannotEvictPage) \<and>
          bp_get_page_for_read ps bp pk = Some (bp, Inl CannotEvictPage)))"
proof -
  note b0 = new_pool_free [OF assms(1)]
  have b: "hints_free bp" "unlatched bp" "length (frames bp) = n"
    using accessed_keeps [OF assms(2) b0(1,2)] b0(3) by (simp_all add: resident_kept_def)
  have "eviction_hints bp = []" if "\<forall>i<n. key (frames bp ! i) \<noteq> None"
    using that b(1,3) by (cases "eviction_hints bp") (auto simp: hints_free_def)
  moreover have "bp_latch bp = 0" using b(1) by (simp add: hints_free_def)
  moreover have "resident_kept bp q" if "accessed ps bp q" for q using accessed_keeps [OF that b(1,2)] by blast
  ultimately show ?thesis using b(3) no_hints_refused [of bp] by (simp add: resident_kept_def)
qed

text \<open>A pool of one frame in which one page was created.\<close>

lemma one_frame_taken:
  "\<exists>bp0 bp :: bytes BufferPool. BufferPool_new some_env 1 no_files = Some bp0 \<and> accessed posix_mem bp0 bp \<and>
     (\<forall>i<1. key (frames bp ! i) = Some (7, 0))"
proof -
  obtain bp0 where b: "BufferPool_new some_env 1 no_files = Some bp0" "pool_ok (\<lambda>f. f) bp0" "length (frames bp0) = 1"
    "bp_free bp0 = 1" "cfc bp0 = no_files"
    using empty_pool [of 1 "\<lambda>f. f"] by auto
  have np: "next_page bp0 7 0" using b(5) by (simp add: next_page_def no_files_def)
  have card: "card {x. is_pkey bp0 x} < length (frames bp0)" using b(3,4) unfolding bp_free_def by linarith
  obtain q i where q: "bp_create_new_page_for_write posix_mem bp0 7 = Some (q, Inr i)" "created (\<lambda>f. f) bp0 (7, 0) q i"
    by (rule create_new_page_ok [OF posix_mem_ok _ card np]) (use b(2) in \<open>auto simp: pool_ok_def\<close>)
  let ?q = "mp_put (bp_pool posix_mem) q i (page (frames q ! i))"
  have "pool_exec (bp_pool posix_mem) bp0 (PCreate 7 (page (frames q ! i))) = Some (?q, Inr (page (frames q ! i)))"
    using q(1) by (simp add: bp_pool_def)
  then have "accessed posix_mem bp0 ?q" using accessed.access [OF accessed.none] by blast
  moreover have "key (frames ?q ! 0) = Some (7, 0)"
    using q(2) b(3) by (cases i) (auto simp: created_def bp_pool_def write_guard_drop_def)
  ultimately show ?thesis using b(1) by auto
qed

theorem full_pool_cannot_evict_witness:
  "\<exists>bp0 bp :: bytes BufferPool. BufferPool_new some_env 1 no_files = Some bp0 \<and> accessed posix_mem bp0 bp \<and>
     key (frames bp ! 0) = Some (7, 0) \<and> bp_create_new_page_for_write posix_mem bp 3 = Some (bp, Inl CannotEvictPage)"
proof -
  obtain bp0 bp :: "bytes BufferPool" where b: "BufferPool_new some_env 1 no_files = Some bp0" "accessed posix_mem bp0 bp"
    "\<forall>i<1. key (frames bp ! i) = Some (7, 0)"
    using one_frame_taken by blast
  from full_pool_cannot_evict [OF b(1,2)] b show ?thesis by auto
qed

end
