(* ===== verification/InMemPool.thy ===== *)
theory InMemPool
  imports BufferPoolProps
begin

text \<open>
  The pool that keeps every page in memory, heapstore/src/buffer_pool/in_mem_pool.rs. The vector of frames
  only grows; the two hash maps are association lists. A guard is the index of its frame.
\<close>

section \<open>State and operations\<close>

record InMemPool =
  im_latch :: RwLatch
  im_frames :: "BufferFrame list"
  im_page_to_frame :: "(ContainerPageId \<times> nat) list"
  container_page_count :: "(ContainerId \<times> u32) list"

definition InMemPool_new :: InMemPool where
  "InMemPool_new = \<lparr>im_latch = RwLatch_default, im_frames = [], im_page_to_frame = [], container_page_count = []\<rparr>"

definition im_shared :: "InMemPool \<Rightarrow> InMemPool option" where
  "im_shared m = do { l \<leftarrow> shared (im_latch m); Some (m\<lparr>im_latch := l\<rparr>) }"

definition im_exclusive :: "InMemPool \<Rightarrow> InMemPool option" where
  "im_exclusive m = do { l \<leftarrow> exclusive (im_latch m); Some (m\<lparr>im_latch := l\<rparr>) }"

definition im_release_shared :: "InMemPool \<Rightarrow> InMemPool" where
  "im_release_shared m = m\<lparr>im_latch := release_shared (im_latch m)\<rparr>"

definition im_release_exclusive :: "InMemPool \<Rightarrow> InMemPool" where
  "im_release_exclusive m = m\<lparr>im_latch := release_exclusive (im_latch m)\<rparr>"

text \<open>The entry of \<open>container_page_count\<close>: the count grows by \<open>n\<close>, with overflow check.\<close>

definition count_pages :: "InMemPool \<Rightarrow> ContainerId \<Rightarrow> u32 \<Rightarrow> (InMemPool \<times> PageId) option" where
  "count_pages m c n = (case map_of (container_page_count m) c of
     Some old \<Rightarrow> do {
       new \<leftarrow> checked_add old n;
       Some (m\<lparr>container_page_count := AList.update c new (container_page_count m)\<rparr>, old) }
   | None \<Rightarrow> Some (m\<lparr>container_page_count := AList.update c n (container_page_count m)\<rparr>, 0))"

text \<open>A new frame at the end of the vector, entered for the key.\<close>

definition push_frame :: "InMemPool \<Rightarrow> ContainerPageId \<Rightarrow> (InMemPool \<times> nat) option" where
  "push_frame m k = do {
     let i = length (im_frames m);
     fr \<leftarrow> BufferFrame_new (word_of_nat i);
     Some (m\<lparr>im_frames := im_frames m @ [fr], im_page_to_frame := AList.update k i (im_page_to_frame m)\<rparr>, i) }"

text \<open>The write guard of a new page: its latch is taken, its id written.\<close>

definition init_frame :: "InMemPool \<Rightarrow> ContainerPageId \<Rightarrow> nat \<Rightarrow> InMemPool option" where
  "init_frame m k i = do {
     fr \<leftarrow> index (im_frames m) i;
     fr \<leftarrow> frame_write True fr;
     pg \<leftarrow> set_page_id (page fr) (snd k);
     Some (m\<lparr>im_frames := (im_frames m)[i := fr\<lparr>page := pg, key := Some k\<rparr>]\<rparr>) }"

definition im_create_container :: "InMemPool \<Rightarrow> ContainerId \<Rightarrow> bool \<Rightarrow> MemPoolStatus + unit" where
  "im_create_container m c temp = Inr ()"

definition im_drop_container :: "InMemPool \<Rightarrow> ContainerId \<Rightarrow> MemPoolStatus + unit" where
  "im_drop_container m c = Inr ()"

definition im_create_new_page_for_write :: "InMemPool \<Rightarrow> ContainerId \<Rightarrow> (InMemPool, MemPoolStatus, nat) run" where
  "im_create_new_page_for_write m c = do {
     m \<leftarrow> im_exclusive m;
     (m, pid) \<leftarrow> count_pages m c 1;
     (m, i) \<leftarrow> push_frame m (c, pid);
     m \<leftarrow> init_frame m (c, pid) i;
     Some (im_release_exclusive m, Inr i) }"

primrec push_frames :: "InMemPool \<Rightarrow> ContainerId \<Rightarrow> PageId \<Rightarrow> nat list \<Rightarrow> InMemPool option" where
  "push_frames m c start [] = Some m"
| "push_frames m c start (n # ns) = do {
     pid \<leftarrow> checked_add start (word_of_nat n);
     (m, i) \<leftarrow> push_frame m (c, pid);
     push_frames m c start ns }"

primrec init_frames :: "InMemPool \<Rightarrow> ContainerId \<Rightarrow> PageId \<Rightarrow> nat list \<Rightarrow> (InMemPool \<times> nat list) option" where
  "init_frames m c start [] = Some (m, [])"
| "init_frames m c start (n # ns) = do {
     pid \<leftarrow> checked_add start (word_of_nat n);
     i \<leftarrow> map_of (im_page_to_frame m) (c, pid);
     m \<leftarrow> init_frame m (c, pid) i;
     (m, is) \<leftarrow> init_frames m c start ns;
     Some (m, i # is) }"

definition im_create_new_pages_for_write ::
  "InMemPool \<Rightarrow> ContainerId \<Rightarrow> nat \<Rightarrow> (InMemPool, MemPoolStatus, nat list) run" where
  "im_create_new_pages_for_write m c num_pages = do {
     m \<leftarrow> im_exclusive m;
     (m, start) \<leftarrow> count_pages m c (word_of_nat num_pages);
     m \<leftarrow> push_frames m c start [0..<num_pages];
     (m, guards) \<leftarrow> init_frames m c start [0..<num_pages];
     Some (im_release_exclusive m, Inr guards) }"

definition im_is_in_mem :: "InMemPool \<Rightarrow> PageFrameId \<Rightarrow> (InMemPool \<times> bool) option" where
  "im_is_in_mem m k = do {
     m \<leftarrow> im_shared m;
     let r = (map_of (im_page_to_frame m) (p_key k) \<noteq> None);
     Some (im_release_shared m, r) }"

definition im_get_max_page_id :: "InMemPool \<Rightarrow> ContainerId \<Rightarrow> PageId option" where
  "im_get_max_page_id m c = map_of (container_page_count m) c"

definition im_get_page_ids_in_mem :: "InMemPool \<Rightarrow> ContainerId \<Rightarrow> (InMemPool \<times> PageFrameId list) option" where
  "im_get_page_ids_in_mem m c = do {
     m \<leftarrow> im_shared m;
     let keys = map (\<lambda>(k, i). PageFrameId_new_with_frame_id c (snd k) (word_of_nat i))
       (filter (\<lambda>(k, i). fst k = c) (im_page_to_frame m));
     Some (im_release_shared m, keys) }"

definition im_get_page_for_write :: "InMemPool \<Rightarrow> PageFrameId \<Rightarrow> (InMemPool, MemPoolStatus, nat) run" where
  "im_get_page_for_write m k = do {
     m \<leftarrow> im_shared m;
     (case map_of (im_page_to_frame m) (p_key k) of
        None \<Rightarrow> Some (im_release_shared m, Inl PageNotFound)
      | Some i \<Rightarrow> do {
          fr \<leftarrow> index (im_frames m) i;
          let (fr, ok) = frame_try_write True fr;
          let m = im_release_shared (m\<lparr>im_frames := (im_frames m)[i := fr]\<rparr>);
          Some (m, if ok then Inr i else Inl FrameWriteLatchGrantFailed) }) }"

definition im_get_page_for_read :: "InMemPool \<Rightarrow> PageFrameId \<Rightarrow> (InMemPool, MemPoolStatus, nat) run" where
  "im_get_page_for_read m k = do {
     m \<leftarrow> im_shared m;
     (case map_of (im_page_to_frame m) (p_key k) of
        None \<Rightarrow> Some (im_release_shared m, Inl PageNotFound)
      | Some i \<Rightarrow> do {
          fr \<leftarrow> index (im_frames m) i;
          (fr, ok) \<leftarrow> frame_try_read fr;
          let m = im_release_shared (m\<lparr>im_frames := (im_frames m)[i := fr]\<rparr>);
          Some (m, if ok then Inr i else Inl FrameReadLatchGrantFailed) }) }"

definition im_prefetch_page :: "InMemPool \<Rightarrow> PageFrameId \<Rightarrow> MemPoolStatus + unit" where
  "im_prefetch_page m k = Inr ()"

definition im_reset :: "InMemPool \<Rightarrow> (InMemPool, MemPoolStatus, unit) run" where
  "im_reset m = do {
     m \<leftarrow> im_exclusive m;
     let m = m\<lparr>im_frames := [], im_page_to_frame := [], container_page_count := []\<rparr>;
     Some (im_release_exclusive m, Inr ()) }"

definition im_flush_all :: "InMemPool \<Rightarrow> MemPoolStatus + unit" where
  "im_flush_all m = Inr ()"

definition im_fast_evict :: "InMemPool \<Rightarrow> u32 \<Rightarrow> MemPoolStatus + unit" where
  "im_fast_evict m fid = Inr ()"

text \<open>The pool as the methods its clients call.\<close>

definition im_pool :: "InMemPool mem_pool_ops" where
  "im_pool = \<lparr>mp_create = im_create_new_page_for_write, mp_write = im_get_page_for_write, mp_read = im_get_page_for_read,
     mp_max_page_id = im_get_max_page_id, mp_page = (\<lambda>m i. page (im_frames m ! i)),
     mp_set_page = (\<lambda>m i pg. m\<lparr>im_frames := (im_frames m)[i := (im_frames m ! i)\<lparr>page := pg\<rparr>]\<rparr>),
     mp_drop_write = (\<lambda>m i. m\<lparr>im_frames := (im_frames m)[i := write_guard_drop (im_frames m ! i)]\<rparr>),
     mp_drop_read = (\<lambda>m i. m\<lparr>im_frames := (im_frames m)[i := read_guard_drop (im_frames m ! i)]\<rparr>)\<rparr>"

section \<open>The invariant\<close>

text \<open>Every frame holds a page with its key and id, the map finds exactly these, and the keys of a container
  are the page ids below its count. No latch is held between calls.\<close>

definition im_frame_ok :: "BufferFrame \<Rightarrow> bool" where
  "im_frame_ok fr \<longleftrightarrow> latch fr = 0 \<and> page_wf (page fr) \<and>
     (case key fr of None \<Rightarrow> False | Some k \<Rightarrow> get_page_id (page fr) = Some (snd k))"

definition im_ok :: "InMemPool \<Rightarrow> bool" where
  "im_ok m \<longleftrightarrow> im_latch m = 0 \<and>
     (\<forall>k i. map_of (im_page_to_frame m) k = Some i \<longleftrightarrow> i < length (im_frames m) \<and> key (im_frames m ! i) = Some k) \<and>
     (\<forall>fr \<in> set (im_frames m). im_frame_ok fr) \<and>
     (\<forall>k. map_of (im_page_to_frame m) k \<noteq> None \<longleftrightarrow>
        (\<exists>n. map_of (container_page_count m) (fst k) = Some n \<and> snd k < n))"

definition im_page :: "InMemPool \<Rightarrow> ContainerPageId \<Rightarrow> Page option" where
  "im_page m k = map_option (\<lambda>i. page (im_frames m ! i)) (map_of (im_page_to_frame m) k)"

lemma im_okD:
  assumes "im_ok m"
  shows "im_latch m = 0"
    "\<And>k i. map_of (im_page_to_frame m) k = Some i \<longleftrightarrow> i < length (im_frames m) \<and> key (im_frames m ! i) = Some k"
    "\<And>fr. fr \<in> set (im_frames m) \<Longrightarrow> im_frame_ok fr"
    "\<And>k. map_of (im_page_to_frame m) k \<noteq> None \<longleftrightarrow>
        (\<exists>n. map_of (container_page_count m) (fst k) = Some n \<and> snd k < n)"
  using assms unfolding im_ok_def by blast+

lemma im_okI:
  assumes "im_latch m = 0"
    "\<And>k i. map_of (im_page_to_frame m) k = Some i \<longleftrightarrow> i < length (im_frames m) \<and> key (im_frames m ! i) = Some k"
    "\<And>fr. fr \<in> set (im_frames m) \<Longrightarrow> im_frame_ok fr"
    "\<And>k. map_of (im_page_to_frame m) k \<noteq> None \<longleftrightarrow>
        (\<exists>n. map_of (container_page_count m) (fst k) = Some n \<and> snd k < n)"
  shows "im_ok m"
  using assms unfolding im_ok_def by blast

lemma InMemPool_new_ok: "im_ok InMemPool_new" "im_page InMemPool_new = Map.empty"
  by (simp_all add: im_ok_def InMemPool_new_def RwLatch_default_def im_page_def fun_eq_iff)

text \<open>A frame whose page is replaced, its latch free.\<close>

lemma im_set_frame:
  assumes ok: "im_ok m" and i: "i < length (im_frames m)" "key (im_frames m ! i) = Some k"
    and fr: "key fr = Some k" "latch fr = 0" "page_wf (page fr)" "get_page_id (page fr) = Some (snd k)"
  shows "im_ok (m\<lparr>im_frames := (im_frames m)[i := fr]\<rparr>)"
    "im_page (m\<lparr>im_frames := (im_frames m)[i := fr]\<rparr>) = (im_page m)(k \<mapsto> page fr)"
proof -
  note d = im_okD [OF ok]
  have key: "key ((im_frames m)[i := fr] ! j) = key (im_frames m ! j)" if "j < length (im_frames m)" for j
    using i fr(1) that by (cases "j = i") simp_all
  show "im_ok (m\<lparr>im_frames := (im_frames m)[i := fr]\<rparr>)"
  proof (rule im_okI)
    show "im_frame_ok x" if "x \<in> set (im_frames (m\<lparr>im_frames := (im_frames m)[i := fr]\<rparr>))" for x
      using that set_update_subset_insert [of "im_frames m" i fr] d(3) fr by (auto simp: im_frame_ok_def)
  qed (use d(1,2,4) key in \<open>auto simp del: not_None_eq\<close>)
  have "map_of (im_page_to_frame m) k = Some i" using d(2) i by blast
  moreover have "map_of (im_page_to_frame m) x \<noteq> Some i" if "x \<noteq> k" for x using d(2) [of x i] i(2) that by simp
  ultimately show "im_page (m\<lparr>im_frames := (im_frames m)[i := fr]\<rparr>) = (im_page m)(k \<mapsto> page fr)"
    using i(1) by (intro ext) (auto simp: im_page_def nth_list_update map_option_case split: option.split)
qed

lemma im_fetch:
  assumes ok: "im_ok m" and pg: "im_page m (p_key pk) = Some pg"
  obtains i where "i < length (im_frames m)" "key (im_frames m ! i) = Some (p_key pk)" "page (im_frames m ! i) = pg"
    "latch (im_frames m ! i) = 0" "map_of (im_page_to_frame m) (p_key pk) = Some i"
    "page_wf pg" "get_page_id pg = Some (snd (p_key pk))"
proof -
  obtain i where i: "map_of (im_page_to_frame m) (p_key pk) = Some i" "page (im_frames m ! i) = pg"
    using pg by (auto simp: im_page_def)
  then have "i < length (im_frames m)" "key (im_frames m ! i) = Some (p_key pk)" using im_okD(2) [OF ok] by auto
  moreover from this have "im_frame_ok (im_frames m ! i)" using im_okD(3) [OF ok] by simp
  ultimately show thesis using that [of i] i by (simp add: im_frame_ok_def)
qed

lemma im_id: "im_latch m = 0 \<Longrightarrow> m\<lparr>im_latch := 0, im_frames := im_frames m\<rparr> = m" "im_latch m = 0 \<Longrightarrow> m\<lparr>im_latch := 0\<rparr> = m"
  by auto

lemma im_read_law:
  assumes ok: "im_ok m" and pg: "im_page m (p_key pk) = Some pg"
  shows "\<exists>q i. im_get_page_for_read m pk = Some (q, Inr i) \<and> page (im_frames q ! i) = pg \<and>
    im_get_max_page_id q = im_get_max_page_id m \<and> mp_drop_read im_pool q i = m"
proof -
  obtain i where i: "i < length (im_frames m)" "page (im_frames m ! i) = pg" "latch (im_frames m ! i) = 0"
    "map_of (im_page_to_frame m) (p_key pk) = Some i"
    using im_fetch [OF ok pg] by blast
  have l: "im_latch m = 0" by (rule im_okD(1) [OF ok])
  let ?q = "m\<lparr>im_latch := 0, im_frames := (im_frames m)[i := (im_frames m ! i)\<lparr>latch := 1\<rparr>]\<rparr>"
  have "im_get_page_for_read m pk = Some (?q, Inr i)"
    using i l by (simp add: im_get_page_for_read_def im_shared_def frame_try_read_def try_shared_def i16_inc_def
        im_release_shared_def)
  moreover have "mp_drop_read im_pool ?q i = m"
    using i l by (simp add: im_pool_def read_guard_drop_def latch_id im_id)
  ultimately show ?thesis using i by (intro exI [of _ ?q] exI [of _ i]) (simp add: im_get_max_page_id_def fun_eq_iff)
qed

lemma im_write_law:
  assumes ok: "im_ok m" and pg: "im_page m (p_key pk) = Some pg"
  shows "\<exists>q i. im_get_page_for_write m pk = Some (q, Inr i) \<and> page (im_frames q ! i) = pg \<and>
    (\<forall>pg'. page_wf pg' \<longrightarrow> get_page_id pg' = Some (snd (p_key pk)) \<longrightarrow>
       im_ok (mp_put im_pool q i pg') \<and> im_page (mp_put im_pool q i pg') = (im_page m)(p_key pk \<mapsto> pg') \<and>
       im_get_max_page_id (mp_put im_pool q i pg') = im_get_max_page_id m)"
proof -
  obtain i where i: "i < length (im_frames m)" "key (im_frames m ! i) = Some (p_key pk)"
    "page (im_frames m ! i) = pg" "latch (im_frames m ! i) = 0" "map_of (im_page_to_frame m) (p_key pk) = Some i"
    using im_fetch [OF ok pg] by blast
  have l: "im_latch m = 0" by (rule im_okD(1) [OF ok])
  let ?fr = "(im_frames m ! i)\<lparr>latch := - 1, is_dirty := True\<rparr>"
  let ?q = "m\<lparr>im_latch := 0, im_frames := (im_frames m)[i := ?fr]\<rparr>"
  have "im_get_page_for_write m pk = Some (?q, Inr i)"
    using i l by (simp add: im_get_page_for_write_def im_shared_def frame_try_write_def im_release_shared_def)
  moreover have "mp_put im_pool ?q i pg' = m\<lparr>im_frames := (im_frames m)[i := ?fr\<lparr>page := pg', latch := 0\<rparr>]\<rparr>" for pg'
    using i l im_id(2) [OF l] by (simp add: im_pool_def write_guard_drop_def release_exclusive_def)
  ultimately show ?thesis using i im_set_frame [OF ok i(1,2)]
    by (intro exI [of _ ?q] exI [of _ i]) (simp add: im_get_max_page_id_def fun_eq_iff)
qed

lemma im_create_law:
  assumes ok: "im_ok m" and n: "n = (case im_get_max_page_id m c of None \<Rightarrow> 0 | Some n \<Rightarrow> n)" "unat n + 1 < 2 ^ 32"
  shows "\<exists>q i. im_create_new_page_for_write m c = Some (q, Inr i) \<and> page_wf (page (im_frames q ! i)) \<and>
    get_page_id (page (im_frames q ! i)) = Some n \<and> slice (data (page (im_frames q ! i))) 16 8 = replicate 8 0 \<and>
    (\<forall>pg'. page_wf pg' \<longrightarrow> get_page_id pg' = Some n \<longrightarrow>
       im_ok (mp_put im_pool q i pg') \<and> im_page (mp_put im_pool q i pg') = (im_page m)((c, n) \<mapsto> pg') \<and>
       im_get_max_page_id (mp_put im_pool q i pg') = (im_get_max_page_id m)(c \<mapsto> n + 1))"
proof -
  note d = im_okD [OF ok]
  let ?i = "length (im_frames m)" and ?cs = "AList.update c (n + 1) (container_page_count m)"
  have n1: "unat (n + 1) = unat n + 1" using n(2) by (simp add: unat_word_ariths)
  have lt: "x < n + 1 \<longleftrightarrow> x < n \<or> x = n" for x using n1 by (auto simp: word_less_nat_alt less_Suc_eq word_unat_eq_iff)
  have cp: "count_pages (m\<lparr>im_latch := - 1\<rparr>) c 1 = Some (m\<lparr>im_latch := - 1, container_page_count := ?cs\<rparr>, n)"
    using n n1 by (auto simp: count_pages_def im_get_max_page_id_def checked_add_def split: option.splits)
  obtain p where p: "Page_new 0 = Some p" "page_wf p" "slice (data p) 16 8 = replicate 8 0" using Page_new_ok by blast
  obtain pg where pg: "set_page_id p n = Some pg" using set_page_id_Some [OF p(2)] by simp
  have pg': "page_wf pg" "get_page_id pg = Some n" "slice (data pg) 16 8 = replicate 8 0"
    using set_page_id_wf [OF p(2) pg] get_set_page_id [OF p(2) pg] set_page_id_frame [OF p(2) pg, of 16 8] p(3) by simp_all
  let ?fr = "\<lparr>frame_id = word_of_nat ?i, latch = - 1, is_dirty = True, evict_info = INITIAL_COUNTER,
    key = Some (c, n), page = pg\<rparr>"
  let ?q = "m\<lparr>container_page_count := ?cs, im_page_to_frame := AList.update (c, n) ?i (im_page_to_frame m),
    im_frames := im_frames m @ [?fr], im_latch := 0\<rparr>"
  have run: "im_create_new_page_for_write m c = Some (?q, Inr ?i)"
    using d(1) cp p(1) pg
    by (simp add: im_create_new_page_for_write_def im_exclusive_def push_frame_def BufferFrame_new_def Page_new_empty_def
        RwLatch_default_def init_frame_def frame_write_def Let_def im_release_exclusive_def release_exclusive_def)
  have new: "map_of (im_page_to_frame m) (c, n) = None"
    using d(4) [of "(c, n)"] n(1) by (cases "map_of (im_page_to_frame m) (c, n)") (auto simp: im_get_max_page_id_def)
  have cnt: "(\<exists>n'. map_of ?cs (fst k) = Some n' \<and> snd k < n') \<longleftrightarrow>
      (\<exists>n'. map_of (container_page_count m) (fst k) = Some n' \<and> snd k < n') \<or> k = (c, n)" for k
    using n(1) lt by (cases k; cases "map_of (container_page_count m) c") (auto simp: update_conv' im_get_max_page_id_def)
  {
    fix pg' assume pg': "page_wf pg'" "get_page_id pg' = Some n"
    let ?r = "mp_put im_pool ?q ?i pg'"
    have r: "im_latch ?r = 0" "container_page_count ?r = ?cs" "im_frames ?r = im_frames m @ [?fr\<lparr>page := pg', latch := 0\<rparr>]"
        "im_page_to_frame ?r = AList.update (c, n) ?i (im_page_to_frame m)"
      by (simp_all add: im_pool_def write_guard_drop_def release_exclusive_def)
    have "im_ok ?r"
    proof (rule im_okI)
      show "map_of (im_page_to_frame ?r) k = Some j \<longleftrightarrow> j < length (im_frames ?r) \<and> key (im_frames ?r ! j) = Some k" for k j
        using d(2) [of k j] new d(2) [of "(c, n)" j] by (auto simp: r update_conv' nth_append less_Suc_eq)
      show "map_of (im_page_to_frame ?r) k \<noteq> None \<longleftrightarrow>
          (\<exists>n. map_of (container_page_count ?r) (fst k) = Some n \<and> snd k < n)" for k
        unfolding r cnt d(4) [of k, symmetric] by (simp add: update_conv')
    qed (use d(3) pg' in \<open>auto simp: r im_frame_ok_def\<close>)
    moreover have "im_page ?r k = ((im_page m)((c, n) \<mapsto> pg')) k" for k
    proof (cases "map_of (im_page_to_frame m) k")
      case (Some j)
      then have "j < ?i" using d(2) by blast
      then show ?thesis using Some by (simp add: r im_page_def update_conv' nth_append)
    qed (simp add: r im_page_def update_conv')
    ultimately have "im_ok ?r \<and> im_page ?r = (im_page m)((c, n) \<mapsto> pg') \<and>
        im_get_max_page_id ?r = (im_get_max_page_id m)(c \<mapsto> n + 1)"
      by (simp add: r im_get_max_page_id_def update_conv' fun_eq_iff)
  }
  then show ?thesis using run pg' by (intro exI [of _ ?q] exI [of _ ?i]) simp
qed

text \<open>The in-memory pool satisfies the contract of \<open>MemPool\<close>, with room for any number of pages.\<close>

lemma im_mem_pool: "mem_pool im_pool im_ok im_page (\<lambda>_. n)"
proof
  show "im_page m (c, p) \<noteq> None \<longleftrightarrow> (\<exists>n. mp_max_page_id im_pool m c = Some n \<and> p < n)" if "im_ok m" for m c p
    using im_okD(4) [OF that, of "(c, p)"] by (simp add: im_page_def im_pool_def im_get_max_page_id_def)
  show "page_wf pg \<and> get_page_id pg = Some (snd k)" if "im_ok m" "im_page m k = Some pg" for m k pg
    using im_fetch [OF that(1), of "\<lparr>p_key = k, pf_frame_id = 0\<rparr>" pg] that(2) by auto
qed (use im_read_law im_write_law im_create_law in \<open>fastforce simp: im_pool_def\<close>)+

interpretation im: mem_pool im_pool im_ok im_page "\<lambda>_. 2 ^ 48"
  by (rule im_mem_pool)

section \<open>The two pools agree\<close>

text \<open>C12: The in-memory pool and the buffer pool are interchangeable: on every sequence of calls that fits into
  the frames of the buffer pool both return the same pages, and they hold the same pages at the end.\<close>

theorem pools_agree:
  assumes "posix_ok ps content" and "pool_ok content bp" and "im_ok m"
    and "represents (bp_page content bp) s" and "represents (im_page m) s" and "spec_allows_all (bp_free bp) s es"
  shows "\<exists>bp' m' rs. pool_run (bp_pool ps) bp es = Some (bp', Inr rs) \<and> pool_run im_pool m es = Some (m', Inr rs) \<and>
    bp_page content bp' = im_page m'"
proof -
  obtain bp' where b: "pool_run (bp_pool ps) bp es = Some (bp', Inr (snd (spec_run s es)))"
    "represents (bp_page content bp') (fst (spec_run s es))"
    using mem_pool.run_refines [OF bp_mem_pool [OF assms(1)] assms(2,4,6)] by blast
  obtain m' where m: "pool_run im_pool m es = Some (m', Inr (snd (spec_run s es)))"
    "represents (im_page m') (fst (spec_run s es))"
    using mem_pool.run_refines [OF im_mem_pool assms(3,5,6)] by blast
  have "bp_page content bp' = im_page m'" using b(2) m(2) by (auto simp: represents_def fun_eq_iff)
  with b(1) m(1) show ?thesis by blast
qed

theorem pools_agree_witness:
  "\<exists>bp bp' m' rs. BufferPool_new some_env 1 no_files = Some bp \<and>
     pool_run (bp_pool posix_mem) bp [PCreate 7 (the (Page_new 0)), PRead (PageFrameId_new 7 0)] = Some (bp', Inr rs) \<and>
     pool_run im_pool InMemPool_new [PCreate 7 (the (Page_new 0)), PRead (PageFrameId_new 7 0)] = Some (m', Inr rs)"
proof -
  obtain bp where bp: "BufferPool_new some_env 1 no_files = Some bp" "pool_ok (\<lambda>f. f) bp"
    "bp_page (\<lambda>f. f) bp = (\<lambda>_. None)" "bp_free bp = 1"
    using empty_pool [of 1 "\<lambda>f. f"] by auto
  obtain p where "Page_new 0 = Some p" "page_wf p" "get_page_id p = Some 0" by (rule Page_new_ok)
  then have "spec_allows_all (bp_free bp) (\<lambda>_. []) [PCreate 7 (the (Page_new 0)), PRead (PageFrameId_new 7 0)]"
    using bp(4) by (simp add: PageFrameId_new_def)
  moreover have "represents (\<lambda>_. None) (\<lambda>_. [])" by (simp add: represents_def)
  ultimately show ?thesis
    using pools_agree [OF posix_mem_ok bp(2) InMemPool_new_ok(1), of "\<lambda>_. []"] bp(1,3) InMemPool_new_ok(2) by fastforce
qed

end
