(* ===== verification/Errors.thy ===== *)
theory Errors
  imports BaseFile
begin

text \<open>The error types of common/src/error.rs, and the texts of the errors that other components print.\<close>

datatype CrustyError =
    IOError string
  | SerializationError string
  | CrustyError string
  | ValidationError string
  | ExecutionError string
  | TransactionNotActive
  | InvalidMutationError string
  | TransactionRollback u64
  | StorageError
  | ContainerDoesNotExist
  | InvalidOperation

definition c_err :: "string \<Rightarrow> CrustyError" where
  "c_err s = CrustyError s"

datatype ConversionError =
    FieldConstraintError nat string
  | PrimaryKeyViolation
  | UniqueViolation
  | TransactionViolation u64 string
  | ParseError
  | UnsupportedType
  | NullFieldNotAllowed nat
  | WrongType

text \<open>\<open>{:?}\<close> of a string quotes it and escapes quotes, backslashes and line ends.\<close>

primrec escape_str :: "string \<Rightarrow> string" where
  "escape_str [] = []"
| "escape_str (c # cs) =
     (if c = CHR 0x22 then [CHR 0x5C, CHR 0x22]
      else if c = CHR 0x5C then [CHR 0x5C, CHR 0x5C]
      else if c = CHR 0x0A then [CHR 0x5C, CHR ''n'']
      else if c = CHR 0x0D then [CHR 0x5C, CHR ''r'']
      else if c = CHR 0x09 then [CHR 0x5C, CHR ''t'']
      else [c]) @ escape_str cs"

fun status_debug :: "MemPoolStatus \<Rightarrow> string" where
  "status_debug BaseFileNotFound = ''BaseFileNotFound''"
| "status_debug (BaseFileError s) = ''BaseFileError('' @ [CHR 0x22] @ escape_str s @ [CHR 0x22] @ '')''"
| "status_debug PageNotFound = ''PageNotFound''"
| "status_debug FrameReadLatchGrantFailed = ''FrameReadLatchGrantFailed''"
| "status_debug FrameWriteLatchGrantFailed = ''FrameWriteLatchGrantFailed''"
| "status_debug CannotEvictPage = ''CannotEvictPage''"

end
