(* ===== verification/HeapFile.thy ===== *)
theory HeapFile
  imports MemPool Errors HeapPageSpec
begin

text \<open>
  The heap file, heapstore/src/heap_file.rs: the values of one container, page 0 a header page, the values
  on the pages from 1. The pool the file works on is the parameter \<open>mp\<close>, its state \<open>m\<close> is threaded
  through every call. The guard an iterator keeps is the index of its frame.
\<close>

section \<open>Operations\<close>

record HeapFile =
  hf_c_id :: ContainerId

definition hf_get_page_for_read :: "'m mem_pool_ops \<Rightarrow> 'm \<Rightarrow> HeapFile \<Rightarrow> PageId \<Rightarrow> ('m \<times> nat) option" where
  "hf_get_page_for_read mp m hf pid = unwrap (mp_read mp m (PageFrameId_new (hf_c_id hf) pid))"

definition hf_get_page_for_write :: "'m mem_pool_ops \<Rightarrow> 'm \<Rightarrow> HeapFile \<Rightarrow> PageId \<Rightarrow> ('m \<times> nat) option" where
  "hf_get_page_for_write mp m hf pid = unwrap (mp_write mp m (PageFrameId_new (hf_c_id hf) pid))"

definition HeapFile_new :: "'m mem_pool_ops \<Rightarrow> 'm \<Rightarrow> ContainerId \<Rightarrow> ('m, CrustyError, HeapFile) run" where
  "HeapFile_new mp m c = and_then (map_err (\<lambda>e. c_err (status_debug e)) (mp_create mp m c)) (\<lambda>m i.
     Some (mp_drop_write mp m i, Inr \<lparr>hf_c_id = c\<rparr>))"

definition HeapFile_load :: "ContainerId \<Rightarrow> CrustyError + HeapFile" where
  "HeapFile_load c = Inr \<lparr>hf_c_id = c\<rparr>"

definition num_pages :: "'m mem_pool_ops \<Rightarrow> 'm \<Rightarrow> HeapFile \<Rightarrow> PageId" where
  "num_pages mp m hf = (case mp_max_page_id mp m (hf_c_id hf) of None \<Rightarrow> 0 | Some n \<Rightarrow> n)"

definition get_val ::
  "'m mem_pool_ops \<Rightarrow> 'm \<Rightarrow> HeapFile \<Rightarrow> PageId \<Rightarrow> SlotId \<Rightarrow> ('m, CrustyError, bytes) run" where
  "get_val mp m hf pid sid =
     (if pid \<ge> num_pages mp m hf then Some (m, Inl (c_err ''Page not found''))
      else do {
        (m, i) \<leftarrow> hf_get_page_for_read mp m hf pid;
        v \<leftarrow> get_value (mp_page mp m i) sid;
        Some (mp_drop_read mp m i, (case v of None \<Rightarrow> Inl (c_err ''Value not found'') | Some v \<Rightarrow> Inr v)) })"

definition delete_val ::
  "'m mem_pool_ops \<Rightarrow> 'm \<Rightarrow> HeapFile \<Rightarrow> PageId \<Rightarrow> SlotId \<Rightarrow> ('m, CrustyError, unit) run" where
  "delete_val mp m hf pid sid =
     (if pid \<ge> num_pages mp m hf then Some (m, Inl (c_err ''Page not found''))
      else do {
        (m, i) \<leftarrow> hf_get_page_for_write mp m hf pid;
        (pg, r) \<leftarrow> delete_value (mp_page mp m i) sid;
        Some (mp_put mp m i pg,
          (case r of None \<Rightarrow> Inl (c_err ''Value not found or already deleted'') | Some u \<Rightarrow> Inr u)) })"

text \<open>The scan of the data pages in \<open>add_val\<close>; each write guard is dropped at the end of its iteration.\<close>

primrec add_scan ::
  "'m mem_pool_ops \<Rightarrow> 'm \<Rightarrow> HeapFile \<Rightarrow> bytes \<Rightarrow> PageId list \<Rightarrow> ('m \<times> ValueId option) option" where
  "add_scan mp m hf val [] = Some (m, None)"
| "add_scan mp m hf val (pid # pids) = do {
     (m, i) \<leftarrow> hf_get_page_for_write mp m hf pid;
     (pg, r) \<leftarrow> add_value (mp_page mp m i) val;
     let m = mp_put mp m i pg;
     (case r of
        Some sid \<Rightarrow> Some (m, Some (ValueId_new_slot (hf_c_id hf) pid sid))
      | None \<Rightarrow> add_scan mp m hf val pids) }"

definition data_pages :: "PageId \<Rightarrow> PageId list" where
  "data_pages n = map word_of_nat [1..<unat n]"

definition add_val ::
  "'m mem_pool_ops \<Rightarrow> 'm \<Rightarrow> HeapFile \<Rightarrow> bytes \<Rightarrow> ('m, CrustyError, ValueId) run" where
  "add_val mp m hf val = do {
     (m, r) \<leftarrow> add_scan mp m hf val (data_pages (num_pages mp m hf));
     (case r of
        Some vid \<Rightarrow> Some (m, Inr vid)
      | None \<Rightarrow>
          and_then (map_err (\<lambda>e. c_err (status_debug e)) (mp_create mp m (hf_c_id hf))) (\<lambda>m i. do {
            pg \<leftarrow> init_heap_page (mp_page mp m i);
            pid \<leftarrow> get_page_id pg;
            (pg, r) \<leftarrow> add_value pg val;
            Some (mp_put mp m i pg,
              (case r of
                 None \<Rightarrow> Inl (c_err ''Value too large to fit in a single page'')
               | Some sid \<Rightarrow> Inr (ValueId_new_slot (hf_c_id hf) pid sid))) })) }"

definition update_val ::
  "'m mem_pool_ops \<Rightarrow> 'm \<Rightarrow> HeapFile \<Rightarrow> PageId \<Rightarrow> SlotId \<Rightarrow> bytes \<Rightarrow> ('m, CrustyError, ValueId) run" where
  "update_val mp m hf pid sid val =
     (if pid \<ge> num_pages mp m hf then Some (m, Inl (c_err ''Page not found''))
      else do {
        (m, i) \<leftarrow> hf_get_page_for_write mp m hf pid;
        (pg, r) \<leftarrow> update_value (mp_page mp m i) sid val;
        if r \<noteq> None then Some (mp_put mp m i pg, Inr (ValueId_new_slot (hf_c_id hf) pid sid))
        else do {
          v \<leftarrow> get_value pg sid;
          if v = None then Some (mp_put mp m i pg, Inl (c_err ''Update failed: slot not found''))
          else do {
            (pg, r) \<leftarrow> delete_value pg sid;
            let m = mp_put mp m i pg;
            (case r of
               None \<Rightarrow> Some (m, Inl (c_err ''Delete failed during update fallback''))
             | Some _ \<Rightarrow> add_val mp m hf val) } } })"

primrec add_vals ::
  "'m mem_pool_ops \<Rightarrow> 'm \<Rightarrow> HeapFile \<Rightarrow> bytes list \<Rightarrow> ('m, CrustyError, ValueId list) run" where
  "add_vals mp m hf [] = Some (m, Inr [])"
| "add_vals mp m hf (v # vs) =
     and_then (add_val mp m hf v) (\<lambda>m vid. and_then (add_vals mp m hf vs) (\<lambda>m vids. Some (m, Inr (vid # vids))))"

section \<open>The iterator\<close>

record HeapFileIter =
  heapfile :: HeapFile
  initialized :: bool
  finished :: bool
  first_page :: PageId
  current_page_id :: PageId
  current_slot_id :: SlotId
  current_page :: "nat option"

definition HeapFileIter_new_from :: "HeapFile \<Rightarrow> PageId \<Rightarrow> SlotId \<Rightarrow> HeapFileIter" where
  "HeapFileIter_new_from hf pid sid = \<lparr>heapfile = hf, initialized = False, finished = False, first_page = pid,
     current_page_id = pid, current_slot_id = sid, current_page = None\<rparr>"

definition hf_iter :: "HeapFile \<Rightarrow> HeapFileIter" where
  "hf_iter hf = HeapFileIter_new_from hf 1 0"

definition hf_iter_from :: "HeapFile \<Rightarrow> PageId \<Rightarrow> SlotId \<Rightarrow> HeapFileIter" where
  "hf_iter_from hf pid sid = HeapFileIter_new_from hf pid sid"

definition initialize :: "'m mem_pool_ops \<Rightarrow> 'm \<Rightarrow> HeapFileIter \<Rightarrow> ('m \<times> HeapFileIter) option" where
  "initialize mp m it =
     (if initialized it then Some (m, it)
      else if first_page it < num_pages mp m (heapfile it) then do {
        (m, i) \<leftarrow> hf_get_page_for_read mp m (heapfile it) (first_page it);
        Some (m, it\<lparr>current_page := Some i, initialized := True\<rparr>) }
      else Some (m, it\<lparr>finished := True, initialized := True\<rparr>))"

text \<open>The loop of \<open>next\<close>. It returns \<open>None\<close> also when it never ends, which no page of the model allows.\<close>

partial_function (option) hf_next_loop ::
  "'m mem_pool_ops \<Rightarrow> 'm \<Rightarrow> HeapFileIter \<Rightarrow> ('m \<times> HeapFileIter \<times> (bytes \<times> ValueId) option) option" where
  "hf_next_loop mp m it = (case current_page it of
     None \<Rightarrow> Some (m, it, None)
   | Some i \<Rightarrow> do {
       num_slots \<leftarrow> get_num_slots (mp_page mp m i);
       if current_slot_id it < num_slots then do {
         let sid = current_slot_id it;
         next_sid \<leftarrow> checked_add sid 1;
         let it = it\<lparr>current_slot_id := next_sid\<rparr>;
         val_opt \<leftarrow> get_value (mp_page mp m i) sid;
         (case val_opt of
            Some val \<Rightarrow>
              Some (m, it, Some (val, ValueId_new_slot (hf_c_id (heapfile it)) (current_page_id it) sid))
          | None \<Rightarrow> hf_next_loop mp m it) }
       else do {
         let m = mp_drop_read mp m i;
         pid \<leftarrow> checked_add (current_page_id it) 1;
         let it = it\<lparr>current_slot_id := 0, current_page := None, current_page_id := pid\<rparr>;
         if pid \<ge> num_pages mp m (heapfile it) then Some (m, it\<lparr>finished := True\<rparr>, None)
         else do {
           (m, i) \<leftarrow> hf_get_page_for_read mp m (heapfile it) pid;
           hf_next_loop mp m (it\<lparr>current_page := Some i\<rparr>) } } })"

definition hf_next ::
  "'m mem_pool_ops \<Rightarrow> 'm \<Rightarrow> HeapFileIter \<Rightarrow> ('m \<times> HeapFileIter \<times> (bytes \<times> ValueId) option) option" where
  "hf_next mp m it = do {
     (m, it) \<leftarrow> initialize mp m it;
     if finished it then Some (m, it, None) else hf_next_loop mp m it }"

text \<open>Dropping an iterator drops the guard it holds.\<close>

definition hf_iter_drop :: "'m mem_pool_ops \<Rightarrow> 'm \<Rightarrow> HeapFileIter \<Rightarrow> 'm" where
  "hf_iter_drop mp m it = (case current_page it of None \<Rightarrow> m | Some i \<Rightarrow> mp_drop_read mp m i)"

end
