(* ===== verification/HeapFileLaws.thy ===== *)
theory HeapFileLaws
  imports HeapFile
begin

text \<open>
  The heap file on any pool that satisfies the contract \<open>mem_pool\<close>: its invariant, the map from record ids
  to values it stands for, and the law of every operation.
\<close>

section \<open>Pages of a heap file\<close>

text \<open>Page 0 has no slots, every other page is a well-formed slotted page.\<close>

definition file_page_ok :: "PageId \<Rightarrow> Page \<Rightarrow> bool" where
  "file_page_ok p pg \<longleftrightarrow> page_wf pg \<and> get_page_id pg = Some p \<and>
     (if p = 0 then nslots (data pg) = 0 else heap_wf pg)"

lemma heap_wf_page_wf: "heap_wf p \<Longrightarrow> page_wf p"
  by (simp add: heap_wf_def layout_ok_wf)

lemma no_slots:
  assumes "page_wf pg" and "nslots (data pg) = 0"
  shows "get_value pg s = Some None" "delete_value pg s = Some (pg, None)" "update_value pg s v = Some (pg, None)"
    "heap_view pg s = None"
  using assms by (simp_all add: get_value_def delete_value_def update_value_def get_slot_metadata_offset_def
      heap_view_def nslots_def)

lemma zero_header_nslots:
  assumes "page_wf p" and "slice (data p) 16 8 = replicate 8 0" shows "nslots (data p) = 0"
proof -
  have "slice (data p) 16 2 = slice (replicate 4096 0) 16 2"
    by (rule slice_sub [of _ 16 8]) (use assms in \<open>simp_all add: slice_def page_wf_def\<close>)
  then have "slice (data p) 16 2 = [0, 0]" by (simp add: slice_def numeral_2_eq_2)
  then show ?thesis by (simp add: nslots_def u16_at_def)
qed

lemma file_page_okD:
  assumes "file_page_ok p pg"
  shows "page_wf pg" "get_page_id pg = Some p" "p \<noteq> 0 \<Longrightarrow> heap_wf pg" "p = 0 \<Longrightarrow> nslots (data pg) = 0"
  using assms by (simp_all add: file_page_ok_def)

lemma file_page_okI:
  assumes "file_page_ok p pg" and "p \<noteq> 0" and "heap_wf q" and "same_header pg q"
  shows "file_page_ok p q"
  using assms get_page_id_same_header [of pg q] by (simp add: file_page_ok_def heap_wf_page_wf)

lemma file_get_value:
  assumes "file_page_ok p pg" shows "get_value pg s = Some (heap_view pg s)"
proof (cases "p = 0")
  case True
  then show ?thesis using no_slots(1,4) file_page_okD [OF assms] by simp
next
  case False
  then have "layout_ok (data pg)" using file_page_okD(3) [OF assms] by (simp add: heap_wf_def)
  then show ?thesis by (rule get_value_view)
qed

lemma file_delete_value:
  assumes ok: "file_page_ok p pg"
  obtains q where "delete_value pg s = Some (q, if heap_view pg s = None then None else Some ())"
    "file_page_ok p q" "heap_view q = (heap_view pg)(s := None)"
proof (cases "p = 0")
  case True
  then show thesis using no_slots [OF file_page_okD(1) [OF ok] file_page_okD(4) [OF ok True]] that [of pg] ok
    by (simp add: fun_upd_idem)
next
  case False
  then obtain q where "delete_value pg s = Some (q, if heap_view pg s = None then None else Some ())"
    "heap_wf q" "heap_view q = (heap_view pg)(s := None)" "same_header pg q"
    using delete_value_ok [OF file_page_okD(3) [OF ok]] by metis
  then show thesis using that file_page_okI [OF ok False] by blast
qed

lemma file_update_value:
  assumes ok: "file_page_ok p pg" and v: "v \<noteq> []"
  obtains q where "update_value pg s v = Some (q, if update_fits pg s v then Some () else None)"
    "file_page_ok p q" "heap_view q = (if update_fits pg s v then (heap_view pg)(s \<mapsto> v) else heap_view pg)"
    "\<not> update_fits pg s v \<Longrightarrow> q = pg"
proof (cases "p = 0")
  case True
  then have "\<not> update_fits pg s v"
    using no_slots [OF file_page_okD(1) [OF ok] file_page_okD(4) [OF ok True]] by (simp add: update_fits_def)
  then show thesis using True no_slots [OF file_page_okD(1) [OF ok] file_page_okD(4) [OF ok True]] that [of pg] ok by simp
next
  case False
  then obtain q where "update_value pg s v = Some (q, if update_fits pg s v then Some () else None)"
    "heap_wf q" "heap_view q = (if update_fits pg s v then (heap_view pg)(s \<mapsto> v) else heap_view pg)" "same_header pg q"
    "\<not> update_fits pg s v \<Longrightarrow> q = pg"
    using update_value_ok [OF file_page_okD(3) [OF ok False] v] by metis
  then show thesis using that file_page_okI [OF ok False] by blast
qed

lemma file_add_value:
  assumes ok: "file_page_ok p pg" and "p \<noteq> 0" and v: "v \<noteq> []"
  obtains q where "add_value pg v = Some (q, if add_fits pg v then Some (word_of_nat (add_slot pg)) else None)"
    "file_page_ok p q" "heap_view q = (if add_fits pg v then (heap_view pg)(word_of_nat (add_slot pg) \<mapsto> v) else heap_view pg)"
    "\<not> add_fits pg v \<Longrightarrow> q = pg"
proof -
  obtain q where "add_value pg v = Some (q, if add_fits pg v then Some (word_of_nat (add_slot pg)) else None)"
    "heap_wf q" "heap_view q = (if add_fits pg v then (heap_view pg)(word_of_nat (add_slot pg) \<mapsto> v) else heap_view pg)"
    "same_header pg q" "\<not> add_fits pg v \<Longrightarrow> q = pg"
    using add_value_ok [OF file_page_okD(3) [OF ok assms(2)] v] by metis
  then show thesis using that file_page_okI [OF ok assms(2)] by blast
qed

text \<open>No page takes a value of 4068 bytes or more, and a fresh page takes every shorter one.\<close>

lemma hdr_nslots: "page_wf p \<Longrightarrow> hdr (data p) = 24 + 4 * nslots (data p)"
  by (simp add: hdr_def)

lemma add_fits_bound:
  assumes "heap_wf p" and "add_fits p v" shows "length v < 4068"
proof -
  have h: "hdr (data p) = 24 + 4 * nslots (data p)" using hdr_nslots heap_wf_page_wf [OF assms(1)] by blast
  have "free_bytes p \<le> 4096 - hdr (data p)" by (simp add: free_bytes_def)
  then show ?thesis using assms(2) h by (cases "add_slot p < nslots (data p)") (auto simp: add_fits_def)
qed

lemma add_fits_fresh:
  assumes "heap_wf p" "nslots (data p) = 0" "fsp_of (data p) = 4096" shows "add_fits p v \<longleftrightarrow> length v < 4068"
proof -
  have "hdr (data p) = 24" using hdr_nslots heap_wf_page_wf [OF assms(1)] assms(2) by simp
  then show ?thesis using assms(2,3) by (auto simp: add_fits_def free_bytes_def add_slot_def)
qed

section \<open>Invariant and abstraction\<close>

definition hf_ok :: "'m mem_pool_ops \<Rightarrow> ('m \<Rightarrow> bool) \<Rightarrow> ('m \<Rightarrow> ContainerPageId \<Rightarrow> Page option) \<Rightarrow> HeapFile \<Rightarrow> 'm \<Rightarrow> bool" where
  "hf_ok mp J pages hf m \<longleftrightarrow> J m \<and> 0 < num_pages mp m hf \<and>
     (\<forall>p pg. pages m (hf_c_id hf, p) = Some pg \<longrightarrow> file_page_ok p pg)"

definition hf_view :: "('m \<Rightarrow> ContainerPageId \<Rightarrow> Page option) \<Rightarrow> HeapFile \<Rightarrow> 'm \<Rightarrow> PageId \<times> SlotId \<Rightarrow> bytes option" where
  "hf_view pages hf m = (\<lambda>(p, s). Option.bind (pages m (hf_c_id hf, p)) (\<lambda>pg. heap_view pg s))"

text \<open>The other containers stay as they are.\<close>

definition others_same :: "'m mem_pool_ops \<Rightarrow> ('m \<Rightarrow> ContainerPageId \<Rightarrow> Page option) \<Rightarrow> HeapFile \<Rightarrow> 'm \<Rightarrow> 'm \<Rightarrow> bool" where
  "others_same mp pages hf m m' \<longleftrightarrow> (\<forall>k. fst k \<noteq> hf_c_id hf \<longrightarrow> pages m' k = pages m k) \<and>
     (\<forall>c. c \<noteq> hf_c_id hf \<longrightarrow> mp_max_page_id mp m' c = mp_max_page_id mp m c)"

lemma others_same_refl [simp]: "others_same mp pages hf m m"
  by (simp add: others_same_def)

lemma others_same_trans: "others_same mp pages hf a b \<Longrightarrow> others_same mp pages hf b c \<Longrightarrow> others_same mp pages hf a c"
  by (simp add: others_same_def)

text \<open>A page of the file is replaced.\<close>

definition page_put ::
  "'m mem_pool_ops \<Rightarrow> ('m \<Rightarrow> bool) \<Rightarrow> ('m \<Rightarrow> ContainerPageId \<Rightarrow> Page option) \<Rightarrow> ('m \<Rightarrow> nat) \<Rightarrow> HeapFile \<Rightarrow>
   PageId \<Rightarrow> Page \<Rightarrow> 'm \<Rightarrow> 'm \<Rightarrow> bool" where
  "page_put mp J pages free hf p pg m m' \<longleftrightarrow> hf_ok mp J pages hf m' \<and> free m' = free m \<and> others_same mp pages hf m m' \<and>
     num_pages mp m' hf = num_pages mp m hf \<and> pages m' = (pages m)((hf_c_id hf, p) \<mapsto> pg) \<and>
     hf_view pages hf m' = (\<lambda>(x, s). if x = p then heap_view pg s else hf_view pages hf m (x, s))"

definition hf_kept ::
  "'m mem_pool_ops \<Rightarrow> ('m \<Rightarrow> bool) \<Rightarrow> ('m \<Rightarrow> ContainerPageId \<Rightarrow> Page option) \<Rightarrow> ('m \<Rightarrow> nat) \<Rightarrow> HeapFile \<Rightarrow>
   'm \<Rightarrow> 'm \<Rightarrow> bool" where
  "hf_kept mp J pages free hf m m' \<longleftrightarrow> hf_ok mp J pages hf m' \<and> others_same mp pages hf m m' \<and>
     num_pages mp m' hf = num_pages mp m hf \<and> free m' = free m"

lemma hf_keptD:
  assumes "hf_kept mp J pages free hf m m'"
  shows "hf_ok mp J pages hf m'" "others_same mp pages hf m m'" "num_pages mp m' hf = num_pages mp m hf" "free m' = free m"
  using assms by (simp_all add: hf_kept_def)

lemma hf_kept_refl [simp]: "hf_kept mp J pages free hf m m \<longleftrightarrow> hf_ok mp J pages hf m"
  by (simp add: hf_kept_def)

lemma hf_kept_trans:
  "hf_kept mp J pages free hf a b \<Longrightarrow> hf_kept mp J pages free hf b c \<Longrightarrow> hf_kept mp J pages free hf a c"
  by (auto simp: hf_kept_def intro: others_same_trans)

lemma page_put_kept: "page_put mp J pages free hf p pg m m' \<Longrightarrow> hf_kept mp J pages free hf m m'"
  by (simp add: page_put_def hf_kept_def)

lemma page_put_view:
  assumes "page_put mp J pages free hf p pg m m'" and "pages m (hf_c_id hf, p) = Some old" and "heap_view pg = (heap_view old)(s := v)"
  shows "hf_view pages hf m' = (hf_view pages hf m)((p, s) := v)"
  using assms by (auto simp: page_put_def hf_view_def fun_eq_iff)

lemma page_put_same:
  assumes "page_put mp J pages free hf p pg m m'" and "pages m (hf_c_id hf, p) = Some old" and "heap_view pg = heap_view old"
  shows "hf_view pages hf m' = hf_view pages hf m"
  using assms by (auto simp: page_put_def hf_view_def fun_eq_iff)

context mem_pool
begin

lemma hf_page:
  assumes ok: "hf_ok mp inv pages hf m" and p: "p < num_pages mp m hf"
  obtains pg where "pages m (hf_c_id hf, p) = Some pg" "file_page_ok p pg"
proof -
  obtain n where "mp_max_page_id mp m (hf_c_id hf) = Some n" "p < n"
    using p by (auto simp: num_pages_def split: option.splits)
  then obtain pg where "pages m (hf_c_id hf, p) = Some pg"
    using page_there ok unfolding hf_ok_def by metis
  then show thesis using that ok by (auto simp: hf_ok_def)
qed

lemma hf_view_page:
  "pages m (hf_c_id hf, p) = Some pg \<Longrightarrow> hf_view pages hf m (p, s) = heap_view pg s"
  by (simp add: hf_view_def)

lemma hf_write:
  assumes ok: "hf_ok mp inv pages hf m" and p: "p < num_pages mp m hf"
  obtains q i pg where "hf_get_page_for_write mp m hf p = Some (q, i)" "mp_page mp q i = pg" "file_page_ok p pg"
    "pages m (hf_c_id hf, p) = Some pg"
    "\<forall>pg'. file_page_ok p pg' \<longrightarrow> page_put mp inv pages free hf p pg' m (mp_put mp q i pg')"
proof -
  let ?pk = "PageFrameId_new (hf_c_id hf) p"
  obtain pg where pg: "pages m (hf_c_id hf, p) = Some pg" "file_page_ok p pg" by (rule hf_page [OF ok p])
  have k: "p_key ?pk = (hf_c_id hf, p)" by (simp add: PageFrameId_new_def)
  have inv: "inv m" using ok by (simp add: hf_ok_def)
  obtain q i where q: "mp_write mp m ?pk = Some (q, Inr i)" "mp_page mp q i = pg"
    "\<forall>pg'. page_wf pg' \<longrightarrow> get_page_id pg' = Some p \<longrightarrow>
       inv (mp_put mp q i pg') \<and> pages (mp_put mp q i pg') = (pages m)((hf_c_id hf, p) \<mapsto> pg') \<and>
       free (mp_put mp q i pg') = free m \<and> mp_max_page_id mp (mp_put mp q i pg') = mp_max_page_id mp m"
    using write_law [OF inv, of ?pk pg] pg(1) unfolding k by auto
  {
    fix pg' assume pg': "file_page_ok p pg'"
    let ?m = "mp_put mp q i pg'"
    have m: "inv ?m" "pages ?m = (pages m)((hf_c_id hf, p) \<mapsto> pg')" "free ?m = free m"
      "mp_max_page_id mp ?m = mp_max_page_id mp m"
      using q(3) file_page_okD(1,2) [OF pg'] by auto
    then have "num_pages mp ?m hf = num_pages mp m hf" by (simp add: num_pages_def)
    then have "page_put mp inv pages free hf p pg' m ?m"
      using m ok pg' by (auto simp: page_put_def hf_ok_def others_same_def hf_view_def fun_eq_iff)
  }
  then show thesis using that [of q i pg] q(1,2) pg by (simp add: hf_get_page_for_write_def)
qed

lemma hf_read:
  assumes ok: "hf_ok mp inv pages hf m" and p: "p < num_pages mp m hf"
  obtains q i pg where "hf_get_page_for_read mp m hf p = Some (q, i)" "mp_page mp q i = pg" "file_page_ok p pg"
    "pages m (hf_c_id hf, p) = Some pg" "mp_max_page_id mp q = mp_max_page_id mp m"
    "page_put mp inv pages free hf p pg m (mp_drop_read mp q i)"
proof -
  let ?pk = "PageFrameId_new (hf_c_id hf) p"
  obtain pg where pg: "pages m (hf_c_id hf, p) = Some pg" "file_page_ok p pg" by (rule hf_page [OF ok p])
  have k: "p_key ?pk = (hf_c_id hf, p)" by (simp add: PageFrameId_new_def)
  have inv: "inv m" using ok by (simp add: hf_ok_def)
  obtain q i where q: "mp_read mp m ?pk = Some (q, Inr i)" "mp_page mp q i = pg" "mp_max_page_id mp q = mp_max_page_id mp m"
    "inv (mp_drop_read mp q i)" "pages (mp_drop_read mp q i) = pages m" "free (mp_drop_read mp q i) = free m"
    "mp_max_page_id mp (mp_drop_read mp q i) = mp_max_page_id mp m"
    using read_law [OF inv, of ?pk pg] pg(1) unfolding k by auto
  then have "num_pages mp (mp_drop_read mp q i) hf = num_pages mp m hf" by (simp add: num_pages_def)
  then have "page_put mp inv pages free hf p pg m (mp_drop_read mp q i)"
    using q ok pg by (auto simp: page_put_def hf_ok_def others_same_def hf_view_def fun_eq_iff)
  then show thesis using that [of q i pg] q(1-3) pg by (simp add: hf_get_page_for_read_def)
qed

lemma get_val_law:
  assumes ok: "hf_ok mp inv pages hf m"
  shows "\<exists>m'. get_val mp m hf p s = Some (m', if num_pages mp m hf \<le> p then Inl (c_err ''Page not found'')
      else case hf_view pages hf m (p, s) of None \<Rightarrow> Inl (c_err ''Value not found'') | Some v \<Rightarrow> Inr v) \<and>
    hf_kept mp inv pages free hf m m' \<and> hf_view pages hf m' = hf_view pages hf m"
proof (cases "num_pages mp m hf \<le> p")
  case False
  then have lt: "p < num_pages mp m hf" by simp
  obtain q i pg where q: "hf_get_page_for_read mp m hf p = Some (q, i)" "mp_page mp q i = pg" "file_page_ok p pg"
    "pages m (hf_c_id hf, p) = Some pg" "page_put mp inv pages free hf p pg m (mp_drop_read mp q i)"
    by (rule hf_read [OF ok lt])
  then show ?thesis using False file_get_value [OF q(3)] page_put_kept [OF q(5)] page_put_same [OF q(5,4)] hf_view_page [OF q(4)]
    by (simp add: get_val_def)
qed (use ok in \<open>simp add: get_val_def\<close>)

lemma delete_val_law:
  assumes ok: "hf_ok mp inv pages hf m"
  shows "\<exists>m'. delete_val mp m hf p s = Some (m', if num_pages mp m hf \<le> p then Inl (c_err ''Page not found'')
      else if hf_view pages hf m (p, s) = None then Inl (c_err ''Value not found or already deleted'') else Inr ()) \<and>
    hf_kept mp inv pages free hf m m' \<and> hf_view pages hf m' = (hf_view pages hf m)((p, s) := None)"
proof (cases "num_pages mp m hf \<le> p")
  case False
  then have lt: "p < num_pages mp m hf" by simp
  obtain q i pg where q: "hf_get_page_for_write mp m hf p = Some (q, i)" "mp_page mp q i = pg" "file_page_ok p pg"
    "pages m (hf_c_id hf, p) = Some pg"
    "\<forall>pg'. file_page_ok p pg' \<longrightarrow> page_put mp inv pages free hf p pg' m (mp_put mp q i pg')"
    by (rule hf_write [OF ok lt])
  obtain pg' where d: "delete_value pg s = Some (pg', if heap_view pg s = None then None else Some ())"
    "file_page_ok p pg'" "heap_view pg' = (heap_view pg)(s := None)"
    by (rule file_delete_value [OF q(3)])
  have put: "page_put mp inv pages free hf p pg' m (mp_put mp q i pg')" using q(5) d(2) by blast
  show ?thesis using False q(1,2) d(1) page_put_kept [OF put] page_put_view [OF put q(4) d(3)] hf_view_page [OF q(4)]
    by (simp add: delete_val_def)
next
  case True
  then have "hf_view pages hf m (p, s) = None"
    using page_key [of m "hf_c_id hf" p] ok by (auto simp: hf_view_def hf_ok_def num_pages_def split: option.splits)
  then show ?thesis using True ok by (simp add: delete_val_def fun_upd_idem)
qed

lemma add_scan_law:
  assumes v: "v \<noteq> []"
  shows "hf_ok mp inv pages hf m \<Longrightarrow> \<forall>p\<in>set pids. p \<noteq> 0 \<and> p < num_pages mp m hf \<Longrightarrow>
    \<exists>m' r. add_scan mp m hf v pids = Some (m', r) \<and> hf_kept mp inv pages free hf m m' \<and>
      (case r of None \<Rightarrow> hf_view pages hf m' = hf_view pages hf m
       | Some vid \<Rightarrow> \<exists>p s. vid = ValueId_new_slot (hf_c_id hf) p s \<and> p \<in> set pids \<and> length v < 4068 \<and> hf_view pages hf m (p, s) = None \<and>
           hf_view pages hf m' = (hf_view pages hf m)((p, s) \<mapsto> v))"
proof (induction pids arbitrary: m)
  case Nil
  then show ?case by simp
next
  case (Cons p ps)
  have p: "p \<noteq> 0" "p < num_pages mp m hf" using Cons.prems(2) by simp_all
  obtain q i pg where q: "hf_get_page_for_write mp m hf p = Some (q, i)" "mp_page mp q i = pg" "file_page_ok p pg"
    "pages m (hf_c_id hf, p) = Some pg"
    "\<forall>pg'. file_page_ok p pg' \<longrightarrow> page_put mp inv pages free hf p pg' m (mp_put mp q i pg')"
    by (rule hf_write [OF Cons.prems(1) p(2)])
  obtain pg' where a: "add_value pg v = Some (pg', if add_fits pg v then Some (word_of_nat (add_slot pg)) else None)"
    "file_page_ok p pg'" "heap_view pg' = (if add_fits pg v then (heap_view pg)(word_of_nat (add_slot pg) \<mapsto> v) else heap_view pg)"
    by (rule file_add_value [OF q(3) p(1) v])
  let ?m = "mp_put mp q i pg'"
  have put: "page_put mp inv pages free hf p pg' m ?m" using q(5) a(2) by blast
  note kept = page_put_kept [OF put]
  show ?case
  proof (cases "add_fits pg v")
    case True
    then have "heap_view pg (word_of_nat (add_slot pg)) = None"
      using add_slot_fresh file_page_okD(3) [OF q(3) p(1)] by (simp add: heap_wf_def)
    moreover have "length v < 4068" using add_fits_bound [OF file_page_okD(3) [OF q(3) p(1)] True] .
    ultimately show ?thesis using True q(1,2) a kept page_put_view [OF put q(4), of "word_of_nat (add_slot pg)" "Some v"] hf_view_page [OF q(4)]
      by (intro exI [of _ ?m] exI [of _ "Some (ValueId_new_slot (hf_c_id hf) p (word_of_nat (add_slot pg)))"]) auto
  next
    case False
    then have view: "hf_view pages hf ?m = hf_view pages hf m" using page_put_same [OF put q(4)] a(3) by simp
    obtain m' r where r: "add_scan mp ?m hf v ps = Some (m', r)" "hf_kept mp inv pages free hf ?m m'"
      "case r of None \<Rightarrow> hf_view pages hf m' = hf_view pages hf ?m
       | Some vid \<Rightarrow> \<exists>p s. vid = ValueId_new_slot (hf_c_id hf) p s \<and> p \<in> set ps \<and> length v < 4068 \<and> hf_view pages hf ?m (p, s) = None \<and>
           hf_view pages hf m' = (hf_view pages hf ?m)((p, s) \<mapsto> v)"
      using Cons.IH [OF hf_keptD(1) [OF kept]] Cons.prems(2) hf_keptD(3) [OF kept] by auto
    have run: "add_scan mp m hf v (p # ps) = Some (m', r)" using q(1,2) a(1) False r(1) by simp
    show ?thesis
      by (rule exI [of _ m'], rule exI [of _ r])
        (use run r(3) view hf_kept_trans [OF kept r(2)] in \<open>auto split: option.splits\<close>)
  qed
qed

text \<open>A new page of the file.\<close>

lemma hf_create:
  assumes ok: "hf_ok mp inv pages hf m" and room: "0 < free m" "unat (num_pages mp m hf) + 1 < 2 ^ 32"
  obtains q i pg where "mp_create mp m (hf_c_id hf) = Some (q, Inr i)" "init_heap_page (mp_page mp q i) = Some pg"
    "file_page_ok (num_pages mp m hf) pg" "heap_view pg = Map.empty" "\<forall>v. add_fits pg v \<longleftrightarrow> length v < 4068"
    "\<forall>pg'. file_page_ok (num_pages mp m hf) pg' \<longrightarrow> hf_ok mp inv pages hf (mp_put mp q i pg') \<and>
       others_same mp pages hf m (mp_put mp q i pg') \<and> free m \<le> Suc (free (mp_put mp q i pg')) \<and>
       num_pages mp (mp_put mp q i pg') hf = num_pages mp m hf + 1 \<and>
       hf_view pages hf (mp_put mp q i pg') =
         (\<lambda>(x, s). if x = num_pages mp m hf then heap_view pg' s else hf_view pages hf m (x, s))"
proof -
  let ?c = "hf_c_id hf" and ?n = "num_pages mp m hf"
  have inv: "inv m" and n0: "0 < ?n" using ok by (simp_all add: hf_ok_def)
  obtain q i where q: "mp_create mp m ?c = Some (q, Inr i)" "page_wf (mp_page mp q i)"
    "get_page_id (mp_page mp q i) = Some ?n" "slice (data (mp_page mp q i)) 16 8 = replicate 8 0"
    "\<forall>pg'. page_wf pg' \<longrightarrow> get_page_id pg' = Some ?n \<longrightarrow>
       inv (mp_put mp q i pg') \<and> pages (mp_put mp q i pg') = (pages m)((?c, ?n) \<mapsto> pg') \<and>
       free m \<le> Suc (free (mp_put mp q i pg')) \<and>
       mp_max_page_id mp (mp_put mp q i pg') = (mp_max_page_id mp m)(?c \<mapsto> ?n + 1)"
    using create_law [OF inv room(1) _ room(2), of ?c] by (auto simp: num_pages_def)
  obtain pg where pg: "init_heap_page (mp_page mp q i) = Some pg" "heap_wf pg" "heap_view pg = Map.empty"
    "same_header (mp_page mp q i) pg" "nslots (data pg) = 0" "fsp_of (data pg) = 4096"
    by (rule init_heap_page_ok [OF q(2,4)])
  have "get_page_id pg = Some ?n"
    using get_page_id_same_header [OF q(2) heap_wf_page_wf [OF pg(2)] pg(4)] q(3) by simp
  then have fo: "file_page_ok ?n pg" using n0 pg(2,5) by (simp add: file_page_ok_def heap_wf_page_wf)
  have fits: "\<forall>v. add_fits pg v \<longleftrightarrow> length v < 4068" using add_fits_fresh [OF pg(2,5,6)] by blast
  have none: "pages m (?c, ?n) = None"
    using page_key [OF inv, of ?c ?n] by (auto simp: num_pages_def split: option.splits)
  have new: "hf_ok mp inv pages hf m1 \<and> others_same mp pages hf m m1 \<and> free m \<le> Suc (free m1) \<and>
       num_pages mp m1 hf = ?n + 1 \<and> hf_view pages hf m1 = (\<lambda>(x, s). if x = ?n then heap_view pg' s else hf_view pages hf m (x, s))"
    if pg': "file_page_ok ?n pg'" and "m1 = mp_put mp q i pg'" for pg' m1
  proof -
    have m: "inv m1" "pages m1 = (pages m)((?c, ?n) \<mapsto> pg')" "free m \<le> Suc (free m1)"
      "mp_max_page_id mp m1 = (mp_max_page_id mp m)(?c \<mapsto> ?n + 1)"
      using q(5) file_page_okD(1,2) [OF pg'] that(2) by auto
    have "unat (?n + 1) = unat ?n + 1" using room(2) by (simp add: unat_word_ariths)
    then have "num_pages mp m1 hf = ?n + 1" "0 < ?n + 1" using m(4) by (simp_all add: num_pages_def word_less_nat_alt)
    then show ?thesis using m ok pg' by (auto simp: hf_ok_def others_same_def hf_view_def fun_eq_iff)
  qed
  show thesis by (rule that [OF q(1) pg(1) fo pg(3) fits]) (use new in blast)
qed

lemma add_val_law:
  assumes ok: "hf_ok mp inv pages hf m" and v: "v \<noteq> []"
    and room: "0 < free m" "unat (num_pages mp m hf) + 1 < 2 ^ 32"
  shows "\<exists>m' r. add_val mp m hf v = Some (m', r) \<and> hf_ok mp inv pages hf m' \<and> others_same mp pages hf m m' \<and>
    free m \<le> Suc (free m') \<and> num_pages mp m' hf \<in> {num_pages mp m hf, num_pages mp m hf + 1} \<and>
    (if length v < 4068
     then \<exists>p s. r = Inr (ValueId_new_slot (hf_c_id hf) p s) \<and> hf_view pages hf m (p, s) = None \<and>
       hf_view pages hf m' = (hf_view pages hf m)((p, s) \<mapsto> v)
     else r = Inl (c_err ''Value too large to fit in a single page'') \<and> hf_view pages hf m' = hf_view pages hf m)"
proof -
  let ?n = "num_pages mp m hf" and ?c = "hf_c_id hf"
  have "\<forall>p\<in>set (data_pages ?n). p \<noteq> 0 \<and> p < ?n"
  proof
    fix p assume "p \<in> set (data_pages ?n)"
    then obtain i where i: "1 \<le> i" "i < unat ?n" "p = word_of_nat i" by (auto simp: data_pages_def)
    moreover have "unat ?n < 2 ^ 32" using unsigned_less [of ?n] by simp
    ultimately have "unat p = i" by (simp add: unat_of_nat)
    with i show "p \<noteq> 0 \<and> p < ?n" by (auto simp: word_less_nat_alt)
  qed
  then obtain m1 r where s: "add_scan mp m hf v (data_pages ?n) = Some (m1, r)" "hf_kept mp inv pages free hf m m1"
    "case r of None \<Rightarrow> hf_view pages hf m1 = hf_view pages hf m
     | Some vid \<Rightarrow> \<exists>p s. vid = ValueId_new_slot ?c p s \<and> p \<in> set (data_pages ?n) \<and> length v < 4068 \<and> hf_view pages hf m (p, s) = None \<and>
         hf_view pages hf m1 = (hf_view pages hf m)((p, s) \<mapsto> v)"
    using add_scan_law [OF v ok] by blast
  note kept = hf_keptD [OF s(2)]
  show ?thesis
  proof (cases r)
    case (Some vid)
    then obtain p t where r: "vid = ValueId_new_slot ?c p t" "length v < 4068" "hf_view pages hf m (p, t) = None"
      "hf_view pages hf m1 = (hf_view pages hf m)((p, t) \<mapsto> v)" using s(3) by auto
    then show ?thesis using s(1) Some kept by (simp add: add_val_def)
  next
    case None
    have room1: "0 < free m1" "unat (num_pages mp m1 hf) + 1 < 2 ^ 32" using kept room by simp_all
    obtain q i pg where q: "mp_create mp m1 ?c = Some (q, Inr i)" "init_heap_page (mp_page mp q i) = Some pg"
      "file_page_ok (num_pages mp m1 hf) pg" "heap_view pg = Map.empty" "\<forall>v. add_fits pg v \<longleftrightarrow> length v < 4068"
      "\<forall>pg'. file_page_ok (num_pages mp m1 hf) pg' \<longrightarrow> hf_ok mp inv pages hf (mp_put mp q i pg') \<and>
         others_same mp pages hf m1 (mp_put mp q i pg') \<and> free m1 \<le> Suc (free (mp_put mp q i pg')) \<and>
         num_pages mp (mp_put mp q i pg') hf = num_pages mp m1 hf + 1 \<and>
         hf_view pages hf (mp_put mp q i pg') =
           (\<lambda>(x, s). if x = num_pages mp m1 hf then heap_view pg' s else hf_view pages hf m1 (x, s))"
      by (rule hf_create [OF kept(1) room1])
    have n0: "?n \<noteq> 0" using ok by (auto simp: hf_ok_def)
    have fo: "file_page_ok ?n pg" using q(3) kept(3) by simp
    obtain pg' where a: "add_value pg v = Some (pg', if add_fits pg v then Some (word_of_nat (add_slot pg)) else None)"
      "file_page_ok ?n pg'" "heap_view pg' = (if add_fits pg v then (heap_view pg)(word_of_nat (add_slot pg) \<mapsto> v) else heap_view pg)"
      by (rule file_add_value [OF fo n0 v])
    let ?m = "mp_put mp q i pg'" and ?s = "word_of_nat (add_slot pg) :: SlotId"
    have run: "add_val mp m hf v = Some (?m, if length v < 4068 then Inr (ValueId_new_slot ?c ?n ?s)
      else Inl (c_err ''Value too large to fit in a single page''))"
      using s(1) None q(1,2,5) a(1) file_page_okD(2) [OF fo] by (simp add: add_val_def)
    have none: "hf_view pages hf m (?n, t) = None" for t
      using page_key [of m ?c ?n] ok by (auto simp: hf_view_def hf_ok_def num_pages_def split: option.splits)
    have st: "hf_ok mp inv pages hf ?m" "others_same mp pages hf m1 ?m" "free m1 \<le> Suc (free ?m)" "num_pages mp ?m hf = ?n + 1"
      "hf_view pages hf ?m = (\<lambda>(x, s). if x = ?n then heap_view pg' s else hf_view pages hf m (x, s))"
      using q(6) a(2) kept(3) s(3) None by auto
    have view: "hf_view pages hf ?m = (if length v < 4068 then (hf_view pages hf m)((?n, ?s) \<mapsto> v) else hf_view pages hf m)"
      unfolding st(5) using a(3) q(4,5) none by (auto simp: fun_eq_iff)
    show ?thesis using run st(1,3,4) others_same_trans [OF kept(2) st(2)] kept(4) view none by auto
  qed
qed

lemma update_val_any_law:
  assumes ok: "hf_ok mp inv pages hf m" and v: "v \<noteq> []"
    and room: "0 < free m" "unat (num_pages mp m hf) + 1 < 2 ^ 32"
  shows "\<exists>m' r. update_val mp m hf p s v = Some (m', r) \<and> hf_ok mp inv pages hf m' \<and> others_same mp pages hf m m' \<and>
    free m \<le> Suc (free m') \<and> num_pages mp m' hf \<in> {num_pages mp m hf, num_pages mp m hf + 1} \<and>
    (if num_pages mp m hf \<le> p then r = Inl (c_err ''Page not found'') \<and> hf_view pages hf m' = hf_view pages hf m
     else if hf_view pages hf m (p, s) = None
     then r = Inl (c_err ''Update failed: slot not found'') \<and> hf_view pages hf m' = hf_view pages hf m
     else (\<exists>p' s'. r = Inr (ValueId_new_slot (hf_c_id hf) p' s') \<and>
         ((p', s') = (p, s) \<or> hf_view pages hf m (p', s') = None) \<and>
         hf_view pages hf m' = (hf_view pages hf m)((p, s) := None, (p', s') \<mapsto> v)) \<or>
       4068 \<le> length v \<and> r = Inl (c_err ''Value too large to fit in a single page'') \<and>
         hf_view pages hf m' = (hf_view pages hf m)((p, s) := None))"
proof (cases "num_pages mp m hf \<le> p")
  case True
  then show ?thesis using ok by (simp add: update_val_def)
next
  case False
  then have lt: "p < num_pages mp m hf" by simp
  obtain q i pg where q: "hf_get_page_for_write mp m hf p = Some (q, i)" "mp_page mp q i = pg" "file_page_ok p pg"
    "pages m (hf_c_id hf, p) = Some pg"
    "\<forall>pg'. file_page_ok p pg' \<longrightarrow> page_put mp inv pages free hf p pg' m (mp_put mp q i pg')"
    by (rule hf_write [OF ok lt])
  note vw = hf_view_page [OF q(4)]
  obtain pg' where u: "update_value pg s v = Some (pg', if update_fits pg s v then Some () else None)"
    "file_page_ok p pg'" "heap_view pg' = (if update_fits pg s v then (heap_view pg)(s \<mapsto> v) else heap_view pg)"
    "\<not> update_fits pg s v \<Longrightarrow> pg' = pg"
    using file_update_value [OF q(3) v] by metis
  have put: "page_put mp inv pages free hf p pg' m (mp_put mp q i pg')" using q(5) u(2) by blast
  note kept = hf_keptD [OF page_put_kept [OF put]]
  consider "update_fits pg s v" | "heap_view pg s = None" | "\<not> update_fits pg s v" "heap_view pg s \<noteq> None" by blast
  then show ?thesis
  proof cases
    case 1
    then have "heap_view pg s \<noteq> None" by (auto simp: update_fits_def split: option.splits)
    then show ?thesis using 1 False q(1,2) u(1,3) kept page_put_view [OF put q(4), of s "Some v"] vw
      by (simp add: update_val_def)
  next
    case 2
    then have "\<not> update_fits pg s v" by (simp add: update_fits_def)
    then show ?thesis using 2 False q(1,2) u kept page_put_same [OF put q(4)] vw file_get_value [OF q(3)]
      by (simp add: update_val_def)
  next
    case 3
    obtain pg2 where d: "delete_value pg s = Some (pg2, if heap_view pg s = None then None else Some ())"
      "file_page_ok p pg2" "heap_view pg2 = (heap_view pg)(s := None)"
      by (rule file_delete_value [OF q(3)])
    let ?m = "mp_put mp q i pg2"
    have put2: "page_put mp inv pages free hf p pg2 m ?m" using q(5) d(2) by blast
    note kept2 = hf_keptD [OF page_put_kept [OF put2]]
    have view2: "hf_view pages hf ?m = (hf_view pages hf m)((p, s) := None)" by (rule page_put_view [OF put2 q(4) d(3)])
    have room2: "0 < free ?m" "unat (num_pages mp ?m hf) + 1 < 2 ^ 32" using room kept2 by simp_all
    obtain m' r where r: "add_val mp ?m hf v = Some (m', r)" "hf_ok mp inv pages hf m'" "others_same mp pages hf ?m m'"
      "free ?m \<le> Suc (free m')" "num_pages mp m' hf \<in> {num_pages mp ?m hf, num_pages mp ?m hf + 1}"
      "if length v < 4068
       then \<exists>p' s'. r = Inr (ValueId_new_slot (hf_c_id hf) p' s') \<and> hf_view pages hf ?m (p', s') = None \<and>
         hf_view pages hf m' = (hf_view pages hf ?m)((p', s') \<mapsto> v)
       else r = Inl (c_err ''Value too large to fit in a single page'') \<and> hf_view pages hf m' = hf_view pages hf ?m"
      using add_val_law [OF kept2(1) v room2] by blast
    have run: "update_val mp m hf p s v = Some (m', r)"
      using 3 False q(1,2) u(1) u(4) d(1) file_get_value [OF q(3)] r(1) by (auto simp: update_val_def)
    have old: "hf_view pages hf m (p, s) \<noteq> None" using 3(2) vw by simp
    have "(\<exists>p' s'. r = Inr (ValueId_new_slot (hf_c_id hf) p' s') \<and> ((p', s') = (p, s) \<or> hf_view pages hf m (p', s') = None) \<and>
         hf_view pages hf m' = (hf_view pages hf m)((p, s) := None, (p', s') \<mapsto> v)) \<or>
       4068 \<le> length v \<and> r = Inl (c_err ''Value too large to fit in a single page'') \<and>
         hf_view pages hf m' = (hf_view pages hf m)((p, s) := None)"
      using r(6) view2 by (auto split: if_splits)
    then show ?thesis
      using run r(2,4,5) others_same_trans [OF kept2(2) r(3)] kept2(3,4) old False by auto
  qed
qed

lemma update_val_law:
  assumes ok: "hf_ok mp inv pages hf m" and v: "v \<noteq> []" "length v < 4068"
    and room: "0 < free m" "unat (num_pages mp m hf) + 1 < 2 ^ 32"
  shows "\<exists>m' r. update_val mp m hf p s v = Some (m', r) \<and> hf_ok mp inv pages hf m' \<and> others_same mp pages hf m m' \<and>
    free m \<le> Suc (free m') \<and> num_pages mp m' hf \<in> {num_pages mp m hf, num_pages mp m hf + 1} \<and>
    (if num_pages mp m hf \<le> p then r = Inl (c_err ''Page not found'') \<and> hf_view pages hf m' = hf_view pages hf m
     else if hf_view pages hf m (p, s) = None
     then r = Inl (c_err ''Update failed: slot not found'') \<and> hf_view pages hf m' = hf_view pages hf m
     else \<exists>p' s'. r = Inr (ValueId_new_slot (hf_c_id hf) p' s') \<and>
       ((p', s') = (p, s) \<or> hf_view pages hf m (p', s') = None) \<and>
       hf_view pages hf m' = (hf_view pages hf m)((p, s) := None, (p', s') \<mapsto> v))"
proof -
  have "(4068 \<le> length v) = False" using v(2) by simp
  then show ?thesis using update_val_any_law [OF ok v(1) room, of p s] by (simp only: simp_thms)
qed

lemma HeapFile_new_law:
  assumes inv: "inv m" and new: "\<forall>p. pages m (c, p) = None" and room: "0 < free m"
  shows "\<exists>m'. HeapFile_new mp m c = Some (m', Inr \<lparr>hf_c_id = c\<rparr>) \<and> hf_ok mp inv pages \<lparr>hf_c_id = c\<rparr> m' \<and>
    num_pages mp m' \<lparr>hf_c_id = c\<rparr> = 1 \<and> hf_view pages \<lparr>hf_c_id = c\<rparr> m' = (\<lambda>_. None) \<and>
    others_same mp pages \<lparr>hf_c_id = c\<rparr> m m' \<and> free m \<le> Suc (free m')"
proof -
  have n: "0 = (case mp_max_page_id mp m c of None \<Rightarrow> 0 | Some n \<Rightarrow> n)"
    using page_key [OF inv, of c 0] new word_gt_0 by (auto split: option.splits)
  obtain q i where q: "mp_create mp m c = Some (q, Inr i)" "page_wf (mp_page mp q i)" "get_page_id (mp_page mp q i) = Some 0"
    "slice (data (mp_page mp q i)) 16 8 = replicate 8 0"
    "\<forall>pg'. page_wf pg' \<longrightarrow> get_page_id pg' = Some 0 \<longrightarrow>
       inv (mp_put mp q i pg') \<and> pages (mp_put mp q i pg') = (pages m)((c, 0) \<mapsto> pg') \<and>
       free m \<le> Suc (free (mp_put mp q i pg')) \<and> mp_max_page_id mp (mp_put mp q i pg') = (mp_max_page_id mp m)(c \<mapsto> 0 + 1)"
    using create_law [OF inv room n] by auto
  let ?pg = "mp_page mp q i" and ?m = "mp_drop_write mp q i" and ?hf = "\<lparr>hf_c_id = c\<rparr>"
  have m: "inv ?m" "pages ?m = (pages m)((c, 0) \<mapsto> ?pg)" "free m \<le> Suc (free ?m)" "mp_max_page_id mp ?m = (mp_max_page_id mp m)(c \<mapsto> 1)"
    using q(5) [rule_format, OF q(2,3)] set_same [of q i] by simp_all
  have z: "nslots (data ?pg) = 0" using q(2,4) by (rule zero_header_nslots)
  then have "file_page_ok 0 ?pg" using q(2,3) by (simp add: file_page_ok_def)
  then have "hf_ok mp inv pages ?hf ?m \<and> num_pages mp ?m ?hf = 1" using m new by (auto simp: hf_ok_def num_pages_def)
  moreover have "hf_view pages ?hf ?m = (\<lambda>_. None)"
    using m(2) new no_slots(4) [OF q(2) z] by (auto simp: hf_view_def fun_eq_iff)
  ultimately show ?thesis using q(1) m by (simp add: HeapFile_new_def others_same_def del: split_paired_All)
qed

text \<open>A heap file depends only on the pages of its container.\<close>

lemma hf_ok_pages:
  assumes ok: "hf_ok mp inv pages hf m" and m': "inv m'" "pages m' = pages m"
  shows "hf_ok mp inv pages hf m'"
proof -
  have inv: "inv m" and n: "0 < num_pages mp m hf" using ok by (simp_all add: hf_ok_def)
  then have "pages m (hf_c_id hf, 0) \<noteq> None"
    using page_key [OF inv, of "hf_c_id hf" 0] by (auto simp: num_pages_def split: option.splits)
  then have "0 < num_pages mp m' hf"
    using page_key [OF m'(1), of "hf_c_id hf" 0] m'(2) by (auto simp: num_pages_def)
  then show ?thesis using ok m' by (simp add: hf_ok_def)
qed

end

end
