(* ===== verification/HeapFileScan.thy ===== *)
theory HeapFileScan
  imports HeapFileLaws Iteration
begin

text \<open>
  The iterator of the heap file. For a file whose pages are \<open>P\<close>, \<open>n\<close> of them, the items of a scan are the
  values of the pages in order; each call of \<open>next\<close> returns the first and leaves the rest, holding the
  read guard of the page it is on.
\<close>

definition page_items :: "HeapFile \<Rightarrow> (PageId \<Rightarrow> Page option) \<Rightarrow> nat \<Rightarrow> nat \<Rightarrow> (bytes \<times> ValueId) list" where
  "page_items hf P p c = (case P (word_of_nat p) of
     None \<Rightarrow> []
   | Some pg \<Rightarrow> map (\<lambda>(v, s). (v, ValueId_new_slot (hf_c_id hf) (word_of_nat p) s)) (entries_from pg c))"

definition items_from :: "HeapFile \<Rightarrow> (PageId \<Rightarrow> Page option) \<Rightarrow> PageId \<Rightarrow> nat \<Rightarrow> nat \<Rightarrow> (bytes \<times> ValueId) list" where
  "items_from hf P n p c =
     (if p < unat n then page_items hf P p c @ concat (map (\<lambda>q. page_items hf P q 0) [Suc p..<unat n]) else [])"

lemma items_from_step: "p < unat n \<Longrightarrow> items_from hf P n p c = page_items hf P p c @ items_from hf P n (Suc p) 0"
  by (cases "Suc p < unat n") (simp_all add: items_from_def upt_conv_Cons)

lemma items_from_start: "items_from hf P n 1 0 = concat (map (\<lambda>q. page_items hf P q 0) [1..<unat n])"
  by (cases "1 < unat n") (simp_all add: items_from_def upt_conv_Cons)

text \<open>The states of an iterator over the file, with what it has not yet returned.\<close>

definition holds_page ::
  "'m mem_pool_ops \<Rightarrow> ('m \<Rightarrow> bool) \<Rightarrow> ('m \<Rightarrow> ContainerPageId \<Rightarrow> Page option) \<Rightarrow> HeapFile \<Rightarrow> (PageId \<Rightarrow> Page option) \<Rightarrow> PageId \<Rightarrow>
   'm \<Rightarrow> PageId \<Rightarrow> nat \<Rightarrow> bool" where
  "holds_page mp J pages hf P n m p i \<longleftrightarrow> hf_ok mp J pages hf (mp_drop_read mp m i) \<and>
     (\<forall>x. pages (mp_drop_read mp m i) (hf_c_id hf, x) = P x) \<and> num_pages mp (mp_drop_read mp m i) hf = n \<and>
     p < n \<and> P p = Some (mp_page mp m i)"

definition scan_ok ::
  "'m mem_pool_ops \<Rightarrow> ('m \<Rightarrow> bool) \<Rightarrow> ('m \<Rightarrow> ContainerPageId \<Rightarrow> Page option) \<Rightarrow> HeapFile \<Rightarrow> (PageId \<Rightarrow> Page option) \<Rightarrow> PageId \<Rightarrow>
   'm \<times> HeapFileIter \<Rightarrow> bool" where
  "scan_ok mp J pages hf P n = (\<lambda>(m, it). heapfile it = hf \<and>
     (if initialized it \<and> \<not> finished it
      then \<exists>i. current_page it = Some i \<and> holds_page mp J pages hf P n m (current_page_id it) i
      else current_page it = None \<and> hf_ok mp J pages hf m \<and> (\<forall>x. pages m (hf_c_id hf, x) = P x) \<and> num_pages mp m hf = n \<and>
        (\<not> initialized it \<longrightarrow> \<not> finished it \<and> first_page it = current_page_id it)))"

definition scan_rem :: "HeapFile \<Rightarrow> (PageId \<Rightarrow> Page option) \<Rightarrow> PageId \<Rightarrow> 'm \<times> HeapFileIter \<Rightarrow> (bytes \<times> ValueId) list" where
  "scan_rem hf P n = (\<lambda>(m, it).
     if finished it then [] else items_from hf P n (unat (current_page_id it)) (unat (current_slot_id it)))"

definition scan_next :: "'m mem_pool_ops \<Rightarrow> 'm \<times> HeapFileIter \<Rightarrow> (('m \<times> HeapFileIter) \<times> (bytes \<times> ValueId) option) option" where
  "scan_next mp = (\<lambda>(m, it). map_option (\<lambda>(m, it, r). ((m, it), r)) (hf_next mp m it))"

lemma page_items_step:
  assumes "P (word_of_nat p) = Some pg" and "c < nslots (data pg)"
  shows "page_items hf P p c =
    (if slot_len (data pg) c \<noteq> 0 then [(slot_val (data pg) c, ValueId_new_slot (hf_c_id hf) (word_of_nat p) (word_of_nat c))] else []) @
    page_items hf P p (Suc c)"
  using assms by (simp add: page_items_def entries_from_step)

context mem_pool
begin

lemma hold_page:
  assumes ok: "hf_ok mp inv pages hf m" and P: "\<forall>x. pages m (hf_c_id hf, x) = P x" and n: "num_pages mp m hf = n" and p: "p < n"
  obtains q i where "hf_get_page_for_read mp m hf p = Some (q, i)" "holds_page mp inv pages hf P n q p i"
proof -
  obtain q i pg where q: "hf_get_page_for_read mp m hf p = Some (q, i)" "mp_page mp q i = pg"
    "pages m (hf_c_id hf, p) = Some pg" "page_put mp inv pages free hf p pg m (mp_drop_read mp q i)"
    using hf_read [OF ok] p n by metis
  then have "holds_page mp inv pages hf P n q p i" using P n p by (auto simp: holds_page_def page_put_def)
  with q(1) show thesis by (rule that)
qed

lemma next_loop_law:
  assumes "heapfile it = hf" and "initialized it" and "\<not> finished it" and "current_page it = Some i"
    and "holds_page mp inv pages hf P n m (current_page_id it) i"
  shows "\<exists>m' it'. hf_next_loop mp m it = Some (m', it', case scan_rem hf P n (m, it) of [] \<Rightarrow> None | x # _ \<Rightarrow> Some x) \<and>
    scan_ok mp inv pages hf P n (m', it') \<and> scan_rem hf P n (m', it') = tl (scan_rem hf P n (m, it))"
  using assms
proof (induction "(unat n - unat (current_page_id it)) * 65537 + (65536 - unat (current_slot_id it))"
    arbitrary: m it i rule: less_induct)
  case less
  note h = less.prems(5) [unfolded holds_page_def]
  let ?pg = "mp_page mp m i" and ?p = "current_page_id it" and ?s = "current_slot_id it"
  have fo: "file_page_ok ?p ?pg" using h by (metis hf_ok_def)
  have wf: "page_wf ?pg" by (rule file_page_okD(1) [OF fo])
  have pn: "unat ?p < unat n" using h by (simp add: word_less_nat_alt)
  have Pp: "P (word_of_nat (unat ?p)) = Some ?pg" using h by simp
  have s16: "unat ?s < 65536" using unsigned_less [of ?s] by simp
  show ?case
  proof (cases "?s < u16_at (data ?pg) 16")
    case True
    then have lt: "unat ?s < nslots (data ?pg)" by (simp add: word_less_nat_alt nslots_def)
    have s1: "unat (?s + 1) = Suc (unat ?s)" using True unat_add_one by fastforce
    have ca: "checked_add ?s 1 = Some (?s + 1)" using s1 by (simp add: checked_add_def unat_word_ariths split: if_splits)
    let ?it = "it\<lparr>current_slot_id := ?s + 1\<rparr>"
    have gv: "get_value ?pg ?s = Some (if slot_len (data ?pg) (unat ?s) \<noteq> 0 then Some (slot_val (data ?pg) (unat ?s)) else None)"
      using file_get_value [OF fo] lt by (simp add: heap_view_def)
    have rem: "scan_rem hf P n (m, it) = (if slot_len (data ?pg) (unat ?s) \<noteq> 0
        then [(slot_val (data ?pg) (unat ?s), ValueId_new_slot (hf_c_id hf) ?p ?s)] else []) @ scan_rem hf P n (m, ?it)"
      using less.prems(3) items_from_step [OF pn] page_items_step [where P = P, OF Pp lt] s1 by (simp add: scan_rem_def)
    have hold: "holds_page mp inv pages hf P n m (current_page_id ?it) i" using less.prems(5) by simp
    show ?thesis
    proof (cases "slot_len (data ?pg) (unat ?s) = 0")
      case zero: True
      have run: "hf_next_loop mp m it = hf_next_loop mp m ?it"
        using less.prems(4) wf True ca gv zero by (subst hf_next_loop.simps) (simp add: Let_def)
      show ?thesis unfolding run using less.hyps [OF _ _ _ _ _ hold] less.prems(1-4) s1 s16 rem zero by simp
    next
      case used: False
      have "hf_next_loop mp m it = Some (m, ?it, Some (slot_val (data ?pg) (unat ?s), ValueId_new_slot (hf_c_id hf) ?p ?s))"
        using less.prems(1,4) wf True ca gv used by (subst hf_next_loop.simps) (simp add: Let_def)
      moreover have "scan_ok mp inv pages hf P n (m, ?it)" using less.prems hold by (simp add: scan_ok_def)
      ultimately show ?thesis using rem used by simp
    qed
  next
    case False
    let ?d = "mp_drop_read mp m i" and ?it = "it\<lparr>current_slot_id := 0, current_page := None, current_page_id := ?p + 1\<rparr>"
    have p1: "unat (?p + 1) = Suc (unat ?p)" using h unat_add_one by fastforce
    have "unat n < 2 ^ 32" using unsigned_less [of n] by simp
    then have ca: "checked_add ?p 1 = Some (?p + 1)" using pn by (intro checked_add_Some) simp
    have rem: "scan_rem hf P n (m, it) = items_from hf P n (Suc (unat ?p)) 0"
      using less.prems(3) items_from_step [OF pn] False Pp by (simp add: scan_rem_def page_items_def nslots_def word_less_nat_alt)
    show ?thesis
    proof (cases "n \<le> ?p + 1")
      case more: False
      then have True: "?p + 1 < n" by simp
      obtain q j where q: "hf_get_page_for_read mp ?d hf (?p + 1) = Some (q, j)" "holds_page mp inv pages hf P n q (?p + 1) j"
        by (rule hold_page [of hf ?d P n "?p + 1"]) (use h True in auto)
      let ?it' = "?it\<lparr>current_page := Some j\<rparr>"
      have run: "hf_next_loop mp m it = hf_next_loop mp q ?it'"
        using less.prems(1,4) wf False ca h q(1) more by (subst hf_next_loop.simps) (simp add: Let_def)
      have rem': "scan_rem hf P n (m, it) = scan_rem hf P n (q, ?it')" using rem less.prems(3) p1 by (simp add: scan_rem_def)
      have "(unat n - unat (?p + 1)) * 65537 + 65536 < (unat n - unat ?p) * 65537 + (65536 - unat ?s)"
        using p1 pn s16 by (simp add: diff_mult_distrib)
      then show ?thesis unfolding run rem' by (intro less.hyps [where i = j]) (use less.prems(1-3) q(2) in simp_all)
    next
      case last: True
      have "hf_next_loop mp m it = Some (?d, ?it\<lparr>finished := True\<rparr>, None)"
        using less.prems(1,4) wf False ca h last by (subst hf_next_loop.simps) (simp add: Let_def)
      moreover have "items_from hf P n (Suc (unat ?p)) 0 = []" using last p1 by (simp add: items_from_def word_le_nat_alt)
      moreover have "scan_ok mp inv pages hf P n (?d, ?it\<lparr>finished := True\<rparr>)" using less.prems(1,2) h by (simp add: scan_ok_def)
      ultimately show ?thesis using rem by (simp add: scan_rem_def)
    qed
  qed
qed

lemma scan_iterator: "iterator (scan_next mp) (scan_ok mp inv pages hf P n) (scan_rem hf P n)"
proof -
  have step: "\<exists>st'. scan_next mp st = Some (st', case scan_rem hf P n st of [] \<Rightarrow> None | x # _ \<Rightarrow> Some x) \<and>
      scan_ok mp inv pages hf P n st' \<and> scan_rem hf P n st' = tl (scan_rem hf P n st)" if ok: "scan_ok mp inv pages hf P n st" for st
  proof -
    obtain m it where st: "st = (m, it)" by fastforce
    have hf: "heapfile it = hf" using ok by (simp add: st scan_ok_def)
    consider "initialized it" "\<not> finished it" | "initialized it" "finished it" | "\<not> initialized it" by blast
    then show ?thesis
    proof cases
      case 1
      then obtain i where "current_page it = Some i" "holds_page mp inv pages hf P n m (current_page_id it) i"
        using ok by (auto simp: st scan_ok_def)
      from next_loop_law [OF hf 1 this] 1 show ?thesis by (auto simp: st scan_next_def hf_next_def initialize_def)
    next
      case 2
      then show ?thesis using ok by (simp add: st scan_next_def hf_next_def initialize_def scan_rem_def)
    next
      case 3
      then have u: "\<not> finished it" "first_page it = current_page_id it" "current_page it = None" "hf_ok mp inv pages hf m"
        "\<forall>x. pages m (hf_c_id hf, x) = P x" "num_pages mp m hf = n"
        using ok by (auto simp: st scan_ok_def)
      show ?thesis
      proof (cases "current_page_id it < n")
        case True
        obtain q i where q: "hf_get_page_for_read mp m hf (current_page_id it) = Some (q, i)"
          "holds_page mp inv pages hf P n q (current_page_id it) i"
          by (rule hold_page [OF u(4-6) True])
        let ?it = "it\<lparr>current_page := Some i, initialized := True\<rparr>"
        have "initialize mp m it = Some (q, ?it)" using 3 u hf True q(1) by (simp add: initialize_def)
        moreover obtain m' it' where "hf_next_loop mp q ?it = Some (m', it', case scan_rem hf P n (q, ?it) of [] \<Rightarrow> None | x # _ \<Rightarrow> Some x)"
          "scan_ok mp inv pages hf P n (m', it')" "scan_rem hf P n (m', it') = tl (scan_rem hf P n (q, ?it))"
          using next_loop_law [of ?it hf i P n q] hf u(1) q(2) by auto
        moreover have "scan_rem hf P n (q, ?it) = scan_rem hf P n st" by (simp add: st scan_rem_def)
        ultimately show ?thesis using u(1) by (simp add: st scan_next_def hf_next_def)
      next
        case False
        then have "scan_rem hf P n st = []" by (simp add: st scan_rem_def items_from_def word_less_nat_alt)
        moreover have "initialize mp m it = Some (m, it\<lparr>finished := True, initialized := True\<rparr>)"
          using 3 u hf False by (simp add: initialize_def)
        ultimately show ?thesis using u hf by (simp add: st scan_next_def hf_next_def scan_ok_def scan_rem_def)
      qed
    qed
  qed
  show ?thesis by unfold_locales (use step in fastforce)+
qed

end

end
