(* ===== verification/HeapFileProps.thy ===== *)
theory HeapFileProps
  imports HeapFileScan InMemPool
begin

text \<open>
  The heap file against its specification, a map from record ids to values: any sequence of operations is
  a sequence of steps of the specification, and a scan returns what the map holds. Both are proved on the
  contract of the pool and hold for the buffer pool and the in-memory pool.
\<close>

section \<open>Specification\<close>

datatype file_op = FGet PageId SlotId | FAdd bytes | FUpdate PageId SlotId bytes | FDelete PageId SlotId

datatype file_answer = AVal bytes | AId PageId SlotId | ADone | AErr CrustyError

text \<open>One step of the specification. The record id of a new value is any that is not in use. An update by a value
  that fits on no page fails after the old value is gone.\<close>

inductive file_spec :: "(PageId \<times> SlotId \<Rightarrow> bytes option) \<Rightarrow> file_op \<Rightarrow> file_answer \<Rightarrow> (PageId \<times> SlotId \<Rightarrow> bytes option) \<Rightarrow> bool" where
  get_found: "V (p, s) = Some v \<Longrightarrow> file_spec V (FGet p s) (AVal v) V"
| get_none: "V (p, s) = None \<Longrightarrow> file_spec V (FGet p s) (AErr e) V"
| add: "V (p, s) = None \<Longrightarrow> length v < 4068 \<Longrightarrow> file_spec V (FAdd v) (AId p s) (V((p, s) \<mapsto> v))"
| add_large: "4068 \<le> length v \<Longrightarrow> file_spec V (FAdd v) (AErr e) V"
| update: "V (p, s) \<noteq> None \<Longrightarrow> (p', s') = (p, s) \<or> V (p', s') = None \<Longrightarrow>
    file_spec V (FUpdate p s v) (AId p' s') (V((p, s) := None, (p', s') \<mapsto> v))"
| update_large: "V (p, s) \<noteq> None \<Longrightarrow> 4068 \<le> length v \<Longrightarrow> file_spec V (FUpdate p s v) (AErr e) (V((p, s) := None))"
| update_none: "V (p, s) = None \<Longrightarrow> file_spec V (FUpdate p s v) (AErr e) V"
| delete: "V (p, s) \<noteq> None \<Longrightarrow> file_spec V (FDelete p s) ADone (V((p, s) := None))"
| delete_none: "V (p, s) = None \<Longrightarrow> file_spec V (FDelete p s) (AErr e) V"

inductive file_specs :: "(PageId \<times> SlotId \<Rightarrow> bytes option) \<Rightarrow> file_op list \<Rightarrow> file_answer list \<Rightarrow> (PageId \<times> SlotId \<Rightarrow> bytes option) \<Rightarrow> bool" where
  none: "file_specs V [] [] V"
| step: "file_spec V e a W \<Longrightarrow> file_specs W es as X \<Longrightarrow> file_specs V (e # es) (a # as) X"

text \<open>The operations on the heap file and their answers.\<close>

definition id_answer :: "HeapFile \<Rightarrow> CrustyError + ValueId \<Rightarrow> file_answer" where
  "id_answer hf r = (case r of
     Inl e \<Rightarrow> AErr e
   | Inr vid \<Rightarrow> AId (the (page_id vid)) (the (slot_id vid)))"

fun file_exec :: "'m mem_pool_ops \<Rightarrow> HeapFile \<Rightarrow> 'm \<Rightarrow> file_op \<Rightarrow> ('m \<times> file_answer) option" where
  "file_exec mp hf m (FGet p s) = map_option (map_prod id (case_sum AErr AVal)) (get_val mp m hf p s)"
| "file_exec mp hf m (FAdd v) = map_option (map_prod id (id_answer hf)) (add_val mp m hf v)"
| "file_exec mp hf m (FUpdate p s v) = map_option (map_prod id (id_answer hf)) (update_val mp m hf p s v)"
| "file_exec mp hf m (FDelete p s) = map_option (map_prod id (case_sum AErr (\<lambda>_. ADone))) (delete_val mp m hf p s)"

primrec file_run :: "'m mem_pool_ops \<Rightarrow> HeapFile \<Rightarrow> 'm \<Rightarrow> file_op list \<Rightarrow> ('m \<times> file_answer list) option" where
  "file_run mp hf m [] = Some (m, [])"
| "file_run mp hf m (e # es) = do {
     (m, a) \<leftarrow> file_exec mp hf m e;
     (m, as) \<leftarrow> file_run mp hf m es;
     Some (m, a # as) }"

text \<open>Values are not empty.\<close>

fun file_allows :: "file_op \<Rightarrow> bool" where
  "file_allows (FAdd v) = (v \<noteq> [])"
| "file_allows (FUpdate p s v) = (v \<noteq> [])"
| "file_allows _ = True"

section \<open>The heap file simulates the specification\<close>

lemma large_update_refused:
  assumes wf: "heap_wf pg" and old: "heap_view pg s = Some old" and len: "length old < length v" "4068 \<le> length v"
  shows "\<not> update_fits pg s v"
proof -
  have ok: "layout_ok (data pg)" using wf by (simp add: heap_wf_def)
  note i = heap_view_SomeD [OF ok old] and l = layout_okD [OF ok]
  have lo: "length old = slot_len (data pg) (unat s)" using i l(6) [OF i(1,2)] l(1) by (simp add: slot_val_def)
  have "slot_len (data pg) (unat s) \<le> (\<Sum>j<nslots (data pg). slot_len (data pg) j)"
    using i(1) by (intro member_le_sum) simp_all
  moreover have "28 \<le> hdr (data pg)" using l(7) [OF i(1)] by simp
  ultimately have "free_bytes pg + length old \<le> 4068" using l(2,4) lo by (simp add: free_bytes_def)
  then show ?thesis using old len by (simp add: update_fits_def)
qed

context mem_pool
begin

lemma pages_bound:
  "n' \<in> {n, n + 1} \<Longrightarrow> unat (n :: PageId) + 1 < 2 ^ 32 \<Longrightarrow> unat n' \<le> unat n + 1"
  by (auto simp: unat_word_ariths)

lemma view_outside: "hf_ok mp inv pages hf m \<Longrightarrow> num_pages mp m hf \<le> p \<Longrightarrow> hf_view pages hf m (p, s) = None"
  using page_key [of m "hf_c_id hf" p] by (auto simp: hf_view_def hf_ok_def num_pages_def split: option.splits)

lemma file_exec_sim:
  assumes ok: "hf_ok mp inv pages hf m" and e: "file_allows e" and room: "0 < free m" "unat (num_pages mp m hf) + 1 < 2 ^ 32"
  shows "\<exists>m' a. file_exec mp hf m e = Some (m', a) \<and> hf_ok mp inv pages hf m' \<and> others_same mp pages hf m m' \<and>
    file_spec (hf_view pages hf m) e a (hf_view pages hf m') \<and> free m \<le> Suc (free m') \<and>
    unat (num_pages mp m' hf) \<le> unat (num_pages mp m hf) + 1"
proof (cases e)
  case (FGet p s)
  obtain m' where "get_val mp m hf p s = Some (m', if num_pages mp m hf \<le> p then Inl (c_err ''Page not found'')
      else case hf_view pages hf m (p, s) of None \<Rightarrow> Inl (c_err ''Value not found'') | Some v \<Rightarrow> Inr v)"
    "hf_kept mp inv pages free hf m m'" "hf_view pages hf m' = hf_view pages hf m"
    using get_val_law [OF ok] by blast
  then show ?thesis using FGet view_outside [OF ok, of p s]
    by (auto simp: hf_kept_def split: option.split intro: get_found get_none)
next
  case (FDelete p s)
  obtain m' where "delete_val mp m hf p s = Some (m', if num_pages mp m hf \<le> p then Inl (c_err ''Page not found'')
      else if hf_view pages hf m (p, s) = None then Inl (c_err ''Value not found or already deleted'') else Inr ())"
    "hf_kept mp inv pages free hf m m'" "hf_view pages hf m' = (hf_view pages hf m)((p, s) := None)"
    using delete_val_law [OF ok] by blast
  then show ?thesis using FDelete view_outside [OF ok, of p s] delete_none [of "hf_view pages hf m" p s] delete [of "hf_view pages hf m" p s]
    by (cases "hf_view pages hf m (p, s)") (auto simp: hf_kept_def fun_upd_idem)
next
  case (FAdd v)
  then have v: "v \<noteq> []" using e by simp
  obtain m' r where m: "add_val mp m hf v = Some (m', r)" "hf_ok mp inv pages hf m'" "others_same mp pages hf m m'"
    "free m \<le> Suc (free m')" "num_pages mp m' hf \<in> {num_pages mp m hf, num_pages mp m hf + 1}"
    "if length v < 4068
     then \<exists>p s. r = Inr (ValueId_new_slot (hf_c_id hf) p s) \<and> hf_view pages hf m (p, s) = None \<and>
       hf_view pages hf m' = (hf_view pages hf m)((p, s) \<mapsto> v)
     else r = Inl (c_err ''Value too large to fit in a single page'') \<and> hf_view pages hf m' = hf_view pages hf m"
    using add_val_law [OF ok v room] by blast
  have "file_spec (hf_view pages hf m) e (id_answer hf r) (hf_view pages hf m')"
    using m(6) FAdd by (auto simp: id_answer_def ValueId_new_slot_def intro: add add_large split: if_splits)
  then show ?thesis using FAdd m(1-5) pages_bound [OF m(5) room(2)] by simp
next
  case (FUpdate p s v)
  then have v: "v \<noteq> []" using e by simp
  let ?V = "hf_view pages hf m"
  obtain m' r where m: "update_val mp m hf p s v = Some (m', r)" "hf_ok mp inv pages hf m'" "others_same mp pages hf m m'"
    "free m \<le> Suc (free m')" "num_pages mp m' hf \<in> {num_pages mp m hf, num_pages mp m hf + 1}"
    "if num_pages mp m hf \<le> p then r = Inl (c_err ''Page not found'') \<and> hf_view pages hf m' = ?V
     else if ?V (p, s) = None
     then r = Inl (c_err ''Update failed: slot not found'') \<and> hf_view pages hf m' = ?V
     else (\<exists>p' s'. r = Inr (ValueId_new_slot (hf_c_id hf) p' s') \<and> ((p', s') = (p, s) \<or> ?V (p', s') = None) \<and>
         hf_view pages hf m' = ?V((p, s) := None, (p', s') \<mapsto> v)) \<or>
       4068 \<le> length v \<and> r = Inl (c_err ''Value too large to fit in a single page'') \<and> hf_view pages hf m' = ?V((p, s) := None)"
    using update_val_any_law [OF ok v room, of p s] by blast
  have "file_spec ?V e (id_answer hf r) (hf_view pages hf m')"
  proof (cases "?V (p, s) = None")
    case True
    then have "\<exists>x. r = Inl x \<and> hf_view pages hf m' = ?V" using m(6) by (auto split: if_splits)
    then show ?thesis using FUpdate update_none [of ?V p s, OF True] by (auto simp: id_answer_def)
  next
    case False
    then consider p' s' where "r = Inr (ValueId_new_slot (hf_c_id hf) p' s')" "(p', s') = (p, s) \<or> ?V (p', s') = None"
        "hf_view pages hf m' = ?V((p, s) := None, (p', s') \<mapsto> v)"
      | x where "4068 \<le> length v" "r = Inl x" "hf_view pages hf m' = ?V((p, s) := None)"
      using m(6) view_outside [OF ok, of p s] by (auto split: if_splits)
    then show ?thesis
    proof cases
      case 1
      then show ?thesis using FUpdate update [of ?V p s, OF False 1(2)] by (simp add: id_answer_def ValueId_new_slot_def)
    next
      case 2
      then show ?thesis using FUpdate update_large [of ?V p s, OF False 2(1)] by (simp add: id_answer_def)
    qed
  qed
  then show ?thesis using FUpdate m(1-5) pages_bound [OF m(5) room(2)] by simp
qed

lemma file_run_sim:
  "hf_ok mp inv pages hf m \<Longrightarrow> \<forall>e\<in>set es. file_allows e \<Longrightarrow> length es \<le> free m \<Longrightarrow>
   unat (num_pages mp m hf) + length es < 2 ^ 32 \<Longrightarrow>
   \<exists>m' as. file_run mp hf m es = Some (m', as) \<and> hf_ok mp inv pages hf m' \<and> others_same mp pages hf m m' \<and>
     file_specs (hf_view pages hf m) es as (hf_view pages hf m')"
proof (induction es arbitrary: m)
  case Nil
  then show ?case by (simp add: file_specs.none)
next
  case (Cons e es)
  obtain m1 a where m1: "file_exec mp hf m e = Some (m1, a)" "hf_ok mp inv pages hf m1" "others_same mp pages hf m m1"
    "file_spec (hf_view pages hf m) e a (hf_view pages hf m1)" "free m \<le> Suc (free m1)"
    "unat (num_pages mp m1 hf) \<le> unat (num_pages mp m hf) + 1"
    using file_exec_sim [OF Cons.prems(1), of e] Cons.prems(2-4) by auto
  obtain m2 as where m2: "file_run mp hf m1 es = Some (m2, as)" "hf_ok mp inv pages hf m2" "others_same mp pages hf m1 m2"
    "file_specs (hf_view pages hf m1) es as (hf_view pages hf m2)"
    using Cons.IH [OF m1(2)] Cons.prems(2-4) m1(5,6) by auto
  have "file_specs (hf_view pages hf m) (e # es) (a # as) (hf_view pages hf m2)"
    by (rule file_specs.step [OF m1(4) m2(4)])
  then show ?case using m1(1) m2(1,2) others_same_trans [OF m1(3) m2(3)] by auto
qed

lemma page_items_set:
  assumes ok: "hf_ok mp inv pages hf m" and p: "p < unat (num_pages mp m hf)" "0 < p"
  shows "set (page_items hf (\<lambda>x. pages m (hf_c_id hf, x)) p 0) =
    {(v, ValueId_new_slot (hf_c_id hf) (word_of_nat p) s) | v s. hf_view pages hf m (word_of_nat p, s) = Some v}"
proof -
  let ?p = "word_of_nat p :: PageId"
  have "unat (num_pages mp m hf) < 2 ^ 32" using unsigned_less [of "num_pages mp m hf"] by simp
  then have u: "unat ?p = p" using p(1) by (simp add: unat_of_nat)
  then have lt: "?p < num_pages mp m hf" "?p \<noteq> 0" using p by (auto simp: word_less_nat_alt)
  obtain pg where pg: "pages m (hf_c_id hf, ?p) = Some pg" "file_page_ok ?p pg" by (rule hf_page [OF ok lt(1)])
  have "layout_ok (data pg)" using file_page_okD(3) [OF pg(2) lt(2)] by (simp add: heap_wf_def)
  then show ?thesis using pg(1) set_entries [of pg] hf_view_page [OF pg(1)]
    by (auto simp: page_items_def entries_def)
qed

lemma items_set:
  assumes ok: "hf_ok mp inv pages hf m"
  shows "set (items_from hf (\<lambda>x. pages m (hf_c_id hf, x)) (num_pages mp m hf) 1 0) =
    {(v, ValueId_new_slot (hf_c_id hf) p s) | v p s. hf_view pages hf m (p, s) = Some v}" (is "?L = ?R")
proof -
  let ?n = "unat (num_pages mp m hf)" and ?P = "\<lambda>x. pages m (hf_c_id hf, x)"
  have L: "?L = (\<Union>p\<in>{1..<?n}. set (page_items hf ?P p 0))"
    unfolding items_from_start by simp
  have "x \<in> ?L" if xR: "x \<in> ?R" for x
  proof -
    obtain v p s where x: "x = (v, ValueId_new_slot (hf_c_id hf) p s)" "hf_view pages hf m (p, s) = Some v" using xR by blast
    have p: "p < num_pages mp m hf" using view_outside [OF ok, of p s] x(2) by (metis linorder_not_le option.distinct(1))
    obtain pg where pg: "pages m (hf_c_id hf, p) = Some pg" "file_page_ok p pg" by (rule hf_page [OF ok p])
    have "p \<noteq> 0"
    proof
      assume z: "p = 0"
      then show False using no_slots(4) [OF file_page_okD(1) [OF pg(2)] file_page_okD(4) [OF pg(2) z]] x(2) hf_view_page [OF pg(1)] by simp
    qed
    then have "unat p \<in> {1..<?n}" using p by (auto simp: word_less_nat_alt Suc_le_eq unat_gt_0)
    then show ?thesis unfolding L using x page_items_set [OF ok, of "unat p"] by fastforce
  qed
  moreover have "x \<in> ?R" if "x \<in> ?L" for x
    using that page_items_set [OF ok] unfolding L by fastforce
  ultimately show ?thesis by blast
qed

lemma items_distinct:
  assumes ok: "hf_ok mp inv pages hf m"
  shows "distinct (map snd (items_from hf (\<lambda>x. pages m (hf_c_id hf, x)) (num_pages mp m hf) 1 0))"
proof -
  let ?n = "unat (num_pages mp m hf)" and ?P = "\<lambda>x. pages m (hf_c_id hf, x)"
  have n: "?n < 2 ^ 32" using unsigned_less [of "num_pages mp m hf"] by simp
  have one: "distinct (map snd (page_items hf ?P p 0))" if "p < ?n" "0 < p" for p
  proof -
    have "unat (word_of_nat p :: PageId) = p" using n that by (simp add: unat_of_nat)
    then have lt: "(word_of_nat p :: PageId) < num_pages mp m hf" "(word_of_nat p :: PageId) \<noteq> 0"
      using that by (auto simp: word_less_nat_alt)
    obtain pg where pg: "pages m (hf_c_id hf, word_of_nat p) = Some pg" "file_page_ok (word_of_nat p) pg" by (rule hf_page [OF ok lt(1)])
    have "layout_ok (data pg)" using file_page_okD(3) [OF pg(2) lt(2)] by (simp add: heap_wf_def)
    then have "distinct (map snd (entries pg))" using sorted_entries strict_sorted_iff by blast
    then have "distinct (map (ValueId_new_slot (hf_c_id hf) (word_of_nat p)) (map snd (entries pg)))"
      by (simp only: distinct_map [of _ "map snd (entries pg)"]) (auto simp: inj_on_def ValueId_new_slot_def)
    then show ?thesis using pg(1) by (simp add: page_items_def entries_def case_prod_beta' comp_def)
  qed
  have page: "page_id (snd x) = Some (word_of_nat p)" if "x \<in> set (page_items hf ?P p c)" for x p c
    using that by (auto simp: page_items_def ValueId_new_slot_def split: option.splits)
  have all: "distinct (map snd (concat (map (\<lambda>q. page_items hf ?P q 0) ps)))"
    if "distinct ps" "\<forall>p\<in>set ps. 0 < p \<and> p < ?n" for ps
    using that
  proof (induction ps)
    case (Cons p ps)
    have "snd x \<noteq> snd y" if "x \<in> set (page_items hf ?P p 0)" "q \<in> set ps" "y \<in> set (page_items hf ?P q 0)" for x y q
    proof -
      have "(word_of_nat p :: PageId) \<noteq> word_of_nat q" using Cons.prems that(2) n by (auto simp: word_unat_eq_iff unat_of_nat)
      then show ?thesis using page [OF that(1)] page [OF that(3)] by auto
    qed
    then show ?case using Cons one [of p] by (auto simp: disjoint_iff)
  qed simp
  show ?thesis unfolding items_from_start by (rule all) auto
qed

lemma scan_all:
  assumes ok: "hf_ok mp inv pages hf m"
  shows "\<exists>st xs. drain (scan_next mp) (Suc (length xs)) (m, hf_iter hf) = Some (st, xs) \<and>
    set xs = {(v, ValueId_new_slot (hf_c_id hf) p s) | v p s. hf_view pages hf m (p, s) = Some v} \<and> distinct (map snd xs)"
proof -
  let ?P = "\<lambda>x. pages m (hf_c_id hf, x)" and ?n = "num_pages mp m hf"
  let ?xs = "items_from hf ?P ?n 1 0"
  have "scan_ok mp inv pages hf ?P ?n (m, hf_iter hf)"
    using ok by (simp add: scan_ok_def hf_iter_def HeapFileIter_new_from_def)
  moreover have rem: "scan_rem hf ?P ?n (m, hf_iter hf) = ?xs"
    by (simp add: scan_rem_def hf_iter_def HeapFileIter_new_from_def)
  ultimately have "\<exists>st. drain (scan_next mp) (Suc (length ?xs)) (m, hf_iter hf) = Some (st, ?xs)"
    using iterator.drain_rem [OF scan_iterator, of hf ?P ?n "(m, hf_iter hf)" "Suc (length ?xs)"] by auto
  then show ?thesis using items_set [OF ok] items_distinct [OF ok] by blast
qed

text \<open>A new file, and any sequence of operations on it.\<close>

lemma new_file_run:
  assumes inv: "inv m" and new: "\<forall>p. pages m (c, p) = None" and es: "\<forall>e\<in>set es. file_allows e"
    and room: "length es < free m" "length es + 1 < 2 ^ 32"
  shows "\<exists>m1 m2 as. HeapFile_new mp m c = Some (m1, Inr \<lparr>hf_c_id = c\<rparr>) \<and>
    file_run mp \<lparr>hf_c_id = c\<rparr> m1 es = Some (m2, as) \<and> hf_ok mp inv pages \<lparr>hf_c_id = c\<rparr> m2 \<and>
    file_specs (\<lambda>_. None) es as (hf_view pages \<lparr>hf_c_id = c\<rparr> m2) \<and> (\<forall>k. fst k \<noteq> c \<longrightarrow> pages m2 k = pages m k)"
proof -
  let ?hf = "\<lparr>hf_c_id = c\<rparr>"
  obtain m1 where m1: "HeapFile_new mp m c = Some (m1, Inr ?hf)" "hf_ok mp inv pages ?hf m1" "num_pages mp m1 ?hf = 1"
    "hf_view pages ?hf m1 = (\<lambda>_. None)" "others_same mp pages ?hf m m1" "free m \<le> Suc (free m1)"
    using HeapFile_new_law [OF inv new] room(1) by auto
  obtain m2 as where "file_run mp ?hf m1 es = Some (m2, as)" "hf_ok mp inv pages ?hf m2" "others_same mp pages ?hf m1 m2"
    "file_specs (hf_view pages ?hf m1) es as (hf_view pages ?hf m2)"
    using file_run_sim [OF m1(2) es] m1(3,6) room by auto
  then show ?thesis using m1 others_same_trans [OF m1(5)] by (auto simp: others_same_def simp del: split_paired_All)
qed

lemma update_large_law:
  assumes ok: "hf_ok mp inv pages hf m" and old: "hf_view pages hf m (p, s) = Some old"
    and len: "length old < length v" "4068 \<le> length v" and room: "0 < free m" "unat (num_pages mp m hf) + 1 < 2 ^ 32"
  shows "\<exists>m'. update_val mp m hf p s v = Some (m', Inl (c_err ''Value too large to fit in a single page'')) \<and>
    hf_view pages hf m' = (hf_view pages hf m)((p, s) := None)"
proof -
  have lt: "p < num_pages mp m hf" using view_outside [OF ok, of p s] old by (metis linorder_not_le option.distinct(1))
  have ge: "\<not> num_pages mp m hf \<le> p" using lt by simp
  have v: "v \<noteq> []" using len by auto
  obtain q i pg where q: "hf_get_page_for_write mp m hf p = Some (q, i)" "mp_page mp q i = pg" "file_page_ok p pg"
    "pages m (hf_c_id hf, p) = Some pg"
    "\<forall>pg'. file_page_ok p pg' \<longrightarrow> page_put mp inv pages free hf p pg' m (mp_put mp q i pg')"
    by (rule hf_write [OF ok lt])
  have hv: "heap_view pg s = Some old" using old hf_view_page [OF q(4)] by simp
  have "p \<noteq> 0" using no_slots(4) file_page_okD [OF q(3)] hv by (metis option.distinct(1))
  then have nf: "\<not> update_fits pg s v" using large_update_refused [OF file_page_okD(3) [OF q(3)] hv len] by simp
  obtain pg' where u: "update_value pg s v = Some (pg', if update_fits pg s v then Some () else None)" "\<not> update_fits pg s v \<longrightarrow> pg' = pg"
    using file_update_value [OF q(3) v] by metis
  obtain pg2 where d: "delete_value pg s = Some (pg2, if heap_view pg s = None then None else Some ())"
    "file_page_ok p pg2" "heap_view pg2 = (heap_view pg)(s := None)"
    by (rule file_delete_value [OF q(3)])
  let ?m = "mp_put mp q i pg2"
  have put: "page_put mp inv pages free hf p pg2 m ?m" using q(5) d(2) by blast
  note kept = hf_keptD [OF page_put_kept [OF put]]
  obtain m' where "add_val mp ?m hf v = Some (m', Inl (c_err ''Value too large to fit in a single page''))"
    "hf_view pages hf m' = hf_view pages hf ?m"
    using add_val_law [OF kept(1) v] room kept(3,4) len(2) by auto
  moreover have "hf_view pages hf ?m = (hf_view pages hf m)((p, s) := None)" by (rule page_put_view [OF put q(4) d(3)])
  ultimately show ?thesis using ge q(1,2) u nf d(1) hv file_get_value [OF q(3)] by (simp add: update_val_def)
qed

end

section \<open>Properties\<close>



text \<open>C14: Scanning a heap file of a consistent buffer pool, in which the pages of all containers fit into the frames,
  ends without a panic after one call of \<open>next\<close> per value and one more, and returns every value with its record id,
  each exactly once. (With more pages than frames a page that is not in memory cannot be read.)\<close>

theorem heap_file_scan:
  assumes "posix_ok ps content" and "hf_ok (bp_pool ps) (pool_ok content) (bp_page content) hf bp"
  shows "\<exists>st xs. drain (scan_next (bp_pool ps)) (Suc (length xs)) (bp, hf_iter hf) = Some (st, xs) \<and>
    set xs = {(v, ValueId_new_slot (hf_c_id hf) p s) | v p s. hf_view (bp_page content) hf bp (p, s) = Some v} \<and>
    distinct (map snd xs)"
  by (rule mem_pool.scan_all [OF bp_mem_pool [OF assms(1)] assms(2)])

theorem heap_file_scan_witness:
  "\<exists>bp bp1 st xs. BufferPool_new some_env 4 no_files = Some bp \<and>
     HeapFile_new (bp_pool posix_mem) bp 9 = Some (bp1, Inr \<lparr>hf_c_id = 9\<rparr>) \<and>
     drain (scan_next (bp_pool posix_mem)) (Suc (length xs)) (bp1, hf_iter \<lparr>hf_c_id = 9\<rparr>) = Some (st, xs)"
proof -
  obtain bp where bp: "BufferPool_new some_env 4 no_files = Some bp" "pool_ok (\<lambda>f. f) bp"
    "bp_page (\<lambda>f. f) bp = (\<lambda>_. None)" "bp_free bp = 4"
    using empty_pool [of 4 "\<lambda>f. f"] by auto
  then obtain bp1 where "HeapFile_new (bp_pool posix_mem) bp 9 = Some (bp1, Inr \<lparr>hf_c_id = 9\<rparr>)"
    "hf_ok (bp_pool posix_mem) (pool_ok (\<lambda>f. f)) (bp_page (\<lambda>f. f)) \<lparr>hf_c_id = 9\<rparr> bp1"
    using mem_pool.HeapFile_new_law [OF bp_mem_pool [OF posix_mem_ok], of bp 9] by auto
  with heap_file_scan [OF posix_mem_ok this(2)] bp(1) show ?thesis by blast
qed

text \<open>C15: \<open>update_val\<close> with a value that fits on no page reports an error, but the value it was to replace is
  gone.\<close>

theorem update_too_large_loses_value:
  assumes "posix_ok ps content" and "hf_ok (bp_pool ps) (pool_ok content) (bp_page content) hf bp"
    and "hf_view (bp_page content) hf bp (p, s) = Some old" and "length old < length v" and "4068 \<le> length v"
    and "0 < bp_free bp" and "unat (num_pages (bp_pool ps) bp hf) + 1 < 2 ^ 32"
  shows "\<exists>bp'. update_val (bp_pool ps) bp hf p s v = Some (bp', Inl (c_err ''Value too large to fit in a single page'')) \<and>
    hf_view (bp_page content) hf bp' (p, s) = None"
proof -
  obtain bp' where "update_val (bp_pool ps) bp hf p s v = Some (bp', Inl (c_err ''Value too large to fit in a single page''))"
    "hf_view (bp_page content) hf bp' = (hf_view (bp_page content) hf bp)((p, s) := None)"
    using mem_pool.update_large_law [OF bp_mem_pool [OF assms(1)] assms(2-7)] by blast
  then show ?thesis by simp
qed

theorem update_too_large_loses_value_witness:
  "\<exists>bp p s bp'. hf_view (bp_page (\<lambda>f. f)) \<lparr>hf_c_id = 9\<rparr> bp (p, s) = Some [1] \<and>
     update_val (bp_pool posix_mem) bp \<lparr>hf_c_id = 9\<rparr> p s (replicate 4068 0) =
       Some (bp', Inl (c_err ''Value too large to fit in a single page'')) \<and>
     hf_view (bp_page (\<lambda>f. f)) \<lparr>hf_c_id = 9\<rparr> bp' (p, s) = None"
proof -
  note bpm = bp_mem_pool [OF posix_mem_ok]
  let ?mp = "bp_pool posix_mem" and ?I = "pool_ok (\<lambda>f. f)" and ?P = "bp_page (\<lambda>f. f)" and ?hf = "\<lparr>hf_c_id = 9\<rparr>"
  obtain bp where bp: "?I bp" "?P bp = (\<lambda>_. None)" "bp_free bp = 4"
    using empty_pool [of 4 "\<lambda>f. f"] by auto
  then obtain bp1 where bp1: "hf_ok ?mp ?I ?P ?hf bp1" "num_pages ?mp bp1 ?hf = 1" "4 \<le> Suc (bp_free bp1)"
    "hf_view ?P ?hf bp1 = (\<lambda>_. None)"
    using mem_pool.HeapFile_new_law [OF bpm, of bp 9] by auto
  have v: "[1 :: u8] \<noteq> []" by simp
  have room1: "0 < bp_free bp1" "unat (num_pages ?mp bp1 ?hf) + 1 < 2 ^ 32" using bp1(2,3) by simp_all
  obtain bp2 p s where bp2: "hf_ok ?mp ?I ?P ?hf bp2" "bp_free bp1 \<le> Suc (bp_free bp2)"
    "num_pages ?mp bp2 ?hf \<in> {num_pages ?mp bp1 ?hf, num_pages ?mp bp1 ?hf + 1}"
    "hf_view ?P ?hf bp2 = (hf_view ?P ?hf bp1)((p, s) \<mapsto> [1])"
    using mem_pool.add_val_law [OF bpm bp1(1) v room1] by (auto simp only: list.size split: if_splits)
  have view: "hf_view ?P ?hf bp2 (p, s) = Some [1]" using bp2(4) by simp
  have room: "0 < bp_free bp2" "unat (num_pages ?mp bp2 ?hf) + 1 < 2 ^ 32" using bp1(2,3) bp2(2,3) by auto
  from update_too_large_loses_value [OF posix_mem_ok bp2(1) view, of "replicate 4068 0"] room view show ?thesis by auto
qed

end
