(* ===== verification/Scalars.thy ===== *)
theory Scalars
  imports Prelude
begin

text \<open>
  What the sources use of the standard library on scalars: signed arithmetic that panics on overflow,
  the decimal text of integers and its parser, splitting and joining of strings, and the UTF-8 check of
  \<open>String::from_utf8\<close>. A Rust string is the list of its bytes, each a \<open>char\<close>.
\<close>

section \<open>Signed arithmetic\<close>

text \<open>The result of a signed operation: the exact integer when the type holds it, a panic otherwise.\<close>

definition checked_int :: "int \<Rightarrow> 'a::len word option" where
  "checked_int x =
     (if - (2 ^ (LENGTH('a) - 1)) \<le> x \<and> x < 2 ^ (LENGTH('a) - 1) then Some (word_of_int x) else None)"

definition i64_add :: "i64 \<Rightarrow> i64 \<Rightarrow> i64 option" where
  "i64_add a b = checked_int (sint a + sint b)"

definition i64_sub :: "i64 \<Rightarrow> i64 \<Rightarrow> i64 option" where
  "i64_sub a b = checked_int (sint a - sint b)"

definition i64_mul :: "i64 \<Rightarrow> i64 \<Rightarrow> i64 option" where
  "i64_mul a b = checked_int (sint a * sint b)"

text \<open>Division rounds towards zero; the only overflow is the least value divided by minus one.\<close>

definition i64_div :: "i64 \<Rightarrow> i64 \<Rightarrow> i64 option" where
  "i64_div a b = (if b = 0 then None
     else checked_int (sgn (sint a) * sgn (sint b) * (\<bar>sint a\<bar> div \<bar>sint b\<bar>)))"

definition i64_abs :: "i64 \<Rightarrow> i64 option" where
  "i64_abs a = checked_int \<bar>sint a\<bar>"

text \<open>\<open>10i64.pow(n)\<close>.\<close>

definition ten_pow :: "u32 \<Rightarrow> i64 option" where
  "ten_pow n = checked_int (10 ^ unat n)"

lemma sint_checked_int: "checked_int x = Some (w :: 'a::len word) \<Longrightarrow> sint w = x"
  by (auto simp: checked_int_def sint_sbintrunc' signed_take_bit_int_eq_self split: if_splits)

lemma sint_bounds:
  "- (2 ^ (LENGTH('a) - 1)) \<le> sint (w :: 'a::len word)" "sint w < 2 ^ (LENGTH('a) - 1)"
  using sint_range_size [of w] by (simp_all add: word_size)

lemma checked_int_sint [simp]: "checked_int (sint (w :: 'a::len word)) = Some w"
  using sint_bounds [of w] by (simp add: checked_int_def)

lemma checked_int_eq_Some: "checked_int x = Some (w :: 'a::len word) \<longleftrightarrow> sint w = x"
  using sint_checked_int [of x w] checked_int_sint [of w] by blast

lemma sint_inject [simp]: "sint (a :: 'a::len word) = sint b \<longleftrightarrow> a = b"
  by (metis checked_int_sint option.inject)

lemma uint_inject [simp]: "uint (a :: 'a::len word) = uint b \<longleftrightarrow> a = b"
  by (rule word_uint_eq_iff [symmetric])

section \<open>Integers as text\<close>

text \<open>\<open>to_string\<close> of an unsigned and of a signed integer.\<close>

definition digit_char :: "nat \<Rightarrow> char" where
  "digit_char d = char_of (48 + d)"

fun dec_nat :: "nat \<Rightarrow> string" where
  "dec_nat n = (if n < 10 then [digit_char n] else dec_nat (n div 10) @ [digit_char (n mod 10)])"

declare dec_nat.simps [simp del]

definition dec_int :: "int \<Rightarrow> string" where
  "dec_int i = (if i < 0 then CHR ''-'' # dec_nat (nat (- i)) else dec_nat (nat i))"

text \<open>\<open>str::parse\<close> of an integer type: an optional sign, at least one digit, nothing else, and a value
  the type holds. \<open>None\<close> is the parse error.\<close>

definition is_digit :: "char \<Rightarrow> bool" where
  "is_digit c = (48 \<le> (of_char c :: nat) \<and> (of_char c :: nat) < 58)"

definition digit_val :: "char \<Rightarrow> nat" where
  "digit_val c = of_char c - 48"

definition parse_digits :: "string \<Rightarrow> nat option" where
  "parse_digits s = (if s \<noteq> [] \<and> list_all is_digit s
     then Some (foldl (\<lambda>n c. 10 * n + digit_val c) 0 s) else None)"

definition parse_signed :: "string \<Rightarrow> 'a::len word option" where
  "parse_signed s = (case s of
     [] \<Rightarrow> None
   | c # t \<Rightarrow>
       if c = CHR ''-'' then do { n \<leftarrow> parse_digits t; checked_int (- int n) }
       else if c = CHR ''+'' then do { n \<leftarrow> parse_digits t; checked_int (int n) }
       else do { n \<leftarrow> parse_digits s; checked_int (int n) })"

lemma of_char_digit [simp]: "d < 10 \<Longrightarrow> (of_char (digit_char d) :: nat) = 48 + d"
  by (simp add: digit_char_def)

lemma is_digit_char [simp]: "d < 10 \<Longrightarrow> is_digit (digit_char d)"
  by (simp add: is_digit_def)

lemma digit_val_char [simp]: "d < 10 \<Longrightarrow> digit_val (digit_char d) = d"
  by (simp add: digit_val_def)

lemma dec_nat_not_Nil [simp]: "dec_nat n \<noteq> []"
  by (subst dec_nat.simps) simp

lemma dec_nat_digits: "list_all is_digit (dec_nat n)"
proof (induction n rule: dec_nat.induct)
  case (1 n)
  then show ?case by (subst dec_nat.simps) simp
qed

lemma foldl_digits_dec_nat: "foldl (\<lambda>n c. 10 * n + digit_val c) 0 (dec_nat n) = n"
proof (induction n rule: dec_nat.induct)
  case (1 n)
  then show ?case by (subst dec_nat.simps) simp
qed

lemma parse_digits_dec_nat [simp]: "parse_digits (dec_nat n) = Some n"
  by (simp add: parse_digits_def dec_nat_digits foldl_digits_dec_nat)

lemma hd_dec_nat: "dec_nat n = c # t \<Longrightarrow> is_digit c"
  using dec_nat_digits [of n] by simp

lemma sign_not_digit [simp]: "\<not> is_digit CHR ''-''" "\<not> is_digit CHR ''+''" "\<not> is_digit CHR ''.''"
  by (simp_all add: is_digit_def)

lemma parse_signed_nat: "parse_signed (dec_nat n) = checked_int (int n)"
proof -
  obtain c t where ct: "dec_nat n = c # t" by (cases "dec_nat n") simp_all
  have "parse_digits (c # t) = Some n" by (simp flip: ct)
  with hd_dec_nat [OF ct] show ?thesis by (auto simp: parse_signed_def ct)
qed

lemma parse_signed_dec_int: "parse_signed (dec_int i) = checked_int i"
proof (cases "i < 0")
  case True
  then show ?thesis by (simp add: dec_int_def parse_signed_def)
next
  case False
  then show ?thesis by (simp add: dec_int_def parse_signed_nat)
qed

lemma parse_signed_sint [simp]: "parse_signed (dec_int (sint (w :: 'a::len word))) = Some w"
  by (simp add: parse_signed_dec_int)

section \<open>Splitting and joining\<close>

text \<open>\<open>s.split(c)\<close> yields at least one part; \<open>parts.join(c)\<close> puts it back.\<close>

fun str_split :: "'a \<Rightarrow> 'a list \<Rightarrow> 'a list list" where
  "str_split c [] = [[]]"
| "str_split c (x # xs) = (if x = c then [] # str_split c xs
     else (case str_split c xs of [] \<Rightarrow> [[x]] | p # ps \<Rightarrow> (x # p) # ps))"

fun str_join :: "'a list \<Rightarrow> 'a list list \<Rightarrow> 'a list" where
  "str_join s [] = []"
| "str_join s [p] = p"
| "str_join s (p # q # ps) = p @ s @ str_join s (q # ps)"

lemma str_split_no: "c \<notin> set xs \<Longrightarrow> str_split c xs = [xs]"
  by (induction xs) auto

lemma str_split_not_Nil [simp]: "str_split c xs \<noteq> []"
  by (cases xs) (auto split: list.splits)

lemma str_split_append: "c \<notin> set xs \<Longrightarrow> str_split c (xs @ c # ys) = xs # str_split c ys"
  by (induction xs) auto

lemma str_join_split: "str_join [c] (str_split c xs) = xs"
proof (induction xs)
  case Nil
  show ?case by simp
next
  case (Cons x xs)
  obtain p ps where ps: "str_split c xs = p # ps" by (cases "str_split c xs") simp_all
  show ?case
  proof (cases "x = c")
    case True
    with Cons ps show ?thesis by simp
  next
    case False
    with Cons ps show ?thesis by (cases ps) simp_all
  qed
qed

section \<open>UTF-8\<close>

text \<open>The check of \<open>String::from_utf8\<close>: no overlong forms, no surrogates, nothing above U+10FFFF.\<close>

definition utf8_width :: "u8 \<Rightarrow> nat" where
  "utf8_width a = (if a < 0x80 then 1
     else if 0xC2 \<le> a \<and> a \<le> 0xDF then 2
     else if 0xE0 \<le> a \<and> a \<le> 0xEF then 3
     else if 0xF0 \<le> a \<and> a \<le> 0xF4 then 4
     else 0)"

definition utf8_second :: "u8 \<Rightarrow> u8 \<Rightarrow> bool" where
  "utf8_second a b = ((a = 0xE0 \<longrightarrow> 0xA0 \<le> b) \<and> (a = 0xED \<longrightarrow> b \<le> 0x9F) \<and>
     (a = 0xF0 \<longrightarrow> 0x90 \<le> b) \<and> (a = 0xF4 \<longrightarrow> b \<le> 0x8F))"

definition utf8_cont :: "u8 \<Rightarrow> bool" where
  "utf8_cont b = (0x80 \<le> b \<and> b \<le> 0xBF)"

fun utf8_ok :: "bytes \<Rightarrow> bool" where
  "utf8_ok [] = True"
| "utf8_ok (a # r) = (let n = utf8_width a in
     0 < n \<and> n - 1 \<le> length r \<and> list_all utf8_cont (take (n - 1) r) \<and>
     (n = 1 \<or> utf8_second a (hd r)) \<and> utf8_ok (drop (n - 1) r))"

lemma utf8_ok_append: "utf8_ok xs \<Longrightarrow> utf8_ok ys \<Longrightarrow> utf8_ok (xs @ ys)"
proof (induction xs rule: utf8_ok.induct)
  case 1
  then show ?case by simp
next
  case (2 a r)
  define n where "n = utf8_width a"
  have p: "0 < n" "n - 1 \<le> length r" "list_all utf8_cont (take (n - 1) r)"
    "n = 1 \<or> utf8_second a (hd r)" "utf8_ok (drop (n - 1) r)"
    using "2.prems"(1) by (simp_all add: Let_def n_def)
  have "n = 1 \<or> utf8_second a (hd (r @ ys))" using p(1,2,4) by (cases r) auto
  with p "2.IH" [OF n_def p(5) "2.prems"(2)] show ?case by (simp add: Let_def flip: n_def)
qed

lemma utf8_ok_ascii: "list_all (\<lambda>b. b < 0x80) bs \<Longrightarrow> utf8_ok bs"
  by (induction bs) (simp_all add: utf8_width_def)

text \<open>\<open>as_bytes\<close> and its inverse on the bytes themselves.\<close>

definition str_bytes :: "string \<Rightarrow> bytes" where
  "str_bytes s = map (\<lambda>c. word_of_nat (of_char c)) s"

definition bytes_str :: "bytes \<Rightarrow> string" where
  "bytes_str bs = map (\<lambda>b. char_of (unat b)) bs"

definition from_utf8 :: "bytes \<Rightarrow> string option" where
  "from_utf8 bs = (if utf8_ok bs then Some (bytes_str bs) else None)"

lemma length_str_bytes [simp]: "length (str_bytes s) = length s"
  by (simp add: str_bytes_def)

lemma bytes_str_bytes [simp]: "bytes_str (str_bytes s) = s"
proof -
  have "char_of (unat (word_of_nat (of_char c) :: u8)) = c" for c :: char
    using nat_of_char_less_256 [of c] by (simp add: unat_of_nat)
  then show ?thesis by (induction s) (simp_all add: str_bytes_def bytes_str_def)
qed

lemma str_bytes_str [simp]: "str_bytes (bytes_str bs) = bs"
proof -
  have "word_of_nat (of_char (char_of (unat b) :: char)) = b" for b :: u8
  proof -
    have "unat b < 256" using unsigned_less [of b, where 'a = nat] by simp
    then have "unat b mod 256 = unat b" by simp
    then show ?thesis by (simp add: of_char_of del: mod_less)
  qed
  then show ?thesis by (induction bs) (simp_all add: str_bytes_def bytes_str_def)
qed

lemma bytes_str_append [simp]: "bytes_str (xs @ ys) = bytes_str xs @ bytes_str ys"
  by (simp add: bytes_str_def)

lemma bytes_str_zeros [simp]: "bytes_str (replicate n 0) = replicate n CHR 0x00"
proof -
  have "char_of (0 :: nat) = CHR 0x00" by code_simp
  then show ?thesis by (simp add: bytes_str_def)
qed

lemma from_utf8_str_bytes [simp]: "utf8_ok (str_bytes s) \<Longrightarrow> from_utf8 (str_bytes s) = Some s"
  by (simp add: from_utf8_def)

end
