(* ===== verification/StorageManager.thy ===== *)
theory StorageManager
  imports HeapFileProps Scalars
begin

text \<open>
  The storage manager of the heap store, heapstore/src/storage_manager.rs: the buffer pool with its files
  and the map from containers to heap files. Its state is threaded through every call; \<open>None\<close> is a panic.
\<close>

section \<open>State and operations\<close>

record 'f StorageManager =
  sm_bp :: "'f BufferPool"
  cid_heapfile_map :: "(ContainerId \<times> HeapFile) list"

abbreviation (input) BP_FRAMES :: nat where "BP_FRAMES \<equiv> 1000"

definition get_heapfile :: "'f StorageManager \<Rightarrow> ContainerId \<Rightarrow> CrustyError + HeapFile" where
  "get_heapfile sm c = (case map_of (cid_heapfile_map sm) c of
     None \<Rightarrow> Inl (c_err (''Container '' @ dec_nat (unat c) @ '' not found''))
   | Some hf \<Rightarrow> Inr hf)"

text \<open>\<open>get_heapfile(..).unwrap()\<close>.\<close>

definition the_heapfile :: "'f StorageManager \<Rightarrow> ContainerId \<Rightarrow> HeapFile option" where
  "the_heapfile sm c = (case get_heapfile sm c of Inl _ \<Rightarrow> None | Inr hf \<Rightarrow> Some hf)"

definition get_num_pages :: "'f posix \<Rightarrow> 'f StorageManager \<Rightarrow> ContainerId \<Rightarrow> PageId" where
  "get_num_pages ps sm c =
     (case get_heapfile sm c of Inl _ \<Rightarrow> 0 | Inr hf \<Rightarrow> num_pages (bp_pool ps) (sm_bp sm) hf)"

text \<open>\<open>new\<close>: a heap file for every container found in the directory.\<close>

definition StorageManager_new :: "'f posix \<Rightarrow> evict_env \<Rightarrow> (ContainerId \<times> 'f) list \<Rightarrow> 'f StorageManager option" where
  "StorageManager_new ps en dir = do {
     cat \<leftarrow> ContainerFileCatalog_new ps dir False;
     bp \<leftarrow> BufferPool_new en BP_FRAMES cat;
     Some \<lparr>sm_bp = bp, cid_heapfile_map = map (\<lambda>c. (c, \<lparr>hf_c_id = c\<rparr>)) (container_ids cat)\<rparr> }"

definition StorageManager_new_test_sm :: "'f posix \<Rightarrow> evict_env \<Rightarrow> 'f StorageManager option" where
  "StorageManager_new_test_sm ps en = do {
     cat \<leftarrow> ContainerFileCatalog_new ps [] True;
     bp \<leftarrow> BufferPool_new en BP_FRAMES cat;
     Some \<lparr>sm_bp = bp, cid_heapfile_map = []\<rparr> }"

text \<open>The result of an operation on the pool, put back into the storage manager.\<close>

definition on_pool :: "'f StorageManager \<Rightarrow> ('f BufferPool, 'e, 'a) run \<Rightarrow> ('f StorageManager, 'e, 'a) run" where
  "on_pool sm r = map_option (\<lambda>(bp, x). (sm\<lparr>sm_bp := bp\<rparr>, x)) r"

definition sm_insert_value ::
  "'f posix \<Rightarrow> 'f StorageManager \<Rightarrow> ContainerId \<Rightarrow> bytes \<Rightarrow> ('f StorageManager \<times> ValueId) option" where
  "sm_insert_value ps sm c v = do {
     hf \<leftarrow> the_heapfile sm c;
     unwrap (on_pool sm (add_val (bp_pool ps) (sm_bp sm) hf v)) }"

definition sm_insert_values ::
  "'f posix \<Rightarrow> 'f StorageManager \<Rightarrow> ContainerId \<Rightarrow> bytes list \<Rightarrow> ('f StorageManager \<times> ValueId list) option" where
  "sm_insert_values ps sm c vs = do {
     hf \<leftarrow> the_heapfile sm c;
     unwrap (on_pool sm (add_vals (bp_pool ps) (sm_bp sm) hf vs)) }"

text \<open>The checks of an id: the page id, the slot id and the container, in this order.\<close>

definition with_id ::
  "'f StorageManager \<Rightarrow> ValueId \<Rightarrow> (HeapFile \<Rightarrow> PageId \<Rightarrow> SlotId \<Rightarrow> ('f BufferPool, CrustyError, 'a) run) \<Rightarrow>
   ('f StorageManager, CrustyError, 'a) run" where
  "with_id sm vid f = (case page_id vid of
     None \<Rightarrow> Some (sm, Inl (c_err ''Need page id''))
   | Some p \<Rightarrow> (case slot_id vid of
       None \<Rightarrow> Some (sm, Inl (c_err ''Need slot id''))
     | Some s \<Rightarrow> (case get_heapfile sm (container_id vid) of
         Inl e \<Rightarrow> Some (sm, Inl e)
       | Inr hf \<Rightarrow> on_pool sm (f hf p s))))"

definition sm_delete_value :: "'f posix \<Rightarrow> 'f StorageManager \<Rightarrow> ValueId \<Rightarrow> ('f StorageManager, CrustyError, unit) run" where
  "sm_delete_value ps sm vid = with_id sm vid (delete_val (bp_pool ps) (sm_bp sm))"

definition sm_update_value ::
  "'f posix \<Rightarrow> 'f StorageManager \<Rightarrow> bytes \<Rightarrow> ValueId \<Rightarrow> ('f StorageManager, CrustyError, ValueId) run" where
  "sm_update_value ps sm v vid = with_id sm vid (\<lambda>hf p s. update_val (bp_pool ps) (sm_bp sm) hf p s v)"

definition sm_get_value :: "'f posix \<Rightarrow> 'f StorageManager \<Rightarrow> ValueId \<Rightarrow> ('f StorageManager, CrustyError, bytes) run" where
  "sm_get_value ps sm vid = with_id sm vid (get_val (bp_pool ps) (sm_bp sm))"

definition sm_create_container :: "'f posix \<Rightarrow> 'f StorageManager \<Rightarrow> ContainerId \<Rightarrow> ('f StorageManager, CrustyError, unit) run" where
  "sm_create_container ps sm c =
     (if map_of (cid_heapfile_map sm) c \<noteq> None then Some (sm, Inl (c_err ''Container already exists''))
      else and_then (on_pool sm (HeapFile_new (bp_pool ps) (sm_bp sm) c)) (\<lambda>sm hf.
        Some (sm\<lparr>cid_heapfile_map := AList.update c hf (cid_heapfile_map sm)\<rparr>, Inr ())))"

definition sm_create_table :: "'f posix \<Rightarrow> 'f StorageManager \<Rightarrow> ContainerId \<Rightarrow> ('f StorageManager, CrustyError, unit) run" where
  "sm_create_table ps sm c = sm_create_container ps sm c"

text \<open>\<open>remove_container\<close> always panics.\<close>

definition sm_remove_container :: "'f StorageManager \<Rightarrow> ContainerId \<Rightarrow> ('f StorageManager, CrustyError, unit) run" where
  "sm_remove_container sm c = None"

definition sm_get_iterator :: "'f StorageManager \<Rightarrow> ContainerId \<Rightarrow> HeapFileIter option" where
  "sm_get_iterator sm c = do { hf \<leftarrow> the_heapfile sm c; Some (hf_iter hf) }"

definition sm_get_iterator_from :: "'f StorageManager \<Rightarrow> ContainerId \<Rightarrow> ValueId \<Rightarrow> HeapFileIter option" where
  "sm_get_iterator_from sm c start = do {
     assert_that (container_id start = c);
     p \<leftarrow> page_id start;
     s \<leftarrow> slot_id start;
     hf \<leftarrow> the_heapfile sm c;
     Some (hf_iter_from hf p s) }"

definition sm_reset :: "'f posix \<Rightarrow> 'f StorageManager \<Rightarrow> ('f StorageManager, CrustyError, unit) run" where
  "sm_reset ps sm = do {
     (bp, _) \<leftarrow> unwrap (bp_reset ps (sm_bp sm));
     let bp = bp\<lparr>cfc := remove_all (cfc bp)\<rparr>;
     Some (sm\<lparr>sm_bp := bp, cid_heapfile_map := []\<rparr>, Inr ()) }"

definition sm_clear_cache :: "'f posix \<Rightarrow> 'f StorageManager \<Rightarrow> 'f StorageManager option" where
  "sm_clear_cache ps sm = do {
     (bp, _) \<leftarrow> unwrap (bp_reset ps (sm_bp sm));
     Some (sm\<lparr>sm_bp := bp\<rparr>) }"

definition sm_shutdown :: "'f posix \<Rightarrow> 'f StorageManager \<Rightarrow> 'f StorageManager option" where
  "sm_shutdown ps sm = do {
     (bp, _) \<leftarrow> unwrap (bp_flush_all ps (sm_bp sm));
     Some (sm\<lparr>sm_bp := bp\<rparr>) }"

section \<open>The invariant\<close>

definition sm_ok :: "'f posix \<Rightarrow> ('f \<Rightarrow> bytes) \<Rightarrow> 'f StorageManager \<Rightarrow> bool" where
  "sm_ok ps content sm \<longleftrightarrow> pool_ok content (sm_bp sm) \<and>
     (\<forall>c hf. map_of (cid_heapfile_map sm) c = Some hf \<longrightarrow>
        hf_c_id hf = c \<and> hf_ok (bp_pool ps) (pool_ok content) (bp_page content) hf (sm_bp sm))"

text \<open>The value of a record id.\<close>

definition sm_view :: "('f \<Rightarrow> bytes) \<Rightarrow> 'f StorageManager \<Rightarrow> ContainerId \<times> PageId \<times> SlotId \<Rightarrow> bytes option" where
  "sm_view content sm = (\<lambda>(c, p, s). Option.bind (map_of (cid_heapfile_map sm) c) (\<lambda>hf.
     hf_view (bp_page content) hf (sm_bp sm) (p, s)))"

lemma hf_ok_others:
  assumes "others_same mp pages hf m m'" and "hf_c_id g \<noteq> hf_c_id hf" and "J m'" and "hf_ok mp J pages g m"
  shows "hf_ok mp J pages g m'" "hf_view pages g m' = hf_view pages g m"
  using assms by (auto simp: hf_ok_def others_same_def num_pages_def hf_view_def fun_eq_iff)

text \<open>An operation on the heap file of container \<open>c\<close>.\<close>

lemma sm_step:
  assumes ok: "sm_ok ps content sm" and hf: "map_of (cid_heapfile_map sm) c = Some hf"
    and bp: "hf_ok (bp_pool ps) (pool_ok content) (bp_page content) hf bp" "others_same (bp_pool ps) (bp_page content) hf (sm_bp sm) bp"
  shows "sm_ok ps content (sm\<lparr>sm_bp := bp\<rparr>)"
    "sm_view content (sm\<lparr>sm_bp := bp\<rparr>) (d, p, s) =
       (if d = c then hf_view (bp_page content) hf bp (p, s) else sm_view content sm (d, p, s))"
proof -
  have c: "hf_c_id hf = c" using ok hf by (simp add: sm_ok_def)
  have J: "pool_ok content bp" using bp(1) by (simp add: hf_ok_def)
  have o: "hf_ok (bp_pool ps) (pool_ok content) (bp_page content) g bp \<and>
      hf_view (bp_page content) g bp = hf_view (bp_page content) g (sm_bp sm)"
    if "map_of (cid_heapfile_map sm) e = Some g" "e \<noteq> c" for e g
    using hf_ok_others [where g = g and J = "pool_ok content", OF bp(2) _ J] ok that c by (simp add: sm_ok_def)
  show "sm_ok ps content (sm\<lparr>sm_bp := bp\<rparr>)"
    unfolding sm_ok_def
  proof (intro conjI allI impI)
    fix e g assume g: "map_of (cid_heapfile_map (sm\<lparr>sm_bp := bp\<rparr>)) e = Some g"
    then show "hf_c_id g = e" using ok by (simp add: sm_ok_def)
    show "hf_ok (bp_pool ps) (pool_ok content) (bp_page content) g (sm_bp (sm\<lparr>sm_bp := bp\<rparr>))"
      using g o [of e g] bp(1) hf by (cases "e = c") simp_all
  qed (use J in simp)
  show "sm_view content (sm\<lparr>sm_bp := bp\<rparr>) (d, p, s) =
       (if d = c then hf_view (bp_page content) hf bp (p, s) else sm_view content sm (d, p, s))"
    using hf o [of d] by (cases "map_of (cid_heapfile_map sm) d") (auto simp: sm_view_def)
qed

lemma sm_insert_law:
  assumes px: "posix_ok ps content" and ok: "sm_ok ps content sm" and hf: "map_of (cid_heapfile_map sm) c = Some hf"
    and v: "v \<noteq> []" "length v < 4068" and room: "0 < bp_free (sm_bp sm)" "unat (get_num_pages ps sm c) + 1 < 2 ^ 32"
  shows "\<exists>sm' p s. sm_insert_value ps sm c v = Some (sm', ValueId_new_slot c p s) \<and> sm_ok ps content sm' \<and>
    cid_heapfile_map sm' = cid_heapfile_map sm \<and>
    sm_view content sm (c, p, s) = None \<and> sm_view content sm' = (sm_view content sm)((c, p, s) \<mapsto> v)"
proof -
  let ?mp = "bp_pool ps" and ?P = "bp_page content" and ?bp = "sm_bp sm"
  have h: "hf_ok ?mp (pool_ok content) ?P hf ?bp" "hf_c_id hf = c" using ok hf by (simp_all add: sm_ok_def)
  have room': "unat (num_pages ?mp ?bp hf) + 1 < 2 ^ 32" using room(2) hf by (simp add: get_num_pages_def get_heapfile_def)
  obtain bp p s where bp: "add_val ?mp ?bp hf v = Some (bp, Inr (ValueId_new_slot c p s))"
    "hf_ok ?mp (pool_ok content) ?P hf bp" "others_same ?mp ?P hf ?bp bp"
    "hf_view ?P hf ?bp (p, s) = None" "hf_view ?P hf bp = (hf_view ?P hf ?bp)((p, s) \<mapsto> v)"
    using mem_pool.add_val_law [OF bp_mem_pool [OF px] h(1) v(1) room(1) room'] v(2) h(2) by auto
  let ?sm = "sm\<lparr>sm_bp := bp\<rparr>"
  have "sm_insert_value ps sm c v = Some (?sm, ValueId_new_slot c p s)"
    using hf bp(1) by (simp add: sm_insert_value_def the_heapfile_def get_heapfile_def on_pool_def)
  moreover have "sm_view content ?sm = (sm_view content sm)((c, p, s) \<mapsto> v)"
    using sm_step(2) [OF ok hf bp(2,3)] bp(5) hf by (auto simp: fun_eq_iff sm_view_def)
  ultimately show ?thesis using sm_step(1) [OF ok hf bp(2,3)] bp(4) hf by (auto simp: sm_view_def)
qed

lemma sm_get_law:
  assumes px: "posix_ok ps content" and ok: "sm_ok ps content sm"
  shows "\<exists>sm' r. sm_get_value ps sm (ValueId_new_slot c p s) = Some (sm', r) \<and> sm_ok ps content sm' \<and>
    sm_view content sm' = sm_view content sm \<and> cid_heapfile_map sm' = cid_heapfile_map sm \<and>
    (case sm_view content sm (c, p, s) of Some v \<Rightarrow> r = Inr v | None \<Rightarrow> \<exists>e. r = Inl e)"
proof (cases "map_of (cid_heapfile_map sm) c")
  case None
  then show ?thesis using ok by (simp add: sm_get_value_def with_id_def ValueId_new_slot_def get_heapfile_def sm_view_def)
next
  case (Some hf)
  let ?mp = "bp_pool ps" and ?P = "bp_page content" and ?bp = "sm_bp sm"
  have h: "hf_ok ?mp (pool_ok content) ?P hf ?bp" using ok Some by (simp add: sm_ok_def)
  obtain bp where bp: "get_val ?mp ?bp hf p s = Some (bp, if num_pages ?mp ?bp hf \<le> p then Inl (c_err ''Page not found'')
      else case hf_view ?P hf ?bp (p, s) of None \<Rightarrow> Inl (c_err ''Value not found'') | Some v \<Rightarrow> Inr v)"
    "hf_kept ?mp (pool_ok content) ?P bp_free hf ?bp bp" "hf_view ?P hf bp = hf_view ?P hf ?bp"
    using mem_pool.get_val_law [OF bp_mem_pool [OF px] h] by blast
  note k = hf_keptD [OF bp(2)]
  have "sm_view content (sm\<lparr>sm_bp := bp\<rparr>) = sm_view content sm"
    using sm_step(2) [OF ok Some k(1,2)] bp(3) Some by (auto simp: fun_eq_iff sm_view_def)
  then show ?thesis
    using sm_step(1) [OF ok Some k(1,2)] bp(1) Some mem_pool.view_outside [OF bp_mem_pool [OF px] h, of p s]
    by (auto simp: sm_get_value_def with_id_def ValueId_new_slot_def get_heapfile_def on_pool_def sm_view_def split: option.split)
qed

section \<open>Properties\<close>


lemma sm_create_law:
  assumes px: "posix_ok ps content" and ok: "sm_ok ps content sm" and new: "map_of (cid_heapfile_map sm) c = None"
    "\<forall>p. bp_page content (sm_bp sm) (c, p) = None" and room: "0 < bp_free (sm_bp sm)"
  shows "\<exists>sm'. sm_create_container ps sm c = Some (sm', Inr ()) \<and> sm_ok ps content sm' \<and>
    map_of (cid_heapfile_map sm') = (map_of (cid_heapfile_map sm))(c \<mapsto> \<lparr>hf_c_id = c\<rparr>) \<and>
    sm_view content sm' = sm_view content sm \<and> bp_free (sm_bp sm) \<le> Suc (bp_free (sm_bp sm')) \<and> get_num_pages ps sm' c = 1"
proof -
  let ?mp = "bp_pool ps" and ?P = "bp_page content" and ?bp = "sm_bp sm" and ?hf = "\<lparr>hf_c_id = c\<rparr>"
  have J: "pool_ok content ?bp" using ok by (simp add: sm_ok_def)
  obtain bp where bp: "HeapFile_new ?mp ?bp c = Some (bp, Inr ?hf)" "hf_ok ?mp (pool_ok content) ?P ?hf bp"
    "num_pages ?mp bp ?hf = 1" "hf_view ?P ?hf bp = (\<lambda>_. None)" "others_same ?mp ?P ?hf ?bp bp" "bp_free ?bp \<le> Suc (bp_free bp)"
    using mem_pool.HeapFile_new_law [OF bp_mem_pool [OF px] J new(2) room] by blast
  let ?sm = "sm\<lparr>sm_bp := bp, cid_heapfile_map := AList.update c ?hf (cid_heapfile_map sm)\<rparr>"
  have run: "sm_create_container ps sm c = Some (?sm, Inr ())"
    using new(1) bp(1) by (simp add: sm_create_container_def on_pool_def)
  have J': "pool_ok content bp" using bp(2) by (simp add: hf_ok_def)
  have o: "hf_c_id g = e \<and> hf_ok ?mp (pool_ok content) ?P g bp \<and> hf_view ?P g bp = hf_view ?P g ?bp"
    if "map_of (cid_heapfile_map sm) e = Some g" "e \<noteq> c" for e g
    using hf_ok_others [where g = g and J = "pool_ok content", OF bp(5) _ J'] ok that by (simp add: sm_ok_def)
  have "sm_ok ps content ?sm"
    unfolding sm_ok_def
  proof (intro conjI allI impI)
    fix e g assume g: "map_of (cid_heapfile_map ?sm) e = Some g"
    show "hf_c_id g = e" using g o [of e g] by (cases "e = c") (auto simp: update_conv')
    show "hf_ok ?mp (pool_ok content) ?P g (sm_bp ?sm)"
      using g o [of e g] bp(2) by (cases "e = c") (auto simp: update_conv')
  qed (use J' in simp)
  moreover have "sm_view content ?sm (e, p, s) = sm_view content sm (e, p, s)" for e p s
    using o [of e] new(1) bp(4) by (cases "e = c"; cases "map_of (cid_heapfile_map sm) e") (auto simp: sm_view_def update_conv')
  ultimately show ?thesis using run bp(3,6) by (simp add: update_conv' fun_eq_iff get_num_pages_def get_heapfile_def)
qed

lemma new_test_sm_ok:
  obtains sm where "StorageManager_new_test_sm posix_mem en = Some sm" "sm_ok posix_mem (\<lambda>f. f) sm"
    "cid_heapfile_map sm = []" "bp_page (\<lambda>f. f) (sm_bp sm) = (\<lambda>_. None)" "bp_free (sm_bp sm) = 1000" "length (frames (sm_bp sm)) = 1000"
    "containers (cfc (sm_bp sm)) = []" "disk (cfc (sm_bp sm)) = []"
proof -
  let ?cat = "\<lparr>remove_dir_on_drop = True, containers = [], disk = []\<rparr> :: bytes ContainerFileCatalog"
  have cat: "ContainerFileCatalog_new posix_mem [] True = Some ?cat" by (simp add: ContainerFileCatalog_new_def)
  have n: "(1000 :: nat) < 2 ^ 32" by simp
  obtain bp where bp: "BufferPool_new en 1000 ?cat = Some bp" "pool_ok (\<lambda>f. f) bp" "length (frames bp) = 1000"
    "bp_page (\<lambda>f. f) bp = (\<lambda>_. None)" "bp_free bp = 1000" "cfc bp = ?cat"
    using empty_pool_cat [OF n, of ?cat en "\<lambda>f. f"] by auto
  show thesis
    by (rule that [of "\<lparr>sm_bp = bp, cid_heapfile_map = []\<rparr>"])
      (use cat bp in \<open>simp_all add: StorageManager_new_test_sm_def sm_ok_def\<close>)
qed


lemma container_of_file:
  assumes "hf_ok (bp_pool ps) J P hf bp"
  shows "map_of (containers (cfc bp)) (hf_c_id hf) \<noteq> None"
  using assms by (auto simp: hf_ok_def num_pages_def bp_pool_def bp_get_max_page_id_def get_container_page_count_def split: option.splits)

text \<open>C17: The store survives a restart. Take a consistent store with the 1000 frames of \<open>new\<close>, in which the pages of
  all containers fit, no container of which is temporary and which uses every container of its pool. After
  \<open>shutdown\<close>, a storage manager created on the same directory is consistent and has exactly the same containers and
  the same values: a read returns a value under an id exactly when the value was stored there before.\<close>

theorem storage_restart:
  assumes px: "posix_ok ps content" and ok: "sm_ok ps content sm" and frames: "length (frames (sm_bp sm)) = 1000"
    and dist: "distinct (map fst (disk (cfc (sm_bp sm))))" and temp: "\<forall>c. \<not> temp_container (sm_bp sm) c"
    and own: "\<forall>c. map_of (containers (cfc (sm_bp sm))) c \<noteq> None \<longrightarrow> map_of (cid_heapfile_map sm) c \<noteq> None"
  shows "\<exists>sm1 sm2. sm_shutdown ps sm = Some sm1 \<and> StorageManager_new ps en (disk (cfc (sm_bp sm1))) = Some sm2 \<and>
    sm_ok ps content sm2 \<and> map_of (cid_heapfile_map sm2) = map_of (cid_heapfile_map sm) \<and>
    (\<forall>c p s. \<exists>sm3 r. sm_get_value ps sm2 (ValueId_new_slot c p s) = Some (sm3, r) \<and>
       (\<forall>v. r = Inr v \<longleftrightarrow> sm_view content sm (c, p, s) = Some v))"
proof -
  have bo: "bp_ok content (sm_bp sm)" using ok by (simp add: sm_ok_def pool_ok_def)
  obtain q cat bp' where r: "bp_flush_all ps (sm_bp sm) = Some (q, Inr ())"
    "ContainerFileCatalog_new ps (disk (cfc q)) False = Some cat"
    "BufferPool_new en (length (frames (sm_bp sm))) cat = Some bp'" "pool_ok content bp'"
    "bp_page content bp' = bp_page content (sm_bp sm)"
    "\<forall>c. map_of (containers cat) c = None \<longleftrightarrow> map_of (containers (cfc (sm_bp sm))) c = None" "cfc bp' = cat"
    by (rule flush_reopen [OF px bo dist temp])
  let ?sm2 = "\<lparr>sm_bp = bp', cid_heapfile_map = map (\<lambda>c. (c, \<lparr>hf_c_id = c\<rparr>)) (container_ids cat)\<rparr>"
  have new: "StorageManager_new ps en (disk (cfc q)) = Some ?sm2" using r(2,3) frames by (simp add: StorageManager_new_def)
  have h: "hf_ok (bp_pool ps) (pool_ok content) (bp_page content) hf (sm_bp sm)" "hf = \<lparr>hf_c_id = c\<rparr>"
    if "map_of (cid_heapfile_map sm) c = Some hf" for c hf
    using ok that by (cases hf, simp_all add: sm_ok_def)+
  have "c \<in> set (container_ids cat) \<longleftrightarrow> map_of (containers (cfc (sm_bp sm))) c \<noteq> None" for c
    using r(6) [THEN spec, of c] by (auto simp: container_ids_def map_of_eq_None_iff)
  moreover have "map_of (containers (cfc (sm_bp sm))) c \<noteq> None \<longleftrightarrow> map_of (cid_heapfile_map sm) c \<noteq> None" for c
    using own container_of_file [OF h(1)] h(2) by fastforce
  ultimately have map2: "map_of (cid_heapfile_map ?sm2) c = map_of (cid_heapfile_map sm) c" for c
    using h(2) [of c] by (cases "map_of (cid_heapfile_map sm) c") (simp_all add: map_of_map_restrict)
  have h': "hf_ok (bp_pool ps) (pool_ok content) (bp_page content) hf bp'" if "map_of (cid_heapfile_map sm) c = Some hf" for c hf
    using mem_pool.hf_ok_pages [OF bp_mem_pool [OF px] h(1) [OF that] r(4)] r(5) by simp
  have ok2: "sm_ok ps content ?sm2" using r(4) h' ok map2 by (simp add: sm_ok_def)
  have view: "sm_view content ?sm2 k = sm_view content sm k" for k using map2 r(5) by (simp add: sm_view_def hf_view_def split: prod.split)
  have "\<exists>sm3 r. sm_get_value ps ?sm2 (ValueId_new_slot c p s) = Some (sm3, r) \<and> (\<forall>v. r = Inr v \<longleftrightarrow> sm_view content sm (c, p, s) = Some v)"
    for c p s using sm_get_law [OF px ok2, of c p s] view by (fastforce split: option.splits)
  then show ?thesis using r(1) new ok2 map2 by (simp add: sm_shutdown_def fun_eq_iff)
qed

text \<open>A directory with one heap file that holds one value.\<close>

lemma stored_value:
  obtains p0 p1 s where "file_page_ok 0 p0" "file_page_ok 1 p1" "heap_view p1 s = Some [7]"
proof -
  obtain p0 where p0: "Page_new 0 = Some p0" "page_wf p0" "get_page_id p0 = Some 0" "slice (data p0) 16 8 = replicate 8 0"
    by (rule Page_new_ok)
  obtain f where f: "heap_wf f" "heap_view f = Map.empty" "get_page_id f = Some 1" "nslots (data f) = 0" "fsp_of (data f) = 4096"
    by (rule fresh_page_ok)
  have fo: "file_page_ok 1 f" using f by (simp add: file_page_ok_def heap_wf_page_wf)
  have v: "[7 :: u8] \<noteq> []" and one: "(1 :: PageId) \<noteq> 0" by simp_all
  obtain q where q: "file_page_ok 1 q" "heap_view q = (if add_fits f [7] then (heap_view f)(word_of_nat (add_slot f) \<mapsto> [7]) else heap_view f)"
    by (rule file_add_value [OF fo one v])
  have "add_fits f [7]" using add_fits_fresh [OF f(1,4,5)] by simp
  then have "heap_view q (word_of_nat (add_slot f)) = Some [7]" using q(2) by simp
  moreover have "file_page_ok 0 p0" using p0 zero_header_nslots [OF p0(2,4)] by (simp add: file_page_ok_def)
  ultimately show thesis using that q(1) by blast
qed

lemma two_page_file:
  assumes "page_wf p0" and "page_wf p1"
  shows "file_page (data p0 @ data p1) pid = (if pid = 0 then Some p0 else if pid = 1 then Some p1 else None)"
proof -
  have len: "length (data p0) = 4096" "length (data p1) = 4096" using assms by (simp_all add: page_wf_def)
  consider "pid = 0" | "pid = 1" | "2 \<le> unat pid"
    by (metis One_nat_def Suc_leI less_2_cases not_less numeral_2_eq_2 unat_1 unat_eq_zero word_unat_eq_iff)
  then show ?thesis
  proof cases
    case 3
    then have "pid \<noteq> 0" "pid \<noteq> 1" by auto
    then show ?thesis using 3 len by (simp add: file_page_def)
  qed (use len in \<open>simp_all add: file_page_def slice_def\<close>)
qed

theorem storage_restart_witness:
  "\<exists>dir sm sm1 sm2 sm3 s. StorageManager_new posix_mem some_env dir = Some sm \<and>
     sm_view (\<lambda>f. f) sm (5, 1, s) = Some [7] \<and> sm_shutdown posix_mem sm = Some sm1 \<and>
     StorageManager_new posix_mem some_env (disk (cfc (sm_bp sm1))) = Some sm2 \<and>
     sm_get_value posix_mem sm2 (ValueId_new_slot 5 1 s) = Some (sm3, Inr [7])"
proof -
  obtain p0 p1 s where p: "file_page_ok 0 p0" "file_page_ok 1 p1" "heap_view p1 s = Some [7]" by (rule stored_value)
  let ?d = "[(5, data p0 @ data p1)] :: (ContainerId \<times> bytes) list" and ?id = "\<lambda>f :: bytes. f"
  have len: "length (data p0 @ data p1) = unat (2 :: PageId) * 4096" using file_page_okD(1) p(1,2) by (simp add: page_wf_def)
  note fp = two_page_file [OF file_page_okD(1) [OF p(1)] file_page_okD(1) [OF p(2)]]
  have two: "pid = 0 \<or> pid = 1" if "pid < 2" for pid :: PageId
    using that by (auto simp: word_less_nat_alt word_unat_eq_iff less_2_cases_iff)
  have dk: "disk_ok ?id ?d"
    using len fp file_page_okD(2) [OF p(1)] file_page_okD(2) [OF p(2)] two by (auto simp: disk_ok_def intro!: exI [of _ "2 :: PageId"])
  have "{(c, pid). \<exists>f. map_of ?d c = Some f \<and> file_page f pid \<noteq> None} = {(5, 0), (5, 1)}"
    using fp by (auto split: if_splits)
  then have card: "card {(c, pid). \<exists>f. map_of ?d c = Some f \<and> file_page f pid \<noteq> None} \<le> 1000"
    by (simp only:) simp
  have n: "(1000 :: nat) < 2 ^ 32" by simp
  obtain cat bp where cb: "ContainerFileCatalog_new posix_mem ?d False = Some cat" "BufferPool_new some_env 1000 cat = Some bp"
    "bp_ok ?id bp" "\<forall>k. bp_page ?id bp k = Option.bind (map_of ?d (fst k)) (\<lambda>f. file_page f (snd k))" "cfc bp = cat"
    "length (frames bp) = 1000" "\<forall>j<1000. key (frames bp ! j) = None \<and> slice (data (page (frames bp ! j))) 16 8 = replicate 8 0"
    by (rule reopen_ok [OF posix_mem_ok dk n card])
  have ok: "pool_ok ?id bp" using cb(3,6,7) by (simp add: pool_ok_def clean_empty_def)
  have cat: "disk cat = ?d" "container_ids cat = [5]" "\<forall>c con. map_of (containers cat) c = Some con \<longrightarrow> \<not> is_temp con"
    using cb(1) by (auto simp: ContainerFileCatalog_new_def Container_new_def container_ids_def bind_eq_Some_conv split: if_splits)
  let ?hf = "\<lparr>hf_c_id = 5\<rparr>" and ?sm = "\<lparr>sm_bp = bp, cid_heapfile_map = [(5, \<lparr>hf_c_id = 5\<rparr>)]\<rparr>"
  have sm: "StorageManager_new posix_mem some_env ?d = Some ?sm" using cb(1,2) cat(2) by (simp add: StorageManager_new_def)
  have pg: "bp_page ?id bp (5, x) = (if x = 0 then Some p0 else if x = 1 then Some p1 else None)" for x
    using cb(4) [THEN spec, of "(5, x)"] fp by simp
  have "bp_page ?id bp (5, 0) \<noteq> None" using pg by simp
  then obtain m where "bp_get_max_page_id bp 5 = Some m" "0 < m" using bp_page_key [OF cb(3), of 5 0] by auto
  then have "hf_ok (bp_pool posix_mem) (pool_ok ?id) (bp_page ?id) ?hf bp"
    using ok pg p(1,2) by (auto simp: hf_ok_def num_pages_def bp_pool_def split: if_splits)
  then have so: "sm_ok posix_mem ?id ?sm" using ok by (simp add: sm_ok_def)
  have view: "sm_view ?id ?sm (5, 1, s) = Some [7]" using pg p(3) by (simp add: sm_view_def hf_view_def)
  have "length (frames (sm_bp ?sm)) = 1000" "distinct (map fst (disk (cfc (sm_bp ?sm))))" "\<forall>c. \<not> temp_container (sm_bp ?sm) c"
    "\<forall>c. map_of (containers (cfc (sm_bp ?sm))) c \<noteq> None \<longrightarrow> map_of (cid_heapfile_map ?sm) c \<noteq> None"
    using cb(5,6) cat by (auto simp: temp_container_def container_ids_def map_of_eq_None_iff split: option.split)
  from storage_restart [OF posix_mem_ok so this, of some_env] obtain sm1 sm2 where r:
    "sm_shutdown posix_mem ?sm = Some sm1" "StorageManager_new posix_mem some_env (disk (cfc (sm_bp sm1))) = Some sm2"
    "\<exists>sm3 x. sm_get_value posix_mem sm2 (ValueId_new_slot 5 1 s) = Some (sm3, x) \<and> (\<forall>v. x = Inr v \<longleftrightarrow> sm_view ?id ?sm (5, 1, s) = Some v)"
    by blast
  then have "\<exists>sm3. sm_get_value posix_mem sm2 (ValueId_new_slot 5 1 s) = Some (sm3, Inr [7])" using view by auto
  with r(1,2) sm view show ?thesis by blast
qed

end
