(* ===== verification/F64.thy ===== *)
theory F64
  imports Complex_Main Scalars "HOL-Library.Log_Nat"
begin

text \<open>
  The double-precision operations that decimal arithmetic uses: conversion of an \<open>i64\<close>, division,
  \<open>f64::round\<close> and the conversion back. A double is the rational number it denotes; \<open>rnd\<close> rounds an
  exact result to the nearest double, ties to even. All values here are zero or lie between 2^-63 and
  2^63 in magnitude, so subnormal numbers and infinities do not arise.
\<close>

definition half_even :: "rat \<Rightarrow> int" where
  "half_even y = (let f = \<lfloor>y\<rfloor>; r = y - of_int f in
     if r < 1 / 2 then f else if r > 1 / 2 then f + 1 else if even f then f else f + 1)"

text \<open>The power of two of the leading binary digit.\<close>

definition lead :: "rat \<Rightarrow> int" where
  "lead x = (let (n, d) = quotient_of \<bar>x\<bar>; k = bitlen n - bitlen d in
     if 2 powi k \<le> \<bar>x\<bar> then k else k - 1)"

definition ulp :: "rat \<Rightarrow> rat" where
  "ulp x = 2 powi (lead x - 52)"

definition rnd :: "rat \<Rightarrow> rat" where
  "rnd x = (if x = 0 then 0 else of_int (half_even (x / ulp x)) * ulp x)"

definition f64_of_i64 :: "i64 \<Rightarrow> rat" where
  "f64_of_i64 a = rnd (of_int (sint a))"

definition f64_div :: "rat \<Rightarrow> rat \<Rightarrow> rat" where
  "f64_div x y = rnd (x / y)"

text \<open>\<open>round\<close>: half away from zero. \<open>as i64\<close> truncates and saturates; its argument here is an integer.\<close>

definition round_away :: "rat \<Rightarrow> int" where
  "round_away y = (if 0 \<le> y then \<lfloor>y + 1 / 2\<rfloor> else - \<lfloor>- y + 1 / 2\<rfloor>)"

definition i64_saturate :: "int \<Rightarrow> i64" where
  "i64_saturate x = (if x < - (2 ^ 63) then word_of_int (- (2 ^ 63))
     else if 2 ^ 63 \<le> x then word_of_int (2 ^ 63 - 1) else word_of_int x)"

section \<open>Correct rounding\<close>

lemma half_even_error: "\<bar>of_int (half_even y) - y\<bar> \<le> 1 / 2"
proof -
  have "of_int \<lfloor>y\<rfloor> \<le> y" "y < of_int \<lfloor>y\<rfloor> + 1" by linarith+
  then show ?thesis by (auto simp: half_even_def Let_def abs_le_iff)
qed

lemma half_even_of_int [simp]: "half_even (of_int k) = k"
  by (simp add: half_even_def)

lemma bitlen_rat:
  assumes "0 < n"
  shows "2 powi (bitlen n - 1) \<le> (of_int n :: rat)" and "(of_int n :: rat) < 2 powi bitlen n"
proof -
  have b: "2 ^ nat (bitlen n - 1) \<le> n" "n < 2 ^ nat (bitlen n)" "0 < bitlen n"
    using bitlen_bounds [OF assms] assms by (simp_all add: bitlen_def floorlog_eq_zero_iff flip: neq0_conv)
  from b(1) have "(2 :: rat) ^ nat (bitlen n - 1) \<le> of_int n"
    by (metis of_int_le_iff of_int_numeral of_int_power)
  with b(3) show "2 powi (bitlen n - 1) \<le> (of_int n :: rat)" by (simp add: power_int_def)
  from b(2) have "of_int n < (2 :: rat) ^ nat (bitlen n)"
    by (metis of_int_less_iff of_int_numeral of_int_power)
  with b(3) show "(of_int n :: rat) < 2 powi bitlen n" by (simp add: power_int_def)
qed

lemma lead_bounds:
  assumes "x \<noteq> 0"
  shows "2 powi lead x \<le> \<bar>x\<bar>" and "\<bar>x\<bar> < 2 powi (lead x + 1)"
proof -
  obtain n d where nd: "quotient_of \<bar>x\<bar> = (n, d)" by (cases "quotient_of \<bar>x\<bar>")
  have d: "0 < d" using quotient_of_denom_pos [OF nd] .
  have x: "\<bar>x\<bar> = of_int n / of_int d" using quotient_of_div [OF nd] .
  have n: "0 < n" using x assms d by (metis zero_less_abs_iff of_int_0_less_iff zero_less_divide_iff not_less_iff_gr_or_eq)
  define k where "k = bitlen n - bitlen d"
  have "of_int n / of_int d < (2 :: rat) powi bitlen n / 2 powi (bitlen d - 1)"
    using bitlen_rat [OF n] bitlen_rat [OF d] d n by (intro frac_less) simp_all
  also have "(2 :: rat) powi bitlen n / 2 powi (bitlen d - 1) = 2 powi (bitlen n - (bitlen d - 1))"
    by (simp flip: power_int_diff)
  also have "bitlen n - (bitlen d - 1) = k + 1" by (simp add: k_def)
  finally have up: "\<bar>x\<bar> < 2 powi (k + 1)" by (simp add: x)
  have "2 powi (bitlen n - 1) / 2 powi bitlen d \<le> (of_int n :: rat) / of_int d"
    using bitlen_rat [OF n] bitlen_rat [OF d] d n by (intro frac_le) simp_all
  moreover have "2 powi (bitlen n - 1) / 2 powi bitlen d = (2 :: rat) powi (bitlen n - 1 - bitlen d)"
    by (simp flip: power_int_diff)
  moreover have "bitlen n - 1 - bitlen d = k - 1" by (simp add: k_def)
  ultimately have low: "2 powi (k - 1) \<le> \<bar>x\<bar>" by (simp only: x)
  have lead: "lead x = (if 2 powi k \<le> \<bar>x\<bar> then k else k - 1)" by (simp add: lead_def nd k_def)
  show "2 powi lead x \<le> \<bar>x\<bar>" using low by (simp add: lead)
  show "\<bar>x\<bar> < 2 powi (lead x + 1)" using up by (simp add: lead)
qed

lemma ulp_pos [simp]: "0 < ulp x"
  by (simp add: ulp_def)

lemma ulp_not_0 [simp]: "ulp x \<noteq> 0"
  using ulp_pos [of x] by (rule less_imp_neq [symmetric])

lemma rnd_error: "\<bar>rnd x - x\<bar> \<le> \<bar>x\<bar> / 2 ^ 53"
proof (cases "x = 0")
  case True
  then show ?thesis by (simp add: rnd_def)
next
  case False
  have "ulp x * 2 ^ 52 = 2 powi lead x"
    by (simp add: ulp_def power_int_diff)
  then have u: "ulp x \<le> \<bar>x\<bar> / 2 ^ 52" using lead_bounds(1) [OF False] by (simp add: field_simps)
  have "rnd x - x = (of_int (half_even (x / ulp x)) - x / ulp x) * ulp x"
    using False by (simp add: rnd_def algebra_simps)
  then have "\<bar>rnd x - x\<bar> = \<bar>of_int (half_even (x / ulp x)) - x / ulp x\<bar> * ulp x"
    using ulp_pos [of x] by (simp only: abs_mult abs_of_pos)
  also have "\<dots> \<le> 1 / 2 * ulp x"
    using half_even_error by (intro mult_right_mono) (simp_all add: less_imp_le)
  also have "\<dots> \<le> \<bar>x\<bar> / 2 ^ 53" using u by simp
  finally show ?thesis .
qed

lemma rnd_exact:
  assumes "x * 2 ^ j = of_int m" and "\<bar>x\<bar> < 2 ^ (53 - j)" and "j \<le> 52"
  shows "rnd x = x"
proof (cases "x = 0")
  case True
  then show ?thesis by (simp add: rnd_def)
next
  case False
  have "(2 :: rat) powi lead x < 2 powi int (53 - j)"
    using lead_bounds(1) [OF False] assms(2) by (simp only: power_int_of_nat)
  then have "lead x < int (53 - j)" using power_int_le_imp_less_exp [of "2 :: rat" "lead x" "int (53 - j)"] by simp
  then have l: "lead x \<le> 52 - int j" using assms(3) by simp
  define t where "t = nat (52 - int j - lead x)"
  have "x / ulp x = x * 2 powi (52 - lead x)"
    by (simp add: ulp_def power_int_diff)
  also have "52 - lead x = int j + int t" using l by (simp add: t_def)
  also have "x * 2 powi (int j + int t) = x * 2 ^ j * 2 ^ t" by (simp add: power_int_add)
  also have "\<dots> = of_int (m * 2 ^ t)" by (simp add: assms(1))
  finally have q: "x / ulp x = of_int (m * 2 ^ t)" .
  have "rnd x = of_int (m * 2 ^ t) * ulp x" using False unfolding rnd_def q half_even_of_int by simp
  also have "\<dots> = x" unfolding q [symmetric] by simp
  finally show ?thesis .
qed

lemma rnd_of_int:
  assumes "\<bar>k\<bar> < 2 ^ 53"
  shows "rnd (of_int k) = of_int k"
proof (rule rnd_exact [where j = 0 and m = k])
  have "of_int \<bar>k\<bar> < (of_int (2 ^ 53) :: rat)" using assms by (simp only: of_int_less_iff)
  then show "\<bar>of_int k :: rat\<bar> < 2 ^ (53 - 0)" by simp
qed simp_all

lemma f64_of_i64_exact: "\<bar>sint a\<bar> < 2 ^ 53 \<Longrightarrow> f64_of_i64 a = of_int (sint a)"
  by (simp only: f64_of_i64_def rnd_of_int)

lemma floor_stable:
  fixes y y' :: rat
  assumes "\<bar>y' - y\<bar> < e" and "\<forall>k. e \<le> \<bar>y + 1 / 2 - of_int k\<bar>"
  shows "\<lfloor>y' + 1 / 2\<rfloor> = \<lfloor>y + 1 / 2\<rfloor>"
proof -
  define k where "k = \<lfloor>y + 1 / 2\<rfloor>"
  have k: "of_int k \<le> y + 1 / 2" "y + 1 / 2 < of_int (k + 1)"
    using floor_correct [of "y + 1 / 2"] by (simp_all add: k_def)
  with assms(2) [THEN spec, of k] assms(2) [THEN spec, of "k + 1"]
  have "e \<le> y + 1 / 2 - of_int k" "e \<le> of_int (k + 1) - (y + 1 / 2)" by simp_all
  with assms(1) have "of_int k \<le> y' + 1 / 2" "y' + 1 / 2 < of_int k + 1" by (simp_all add: abs_less_iff)
  then have "\<lfloor>y' + 1 / 2\<rfloor> = k" by (simp add: floor_eq_iff)
  then show ?thesis by (simp add: k_def)
qed

lemma half_distance:
  assumes "0 < d" and "2 * (of_int a / of_int d :: rat) \<notin> \<int>"
  shows "1 / (2 * of_int d) \<le> \<bar>of_int a / of_int d + 1 / 2 - (of_int k :: rat)\<bar>"
proof -
  have e: "of_int a / of_int d + 1 / 2 - (of_int k :: rat) = of_int (2 * a + d - 2 * d * k) / (2 * of_int d)"
    using assms(1) by (simp add: field_simps)
  have "2 * a + d - 2 * d * k \<noteq> 0"
  proof
    assume z: "2 * a + d - 2 * d * k = 0"
    have "of_int a / of_int d + 1 / 2 - (of_int k :: rat) = 0" unfolding e z by simp
    then have "2 * (of_int a / of_int d :: rat) = of_int (2 * k - 1)" unfolding of_int_diff of_int_mult by linarith
    with assms(2) show False by (metis Ints_of_int)
  qed
  then have "(1 :: rat) \<le> \<bar>of_int (2 * a + d - 2 * d * k)\<bar>"
    by (metis of_int_abs of_int_1_le_iff zero_less_abs_iff zless_add1_eq int_one_le_iff_zero_less)
  then show ?thesis unfolding e using assms(1) by (simp add: divide_right_mono del: of_int_diff of_int_add of_int_mult)
qed

text \<open>The double-precision quotient of two integers, rounded, is the exact quotient rounded half away
  from zero, as long as both are well below 2^52.\<close>

lemma round_f64_div:
  assumes "0 < d" and "\<bar>a\<bar> + d < 2 ^ 52"
  shows "round_away (f64_div (of_int a) (of_int d)) = round_away (of_int a / of_int d)"
proof (cases "2 * (of_int a / of_int d :: rat) \<in> \<int>")
  case True
  then obtain m where m: "2 * (of_int a / of_int d :: rat) = of_int m" by (auto elim: Ints_cases)
  have "\<bar>of_int a / of_int d :: rat\<bar> \<le> \<bar>of_int a\<bar>"
    using assms(1) mult_right_mono [of 1 "of_int d" "\<bar>of_int a :: rat\<bar>"] by (simp add: field_simps)
  also have "\<bar>of_int a :: rat\<bar> < 2 ^ 52" using assms
    by (metis abs_ge_zero add.commute less_add_same_cancel1 of_int_abs of_int_less_iff of_int_numeral of_int_power order_less_trans)
  finally have "rnd (of_int a / of_int d) = (of_int a / of_int d :: rat)"
    using m by (intro rnd_exact [where j = 1 and m = m]) (simp_all add: mult.commute)
  then show ?thesis by (simp add: f64_div_def)
next
  case False
  define y :: rat where "y = of_int a / of_int d"
  have y0: "y \<noteq> 0" using False by (auto simp: y_def)
  have "of_int (\<bar>a\<bar>) < (of_int (2 ^ 52) :: rat)" using assms by (simp only: of_int_less_iff)
  then have "\<bar>y\<bar> / 2 ^ 53 < 1 / (2 * of_int d)"
    using assms(1) by (simp add: y_def abs_divide field_simps)
  with rnd_error [of y] have near: "\<bar>rnd y - y\<bar> < 1 / (2 * of_int d)" by linarith
  have far: "\<forall>k. 1 / (2 * of_int d) \<le> \<bar>y + 1 / 2 - of_int k\<bar>"
    using half_distance [OF assms(1) False] by (simp add: y_def)
  have far': "\<forall>k. 1 / (2 * of_int d) \<le> \<bar>- y + 1 / 2 - of_int k\<bar>"
  proof
    fix k
    show "1 / (2 * of_int d) \<le> \<bar>- y + 1 / 2 - of_int k\<bar>"
      using far [THEN spec, of "1 - k"] by (simp add: abs_minus_commute algebra_simps)
  qed
  have near': "\<bar>- rnd y - - y\<bar> < 1 / (2 * of_int d)" using near by (simp add: abs_minus_commute)
  have "\<bar>y\<bar> / 2 ^ 53 < \<bar>y\<bar>" using y0 by (simp add: field_simps)
  with rnd_error [of y] have "0 \<le> rnd y \<longleftrightarrow> 0 \<le> y" by (auto simp: abs_if split: if_splits)
  then show ?thesis
    using floor_stable [OF near far] floor_stable [OF near' far'] by (simp add: f64_div_def round_away_def flip: y_def)
qed

lemma round_f64_div_signed:
  assumes "d \<noteq> 0" and "\<bar>a\<bar> + \<bar>d\<bar> < 2 ^ 52"
  shows "round_away (f64_div (of_int a) (of_int d)) = round_away (of_int a / of_int d)"
proof (cases "0 < d")
  case True
  with assms show ?thesis by (simp add: round_f64_div)
next
  case False
  with assms have "round_away (f64_div (of_int (- a)) (of_int (- d))) = round_away (of_int (- a) / of_int (- d))"
    by (intro round_f64_div) simp_all
  then show ?thesis by (simp add: f64_div_def)
qed

lemma round_away_bound: "\<bar>of_int (round_away y)\<bar> \<le> \<bar>y\<bar> + 1 / 2"
proof -
  have "of_int \<lfloor>\<bar>y\<bar> + 1 / 2\<rfloor> \<le> \<bar>y\<bar> + 1 / 2" "0 \<le> \<lfloor>\<bar>y\<bar> + 1 / 2\<rfloor>" by simp_all
  moreover have "\<bar>round_away y\<bar> = \<lfloor>\<bar>y\<bar> + 1 / 2\<rfloor>"
  proof (cases "0 \<le> y")
    case True
    with calculation(2) show ?thesis by (simp add: round_away_def)
  next
    case False
    with calculation(2) show ?thesis by (simp add: round_away_def)
  qed
  ultimately show ?thesis by (metis of_int_abs)
qed

lemma sint_i64_saturate: "- (2 ^ 63) \<le> x \<Longrightarrow> x < 2 ^ 63 \<Longrightarrow> sint (i64_saturate x) = x"
  by (simp add: i64_saturate_def sint_sbintrunc' signed_take_bit_int_eq_self)

end
