(* ===== verification/Datatypes.thy ===== *)
theory Datatypes
  imports F64 Errors "HOL-Library.Char_ord" "HOL-Library.List_Lexorder" "HOL-Library.Product_Lexorder"
begin

text \<open>
  The values of the database: data types, attributes and fields of common/src/datatypes.rs and
  common/src/attribute.rs, and the operators of common/src/query/operation.rs. The constructors of
  \<open>DataType\<close> carry the prefix \<open>T\<close> and those of \<open>Field\<close> the prefix \<open>F\<close>. A signed integer is a word
  read by \<open>sint\<close>. Dates are parsed and printed by the crate chrono, which is a parameter: a type of
  dates with the parser and the printer for the format year-month-day, the addition of days, which panics outside
  the range of the calendar, and the difference in days.
\<close>

section \<open>Data types, attributes, operators\<close>

datatype DataType =
    TBigInt | TInt | TSmallInt | TChar u8 | TString | TDecimal u32 u32 | TDate | TBool | TNull

datatype Constraint =
    CNone | CPrimaryKey | CUnique | CNotNull | CUniqueNotNull
  | CForeignKey ContainerId | CNotNullFKey ContainerId

record Attribute =
  attr_name :: string
  dtype :: DataType
  constraint :: Constraint

definition Attribute_new :: "string \<Rightarrow> DataType \<Rightarrow> Attribute" where
  "Attribute_new n t = \<lparr>attr_name = n, dtype = t, constraint = CNone\<rparr>"

definition new_with_constraint :: "string \<Rightarrow> DataType \<Rightarrow> Constraint \<Rightarrow> Attribute" where
  "new_with_constraint n t c = \<lparr>attr_name = n, dtype = t, constraint = c\<rparr>"

definition new_pk :: "string \<Rightarrow> DataType \<Rightarrow> Attribute" where
  "new_pk n t = \<lparr>attr_name = n, dtype = t, constraint = CPrimaryKey\<rparr>"

datatype BinaryOp = Add | Sub | Mul | Div | Eq | Neq | Lt | Gt | Le | Ge | And | Or

datatype AggOp = Avg | Count | Max | Min | Sum

definition default_decimal_precision :: u32 where "default_decimal_precision = 10"

definition default_decimal_scale :: u32 where "default_decimal_scale = 4"

fun binop_str :: "BinaryOp \<Rightarrow> string" where
  "binop_str Add = ''+''"
| "binop_str Sub = ''-''"
| "binop_str Mul = ''*''"
| "binop_str Div = ''/''"
| "binop_str Eq = ''=''"
| "binop_str Neq = ''!=''"
| "binop_str Lt = ''<''"
| "binop_str Gt = ''>''"
| "binop_str Le = ''<=''"
| "binop_str Ge = ''>=''"
| "binop_str And = ''&&''"
| "binop_str Or = ''||''"

fun aggop_str :: "AggOp \<Rightarrow> string" where
  "aggop_str Avg = ''AVG''"
| "aggop_str Count = ''COUNT''"
| "aggop_str Max = ''MAX''"
| "aggop_str Min = ''MIN''"
| "aggop_str Sum = ''SUM''"

definition to_attr :: "AggOp \<Rightarrow> Attribute \<Rightarrow> Attribute" where
  "to_attr op src = (let new_name = aggop_str op @ ''('' @ attr_name src @ '')'' in
     (case op of
        Avg \<Rightarrow> (case dtype src of
            TDecimal _ _ \<Rightarrow> Attribute_new new_name (dtype src)
          | _ \<Rightarrow> Attribute_new new_name (TDecimal default_decimal_precision default_decimal_scale))
      | Count \<Rightarrow> Attribute_new new_name TBigInt
      | _ \<Rightarrow> Attribute_new new_name (dtype src)))"

fun dtype_str :: "DataType \<Rightarrow> string" where
  "dtype_str TBigInt = ''bigint''"
| "dtype_str TInt = ''int''"
| "dtype_str TSmallInt = ''smallint''"
| "dtype_str (TChar n) = ''char-fixed-'' @ dec_nat (unat n) @ '',''"
| "dtype_str TString = ''string''"
| "dtype_str (TDecimal p s) = ''decimal('' @ dec_nat (unat p) @ '','' @ dec_nat (unat s) @ '')''"
| "dtype_str TDate = ''date''"
| "dtype_str TBool = ''bool''"
| "dtype_str TNull = ''null''"

fun dtype_size :: "DataType \<Rightarrow> nat option" where
  "dtype_size TBigInt = Some 8"
| "dtype_size TInt = Some 4"
| "dtype_size TSmallInt = Some 2"
| "dtype_size (TChar i) = Some (unat i)"
| "dtype_size TString = None"
| "dtype_size (TDecimal _ _) = Some 12"
| "dtype_size TDate = Some 8"
| "dtype_size TBool = Some 1"
| "dtype_size TNull = Some 1"

section \<open>Fields\<close>

datatype Field =
    FBigInt i64 | FInt i32 | FSmallInt i16 | FChar u8 string | FString string
  | FDecimal i64 u32 | FDate i64 | FBool bool | FNull

fun dtype_of :: "Field \<Rightarrow> DataType" where
  "dtype_of (FBigInt _) = TBigInt"
| "dtype_of (FInt _) = TInt"
| "dtype_of (FSmallInt _) = TSmallInt"
| "dtype_of (FChar i _) = TChar i"
| "dtype_of (FString _) = TString"
| "dtype_of (FDecimal p s) = TDecimal (ucast p) s"
| "dtype_of (FDate _) = TDate"
| "dtype_of (FBool _) = TBool"
| "dtype_of FNull = TNull"

text \<open>A Rust string is valid UTF-8 and, as every allocation, shorter than 2^63 bytes.\<close>

fun field_ok :: "Field \<Rightarrow> bool" where
  "field_ok (FChar _ s) = utf8_ok (str_bytes s)"
| "field_ok (FString s) = utf8_ok (str_bytes s)"
| "field_ok _ = True"

definition null_string :: string where "null_string = ''NULL''"

definition f_int :: "i64 \<Rightarrow> Field" where "f_int i = FBigInt i"

definition f_str :: "string \<Rightarrow> Field" where "f_str s = FString s"

text \<open>\<open>f_decimal\<close> of a double: multiplied by ten to the default scale and truncated.\<close>

definition f_decimal :: "rat \<Rightarrow> Field" where
  "f_decimal f = (let whole = rnd (f * 10 ^ unat default_decimal_scale) in
     FDecimal (i64_saturate (if 0 \<le> whole then \<lfloor>whole\<rfloor> else \<lceil>whole\<rceil>)) default_decimal_scale)"

definition field_from_bool :: "bool \<Rightarrow> Field" where "field_from_bool b = FBool b"

fun field_and :: "Field \<Rightarrow> Field \<Rightarrow> Field option" where
  "field_and (FBool a) (FBool b) = Some (FBool (a \<and> b))"
| "field_and _ _ = None"

fun field_or :: "Field \<Rightarrow> Field \<Rightarrow> Field option" where
  "field_or (FBool a) (FBool b) = Some (FBool (a \<or> b))"
| "field_or _ _ = None"

subsection \<open>Arithmetic\<close>

text \<open>The outer option is the panic, the sum the \<open>Result\<close>.\<close>

fun field_add :: "Field \<Rightarrow> Field \<Rightarrow> (CrustyError + Field) option" where
  "field_add (FBigInt a) (FBigInt b) = do { c \<leftarrow> i64_add a b; Some (Inr (FBigInt c)) }"
| "field_add (FDecimal a s_l) (FDecimal b s_r) = (let res_scale = (if s_l > s_r then s_l else s_r) in do {
     d \<leftarrow> checked_sub res_scale s_l;
     f \<leftarrow> ten_pow d;
     adjusted_a \<leftarrow> i64_mul a f;
     d \<leftarrow> checked_sub res_scale s_r;
     f \<leftarrow> ten_pow d;
     adjusted_b \<leftarrow> i64_mul b f;
     c \<leftarrow> i64_add adjusted_a adjusted_b;
     Some (Inr (FDecimal c res_scale)) })"
| "field_add (FBigInt a) (FDecimal b s_r) = do {
     f \<leftarrow> ten_pow s_r;
     adjusted_a \<leftarrow> i64_mul a f;
     c \<leftarrow> i64_add adjusted_a b;
     Some (Inr (FDecimal c s_r)) }"
| "field_add (FDecimal a s_l) (FBigInt b) = do {
     f \<leftarrow> ten_pow s_l;
     adjusted_b \<leftarrow> i64_mul b f;
     c \<leftarrow> i64_add a adjusted_b;
     Some (Inr (FDecimal c s_l)) }"
| "field_add _ _ = None"

definition expected_number :: CrustyError where
  "expected_number = c_err ''Expected int or decimal''"

fun field_sub :: "Field \<Rightarrow> Field \<Rightarrow> (CrustyError + Field) option" where
  "field_sub (FBigInt a) (FBigInt b) = do { c \<leftarrow> i64_sub a b; Some (Inr (FBigInt c)) }"
| "field_sub (FDecimal a s_l) (FDecimal b s_r) = (let res_scale = (if s_l > s_r then s_l else s_r) in do {
     d \<leftarrow> checked_sub res_scale s_l;
     f \<leftarrow> ten_pow d;
     adjusted_a \<leftarrow> i64_mul a f;
     d \<leftarrow> checked_sub res_scale s_r;
     f \<leftarrow> ten_pow d;
     adjusted_b \<leftarrow> i64_mul b f;
     c \<leftarrow> i64_sub adjusted_a adjusted_b;
     Some (Inr (FDecimal c res_scale)) })"
| "field_sub (FBigInt a) (FDecimal b s_r) = do {
     f \<leftarrow> ten_pow s_r;
     adjusted_a \<leftarrow> i64_mul a f;
     c \<leftarrow> i64_sub adjusted_a b;
     Some (Inr (FDecimal c s_r)) }"
| "field_sub (FDecimal a s_l) (FBigInt b) = do {
     f \<leftarrow> ten_pow s_l;
     adjusted_b \<leftarrow> i64_mul b f;
     c \<leftarrow> i64_sub a adjusted_b;
     Some (Inr (FDecimal c s_l)) }"
| "field_sub _ _ = Some (Inl expected_number)"

fun field_mul :: "Field \<Rightarrow> Field \<Rightarrow> (CrustyError + Field) option" where
  "field_mul (FBigInt a) (FBigInt b) = do { c \<leftarrow> i64_mul a b; Some (Inr (FBigInt c)) }"
| "field_mul (FDecimal a s_l) (FDecimal b s_r) =
     (let larger_scale = max s_l s_r; smaller_scale = min s_l s_r in do {
     p \<leftarrow> i64_mul a b;
     f \<leftarrow> ten_pow smaller_scale;
     let num = i64_saturate (round_away (f64_div (f64_of_i64 p) (f64_of_i64 f)));
     Some (Inr (FDecimal num larger_scale)) })"
| "field_mul (FBigInt a) (FDecimal b s_r) = do { c \<leftarrow> i64_mul a b; Some (Inr (FDecimal c s_r)) }"
| "field_mul (FDecimal a s_l) (FBigInt b) = do { c \<leftarrow> i64_mul a b; Some (Inr (FDecimal c s_l)) }"
| "field_mul _ _ = Some (Inl expected_number)"

definition division_by_zero :: CrustyError where
  "division_by_zero = c_err ''Division by zero''"

definition decimal_div :: "i64 \<Rightarrow> u32 \<Rightarrow> i64 \<Rightarrow> u32 \<Rightarrow> (CrustyError + Field) option" where
  "decimal_div a s_l b s_r = (if b = 0 then Some (Inl division_by_zero)
     else (let larger_scale = max s_l s_r in do {
       d \<leftarrow> checked_sub larger_scale s_l;
       alpha \<leftarrow> checked_add d s_r;
       f \<leftarrow> ten_pow alpha;
       p \<leftarrow> i64_mul a f;
       let num = i64_saturate (round_away (f64_div (f64_of_i64 p) (f64_of_i64 b)));
       Some (Inr (FDecimal num larger_scale)) }))"

fun field_div :: "Field \<Rightarrow> Field \<Rightarrow> (CrustyError + Field) option" where
  "field_div (FBigInt a) (FBigInt b) = (if b = 0 then Some (Inl division_by_zero)
     else do { c \<leftarrow> i64_div a b; Some (Inr (FBigInt c)) })"
| "field_div (FDecimal a s_l) (FDecimal b s_r) = decimal_div a s_l b s_r"
| "field_div (FBigInt a) (FDecimal b s_r) = decimal_div a 0 b s_r"
| "field_div (FDecimal a s_l) (FBigInt b) = decimal_div a s_l b 0"
| "field_div _ _ = Some (Inl expected_number)"

fun field_size :: "Field \<Rightarrow> nat" where
  "field_size (FBigInt _) = 8"
| "field_size (FInt _) = 4"
| "field_size (FSmallInt _) = 2"
| "field_size (FChar i _) = unat i"
| "field_size (FString s) = length s"
| "field_size (FDate _) = 8"
| "field_size (FDecimal _ _) = 12"
| "field_size (FBool _) = 1"
| "field_size FNull = 1"

subsection \<open>Bytes\<close>

text \<open>A \<open>Char\<close> is padded with zeros to four bytes per character and panics when its text is longer
  than its declared length.\<close>

fun field_to_bytes :: "Field \<Rightarrow> bytes option" where
  "field_to_bytes (FBigInt x) = Some (to_le_bytes x)"
| "field_to_bytes (FInt x) = Some (to_le_bytes x)"
| "field_to_bytes (FSmallInt x) = Some (to_le_bytes x)"
| "field_to_bytes (FChar i s) = (if length s > unat i then None
     else Some (put (replicate (unat i * 4) 0) 0 (str_bytes s)))"
| "field_to_bytes (FString s) = Some (to_le_bytes (word_of_nat (length s) :: u32) @ str_bytes s)"
| "field_to_bytes (FDate x) = Some (to_le_bytes x)"
| "field_to_bytes (FDecimal w sc) = Some (to_le_bytes w @ to_le_bytes sc)"
| "field_to_bytes (FBool b) = Some (if b then [1] else [0])"
| "field_to_bytes FNull = Some [0]"

definition ok_or :: "'e \<Rightarrow> 'a option \<Rightarrow> 'e + 'a" where
  "ok_or e r = (case r of None \<Rightarrow> Inl e | Some x \<Rightarrow> Inr x)"

fun field_from_bytes :: "bytes \<Rightarrow> DataType \<Rightarrow> (CrustyError + Field) option" where
  "field_from_bytes bs TBigInt =
     Some (map_sum id FBigInt (ok_or (CrustyError ''Failed to convert bytes to i64.'') (from_le_bytes bs)))"
| "field_from_bytes bs TInt =
     Some (map_sum id FInt (ok_or (CrustyError ''Failed to convert bytes to i32.'') (from_le_bytes bs)))"
| "field_from_bytes bs TSmallInt =
     Some (map_sum id FSmallInt (ok_or (CrustyError ''Failed to convert bytes to i16.'') (from_le_bytes bs)))"
| "field_from_bytes bs (TChar i) = do {
     b \<leftarrow> slice_get bs 0 (unat i);
     Some (map_sum id (FChar i) (ok_or (CrustyError ''Failed to convert bytes to string.'') (from_utf8 b))) }"
| "field_from_bytes bs TString = do {
     l \<leftarrow> slice_get bs 0 4;
     s_len \<leftarrow> (from_le_bytes l :: u32 option);
     b \<leftarrow> slice_get bs 4 (4 + unat s_len);
     Some (map_sum id FString (ok_or (CrustyError ''Failed to convert bytes to string.'') (from_utf8 b))) }"
| "field_from_bytes bs TDate =
     Some (map_sum id FDate (ok_or (CrustyError ''Failed to convert bytes to u32.'') (from_le_bytes bs)))"
| "field_from_bytes bs (TDecimal _ _) = do {
     w \<leftarrow> slice_get bs 0 8;
     w \<leftarrow> from_le_bytes w;
     sc \<leftarrow> slice_get bs 8 12;
     sc \<leftarrow> from_le_bytes sc;
     Some (Inr (FDecimal w sc)) }"
| "field_from_bytes bs TBool = do { b \<leftarrow> index bs 0; Some (Inr (FBool (b = 1))) }"
| "field_from_bytes bs TNull = do {
     b \<leftarrow> index bs 0;
     Some (if b = 0 then Inr FNull else Inl (CrustyError ''Invalid null field'')) }"

subsection \<open>Order\<close>

text \<open>The derived order: the position of the constructor, then its arguments from left to right; strings
  are ordered by their bytes.\<close>

fun field_key :: "Field \<Rightarrow> nat \<times> int \<times> int \<times> string" where
  "field_key (FBigInt x) = (0, sint x, 0, [])"
| "field_key (FInt x) = (1, sint x, 0, [])"
| "field_key (FSmallInt x) = (2, sint x, 0, [])"
| "field_key (FChar i s) = (3, uint i, 0, s)"
| "field_key (FString s) = (4, 0, 0, s)"
| "field_key (FDecimal w sc) = (5, sint w, uint sc, [])"
| "field_key (FDate x) = (6, sint x, 0, [])"
| "field_key (FBool b) = (7, if b then 1 else 0, 0, [])"
| "field_key FNull = (8, 0, 0, [])"

lemma field_key_inject: "field_key a = field_key b \<Longrightarrow> a = b"
  by (cases a; cases b) (auto split: if_splits)

instantiation Field :: linorder
begin

definition less_eq_Field :: "Field \<Rightarrow> Field \<Rightarrow> bool" where
  "less_eq_Field a b = (field_key a \<le> field_key b)"

definition less_Field :: "Field \<Rightarrow> Field \<Rightarrow> bool" where
  "less_Field a b = (field_key a < field_key b)"

instance
proof
  fix x y z :: Field
  show "(x < y) = (x \<le> y \<and> \<not> y \<le> x)"
    unfolding less_eq_Field_def less_Field_def by (rule less_le_not_le)
  show "x \<le> x" unfolding less_eq_Field_def by (rule order_refl)
  show "x \<le> y \<Longrightarrow> y \<le> z \<Longrightarrow> x \<le> z" unfolding less_eq_Field_def by (rule order_trans)
  show "x \<le> y \<Longrightarrow> y \<le> x \<Longrightarrow> x = y"
    unfolding less_eq_Field_def by (rule field_key_inject) (rule antisym)
  show "x \<le> y \<or> y \<le> x" unfolding less_eq_Field_def by (rule linear)
qed

end

fun unwrap_int_field :: "Field \<Rightarrow> i64 option" where
  "unwrap_int_field (FBigInt i) = Some i"
| "unwrap_int_field _ = None"

fun unwrap_string_field :: "Field \<Rightarrow> string option" where
  "unwrap_string_field (FString s) = Some s"
| "unwrap_string_field _ = None"

fun unwrap_bool_field :: "Field \<Rightarrow> bool option" where
  "unwrap_bool_field (FBool b) = Some b"
| "unwrap_bool_field _ = None"

fun compare_fields :: "BinaryOp \<Rightarrow> Field \<Rightarrow> Field \<Rightarrow> bool option" where
  "compare_fields Eq l r = Some (l = r)"
| "compare_fields Neq l r = Some (l \<noteq> r)"
| "compare_fields Gt l r = Some (l > r)"
| "compare_fields Ge l r = Some (l \<ge> r)"
| "compare_fields Lt l r = Some (l < r)"
| "compare_fields Le l r = Some (l \<le> r)"
| "compare_fields And l r = do { b \<leftarrow> field_and l r; unwrap_bool_field b }"
| "compare_fields Or l r = do { b \<leftarrow> field_or l r; unwrap_bool_field b }"
| "compare_fields _ l r = None"

subsection \<open>Text\<close>

record 'd chrono =
  base_date :: 'd
  parse_date :: "string \<Rightarrow> 'd option"
  format_date :: "'d \<Rightarrow> string"
  add_days :: "'d \<Rightarrow> i64 \<Rightarrow> 'd option"
  days_since :: "'d \<Rightarrow> 'd \<Rightarrow> i64"

definition f_date :: "'d chrono \<Rightarrow> string \<Rightarrow> Field option" where
  "f_date ch s = do { date \<leftarrow> parse_date ch s; Some (FDate (days_since ch date (base_date ch))) }"

definition from_str_to_null :: "string \<Rightarrow> CrustyError + Field" where
  "from_str_to_null s = (if s = null_string then Inr FNull
     else Inl (ValidationError (''Invalid null field '' @ s)))"

definition from_str_to_bool :: "string \<Rightarrow> CrustyError + Field" where
  "from_str_to_bool s = (if s = ''true'' then Inr (FBool True)
     else if s = ''false'' then Inr (FBool False)
     else Inl (ValidationError (''Invalid bool field '' @ s)))"

definition from_str_to_date :: "'d chrono \<Rightarrow> string \<Rightarrow> CrustyError + Field" where
  "from_str_to_date ch s = (case parse_date ch s of
     Some date \<Rightarrow> Inr (FDate (days_since ch date (base_date ch)))
   | None \<Rightarrow> Inl (ValidationError (''Invalid date field '' @ s)))"

definition from_str_to_string :: "string \<Rightarrow> CrustyError + Field" where
  "from_str_to_string s = Inr (FString s)"

definition from_str_to_char :: "string \<Rightarrow> u8 \<Rightarrow> CrustyError + Field" where
  "from_str_to_char s n = (if length s > unat n then Inl (ValidationError (''Invalid char field '' @ s))
     else Inr (FChar n s))"

definition parse_int_from_str :: "string \<Rightarrow> CrustyError + 'a::len word" where
  "parse_int_from_str s = ok_or (ValidationError (''Invalid int field '' @ s)) (parse_signed s)"

definition invalid_decimal :: "string \<Rightarrow> CrustyError" where
  "invalid_decimal s = ValidationError (''Invalid decimal field '' @ s)"

definition invalid_digits :: "string \<Rightarrow> string \<Rightarrow> u32 \<Rightarrow> u32 \<Rightarrow> CrustyError" where
  "invalid_digits what field p s = ValidationError (''Invalid decimal field '' @ what @ '' '' @ field
     @ ''. Expected '' @ dec_nat (unat p) @ '' found '' @ dec_nat (unat s))"

text \<open>The digits after the point, scaled.\<close>

definition adjusted_fractional :: "string \<Rightarrow> string list \<Rightarrow> u32 \<Rightarrow> u32 \<Rightarrow> (CrustyError + i64) option" where
  "adjusted_fractional field parts p s = (if length parts = 2
     then (case (parse_signed (parts ! 1) :: i64 option) of
         None \<Rightarrow> Some (Inl (invalid_decimal field))
       | Some fractional \<Rightarrow>
           if sint fractional < 0 then Some (Inl (invalid_digits ''scale'' field p s))
           else do {
             m \<leftarrow> ten_pow s;
             (if sint m \<le> sint fractional then Some (Inl (invalid_digits ''scale'' field p s))
              else do {
                d \<leftarrow> checked_sub s (word_of_nat (length (parts ! 1)));
                m \<leftarrow> ten_pow d;
                v \<leftarrow> i64_mul fractional m;
                Some (Inr v) }) })
     else Some (Inr 0))"

definition from_str_to_decimal :: "string \<Rightarrow> u32 \<Rightarrow> u32 \<Rightarrow> (CrustyError + Field) option" where
  "from_str_to_decimal field p s = (let parts = str_split CHR ''.'' field in
     if length parts > 2 then Some (Inl (invalid_decimal field))
     else (case (parse_signed (hd parts) :: i64 option) of
         None \<Rightarrow> Some (Inl (invalid_decimal field))
       | Some integer \<Rightarrow> do {
           a \<leftarrow> i64_abs integer;
           d \<leftarrow> checked_sub p s;
           m \<leftarrow> ten_pow d;
           (if sint m \<le> sint a then Some (Inl (invalid_digits ''precision'' field p s))
            else do {
              r \<leftarrow> adjusted_fractional field parts p s;
              (case r of
                 Inl e \<Rightarrow> Some (Inl e)
               | Inr fr \<Rightarrow> do {
                   m \<leftarrow> ten_pow s;
                   w \<leftarrow> i64_mul integer m;
                   w \<leftarrow> (if sint integer < 0 then i64_sub w fr else i64_add w fr);
                   Some (Inr (FDecimal w s)) }) }) }))"

definition field_from_str :: "'d chrono \<Rightarrow> string \<Rightarrow> Attribute \<Rightarrow> (CrustyError + Field) option" where
  "field_from_str ch field attr = (if field = null_string then Some (from_str_to_null field)
     else (case dtype attr of
         TInt \<Rightarrow> Some (map_sum id FInt (parse_int_from_str field))
       | TBigInt \<Rightarrow> Some (map_sum id FBigInt (parse_int_from_str field))
       | TSmallInt \<Rightarrow> Some (map_sum id FSmallInt (parse_int_from_str field))
       | TChar i \<Rightarrow> Some (from_str_to_char field i)
       | TString \<Rightarrow> Some (from_str_to_string field)
       | TDecimal p s \<Rightarrow> from_str_to_decimal field p s
       | TDate \<Rightarrow> Some (from_str_to_date ch field)
       | TBool \<Rightarrow> Some (from_str_to_bool field)
       | TNull \<Rightarrow> Some (from_str_to_null field)))"

text \<open>\<open>Display\<close>. The text of a decimal is padded on the left to one digit more than its scale, and the
  point goes in front of the last \<open>scale\<close> characters.\<close>

definition decimal_str :: "i64 \<Rightarrow> u32 \<Rightarrow> string" where
  "decimal_str w sc = (let s = dec_int (sint w);
     padding = (if length s \<le> unat sc then unat sc + 1 - length s else 0);
     padded_s = replicate padding CHR ''0'' @ s;
     decimal_pos = length padded_s - unat sc
   in take decimal_pos padded_s @ CHR ''.'' # drop decimal_pos padded_s)"

fun field_str :: "'d chrono \<Rightarrow> Field \<Rightarrow> string option" where
  "field_str ch (FBigInt i) = Some (dec_int (sint i))"
| "field_str ch (FInt i) = Some (dec_int (sint i))"
| "field_str ch (FSmallInt i) = Some (dec_int (sint i))"
| "field_str ch (FChar _ s) = Some s"
| "field_str ch (FString s) = Some s"
| "field_str ch (FDate i) = map_option (format_date ch) (add_days ch (base_date ch) i)"
| "field_str ch (FDecimal w sc) = Some (decimal_str w sc)"
| "field_str ch (FBool b) = Some (if b then ''true'' else ''false'')"
| "field_str ch FNull = Some null_string"

end
