(* ===== verification/DatatypesProps.thy ===== *)
theory DatatypesProps
  imports Datatypes
begin

text \<open>
  Correctness of fields: the byte encoding round trips, sums, differences, products and quotients of
  numbers are the exact ones or the exact ones rounded, and printing followed by parsing gives the field
  back, with the cases in which it does not.
\<close>

section \<open>Bytes\<close>

lemma utf8_ok_zeros: "utf8_ok (replicate n 0)"
  by (rule utf8_ok_ascii) (simp add: list_all_length)

lemma from_utf8_zeros:
  "utf8_ok (str_bytes s) \<Longrightarrow>
     from_utf8 (str_bytes s @ replicate n 0) = Some (s @ replicate n CHR 0x00)"
  by (simp add: from_utf8_def utf8_ok_append utf8_ok_zeros)

lemma put_zeros: "length s \<le> m \<Longrightarrow> put (replicate m 0) 0 (str_bytes s) = str_bytes s @ replicate (m - length s) 0"
  by (simp add: put_def)

lemma char_bytes:
  assumes "length s \<le> unat i" and "utf8_ok (str_bytes s)"
  shows "\<exists>bs. field_to_bytes (FChar i s) = Some bs \<and>
    field_from_bytes bs (TChar i) = Some (Inr (FChar i (s @ replicate (unat i - length s) CHR 0x00)))"
proof -
  define bs :: bytes where "bs = str_bytes s @ replicate (unat i * 4 - length s) 0"
  have "field_to_bytes (FChar i s) = Some bs"
    using assms(1) by (simp add: put_zeros bs_def)
  moreover have "slice_get bs 0 (unat i) = Some (str_bytes s @ replicate (unat i - length s) 0)"
    using assms(1) by (simp add: bs_def slice_def)
  then have "field_from_bytes bs (TChar i)
      = Some (Inr (FChar i (s @ replicate (unat i - length s) CHR 0x00)))"
    using from_utf8_zeros [OF assms(2)] by (simp add: ok_or_def)
  ultimately show ?thesis by blast
qed

text \<open>The fields that fill their encoding: a \<open>Char\<close> as long as declared, a \<open>String\<close> of less than 2^32 bytes.\<close>

fun fills :: "Field \<Rightarrow> bool" where
  "fills (FChar i s) = (length s = unat i)"
| "fills (FString s) = (length s < 2 ^ 32)"
| "fills _ = True"

text \<open>C18: \<open>Field::from_bytes\<close> applied to what \<open>Field::to_bytes\<close> wrote, with the data type of the field,
  gives the field back, for every kind of field whose text fills its encoding.\<close>

theorem field_bytes_roundtrip:
  assumes "field_ok f" and "fills f"
  shows "\<exists>bs. field_to_bytes f = Some bs \<and> field_from_bytes bs (dtype_of f) = Some (Inr f)"
proof (cases f)
  case (FChar i s)
  with assms char_bytes [of s i] show ?thesis by simp
next
  case (FString s)
  with assms have "unat (word_of_nat (length s) :: u32) = length s" by (simp add: unat_of_nat)
  with FString assms show ?thesis by (simp add: slice_def ok_or_def)
next
  case (FDecimal w sc)
  then show ?thesis by (simp add: slice_def)
qed (simp_all add: ok_or_def)

theorem field_bytes_roundtrip_witness:
  "\<exists>bs. field_to_bytes (FString ''ab'') = Some bs \<and> field_from_bytes bs TString = Some (Inr (FString ''ab''))"
proof -
  have "field_ok (FString ''ab'')" by code_simp
  then show ?thesis using field_bytes_roundtrip [of "FString ''ab''"] by (simp del: field_to_bytes.simps)
qed

text \<open>C19: a \<open>Char\<close> whose text is shorter than declared does not survive the byte encoding: it comes back
  with NUL characters appended up to the declared length, which is a different field.\<close>

theorem char_bytes_padding:
  assumes "length s < unat i" and "utf8_ok (str_bytes s)"
  shows "\<exists>bs f. field_to_bytes (FChar i s) = Some bs \<and> field_from_bytes bs (TChar i) = Some (Inr f) \<and>
    f = FChar i (s @ replicate (unat i - length s) CHR 0x00) \<and> f \<noteq> FChar i s"
  using char_bytes [of s i] assms by auto

theorem char_bytes_padding_witness:
  "\<exists>bs f. field_to_bytes (FChar 3 ''a'') = Some bs \<and> field_from_bytes bs (TChar 3) = Some (Inr f) \<and>
     f = FChar 3 [CHR ''a'', CHR 0x00, CHR 0x00] \<and> f \<noteq> FChar 3 ''a''"
proof -
  have "utf8_ok (str_bytes ''a'')" by code_simp
  moreover have "length ''a'' < unat (3 :: u8)" by simp
  moreover have "''a'' @ replicate (unat (3 :: u8) - length ''a'') CHR 0x00 = [CHR ''a'', CHR 0x00, CHR 0x00]"
    by code_simp
  ultimately show ?thesis using char_bytes_padding [of "''a''" 3] by (simp only: simp_thms)
qed

section \<open>Arithmetic\<close>

text \<open>The value of a number in units of 10^-m, when its scale allows that.\<close>

fun field_at :: "nat \<Rightarrow> Field \<Rightarrow> int option" where
  "field_at m (FBigInt a) = Some (sint a * 10 ^ m)"
| "field_at m (FDecimal w s) = (if unat s \<le> m then Some (sint w * 10 ^ (m - unat s)) else None)"
| "field_at m _ = None"

lemma checked_int_Some:
  "- (2 ^ 63) \<le> x \<Longrightarrow> x < 2 ^ 63 \<Longrightarrow> \<exists>w :: i64. checked_int x = Some w \<and> sint w = x"
  by (simp add: checked_int_def sint_sbintrunc' signed_take_bit_int_eq_self)

lemma ten_pow_Some:
  assumes "unat n \<le> 18"
  shows "\<exists>f. ten_pow n = Some f \<and> sint f = 10 ^ unat n"
proof -
  have "(10 :: int) ^ unat n \<le> 10 ^ 18" using assms by (intro power_increasing) simp_all
  then have "(10 :: int) ^ unat n < 2 ^ 63" by simp
  moreover have "- (2 ^ 63) \<le> (10 :: int) ^ unat n" by (rule order_trans [of _ 0]) simp_all
  ultimately show ?thesis unfolding ten_pow_def by (intro checked_int_Some)
qed

lemma i64_mul_Some:
  "\<bar>sint a * sint b\<bar> < 2 ^ 63 \<Longrightarrow> \<exists>c. i64_mul a b = Some c \<and> sint c = sint a * sint b"
  unfolding i64_mul_def by (intro checked_int_Some) simp_all

text \<open>Bringing a number to scale \<open>r\<close>.\<close>

lemma scale_up:
  assumes "\<bar>sint w * 10 ^ (m - unat s)\<bar> < 2 ^ 62" and "unat s \<le> unat r" and "unat r \<le> m" and "m \<le> 18"
  obtains d f w' where "checked_sub r s = Some d" and "ten_pow d = Some f" and "i64_mul w f = Some w'"
    and "sint w' * 10 ^ (m - unat r) = sint w * 10 ^ (m - unat s)"
proof -
  have d: "checked_sub r s = Some (r - s)" using assms(2) by (rule checked_sub_Some)
  have ud: "unat (r - s) = unat r - unat s" using checked_sub_unat [OF d] .
  then have "unat (r - s) \<le> 18" using assms(3,4) by simp
  then obtain f where f: "ten_pow (r - s) = Some f" "sint f = 10 ^ (unat r - unat s)"
    using ten_pow_Some [of "r - s"] ud by auto
  have p: "(10 :: int) ^ (m - unat s) = 10 ^ (unat r - unat s) * 10 ^ (m - unat r)"
    using assms(2,3) by (simp flip: power_add)
  have "\<bar>sint w * sint f\<bar> * 1 \<le> \<bar>sint w * sint f\<bar> * 10 ^ (m - unat r)"
    by (intro mult_left_mono) simp_all
  also have "\<dots> = \<bar>sint w * 10 ^ (m - unat s)\<bar>" by (simp add: p f(2) abs_mult)
  finally have "\<bar>sint w * sint f\<bar> < 2 ^ 63" using assms(1) by simp
  then obtain w' where "i64_mul w f = Some w'" "sint w' = sint w * sint f"
    using i64_mul_Some by blast
  then show ?thesis using that [OF d f(1)] by (simp add: f(2) p)
qed

lemma down_bound: "\<bar>(a :: int) * 10 ^ k\<bar> < n \<Longrightarrow> \<bar>a\<bar> < n"
proof -
  assume h: "\<bar>a * 10 ^ k\<bar> < n"
  have "\<bar>a\<bar> * 1 \<le> \<bar>a\<bar> * 10 ^ k" by (intro mult_left_mono) simp_all
  with h show ?thesis by (simp add: abs_mult)
qed

lemma i64_add_sub_Some:
  assumes "\<bar>sint a\<bar> < 2 ^ 62" and "\<bar>sint b\<bar> < 2 ^ 62"
  shows "\<exists>c. i64_add a b = Some c \<and> sint c = sint a + sint b"
    and "\<exists>c. i64_sub a b = Some c \<and> sint c = sint a - sint b"
  unfolding i64_add_def i64_sub_def using assms by (intro checked_int_Some; simp)+

lemma decimal_add_sub:
  assumes x: "field_at m (FDecimal a s) = Some x" "\<bar>x\<bar> < 2 ^ 62"
    and y: "field_at m (FDecimal b t) = Some y" "\<bar>y\<bar> < 2 ^ 62" and m: "m \<le> 18"
  shows "(\<exists>c. field_add (FDecimal a s) (FDecimal b t) = Some (Inr c) \<and> field_at m c = Some (x + y)) \<and>
    (\<exists>c. field_sub (FDecimal a s) (FDecimal b t) = Some (Inr c) \<and> field_at m c = Some (x - y))"
proof -
  define r where "r = (if s > t then s else t)"
  have sr: "unat s \<le> unat r" "unat t \<le> unat r" by (simp_all add: r_def word_less_nat_alt)
  have r: "unat r \<le> m" using x(1) y(1) by (auto simp: r_def split: if_splits)
  have xs: "x = sint a * 10 ^ (m - unat s)" and ys: "y = sint b * 10 ^ (m - unat t)"
    using x(1) y(1) by (simp_all split: if_splits)
  obtain d f a' where a': "checked_sub r s = Some d" "ten_pow d = Some f" "i64_mul a f = Some a'"
    "sint a' * 10 ^ (m - unat r) = x"
    using scale_up [OF x(2) [unfolded xs] sr(1) r m] xs by metis
  obtain d' f' b' where b': "checked_sub r t = Some d'" "ten_pow d' = Some f'" "i64_mul b f' = Some b'"
    "sint b' * 10 ^ (m - unat r) = y"
    using scale_up [OF y(2) [unfolded ys] sr(2) r m] ys by metis
  have "\<bar>sint a'\<bar> < 2 ^ 62" "\<bar>sint b'\<bar> < 2 ^ 62"
    using down_bound x(2) y(2) a'(4) b'(4) by metis+
  from i64_add_sub_Some [OF this] obtain c c' where
    "i64_add a' b' = Some c" "sint c = sint a' + sint b'" "i64_sub a' b' = Some c'" "sint c' = sint a' - sint b'"
    by blast
  with a' b' r show ?thesis
    by (simp add: Let_def distrib_right left_diff_distrib flip: r_def)
qed

lemma checked_sub_simps [simp]: "checked_sub w 0 = Some w" "checked_sub w w = Some 0"
  by (simp_all add: checked_sub_def)

lemma ten_pow_0 [simp]: "ten_pow 0 = Some 1"
  by (simp add: ten_pow_def checked_int_def)

lemma i64_mul_1 [simp]: "i64_mul a 1 = Some a"
  by (simp add: i64_mul_def)

text \<open>An integer is a decimal of scale zero.\<close>

lemma bigint_as_decimal:
  "field_add (FBigInt a) (FDecimal b t) = field_add (FDecimal a 0) (FDecimal b t)"
  "field_sub (FBigInt a) (FDecimal b t) = field_sub (FDecimal a 0) (FDecimal b t)"
  "field_add (FDecimal a s) (FBigInt b) = field_add (FDecimal a s) (FDecimal b 0)"
  "field_sub (FDecimal a s) (FBigInt b) = field_sub (FDecimal a s) (FDecimal b 0)"
  "field_at m (FBigInt a) = field_at m (FDecimal a 0)"
  by (simp_all add: Let_def word_gt_0)

lemma number_cases: "field_at m f = Some x \<Longrightarrow> (\<exists>i. f = FBigInt i) \<or> (\<exists>w s. f = FDecimal w s)"
  by (cases f) simp_all

text \<open>C20: the sum and the difference of two numbers, integers or decimals of any scales, are exact: below
  the overflow bound both operations return, and their results are the sum and the difference of the
  values, counted in units of 10^-m for any m at least as large as both scales.\<close>

theorem field_add_sub_exact:
  assumes "field_at m a = Some x" and "field_at m b = Some y"
    and "\<bar>x\<bar> < 2 ^ 62" and "\<bar>y\<bar> < 2 ^ 62" and "m \<le> 18"
  shows "(\<exists>c. field_add a b = Some (Inr c) \<and> field_at m c = Some (x + y)) \<and>
    (\<exists>c. field_sub a b = Some (Inr c) \<and> field_at m c = Some (x - y))"
proof (cases "\<exists>i j. a = FBigInt i \<and> b = FBigInt j")
  case True
  then obtain i j where ij: "a = FBigInt i" "b = FBigInt j" by blast
  with assms(1,2) have xy: "x = sint i * 10 ^ m" "y = sint j * 10 ^ m" by simp_all
  with assms(3,4) have "\<bar>sint i\<bar> < 2 ^ 62" "\<bar>sint j\<bar> < 2 ^ 62" using down_bound by blast+
  from i64_add_sub_Some [OF this] obtain c d where
    "i64_add i j = Some c" "sint c = sint i + sint j" "i64_sub i j = Some d" "sint d = sint i - sint j"
    by blast
  then show ?thesis by (simp add: ij xy distrib_right left_diff_distrib)
next
  case False
  with number_cases [OF assms(1)] number_cases [OF assms(2)] consider
      (l) i w t where "a = FBigInt i" "b = FDecimal w t"
    | (r) w t i where "a = FDecimal w t" "b = FBigInt i"
    | (d) v s w t where "a = FDecimal v s" "b = FDecimal w t"
    by blast
  then show ?thesis
  proof cases
    case l
    with assms show ?thesis unfolding l bigint_as_decimal by (intro decimal_add_sub) simp_all
  next
    case r
    with assms show ?thesis unfolding r bigint_as_decimal by (intro decimal_add_sub) simp_all
  next
    case d
    with assms show ?thesis unfolding d by (intro decimal_add_sub) simp_all
  qed
qed

theorem field_add_sub_exact_witness:
  "(\<exists>c. field_add (FDecimal 125 2) (FBigInt 3) = Some (Inr c) \<and> field_at 2 c = Some 425) \<and>
   (\<exists>c. field_sub (FDecimal 125 2) (FBigInt 3) = Some (Inr c) \<and> field_at 2 c = Some (- 175))"
  using field_add_sub_exact [of 2 "FDecimal 125 2" 125 "FBigInt 3" 300]
  by (simp del: field_add.simps field_sub.simps)

lemma round_quotient:
  assumes "d \<noteq> 0" and "\<bar>a\<bar> + \<bar>d\<bar> < 2 ^ 52" and "sint p = a" and "sint q = d"
  shows "sint (i64_saturate (round_away (f64_div (f64_of_i64 p) (f64_of_i64 q)))) = round_away (of_int a / of_int d)"
proof -
  have "f64_of_i64 p = of_int a" "f64_of_i64 q = of_int d"
    using f64_of_i64_exact [of p] f64_of_i64_exact [of q] assms by simp_all
  then have r: "round_away (f64_div (f64_of_i64 p) (f64_of_i64 q)) = round_away (of_int a / of_int d)"
    using round_f64_div_signed [OF assms(1,2)] by simp
  have "\<bar>of_int a / of_int d :: rat\<bar> \<le> \<bar>of_int a\<bar>"
    using assms(1) mult_right_mono [of 1 "\<bar>of_int d\<bar>" "\<bar>of_int a :: rat\<bar>"] by (simp add: field_simps)
  moreover have "of_int \<bar>a\<bar> < (of_int (2 ^ 52) :: rat)" using assms by (simp only: of_int_less_iff)
  ultimately have "of_int \<bar>round_away (of_int a / of_int d)\<bar> < (of_int (2 ^ 63) :: rat)"
    using round_away_bound [of "of_int a / of_int d"] by simp
  then have "\<bar>round_away (of_int a / of_int d)\<bar> < 2 ^ 63" by (simp only: of_int_less_iff)
  then show ?thesis unfolding r by (intro sint_i64_saturate) simp_all
qed

text \<open>C21: the product of two decimals has the larger scale and is the exact product rounded half away
  from zero, although it is computed in double precision, as long as the product of the digits and the
  divisor stay together below 2^52. (For 123.456 * 2.34 that is 288.887; the comment in the source has 288.461.)\<close>

theorem decimal_mul_rounded:
  assumes "\<bar>sint a * sint b\<bar> + 10 ^ unat (min s t) < 2 ^ 52"
  shows "\<exists>n. field_mul (FDecimal a s) (FDecimal b t) = Some (Inr (FDecimal n (max s t))) \<and>
    sint n = round_away (of_int (sint a * sint b) / 10 ^ unat (min s t))"
proof -
  define k where "k = unat (min s t)"
  have "(10 :: int) ^ k < 10 ^ 16" using assms by (simp add: k_def)
  then have "k < 16" using power_less_imp_less_exp [of "10 :: int" k 16] by simp
  then obtain f where f: "ten_pow (min s t) = Some f" "sint f = 10 ^ k"
    using ten_pow_Some [of "min s t"] by (auto simp: k_def)
  have "\<bar>sint a * sint b\<bar> < 2 ^ 52"
    using assms by (rule le_less_trans [rotated]) simp
  then have "\<bar>sint a * sint b\<bar> < 2 ^ 63" by simp
  then obtain p where p: "i64_mul a b = Some p" "sint p = sint a * sint b" using i64_mul_Some by blast
  have "sint (i64_saturate (round_away (f64_div (f64_of_i64 p) (f64_of_i64 f))))
      = round_away (of_int (sint a * sint b) / of_int (10 ^ k))"
    using assms by (intro round_quotient) (simp_all add: p f k_def)
  then show ?thesis by (simp add: p f Let_def k_def)
qed

theorem decimal_mul_rounded_witness:
  "\<exists>n. field_mul (FDecimal 123456 3) (FDecimal 234 2) = Some (Inr (FDecimal n 3)) \<and>
     sint n = 288887"
proof -
  have "round_away (28888704 / 100) = 288887" by (simp add: round_away_def floor_eq_iff)
  then show ?thesis using decimal_mul_rounded [of 123456 234 3 2] by (simp add: min_def max_def del: field_mul.simps)
qed

text \<open>C22: the quotient of two decimals has the larger scale and is the exact quotient rounded half away
  from zero, below the same bound; division by zero is an error. (123.456 / 2.34 is 52.759 and 123.45 / 2.345 is
  52.644; the comments in the source have 52.728 and 52.628.)\<close>

theorem decimal_div_rounded:
  assumes "unat (max s t) - unat s + unat t = k" and "\<bar>sint a * 10 ^ k\<bar> + \<bar>sint b\<bar> < 2 ^ 52" and "k \<le> 18"
  shows "if b = 0 then field_div (FDecimal a s) (FDecimal b t) = Some (Inl division_by_zero)
    else \<exists>n. field_div (FDecimal a s) (FDecimal b t) = Some (Inr (FDecimal n (max s t))) \<and>
      sint n = round_away (of_int (sint a * 10 ^ k) / of_int (sint b))"
proof (cases "b = 0")
  case True
  then show ?thesis by (simp add: decimal_div_def)
next
  case False
  have d: "checked_sub (max s t) s = Some (max s t - s)"
    by (rule checked_sub_Some) (simp add: max_def word_le_nat_alt)
  have ud: "unat (max s t - s) = unat (max s t) - unat s" using checked_sub_unat [OF d] .
  have al: "checked_add (max s t - s) t = Some (max s t - s + t)"
    using assms(1,3) by (intro checked_add_Some) (simp add: ud)
  have ual: "unat (max s t - s + t) = k" using checked_add_unat [OF al] assms(1) ud by simp
  then obtain f where f: "ten_pow (max s t - s + t) = Some f" "sint f = 10 ^ k"
    using ten_pow_Some [of "max s t - s + t"] assms(3) by auto
  have "\<bar>sint a * sint f\<bar> < 2 ^ 63" using assms(2) by (simp add: f(2))
  then obtain p where p: "i64_mul a f = Some p" "sint p = sint a * 10 ^ k" using i64_mul_Some f(2) by metis
  have "sint (i64_saturate (round_away (f64_div (f64_of_i64 p) (f64_of_i64 b))))
      = round_away (of_int (sint a * 10 ^ k) / of_int (sint b))"
    using assms(2) False by (intro round_quotient) (simp_all add: p flip: sint_inject)
  then show ?thesis using False by (simp add: decimal_div_def d al f p Let_def)
qed

theorem decimal_div_rounded_witness:
  "(\<exists>n. field_div (FDecimal 123456 3) (FDecimal 234 2) = Some (Inr (FDecimal n 3)) \<and> sint n = 52759) \<and>
   (\<exists>n. field_div (FDecimal 12345 2) (FDecimal 2345 3) = Some (Inr (FDecimal n 3)) \<and> sint n = 52644) \<and>
   field_div (FDecimal 5 1) (FDecimal 0 1) = Some (Inl division_by_zero)"
proof (intro conjI)
  have r: "round_away (12345600 / 234) = 52759" "round_away (123450000 / 2345) = 52644" by (simp_all add: round_away_def floor_eq_iff)
  show "\<exists>n. field_div (FDecimal 123456 3) (FDecimal 234 2) = Some (Inr (FDecimal n 3)) \<and> sint n = 52759"
    using decimal_div_rounded [of 3 2 2 123456 234] r(1) by (simp add: max_def del: field_div.simps)
  show "\<exists>n. field_div (FDecimal 12345 2) (FDecimal 2345 3) = Some (Inr (FDecimal n 3)) \<and> sint n = 52644"
    using decimal_div_rounded [of 2 3 4 12345 2345] r(2) by (simp add: max_def del: field_div.simps)
  show "field_div (FDecimal 5 1) (FDecimal 0 1) = Some (Inl division_by_zero)"
    using decimal_div_rounded [of 1 1 1 5 0] by (simp add: max_def del: field_div.simps)
qed

section \<open>Text\<close>

definition digits_val :: "string \<Rightarrow> nat" where
  "digits_val s = foldl (\<lambda>n c. 10 * n + digit_val c) 0 s"

lemma foldl_digits: "foldl (\<lambda>n c. 10 * n + digit_val c) a ys = a * 10 ^ length ys + digits_val ys"
proof (induction ys arbitrary: a)
  case Nil
  show ?case by (simp add: digits_val_def)
next
  case (Cons y ys)
  show ?case using Cons [of "10 * a + digit_val y"] Cons [of "digit_val y"]
    by (simp add: digits_val_def algebra_simps)
qed

lemma digits_val_append: "digits_val (xs @ ys) = digits_val xs * 10 ^ length ys + digits_val ys"
  using foldl_digits [of "digits_val xs" ys] by (simp add: digits_val_def)

lemma digits_val_less: "list_all is_digit ys \<Longrightarrow> digits_val ys < 10 ^ length ys"
proof (induction ys rule: rev_induct)
  case Nil
  show ?case by (simp add: digits_val_def)
next
  case (snoc y ys)
  then have "digits_val ys < 10 ^ length ys" "digit_val y < 10" by (auto simp: is_digit_def digit_val_def)
  then show ?case by (simp add: digits_val_append) (simp add: digits_val_def)
qed

lemma digits_val_zeros: "digits_val (replicate n CHR ''0'' @ s) = digits_val s"
  by (induction n) (simp_all add: digits_val_def digit_val_def)

lemma digits_val_dec_nat: "digits_val (dec_nat n) = n"
  by (simp add: digits_val_def foldl_digits_dec_nat)

lemma length_dec_nat_ge:
  assumes "10 ^ k \<le> n"
  shows "k < length (dec_nat n)"
proof -
  have "n < 10 ^ length (dec_nat n)"
    using digits_val_less [OF dec_nat_digits [of n]] by (simp add: digits_val_dec_nat)
  with assms have "(10 :: nat) ^ k < 10 ^ length (dec_nat n)" by (rule le_less_trans)
  then show ?thesis by (rule power_less_imp_less_exp [rotated]) simp
qed

lemma parse_signed_digits:
  assumes "xs \<noteq> []" and "list_all is_digit xs"
  shows "parse_signed xs = checked_int (int (digits_val xs))"
    and "parse_signed (CHR ''-'' # xs) = checked_int (- int (digits_val xs))"
proof -
  obtain c t where xs: "xs = c # t" using assms(1) by (cases xs) simp_all
  then have c: "c \<noteq> CHR ''-''" "c \<noteq> CHR ''+''" using assms(2) by auto
  show "parse_signed xs = checked_int (int (digits_val xs))"
    using c assms(2) by (simp add: parse_signed_def parse_digits_def xs digits_val_def)
  show "parse_signed (CHR ''-'' # xs) = checked_int (- int (digits_val xs))"
    using assms by (simp add: parse_signed_def parse_digits_def digits_val_def)
qed

lemma not_point: "list_all is_digit xs \<Longrightarrow> CHR ''.'' \<notin> set xs"
  by (induction xs) auto

lemma checked_int_nat:
  "n < 10 ^ k \<Longrightarrow> k \<le> 18 \<Longrightarrow> \<exists>w :: i64. checked_int (int n) = Some w \<and> sint w = int n"
  "n < 10 ^ k \<Longrightarrow> k \<le> 18 \<Longrightarrow> \<exists>w :: i64. checked_int (- int n) = Some w \<and> sint w = - int n"
proof -
  assume n: "n < 10 ^ k" and k: "k \<le> 18"
  have "(10 :: nat) ^ k \<le> 10 ^ 18" using k by (intro power_increasing) simp_all
  with n have "int n < 2 ^ 63" by simp
  then show "\<exists>w :: i64. checked_int (int n) = Some w \<and> sint w = int n"
    and "\<exists>w :: i64. checked_int (- int n) = Some w \<and> sint w = - int n"
    by (intro checked_int_Some; simp)+
qed

lemma adjusted_fractional_digits:
  assumes ys: "list_all is_digit ys" "ys \<noteq> []" "length ys \<le> unat s" and s: "unat s \<le> 18"
  shows "\<exists>v. adjusted_fractional field [xs, ys] p s = Some (Inr v) \<and>
    sint v = int (digits_val ys * 10 ^ (unat s - length ys)) \<and> digits_val ys * 10 ^ (unat s - length ys) < 10 ^ unat s"
proof -
  have len: "unat (word_of_nat (length ys) :: u32) = length ys"
    using ys(3) unsigned_less [of s, where 'a = nat] by (simp add: unat_of_nat)
  then have d: "checked_sub s (word_of_nat (length ys)) = Some (s - word_of_nat (length ys))"
    using ys(3) by (intro checked_sub_Some) simp
  have ud: "unat (s - word_of_nat (length ys)) = unat s - length ys" using checked_sub_unat [OF d] len by simp
  have less: "digits_val ys * 10 ^ (unat s - length ys) < 10 ^ unat s"
  proof -
    have "digits_val ys * 10 ^ (unat s - length ys) < 10 ^ length ys * 10 ^ (unat s - length ys)"
      using digits_val_less [OF ys(1)] by simp
    also have "\<dots> = 10 ^ unat s" using ys(3) by (simp flip: power_add)
    finally show ?thesis .
  qed
  have "digits_val ys \<le> digits_val ys * 10 ^ (unat s - length ys)" by simp
  then have v: "digits_val ys < 10 ^ unat s" using less by (rule le_less_trans)
  obtain v :: i64 where v': "parse_signed ys = Some v" "sint v = int (digits_val ys)"
    using parse_signed_digits(1) [OF ys(2,1), where 'a = 64] checked_int_nat(1) [OF v s] by auto
  obtain m where m: "ten_pow s = Some m" "sint m = 10 ^ unat s" using ten_pow_Some [OF s] by blast
  obtain f where f: "ten_pow (s - word_of_nat (length ys)) = Some f" "sint f = 10 ^ (unat s - length ys)"
    using ten_pow_Some [of "s - word_of_nat (length ys)"] ud s by (metis diff_le_self le_trans)
  obtain w where w: "i64_mul v f = Some w" "sint w = int (digits_val ys * 10 ^ (unat s - length ys))"
    using checked_int_nat(1) [OF less s] by (auto simp: i64_mul_def v'(2) f(2))
  have "\<not> sint m \<le> sint v" using v by (simp add: m v' flip: of_nat_power_le_of_nat_cancel_iff)
  then show ?thesis using less w by (simp add: adjusted_fractional_def v' m d f)
qed


lemma decimal_parts:
  assumes s: "unat s \<le> 18" and p: "unat s \<le> unat p" "unat p - unat s \<le> 18" and x: "x < 10 ^ (unat p - unat s)"
    and i: "parse_signed is = Some (i :: i64)" "\<bar>sint i\<bar> = int x" "CHR ''.'' \<notin> set is"
    and ys: "list_all is_digit ys" "ys \<noteq> []" "length ys \<le> unat s"
    and n: "n = x * 10 ^ unat s + digits_val ys * 10 ^ (unat s - length ys)" "n < 2 ^ 63"
  shows "\<exists>w. from_str_to_decimal (is @ CHR ''.'' # ys) p s = Some (Inr (FDecimal w s)) \<and>
    sint w = (if sint i < 0 then - int n else int n)"
proof -
  have split: "str_split CHR ''.'' (is @ CHR ''.'' # ys) = [is, ys]"
    using i(3) not_point [OF ys(1)] by (simp add: str_split_append str_split_no)
  have d: "checked_sub p s = Some (p - s)" using p(1) by (rule checked_sub_Some)
  have ud: "unat (p - s) = unat p - unat s" using checked_sub_unat [OF d] .
  obtain m where m: "ten_pow (p - s) = Some m" "sint m = 10 ^ (unat p - unat s)"
    using ten_pow_Some [of "p - s"] ud p(2) by auto
  obtain a where a: "i64_abs i = Some a" "sint a = int x"
    using checked_int_nat(1) [OF x p(2)] by (auto simp: i64_abs_def i(2))
  have nm: "\<not> sint m \<le> sint a" using x by (simp add: m a flip: of_nat_power_le_of_nat_cancel_iff)
  obtain v where v: "adjusted_fractional (is @ CHR ''.'' # ys) [is, ys] p s = Some (Inr v)"
    "sint v = int (digits_val ys * 10 ^ (unat s - length ys))"
    using adjusted_fractional_digits [OF ys s] by blast
  obtain t where t: "ten_pow s = Some t" "sint t = 10 ^ unat s" using ten_pow_Some [OF s] by blast
  have "\<bar>sint i * sint t\<bar> = int (x * 10 ^ unat s)" by (simp add: abs_mult i(2) t(2))
  moreover have "x * 10 ^ unat s < 2 ^ 63" using n by simp
  then have "int (x * 10 ^ unat s) < int (2 ^ 63)" by (simp only: of_nat_less_iff)
  ultimately have "\<bar>sint i * sint t\<bar> < 2 ^ 63" by simp
  then obtain w where w: "i64_mul i t = Some w" "sint w = sint i * 10 ^ unat s"
    using i64_mul_Some [of i t] t(2) by auto
  have n'1: "int n = int x * 10 ^ unat s + sint v" using n(1) by (simp add: v(2))
  have n'2: "int n < 2 ^ 63" using n(2) by simp
  show ?thesis
  proof (cases "sint i < 0")
    case True
    then have "sint i = - int x" using i(2) by simp
    then have "sint w - sint v = - int n" using n'1 w(2) by simp
    with n'2 obtain w' where "i64_sub w v = Some w'" "sint w' = - int n"
      using checked_int_Some [of "- int n"] by (auto simp: i64_sub_def)
    with True show ?thesis by (simp add: from_str_to_decimal_def Let_def split i(1) a(1) d m(1) nm v(1) t(1) w(1))
  next
    case False
    then have "sint w + sint v = int n" using i(2) n'1 w(2) by simp
    with n'2 obtain w' where "i64_add w v = Some w'" "sint w' = int n"
      using checked_int_Some [of "int n"] by (auto simp: i64_add_def)
    with False show ?thesis by (simp add: from_str_to_decimal_def Let_def split i(1) a(1) d m(1) nm v(1) t(1) w(1))
  qed
qed

text \<open>Printing a decimal of at least one digit after the point: the digits, padded to one more than the
  scale, around the point.\<close>

lemma decimal_str_parts:
  assumes "0 < unat sc" and "ds = replicate k CHR ''0'' @ dec_nat n" and "unat sc < length ds"
    and "k = (if length (dec_int (sint w)) \<le> unat sc then unat sc + 1 - length (dec_int (sint w)) else 0)"
    and "dec_int (sint w) = sg @ dec_nat n" and "sg = [] \<or> k = 0"
  obtains xs ys where "decimal_str w sc = sg @ xs @ CHR ''.'' # ys" and "xs \<noteq> []" and "list_all is_digit xs"
    and "list_all is_digit ys" and "ys \<noteq> []" and "length ys = unat sc"
    and "n = digits_val xs * 10 ^ unat sc + digits_val ys"
proof -
  define xs where "xs = take (length ds - unat sc) ds"
  define ys where "ys = drop (length ds - unat sc) ds"
  have ds: "ds = xs @ ys" by (simp add: xs_def ys_def)
  have dg: "list_all is_digit ds" by (simp add: assms(2) dec_nat_digits list_all_iff is_digit_def)
    (use dec_nat_digits [of n] in \<open>auto simp: list_all_iff is_digit_def\<close>)
  have len: "length ys = unat sc" "xs \<noteq> []" "ys \<noteq> []" using assms(1,3) by (auto simp: xs_def ys_def)
  have "n = digits_val ds" by (simp add: assms(2) digits_val_zeros digits_val_dec_nat)
  then have n: "n = digits_val xs * 10 ^ unat sc + digits_val ys" by (simp add: ds digits_val_append len)
  have eq: "replicate k CHR ''0'' @ sg @ dec_nat n = sg @ ds" using assms(2,6) by auto
  have k: "k = (if length (sg @ dec_nat n) \<le> unat sc then unat sc + 1 - length (sg @ dec_nat n) else 0)"
    using assms(4) by (simp only: assms(5))
  have "decimal_str w sc = take (length (sg @ ds) - unat sc) (sg @ ds) @ CHR ''.'' # drop (length (sg @ ds) - unat sc) (sg @ ds)"
    unfolding decimal_str_def Let_def assms(5) k [symmetric] eq ..
  also have "\<dots> = sg @ xs @ CHR ''.'' # ys"
    using assms(3) by (simp add: xs_def ys_def)
  finally show ?thesis using that len n dg unfolding ds by simp
qed

lemma decimal_text:
  assumes "0 < unat s" and "unat s \<le> unat p" and "unat p \<le> 18" and "\<bar>sint w\<bar> < 10 ^ unat p"
    and "0 \<le> sint w \<or> sint w \<le> - (10 ^ unat s)"
  shows "from_str_to_decimal (decimal_str w s) p s = Some (Inr (FDecimal w s))"
proof -
  define n where "n = nat \<bar>sint w\<bar>"
  define sg where "sg = (if sint w < 0 then ''-'' else [])"
  define k where "k = (if length (dec_int (sint w)) \<le> unat s then unat s + 1 - length (dec_int (sint w)) else 0)"
  have w: "dec_int (sint w) = sg @ dec_nat n" by (simp add: dec_int_def sg_def n_def)
  have neg: "unat s < length (dec_nat n)" if "sint w < 0"
    using that assms(5) by (intro length_dec_nat_ge) (simp add: n_def le_nat_iff)
  have k: "sg = [] \<or> k = 0" using neg by (auto simp: k_def w sg_def)
  have len: "unat s < length (replicate k CHR ''0'' @ dec_nat n)"
    using neg by (auto simp: k_def w sg_def)
  obtain xs ys where xy: "decimal_str w s = sg @ xs @ CHR ''.'' # ys" "xs \<noteq> []" "list_all is_digit xs"
    "list_all is_digit ys" "ys \<noteq> []" "length ys = unat s" "n = digits_val xs * 10 ^ unat s + digits_val ys"
    using decimal_str_parts [OF assms(1) refl len k_def w k] .
  have n: "n < 10 ^ unat p" using assms(4) by (simp add: n_def nat_less_iff)
  have "digits_val xs * 10 ^ unat s < 10 ^ (unat p - unat s) * 10 ^ unat s"
    using n assms(2) xy(7) by (simp flip: power_add)
  then have x: "digits_val xs < 10 ^ (unat p - unat s)" by simp
  have i: "\<exists>i :: i64. parse_signed (sg @ xs) = Some i \<and> sint i = (if sint w < 0 then - int (digits_val xs) else int (digits_val xs))"
    using checked_int_nat [OF x] parse_signed_digits(1) [OF xy(2,3), where 'a = 64]
      parse_signed_digits(2) [OF xy(2,3), where 'b = 64] assms(3) by (simp add: sg_def)
  then obtain i :: i64 where i: "parse_signed (sg @ xs) = Some i" "\<bar>sint i\<bar> = int (digits_val xs)"
    "sint i < 0 \<longleftrightarrow> sint w < 0 \<and> digits_val xs \<noteq> 0" by auto
  have pt: "CHR ''.'' \<notin> set (sg @ xs)" using not_point [OF xy(3)] by (simp add: sg_def)
  have "(10 :: nat) ^ unat p \<le> 10 ^ 18" using assms(3) by (intro power_increasing) simp_all
  with n have n63: "n < 2 ^ 63" by simp
  have s18: "unat s \<le> 18" and ps18: "unat p - unat s \<le> 18" and le: "length ys \<le> unat s"
    using assms(2,3) xy(6) by simp_all
  have n_eq: "n = digits_val xs * 10 ^ unat s + digits_val ys * 10 ^ (unat s - length ys)"
    using xy(6,7) by simp
  obtain w' where w': "from_str_to_decimal ((sg @ xs) @ CHR ''.'' # ys) p s = Some (Inr (FDecimal w' s))"
    "sint w' = (if sint i < 0 then - int n else int n)"
    using decimal_parts [OF s18 assms(2) ps18 x i(1,2) pt xy(4,5) le n_eq n63] by blast
  have "digits_val xs \<noteq> 0" if "sint w < 0"
  proof
    assume "digits_val xs = 0"
    with xy(4,6,7) have "n < 10 ^ unat s" using digits_val_less [of ys] by simp
    with that assms(5) show False by (simp add: n_def nat_less_iff)
  qed
  with w'(2) i(3) have "sint w' = (if sint w < 0 then - int n else int n)" by simp
  then have "sint w' = sint w" by (simp add: n_def)
  with w'(1) xy(1) show ?thesis by simp
qed

lemma dec_int_not_null: "dec_int i \<noteq> null_string"
proof
  assume h: "dec_int i = null_string"
  then have "hd (dec_int i) = CHR ''N''" by (simp add: null_string_def)
  moreover have "hd (dec_int i) = CHR ''-'' \<or> is_digit (hd (dec_int i))"
    using dec_nat_digits [of "nat i"] by (cases "dec_nat (nat i)") (auto simp: dec_int_def)
  ultimately show False by (auto simp: is_digit_def)
qed

lemma decimal_str_not_null: "decimal_str w s \<noteq> null_string"
proof
  assume "decimal_str w s = null_string"
  moreover have "CHR ''.'' \<in> set (decimal_str w s)" by (simp add: decimal_str_def Let_def)
  ultimately show False by (simp add: null_string_def)
qed

text \<open>The fields that a column of a given type prints and reads back.\<close>

fun prints_back :: "'d chrono \<Rightarrow> DataType \<Rightarrow> Field \<Rightarrow> bool" where
  "prints_back ch t (FBigInt _) = (t = TBigInt)"
| "prints_back ch t (FInt _) = (t = TInt)"
| "prints_back ch t (FSmallInt _) = (t = TSmallInt)"
| "prints_back ch t (FChar i s) = (t = TChar i \<and> length s \<le> unat i \<and> s \<noteq> null_string)"
| "prints_back ch t (FString s) = (t = TString \<and> s \<noteq> null_string)"
| "prints_back ch t (FDecimal w s) = (case t of
     TDecimal p sc \<Rightarrow> s = sc \<and> 0 < unat s \<and> unat s \<le> unat p \<and> unat p \<le> 18 \<and>
       \<bar>sint w\<bar> < 10 ^ unat p \<and> (0 \<le> sint w \<or> sint w \<le> - (10 ^ unat s))
   | _ \<Rightarrow> False)"
| "prints_back ch t (FDate d) = (t = TDate \<and> add_days ch (base_date ch) d \<noteq> None)"
| "prints_back ch t (FBool _) = (t = TBool)"
| "prints_back ch t FNull = True"

text \<open>What the code relies on in chrono: a printed date is parsed back, no date prints as the text of the null
  field, and adding days is undone by the difference in days.\<close>

definition chrono_ok :: "'d chrono \<Rightarrow> bool" where
  "chrono_ok ch \<longleftrightarrow> (\<forall>d. parse_date ch (format_date ch d) = Some d \<and> format_date ch d \<noteq> null_string) \<and>
     (\<forall>d n e. add_days ch d n = Some e \<longrightarrow> days_since ch e d = n)"

text \<open>C23: \<open>Field::from_str\<close> applied to the text of a field, for a column of the field's type, gives the field back. A
  text must not be \<open>NULL\<close>, and that of a \<open>Char\<close> not longer than declared; a date must be in the range of the calendar. A
  decimal must have the scale of the column, which is positive, and fewer digits than the precision, which is at most
  18; a negative one must be at most -1.\<close>

theorem field_text_roundtrip:
  assumes "chrono_ok ch" and "prints_back ch (dtype attr) f"
  shows "\<exists>s. field_str ch f = Some s \<and> field_from_str ch s attr = Some (Inr f)"
proof (cases f)
  case (FDecimal w s)
  with assms(2) obtain p where p: "dtype attr = TDecimal p s" by (auto split: DataType.splits)
  with FDecimal assms(2) have "from_str_to_decimal (decimal_str w s) p s = Some (Inr (FDecimal w s))"
    by (intro decimal_text) (simp_all only: prints_back.simps DataType.case)
  with FDecimal p show ?thesis using decimal_str_not_null [of w s] by (simp add: field_from_str_def)
next
  case (FDate d)
  with assms(2) obtain e where e: "dtype attr = TDate" "add_days ch (base_date ch) d = Some e" by auto
  then show ?thesis using FDate assms(1) by (simp add: field_from_str_def from_str_to_date_def chrono_ok_def)
qed (use assms(2) in \<open>auto simp: field_from_str_def dec_int_not_null [unfolded null_string_def] parse_int_from_str_def ok_or_def
    from_str_to_char_def from_str_to_string_def from_str_to_bool_def from_str_to_null_def null_string_def\<close>)

text \<open>A calendar that counts days and prints their number.\<close>

definition day_count :: "i64 chrono" where
  "day_count = \<lparr>base_date = 0, parse_date = parse_signed, format_date = (\<lambda>d. dec_int (sint d)), add_days = i64_add,
     days_since = (\<lambda>d e. d - e)\<rparr>"

lemma day_count_ok: "chrono_ok day_count"
proof -
  have "e - d = n" if "i64_add d n = Some e" for d n e :: i64
  proof -
    have "e = word_of_int (sint d + sint n)" using that by (simp add: i64_add_def checked_int_def split: if_splits)
    then show ?thesis by simp
  qed
  then show ?thesis using dec_int_not_null by (simp add: chrono_ok_def day_count_def)
qed

theorem field_text_roundtrip_witness:
  "(\<exists>s. field_str day_count (FDecimal (- 1250) 2) = Some s \<and>
      field_from_str day_count s (Attribute_new ''price'' (TDecimal 10 2)) = Some (Inr (FDecimal (- 1250) 2))) \<and>
   (\<exists>s. field_str day_count (FDate 19000) = Some s \<and>
      field_from_str day_count s (Attribute_new ''day'' TDate) = Some (Inr (FDate 19000)))"
proof
  show "\<exists>s. field_str day_count (FDecimal (- 1250) 2) = Some s \<and>
      field_from_str day_count s (Attribute_new ''price'' (TDecimal 10 2)) = Some (Inr (FDecimal (- 1250) 2))"
    using field_text_roundtrip [OF day_count_ok, of "Attribute_new ''price'' (TDecimal 10 2)" "FDecimal (- 1250) 2"]
    by (simp add: Attribute_new_def del: field_str.simps)
  show "\<exists>s. field_str day_count (FDate 19000) = Some s \<and>
      field_from_str day_count s (Attribute_new ''day'' TDate) = Some (Inr (FDate 19000))"
    using field_text_roundtrip [OF day_count_ok, of "Attribute_new ''day'' TDate" "FDate 19000"]
    by (simp add: Attribute_new_def day_count_def i64_add_def checked_int_def del: field_str.simps)
qed

text \<open>C24: a decimal between -1 and 0 loses its sign when it is parsed: with or without the minus sign in
  front of the zero, the same positive number comes out.\<close>

theorem negative_fraction_loses_sign:
  assumes "list_all is_digit ys" and "ys \<noteq> []" and "length ys \<le> unat s" and "unat s \<le> unat p" and "unat p \<le> 18"
  shows "\<exists>w. from_str_to_decimal (''-0.'' @ ys) p s = Some (Inr (FDecimal w s)) \<and>
    from_str_to_decimal (''0.'' @ ys) p s = Some (Inr (FDecimal w s)) \<and>
    sint w = int (digits_val ys * 10 ^ (unat s - length ys))"
proof -
  define n where "n = 0 * 10 ^ unat s + digits_val ys * 10 ^ (unat s - length ys)"
  have z: "(parse_signed ''-0'' :: i64 option) = Some 0" "(parse_signed ''0'' :: i64 option) = Some 0"
    by code_simp+
  have "n < 10 ^ unat s" using adjusted_fractional_digits [OF assms(1-3)] assms(4,5) by (auto simp: n_def)
  moreover have "(10 :: nat) ^ unat s \<le> 10 ^ 18" using assms(4,5) by (intro power_increasing) simp_all
  ultimately have n: "n < 2 ^ 63" by simp
  have s: "unat s \<le> 18" "unat p - unat s \<le> 18" using assms(4,5) by simp_all
  obtain w where w: "from_str_to_decimal (''-0'' @ CHR ''.'' # ys) p s = Some (Inr (FDecimal w s))" "sint w = int n"
    using decimal_parts [OF s(1) assms(4) s(2) _ z(1) _ _ assms(1-3) n_def n] by auto
  obtain w' where w': "from_str_to_decimal (''0'' @ CHR ''.'' # ys) p s = Some (Inr (FDecimal w' s))" "sint w' = int n"
    using decimal_parts [OF s(1) assms(4) s(2) _ z(2) _ _ assms(1-3) n_def n] by auto
  have "w = w'" using w(2) w'(2) by (simp flip: sint_inject)
  with w w' show ?thesis by (simp add: n_def)
qed

theorem negative_fraction_loses_sign_witness:
  "\<exists>w. from_str_to_decimal ''-0.05'' 10 2 = Some (Inr (FDecimal w 2)) \<and>
     from_str_to_decimal ''0.05'' 10 2 = Some (Inr (FDecimal w 2)) \<and> sint w = 5"
  using negative_fraction_loses_sign [of "''05''" 2 10] by (simp add: is_digit_def digits_val_def digit_val_def)
end
