(* ===== verification/Tuples.thy ===== *)
theory Tuples
  imports Datatypes Ids
begin

text \<open>
  Tuples and table schemas: common/src/tuple.rs and common/src/table.rs. A tuple is its fields with a
  transaction id and, when it was read from a container, the id of the value it came from. The features
  \<open>inlinecc\<close> and \<open>mvcc\<close> are off. The byte encoding of a tuple is that of the crate serde_cbor, a parameter of
  the components that use it; the transaction id and the fields are encoded, the value id is not.
\<close>

section \<open>Tuples\<close>

record Tuple =
  tuple_tid :: u64
  tuple_value_id :: "ValueId option"
  field_vals :: "Field list"

definition Tuple_new :: "Field list \<Rightarrow> Tuple" where
  "Tuple_new fs = \<lparr>tuple_tid = 0, tuple_value_id = None, field_vals = fs\<rparr>"

definition get_field :: "Tuple \<Rightarrow> nat \<Rightarrow> Field option" where
  "get_field t i = (if i < length (field_vals t) then Some (field_vals t ! i) else None)"

definition set_field :: "Tuple \<Rightarrow> nat \<Rightarrow> Field \<Rightarrow> Tuple option" where
  "set_field t i f = (if i < length (field_vals t) then Some (t\<lparr>field_vals := (field_vals t)[i := f]\<rparr>) else None)"

definition tuple_len :: "Tuple \<Rightarrow> nat" where
  "tuple_len t = length (field_vals t)"

definition tuple_is_empty :: "Tuple \<Rightarrow> bool" where
  "tuple_is_empty t = (tuple_len t = 0)"

text \<open>\<open>size\<close>: 8 bytes for the transaction id and 16 for the optional value id.\<close>

definition tuple_size :: "Tuple \<Rightarrow> nat" where
  "tuple_size t = sum_list (map field_size (field_vals t)) + 8 + 16"

definition merge_tuples :: "Tuple \<Rightarrow> Tuple \<Rightarrow> Tuple" where
  "merge_tuples t u = Tuple_new (field_vals t @ field_vals u)"

primrec field_texts :: "'d chrono \<Rightarrow> Field list \<Rightarrow> string list option" where
  "field_texts ch [] = Some []"
| "field_texts ch (f # fs) = do { s \<leftarrow> field_str ch f; ss \<leftarrow> field_texts ch fs; Some (s # ss) }"

definition to_csv :: "'d chrono \<Rightarrow> Tuple \<Rightarrow> string option" where
  "to_csv ch t = map_option (str_join '','') (field_texts ch (field_vals t))"

definition tuple_str :: "'d chrono \<Rightarrow> Tuple \<Rightarrow> string option" where
  "tuple_str ch t = map_option (\<lambda>ss. concat (map (\<lambda>s. s @ [CHR 0x09]) ss)) (field_texts ch (field_vals t))"

text \<open>The tuples of an ingestion, and the records that did not convert.\<close>

record ConvertedResult =
  converted :: "Tuple list"
  unconverted :: "(nat \<times> ConversionError list) list"

definition ConvertedResult_new :: ConvertedResult where
  "ConvertedResult_new = \<lparr>converted = [], unconverted = []\<rparr>"

definition ConvertedResult_reset :: "ConvertedResult \<Rightarrow> ConvertedResult" where
  "ConvertedResult_reset r = r\<lparr>converted := [], unconverted := []\<rparr>"

section \<open>Schemas\<close>

record TableSchema =
  attributes :: "Attribute list"

record TableInfo =
  ti_c_id :: ContainerId
  ti_name :: string
  ti_schema :: TableSchema

record IndexInfo =
  ii_index_id :: ContainerId
  ii_name :: string
  ii_table_id :: ContainerId
  ii_columns :: "ColumnId list"
  ii_unique :: bool

definition TableSchema_new :: "Attribute list \<Rightarrow> TableSchema" where
  "TableSchema_new as = \<lparr>attributes = as\<rparr>"

definition from_vecs :: "string list \<Rightarrow> DataType list \<Rightarrow> TableSchema" where
  "from_vecs names dtypes = TableSchema_new (map (\<lambda>(n, t). Attribute_new n t) (zip names dtypes))"

definition get_attribute :: "TableSchema \<Rightarrow> nat \<Rightarrow> Attribute option" where
  "get_attribute s i = (if i < length (attributes s) then Some (attributes s ! i) else None)"

primrec find_name :: "nat \<Rightarrow> Attribute list \<Rightarrow> string \<Rightarrow> nat option" where
  "find_name i [] n = None"
| "find_name i (a # as) n = (if attr_name a = n then Some i else find_name (Suc i) as n)"

definition get_field_index :: "TableSchema \<Rightarrow> string \<Rightarrow> nat option" where
  "get_field_index s n = find_name 0 (attributes s) n"

definition get_pks :: "TableSchema \<Rightarrow> Attribute list" where
  "get_pks s = filter (\<lambda>a. constraint a = CPrimaryKey) (attributes s)"

definition schema_contains :: "TableSchema \<Rightarrow> string \<Rightarrow> bool" where
  "schema_contains s n = list_ex (\<lambda>a. attr_name a = n) (attributes s)"

definition merge_schemas :: "TableSchema \<Rightarrow> TableSchema \<Rightarrow> TableSchema" where
  "merge_schemas s t = TableSchema_new (attributes s @ attributes t)"

definition schema_size :: "TableSchema \<Rightarrow> nat" where
  "schema_size s = length (attributes s)"

section \<open>Lemmas\<close>

lemma field_vals_Tuple_new [simp]: "field_vals (Tuple_new fs) = fs"
  by (simp add: Tuple_new_def)

lemma field_vals_merge [simp]: "field_vals (merge_tuples t u) = field_vals t @ field_vals u"
  by (simp add: merge_tuples_def)

lemma merge_tuples_value_id [simp]: "tuple_value_id (merge_tuples t u) = None"
  by (simp add: merge_tuples_def Tuple_new_def)

lemma find_name_Some: "find_name i as n = Some j \<Longrightarrow> i \<le> j \<and> j - i < length as \<and> attr_name (as ! (j - i)) = n"
proof (induction as arbitrary: i)
  case Nil
  then show ?case by simp
next
  case (Cons a as)
  show ?case
  proof (cases "attr_name a = n")
    case True
    with Cons.prems show ?thesis by simp
  next
    case False
    with Cons.prems have "find_name (Suc i) as n = Some j" by simp
    from Cons.IH [OF this] have "Suc i \<le> j" "j - Suc i < length as" "attr_name (as ! (j - Suc i)) = n" by auto
    moreover from this have "j - i = Suc (j - Suc i)" by simp
    ultimately show ?thesis by simp
  qed
qed

lemma find_name_None: "find_name i as n = None \<longleftrightarrow> n \<notin> attr_name ` set as"
  by (induction as arbitrary: i) auto

lemma get_field_index_contains: "schema_contains s n \<longleftrightarrow> get_field_index s n \<noteq> None"
  by (auto simp: schema_contains_def get_field_index_def find_name_None list_ex_iff image_iff)

end
