(* ===== verification/ByteCode.thy ===== *)
theory ByteCode
  imports Tuples
begin

text \<open>
  Expressions over rows and their byte code: common/src/query/expr.rs, common/src/query/bytecode_expr.rs
  and the compiler of queryexe/src/query/planner.rs. An expression is a tree over column ids and may
  contain a plan, of the type \<open>'p\<close>; the functions on expressions take what they need of the plan's
  interface as an argument. Byte code is a list of numbers run by a stack machine; \<open>None\<close> is a panic.
\<close>

section \<open>Expressions\<close>

datatype 'p Expression =
    ColRef ColumnId
  | Lit Field
  | Binary BinaryOp "'p Expression" "'p Expression"
  | CaseExpr "'p Expression" "('p Expression \<times> 'p Expression) list" "'p Expression"
  | Subquery 'p

definition expr_int :: "i64 \<Rightarrow> 'p Expression" where
  "expr_int v = Lit (FBigInt v)"

definition expr_eq :: "'p Expression \<Rightarrow> 'p Expression \<Rightarrow> 'p Expression" where
  "expr_eq l r = Binary Eq l r"

definition expr_add :: "'p Expression \<Rightarrow> 'p Expression \<Rightarrow> 'p Expression" where
  "expr_add l r = Binary Add l r"

primrec has_subquery :: "'p Expression \<Rightarrow> bool" where
  "has_subquery (ColRef _) = False"
| "has_subquery (Lit _) = False"
| "has_subquery (Binary _ l r) = (has_subquery l \<or> has_subquery r)"
| "has_subquery (CaseExpr _ _ _) = False"
| "has_subquery (Subquery _) = True"

fun split_conjunction :: "'p Expression \<Rightarrow> 'p Expression list" where
  "split_conjunction (Binary And l r) = split_conjunction l @ split_conjunction r"
| "split_conjunction e = [e]"

fun combine_preds :: "'p Expression list \<Rightarrow> 'p Expression" where
  "combine_preds [] = Binary Eq (expr_int 1) (expr_int 1)"
| "combine_preds [e] = e"
| "combine_preds (e # es) = Binary And e (combine_preds es)"

text \<open>\<open>replace_variables\<close> renames columns, in the plan of a subquery too; columns that are not in the map
  stay.\<close>

definition ren :: "(ColumnId \<rightharpoonup> ColumnId) \<Rightarrow> ColumnId \<Rightarrow> ColumnId" where
  "ren m c = (case m c of Some d \<Rightarrow> d | None \<Rightarrow> c)"

primrec expr_replace_variables ::
  "((ColumnId \<rightharpoonup> ColumnId) \<Rightarrow> 'p \<Rightarrow> 'p) \<Rightarrow> (ColumnId \<rightharpoonup> ColumnId) \<Rightarrow> 'p Expression \<Rightarrow> 'p Expression" where
  "expr_replace_variables pr m (ColRef c) = ColRef (ren m c)"
| "expr_replace_variables pr m (Lit v) = Lit v"
| "expr_replace_variables pr m (Binary b l r) =
     Binary b (expr_replace_variables pr m l) (expr_replace_variables pr m r)"
| "expr_replace_variables pr m (CaseExpr e ws f) =
     CaseExpr (expr_replace_variables pr m e)
       (map (map_prod (expr_replace_variables pr m) (expr_replace_variables pr m)) ws)
       (expr_replace_variables pr m f)"
| "expr_replace_variables pr m (Subquery p) = Subquery (pr m p)"

primrec replace_variables_with_exprs :: "(ColumnId \<rightharpoonup> 'p Expression) \<Rightarrow> 'p Expression \<Rightarrow> 'p Expression" where
  "replace_variables_with_exprs m (ColRef c) = (case m c of Some e \<Rightarrow> e | None \<Rightarrow> ColRef c)"
| "replace_variables_with_exprs m (Lit v) = Lit v"
| "replace_variables_with_exprs m (Binary b l r) =
     Binary b (replace_variables_with_exprs m l) (replace_variables_with_exprs m r)"
| "replace_variables_with_exprs m (CaseExpr e ws f) =
     CaseExpr (replace_variables_with_exprs m e)
       (map (map_prod (replace_variables_with_exprs m) (replace_variables_with_exprs m)) ws)
       (replace_variables_with_exprs m f)"
| "replace_variables_with_exprs m (Subquery p) = Subquery p"

text \<open>\<open>free\<close>: all columns of an expression.\<close>

primrec expr_free :: "('p \<Rightarrow> ColumnId set) \<Rightarrow> 'p Expression \<Rightarrow> ColumnId set" where
  "expr_free pf (ColRef c) = {c}"
| "expr_free pf (Lit _) = {}"
| "expr_free pf (Binary _ l r) = expr_free pf l \<union> expr_free pf r"
| "expr_free pf (CaseExpr e ws f) =
     expr_free pf e \<union> \<Union> (set (map (\<lambda>(a, b). a \<union> b) (map (map_prod (expr_free pf) (expr_free pf)) ws)))
     \<union> expr_free pf f"
| "expr_free pf (Subquery p) = pf p"

definition bound_by :: "('p \<Rightarrow> ColumnId set) \<Rightarrow> ('p \<Rightarrow> ColumnId set) \<Rightarrow> 'p Expression \<Rightarrow> 'p \<Rightarrow> bool" where
  "bound_by pf pa e rel = (expr_free pf e \<subseteq> pa rel)"

definition intersect_with :: "('p \<Rightarrow> ColumnId set) \<Rightarrow> ('p \<Rightarrow> ColumnId set) \<Rightarrow> 'p Expression \<Rightarrow> 'p \<Rightarrow> bool" where
  "intersect_with pf pa e rel = (expr_free pf e \<inter> pa rel \<noteq> {})"

primrec to_physical_expression :: "('p \<Rightarrow> 'q) \<Rightarrow> 'p Expression \<Rightarrow> 'q Expression" where
  "to_physical_expression tp (ColRef c) = ColRef c"
| "to_physical_expression tp (Lit v) = Lit v"
| "to_physical_expression tp (Binary b l r) = Binary b (to_physical_expression tp l) (to_physical_expression tp r)"
| "to_physical_expression tp (CaseExpr e ws f) =
     CaseExpr (to_physical_expression tp e)
       (map (map_prod (to_physical_expression tp) (to_physical_expression tp)) ws)
       (to_physical_expression tp f)"
| "to_physical_expression tp (Subquery p) = Subquery (tp p)"

section \<open>The stack machine\<close>

datatype ByteCodes = PushLit | PushField | BAdd | BSub | BMul | BDiv | BEq | BNeq | BLt | BGt | BLte | BGte | BAnd | BOr

text \<open>\<open>as usize\<close>: the position in the enumeration.\<close>

fun code_of :: "ByteCodes \<Rightarrow> nat" where
  "code_of PushLit = 0"
| "code_of PushField = 1"
| "code_of BAdd = 2"
| "code_of BSub = 3"
| "code_of BMul = 4"
| "code_of BDiv = 5"
| "code_of BEq = 6"
| "code_of BNeq = 7"
| "code_of BLt = 8"
| "code_of BGt = 9"
| "code_of BLte = 10"
| "code_of BGte = 11"
| "code_of BAnd = 12"
| "code_of BOr = 13"

record ByteCodeExpr =
  bytecodes :: "nat list"
  literals :: "Field list"

definition ByteCodeExpr_new :: ByteCodeExpr where
  "ByteCodeExpr_new = \<lparr>bytecodes = [], literals = []\<rparr>"

definition add_code :: "ByteCodeExpr \<Rightarrow> nat \<Rightarrow> ByteCodeExpr" where
  "add_code b c = b\<lparr>bytecodes := bytecodes b @ [c]\<rparr>"

definition add_literal :: "ByteCodeExpr \<Rightarrow> Field \<Rightarrow> ByteCodeExpr \<times> nat" where
  "add_literal b l = (b\<lparr>literals := literals b @ [l]\<rparr>, length (literals b))"

definition colidx_expr :: "nat \<Rightarrow> ByteCodeExpr" where
  "colidx_expr i = add_code (add_code ByteCodeExpr_new (code_of PushField)) i"

text \<open>A machine step has the code, the position behind the operation, the stack with its top first, the
  literals and the record; it gives the new position and stack.\<close>

type_synonym dispatch_fn = "nat list \<Rightarrow> nat \<Rightarrow> Field list \<Rightarrow> Field list \<Rightarrow> Field list \<Rightarrow> (nat \<times> Field list) option"

definition push_field :: dispatch_fn where
  "push_field bc i st lits rec = do { k \<leftarrow> index bc i; v \<leftarrow> index rec k; Some (i + 1, v # st) }"

definition push_lit :: dispatch_fn where
  "push_lit bc i st lits rec = do { k \<leftarrow> index bc i; v \<leftarrow> index lits k; Some (i + 1, v # st) }"

text \<open>Two pops and a push; the right operand is on top.\<close>

definition pop2 :: "(Field \<Rightarrow> Field \<Rightarrow> Field option) \<Rightarrow> dispatch_fn" where
  "pop2 f bc i st lits rec = (case st of
     r # l # st' \<Rightarrow> do { v \<leftarrow> f l r; Some (i, v # st') }
   | _ \<Rightarrow> None)"

text \<open>\<open>unwrap\<close> of the result of an arithmetic operation.\<close>

definition ok_field :: "(CrustyError + Field) option \<Rightarrow> Field option" where
  "ok_field r = (case r of Some (Inr v) \<Rightarrow> Some v | _ \<Rightarrow> None)"

definition bc_add :: dispatch_fn where "bc_add = pop2 (\<lambda>l r. ok_field (field_add l r))"
definition bc_sub :: dispatch_fn where "bc_sub = pop2 (\<lambda>l r. ok_field (field_sub l r))"
definition bc_mul :: dispatch_fn where "bc_mul = pop2 (\<lambda>l r. ok_field (field_mul l r))"
definition bc_div :: dispatch_fn where "bc_div = pop2 (\<lambda>l r. ok_field (field_div l r))"
definition bc_eq :: dispatch_fn where "bc_eq = pop2 (\<lambda>l r. Some (field_from_bool (l = r)))"
definition bc_neq :: dispatch_fn where "bc_neq = pop2 (\<lambda>l r. Some (field_from_bool (l \<noteq> r)))"
definition bc_lt :: dispatch_fn where "bc_lt = pop2 (\<lambda>l r. Some (field_from_bool (l < r)))"
definition bc_gt :: dispatch_fn where "bc_gt = pop2 (\<lambda>l r. Some (field_from_bool (l > r)))"
definition bc_lte :: dispatch_fn where "bc_lte = pop2 (\<lambda>l r. Some (field_from_bool (l \<le> r)))"
definition bc_gte :: dispatch_fn where "bc_gte = pop2 (\<lambda>l r. Some (field_from_bool (l \<ge> r)))"
definition bc_and :: dispatch_fn where "bc_and = pop2 field_and"
definition bc_or :: dispatch_fn where "bc_or = pop2 field_or"

definition STATIC_DISPATCHER :: "dispatch_fn list" where
  "STATIC_DISPATCHER = [push_lit, push_field, bc_add, bc_sub, bc_mul, bc_div,
     bc_eq, bc_neq, bc_lt, bc_gt, bc_lte, bc_gte, bc_and, bc_or]"

lemma pop2_position: "pop2 f bc i st lits rec = Some (j, st') \<Longrightarrow> j = i"
  by (auto simp: pop2_def split: list.splits Option.bind_splits)

lemma dispatch_mem:
  "f \<in> set STATIC_DISPATCHER \<Longrightarrow> f bc i st lits rec = Some (j, st') \<Longrightarrow> i \<le> j"
  unfolding STATIC_DISPATCHER_def bc_add_def bc_sub_def bc_mul_def bc_div_def bc_eq_def bc_neq_def
    bc_lt_def bc_gt_def bc_lte_def bc_gte_def bc_and_def bc_or_def
  by (auto simp: push_lit_def push_field_def dest: pop2_position split: Option.bind_splits)

lemma dispatch_position:
  assumes "k < 14" and "(STATIC_DISPATCHER ! k) bc i st lits rec = Some (j, st')"
  shows "i \<le> j"
proof -
  have "length STATIC_DISPATCHER = 14" by (simp add: STATIC_DISPATCHER_def)
  with assms show ?thesis by (metis dispatch_mem nth_mem)
qed

text \<open>The loop of \<open>eval\<close>.\<close>

function run_code :: "nat list \<Rightarrow> nat \<Rightarrow> Field list \<Rightarrow> Field list \<Rightarrow> Field list \<Rightarrow> Field list option" where
  "run_code bc i st lits rec = (if i < length bc
     then (if bc ! i < 14
       then (case (STATIC_DISPATCHER ! (bc ! i)) bc (i + 1) st lits rec of
           None \<Rightarrow> None
         | Some (j, st') \<Rightarrow> run_code bc j st' lits rec)
       else None)
     else Some st)"
  by pat_completeness auto
termination
proof (relation "measure (\<lambda>(bc, i, _). length bc - i)", goal_cases)
  case 1
  show ?case by simp
next
  case (2 bc i st lits rec x y z)
  then have "i + 1 \<le> y" using dispatch_position by metis
  with 2 show ?case by simp
qed

declare run_code.simps [simp del]

definition bytecode_eval :: "ByteCodeExpr \<Rightarrow> Tuple \<Rightarrow> Field option" where
  "bytecode_eval b t = (if bytecodes b = [] then None
     else do {
       st \<leftarrow> run_code (bytecodes b) 0 [] (literals b) (field_vals t);
       (case st of [] \<Rightarrow> None | v # _ \<Rightarrow> Some v) })"

section \<open>The compiler\<close>

fun op_code :: "BinaryOp \<Rightarrow> ByteCodes" where
  "op_code Add = BAdd"
| "op_code Sub = BSub"
| "op_code Mul = BMul"
| "op_code Div = BDiv"
| "op_code Eq = BEq"
| "op_code Neq = BNeq"
| "op_code Gt = BGt"
| "op_code Ge = BGte"
| "op_code Lt = BLt"
| "op_code Le = BLte"
| "op_code And = BAnd"
| "op_code Or = BOr"

primrec convert_expr_to_bytecode_inner :: "'p Expression \<Rightarrow> ByteCodeExpr \<Rightarrow> CrustyError + ByteCodeExpr" where
  "convert_expr_to_bytecode_inner (Lit l) b =
     (let (b, i) = add_literal b l in Inr (add_code (add_code b (code_of PushLit)) i))"
| "convert_expr_to_bytecode_inner (Binary op l r) b = (case convert_expr_to_bytecode_inner l b of
     Inl e \<Rightarrow> Inl e
   | Inr b \<Rightarrow> (case convert_expr_to_bytecode_inner r b of
       Inl e \<Rightarrow> Inl e
     | Inr b \<Rightarrow> Inr (add_code b (code_of (op_code op)))))"
| "convert_expr_to_bytecode_inner (ColRef i) b = Inr (add_code (add_code b (code_of PushField)) i)"
| "convert_expr_to_bytecode_inner (CaseExpr _ _ _) b = Inl (c_err ''Unsupported expression'')"
| "convert_expr_to_bytecode_inner (Subquery _) b = Inl (c_err ''Unsupported expression'')"

definition convert_expr_to_bytecode ::
  "((ColumnId \<rightharpoonup> ColumnId) \<Rightarrow> 'p \<Rightarrow> 'p) \<Rightarrow> 'p Expression \<Rightarrow> (ColumnId \<rightharpoonup> ColumnId) option \<Rightarrow> CrustyError + ByteCodeExpr" where
  "convert_expr_to_bytecode pr e m =
     (let bound_expr = (case m of Some m \<Rightarrow> expr_replace_variables pr m e | None \<Rightarrow> e)
      in convert_expr_to_bytecode_inner bound_expr ByteCodeExpr_new)"

end
