(* ===== verification/Operators.thy ===== *)
theory Operators
  imports ByteCode
begin

text \<open>
  The operators of the query engine, queryexe/src/opiterator. The trait \<open>OpIterator\<close> is a record of
  functions on the operator's state and the managers it shares with other operators, of the type \<open>'w\<close>. An
  operator with a child is defined over the interface of any child; its state is its own record paired
  with the child's. A call returns \<open>None\<close> when it panics or does not return.
\<close>

section \<open>The interface\<close>

record ('s, 'w) op_ops =
  op_configure :: "bool \<Rightarrow> 's \<Rightarrow> 's"
  op_open :: "'s \<times> 'w \<Rightarrow> ('s \<times> 'w, CrustyError, unit) run"
  op_next :: "'s \<times> 'w \<Rightarrow> ('s \<times> 'w, CrustyError, Tuple option) run"
  op_close :: "'s \<times> 'w \<Rightarrow> ('s \<times> 'w, CrustyError, unit) run"
  op_rewind :: "'s \<times> 'w \<Rightarrow> ('s \<times> 'w, CrustyError, unit) run"
  op_schema :: "'s \<Rightarrow> TableSchema"

text \<open>Calls of a child, with the operator's own record kept beside it.\<close>

definition on_child :: "'o \<Rightarrow> ('c \<times> 'w, 'e, 'a) run \<Rightarrow> (('o \<times> 'c) \<times> 'w, 'e, 'a) run" where
  "on_child p m = map_option (\<lambda>((c, w), r). (((p, c), w), r)) m"

definition on_left :: "'o \<Rightarrow> 'b \<Rightarrow> ('a \<times> 'w, 'e, 'x) run \<Rightarrow> (('o \<times> 'a \<times> 'b) \<times> 'w, 'e, 'x) run" where
  "on_left p b m = map_option (\<lambda>((a, w), r). (((p, a, b), w), r)) m"

definition on_right :: "'o \<Rightarrow> 'a \<Rightarrow> ('b \<times> 'w, 'e, 'x) run \<Rightarrow> (('o \<times> 'a \<times> 'b) \<times> 'w, 'e, 'x) run" where
  "on_right p a m = map_option (\<lambda>((b, w), r). (((p, a, b), w), r)) m"

lemma on_child_simps [simp]:
  "on_child p None = None" "on_child p (Some ((c, w), r)) = Some (((p, c), w), r)"
  by (simp_all add: on_child_def)

lemma on_left_simps [simp]:
  "on_left p b None = None" "on_left p b (Some ((a, w), r)) = Some (((p, a, b), w), r)"
  by (simp_all add: on_left_def)

lemma on_right_simps [simp]:
  "on_right p a None = None" "on_right p a (Some ((b, w), r)) = Some (((p, a, b), w), r)"
  by (simp_all add: on_right_def)

text \<open>\<open>while let Some(t) = child.next()? { .. }\<close> with the body as a step on what the loop builds up. On an
  error of the child the loop is left with what was built so far.\<close>

partial_function (option) for_each ::
  "('s, 'w) op_ops \<Rightarrow> ('a \<Rightarrow> Tuple \<Rightarrow> 'a option) \<Rightarrow> 'a \<Rightarrow> 's \<times> 'w \<Rightarrow> (('a \<times> 's \<times> 'w) \<times> (CrustyError + unit)) option" where
  "for_each C f acc x = (case op_next C x of
     None \<Rightarrow> None
   | Some (x, Inl e) \<Rightarrow> Some ((acc, x), Inl e)
   | Some (x, Inr None) \<Rightarrow> Some ((acc, x), Inr ())
   | Some (x, Inr (Some t)) \<Rightarrow> (case f acc t of None \<Rightarrow> None | Some acc \<Rightarrow> for_each C f acc x))"

text \<open>\<open>Executor::execute\<close>: the whole run of a plan.\<close>

definition execute :: "('s, 'w) op_ops \<Rightarrow> 's \<times> 'w \<Rightarrow> ('s \<times> 'w, CrustyError, TableSchema \<times> Tuple list) run" where
  "execute C = (\<lambda>(s, w). let schema = op_schema C s; s = op_configure C False s in
     and_then (op_open C (s, w)) (\<lambda>x _.
     (case for_each C (\<lambda>ts t. Some (ts @ [t])) [] x of
        None \<Rightarrow> None
      | Some ((ts, x), Inl e) \<Rightarrow> Some (x, Inl e)
      | Some ((ts, x), Inr _) \<Rightarrow>
          and_then (op_close C x) (\<lambda>x _. Some (x, Inr (schema, ts))))))"

text \<open>Evaluating a list of expressions on a tuple.\<close>

primrec eval_all :: "ByteCodeExpr list \<Rightarrow> Tuple \<Rightarrow> Field list option" where
  "eval_all [] t = Some []"
| "eval_all (e # es) t = do { v \<leftarrow> bytecode_eval e t; vs \<leftarrow> eval_all es t; Some (v # vs) }"

section \<open>A vector of tuples\<close>

record TupleIterator =
  tup_schema :: TableSchema
  tuples :: "Tuple list"
  tup_will_rewind :: bool
  tup_open :: bool
  tup_index :: nat

definition TupleIterator_new :: "Tuple list \<Rightarrow> TableSchema \<Rightarrow> TupleIterator" where
  "TupleIterator_new ts sc =
     \<lparr>tup_schema = sc, tuples = rev ts, tup_will_rewind = True, tup_open = False, tup_index = length ts\<rparr>"

definition tup_configure :: "bool \<Rightarrow> TupleIterator \<Rightarrow> TupleIterator" where
  "tup_configure rw s = s\<lparr>tup_will_rewind := rw\<rparr>"

definition tup_open_op :: "TupleIterator \<times> 'w \<Rightarrow> (TupleIterator \<times> 'w, CrustyError, unit) run" where
  "tup_open_op = (\<lambda>(s, w). Some ((if tup_open s then s else s\<lparr>tup_open := True\<rparr>, w), Inr ()))"

definition tup_next :: "TupleIterator \<times> 'w \<Rightarrow> (TupleIterator \<times> 'w, CrustyError, Tuple option) run" where
  "tup_next = (\<lambda>(s, w).
     if \<not> tup_open s then None
     else if tup_will_rewind s then
       (if tup_index s = 0 then Some ((s, w), Inr None)
        else (let i = tup_index s - 1 in
          Some ((s\<lparr>tup_index := i\<rparr>, w), Inr (if i < length (tuples s) then Some (tuples s ! i) else None))))
     else (if tuples s = [] then Some ((s, w), Inr None)
        else Some ((s\<lparr>tuples := butlast (tuples s)\<rparr>, w), Inr (Some (last (tuples s))))))"

definition tup_close :: "TupleIterator \<times> 'w \<Rightarrow> (TupleIterator \<times> 'w, CrustyError, unit) run" where
  "tup_close = (\<lambda>(s, w). Some ((s\<lparr>tup_index := 0, tup_open := False\<rparr>, w), Inr ()))"

definition tup_rewind :: "TupleIterator \<times> 'w \<Rightarrow> (TupleIterator \<times> 'w, CrustyError, unit) run" where
  "tup_rewind = (\<lambda>(s, w). if \<not> tup_open s then None
     else if \<not> tup_will_rewind s then None
     else Some ((s\<lparr>tup_index := length (tuples s)\<rparr>, w), Inr ()))"

definition tuple_ops :: "(TupleIterator, 'w) op_ops" where
  "tuple_ops = \<lparr>op_configure = tup_configure, op_open = tup_open_op, op_next = tup_next,
     op_close = tup_close, op_rewind = tup_rewind, op_schema = tup_schema\<rparr>"

section \<open>Filter\<close>

record Filter =
  fil_schema :: TableSchema
  predicate :: ByteCodeExpr
  fil_open :: bool

definition Filter_new :: "ByteCodeExpr \<Rightarrow> TableSchema \<Rightarrow> 'c \<Rightarrow> Filter \<times> 'c" where
  "Filter_new p sc c = (\<lparr>fil_schema = sc, predicate = p, fil_open = False\<rparr>, c)"

definition fil_configure :: "('c, 'w) op_ops \<Rightarrow> bool \<Rightarrow> Filter \<times> 'c \<Rightarrow> Filter \<times> 'c" where
  "fil_configure C rw = (\<lambda>(s, c). (s, op_configure C rw c))"

definition fil_open_op :: "('c, 'w) op_ops \<Rightarrow> (Filter \<times> 'c) \<times> 'w \<Rightarrow> ((Filter \<times> 'c) \<times> 'w, CrustyError, unit) run" where
  "fil_open_op C = (\<lambda>((s, c), w). if fil_open s then Some (((s, c), w), Inr ())
     else and_then (on_child s (op_open C (c, w)))
       (\<lambda>((s, c), w) _. Some (((s\<lparr>fil_open := True\<rparr>, c), w), Inr ())))"

partial_function (option) fil_loop ::
  "('c, 'w) op_ops \<Rightarrow> ByteCodeExpr \<Rightarrow> 'c \<times> 'w \<Rightarrow> ('c \<times> 'w, CrustyError, Tuple option) run" where
  "fil_loop C p x = (case op_next C x of
     None \<Rightarrow> None
   | Some (x, Inl e) \<Rightarrow> Some (x, Inl e)
   | Some (x, Inr None) \<Rightarrow> Some (x, Inr None)
   | Some (x, Inr (Some t)) \<Rightarrow> (case bytecode_eval p t of
       None \<Rightarrow> None
     | Some (FBool b) \<Rightarrow> if b then Some (x, Inr (Some t)) else fil_loop C p x
     | Some _ \<Rightarrow> Some (x, Inl (c_err ''Predicate did not evaluate to a boolean''))))"

definition fil_next :: "('c, 'w) op_ops \<Rightarrow> (Filter \<times> 'c) \<times> 'w \<Rightarrow> ((Filter \<times> 'c) \<times> 'w, CrustyError, Tuple option) run" where
  "fil_next C = (\<lambda>((s, c), w). if \<not> fil_open s then None else on_child s (fil_loop C (predicate s) (c, w)))"

definition fil_close :: "('c, 'w) op_ops \<Rightarrow> (Filter \<times> 'c) \<times> 'w \<Rightarrow> ((Filter \<times> 'c) \<times> 'w, CrustyError, unit) run" where
  "fil_close C = (\<lambda>((s, c), w). and_then (on_child s (op_close C (c, w)))
     (\<lambda>((s, c), w) _. Some (((s\<lparr>fil_open := False\<rparr>, c), w), Inr ())))"

definition fil_rewind :: "('c, 'w) op_ops \<Rightarrow> (Filter \<times> 'c) \<times> 'w \<Rightarrow> ((Filter \<times> 'c) \<times> 'w, CrustyError, unit) run" where
  "fil_rewind C = (\<lambda>((s, c), w). if \<not> fil_open s then None else on_child s (op_rewind C (c, w)))"

definition filter_ops :: "('c, 'w) op_ops \<Rightarrow> (Filter \<times> 'c, 'w) op_ops" where
  "filter_ops C = \<lparr>op_configure = fil_configure C, op_open = fil_open_op C, op_next = fil_next C,
     op_close = fil_close C, op_rewind = fil_rewind C, op_schema = (\<lambda>(s, c). fil_schema s)\<rparr>"

section \<open>Projection\<close>

record Project =
  pro_schema :: TableSchema
  pro_fields :: "ByteCodeExpr list"
  pro_open :: bool

definition Project_new :: "ByteCodeExpr list \<Rightarrow> TableSchema \<Rightarrow> 'c \<Rightarrow> Project \<times> 'c" where
  "Project_new fs sc c = (\<lparr>pro_schema = sc, pro_fields = fs, pro_open = False\<rparr>, c)"

definition pro_configure :: "('c, 'w) op_ops \<Rightarrow> bool \<Rightarrow> Project \<times> 'c \<Rightarrow> Project \<times> 'c" where
  "pro_configure C rw = (\<lambda>(s, c). (s, op_configure C rw c))"

definition pro_open_op :: "('c, 'w) op_ops \<Rightarrow> (Project \<times> 'c) \<times> 'w \<Rightarrow> ((Project \<times> 'c) \<times> 'w, CrustyError, unit) run" where
  "pro_open_op C = (\<lambda>((s, c), w). if pro_open s then Some (((s\<lparr>pro_open := True\<rparr>, c), w), Inr ())
     else and_then (on_child s (op_open C (c, w)))
       (\<lambda>((s, c), w) _. Some (((s\<lparr>pro_open := True\<rparr>, c), w), Inr ())))"

definition pro_next :: "('c, 'w) op_ops \<Rightarrow> (Project \<times> 'c) \<times> 'w \<Rightarrow> ((Project \<times> 'c) \<times> 'w, CrustyError, Tuple option) run" where
  "pro_next C = (\<lambda>((s, c), w). if \<not> pro_open s then None
     else and_then (on_child s (op_next C (c, w))) (\<lambda>x r.
       (case r of
          None \<Rightarrow> Some (x, Inr None)
        | Some t \<Rightarrow> (case eval_all (pro_fields s) t of
            None \<Rightarrow> None
          | Some vs \<Rightarrow> Some (x, Inr (Some (Tuple_new vs)))))))"

definition pro_close :: "('c, 'w) op_ops \<Rightarrow> (Project \<times> 'c) \<times> 'w \<Rightarrow> ((Project \<times> 'c) \<times> 'w, CrustyError, unit) run" where
  "pro_close C = (\<lambda>((s, c), w). and_then (on_child s (op_close C (c, w)))
     (\<lambda>((s, c), w) _. Some (((s\<lparr>pro_open := False\<rparr>, c), w), Inr ())))"

definition pro_rewind :: "('c, 'w) op_ops \<Rightarrow> (Project \<times> 'c) \<times> 'w \<Rightarrow> ((Project \<times> 'c) \<times> 'w, CrustyError, unit) run" where
  "pro_rewind C = (\<lambda>((s, c), w). if \<not> pro_open s then None else on_child s (op_rewind C (c, w)))"

definition project_ops :: "('c, 'w) op_ops \<Rightarrow> (Project \<times> 'c, 'w) op_ops" where
  "project_ops C = \<lparr>op_configure = pro_configure C, op_open = pro_open_op C, op_next = pro_next C,
     op_close = pro_close C, op_rewind = pro_rewind C, op_schema = (\<lambda>(s, c). pro_schema s)\<rparr>"

end
