(* ===== verification/Joins.thy ===== *)
theory Joins
  imports Operators "HOL-Library.AList"
begin

text \<open>
  The joins that stream one side: queryexe/src/opiterator/cross_join.rs, nested_loop_join.rs and
  hash_join.rs. The state of a join is its record with the states of the left and the right child; both
  share the managers. The hash map of the hash join is an association list from keys to buckets.
\<close>

section \<open>Cross join\<close>

record CrossJoin =
  cj_schema :: TableSchema
  cj_open :: bool
  cj_current_tuple :: "Tuple option"

definition CrossJoin_new :: "TableSchema \<Rightarrow> 'a \<Rightarrow> 'b \<Rightarrow> CrossJoin \<times> 'a \<times> 'b" where
  "CrossJoin_new sc l r = (\<lparr>cj_schema = sc, cj_open = False, cj_current_tuple = None\<rparr>, l, r)"

definition cj_configure :: "('a, 'w) op_ops \<Rightarrow> ('b, 'w) op_ops \<Rightarrow> bool \<Rightarrow> CrossJoin \<times> 'a \<times> 'b \<Rightarrow> CrossJoin \<times> 'a \<times> 'b" where
  "cj_configure L R rw = (\<lambda>(s, l, r). (s, op_configure L rw l, op_configure R True r))"

definition cj_open_op :: "('a, 'w) op_ops \<Rightarrow> ('b, 'w) op_ops \<Rightarrow> (CrossJoin \<times> 'a \<times> 'b) \<times> 'w \<Rightarrow>
    ((CrossJoin \<times> 'a \<times> 'b) \<times> 'w, CrustyError, unit) run" where
  "cj_open_op L R = (\<lambda>((s, l, r), w). if cj_open s then Some (((s, l, r), w), Inr ())
     else and_then (on_left s r (op_open L (l, w))) (\<lambda>((s, l, r), w) _.
       and_then (on_right s l (op_open R (r, w))) (\<lambda>((s, l, r), w) _.
       and_then (on_left s r (op_next L (l, w))) (\<lambda>((s, l, r), w) t.
       Some (((s\<lparr>cj_current_tuple := t, cj_open := True\<rparr>, l, r), w), Inr ())))))"

partial_function (option) cj_loop :: "('a, 'w) op_ops \<Rightarrow> ('b, 'w) op_ops \<Rightarrow> (CrossJoin \<times> 'a \<times> 'b) \<times> 'w \<Rightarrow>
    ((CrossJoin \<times> 'a \<times> 'b) \<times> 'w, CrustyError, Tuple option) run" where
  "cj_loop L R x = (case x of ((s, l, r), w) \<Rightarrow>
     (case cj_current_tuple s of
        None \<Rightarrow> Some (x, Inr None)
      | Some left_tuple \<Rightarrow> (case op_next R (r, w) of
          None \<Rightarrow> None
        | Some ((r, w), Inl e) \<Rightarrow> Some (((s, l, r), w), Inl e)
        | Some ((r, w), Inr (Some right_tuple)) \<Rightarrow>
            Some (((s, l, r), w), Inr (Some (merge_tuples left_tuple right_tuple)))
        | Some ((r, w), Inr None) \<Rightarrow> (case op_rewind R (r, w) of
            None \<Rightarrow> None
          | Some ((r, w), Inl e) \<Rightarrow> Some (((s, l, r), w), Inl e)
          | Some ((r, w), Inr _) \<Rightarrow> (case op_next L (l, w) of
              None \<Rightarrow> None
            | Some ((l, w), Inl e) \<Rightarrow> Some (((s, l, r), w), Inl e)
            | Some ((l, w), Inr t) \<Rightarrow> cj_loop L R ((s\<lparr>cj_current_tuple := t\<rparr>, l, r), w))))))"

definition cj_next :: "('a, 'w) op_ops \<Rightarrow> ('b, 'w) op_ops \<Rightarrow> (CrossJoin \<times> 'a \<times> 'b) \<times> 'w \<Rightarrow>
    ((CrossJoin \<times> 'a \<times> 'b) \<times> 'w, CrustyError, Tuple option) run" where
  "cj_next L R = (\<lambda>((s, l, r), w). if \<not> cj_open s then None else cj_loop L R ((s, l, r), w))"

definition cj_close :: "('a, 'w) op_ops \<Rightarrow> ('b, 'w) op_ops \<Rightarrow> (CrossJoin \<times> 'a \<times> 'b) \<times> 'w \<Rightarrow>
    ((CrossJoin \<times> 'a \<times> 'b) \<times> 'w, CrustyError, unit) run" where
  "cj_close L R = (\<lambda>((s, l, r), w).
     and_then (on_left s r (op_close L (l, w))) (\<lambda>((s, l, r), w) _.
     and_then (on_right s l (op_close R (r, w))) (\<lambda>((s, l, r), w) _.
     Some (((s\<lparr>cj_open := False\<rparr>, l, r), w), Inr ()))))"

definition cj_rewind :: "('a, 'w) op_ops \<Rightarrow> ('b, 'w) op_ops \<Rightarrow> (CrossJoin \<times> 'a \<times> 'b) \<times> 'w \<Rightarrow>
    ((CrossJoin \<times> 'a \<times> 'b) \<times> 'w, CrustyError, unit) run" where
  "cj_rewind L R = (\<lambda>((s, l, r), w).
     and_then (on_left s r (op_rewind L (l, w))) (\<lambda>((s, l, r), w) _.
     and_then (on_right s l (op_rewind R (r, w))) (\<lambda>((s, l, r), w) _.
     and_then (on_left s r (op_next L (l, w))) (\<lambda>((s, l, r), w) t.
     Some (((s\<lparr>cj_current_tuple := t\<rparr>, l, r), w), Inr ())))))"

definition cross_ops :: "('a, 'w) op_ops \<Rightarrow> ('b, 'w) op_ops \<Rightarrow> (CrossJoin \<times> 'a \<times> 'b, 'w) op_ops" where
  "cross_ops L R = \<lparr>op_configure = cj_configure L R, op_open = cj_open_op L R, op_next = cj_next L R,
     op_close = cj_close L R, op_rewind = cj_rewind L R, op_schema = (\<lambda>(s, l, r). cj_schema s)\<rparr>"

section \<open>Nested loop join\<close>

record NestedLoopJoin =
  nlj_schema :: TableSchema
  nlj_op :: BinaryOp
  nlj_left_expr :: ByteCodeExpr
  nlj_right_expr :: ByteCodeExpr
  nlj_open :: bool
  nlj_current_tuple :: "Tuple option"

definition NestedLoopJoin_new ::
  "BinaryOp \<Rightarrow> ByteCodeExpr \<Rightarrow> ByteCodeExpr \<Rightarrow> 'a \<Rightarrow> 'b \<Rightarrow> TableSchema \<Rightarrow> NestedLoopJoin \<times> 'a \<times> 'b" where
  "NestedLoopJoin_new op le re l r sc = (\<lparr>nlj_schema = sc, nlj_op = op, nlj_left_expr = le, nlj_right_expr = re,
     nlj_open = False, nlj_current_tuple = None\<rparr>, l, r)"

definition nlj_configure :: "('a, 'w) op_ops \<Rightarrow> ('b, 'w) op_ops \<Rightarrow> bool \<Rightarrow> NestedLoopJoin \<times> 'a \<times> 'b \<Rightarrow> NestedLoopJoin \<times> 'a \<times> 'b" where
  "nlj_configure L R rw = (\<lambda>(s, l, r). (s, op_configure L rw l, op_configure R True r))"

definition nlj_open_op :: "('a, 'w) op_ops \<Rightarrow> ('b, 'w) op_ops \<Rightarrow> (NestedLoopJoin \<times> 'a \<times> 'b) \<times> 'w \<Rightarrow>
    ((NestedLoopJoin \<times> 'a \<times> 'b) \<times> 'w, CrustyError, unit) run" where
  "nlj_open_op L R = (\<lambda>((s, l, r), w). if nlj_open s then Some (((s, l, r), w), Inr ())
     else and_then (on_left s r (op_open L (l, w))) (\<lambda>((s, l, r), w) _.
       and_then (on_right s l (op_open R (r, w))) (\<lambda>((s, l, r), w) _.
       and_then (on_left s r (op_next L (l, w))) (\<lambda>((s, l, r), w) t.
       Some (((s\<lparr>nlj_current_tuple := t, nlj_open := True\<rparr>, l, r), w), Inr ())))))"

text \<open>The comparison of a pair of tuples.\<close>

definition nlj_matches :: "NestedLoopJoin \<Rightarrow> Tuple \<Rightarrow> Tuple \<Rightarrow> bool option" where
  "nlj_matches s t u = do {
     left_val \<leftarrow> bytecode_eval (nlj_left_expr s) t;
     right_val \<leftarrow> bytecode_eval (nlj_right_expr s) u;
     compare_fields (nlj_op s) left_val right_val }"

partial_function (option) nlj_loop :: "('a, 'w) op_ops \<Rightarrow> ('b, 'w) op_ops \<Rightarrow> (NestedLoopJoin \<times> 'a \<times> 'b) \<times> 'w \<Rightarrow>
    ((NestedLoopJoin \<times> 'a \<times> 'b) \<times> 'w, CrustyError, Tuple option) run" where
  "nlj_loop L R x = (case x of ((s, l, r), w) \<Rightarrow>
     (case nlj_current_tuple s of
        None \<Rightarrow> Some (x, Inr None)
      | Some left_tuple \<Rightarrow> (case op_next R (r, w) of
          None \<Rightarrow> None
        | Some ((r, w), Inl e) \<Rightarrow> Some (((s, l, r), w), Inl e)
        | Some ((r, w), Inr (Some right_tuple)) \<Rightarrow> (case nlj_matches s left_tuple right_tuple of
            None \<Rightarrow> None
          | Some b \<Rightarrow> if b then Some (((s, l, r), w), Inr (Some (merge_tuples left_tuple right_tuple)))
              else nlj_loop L R ((s, l, r), w))
        | Some ((r, w), Inr None) \<Rightarrow> (case op_rewind R (r, w) of
            None \<Rightarrow> None
          | Some ((r, w), Inl e) \<Rightarrow> Some (((s, l, r), w), Inl e)
          | Some ((r, w), Inr _) \<Rightarrow> (case op_next L (l, w) of
              None \<Rightarrow> None
            | Some ((l, w), Inl e) \<Rightarrow> Some (((s, l, r), w), Inl e)
            | Some ((l, w), Inr t) \<Rightarrow> nlj_loop L R ((s\<lparr>nlj_current_tuple := t\<rparr>, l, r), w))))))"

definition nlj_next :: "('a, 'w) op_ops \<Rightarrow> ('b, 'w) op_ops \<Rightarrow> (NestedLoopJoin \<times> 'a \<times> 'b) \<times> 'w \<Rightarrow>
    ((NestedLoopJoin \<times> 'a \<times> 'b) \<times> 'w, CrustyError, Tuple option) run" where
  "nlj_next L R = (\<lambda>((s, l, r), w). if \<not> nlj_open s then None else nlj_loop L R ((s, l, r), w))"

definition nlj_close :: "('a, 'w) op_ops \<Rightarrow> ('b, 'w) op_ops \<Rightarrow> (NestedLoopJoin \<times> 'a \<times> 'b) \<times> 'w \<Rightarrow>
    ((NestedLoopJoin \<times> 'a \<times> 'b) \<times> 'w, CrustyError, unit) run" where
  "nlj_close L R = (\<lambda>((s, l, r), w).
     and_then (on_left s r (op_close L (l, w))) (\<lambda>((s, l, r), w) _.
     and_then (on_right s l (op_close R (r, w))) (\<lambda>((s, l, r), w) _.
     Some (((s\<lparr>nlj_open := False\<rparr>, l, r), w), Inr ()))))"

definition nlj_rewind :: "('a, 'w) op_ops \<Rightarrow> ('b, 'w) op_ops \<Rightarrow> (NestedLoopJoin \<times> 'a \<times> 'b) \<times> 'w \<Rightarrow>
    ((NestedLoopJoin \<times> 'a \<times> 'b) \<times> 'w, CrustyError, unit) run" where
  "nlj_rewind L R = (\<lambda>((s, l, r), w). if \<not> nlj_open s then None
     else and_then (on_left s r (op_rewind L (l, w))) (\<lambda>((s, l, r), w) _.
     and_then (on_right s l (op_rewind R (r, w))) (\<lambda>((s, l, r), w) _.
     and_then (on_left s r (op_next L (l, w))) (\<lambda>((s, l, r), w) t.
     Some (((s\<lparr>nlj_current_tuple := t\<rparr>, l, r), w), Inr ())))))"

definition nlj_ops :: "('a, 'w) op_ops \<Rightarrow> ('b, 'w) op_ops \<Rightarrow> (NestedLoopJoin \<times> 'a \<times> 'b, 'w) op_ops" where
  "nlj_ops L R = \<lparr>op_configure = nlj_configure L R, op_open = nlj_open_op L R, op_next = nlj_next L R,
     op_close = nlj_close L R, op_rewind = nlj_rewind L R, op_schema = (\<lambda>(s, l, r). nlj_schema s)\<rparr>"

section \<open>Hash join\<close>

record HashEqJoin =
  hj_schema :: TableSchema
  hj_left_expr :: ByteCodeExpr
  hj_right_expr :: ByteCodeExpr
  hj_open :: bool
  join_map :: "(Field \<times> Tuple list) list"
  hj_current_tuple :: "Tuple option"
  current_idx :: nat

definition HashEqJoin_new ::
  "TableSchema \<Rightarrow> ByteCodeExpr \<Rightarrow> ByteCodeExpr \<Rightarrow> 'a \<Rightarrow> 'b \<Rightarrow> HashEqJoin \<times> 'a \<times> 'b" where
  "HashEqJoin_new sc le re l r = (\<lparr>hj_schema = sc, hj_left_expr = le, hj_right_expr = re, hj_open = False,
     join_map = [], hj_current_tuple = None, current_idx = 0\<rparr>, l, r)"

definition hj_configure :: "('a, 'w) op_ops \<Rightarrow> ('b, 'w) op_ops \<Rightarrow> bool \<Rightarrow> HashEqJoin \<times> 'a \<times> 'b \<Rightarrow> HashEqJoin \<times> 'a \<times> 'b" where
  "hj_configure L R rw = (\<lambda>(s, l, r). (s, op_configure L False l, op_configure R rw r))"

text \<open>\<open>entry(key).or_default().push(t)\<close>.\<close>

definition bucket_push :: "(Field \<times> Tuple list) list \<Rightarrow> Field \<Rightarrow> Tuple \<Rightarrow> (Field \<times> Tuple list) list" where
  "bucket_push m k t = AList.update k ((case map_of m k of Some b \<Rightarrow> b | None \<Rightarrow> []) @ [t]) m"

definition hj_build :: "ByteCodeExpr \<Rightarrow> (Field \<times> Tuple list) list \<Rightarrow> Tuple \<Rightarrow> (Field \<times> Tuple list) list option" where
  "hj_build e m t = map_option (\<lambda>k. bucket_push m k t) (bytecode_eval e t)"

definition hj_open_op :: "('a, 'w) op_ops \<Rightarrow> ('b, 'w) op_ops \<Rightarrow> (HashEqJoin \<times> 'a \<times> 'b) \<times> 'w \<Rightarrow>
    ((HashEqJoin \<times> 'a \<times> 'b) \<times> 'w, CrustyError, unit) run" where
  "hj_open_op L R = (\<lambda>((s, l, r), w). if hj_open s then Some (((s, l, r), w), Inr ())
     else and_then (on_left s r (op_open L (l, w))) (\<lambda>((s, l, r), w) _.
       and_then (map_option (\<lambda>((m, l, w), res). (((s\<lparr>join_map := m\<rparr>, l, r), w), res))
         (for_each L (hj_build (hj_left_expr s)) (join_map s) (l, w))) (\<lambda>((s, l, r), w) _.
       and_then (on_right s l (op_open R (r, w))) (\<lambda>((s, l, r), w) _.
       and_then (on_right s l (op_next R (r, w))) (\<lambda>((s, l, r), w) t.
       Some (((s\<lparr>hj_current_tuple := t, current_idx := 0, hj_open := True\<rparr>, l, r), w), Inr ()))))))"

partial_function (option) hj_loop :: "('a, 'w) op_ops \<Rightarrow> ('b, 'w) op_ops \<Rightarrow> (HashEqJoin \<times> 'a \<times> 'b) \<times> 'w \<Rightarrow>
    ((HashEqJoin \<times> 'a \<times> 'b) \<times> 'w, CrustyError, Tuple option) run" where
  "hj_loop L R x = (case x of ((s, l, r), w) \<Rightarrow>
     (case hj_current_tuple s of
        None \<Rightarrow> Some (x, Inr None)
      | Some right_tuple \<Rightarrow> (case bytecode_eval (hj_right_expr s) right_tuple of
          None \<Rightarrow> None
        | Some right_key \<Rightarrow>
            (let bucket = (case map_of (join_map s) right_key of Some b \<Rightarrow> b | None \<Rightarrow> []) in
             if current_idx s < length bucket
             then Some (((s\<lparr>current_idx := current_idx s + 1\<rparr>, l, r), w),
               Inr (Some (merge_tuples (bucket ! current_idx s) right_tuple)))
             else (case op_next R (r, w) of
                None \<Rightarrow> None
              | Some ((r, w), Inl e) \<Rightarrow> Some (((s, l, r), w), Inl e)
              | Some ((r, w), Inr t) \<Rightarrow> hj_loop L R ((s\<lparr>hj_current_tuple := t, current_idx := 0\<rparr>, l, r), w))))))"

definition hj_next :: "('a, 'w) op_ops \<Rightarrow> ('b, 'w) op_ops \<Rightarrow> (HashEqJoin \<times> 'a \<times> 'b) \<times> 'w \<Rightarrow>
    ((HashEqJoin \<times> 'a \<times> 'b) \<times> 'w, CrustyError, Tuple option) run" where
  "hj_next L R = (\<lambda>((s, l, r), w). if \<not> hj_open s then None else hj_loop L R ((s, l, r), w))"

definition hj_close :: "('a, 'w) op_ops \<Rightarrow> ('b, 'w) op_ops \<Rightarrow> (HashEqJoin \<times> 'a \<times> 'b) \<times> 'w \<Rightarrow>
    ((HashEqJoin \<times> 'a \<times> 'b) \<times> 'w, CrustyError, unit) run" where
  "hj_close L R = (\<lambda>((s, l, r), w).
     and_then (on_left s r (op_close L (l, w))) (\<lambda>((s, l, r), w) _.
     and_then (on_right s l (op_close R (r, w))) (\<lambda>((s, l, r), w) _.
     Some (((s\<lparr>join_map := [], hj_current_tuple := None, current_idx := 0, hj_open := False\<rparr>, l, r), w), Inr ()))))"

definition hj_rewind :: "('a, 'w) op_ops \<Rightarrow> ('b, 'w) op_ops \<Rightarrow> (HashEqJoin \<times> 'a \<times> 'b) \<times> 'w \<Rightarrow>
    ((HashEqJoin \<times> 'a \<times> 'b) \<times> 'w, CrustyError, unit) run" where
  "hj_rewind L R = (\<lambda>((s, l, r), w). if \<not> hj_open s then None
     else and_then (on_right s l (op_rewind R (r, w))) (\<lambda>((s, l, r), w) _.
     and_then (on_right s l (op_next R (r, w))) (\<lambda>((s, l, r), w) t.
     Some (((s\<lparr>hj_current_tuple := t, current_idx := 0\<rparr>, l, r), w), Inr ()))))"

definition hash_ops :: "('a, 'w) op_ops \<Rightarrow> ('b, 'w) op_ops \<Rightarrow> (HashEqJoin \<times> 'a \<times> 'b, 'w) op_ops" where
  "hash_ops L R = \<lparr>op_configure = hj_configure L R, op_open = hj_open_op L R, op_next = hj_next L R,
     op_close = hj_close L R, op_rewind = hj_rewind L R, op_schema = (\<lambda>(s, l, r). hj_schema s)\<rparr>"

end
