(* ===== verification/SortOps.thy ===== *)
theory SortOps
  imports Joins
begin

text \<open>
  The operators that read their input completely before the first tuple leaves them: sort.rs,
  sort_merge_join.rs and aggregate.rs of queryexe/src/opiterator. \<open>sort_by\<close> of the standard library is a
  stable sort; here it is insertion from the back, which is the same function.
\<close>

section \<open>Comparing sort keys\<close>

datatype Ordering = Less | Equal | Greater

definition field_cmp :: "Field \<Rightarrow> Field \<Rightarrow> Ordering" where
  "field_cmp a b = (if a < b then Less else if a = b then Equal else Greater)"

text \<open>\<open>compare_keys\<close> compares position by position; a key that is too short panics.\<close>

fun compare_keys :: "Field list \<Rightarrow> Field list \<Rightarrow> bool list \<Rightarrow> Ordering option" where
  "compare_keys ls rs [] = Some Equal"
| "compare_keys (l # ls) (r # rs) (asc # ascs) =
     (let res = (if asc then field_cmp l r else field_cmp r l)
      in if res \<noteq> Equal then Some res else compare_keys ls rs ascs)"
| "compare_keys _ _ (asc # ascs) = None"

primrec insort_by :: "('a \<Rightarrow> 'a \<Rightarrow> bool) \<Rightarrow> 'a \<Rightarrow> 'a list \<Rightarrow> 'a list" where
  "insort_by le x [] = [x]"
| "insort_by le x (y # ys) = (if le x y then x # y # ys else y # insort_by le x ys)"

definition sort_by :: "('a \<Rightarrow> 'a \<Rightarrow> bool) \<Rightarrow> 'a list \<Rightarrow> 'a list" where
  "sort_by le xs = foldr (insort_by le) xs []"

definition key_le :: "bool list \<Rightarrow> Field list \<Rightarrow> Field list \<Rightarrow> bool" where
  "key_le ascs a b = (compare_keys a b ascs \<noteq> Some Greater)"

text \<open>Reading a child: each tuple with the values of the sort expressions.\<close>

definition keyed :: "ByteCodeExpr list \<Rightarrow> (Field list \<times> Tuple) list \<Rightarrow> Tuple \<Rightarrow> (Field list \<times> Tuple) list option" where
  "keyed es acc t = map_option (\<lambda>k. acc @ [(k, t)]) (eval_all es t)"

section \<open>Sort\<close>

record Sort =
  srt_schema :: TableSchema
  srt_fields :: "(ByteCodeExpr \<times> bool) list"
  srt_will_rewind :: bool
  srt_open :: bool
  sorted_data :: "(Field list \<times> Tuple) list"
  srt_index :: nat

definition Sort_new :: "(ByteCodeExpr \<times> bool) list \<Rightarrow> TableSchema \<Rightarrow> 'c \<Rightarrow> Sort \<times> 'c" where
  "Sort_new fs sc c = (\<lparr>srt_schema = sc, srt_fields = fs, srt_will_rewind = True, srt_open = False,
     sorted_data = [], srt_index = 0\<rparr>, c)"

definition srt_configure :: "('c, 'w) op_ops \<Rightarrow> bool \<Rightarrow> Sort \<times> 'c \<Rightarrow> Sort \<times> 'c" where
  "srt_configure C rw = (\<lambda>(s, c). (s\<lparr>srt_will_rewind := rw\<rparr>, op_configure C False c))"

text \<open>The data is sorted in the reverse of the requested order and handed out from the back.\<close>

definition srt_open_op :: "('c, 'w) op_ops \<Rightarrow> (Sort \<times> 'c) \<times> 'w \<Rightarrow> ((Sort \<times> 'c) \<times> 'w, CrustyError, unit) run" where
  "srt_open_op C = (\<lambda>((s, c), w). if srt_open s then Some (((s, c), w), Inr ())
     else and_then (on_child s (op_open C (c, w))) (\<lambda>((s, c), w) _.
       and_then (map_option (\<lambda>((d, c, w), res). (((s\<lparr>sorted_data := d\<rparr>, c), w), res))
         (for_each C (keyed (map fst (srt_fields s))) (sorted_data s) (c, w))) (\<lambda>((s, c), w) _.
       and_then (on_child s (op_close C (c, w))) (\<lambda>((s, c), w) _.
       (let d = sort_by (\<lambda>(a, _) (b, _). key_le (map (Not \<circ> snd) (srt_fields s)) a b) (sorted_data s) in
        Some (((s\<lparr>sorted_data := d, srt_index := length d, srt_open := True\<rparr>, c), w), Inr ()))))))"

definition srt_next :: "('c, 'w) op_ops \<Rightarrow> (Sort \<times> 'c) \<times> 'w \<Rightarrow> ((Sort \<times> 'c) \<times> 'w, CrustyError, Tuple option) run" where
  "srt_next C = (\<lambda>((s, c), w).
     if \<not> srt_open s then None
     else if srt_will_rewind s then
       (if srt_index s = 0 then Some (((s, c), w), Inr None)
        else (let i = srt_index s - 1 in
          Some (((s\<lparr>srt_index := i\<rparr>, c), w),
            Inr (if i < length (sorted_data s) then Some (snd (sorted_data s ! i)) else None))))
     else (if sorted_data s = [] then Some (((s, c), w), Inr None)
        else Some (((s\<lparr>sorted_data := butlast (sorted_data s)\<rparr>, c), w), Inr (Some (snd (last (sorted_data s)))))))"

definition srt_close :: "('c, 'w) op_ops \<Rightarrow> (Sort \<times> 'c) \<times> 'w \<Rightarrow> ((Sort \<times> 'c) \<times> 'w, CrustyError, unit) run" where
  "srt_close C = (\<lambda>((s, c), w). and_then (on_child s (op_close C (c, w)))
     (\<lambda>((s, c), w) _. Some (((s\<lparr>sorted_data := [], srt_index := 0, srt_open := False\<rparr>, c), w), Inr ())))"

definition srt_rewind :: "('c, 'w) op_ops \<Rightarrow> (Sort \<times> 'c) \<times> 'w \<Rightarrow> ((Sort \<times> 'c) \<times> 'w, CrustyError, unit) run" where
  "srt_rewind C = (\<lambda>((s, c), w). if \<not> srt_open s then None
     else if \<not> srt_will_rewind s then None
     else Some (((s\<lparr>srt_index := length (sorted_data s)\<rparr>, c), w), Inr ()))"

definition sort_ops :: "('c, 'w) op_ops \<Rightarrow> (Sort \<times> 'c, 'w) op_ops" where
  "sort_ops C = \<lparr>op_configure = srt_configure C, op_open = srt_open_op C, op_next = srt_next C,
     op_close = srt_close C, op_rewind = srt_rewind C, op_schema = (\<lambda>(s, c). srt_schema s)\<rparr>"

section \<open>Sort merge join\<close>

record SortMergeJoin =
  smj_schema :: TableSchema
  smj_left_expr :: "(ByteCodeExpr \<times> bool) list"
  smj_right_expr :: "(ByteCodeExpr \<times> bool) list"
  smj_will_rewind :: bool
  smj_open :: bool
  left_child_read :: bool
  right_child_read :: bool
  left_sorted_data :: "(Field list \<times> Tuple) list"
  right_sorted_data :: "(Field list \<times> Tuple) list"
  l_first :: nat
  r_first :: nat
  l_end :: nat
  r_end :: nat
  l_cursor :: nat
  r_cursor :: nat

definition SortMergeJoin_new ::
  "TableSchema \<Rightarrow> (ByteCodeExpr \<times> bool) list \<Rightarrow> (ByteCodeExpr \<times> bool) list \<Rightarrow> 'a \<Rightarrow> 'b \<Rightarrow>
   CrustyError + (SortMergeJoin \<times> 'a \<times> 'b)" where
  "SortMergeJoin_new sc le re l r =
     (if length le \<noteq> length re then Inl (c_err ''SMJ: Left and right expressions must have the same length'')
      else if le = [] then Inl (c_err ''SMJ: Join predicate cannot be empty'')
      else Inr (\<lparr>smj_schema = sc, smj_left_expr = le, smj_right_expr = re, smj_will_rewind = True, smj_open = False,
        left_child_read = False, right_child_read = False, left_sorted_data = [], right_sorted_data = [],
        l_first = 0, r_first = 0, l_end = 0, r_end = 0, l_cursor = 0, r_cursor = 0\<rparr>, l, r))"

definition smj_configure :: "('a, 'w) op_ops \<Rightarrow> ('b, 'w) op_ops \<Rightarrow> bool \<Rightarrow> SortMergeJoin \<times> 'a \<times> 'b \<Rightarrow> SortMergeJoin \<times> 'a \<times> 'b" where
  "smj_configure L R rw = (\<lambda>(s, l, r). (s\<lparr>smj_will_rewind := rw\<rparr>, op_configure L False l, op_configure R False r))"

definition sort_keyed :: "(ByteCodeExpr \<times> bool) list \<Rightarrow> (Field list \<times> Tuple) list \<Rightarrow> (Field list \<times> Tuple) list" where
  "sort_keyed es d = sort_by (\<lambda>(a, _) (b, _). key_le (map snd es) a b) d"

definition smj_read_left :: "('a, 'w) op_ops \<Rightarrow> (SortMergeJoin \<times> 'a \<times> 'b) \<times> 'w \<Rightarrow>
    ((SortMergeJoin \<times> 'a \<times> 'b) \<times> 'w, CrustyError, unit) run" where
  "smj_read_left L = (\<lambda>((s, l, r), w). if left_child_read s then Some (((s, l, r), w), Inr ())
     else and_then (on_left s r (op_open L (l, w))) (\<lambda>((s, l, r), w) _.
       and_then (map_option (\<lambda>((d, l, w), res). (((s\<lparr>left_sorted_data := d\<rparr>, l, r), w), res))
         (for_each L (keyed (map fst (smj_left_expr s))) (left_sorted_data s) (l, w))) (\<lambda>((s, l, r), w) _.
       and_then (on_left s r (op_close L (l, w))) (\<lambda>((s, l, r), w) _.
       Some (((s\<lparr>left_child_read := True, left_sorted_data := sort_keyed (smj_left_expr s) (left_sorted_data s)\<rparr>, l, r), w),
         Inr ())))))"

definition smj_read_right :: "('b, 'w) op_ops \<Rightarrow> (SortMergeJoin \<times> 'a \<times> 'b) \<times> 'w \<Rightarrow>
    ((SortMergeJoin \<times> 'a \<times> 'b) \<times> 'w, CrustyError, unit) run" where
  "smj_read_right R = (\<lambda>((s, l, r), w). if right_child_read s then Some (((s, l, r), w), Inr ())
     else and_then (on_right s l (op_open R (r, w))) (\<lambda>((s, l, r), w) _.
       and_then (map_option (\<lambda>((d, r, w), res). (((s\<lparr>right_sorted_data := d\<rparr>, l, r), w), res))
         (for_each R (keyed (map fst (smj_right_expr s))) (right_sorted_data s) (r, w))) (\<lambda>((s, l, r), w) _.
       and_then (on_right s l (op_close R (r, w))) (\<lambda>((s, l, r), w) _.
       Some (((s\<lparr>right_child_read := True, right_sorted_data := sort_keyed (smj_right_expr s) (right_sorted_data s)\<rparr>, l, r), w),
         Inr ())))))"

definition smj_open_op :: "('a, 'w) op_ops \<Rightarrow> ('b, 'w) op_ops \<Rightarrow> (SortMergeJoin \<times> 'a \<times> 'b) \<times> 'w \<Rightarrow>
    ((SortMergeJoin \<times> 'a \<times> 'b) \<times> 'w, CrustyError, unit) run" where
  "smj_open_op L R = (\<lambda>((s, l, r), w). if smj_open s then Some (((s, l, r), w), Inr ())
     else and_then (smj_read_left L ((s, l, r), w)) (\<lambda>x _.
       and_then (smj_read_right R x) (\<lambda>((s, l, r), w) _.
       Some (((s\<lparr>smj_open := True\<rparr>, l, r), w), Inr ()))))"

text \<open>The end of the run of keys equal to \<open>k\<close> that starts at position \<open>i\<close>.\<close>

function run_end :: "Field list \<Rightarrow> (Field list \<times> Tuple) list \<Rightarrow> bool list \<Rightarrow> nat \<Rightarrow> nat option" where
  "run_end k d ascs i = (if i < length d
     then (case compare_keys k (fst (d ! i)) ascs of
         None \<Rightarrow> None
       | Some Equal \<Rightarrow> run_end k d ascs (Suc i)
       | Some _ \<Rightarrow> Some i)
     else Some i)"
  by pat_completeness auto
termination
  by (relation "measure (\<lambda>(k, d, ascs, i). length d - i)") auto

declare run_end.simps [simp del]

text \<open>The loop that looks for the next pair of equal keys.\<close>

function smj_seek :: "SortMergeJoin \<Rightarrow> SortMergeJoin option" where
  "smj_seek s = (if l_first s < length (left_sorted_data s) \<and> r_first s < length (right_sorted_data s)
     then (let lk = fst (left_sorted_data s ! l_first s); rk = fst (right_sorted_data s ! r_first s);
               ascs = map snd (smj_left_expr s) in
       (case compare_keys lk rk ascs of
          None \<Rightarrow> None
        | Some Less \<Rightarrow> smj_seek (s\<lparr>l_first := l_first s + 1\<rparr>)
        | Some Greater \<Rightarrow> smj_seek (s\<lparr>r_first := r_first s + 1\<rparr>)
        | Some Equal \<Rightarrow> do {
            temp_left \<leftarrow> run_end lk (left_sorted_data s) ascs (l_first s);
            temp_right \<leftarrow> run_end rk (right_sorted_data s) ascs (r_first s);
            Some (s\<lparr>l_end := temp_left, r_end := temp_right, l_cursor := l_first s, r_cursor := r_first s\<rparr>) }))
     else Some s)"
  by pat_completeness auto
termination
  by (relation "measure (\<lambda>s. (length (left_sorted_data s) - l_first s) + (length (right_sorted_data s) - r_first s))") auto

declare smj_seek.simps [simp del]

text \<open>Leaving a finished pair of runs; without rewinding, what was used is dropped.\<close>

definition smj_leave :: "SortMergeJoin \<Rightarrow> SortMergeJoin option" where
  "smj_leave s = (let s = s\<lparr>l_first := l_end s, l_cursor := l_end s, r_first := r_end s, r_cursor := r_end s\<rparr> in
     if smj_will_rewind s then Some s
     else if length (left_sorted_data s) < l_end s \<or> length (right_sorted_data s) < r_end s then None
     else Some (s\<lparr>left_sorted_data := drop (l_end s) (left_sorted_data s), l_first := 0, l_end := 0, l_cursor := 0,
       right_sorted_data := drop (r_end s) (right_sorted_data s), r_first := 0, r_end := 0, r_cursor := 0\<rparr>))"

definition smj_match :: "SortMergeJoin \<Rightarrow> bool" where
  "smj_match s = (l_first s \<le> l_cursor s \<and> l_cursor s < l_end s \<and> r_first s \<le> r_cursor s \<and> r_cursor s < r_end s)"

definition smj_emit :: "SortMergeJoin \<Rightarrow> (SortMergeJoin \<times> Tuple) option" where
  "smj_emit s = do {
     l \<leftarrow> index (left_sorted_data s) (l_cursor s);
     r \<leftarrow> index (right_sorted_data s) (r_cursor s);
     let s' = (if r_cursor s + 1 = r_end s then s\<lparr>r_cursor := r_first s, l_cursor := l_cursor s + 1\<rparr>
       else s\<lparr>r_cursor := r_cursor s + 1\<rparr>);
     Some (s', merge_tuples (snd l) (snd r)) }"

partial_function (option) smj_loop :: "SortMergeJoin \<Rightarrow> (SortMergeJoin \<times> Tuple option) option" where
  "smj_loop s = (if smj_match s then map_option (\<lambda>(s, t). (s, Some t)) (smj_emit s)
     else (case Option.bind (smj_leave s) smj_seek of
         None \<Rightarrow> None
       | Some s \<Rightarrow>
           if l_first s = length (left_sorted_data s) \<or> r_first s = length (right_sorted_data s)
           then Some (s, None) else smj_loop s))"

definition smj_next :: "('a, 'w) op_ops \<Rightarrow> ('b, 'w) op_ops \<Rightarrow> (SortMergeJoin \<times> 'a \<times> 'b) \<times> 'w \<Rightarrow>
    ((SortMergeJoin \<times> 'a \<times> 'b) \<times> 'w, CrustyError, Tuple option) run" where
  "smj_next L R = (\<lambda>((s, l, r), w). if \<not> smj_open s then None
     else map_option (\<lambda>(s, t). (((s, l, r), w), Inr t)) (smj_loop s))"

definition smj_close :: "('a, 'w) op_ops \<Rightarrow> ('b, 'w) op_ops \<Rightarrow> (SortMergeJoin \<times> 'a \<times> 'b) \<times> 'w \<Rightarrow>
    ((SortMergeJoin \<times> 'a \<times> 'b) \<times> 'w, CrustyError, unit) run" where
  "smj_close L R = (\<lambda>((s, l, r), w). Some (((s\<lparr>r_first := 0, l_first := 0, right_sorted_data := [],
     left_sorted_data := [], smj_open := False\<rparr>, l, r), w), Inr ()))"

definition smj_rewind :: "('a, 'w) op_ops \<Rightarrow> ('b, 'w) op_ops \<Rightarrow> (SortMergeJoin \<times> 'a \<times> 'b) \<times> 'w \<Rightarrow>
    ((SortMergeJoin \<times> 'a \<times> 'b) \<times> 'w, CrustyError, unit) run" where
  "smj_rewind L R = (\<lambda>((s, l, r), w). if \<not> smj_open s then None
     else Some (((s\<lparr>l_first := 0, l_end := 0, l_cursor := 0, r_first := 0, r_end := 0, r_cursor := 0\<rparr>, l, r), w), Inr ()))"

definition merge_ops :: "('a, 'w) op_ops \<Rightarrow> ('b, 'w) op_ops \<Rightarrow> (SortMergeJoin \<times> 'a \<times> 'b, 'w) op_ops" where
  "merge_ops L R = \<lparr>op_configure = smj_configure L R, op_open = smj_open_op L R, op_next = smj_next L R,
     op_close = smj_close L R, op_rewind = smj_rewind L R, op_schema = (\<lambda>(s, l, r). smj_schema s)\<rparr>"

section \<open>Aggregation\<close>

record Aggregate =
  agg_schema :: TableSchema
  groupby_expr :: "ByteCodeExpr list"
  agg_expr :: "ByteCodeExpr list"
  agg_ops :: "AggOp list"
  agg_will_rewind :: bool
  agg_open :: bool
  acc :: "(Field list \<times> nat \<times> Field list) list"
  acc_iter :: "Tuple list"
  agg_index :: nat

definition Aggregate_new ::
  "ByteCodeExpr list \<Rightarrow> ByteCodeExpr list \<Rightarrow> AggOp list \<Rightarrow> TableSchema \<Rightarrow> 'c \<Rightarrow> (Aggregate \<times> 'c) option" where
  "Aggregate_new gs as ops sc c = do {
     assert_that (length ops = length as);
     Some (\<lparr>agg_schema = sc, groupby_expr = gs, agg_expr = as, agg_ops = ops, agg_will_rewind = True, agg_open = False,
       acc = [], acc_iter = [], agg_index = 0\<rparr>, c) }"

definition merge_fields :: "AggOp \<Rightarrow> Field \<Rightarrow> Field \<Rightarrow> (CrustyError + Field) option" where
  "merge_fields op v a = (case op of
     Count \<Rightarrow> field_add a (FBigInt 1)
   | AggOp.Max \<Rightarrow> Some (Inr (max a v))
   | AggOp.Min \<Rightarrow> Some (Inr (min a v))
   | Sum \<Rightarrow> field_add a v
   | Avg \<Rightarrow> field_add a v)"

text \<open>The loop over the operations, with an index into the values and the accumulated values.\<close>

fun merge_all :: "AggOp list \<Rightarrow> Field list \<Rightarrow> Field list \<Rightarrow> Field list option" where
  "merge_all [] vs as = Some as"
| "merge_all (op # ops) (v # vs) (a # as) = do {
     a \<leftarrow> ok_field (merge_fields op v a);
     as \<leftarrow> merge_all ops vs as;
     Some (a # as) }"
| "merge_all (op # ops) _ _ = None"

definition init_val :: "AggOp \<times> Field \<Rightarrow> Field" where
  "init_val = (\<lambda>(op, v). if op = Count then FBigInt 1 else v)"

definition merge_tuple_into_group :: "Aggregate \<Rightarrow> (Field list \<times> nat \<times> Field list) list \<Rightarrow> Tuple \<Rightarrow>
    (Field list \<times> nat \<times> Field list) list option" where
  "merge_tuple_into_group s ac t = do {
     group_key \<leftarrow> eval_all (groupby_expr s) t;
     agg_vals \<leftarrow> eval_all (agg_expr s) t;
     (case map_of ac group_key of
        Some (n, as) \<Rightarrow> do {
          as \<leftarrow> merge_all (agg_ops s) agg_vals as;
          Some (AList.update group_key (n + 1, as) ac) }
      | None \<Rightarrow> Some (AList.update group_key (1, map init_val (zip (agg_ops s) agg_vals)) ac)) }"

text \<open>The final value of an aggregate. \<open>AVG\<close> divides the sum by the number of tuples in double precision.\<close>

fun avg_sum :: "Field \<Rightarrow> rat option" where
  "avg_sum (FBigInt v) = Some (f64_of_i64 v)"
| "avg_sum (FInt v) = Some (of_int (sint v))"
| "avg_sum (FSmallInt v) = Some (of_int (sint v))"
| "avg_sum _ = None"

definition final_val :: "nat \<Rightarrow> AggOp \<times> Field \<Rightarrow> Field option" where
  "final_val n = (\<lambda>(op, v). if op = Avg
     then map_option (\<lambda>sum. f_decimal (f64_div sum (rnd (of_nat n)))) (avg_sum v) else Some v)"

primrec final_all :: "nat \<Rightarrow> (AggOp \<times> Field) list \<Rightarrow> Field list option" where
  "final_all n [] = Some []"
| "final_all n (x # xs) = do { v \<leftarrow> final_val n x; vs \<leftarrow> final_all n xs; Some (v # vs) }"

primrec final_tuples :: "AggOp list \<Rightarrow> (Field list \<times> nat \<times> Field list) list \<Rightarrow> Tuple list option" where
  "final_tuples ops [] = Some []"
| "final_tuples ops (e # es) = (case e of (k, n, as) \<Rightarrow> do {
     vs \<leftarrow> final_all n (zip ops as);
     ts \<leftarrow> final_tuples ops es;
     Some (Tuple_new (k @ vs) # ts) })"

definition agg_configure :: "('c, 'w) op_ops \<Rightarrow> bool \<Rightarrow> Aggregate \<times> 'c \<Rightarrow> Aggregate \<times> 'c" where
  "agg_configure C rw = (\<lambda>(s, c). (s\<lparr>agg_will_rewind := rw\<rparr>, op_configure C False c))"

definition agg_open_op :: "('c, 'w) op_ops \<Rightarrow> (Aggregate \<times> 'c) \<times> 'w \<Rightarrow> ((Aggregate \<times> 'c) \<times> 'w, CrustyError, unit) run" where
  "agg_open_op C = (\<lambda>((s, c), w). if agg_open s then Some (((s, c), w), Inr ())
     else and_then (on_child s (op_open C (c, w))) (\<lambda>((s, c), w) _.
       and_then (map_option (\<lambda>((a, c, w), res). (((s\<lparr>acc := a\<rparr>, c), w), res))
         (for_each C (merge_tuple_into_group s) (acc s) (c, w))) (\<lambda>((s, c), w) _.
       (case final_tuples (agg_ops s) (sort_key fst (acc s)) of
          None \<Rightarrow> None
        | Some ts \<Rightarrow>
            Some (((s\<lparr>acc_iter := acc_iter s @ ts, agg_index := 0, agg_open := True\<rparr>, c), w), Inr ())))))"

definition agg_next :: "('c, 'w) op_ops \<Rightarrow> (Aggregate \<times> 'c) \<times> 'w \<Rightarrow> ((Aggregate \<times> 'c) \<times> 'w, CrustyError, Tuple option) run" where
  "agg_next C = (\<lambda>((s, c), w). if \<not> agg_open s then None
     else if agg_index s < length (acc_iter s)
     then Some (((s\<lparr>agg_index := agg_index s + 1\<rparr>, c), w), Inr (Some (acc_iter s ! agg_index s)))
     else Some (((s, c), w), Inr None))"

definition agg_close :: "('c, 'w) op_ops \<Rightarrow> (Aggregate \<times> 'c) \<times> 'w \<Rightarrow> ((Aggregate \<times> 'c) \<times> 'w, CrustyError, unit) run" where
  "agg_close C = (\<lambda>((s, c), w). and_then (on_child s (op_close C (c, w)))
     (\<lambda>((s, c), w) _. Some (((s\<lparr>acc := [], acc_iter := [], agg_index := 0, agg_open := False\<rparr>, c), w), Inr ())))"

definition agg_rewind :: "('c, 'w) op_ops \<Rightarrow> (Aggregate \<times> 'c) \<times> 'w \<Rightarrow> ((Aggregate \<times> 'c) \<times> 'w, CrustyError, unit) run" where
  "agg_rewind C = (\<lambda>((s, c), w). if \<not> agg_open s then None
     else if \<not> agg_will_rewind s then None
     else Some (((s\<lparr>agg_index := 0\<rparr>, c), w), Inr ()))"

definition aggregate_ops :: "('c, 'w) op_ops \<Rightarrow> (Aggregate \<times> 'c, 'w) op_ops" where
  "aggregate_ops C = \<lparr>op_configure = agg_configure C, op_open = agg_open_op C, op_next = agg_next C,
     op_close = agg_close C, op_rewind = agg_rewind C, op_schema = (\<lambda>(s, c). agg_schema s)\<rparr>"

end
