(* ===== verification/OpContract.thy ===== *)
theory OpContract
  imports Operators
begin

text \<open>
  The contract of \<open>OpIterator\<close>. An operator promises a list of rows: once configured and opened it hands
  them out one by one, after \<open>rewind\<close> from the start again, and it can be closed more than once. The
  predicates speak of the operator's state together with the managers. Every operator keeps the contract
  when its children do; a plan of any shape then has it, and \<open>execute\<close> returns its rows.
\<close>

text \<open>A fold whose step may panic.\<close>

primrec foldM :: "('a \<Rightarrow> 'b \<Rightarrow> 'a option) \<Rightarrow> 'a \<Rightarrow> 'b list \<Rightarrow> 'a option" where
  "foldM f a [] = Some a"
| "foldM f a (x # xs) = (case f a x of None \<Rightarrow> None | Some a \<Rightarrow> foldM f a xs)"

lemma foldM_snoc [simp]: "foldM (\<lambda>a t. Some (a @ [t])) a ts = Some (a @ ts)"
  by (induction ts arbitrary: a) simp_all

locale op_iterator =
  fixes ops :: "('s, 'w) op_ops" and fresh :: "'s \<times> 'w \<Rightarrow> bool"
    and closed opened :: "bool \<Rightarrow> 's \<times> 'w \<Rightarrow> bool" and gone :: "'s \<times> 'w \<Rightarrow> bool"
    and rows :: "Tuple list" and rem :: "'s \<times> 'w \<Rightarrow> Tuple list"
  assumes configure_law: "fresh (s, w) \<Longrightarrow> closed rw (op_configure ops rw s, w)"
    and open_law: "closed rw x \<Longrightarrow> \<exists>x'. op_open ops x = Some (x', Inr ()) \<and> opened rw x' \<and> rem x' = rows"
    and open_again: "opened rw x \<Longrightarrow> op_open ops x = Some (x, Inr ())"
    and next_law: "opened rw x \<Longrightarrow>
      \<exists>x'. op_next ops x = Some (x', Inr (case rem x of [] \<Rightarrow> None | t # _ \<Rightarrow> Some t)) \<and> opened rw x' \<and> rem x' = tl (rem x)"
    and rewind_law: "opened True x \<Longrightarrow> \<exists>x'. op_rewind ops x = Some (x', Inr ()) \<and> opened True x' \<and> rem x' = rows"
    and close_law: "opened rw x \<or> gone x \<Longrightarrow> \<exists>x'. op_close ops x = Some (x', Inr ()) \<and> gone x'"
begin

lemma next_Nil: "opened rw x \<Longrightarrow> rem x = [] \<Longrightarrow> \<exists>x'. op_next ops x = Some (x', Inr None) \<and> opened rw x' \<and> rem x' = []"
  using next_law [of rw x] by auto

lemma next_Cons:
  "opened rw x \<Longrightarrow> rem x = t # ts \<Longrightarrow> \<exists>x'. op_next ops x = Some (x', Inr (Some t)) \<and> opened rw x' \<and> rem x' = ts"
  using next_law [of rw x] by auto

text \<open>A loop over a child folds over its rows.\<close>

lemma for_each_law:
  assumes "opened rw x" and "foldM f a (rem x) = Some b"
  shows "\<exists>x'. for_each ops f a x = Some ((b, x'), Inr ()) \<and> opened rw x' \<and> rem x' = []"
  using assms
proof (induction "rem x" arbitrary: x a)
  case Nil
  with next_Nil [of rw x] show ?case by (subst for_each.simps) auto
next
  case (Cons t ts)
  have rx: "rem x = t # ts" using Cons.hyps(2) by simp
  with Cons.prems(2) obtain a' where a': "f a t = Some a'" "foldM f a' ts = Some b" by (auto split: option.splits)
  from next_Cons [OF Cons.prems(1) rx] obtain x' where
    x': "op_next ops x = Some (x', Inr (Some t))" "opened rw x'" "rem x' = ts" by blast
  obtain x'' where "for_each ops f a' x' = Some ((b, x''), Inr ())" "opened rw x''" "rem x'' = []"
    using Cons.hyps(1) [of x' a'] x' a' by auto
  with x'(1) a'(1) show ?case by (subst for_each.simps) simp
qed

lemma execute_law:
  assumes "fresh (s, w)"
  shows "\<exists>x. execute ops (s, w) = Some (x, Inr (op_schema ops s, rows)) \<and> gone x"
proof -
  obtain x1 where x1: "op_open ops (op_configure ops False s, w) = Some (x1, Inr ())" "opened False x1" "rem x1 = rows"
    using open_law [OF configure_law [OF assms, of False]] by blast
  obtain x2 where x2: "for_each ops (\<lambda>ts t. Some (ts @ [t])) [] x1 = Some ((rows, x2), Inr ())" "opened False x2"
    using for_each_law [OF x1(2), of "\<lambda>ts t. Some (ts @ [t])" "[]" rows] x1(3) by auto
  obtain x3 where "op_close ops x2 = Some (x3, Inr ())" "gone x3" using close_law x2(2) by blast
  with x1 x2 show ?thesis by (simp add: execute_def Let_def)
qed

end

section \<open>Tuple iterator\<close>

definition tup_fresh :: "Tuple list \<Rightarrow> TupleIterator \<Rightarrow> bool" where
  "tup_fresh ts s \<longleftrightarrow> tuples s = rev ts \<and> \<not> tup_open s \<and> tup_index s = length ts"

definition tup_closed :: "Tuple list \<Rightarrow> bool \<Rightarrow> TupleIterator \<Rightarrow> bool" where
  "tup_closed ts rw s \<longleftrightarrow> tup_fresh ts s \<and> tup_will_rewind s = rw"

definition tup_opened :: "Tuple list \<Rightarrow> bool \<Rightarrow> TupleIterator \<Rightarrow> bool" where
  "tup_opened ts rw s \<longleftrightarrow> tup_open s \<and> tup_will_rewind s = rw \<and>
     (rw \<longrightarrow> tuples s = rev ts \<and> tup_index s \<le> length ts)"

definition tup_rem :: "TupleIterator \<Rightarrow> Tuple list" where
  "tup_rem s = (if tup_will_rewind s then rev (take (tup_index s) (tuples s)) else rev (tuples s))"

lemma rev_take_Suc: "i < length xs \<Longrightarrow> rev (take (Suc i) xs) = xs ! i # rev (take i xs)"
  by (subst take_Suc_conv_app_nth) simp_all

lemma tuple_ops_sel [simp]:
  "op_configure tuple_ops = tup_configure" "op_open tuple_ops = tup_open_op" "op_next tuple_ops = tup_next"
  "op_close tuple_ops = tup_close" "op_rewind tuple_ops = tup_rewind" "op_schema tuple_ops = tup_schema"
  by (simp_all add: tuple_ops_def)

lemma tup_next_law:
  assumes "tup_opened ts rw s"
  shows "\<exists>s'. tup_next (s, w) = Some ((s', w), Inr (case tup_rem s of [] \<Rightarrow> None | t # _ \<Rightarrow> Some t)) \<and>
    tup_opened ts rw s' \<and> tup_rem s' = tl (tup_rem s)"
proof (cases rw)
  case rw: True
  show ?thesis
  proof (cases "tup_index s")
    case 0
    with assms rw show ?thesis by (simp add: tup_next_def tup_opened_def tup_rem_def)
  next
    case (Suc i)
    with assms rw have "i < length (tuples s)" by (simp add: tup_opened_def)
    with assms rw Suc show ?thesis by (simp add: tup_next_def tup_opened_def tup_rem_def rev_take_Suc)
  qed
next
  case False
  with assms show ?thesis
    by (cases "tuples s" rule: rev_cases) (simp_all add: tup_next_def tup_opened_def tup_rem_def)
qed

text \<open>The contract over any managers that satisfy \<open>W\<close>, which the iterator does not touch.\<close>

lemma tuple_iterator:
  "op_iterator tuple_ops (\<lambda>(s, w). tup_fresh ts s \<and> W w) (\<lambda>rw (s, w). tup_closed ts rw s \<and> W w)
     (\<lambda>rw (s, w). tup_opened ts rw s \<and> W w) (\<lambda>(s, w). W w) ts (\<lambda>(s, w). tup_rem s)"
proof (unfold_locales, goal_cases)
  case (1 s w rw)
  then show ?case by (simp add: tup_configure_def tup_closed_def tup_fresh_def)
next
  case (2 rw x)
  then show ?case by (cases x) (simp add: tup_open_op_def tup_closed_def tup_fresh_def tup_opened_def tup_rem_def)
next
  case (3 rw x)
  then show ?case by (cases x) (simp add: tup_open_op_def tup_opened_def)
next
  case (4 rw x)
  then show ?case using tup_next_law [of ts rw "fst x" "snd x"] by (cases x) auto
next
  case (5 x)
  then show ?case by (cases x) (simp add: tup_rewind_def tup_opened_def tup_rem_def)
next
  case (6 rw x)
  then show ?case by (cases x) (auto simp: tup_close_def)
qed

section \<open>Filter\<close>

lemma filter_ops_sel [simp]:
  "op_configure (filter_ops C) = fil_configure C" "op_open (filter_ops C) = fil_open_op C"
  "op_next (filter_ops C) = fil_next C" "op_close (filter_ops C) = fil_close C"
  "op_rewind (filter_ops C) = fil_rewind C" "op_schema (filter_ops C) = (\<lambda>(s, c). fil_schema s)"
  by (simp_all add: filter_ops_def)

definition holds :: "ByteCodeExpr \<Rightarrow> Tuple \<Rightarrow> bool" where
  "holds p t \<longleftrightarrow> bytecode_eval p t = Some (FBool True)"

definition is_pred :: "ByteCodeExpr \<Rightarrow> Tuple list \<Rightarrow> bool" where
  "is_pred p ts \<longleftrightarrow> list_all (\<lambda>t. bytecode_eval p t = Some (FBool True) \<or> bytecode_eval p t = Some (FBool False)) ts"

lemma is_pred_simps [simp]:
  "is_pred p []"
  "is_pred p (t # ts) \<longleftrightarrow> (bytecode_eval p t = Some (FBool True) \<or> bytecode_eval p t = Some (FBool False)) \<and> is_pred p ts"
  by (simp_all add: is_pred_def)

lemma is_pred_tl: "is_pred p ts \<Longrightarrow> is_pred p (tl ts)"
  by (cases ts) simp_all

context op_iterator
begin

lemma fil_loop_law:
  assumes "opened rw x" and "is_pred p (rem x)"
  shows "\<exists>x'. fil_loop ops p x = Some (x', Inr (case filter (holds p) (rem x) of [] \<Rightarrow> None | t # _ \<Rightarrow> Some t)) \<and>
    opened rw x' \<and> is_pred p (rem x') \<and> filter (holds p) (rem x') = tl (filter (holds p) (rem x))"
  using assms
proof (induction "rem x" arbitrary: x)
  case Nil
  then have rx: "rem x = []" by simp
  from next_Nil [OF Nil.prems(1) rx] obtain x' where "op_next ops x = Some (x', Inr None)" "opened rw x'" "rem x' = []"
    by blast
  with rx show ?case by (subst fil_loop.simps) simp
next
  case (Cons t ts)
  have rx: "rem x = t # ts" using Cons.hyps(2) by simp
  from next_Cons [OF Cons.prems(1) rx] obtain x' where
    x': "op_next ops x = Some (x', Inr (Some t))" "opened rw x'" "rem x' = ts" by blast
  from Cons.prems(2) rx have p: "bytecode_eval p t = Some (FBool True) \<or> bytecode_eval p t = Some (FBool False)"
    and ps: "is_pred p ts" by auto
  show ?case
  proof (cases "bytecode_eval p t = Some (FBool True)")
    case True
    then have "fil_loop ops p x = Some (x', Inr (Some t))" using x'(1) by (subst fil_loop.simps) simp
    with True x' ps rx show ?thesis by (simp add: holds_def)
  next
    case False
    with p have "bytecode_eval p t = Some (FBool False)" by simp
    then have run: "fil_loop ops p x = fil_loop ops p x'" using x'(1) by (subst fil_loop.simps) simp
    have "filter (holds p) (rem x) = filter (holds p) (rem x')" using False rx x'(3) by (simp add: holds_def)
    with Cons.hyps(1) [of x'] x' ps show ?thesis unfolding run by simp
  qed
qed

text \<open>The rows of a filter are the rows of its child that satisfy the predicate.\<close>

lemma filter_iterator:
  assumes "is_pred p rows"
  shows "op_iterator (filter_ops ops) (\<lambda>((s, c), w). predicate s = p \<and> \<not> fil_open s \<and> fresh (c, w))
    (\<lambda>rw ((s, c), w). predicate s = p \<and> \<not> fil_open s \<and> closed rw (c, w))
    (\<lambda>rw ((s, c), w). predicate s = p \<and> fil_open s \<and> opened rw (c, w) \<and> is_pred p (rem (c, w)))
    (\<lambda>((s, c), w). gone (c, w)) (filter (holds p) rows) (\<lambda>((s, c), w). filter (holds p) (rem (c, w)))"
proof (unfold_locales, goal_cases)
  case (1 s w rw)
  then show ?case by (auto simp: fil_configure_def configure_law split: prod.splits)
next
  case (2 rw x)
  obtain s c w where x: "x = ((s, c), w)" by (cases x) auto
  with 2 open_law [of rw "(c, w)"] assms show ?case by (auto simp: fil_open_op_def)
next
  case (3 rw x)
  then show ?case by (auto simp: fil_open_op_def split: prod.splits)
next
  case (4 rw x)
  obtain s c w where x: "x = ((s, c), w)" by (cases x) auto
  with 4 have "opened rw (c, w)" "is_pred p (rem (c, w))" by simp_all
  from fil_loop_law [OF this] 4 x show ?case by (auto simp: fil_next_def)
next
  case (5 x)
  obtain s c w where x: "x = ((s, c), w)" by (cases x) auto
  with 5 rewind_law [of "(c, w)"] assms show ?case by (auto simp: fil_rewind_def)
next
  case (6 rw x)
  obtain s c w where x: "x = ((s, c), w)" by (cases x) auto
  with 6 close_law [of rw "(c, w)"] show ?case by (auto simp: fil_close_def)
qed

end

section \<open>Projection\<close>

lemma project_ops_sel [simp]:
  "op_configure (project_ops C) = pro_configure C" "op_open (project_ops C) = pro_open_op C"
  "op_next (project_ops C) = pro_next C" "op_close (project_ops C) = pro_close C"
  "op_rewind (project_ops C) = pro_rewind C" "op_schema (project_ops C) = (\<lambda>(s, c). pro_schema s)"
  by (simp_all add: project_ops_def)

definition project_tuple :: "ByteCodeExpr list \<Rightarrow> Tuple \<Rightarrow> Tuple" where
  "project_tuple es t = Tuple_new (map (\<lambda>e. the (bytecode_eval e t)) es)"

definition evaluable :: "ByteCodeExpr list \<Rightarrow> Tuple list \<Rightarrow> bool" where
  "evaluable es ts \<longleftrightarrow> list_all (\<lambda>t. eval_all es t \<noteq> None) ts"

lemma evaluable_simps [simp]: "evaluable es []" "evaluable es (t # ts) \<longleftrightarrow> eval_all es t \<noteq> None \<and> evaluable es ts"
  by (simp_all add: evaluable_def)

lemma eval_all_Some: "eval_all es t = Some vs \<Longrightarrow> vs = map (\<lambda>e. the (bytecode_eval e t)) es"
  by (induction es arbitrary: vs) (auto split: Option.bind_splits)

context op_iterator
begin

lemma project_iterator:
  assumes "evaluable es rows"
  shows "op_iterator (project_ops ops) (\<lambda>((s, c), w). pro_fields s = es \<and> \<not> pro_open s \<and> fresh (c, w))
    (\<lambda>rw ((s, c), w). pro_fields s = es \<and> \<not> pro_open s \<and> closed rw (c, w))
    (\<lambda>rw ((s, c), w). pro_fields s = es \<and> pro_open s \<and> opened rw (c, w) \<and> evaluable es (rem (c, w)))
    (\<lambda>((s, c), w). gone (c, w)) (map (project_tuple es) rows) (\<lambda>((s, c), w). map (project_tuple es) (rem (c, w)))"
proof (unfold_locales, goal_cases)
  case (1 s w rw)
  then show ?case by (auto simp: pro_configure_def configure_law split: prod.splits)
next
  case (2 rw x)
  obtain s c w where x: "x = ((s, c), w)" by (cases x) auto
  with 2 open_law [of rw "(c, w)"] assms show ?case by (auto simp: pro_open_op_def)
next
  case (3 rw x)
  then show ?case by (auto simp: pro_open_op_def split: prod.splits)
next
  case (4 rw x)
  obtain s c w where x: "x = ((s, c), w)" by (cases x) auto
  with 4 have o: "opened rw (c, w)" "evaluable es (rem (c, w))" "pro_fields s = es" "pro_open s" by simp_all
  show ?case
  proof (cases "rem (c, w)")
    case Nil
    with next_Nil [OF o(1)] o x show ?thesis by (auto simp: pro_next_def)
  next
    case (Cons t ts)
    with o(2) obtain vs where "eval_all es t = Some vs" "evaluable es ts" by auto
    with next_Cons [OF o(1) Cons] Cons o x eval_all_Some [of es t vs] show ?thesis
      by (auto simp: pro_next_def project_tuple_def)
  qed
next
  case (5 x)
  obtain s c w where x: "x = ((s, c), w)" by (cases x) auto
  with 5 rewind_law [of "(c, w)"] assms show ?case by (auto simp: pro_rewind_def)
next
  case (6 rw x)
  obtain s c w where x: "x = ((s, c), w)" by (cases x) auto
  with 6 close_law [of rw "(c, w)"] show ?case by (auto simp: pro_close_def)
qed

end

end
