(* ===== verification/JoinLaws.thy ===== *)
theory JoinLaws
  imports Joins OpContract
begin

text \<open>
  The joins keep the contract. Their children may share the managers, as long as each child's state does
  not depend on what the other does to them: both keep a condition \<open>W\<close> on the managers and speak otherwise
  of their own state only. The rows of each join are given by a list expression over the children's rows.
\<close>

locale join_children =
  left: op_iterator L "\<lambda>(s, w). frL s \<and> W w" "\<lambda>rw (s, w). clL rw s \<and> W w" "\<lambda>rw (s, w). opL rw s \<and> W w"
    "\<lambda>(s, w). gnL s \<and> W w" rowsL "\<lambda>(s, w). rmL s" +
  right: op_iterator R "\<lambda>(s, w). frR s \<and> W w" "\<lambda>rw (s, w). clR rw s \<and> W w" "\<lambda>rw (s, w). opR rw s \<and> W w"
    "\<lambda>(s, w). gnR s \<and> W w" rowsR "\<lambda>(s, w). rmR s"
  for L :: "('a, 'w) op_ops" and R :: "('b, 'w) op_ops" and W :: "'w \<Rightarrow> bool"
    and frL clL opL gnL rowsL rmL and frR clR opR gnR rowsR rmR
begin

lemma left_next:
  "opL rw l \<Longrightarrow> W w \<Longrightarrow> \<exists>l' w'. op_next L (l, w) = Some ((l', w'), Inr (case rmL l of [] \<Rightarrow> None | t # _ \<Rightarrow> Some t)) \<and>
     opL rw l' \<and> W w' \<and> rmL l' = tl (rmL l)"
  using left.next_law [of rw "(l, w)"] by auto

lemma right_next:
  "opR rw r \<Longrightarrow> W w \<Longrightarrow> \<exists>r' w'. op_next R (r, w) = Some ((r', w'), Inr (case rmR r of [] \<Rightarrow> None | t # _ \<Rightarrow> Some t)) \<and>
     opR rw r' \<and> W w' \<and> rmR r' = tl (rmR r)"
  using right.next_law [of rw "(r, w)"] by auto

lemma left_open: "clL rw l \<Longrightarrow> W w \<Longrightarrow> \<exists>l' w'. op_open L (l, w) = Some ((l', w'), Inr ()) \<and> opL rw l' \<and> W w' \<and> rmL l' = rowsL"
  using left.open_law [of rw "(l, w)"] by auto

lemma right_open: "clR rw r \<Longrightarrow> W w \<Longrightarrow> \<exists>r' w'. op_open R (r, w) = Some ((r', w'), Inr ()) \<and> opR rw r' \<and> W w' \<and> rmR r' = rowsR"
  using right.open_law [of rw "(r, w)"] by auto

lemma left_rewind: "opL True l \<Longrightarrow> W w \<Longrightarrow> \<exists>l' w'. op_rewind L (l, w) = Some ((l', w'), Inr ()) \<and> opL True l' \<and> W w' \<and> rmL l' = rowsL"
  using left.rewind_law [of "(l, w)"] by auto

lemma right_rewind: "opR True r \<Longrightarrow> W w \<Longrightarrow> \<exists>r' w'. op_rewind R (r, w) = Some ((r', w'), Inr ()) \<and> opR True r' \<and> W w' \<and> rmR r' = rowsR"
  using right.rewind_law [of "(r, w)"] by auto

lemma left_close: "opL rw l \<or> gnL l \<Longrightarrow> W w \<Longrightarrow> \<exists>l' w'. op_close L (l, w) = Some ((l', w'), Inr ()) \<and> gnL l' \<and> W w'"
  using left.close_law [of rw "(l, w)"] by auto

lemma right_close: "opR rw r \<or> gnR r \<Longrightarrow> W w \<Longrightarrow> \<exists>r' w'. op_close R (r, w) = Some ((r', w'), Inr ()) \<and> gnR r' \<and> W w'"
  using right.close_law [of rw "(r, w)"] by auto

end

section \<open>Cross join\<close>

lemma cross_ops_sel [simp]:
  "op_configure (cross_ops L R) = cj_configure L R" "op_open (cross_ops L R) = cj_open_op L R"
  "op_next (cross_ops L R) = cj_next L R" "op_close (cross_ops L R) = cj_close L R"
  "op_rewind (cross_ops L R) = cj_rewind L R" "op_schema (cross_ops L R) = (\<lambda>(s, l, r). cj_schema s)"
  by (simp_all add: cross_ops_def)

definition pairs :: "(Tuple \<Rightarrow> Tuple \<Rightarrow> bool) \<Rightarrow> Tuple list \<Rightarrow> Tuple list \<Rightarrow> Tuple list" where
  "pairs m ls rs = concat (map (\<lambda>l. map (merge_tuples l) (filter (m l) rs)) ls)"

lemma pairs_simps [simp]:
  "pairs m [] rs = []" "pairs m (l # ls) rs = map (merge_tuples l) (filter (m l) rs) @ pairs m ls rs"
  by (simp_all add: pairs_def)

context join_children
begin

definition cj_rem where
  "cj_rem = (\<lambda>((s, l, r), w :: 'w). case cj_current_tuple s of
     None \<Rightarrow> [] | Some t \<Rightarrow> map (merge_tuples t) (rmR r) @ pairs (\<lambda>_ _. True) (rmL l) rowsR)"

definition cj_opened where
  "cj_opened rw = (\<lambda>((s, l, r), w). cj_open s \<and> opL rw l \<and> opR True r \<and> W w)"

lemma cj_loop_law:
  assumes "cj_opened rw x"
  shows "\<exists>x'. cj_loop L R x = Some (x', Inr (case cj_rem x of [] \<Rightarrow> None | t # _ \<Rightarrow> Some t)) \<and>
    cj_opened rw x' \<and> cj_rem x' = tl (cj_rem x)"
  using assms
proof (induction "rmL (fst (snd (fst x)))" arbitrary: x rule: length_induct)
  case 1
  obtain s l r w where x: "x = ((s, l, r), w)" by (cases x) auto
  have o: "cj_open s" "opL rw l" "opR True r" "W w" using "1.prems" by (simp_all add: x cj_opened_def)
  show ?case
  proof (cases "cj_current_tuple s")
    case None
    with o show ?thesis by (subst cj_loop.simps) (simp add: x cj_rem_def cj_opened_def)
  next
    case (Some t)
    obtain r1 w1 where r1: "op_next R (r, w) = Some ((r1, w1), Inr (case rmR r of [] \<Rightarrow> None | t # _ \<Rightarrow> Some t))"
      "opR True r1" "W w1" "rmR r1 = tl (rmR r)" using right_next [OF o(3,4)] by blast
    show ?thesis
    proof (cases "rmR r")
      case (Cons u us)
      with Some r1 o show ?thesis by (subst cj_loop.simps) (simp add: x cj_rem_def cj_opened_def)
    next
      case Nil
      obtain r2 w2 where r2: "op_rewind R (r1, w1) = Some ((r2, w2), Inr ())" "opR True r2" "W w2" "rmR r2 = rowsR"
        using right_rewind [OF r1(2,3)] by blast
      obtain l3 w3 where l3: "op_next L (l, w2) = Some ((l3, w3), Inr (case rmL l of [] \<Rightarrow> None | t # _ \<Rightarrow> Some t))"
        "opL rw l3" "W w3" "rmL l3 = tl (rmL l)" using left_next [OF o(2) r2(3)] by blast
      let ?x = "((s\<lparr>cj_current_tuple := (case rmL l of [] \<Rightarrow> None | t # _ \<Rightarrow> Some t)\<rparr>, l3, r2), w3)"
      have run: "cj_loop L R x = cj_loop L R ?x"
        using Some Nil r1 r2 l3 by (subst cj_loop.simps) (simp add: x)
      have ok: "cj_opened rw ?x" using o(1) l3 r2 by (simp add: cj_opened_def)
      show ?thesis
      proof (cases "rmL l")
        case nil: Nil
        then have "cj_rem x = []" and "cj_loop L R ?x = Some (?x, Inr None)" and "cj_rem ?x = []"
          using Nil Some by (simp_all add: x cj_rem_def cj_loop.simps)
        with run ok show ?thesis by simp
      next
        case (Cons t' ts)
        then have rem: "cj_rem x = cj_rem ?x" using Nil Some l3 r2 by (simp add: x cj_rem_def)
        have "length (rmL (fst (snd (fst ?x)))) < length (rmL (fst (snd (fst x))))" using Cons l3 by (simp add: x)
        with "1.hyps" ok show ?thesis unfolding run rem by blast
      qed
    qed
  qed
qed

lemma cross_iterator:
  "op_iterator (cross_ops L R) (\<lambda>((s, l, r), w). (\<not> cj_open s \<and> frL l \<and> frR r) \<and> W w)
     (\<lambda>rw ((s, l, r), w). (\<not> cj_open s \<and> clL rw l \<and> clR True r) \<and> W w) cj_opened
     (\<lambda>((s, l, r), w). (gnL l \<and> gnR r) \<and> W w) (pairs (\<lambda>_ _. True) rowsL rowsR) cj_rem"
proof (unfold_locales, goal_cases)
  case (1 s w rw)
  then show ?case
    using left.configure_law [of _ w] right.configure_law [of _ w] by (auto simp: cj_configure_def split: prod.splits)
next
  case (2 rw x)
  obtain s l r w where x: "x = ((s, l, r), w)" by (cases x) auto
  with 2 obtain l1 w1 where l1: "op_open L (l, w) = Some ((l1, w1), Inr ())" "opL rw l1" "W w1" "rmL l1 = rowsL"
    using left_open [of rw l w] by auto
  from 2 x obtain r2 w2 where r2: "op_open R (r, w1) = Some ((r2, w2), Inr ())" "opR True r2" "W w2" "rmR r2 = rowsR"
    using right_open [of True r w1] l1 by auto
  obtain l3 w3 where l3: "op_next L (l1, w2) = Some ((l3, w3), Inr (case rmL l1 of [] \<Rightarrow> None | t # _ \<Rightarrow> Some t))"
    "opL rw l3" "W w3" "rmL l3 = tl (rmL l1)" using left_next [OF l1(2) r2(3)] by blast
  show ?case using 2 x l1 r2 l3
    by (cases rowsL) (auto simp: cj_open_op_def cj_opened_def cj_rem_def)
next
  case (3 rw x)
  then show ?case by (auto simp: cj_open_op_def cj_opened_def split: prod.splits)
next
  case (4 rw x)
  then show ?case using cj_loop_law [OF 4] by (auto simp: cj_next_def cj_opened_def split: prod.splits)
next
  case (5 x)
  obtain s l r w where x: "x = ((s, l, r), w)" by (cases x) auto
  with 5 obtain l1 w1 where l1: "op_rewind L (l, w) = Some ((l1, w1), Inr ())" "opL True l1" "W w1" "rmL l1 = rowsL"
    using left_rewind [of l w] by (auto simp: cj_opened_def)
  from 5 x obtain r2 w2 where r2: "op_rewind R (r, w1) = Some ((r2, w2), Inr ())" "opR True r2" "W w2" "rmR r2 = rowsR"
    using right_rewind [of r w1] l1 by (auto simp: cj_opened_def)
  obtain l3 w3 where l3: "op_next L (l1, w2) = Some ((l3, w3), Inr (case rmL l1 of [] \<Rightarrow> None | t # _ \<Rightarrow> Some t))"
    "opL True l3" "W w3" "rmL l3 = tl (rmL l1)" using left_next [OF l1(2) r2(3)] by blast
  show ?case using 5 x l1 r2 l3
    by (cases rowsL) (auto simp: cj_rewind_def cj_opened_def cj_rem_def)
next
  case (6 rw x)
  obtain s l r w where x: "x = ((s, l, r), w)" by (cases x) auto
  with 6 have h: "opL rw l \<or> gnL l" "opR True r \<or> gnR r" "W w" by (auto simp: cj_opened_def)
  obtain l1 w1 where l1: "op_close L (l, w) = Some ((l1, w1), Inr ())" "gnL l1" "W w1" using left_close [OF h(1,3)] by blast
  obtain r2 w2 where "op_close R (r, w1) = Some ((r2, w2), Inr ())" "gnR r2" "W w2" using right_close [OF h(2) l1(3)] by blast
  with l1 show ?case by (simp add: x cj_close_def)
qed

end

section \<open>Nested loop join\<close>

lemma nlj_ops_sel [simp]:
  "op_configure (nlj_ops L R) = nlj_configure L R" "op_open (nlj_ops L R) = nlj_open_op L R"
  "op_next (nlj_ops L R) = nlj_next L R" "op_close (nlj_ops L R) = nlj_close L R"
  "op_rewind (nlj_ops L R) = nlj_rewind L R" "op_schema (nlj_ops L R) = (\<lambda>(s, l, r). nlj_schema s)"
  by (simp_all add: nlj_ops_def)

text \<open>The condition of a join, when every pair can be compared.\<close>

definition on_cond :: "BinaryOp \<Rightarrow> ByteCodeExpr \<Rightarrow> ByteCodeExpr \<Rightarrow> Tuple \<Rightarrow> Tuple \<Rightarrow> bool option" where
  "on_cond op le re t u = do { a \<leftarrow> bytecode_eval le t; b \<leftarrow> bytecode_eval re u; compare_fields op a b }"

definition comparable :: "BinaryOp \<Rightarrow> ByteCodeExpr \<Rightarrow> ByteCodeExpr \<Rightarrow> Tuple list \<Rightarrow> Tuple list \<Rightarrow> bool" where
  "comparable op le re ls rs \<longleftrightarrow> list_all (\<lambda>l. list_all (\<lambda>r. on_cond op le re l r \<noteq> None) rs) ls"

definition nlj_is :: "BinaryOp \<Rightarrow> ByteCodeExpr \<Rightarrow> ByteCodeExpr \<Rightarrow> NestedLoopJoin \<Rightarrow> bool" where
  "nlj_is op le re s \<longleftrightarrow> nlj_op s = op \<and> nlj_left_expr s = le \<and> nlj_right_expr s = re"

lemma nlj_is_upd [simp]:
  "nlj_is op le re (s\<lparr>nlj_current_tuple := t\<rparr>) = nlj_is op le re s" "nlj_is op le re (s\<lparr>nlj_open := b\<rparr>) = nlj_is op le re s"
  by (simp_all add: nlj_is_def)

lemma nlj_matches_cond: "nlj_is op le re s \<Longrightarrow> nlj_matches s t u = on_cond op le re t u"
  by (simp add: nlj_is_def nlj_matches_def on_cond_def)

context join_children
begin

definition nlj_rem where
  "nlj_rem op le re = (\<lambda>((s, l, r), w :: 'w). case nlj_current_tuple s of
     None \<Rightarrow> []
   | Some t \<Rightarrow> map (merge_tuples t) (filter (\<lambda>u. on_cond op le re t u = Some True) (rmR r)) @
       pairs (\<lambda>t u. on_cond op le re t u = Some True) (rmL l) rowsR)"

definition nlj_opened where
  "nlj_opened op le re rw = (\<lambda>((s, l, r), w). nlj_is op le re s \<and> nlj_open s \<and> opL rw l \<and> opR True r \<and>
     comparable op le re (rmL l) rowsR \<and>
     (case nlj_current_tuple s of None \<Rightarrow> True | Some t \<Rightarrow> comparable op le re [t] rowsR \<and> comparable op le re [t] (rmR r)) \<and> W w)"

lemma nlj_loop_law:
  assumes "nlj_opened op le re rw x"
  shows "\<exists>x'. nlj_loop L R x = Some (x', Inr (case nlj_rem op le re x of [] \<Rightarrow> None | t # _ \<Rightarrow> Some t)) \<and>
    nlj_opened op le re rw x' \<and> nlj_rem op le re x' = tl (nlj_rem op le re x)"
  using assms
proof (induction "(rmL (fst (snd (fst x))), rmR (snd (snd (fst x))))" arbitrary: x
    rule: wf_induct [OF wf_lex_prod [OF wf_measure [of length] wf_measure [of length]]])
  case 1
  obtain s l r w where x: "x = ((s, l, r), w)" by (cases x) auto
  have o: "nlj_is op le re s" "nlj_open s" "opL rw l" "opR True r" "comparable op le re (rmL l) rowsR" "W w"
    using "1.prems" by (simp_all add: x nlj_opened_def)
  show ?case
  proof (cases "nlj_current_tuple s")
    case None
    with "1.prems" show ?thesis by (subst nlj_loop.simps) (simp add: x nlj_rem_def nlj_opened_def)
  next
    case (Some t)
    have c: "comparable op le re [t] rowsR" "comparable op le re [t] (rmR r)"
      using "1.prems" Some by (simp_all add: x nlj_opened_def)
    obtain r1 w1 where r1: "op_next R (r, w) = Some ((r1, w1), Inr (case rmR r of [] \<Rightarrow> None | t # _ \<Rightarrow> Some t))"
      "opR True r1" "W w1" "rmR r1 = tl (rmR r)" using right_next [OF o(4,6)] by blast
    show ?thesis
    proof (cases "rmR r")
      case (Cons u us)
      let ?x = "((s, l, r1), w1)"
      have ok: "nlj_opened op le re rw ?x"
        using o r1 c Some Cons by (simp add: nlj_opened_def comparable_def)
      obtain b where b: "on_cond op le re t u = Some b" using c(2) Cons by (auto simp: comparable_def)
      show ?thesis
      proof (cases b)
        case True
        with Some Cons r1 b o(1) have "nlj_loop L R x = Some (?x, Inr (Some (merge_tuples t u)))"
          by (subst nlj_loop.simps) (simp add: x nlj_matches_cond)
        with True Some Cons r1 b ok show ?thesis by (simp add: x nlj_rem_def)
      next
        case False
        with Some Cons r1 b o(1) have run: "nlj_loop L R x = nlj_loop L R ?x"
          by (subst nlj_loop.simps) (simp add: x nlj_matches_cond)
        have rem: "nlj_rem op le re x = nlj_rem op le re ?x" using False Some Cons r1 b by (simp add: x nlj_rem_def)
        show ?thesis unfolding run rem using ok Cons r1 by (intro "1.hyps" [rule_format]) (simp_all add: x)
      qed
    next
      case Nil
      obtain r2 w2 where r2: "op_rewind R (r1, w1) = Some ((r2, w2), Inr ())" "opR True r2" "W w2" "rmR r2 = rowsR"
        using right_rewind [OF r1(2,3)] by blast
      obtain l3 w3 where l3: "op_next L (l, w2) = Some ((l3, w3), Inr (case rmL l of [] \<Rightarrow> None | t # _ \<Rightarrow> Some t))"
        "opL rw l3" "W w3" "rmL l3 = tl (rmL l)" using left_next [OF o(3) r2(3)] by blast
      let ?x = "((s\<lparr>nlj_current_tuple := (case rmL l of [] \<Rightarrow> None | t # _ \<Rightarrow> Some t)\<rparr>, l3, r2), w3)"
      have run: "nlj_loop L R x = nlj_loop L R ?x"
        using Some Nil r1 r2 l3 by (subst nlj_loop.simps) (simp add: x)
      have ok: "nlj_opened op le re rw ?x"
        using o l3 r2 by (cases "rmL l") (simp_all add: nlj_opened_def comparable_def)
      show ?thesis
      proof (cases "rmL l")
        case nil: Nil
        then have "nlj_rem op le re x = []" and "nlj_loop L R ?x = Some (?x, Inr None)" and "nlj_rem op le re ?x = []"
          using Nil Some by (simp_all add: x nlj_rem_def nlj_loop.simps)
        with run ok show ?thesis by simp
      next
        case (Cons t' ts)
        then have rem: "nlj_rem op le re x = nlj_rem op le re ?x" using Nil Some l3 r2 by (simp add: x nlj_rem_def)
        show ?thesis unfolding run rem using ok Cons l3 by (intro "1.hyps" [rule_format]) (simp_all add: x)
      qed
    qed
  qed
qed

lemma nlj_iterator:
  assumes "comparable op le re rowsL rowsR"
  shows "op_iterator (nlj_ops L R) (\<lambda>((s, l, r), w). (nlj_is op le re s \<and> \<not> nlj_open s \<and> frL l \<and> frR r) \<and> W w)
     (\<lambda>rw ((s, l, r), w). (nlj_is op le re s \<and> \<not> nlj_open s \<and> clL rw l \<and> clR True r) \<and> W w) (nlj_opened op le re)
     (\<lambda>((s, l, r), w). (gnL l \<and> gnR r) \<and> W w) (pairs (\<lambda>t u. on_cond op le re t u = Some True) rowsL rowsR)
     (nlj_rem op le re)"
proof (unfold_locales, goal_cases)
  case (1 s w rw)
  then show ?case
    using left.configure_law [of _ w] right.configure_law [of _ w] by (auto simp: nlj_configure_def split: prod.splits)
next
  case (2 rw x)
  obtain s l r w where x: "x = ((s, l, r), w)" by (cases x) auto
  with 2 obtain l1 w1 where l1: "op_open L (l, w) = Some ((l1, w1), Inr ())" "opL rw l1" "W w1" "rmL l1 = rowsL"
    using left_open [of rw l w] by auto
  from 2 x obtain r2 w2 where r2: "op_open R (r, w1) = Some ((r2, w2), Inr ())" "opR True r2" "W w2" "rmR r2 = rowsR"
    using right_open [of True r w1] l1 by auto
  obtain l3 w3 where l3: "op_next L (l1, w2) = Some ((l3, w3), Inr (case rmL l1 of [] \<Rightarrow> None | t # _ \<Rightarrow> Some t))"
    "opL rw l3" "W w3" "rmL l3 = tl (rmL l1)" using left_next [OF l1(2) r2(3)] by blast
  show ?case using 2 x l1 r2 l3 assms
    by (cases rowsL) (auto simp: nlj_open_op_def nlj_opened_def nlj_rem_def comparable_def)
next
  case (3 rw x)
  then show ?case by (auto simp: nlj_open_op_def nlj_opened_def split: prod.splits)
next
  case (4 rw x)
  then show ?case using nlj_loop_law [OF 4] by (auto simp: nlj_next_def nlj_opened_def split: prod.splits)
next
  case (5 x)
  obtain s l r w where x: "x = ((s, l, r), w)" by (cases x) auto
  with 5 obtain l1 w1 where l1: "op_rewind L (l, w) = Some ((l1, w1), Inr ())" "opL True l1" "W w1" "rmL l1 = rowsL"
    using left_rewind [of l w] by (auto simp: nlj_opened_def)
  from 5 x obtain r2 w2 where r2: "op_rewind R (r, w1) = Some ((r2, w2), Inr ())" "opR True r2" "W w2" "rmR r2 = rowsR"
    using right_rewind [of r w1] l1 by (auto simp: nlj_opened_def)
  obtain l3 w3 where l3: "op_next L (l1, w2) = Some ((l3, w3), Inr (case rmL l1 of [] \<Rightarrow> None | t # _ \<Rightarrow> Some t))"
    "opL True l3" "W w3" "rmL l3 = tl (rmL l1)" using left_next [OF l1(2) r2(3)] by blast
  show ?case using 5 x l1 r2 l3 assms
    by (cases rowsL) (auto simp: nlj_rewind_def nlj_opened_def nlj_rem_def comparable_def)
next
  case (6 rw x)
  obtain s l r w where x: "x = ((s, l, r), w)" by (cases x) auto
  with 6 have h: "opL rw l \<or> gnL l" "opR True r \<or> gnR r" "W w" by (auto simp: nlj_opened_def)
  obtain l1 w1 where l1: "op_close L (l, w) = Some ((l1, w1), Inr ())" "gnL l1" "W w1" using left_close [OF h(1,3)] by blast
  obtain r2 w2 where "op_close R (r, w1) = Some ((r2, w2), Inr ())" "gnR r2" "W w2" using right_close [OF h(2) l1(3)] by blast
  with l1 show ?case by (simp add: x nlj_close_def)
qed

end

section \<open>Hash join\<close>

lemma hash_ops_sel [simp]:
  "op_configure (hash_ops L R) = hj_configure L R" "op_open (hash_ops L R) = hj_open_op L R"
  "op_next (hash_ops L R) = hj_next L R" "op_close (hash_ops L R) = hj_close L R"
  "op_rewind (hash_ops L R) = hj_rewind L R" "op_schema (hash_ops L R) = (\<lambda>(s, l, r). hj_schema s)"
  by (simp_all add: hash_ops_def)

definition bucket :: "(Field \<times> Tuple list) list \<Rightarrow> Field \<Rightarrow> Tuple list" where
  "bucket m k = (case map_of m k of Some b \<Rightarrow> b | None \<Rightarrow> [])"

lemma bucket_push_law: "bucket (bucket_push m k t) k' = bucket m k' @ (if k' = k then [t] else [])"
  by (simp add: bucket_def bucket_push_def update_conv' split: option.splits)

text \<open>The table built from the left rows has in each bucket the rows with that key, in order.\<close>

lemma hj_build_law:
  "evaluable [e] ts \<Longrightarrow> \<exists>m'. foldM (hj_build e) m ts = Some m' \<and>
     (\<forall>k. bucket m' k = bucket m k @ filter (\<lambda>t. bytecode_eval e t = Some k) ts)"
proof (induction ts arbitrary: m)
  case Nil
  show ?case by simp
next
  case (Cons t ts)
  then obtain k where k: "bytecode_eval e t = Some k" by (auto split: Option.bind_splits)
  from Cons obtain m' where "foldM (hj_build e) (bucket_push m k t) ts = Some m'"
    "\<forall>k'. bucket m' k' = bucket (bucket_push m k t) k' @ filter (\<lambda>t. bytecode_eval e t = Some k') ts" by fastforce
  moreover have "hj_build e m t = Some (bucket_push m k t)" using k by (simp add: hj_build_def)
  ultimately show ?case using k by (auto simp: bucket_push_law)
qed

definition hj_pairs :: "ByteCodeExpr \<Rightarrow> ByteCodeExpr \<Rightarrow> Tuple list \<Rightarrow> Tuple list \<Rightarrow> Tuple list" where
  "hj_pairs le re ls rs = concat (map (\<lambda>r. map (\<lambda>l. merge_tuples l r)
     (filter (\<lambda>l. bytecode_eval le l = bytecode_eval re r) ls)) rs)"

lemma hj_pairs_simps [simp]:
  "hj_pairs le re ls [] = []"
  "hj_pairs le re ls (r # rs) =
     map (\<lambda>l. merge_tuples l r) (filter (\<lambda>l. bytecode_eval le l = bytecode_eval re r) ls) @ hj_pairs le re ls rs"
  by (simp_all add: hj_pairs_def)

context join_children
begin

definition hj_rem where
  "hj_rem le re = (\<lambda>((s, l, r), w :: 'w). case hj_current_tuple s of
     None \<Rightarrow> []
   | Some u \<Rightarrow> map (\<lambda>t. merge_tuples t u) (drop (current_idx s) (filter (\<lambda>t. bytecode_eval le t = bytecode_eval re u) rowsL)) @
       hj_pairs le re rowsL (rmR r))"

definition hj_opened where
  "hj_opened le re rw = (\<lambda>((s, l, r), w). hj_right_expr s = re \<and> hj_open s \<and> (\<exists>rl. opL rl l) \<and> opR rw r \<and>
     (\<forall>k. bucket (join_map s) k = filter (\<lambda>t. bytecode_eval le t = Some k) rowsL) \<and>
     evaluable [re] (rmR r) \<and> (case hj_current_tuple s of None \<Rightarrow> True | Some u \<Rightarrow> evaluable [re] [u]) \<and> W w)"

lemma hj_loop_law:
  assumes "hj_opened le re rw x"
  shows "\<exists>x'. hj_loop L R x = Some (x', Inr (case hj_rem le re x of [] \<Rightarrow> None | t # _ \<Rightarrow> Some t)) \<and>
    hj_opened le re rw x' \<and> hj_rem le re x' = tl (hj_rem le re x)"
  using assms
proof (induction "rmR (snd (snd (fst x)))" arbitrary: x rule: length_induct)
  case 1
  obtain s l r w where x: "x = ((s, l, r), w)" by (cases x) auto
  have o: "hj_right_expr s = re" "hj_open s" "\<exists>rl. opL rl l" "opR rw r" "evaluable [re] (rmR r)" "W w"
    "\<And>k. bucket (join_map s) k = filter (\<lambda>t. bytecode_eval le t = Some k) rowsL"
    using "1.prems" by (simp_all add: x hj_opened_def)
  show ?case
  proof (cases "hj_current_tuple s")
    case None
    with "1.prems" show ?thesis by (subst hj_loop.simps) (simp add: x hj_rem_def hj_opened_def)
  next
    case (Some u)
    obtain k where k: "bytecode_eval re u = Some k"
      using "1.prems" Some by (auto simp: x hj_opened_def split: Option.bind_splits)
    let ?b = "filter (\<lambda>t. bytecode_eval le t = Some k) rowsL"
    have b: "(case map_of (join_map s) k of Some b \<Rightarrow> b | None \<Rightarrow> []) = ?b" using o(7) by (simp flip: bucket_def)
    show ?thesis
    proof (cases "current_idx s < length ?b")
      case True
      let ?x = "((s\<lparr>current_idx := current_idx s + 1\<rparr>, l, r), w)"
      have "hj_loop L R x = Some (?x, Inr (Some (merge_tuples (?b ! current_idx s) u)))"
        using Some k o(1) True by (subst hj_loop.simps) (simp add: x b Let_def)
      moreover have "hj_opened le re rw ?x" using "1.prems" by (simp add: x hj_opened_def)
      moreover have "drop (current_idx s) ?b = ?b ! current_idx s # drop (current_idx s + 1) ?b"
        using True by (simp add: Cons_nth_drop_Suc)
      ultimately show ?thesis using Some k by (simp add: x hj_rem_def)
    next
      case False
      obtain r1 w1 where r1: "op_next R (r, w) = Some ((r1, w1), Inr (case rmR r of [] \<Rightarrow> None | t # _ \<Rightarrow> Some t))"
        "opR rw r1" "W w1" "rmR r1 = tl (rmR r)" using right_next [OF o(4,6)] by blast
      let ?x = "((s\<lparr>hj_current_tuple := (case rmR r of [] \<Rightarrow> None | t # _ \<Rightarrow> Some t), current_idx := 0\<rparr>, l, r1), w1)"
      have run: "hj_loop L R x = hj_loop L R ?x"
        using Some k o(1) False r1 by (subst hj_loop.simps) (simp add: x b Let_def)
      have ok: "hj_opened le re rw ?x"
        using o r1 by (cases "rmR r") (simp_all add: hj_opened_def)
      have rem: "hj_rem le re x = hj_rem le re ?x"
        using Some k False r1 by (cases "rmR r") (simp_all add: x hj_rem_def)
      show ?thesis
      proof (cases "rmR r")
        case Nil
        then have "hj_loop L R ?x = Some (?x, Inr None)" and "hj_rem le re ?x = []"
          by (simp_all add: hj_rem_def hj_loop.simps)
        with run ok rem show ?thesis by simp
      next
        case (Cons t ts)
        then have "length (rmR (snd (snd (fst ?x)))) < length (rmR (snd (snd (fst x))))" using r1 by (simp add: x)
        with "1.hyps" ok show ?thesis unfolding run rem by blast
      qed
    qed
  qed
qed

lemma hash_iterator:
  assumes "evaluable [le] rowsL" and "evaluable [re] rowsR"
  shows "op_iterator (hash_ops L R)
     (\<lambda>((s, l, r), w). (hj_left_expr s = le \<and> hj_right_expr s = re \<and> join_map s = [] \<and> \<not> hj_open s \<and> frL l \<and> frR r) \<and> W w)
     (\<lambda>rw ((s, l, r), w). (hj_left_expr s = le \<and> hj_right_expr s = re \<and> join_map s = [] \<and> \<not> hj_open s \<and> clL False l \<and> clR rw r) \<and> W w)
     (hj_opened le re) (\<lambda>((s, l, r), w). (gnL l \<and> gnR r) \<and> W w) (hj_pairs le re rowsL rowsR) (hj_rem le re)"
proof (unfold_locales, goal_cases)
  case (1 s w rw)
  then show ?case
    using left.configure_law [of _ w] right.configure_law [of _ w] by (auto simp: hj_configure_def split: prod.splits)
next
  case (2 rw x)
  obtain s l r w where x: "x = ((s, l, r), w)" by (cases x) auto
  with 2 obtain l1 w1 where l1: "op_open L (l, w) = Some ((l1, w1), Inr ())" "opL False l1" "W w1" "rmL l1 = rowsL"
    using left_open [of False l w] by auto
  obtain m where m: "foldM (hj_build le) [] rowsL = Some m"
    "\<And>k. bucket m k = filter (\<lambda>t. bytecode_eval le t = Some k) rowsL"
    using hj_build_law [OF assms(1), of "[]"] by (auto simp: bucket_def)
  obtain l2 w2 where l2: "for_each L (hj_build le) [] (l1, w1) = Some ((m, l2, w2), Inr ())" "opL False l2" "W w2"
    using left.for_each_law [of False "(l1, w1)" "hj_build le" "[]" m] l1 m(1) by auto
  from 2 x obtain r3 w3 where r3: "op_open R (r, w2) = Some ((r3, w3), Inr ())" "opR rw r3" "W w3" "rmR r3 = rowsR"
    using right_open [of rw r w2] l2 by auto
  obtain r4 w4 where r4: "op_next R (r3, w3) = Some ((r4, w4), Inr (case rmR r3 of [] \<Rightarrow> None | t # _ \<Rightarrow> Some t))"
    "opR rw r4" "W w4" "rmR r4 = tl (rmR r3)" using right_next [OF r3(2,3)] by blast
  show ?case using 2 x l1 l2 r3 r4 m assms(2)
    by (cases rowsR) (auto simp: hj_open_op_def hj_opened_def hj_rem_def)
next
  case (3 rw x)
  then show ?case by (auto simp: hj_open_op_def hj_opened_def split: prod.splits)
next
  case (4 rw x)
  then show ?case using hj_loop_law [OF 4] by (auto simp: hj_next_def hj_opened_def split: prod.splits)
next
  case (5 x)
  obtain s l r w where x: "x = ((s, l, r), w)" by (cases x) auto
  with 5 obtain r1 w1 where r1: "op_rewind R (r, w) = Some ((r1, w1), Inr ())" "opR True r1" "W w1" "rmR r1 = rowsR"
    using right_rewind [of r w] by (auto simp: hj_opened_def)
  obtain r2 w2 where r2: "op_next R (r1, w1) = Some ((r2, w2), Inr (case rmR r1 of [] \<Rightarrow> None | t # _ \<Rightarrow> Some t))"
    "opR True r2" "W w2" "rmR r2 = tl (rmR r1)" using right_next [OF r1(2,3)] by blast
  show ?case using 5 x r1 r2 assms(2)
    by (cases rowsR) (auto simp: hj_rewind_def hj_opened_def hj_rem_def)
next
  case (6 rw x)
  obtain s l r w where x: "x = ((s, l, r), w)" by (cases x) auto
  with 6 obtain rl where h: "opL rl l \<or> gnL l" "opR rw r \<or> gnR r" "W w" by (auto simp: hj_opened_def)
  obtain l1 w1 where l1: "op_close L (l, w) = Some ((l1, w1), Inr ())" "gnL l1" "W w1" using left_close [OF h(1,3)] by blast
  obtain r2 w2 where "op_close R (r, w1) = Some ((r2, w2), Inr ())" "gnR r2" "W w2" using right_close [OF h(2) l1(3)] by blast
  with l1 show ?case by (simp add: x hj_close_def)
qed

end

end
