(* ===== verification/SortLaws.thy ===== *)
theory SortLaws
  imports SortOps JoinLaws
begin

text \<open>
  \<open>compare_keys\<close> is a total order on keys of the right length, \<open>sort_by\<close> sorts with any such order, and
  the sort operator keeps the iterator contract with the sorted rows.
\<close>

section \<open>Sort keys\<close>

fun flip :: "Ordering \<Rightarrow> Ordering" where
  "flip Less = Greater"
| "flip Equal = Equal"
| "flip Greater = Less"

lemma flip_eq [simp]: "flip x = Less \<longleftrightarrow> x = Greater" "flip x = Greater \<longleftrightarrow> x = Less" "flip x = Equal \<longleftrightarrow> x = Equal"
  by (cases x; simp)+

lemma flip_flip [simp]: "flip (flip x) = x"
  by (cases x) simp_all

lemma field_cmp_flip: "field_cmp b a = flip (field_cmp a b)"
  by (auto simp: field_cmp_def)

lemma field_cmp_Equal [simp]: "field_cmp a b = Equal \<longleftrightarrow> a = b"
  by (auto simp: field_cmp_def)

lemma field_cmp_Less [simp]: "field_cmp a b = Less \<longleftrightarrow> a < b"
  by (auto simp: field_cmp_def)

lemma field_cmp_Greater [simp]: "field_cmp a b = Greater \<longleftrightarrow> b < a"
  by (auto simp: field_cmp_def)

lemma compare_keys_defined:
  "length a = length ascs \<Longrightarrow> length b = length ascs \<Longrightarrow> compare_keys a b ascs \<noteq> None"
  by (induction a b ascs rule: compare_keys.induct) (auto simp: Let_def)

lemma compare_keys_Equal:
  "length a = length ascs \<Longrightarrow> length b = length ascs \<Longrightarrow> compare_keys a b ascs = Some Equal \<longleftrightarrow> a = b"
  by (induction a b ascs rule: compare_keys.induct) (auto simp: Let_def)

lemma compare_keys_flip: "compare_keys b a ascs = map_option flip (compare_keys a b ascs)"
proof (induction a b ascs rule: compare_keys.induct)
  case (2 l ls r rs asc ascs)
  then show ?case by (auto simp: Let_def field_cmp_flip [of r l])
qed auto

lemma compare_keys_Not: "compare_keys a b (map Not ascs) = compare_keys b a ascs"
  by (induction a b ascs rule: compare_keys.induct) (auto simp: Let_def)

lemma compare_keys_trans:
  assumes "length a = length ascs" "length b = length ascs" "length c = length ascs"
    and "compare_keys a b ascs \<noteq> Some Greater" and "compare_keys b c ascs \<noteq> Some Greater"
  shows "compare_keys a c ascs \<noteq> Some Greater"
  using assms
proof (induction ascs arbitrary: a b c)
  case (Cons asc ascs)
  obtain x a' y b' z c' where "a = x # a'" "b = y # b'" "c = z # c'"
    using Cons.prems(1-3) by (auto simp: length_Suc_conv)
  with Cons.prems Cons.IH [of a' b' c'] show ?case by (auto simp: Let_def split: if_splits)
qed simp

lemma key_le_total: "key_le ascs a b \<or> key_le ascs b a"
  by (auto simp: key_le_def compare_keys_flip [of b a])

lemma key_le_trans:
  "length a = length ascs \<Longrightarrow> length b = length ascs \<Longrightarrow> length c = length ascs \<Longrightarrow>
   key_le ascs a b \<Longrightarrow> key_le ascs b c \<Longrightarrow> key_le ascs a c"
  using compare_keys_trans [of a ascs b c] by (simp add: key_le_def)

lemma key_le_antisym:
  "length a = length ascs \<Longrightarrow> length b = length ascs \<Longrightarrow> key_le ascs a b \<Longrightarrow> key_le ascs b a \<Longrightarrow> a = b"
  using compare_keys_defined [of a ascs b] compare_keys_Equal [of a ascs b]
  by (auto simp: key_le_def compare_keys_flip [of b a]) (metis Ordering.exhaust)

lemma key_le_Not: "key_le (map Not ascs) a b = key_le ascs b a"
  by (simp add: key_le_def compare_keys_Not)

section \<open>Sorting\<close>

lemma mset_insort_by [simp]: "mset (insort_by le x ys) = add_mset x (mset ys)"
  by (induction ys) simp_all

lemma set_insort_by [simp]: "set (insort_by le x ys) = insert x (set ys)"
  by (metis mset_insort_by set_mset_add_mset_insert set_mset_mset)

lemma sort_by_simps [simp]: "sort_by le [] = []" "sort_by le (x # xs) = insort_by le x (sort_by le xs)"
  by (simp_all add: sort_by_def)

lemma mset_sort_by [simp]: "mset (sort_by le xs) = mset xs"
  by (induction xs) simp_all

lemma set_sort_by [simp]: "set (sort_by le xs) = set xs"
  by (metis mset_sort_by set_mset_mset)

lemma length_sort_by [simp]: "length (sort_by le xs) = length xs"
  by (metis mset_sort_by size_mset)

lemma sorted_insort_by:
  assumes "\<And>x y. le x y \<or> le y x" and "\<And>x y z. x \<in> S \<Longrightarrow> y \<in> S \<Longrightarrow> z \<in> S \<Longrightarrow> le x y \<Longrightarrow> le y z \<Longrightarrow> le x z"
    and "x \<in> S" "set ys \<subseteq> S" "sorted_wrt le ys"
  shows "sorted_wrt le (insort_by le x ys)"
  using assms(4,5)
proof (induction ys)
  case (Cons y ys)
  then show ?case using assms(1) [of x y] assms(2) [of x y] assms(3) by auto
qed simp

lemma sorted_sort_by:
  assumes "\<And>x y. le x y \<or> le y x" and "\<And>x y z. x \<in> S \<Longrightarrow> y \<in> S \<Longrightarrow> z \<in> S \<Longrightarrow> le x y \<Longrightarrow> le y z \<Longrightarrow> le x z"
    and "set xs \<subseteq> S"
  shows "sorted_wrt le (sort_by le xs)"
  using assms(3)
proof (induction xs)
  case (Cons x xs)
  then have "x \<in> S" "set (sort_by le xs) \<subseteq> S" "sorted_wrt le (sort_by le xs)" by simp_all
  then have "sorted_wrt le (insort_by le x (sort_by le xs))" by (intro sorted_insort_by [OF assms(1,2)])
  then show ?case by simp
qed simp

text \<open>The rows of a child, each with the values of the sort expressions.\<close>

definition key_of :: "ByteCodeExpr list \<Rightarrow> Tuple \<Rightarrow> Field list" where
  "key_of es t = map (\<lambda>e. the (bytecode_eval e t)) es"

definition with_keys :: "ByteCodeExpr list \<Rightarrow> Tuple list \<Rightarrow> (Field list \<times> Tuple) list" where
  "with_keys es ts = map (\<lambda>t. (key_of es t, t)) ts"

lemma length_key_of [simp]: "length (key_of es t) = length es"
  by (simp add: key_of_def)

lemma keyed_law: "evaluable es ts \<Longrightarrow> foldM (keyed es) d ts = Some (d @ with_keys es ts)"
proof (induction ts arbitrary: d)
  case (Cons t ts)
  then obtain k where "eval_all es t = Some k" by auto
  with Cons eval_all_Some [of es t k] show ?case by (simp add: keyed_def with_keys_def key_of_def)
qed (simp add: with_keys_def)

definition key_sort :: "bool list \<Rightarrow> (Field list \<times> Tuple) list \<Rightarrow> (Field list \<times> Tuple) list" where
  "key_sort ascs d = sort_by (\<lambda>(a, _) (b, _). key_le ascs a b) d"

definition key_sorted :: "bool list \<Rightarrow> (Field list \<times> Tuple) list \<Rightarrow> bool" where
  "key_sorted ascs d \<longleftrightarrow> sorted_wrt (\<lambda>x y. key_le ascs (fst x) (fst y)) d \<and> list_all (\<lambda>x. length (fst x) = length ascs) d"

lemma key_sort_set [simp]: "set (key_sort ascs d) = set d" "mset (key_sort ascs d) = mset d"
  "length (key_sort ascs d) = length d"
  by (simp_all add: key_sort_def)

lemma key_sort_sorted:
  assumes "list_all (\<lambda>x. length (fst x) = length ascs) d"
  shows "key_sorted ascs (key_sort ascs d)"
proof -
  have "sorted_wrt (\<lambda>(a, _) (b, _). key_le ascs a b) (key_sort ascs d)"
    unfolding key_sort_def
  proof (rule sorted_sort_by [where S = "set d"], goal_cases)
    case (1 x y)
    then show ?case using key_le_total by (cases x; cases y) simp
  next
    case (2 x y z)
    then have "length (fst x) = length ascs" "length (fst y) = length ascs" "length (fst z) = length ascs"
      using assms by (simp_all add: list_all_iff)
    with 2 show ?case using key_le_trans [of "fst x" ascs "fst y" "fst z"] by (simp add: case_prod_beta)
  next
    case 3
    then show ?case by simp
  qed
  moreover have "list_all (\<lambda>x. length (fst x) = length ascs) (key_sort ascs d)"
    using assms by (simp add: list_all_iff)
  ultimately show ?thesis by (simp add: key_sorted_def case_prod_beta')
qed

lemma with_keys_length: "length es = n \<Longrightarrow> list_all (\<lambda>x. length (fst x) = n) (with_keys es ts)"
  by (auto simp: with_keys_def list_all_iff)

lemma map_snd_with_keys [simp]: "map snd (with_keys es ts) = ts"
  by (simp add: with_keys_def comp_def)

lemma with_keys_fst: "x \<in> set (with_keys es ts) \<Longrightarrow> fst x = key_of es (snd x)"
  by (auto simp: with_keys_def)

section \<open>The sort operator\<close>

lemma sort_ops_sel [simp]:
  "op_configure (sort_ops C) = srt_configure C" "op_open (sort_ops C) = srt_open_op C"
  "op_next (sort_ops C) = srt_next C" "op_close (sort_ops C) = srt_close C"
  "op_rewind (sort_ops C) = srt_rewind C" "op_schema (sort_ops C) = (\<lambda>(s, c). srt_schema s)"
  by (simp_all add: sort_ops_def)

definition sorted_rows :: "(ByteCodeExpr \<times> bool) list \<Rightarrow> Tuple list \<Rightarrow> Tuple list" where
  "sorted_rows fs ts = rev (map snd (key_sort (map (Not \<circ> snd) fs) (with_keys (map fst fs) ts)))"

text \<open>The rows come out in the requested order and are the rows that went in.\<close>

lemma sorted_rows_law:
  "mset (sorted_rows fs ts) = mset ts"
  "sorted_wrt (\<lambda>t u. key_le (map snd fs) (key_of (map fst fs) t) (key_of (map fst fs) u)) (sorted_rows fs ts)"
proof -
  let ?d = "with_keys (map fst fs) ts" and ?n = "map (Not \<circ> snd) fs"
  show "mset (sorted_rows fs ts) = mset ts"
    by (simp add: sorted_rows_def del: map_snd_with_keys) (metis map_snd_with_keys mset_map)
  have "key_sorted ?n (key_sort ?n ?d)" by (simp add: key_sort_sorted with_keys_length)
  then have s: "sorted_wrt (\<lambda>x y. key_le ?n (fst x) (fst y)) (key_sort ?n ?d)" by (simp add: key_sorted_def)
  have n: "key_le ?n a b = key_le (map snd fs) b a" for a b using key_le_Not [of "map snd fs" a b] by simp
  have "sorted_wrt (\<lambda>x y. key_le (map snd fs) (key_of (map fst fs) (snd y)) (key_of (map fst fs) (snd x))) (key_sort ?n ?d)"
    by (rule sorted_wrt_mono_rel [OF _ s]) (auto simp: n with_keys_fst)
  then show "sorted_wrt (\<lambda>t u. key_le (map snd fs) (key_of (map fst fs) t) (key_of (map fst fs) u)) (sorted_rows fs ts)"
    by (simp add: sorted_rows_def sorted_wrt_rev sorted_wrt_map)
qed

definition srt_rem :: "Sort \<Rightarrow> Tuple list" where
  "srt_rem s = (if srt_will_rewind s then rev (map snd (take (srt_index s) (sorted_data s))) else rev (map snd (sorted_data s)))"

definition srt_opened :: "Tuple list \<Rightarrow> bool \<Rightarrow> Sort \<Rightarrow> bool" where
  "srt_opened rows rw s \<longleftrightarrow> srt_open s \<and> srt_will_rewind s = rw \<and>
     (rw \<longrightarrow> rev (map snd (sorted_data s)) = rows \<and> srt_index s \<le> length (sorted_data s))"

lemma srt_next_law:
  assumes "srt_opened rows rw s"
  shows "\<exists>s'. srt_next C ((s, c), w) = Some (((s', c), w), Inr (case srt_rem s of [] \<Rightarrow> None | t # _ \<Rightarrow> Some t)) \<and>
    srt_opened rows rw s' \<and> srt_rem s' = tl (srt_rem s)"
proof (cases rw)
  case rw: True
  show ?thesis
  proof (cases "srt_index s")
    case 0
    with assms rw show ?thesis by (simp add: srt_next_def srt_opened_def srt_rem_def)
  next
    case (Suc i)
    with assms rw have "i < length (sorted_data s)" by (simp add: srt_opened_def)
    with assms rw Suc show ?thesis
      by (simp add: srt_next_def srt_opened_def srt_rem_def take_Suc_conv_app_nth)
  qed
next
  case False
  with assms show ?thesis
    by (cases "sorted_data s" rule: rev_cases) (simp_all add: srt_next_def srt_opened_def srt_rem_def)
qed

context op_iterator
begin

lemma sort_iterator:
  assumes "evaluable (map fst fs) rows"
  shows "op_iterator (sort_ops ops)
    (\<lambda>((s, c), w). srt_fields s = fs \<and> \<not> srt_open s \<and> sorted_data s = [] \<and> fresh (c, w))
    (\<lambda>rw ((s, c), w). srt_fields s = fs \<and> \<not> srt_open s \<and> sorted_data s = [] \<and> srt_will_rewind s = rw \<and> closed False (c, w))
    (\<lambda>rw ((s, c), w). srt_opened (sorted_rows fs rows) rw s \<and> gone (c, w))
    (\<lambda>((s, c), w). gone (c, w)) (sorted_rows fs rows) (\<lambda>((s, c), w). srt_rem s)"
proof (unfold_locales, goal_cases)
  case (1 s w rw)
  then show ?case by (auto simp: srt_configure_def configure_law split: prod.splits)
next
  case (2 rw x)
  obtain s c w where x: "x = ((s, c), w)" by (cases x) auto
  with 2 have st: "\<not> srt_open s" "sorted_data s = []" "srt_fields s = fs" "srt_will_rewind s = rw" "closed False (c, w)" by simp_all
  obtain x1 where x1: "op_open ops (c, w) = Some (x1, Inr ())" "opened False x1" "rem x1 = rows"
    using open_law [OF st(5)] by blast
  obtain x2 where x2: "for_each ops (keyed (map fst fs)) [] x1 = Some ((with_keys (map fst fs) rows, x2), Inr ())" "opened False x2"
    using for_each_law [OF x1(2), of "keyed (map fst fs)" "[]" "with_keys (map fst fs) rows"] x1(3) keyed_law [OF assms, of "[]"]
    by auto
  obtain x3 where x3: "op_close ops x2 = Some (x3, Inr ())" "gone x3" using close_law x2(2) by blast
  obtain c1 w1 c2 w2 c3 w3 where xs: "x1 = (c1, w1)" "x2 = (c2, w2)" "x3 = (c3, w3)" by (metis surj_pair)
  from st x1 x2 x3 show ?case
    by (simp add: x xs srt_open_op_def srt_opened_def srt_rem_def sorted_rows_def key_sort_def rev_map Let_def)
next
  case (3 rw x)
  then show ?case by (auto simp: srt_open_op_def srt_opened_def split: prod.splits)
next
  case (4 rw x)
  obtain s c w where x: "x = ((s, c), w)" by (cases x) auto
  with 4 srt_next_law [of "sorted_rows fs rows" rw s ops c w] show ?case by auto
next
  case (5 x)
  then show ?case by (auto simp: srt_rewind_def srt_opened_def srt_rem_def split: prod.splits)
next
  case (6 rw x)
  obtain s c w where x: "x = ((s, c), w)" by (cases x) auto
  with 6 close_law [of rw "(c, w)"] show ?case by (auto simp: srt_close_def)
qed

end

end
