(* ===== verification/MergeLaws.thy ===== *)
theory MergeLaws
  imports SortLaws
begin

text \<open>
  The sort merge join keeps the iterator contract. Its rows are the pairs of the two sorted inputs that have
  equal keys, in the order of a nested loop over the sorted inputs; the cursors only save comparisons.
\<close>

section \<open>Runs of equal keys\<close>

definition seg :: "nat \<Rightarrow> nat \<Rightarrow> 'a list \<Rightarrow> 'a list" where
  "seg i e d = take (e - i) (drop i d)"

lemma seg_Nil [simp]: "seg i i d = []"
  by (simp add: seg_def)

lemma seg_Cons: "i < e \<Longrightarrow> i < length d \<Longrightarrow> seg i e d = d ! i # seg (Suc i) e d"
  unfolding seg_def by (simp add: Cons_nth_drop_Suc [symmetric] take_Cons' del: drop_Suc)

lemma drop_seg: "i \<le> e \<Longrightarrow> drop i d = seg i e d @ drop e d"
  unfolding seg_def by (metis append_take_drop_id drop_drop le_add_diff_inverse2)

definition all_keys :: "(Field list \<Rightarrow> bool) \<Rightarrow> (Field list \<times> Tuple) list \<Rightarrow> bool" where
  "all_keys p d \<longleftrightarrow> list_all (\<lambda>x. p (fst x)) d"

lemma all_keys_simps [simp]: "all_keys p []" "all_keys p (x # xs) \<longleftrightarrow> p (fst x) \<and> all_keys p xs"
  "all_keys p (xs @ ys) \<longleftrightarrow> all_keys p xs \<and> all_keys p ys"
  by (simp_all add: all_keys_def)

lemma key_sorted_drop: "key_sorted ascs d \<Longrightarrow> key_sorted ascs (drop i d)"
  unfolding key_sorted_def by (auto simp: sorted_wrt_drop list_all_iff dest: in_set_dropD)

lemma key_sorted_Cons: "key_sorted ascs (x # d) \<longleftrightarrow>
    length (fst x) = length ascs \<and> all_keys (key_le ascs (fst x)) d \<and> key_sorted ascs d"
  by (auto simp: key_sorted_def all_keys_def list_all_iff)

lemma key_sorted_len: "key_sorted ascs d \<Longrightarrow> i < length d \<Longrightarrow> length (fst (d ! i)) = length ascs"
  by (simp add: key_sorted_def list_all_length)

text \<open>A key before a sorted list does not occur in it when it is below its first key.\<close>

lemma below_absent:
  assumes "length k = length ascs" "key_sorted ascs (x # d)" "compare_keys k (fst x) ascs = Some Less"
  shows "all_keys (\<lambda>k'. k' \<noteq> k) (x # d)"
proof -
  have "fst x \<noteq> k" using assms compare_keys_Equal [of k ascs k] by auto
  moreover have "fst y \<noteq> k" if y: "y \<in> set d" for y
  proof
    assume "fst y = k"
    with y assms(2) have "key_le ascs (fst x) k" by (auto simp: key_sorted_Cons all_keys_def list_all_iff)
    with assms(3) show False by (simp add: key_le_def compare_keys_flip [of "fst x" k])
  qed
  ultimately show ?thesis by (simp add: all_keys_def list_all_iff)
qed

lemma run_end_law:
  assumes "i \<le> length d" "key_sorted ascs (drop i d)" "length k = length ascs" "all_keys (key_le ascs k) (drop i d)"
  shows "\<exists>e. run_end k d ascs i = Some e \<and> i \<le> e \<and> e \<le> length d \<and> all_keys (\<lambda>k'. k' = k) (seg i e d) \<and>
    all_keys (\<lambda>k'. k' \<noteq> k) (drop e d)"
  using assms
proof (induction k d ascs i rule: run_end.induct)
  case (1 k d ascs i)
  show ?case
  proof (cases "i < length d")
    case False
    with 1 show ?thesis by (auto simp: run_end.simps)
  next
    case True
    then have dr: "drop i d = d ! i # drop (Suc i) d" by (simp add: Cons_nth_drop_Suc)
    have len: "length (fst (d ! i)) = length ascs" using 1(3) by (simp add: dr key_sorted_Cons)
    then obtain c where c: "compare_keys k (fst (d ! i)) ascs = Some c" using compare_keys_defined [of k ascs] 1(4) by auto
    show ?thesis
    proof (cases c)
      case Equal
      then have eq: "fst (d ! i) = k" using c len 1(4) compare_keys_Equal [of k ascs] by auto
      obtain e where "run_end k d ascs (Suc i) = Some e" "Suc i \<le> e" "e \<le> length d"
        "all_keys (\<lambda>k'. k' = k) (seg (Suc i) e d)" "all_keys (\<lambda>k'. k' \<noteq> k) (drop e d)"
        using 1(1) [OF True c] Equal True 1(3-5) by (auto simp: dr key_sorted_Cons)
      with True c Equal eq show ?thesis by (subst run_end.simps) (auto simp: seg_Cons)
    next
      case Less
      have "all_keys (\<lambda>k'. k' \<noteq> k) (drop i d)" unfolding dr using below_absent [of k ascs "d ! i"] 1(3,4) c Less by (simp add: dr)
      with True c Less show ?thesis by (subst run_end.simps) simp
    next
      case Greater
      with 1(5) c show ?thesis by (simp add: dr key_le_def)
    qed
  qed
qed

section \<open>Matching pairs\<close>

definition kp :: "(Field list \<times> Tuple) list \<Rightarrow> (Field list \<times> Tuple) list \<Rightarrow> Tuple list" where
  "kp ls rs = concat (map (\<lambda>l. map (\<lambda>r. merge_tuples (snd l) (snd r)) (filter (\<lambda>r. fst r = fst l) rs)) ls)"

lemma kp_simps [simp]: "kp [] rs = []" "kp ls [] = []"
  "kp (l # ls) rs = map (\<lambda>r. merge_tuples (snd l) (snd r)) (filter (\<lambda>r. fst r = fst l) rs) @ kp ls rs"
  by (simp_all add: kp_def)

lemma filter_absent: "all_keys (\<lambda>k'. k' \<noteq> k) d \<Longrightarrow> filter (\<lambda>r. fst r = k) d = []"
  by (auto simp: all_keys_def list_all_iff)

lemma filter_run: "all_keys (\<lambda>k'. k' = k) d \<Longrightarrow> filter (\<lambda>r. fst r = k) d = d"
  by (induction d) auto

lemma kp_skip_left: "all_keys (\<lambda>k'. k' \<noteq> fst l) rs \<Longrightarrow> kp (l # ls) rs = kp ls rs"
  by (simp add: filter_absent)

lemma kp_skip_right: "all_keys (\<lambda>k'. k' \<noteq> fst r) ls \<Longrightarrow> kp ls (r # rs) = kp ls rs"
  by (induction ls) (auto)

lemma kp_skip_run: "all_keys (\<lambda>k'. k' = k) xs \<Longrightarrow> all_keys (\<lambda>k'. k' \<noteq> k) ls \<Longrightarrow> kp ls (xs @ rs) = kp ls rs"
  by (induction xs) (auto simp: kp_skip_right)

section \<open>The state of the merge\<close>

definition in_run :: "SortMergeJoin \<Rightarrow> Field list \<Rightarrow> bool" where
  "in_run s k \<longleftrightarrow> all_keys (\<lambda>k'. k' = k) (seg (l_first s) (l_end s) (left_sorted_data s)) \<and>
     all_keys (\<lambda>k'. k' \<noteq> k) (drop (l_end s) (left_sorted_data s)) \<and>
     all_keys (\<lambda>k'. k' = k) (seg (r_first s) (r_end s) (right_sorted_data s)) \<and>
     all_keys (\<lambda>k'. k' \<noteq> k) (drop (r_end s) (right_sorted_data s))"

definition smj_data :: "bool list \<Rightarrow> SortMergeJoin \<Rightarrow> bool" where
  "smj_data ascs s \<longleftrightarrow> key_sorted ascs (left_sorted_data s) \<and> key_sorted ascs (right_sorted_data s) \<and>
     map snd (smj_left_expr s) = ascs"

definition smj_inv :: "bool list \<Rightarrow> SortMergeJoin \<Rightarrow> bool" where
  "smj_inv ascs s \<longleftrightarrow> smj_data ascs s \<and> l_end s \<le> length (left_sorted_data s) \<and> r_end s \<le> length (right_sorted_data s) \<and>
     (smj_match s \<longrightarrow> (\<exists>k. in_run s k))"

definition smj_rem :: "SortMergeJoin \<Rightarrow> Tuple list" where
  "smj_rem s = (if smj_match s
     then map (\<lambda>r. merge_tuples (snd (left_sorted_data s ! l_cursor s)) (snd r)) (seg (r_cursor s) (r_end s) (right_sorted_data s)) @
       kp (drop (Suc (l_cursor s)) (left_sorted_data s)) (drop (r_first s) (right_sorted_data s))
     else kp (drop (l_end s) (left_sorted_data s)) (drop (r_end s) (right_sorted_data s)))"

text \<open>Everything but the cursors.\<close>

definition same_data :: "SortMergeJoin \<Rightarrow> SortMergeJoin \<Rightarrow> bool" where
  "same_data s s' \<longleftrightarrow> left_sorted_data s' = left_sorted_data s \<and> right_sorted_data s' = right_sorted_data s \<and>
     smj_left_expr s' = smj_left_expr s \<and> smj_open s' = smj_open s \<and> smj_will_rewind s' = smj_will_rewind s"

lemma in_run_nth:
  assumes "all_keys p (seg f e d)" "f \<le> i" "i < e" "e \<le> length d"
  shows "p (fst (d ! i))"
proof -
  have "d ! i = seg f e d ! (i - f)" "i - f < length (seg f e d)" using assms by (simp_all add: seg_def)
  with assms(1) show ?thesis by (simp add: all_keys_def list_all_length)
qed

text \<open>Within a pair of runs the rest of the output starts with the pairs of the current left tuple.\<close>

lemma kp_run:
  assumes "in_run s k" "l_first s \<le> i" "i < l_end s" "l_end s \<le> length (left_sorted_data s)" "r_first s \<le> r_end s"
  shows "kp (drop i (left_sorted_data s)) (drop (r_first s) (right_sorted_data s)) =
    map (\<lambda>r. merge_tuples (snd (left_sorted_data s ! i)) (snd r)) (seg (r_first s) (r_end s) (right_sorted_data s)) @
    kp (drop (Suc i) (left_sorted_data s)) (drop (r_first s) (right_sorted_data s))"
proof -
  have k: "fst (left_sorted_data s ! i) = k" using in_run_nth [of "\<lambda>k'. k' = k"] assms by (auto simp: in_run_def)
  have "filter (\<lambda>r. fst r = k) (drop (r_first s) (right_sorted_data s)) = seg (r_first s) (r_end s) (right_sorted_data s)"
    using assms(1) by (simp add: drop_seg [OF assms(5)] in_run_def filter_run filter_absent)
  moreover have "drop i (left_sorted_data s) = left_sorted_data s ! i # drop (Suc i) (left_sorted_data s)"
    using assms by (simp add: Cons_nth_drop_Suc)
  ultimately show ?thesis using k by simp
qed

lemma kp_after_run:
  assumes "in_run s k" "r_first s \<le> r_end s"
  shows "kp (drop (l_end s) (left_sorted_data s)) (drop (r_first s) (right_sorted_data s)) =
    kp (drop (l_end s) (left_sorted_data s)) (drop (r_end s) (right_sorted_data s))"
  using assms kp_skip_run [of k] by (simp add: drop_seg [OF assms(2)] in_run_def)

lemma smj_emit_law:
  assumes "smj_inv ascs s" "smj_match s"
  shows "\<exists>s' t. smj_emit s = Some (s', t) \<and> smj_rem s = t # smj_rem s' \<and> smj_inv ascs s' \<and> same_data s s'"
proof -
  obtain k where k: "in_run s k" using assms by (auto simp: smj_inv_def)
  have m: "l_first s \<le> l_cursor s" "l_cursor s < l_end s" "r_first s \<le> r_cursor s" "r_cursor s < r_end s"
    "l_end s \<le> length (left_sorted_data s)" "r_end s \<le> length (right_sorted_data s)" "smj_data ascs s"
    using assms by (simp_all add: smj_match_def smj_inv_def)
  let ?t = "merge_tuples (snd (left_sorted_data s ! l_cursor s)) (snd (right_sorted_data s ! r_cursor s))"
  have sg: "seg (r_cursor s) (r_end s) (right_sorted_data s) =
      right_sorted_data s ! r_cursor s # seg (Suc (r_cursor s)) (r_end s) (right_sorted_data s)"
    using m by (intro seg_Cons) simp_all
  have ix: "index (left_sorted_data s) (l_cursor s) = Some (left_sorted_data s ! l_cursor s)"
    "index (right_sorted_data s) (r_cursor s) = Some (right_sorted_data s ! r_cursor s)"
    using m by (simp_all add: index_def)
  show ?thesis
  proof (cases "r_cursor s + 1 = r_end s")
    case False
    let ?s = "s\<lparr>r_cursor := r_cursor s + 1\<rparr>"
    have "smj_match ?s" using m False by (simp add: smj_match_def)
    moreover have "smj_emit s = Some (?s, ?t)" using ix False by (simp add: smj_emit_def)
    moreover have "in_run ?s k" using k by (simp add: in_run_def)
    ultimately show ?thesis using assms m sg
      by (auto simp: smj_rem_def smj_inv_def smj_data_def same_data_def)
  next
    case True
    let ?s = "s\<lparr>r_cursor := r_first s, l_cursor := l_cursor s + 1\<rparr>"
    have em: "smj_emit s = Some (?s, ?t)" using ix True by (simp add: smj_emit_def)
    have run: "in_run ?s k" using k by (simp add: in_run_def)
    have "seg (Suc (r_cursor s)) (r_end s) (right_sorted_data s) = []" using True by (simp add: seg_def)
    then have rem: "smj_rem s = ?t # kp (drop (Suc (l_cursor s)) (left_sorted_data s)) (drop (r_first s) (right_sorted_data s))"
      using assms(2) sg by (simp add: smj_rem_def)
    have "smj_rem ?s = kp (drop (Suc (l_cursor s)) (left_sorted_data s)) (drop (r_first s) (right_sorted_data s))"
    proof (cases "Suc (l_cursor s) < l_end s")
      case True
      with m have "smj_match ?s" by (simp add: smj_match_def)
      then show ?thesis using kp_run [OF k, of "Suc (l_cursor s)"] True m by (simp add: smj_rem_def)
    next
      case False
      with m have e: "Suc (l_cursor s) = l_end s" by simp
      with m have "\<not> smj_match ?s" by (simp add: smj_match_def)
      then show ?thesis using kp_after_run [OF k] m e by (simp add: smj_rem_def)
    qed
    with em rem run m show ?thesis by (auto simp: smj_inv_def smj_data_def same_data_def)
  qed
qed

text \<open>The search moves over tuples without a partner and stops at the next pair of runs.\<close>

definition seek_ok :: "bool list \<Rightarrow> SortMergeJoin \<Rightarrow> Tuple list \<Rightarrow> SortMergeJoin \<Rightarrow> bool" where
  "seek_ok ascs s out s' \<longleftrightarrow> same_data s s' \<and> smj_inv ascs s' \<and>
    (if l_first s' = length (left_sorted_data s') \<or> r_first s' = length (right_sorted_data s')
     then out = [] \<and> l_end s' = l_end s \<and> r_end s' = r_end s \<and> \<not> smj_match s'
     else smj_match s' \<and> smj_rem s' = out)"

definition seek_from :: "bool list \<Rightarrow> SortMergeJoin \<Rightarrow> Tuple list \<Rightarrow> bool" where
  "seek_from ascs s out \<longleftrightarrow> smj_data ascs s \<and> l_first s \<le> length (left_sorted_data s) \<and>
    r_first s \<le> length (right_sorted_data s) \<and> l_cursor s = l_end s \<and> l_end s \<le> length (left_sorted_data s) \<and>
    r_end s \<le> length (right_sorted_data s) \<and>
    out = kp (drop (l_first s) (left_sorted_data s)) (drop (r_first s) (right_sorted_data s))"

lemma seek_heads:
  assumes "seek_from ascs s out" "l_first s < length (left_sorted_data s)" "r_first s < length (right_sorted_data s)"
  obtains l ls r rs where "drop (l_first s) (left_sorted_data s) = l # ls" "drop (r_first s) (right_sorted_data s) = r # rs"
    "left_sorted_data s ! l_first s = l" "right_sorted_data s ! r_first s = r"
    "drop (Suc (l_first s)) (left_sorted_data s) = ls" "drop (Suc (r_first s)) (right_sorted_data s) = rs"
    "key_sorted ascs (l # ls)" "key_sorted ascs (r # rs)" "length (fst l) = length ascs" "length (fst r) = length ascs"
proof -
  let ?l = "left_sorted_data s ! l_first s" and ?r = "right_sorted_data s ! r_first s"
  have d: "drop (l_first s) (left_sorted_data s) = ?l # drop (Suc (l_first s)) (left_sorted_data s)"
    "drop (r_first s) (right_sorted_data s) = ?r # drop (Suc (r_first s)) (right_sorted_data s)"
    using assms by (simp_all add: Cons_nth_drop_Suc)
  have k: "key_sorted ascs (drop (l_first s) (left_sorted_data s))" "key_sorted ascs (drop (r_first s) (right_sorted_data s))"
    using assms(1) by (simp_all add: seek_from_def smj_data_def key_sorted_drop)
  show ?thesis using that [OF d refl refl refl refl] k d by (simp add: key_sorted_Cons)
qed

lemma seek_less:
  assumes "seek_from ascs s out" "l_first s < length (left_sorted_data s)" "r_first s < length (right_sorted_data s)"
    and "compare_keys (fst (left_sorted_data s ! l_first s)) (fst (right_sorted_data s ! r_first s)) ascs = Some Less"
  shows "seek_from ascs (s\<lparr>l_first := l_first s + 1\<rparr>) out"
  using assms(1,2,3)
proof (rule seek_heads)
  fix l ls r rs
  assume h: "drop (l_first s) (left_sorted_data s) = l # ls" "drop (r_first s) (right_sorted_data s) = r # rs"
    "left_sorted_data s ! l_first s = l" "right_sorted_data s ! r_first s = r"
    "drop (Suc (l_first s)) (left_sorted_data s) = ls" "key_sorted ascs (r # rs)" "length (fst l) = length ascs"
  with assms(4) have "kp (l # ls) (r # rs) = kp ls (r # rs)" by (intro kp_skip_left below_absent) simp_all
  with h assms(1,2) show ?thesis by (simp add: seek_from_def smj_data_def del: kp_simps)
qed

lemma seek_greater:
  assumes "seek_from ascs s out" "l_first s < length (left_sorted_data s)" "r_first s < length (right_sorted_data s)"
    and "compare_keys (fst (left_sorted_data s ! l_first s)) (fst (right_sorted_data s ! r_first s)) ascs = Some Greater"
  shows "seek_from ascs (s\<lparr>r_first := r_first s + 1\<rparr>) out"
  using assms(1,2,3)
proof (rule seek_heads)
  fix l ls r rs
  assume h: "drop (l_first s) (left_sorted_data s) = l # ls" "drop (r_first s) (right_sorted_data s) = r # rs"
    "left_sorted_data s ! l_first s = l" "right_sorted_data s ! r_first s = r"
    "drop (Suc (r_first s)) (right_sorted_data s) = rs" "key_sorted ascs (l # ls)" "length (fst r) = length ascs"
  with assms(4) have "kp (l # ls) (r # rs) = kp (l # ls) rs"
    by (intro kp_skip_right below_absent) (simp_all add: compare_keys_flip [of "fst r"])
  with h assms(1,3) show ?thesis by (simp add: seek_from_def smj_data_def del: kp_simps)
qed

lemma key_le_refl: "length k = length ascs \<Longrightarrow> key_le ascs k k"
  using key_le_total by blast

lemma seek_equal:
  assumes "seek_from ascs s out" "l_first s < length (left_sorted_data s)" "r_first s < length (right_sorted_data s)"
    and "compare_keys (fst (left_sorted_data s ! l_first s)) (fst (right_sorted_data s ! r_first s)) ascs = Some Equal"
  shows "\<exists>s'. smj_seek s = Some s' \<and> seek_ok ascs s out s'"
  using assms(1,2,3)
proof (rule seek_heads)
  fix l ls r rs
  assume h: "drop (l_first s) (left_sorted_data s) = l # ls" "drop (r_first s) (right_sorted_data s) = r # rs"
    "left_sorted_data s ! l_first s = l" "right_sorted_data s ! r_first s = r"
    "key_sorted ascs (l # ls)" "key_sorted ascs (r # rs)" "length (fst l) = length ascs" "length (fst r) = length ascs"
  have rl: "fst r = fst l" using assms(4) h compare_keys_Equal [of "fst l" ascs "fst r"] by simp
  obtain le where le: "run_end (fst l) (left_sorted_data s) ascs (l_first s) = Some le" "l_first s \<le> le"
    "le \<le> length (left_sorted_data s)" "all_keys (\<lambda>k. k = fst l) (seg (l_first s) le (left_sorted_data s))"
    "all_keys (\<lambda>k. k \<noteq> fst l) (drop le (left_sorted_data s))"
    using run_end_law [of "l_first s" "left_sorted_data s" ascs "fst l"] h assms(2) by (auto simp: key_sorted_Cons key_le_refl)
  obtain re where re: "run_end (fst l) (right_sorted_data s) ascs (r_first s) = Some re" "r_first s \<le> re"
    "re \<le> length (right_sorted_data s)" "all_keys (\<lambda>k. k = fst l) (seg (r_first s) re (right_sorted_data s))"
    "all_keys (\<lambda>k. k \<noteq> fst l) (drop re (right_sorted_data s))"
    using run_end_law [of "r_first s" "right_sorted_data s" ascs "fst l"] h rl assms(3) by (auto simp: key_sorted_Cons key_le_refl)
  let ?s = "s\<lparr>l_end := le, r_end := re, l_cursor := l_first s, r_cursor := r_first s\<rparr>"
  have "le \<noteq> l_first s" using le(5) h(1) by auto
  moreover have "re \<noteq> r_first s" using re(5) h(2) rl by auto
  ultimately have m: "smj_match ?s" using le re by (simp add: smj_match_def)
  have run: "in_run ?s (fst l)" using le re by (simp add: in_run_def)
  have "smj_rem ?s = out" using kp_run [OF run, of "l_first s"] m assms(1) le re by (simp add: smj_rem_def seek_from_def smj_match_def)
  moreover have "smj_seek s = Some ?s" using assms h le(1) re(1) rl
    by (subst smj_seek.simps) (simp add: seek_from_def smj_data_def)
  ultimately show ?thesis using m run assms(1,2,3) le re
    by (auto simp: seek_ok_def same_data_def smj_inv_def seek_from_def smj_data_def)
qed

lemma seek_ok_frame [simp]:
  "seek_ok ascs (s\<lparr>l_first := i\<rparr>) out s' = seek_ok ascs s out s'"
  "seek_ok ascs (s\<lparr>r_first := i\<rparr>) out s' = seek_ok ascs s out s'"
  by (simp_all add: seek_ok_def same_data_def)

lemma smj_seek_law: "seek_from ascs s out \<Longrightarrow> \<exists>s'. smj_seek s = Some s' \<and> seek_ok ascs s out s'"
proof (induction s rule: smj_seek.induct)
  case (1 s)
  show ?case
  proof (cases "l_first s < length (left_sorted_data s) \<and> r_first s < length (right_sorted_data s)")
    case False
    with "1.prems" have "smj_seek s = Some s" "out = []" "\<not> smj_match s" "l_first s = length (left_sorted_data s) \<or> r_first s = length (right_sorted_data s)"
      by (auto simp: smj_seek.simps seek_from_def smj_match_def)
    with "1.prems" show ?thesis by (simp add: same_data_def smj_inv_def seek_ok_def seek_from_def)
  next
    case True
    let ?lk = "fst (left_sorted_data s ! l_first s)" and ?rk = "fst (right_sorted_data s ! r_first s)"
    have a: "map snd (smj_left_expr s) = ascs" using "1.prems" by (simp add: seek_from_def smj_data_def)
    obtain c where c: "compare_keys ?lk ?rk ascs = Some c"
      using "1.prems" True key_sorted_len compare_keys_defined [of ?lk ascs ?rk] by (auto simp: seek_from_def smj_data_def)
    show ?thesis
    proof (cases c)
      case Less
      have "smj_seek s = smj_seek (s\<lparr>l_first := l_first s + 1\<rparr>)" using True c Less a by (subst smj_seek.simps) simp
      then show ?thesis using "1.IH"(1) [OF True refl refl refl, of c] c Less a seek_less [OF "1.prems"] True
        by (simp del: add_Suc_right One_nat_def)
    next
      case Greater
      have "smj_seek s = smj_seek (s\<lparr>r_first := r_first s + 1\<rparr>)" using True c Greater a by (subst smj_seek.simps) simp
      then show ?thesis using "1.IH"(2) [OF True refl refl refl, of c] c Greater a seek_greater [OF "1.prems"] True
        by (simp del: add_Suc_right One_nat_def)
    next
      case Equal
      then show ?thesis using seek_equal [OF "1.prems"] True c by blast
    qed
  qed
qed

lemma smj_leave_law:
  assumes "smj_inv ascs s" "\<not> smj_match s"
  shows "\<exists>s'. smj_leave s = Some s' \<and> seek_from ascs s' (smj_rem s) \<and> smj_open s' = smj_open s \<and>
    smj_will_rewind s' = smj_will_rewind s \<and> (smj_will_rewind s \<longrightarrow> same_data s s') \<and> smj_left_expr s' = smj_left_expr s \<and>
    drop (l_end s') (left_sorted_data s') = drop (l_end s) (left_sorted_data s) \<and>
    drop (r_end s') (right_sorted_data s') = drop (r_end s) (right_sorted_data s)"
  using assms by (auto simp: smj_leave_def Let_def smj_inv_def seek_from_def smj_rem_def same_data_def smj_data_def key_sorted_drop)

definition smj_opened :: "(ByteCodeExpr \<times> bool) list \<Rightarrow> (Field list \<times> Tuple) list \<Rightarrow> (Field list \<times> Tuple) list \<Rightarrow>
    bool \<Rightarrow> SortMergeJoin \<Rightarrow> bool" where
  "smj_opened le ld rd rw s \<longleftrightarrow> smj_inv (map snd le) s \<and> smj_open s \<and> smj_will_rewind s = rw \<and> smj_left_expr s = le \<and>
     (rw \<longrightarrow> left_sorted_data s = ld \<and> right_sorted_data s = rd)"

lemma smj_loop_match:
  assumes "smj_opened le ld rd rw s" "smj_match s"
  shows "\<exists>s'. smj_loop s = Some (s', case smj_rem s of [] \<Rightarrow> None | t # _ \<Rightarrow> Some t) \<and>
    smj_opened le ld rd rw s' \<and> smj_rem s' = tl (smj_rem s)"
proof -
  obtain s' t where "smj_emit s = Some (s', t)" "smj_rem s = t # smj_rem s'" "smj_inv (map snd le) s'" "same_data s s'"
    using smj_emit_law [of "map snd le" s] assms by (auto simp: smj_opened_def)
  with assms show ?thesis by (subst smj_loop.simps) (simp add: smj_opened_def same_data_def)
qed

lemma smj_loop_law:
  assumes "smj_opened le ld rd rw s"
  shows "\<exists>s'. smj_loop s = Some (s', case smj_rem s of [] \<Rightarrow> None | t # _ \<Rightarrow> Some t) \<and>
    smj_opened le ld rd rw s' \<and> smj_rem s' = tl (smj_rem s)"
proof (cases "smj_match s")
  case True
  with assms show ?thesis by (rule smj_loop_match)
next
  case False
  have inv: "smj_inv (map snd le) s" using assms by (simp add: smj_opened_def)
  obtain s1 where s1: "smj_leave s = Some s1" "seek_from (map snd le) s1 (smj_rem s)" "smj_open s1 = smj_open s"
    "smj_will_rewind s1 = smj_will_rewind s" "smj_will_rewind s \<longrightarrow> same_data s s1" "smj_left_expr s1 = smj_left_expr s"
    "drop (l_end s1) (left_sorted_data s1) = drop (l_end s) (left_sorted_data s)"
    "drop (r_end s1) (right_sorted_data s1) = drop (r_end s) (right_sorted_data s)"
    using smj_leave_law [OF inv False] by blast
  obtain s2 where s2: "smj_seek s1 = Some s2" "seek_ok (map snd le) s1 (smj_rem s) s2" using smj_seek_law [OF s1(2)] by blast
  have o2: "smj_opened le ld rd rw s2" using assms s1 s2(2) by (auto simp: smj_opened_def seek_ok_def same_data_def)
  show ?thesis
  proof (cases "l_first s2 = length (left_sorted_data s2) \<or> r_first s2 = length (right_sorted_data s2)")
    case True
    then have "smj_loop s = Some (s2, None)" using False s1(1) s2(1) by (subst smj_loop.simps) simp
    moreover have "smj_rem s = []" "smj_rem s2 = smj_rem s" using True False s1 s2(2)
      by (auto simp: seek_ok_def smj_rem_def same_data_def)
    ultimately show ?thesis using o2 by simp
  next
    case more: False
    then have "smj_loop s = smj_loop s2" using False s1(1) s2(1) by (subst smj_loop.simps) simp
    moreover have "smj_match s2" "smj_rem s2 = smj_rem s" using more s2(2) by (auto simp: seek_ok_def)
    ultimately show ?thesis using smj_loop_match [OF o2] by simp
  qed
qed

section \<open>The operator\<close>

lemma merge_ops_sel [simp]:
  "op_configure (merge_ops L R) = smj_configure L R" "op_open (merge_ops L R) = smj_open_op L R"
  "op_next (merge_ops L R) = smj_next L R" "op_close (merge_ops L R) = smj_close L R"
  "op_rewind (merge_ops L R) = smj_rewind L R" "op_schema (merge_ops L R) = (\<lambda>(s, l, r). smj_schema s)"
  by (simp_all add: merge_ops_def)

definition merge_side :: "(ByteCodeExpr \<times> bool) list \<Rightarrow> Tuple list \<Rightarrow> (Field list \<times> Tuple) list" where
  "merge_side es ts = key_sort (map snd es) (with_keys (map fst es) ts)"

lemma merge_side_sorted: "key_sorted (map snd es) (merge_side es ts)"
  by (simp add: merge_side_def key_sort_sorted with_keys_length)

definition smj_unread :: "(ByteCodeExpr \<times> bool) list \<Rightarrow> (ByteCodeExpr \<times> bool) list \<Rightarrow> SortMergeJoin \<Rightarrow> bool" where
  "smj_unread le re s \<longleftrightarrow> smj_left_expr s = le \<and> smj_right_expr s = re \<and> \<not> smj_open s \<and> \<not> left_child_read s \<and>
     \<not> right_child_read s \<and> left_sorted_data s = [] \<and> right_sorted_data s = [] \<and>
     l_first s = 0 \<and> r_first s = 0 \<and> l_end s = 0 \<and> r_end s = 0 \<and> l_cursor s = 0 \<and> r_cursor s = 0"

context join_children
begin

lemma smj_read_left_law:
  assumes "evaluable (map fst (smj_left_expr s)) rowsL" "\<not> left_child_read s" "left_sorted_data s = []" "clL False l" "W w"
  shows "\<exists>l' w'. smj_read_left L ((s, l, r), w) =
    Some (((s\<lparr>left_child_read := True, left_sorted_data := merge_side (smj_left_expr s) rowsL\<rparr>, l', r), w'), Inr ()) \<and> W w'"
proof -
  let ?es = "map fst (smj_left_expr s)"
  obtain l1 w1 where x1: "op_open L (l, w) = Some ((l1, w1), Inr ())" "opL False l1" "W w1" "rmL l1 = rowsL"
    using left_open [OF assms(4,5)] by blast
  obtain l2 w2 where x2: "for_each L (keyed ?es) [] (l1, w1) = Some ((with_keys ?es rowsL, l2, w2), Inr ())" "opL False l2" "W w2"
    using left.for_each_law [of False "(l1, w1)" "keyed ?es" "[]" "with_keys ?es rowsL"] x1 keyed_law [OF assms(1), of "[]"] by auto
  obtain l3 w3 where "op_close L (l2, w2) = Some ((l3, w3), Inr ())" "W w3" using left_close [of False l2 w2] x2 by blast
  with x1 x2 assms show ?thesis by (simp add: smj_read_left_def sort_keyed_def merge_side_def key_sort_def)
qed

lemma smj_read_right_law:
  assumes "evaluable (map fst (smj_right_expr s)) rowsR" "\<not> right_child_read s" "right_sorted_data s = []" "clR False r" "W w"
  shows "\<exists>r' w'. smj_read_right R ((s, l, r), w) =
    Some (((s\<lparr>right_child_read := True, right_sorted_data := merge_side (smj_right_expr s) rowsR\<rparr>, l, r'), w'), Inr ()) \<and> W w'"
proof -
  let ?es = "map fst (smj_right_expr s)"
  obtain l1 w1 where x1: "op_open R (r, w) = Some ((l1, w1), Inr ())" "opR False l1" "W w1" "rmR l1 = rowsR"
    using right_open [OF assms(4,5)] by blast
  obtain l2 w2 where x2: "for_each R (keyed ?es) [] (l1, w1) = Some ((with_keys ?es rowsR, l2, w2), Inr ())" "opR False l2" "W w2"
    using right.for_each_law [of False "(l1, w1)" "keyed ?es" "[]" "with_keys ?es rowsR"] x1 keyed_law [OF assms(1), of "[]"] by auto
  obtain l3 w3 where "op_close R (l2, w2) = Some ((l3, w3), Inr ())" "W w3" using right_close [of False l2 w2] x2 by blast
  with x1 x2 assms show ?thesis by (simp add: smj_read_right_def sort_keyed_def merge_side_def key_sort_def)
qed

lemma merge_iterator:
  assumes "evaluable (map fst le) rowsL" "evaluable (map fst re) rowsR" "map snd re = map snd le"
  shows "op_iterator (merge_ops L R)
     (\<lambda>((s, l, r), w). (smj_unread le re s \<and> frL l \<and> frR r) \<and> W w)
     (\<lambda>rw ((s, l, r), w). (smj_unread le re s \<and> smj_will_rewind s = rw \<and> clL False l \<and> clR False r) \<and> W w)
     (\<lambda>rw ((s, l, r), w). smj_opened le (merge_side le rowsL) (merge_side re rowsR) rw s \<and> W w)
     (\<lambda>((s, l, r), w). True \<and> W w) (kp (merge_side le rowsL) (merge_side re rowsR)) (\<lambda>((s, l, r), w). smj_rem s)"
proof (unfold_locales, goal_cases)
  case (1 s w rw)
  then show ?case using left.configure_law [of _ w] right.configure_law [of _ w]
    by (auto simp: smj_configure_def smj_unread_def split: prod.splits)
next
  case (2 rw x)
  obtain s l r w where x: "x = ((s, l, r), w)" by (cases x) auto
  let ?s = "s\<lparr>left_child_read := True, left_sorted_data := merge_side le rowsL\<rparr>"
  let ?t = "?s\<lparr>right_child_read := True, right_sorted_data := merge_side re rowsR\<rparr>"
  have u: "smj_unread le re s" "smj_left_expr s = le" "smj_right_expr s = re" "\<not> left_child_read s" "\<not> right_child_read s"
    "left_sorted_data s = []" "right_sorted_data s = []" "\<not> smj_open s" "clL False l" "clR False r" "W w" "smj_will_rewind s = rw"
    using 2 by (simp_all add: x smj_unread_def)
  have "evaluable (map fst (smj_left_expr s)) rowsL" using assms(1) u by simp
  from smj_read_left_law [OF this u(4,6,9,11), of r] obtain l1 w1 where
    l1: "smj_read_left L ((s, l, r), w) = Some (((?s, l1, r), w1), Inr ())" "W w1" unfolding u(2) by blast
  have "evaluable (map fst (smj_right_expr ?s)) rowsR" "\<not> right_child_read ?s" "right_sorted_data ?s = []"
    using assms(2) u by simp_all
  from smj_read_right_law [OF this u(10) l1(2), of l1] obtain r2 w2 where
    r2: "smj_read_right R ((?s, l1, r), w1) = Some (((?t, l1, r2), w2), Inr ())" "W w2" using u(3) by auto
  have "op_open (merge_ops L R) x = Some (((?t\<lparr>smj_open := True\<rparr>, l1, r2), w2), Inr ())"
    using l1(1) r2(1) u by (simp add: x smj_open_op_def)
  moreover have "smj_opened le (merge_side le rowsL) (merge_side re rowsR) rw (?t\<lparr>smj_open := True\<rparr>)"
    using u merge_side_sorted [of le rowsL] merge_side_sorted [of re rowsR] assms(3)
    by (simp add: smj_opened_def smj_inv_def smj_data_def smj_match_def smj_unread_def)
  moreover have "smj_rem (?t\<lparr>smj_open := True\<rparr>) = kp (merge_side le rowsL) (merge_side re rowsR)"
    using u(1) by (simp add: smj_rem_def smj_match_def smj_unread_def)
  ultimately show ?case using r2(2) by simp
next
  case (3 rw x)
  then show ?case by (auto simp: smj_open_op_def smj_opened_def split: prod.splits)
next
  case (4 rw x)
  obtain s l r w where x: "x = ((s, l, r), w)" by (cases x) auto
  with 4 have o: "smj_opened le (merge_side le rowsL) (merge_side re rowsR) rw s" "W w" "smj_open s"
    by (simp_all add: smj_opened_def)
  show ?case using smj_loop_law [OF o(1)] o(2,3) by (auto simp: x smj_next_def)
next
  case (5 x)
  obtain s l r w where x: "x = ((s, l, r), w)" by (cases x) auto
  with 5 merge_side_sorted [of le rowsL] merge_side_sorted [of re rowsR] assms(3) show ?case
    by (simp add: smj_rewind_def smj_opened_def smj_inv_def smj_data_def smj_match_def smj_rem_def)
next
  case (6 rw x)
  then show ?case by (auto simp: smj_close_def split: prod.splits)
qed

end

end
