(* ===== verification/AggLaws.thy ===== *)
theory AggLaws
  imports MergeLaws
begin

text \<open>
  Aggregation keeps the iterator contract: one row per group, in ascending order of the group keys, with the
  values folded over the rows of the group in the order in which they arrive.
\<close>

section \<open>Groups\<close>

lemma foldM_append: "foldM f a (xs @ ys) = Option.bind (foldM f a xs) (\<lambda>b. foldM f b ys)"
  by (induction xs arbitrary: a) (auto split: option.splits)

definition group_of :: "ByteCodeExpr list \<Rightarrow> Tuple list \<Rightarrow> Field list \<Rightarrow> Tuple list" where
  "group_of gs ts k = filter (\<lambda>t. key_of gs t = k) ts"

primrec group_acc :: "AggOp list \<Rightarrow> Field list list \<Rightarrow> Field list option" where
  "group_acc ops [] = None"
| "group_acc ops (v # vs) = foldM (\<lambda>as v. merge_all ops v as) (map init_val (zip ops v)) vs"

lemma group_acc_snoc:
  "vs \<noteq> [] \<Longrightarrow> group_acc ops (vs @ [v]) = Option.bind (group_acc ops vs) (merge_all ops v)"
  by (cases vs) (auto simp: foldM_append split: Option.bind_splits option.splits)

definition group_entry :: "AggOp list \<Rightarrow> ByteCodeExpr list \<Rightarrow> ByteCodeExpr list \<Rightarrow> Tuple list \<Rightarrow> Field list \<Rightarrow>
    (nat \<times> Field list) option" where
  "group_entry ops gs es ts k = map_option (Pair (length (group_of gs ts k))) (group_acc ops (map (key_of es) (group_of gs ts k)))"

definition agg_is :: "AggOp list \<Rightarrow> ByteCodeExpr list \<Rightarrow> ByteCodeExpr list \<Rightarrow> Aggregate \<Rightarrow> bool" where
  "agg_is ops gs es s \<longleftrightarrow> agg_ops s = ops \<and> groupby_expr s = gs \<and> agg_expr s = es"

text \<open>No group overflows or mixes types.\<close>

definition groups_ok :: "AggOp list \<Rightarrow> ByteCodeExpr list \<Rightarrow> ByteCodeExpr list \<Rightarrow> Tuple list \<Rightarrow> bool" where
  "groups_ok ops gs es ts \<longleftrightarrow> evaluable gs ts \<and> evaluable es ts \<and>
     list_all (\<lambda>t. group_acc ops (map (key_of es) (group_of gs ts (key_of gs t))) \<noteq> None) ts"

lemma group_snoc [simp]: "group_of gs (ts @ [t]) k = group_of gs ts k @ (if key_of gs t = k then [t] else [])"
  by (simp add: group_of_def)

lemma group_Nil_iff: "group_of gs ts k = [] \<longleftrightarrow> k \<notin> key_of gs ` set ts"
  by (auto simp: group_of_def filter_empty_conv)

lemma evaluable_append [simp]: "evaluable es (xs @ ys) \<longleftrightarrow> evaluable es xs \<and> evaluable es ys"
  by (simp add: evaluable_def)

lemma groups_ok_snoc:
  assumes "groups_ok ops gs es (ts @ [t])"
  shows "groups_ok ops gs es ts"
proof -
  have "group_acc ops (map (key_of es) (group_of gs ts (key_of gs u))) \<noteq> None" if u: "u \<in> set ts" for u
  proof -
    have "group_of gs ts (key_of gs u) \<noteq> []" using u by (simp add: group_Nil_iff)
    with assms u show ?thesis
      by (cases "key_of gs t = key_of gs u") (auto simp: groups_ok_def list_all_iff group_acc_snoc split: Option.bind_splits)
  qed
  with assms show ?thesis by (simp add: groups_ok_def list_all_iff)
qed

lemma evaluable_key_of: "evaluable es [t] \<Longrightarrow> eval_all es t = Some (key_of es t)"
  using eval_all_Some [of es t] by (auto simp: key_of_def)

lemma update_entry: "map_of (AList.update k v ac) = (map_of ac)(k \<mapsto> v)"
  by (simp add: update_conv')

text \<open>What \<open>merge_tuple_into_group\<close> has accumulated after the rows \<open>ts\<close>.\<close>

lemma merge_groups_law:
  assumes "agg_is ops gs es s" "groups_ok ops gs es ts"
  shows "\<exists>ac. foldM (merge_tuple_into_group s) [] ts = Some ac \<and> distinct (map fst ac) \<and>
    (\<forall>k. map_of ac k = group_entry ops gs es ts k)"
  using assms(2)
proof (induction ts rule: rev_induct)
  case Nil
  show ?case by (simp add: group_entry_def group_of_def)
next
  case (snoc t ts)
  obtain ac where ac: "foldM (merge_tuple_into_group s) [] ts = Some ac" "distinct (map fst ac)"
    "\<And>k. map_of ac k = group_entry ops gs es ts k" using snoc.IH groups_ok_snoc [OF snoc.prems] by blast
  let ?k = "key_of gs t" and ?v = "key_of es t"
  have ev: "eval_all gs t = Some ?k" "eval_all es t = Some ?v"
    using snoc.prems by (simp_all add: groups_ok_def evaluable_key_of)
  have s: "agg_ops s = ops" "groupby_expr s = gs" "agg_expr s = es" using assms(1) by (simp_all add: agg_is_def)
  obtain e where e: "group_entry ops gs es (ts @ [t]) ?k = Some e"
    using snoc.prems by (auto simp: groups_ok_def list_all_iff group_entry_def)
  have step: "merge_tuple_into_group s ac t = Some (AList.update ?k e ac)"
  proof (cases "group_of gs ts ?k")
    case Nil
    then have "map_of ac ?k = None" using ac(3) by (simp add: group_entry_def)
    with Nil e show ?thesis by (auto simp: merge_tuple_into_group_def ev s group_entry_def)
  next
    case (Cons u us)
    then have ne: "map (key_of es) (group_of gs ts ?k) \<noteq> []" by simp
    obtain as where as: "group_acc ops (map (key_of es) (group_of gs ts ?k)) = Some as"
      "e = (length (group_of gs ts ?k) + 1, the (merge_all ops ?v as))" "merge_all ops ?v as \<noteq> None"
      using e by (auto simp: group_entry_def group_acc_snoc [OF ne] split: Option.bind_splits)
    then have "map_of ac ?k = Some (length (group_of gs ts ?k), as)" using ac(3) by (simp add: group_entry_def)
    with as show ?thesis by (auto simp: merge_tuple_into_group_def ev s)
  qed
  have "map_of (AList.update ?k e ac) k = group_entry ops gs es (ts @ [t]) k" for k
    using ac(3) e by (simp add: update_entry) (simp add: group_entry_def)
  with step ac(1,2) show ?case by (simp add: foldM_append distinct_update)
qed

section \<open>The rows\<close>

definition agg_row :: "AggOp list \<Rightarrow> ByteCodeExpr list \<Rightarrow> ByteCodeExpr list \<Rightarrow> Tuple list \<Rightarrow> Field list \<Rightarrow> Tuple option" where
  "agg_row ops gs es ts k = do {
     (n, as) \<leftarrow> group_entry ops gs es ts k;
     vs \<leftarrow> final_all n (zip ops as);
     Some (Tuple_new (k @ vs)) }"

definition agg_rows :: "AggOp list \<Rightarrow> ByteCodeExpr list \<Rightarrow> ByteCodeExpr list \<Rightarrow> Tuple list \<Rightarrow> Tuple list" where
  "agg_rows ops gs es ts = map (\<lambda>k. the (agg_row ops gs es ts k)) (sorted_list_of_set (key_of gs ` set ts))"

definition agg_ok :: "AggOp list \<Rightarrow> ByteCodeExpr list \<Rightarrow> ByteCodeExpr list \<Rightarrow> Tuple list \<Rightarrow> bool" where
  "agg_ok ops gs es ts \<longleftrightarrow> evaluable gs ts \<and> evaluable es ts \<and>
     list_all (\<lambda>t. agg_row ops gs es ts (key_of gs t) \<noteq> None) ts"

lemma agg_ok_groups: "agg_ok ops gs es ts \<Longrightarrow> groups_ok ops gs es ts"
  by (auto simp: agg_ok_def groups_ok_def list_all_iff agg_row_def group_entry_def split: Option.bind_splits)

lemma final_tuples_law:
  assumes "\<And>k e. (k, e) \<in> set es \<Longrightarrow> f k = Option.bind (final_all (fst e) (zip ops (snd e))) (\<lambda>vs. Some (Tuple_new (k @ vs)))"
    and "\<And>k. k \<in> fst ` set es \<Longrightarrow> f k \<noteq> None"
  shows "final_tuples ops es = Some (map (the \<circ> f \<circ> fst) es)"
  using assms
proof (induction es)
  case (Cons x es)
  obtain k n as where x: "x = (k, n, as)" by (cases x) auto
  have "f k \<noteq> None" "f k = Option.bind (final_all n (zip ops as)) (\<lambda>vs. Some (Tuple_new (k @ vs)))"
    using Cons.prems(1) [of k "(n, as)"] Cons.prems(2) [of k] by (auto simp: x)
  moreover have "final_tuples ops es = Some (map (the \<circ> f \<circ> fst) es)" using Cons by simp
  ultimately show ?case by (auto simp: x split: Option.bind_splits)
qed simp

lemma agg_final_law:
  assumes "agg_ok ops gs es ts" "distinct (map fst ac)" "\<And>k. map_of ac k = group_entry ops gs es ts k"
  shows "final_tuples ops (sort_key fst ac) = Some (agg_rows ops gs es ts)"
proof -
  have dom: "fst ` set ac = key_of gs ` set ts"
  proof -
    have "k \<in> fst ` set ac \<longleftrightarrow> k \<in> key_of gs ` set ts" for k
    proof -
      have "k \<in> fst ` set ac \<longleftrightarrow> group_entry ops gs es ts k \<noteq> None" using assms(3) [of k] by (simp flip: dom_map_of_conv_image_fst add: dom_def)
      also have "\<dots> \<longleftrightarrow> group_of gs ts k \<noteq> []"
      proof
        assume "group_of gs ts k \<noteq> []"
        then have "k \<in> key_of gs ` set ts" by (simp add: group_Nil_iff)
        with assms(1) show "group_entry ops gs es ts k \<noteq> None"
          by (auto simp: agg_ok_def list_all_iff agg_row_def split: Option.bind_splits)
      qed (auto simp: group_entry_def)
      finally show ?thesis by (simp add: group_Nil_iff)
    qed
    then show ?thesis by blast
  qed
  have keys: "map fst (sort_key fst ac) = sorted_list_of_set (key_of gs ` set ts)"
    using assms(2) by (intro sorted_distinct_set_unique) (simp_all add: dom flip: dom)
  have "agg_row ops gs es ts k = Option.bind (final_all (fst e) (zip ops (snd e))) (\<lambda>vs. Some (Tuple_new (k @ vs)))"
    if "(k, e) \<in> set (sort_key fst ac)" for k e
    using that assms(2,3) map_of_is_SomeI [of ac k e] by (simp add: agg_row_def case_prod_beta)
  moreover have "agg_row ops gs es ts k \<noteq> None" if "k \<in> fst ` set (sort_key fst ac)" for k
    using that assms(1) dom by (auto simp: agg_ok_def list_all_iff)
  ultimately have "final_tuples ops (sort_key fst ac) = Some (map (the \<circ> agg_row ops gs es ts \<circ> fst) (sort_key fst ac))"
    by (rule final_tuples_law)
  also have "map (the \<circ> agg_row ops gs es ts \<circ> fst) (sort_key fst ac) = map (\<lambda>k. the (agg_row ops gs es ts k)) (map fst (sort_key fst ac))" by simp
  finally show ?thesis by (simp only: agg_rows_def keys)
qed

section \<open>The operator\<close>

lemma aggregate_ops_sel [simp]:
  "op_configure (aggregate_ops C) = agg_configure C" "op_open (aggregate_ops C) = agg_open_op C"
  "op_next (aggregate_ops C) = agg_next C" "op_close (aggregate_ops C) = agg_close C"
  "op_rewind (aggregate_ops C) = agg_rewind C" "op_schema (aggregate_ops C) = (\<lambda>(s, c). agg_schema s)"
  by (simp_all add: aggregate_ops_def)

definition agg_opened :: "Tuple list \<Rightarrow> bool \<Rightarrow> Aggregate \<Rightarrow> bool" where
  "agg_opened rows rw s \<longleftrightarrow> agg_open s \<and> agg_will_rewind s = rw \<and> acc_iter s = rows"

definition agg_rem :: "Aggregate \<Rightarrow> Tuple list" where
  "agg_rem s = drop (agg_index s) (acc_iter s)"

context op_iterator
begin

lemma aggregate_iterator:
  assumes "agg_ok aops gs es rows"
  shows "op_iterator (aggregate_ops ops)
    (\<lambda>((s, c), w). agg_is aops gs es s \<and> \<not> agg_open s \<and> acc s = [] \<and> acc_iter s = [] \<and> fresh (c, w))
    (\<lambda>rw ((s, c), w). agg_is aops gs es s \<and> \<not> agg_open s \<and> acc s = [] \<and> acc_iter s = [] \<and> agg_will_rewind s = rw \<and> closed False (c, w))
    (\<lambda>rw ((s, c), w). agg_opened (agg_rows aops gs es rows) rw s \<and> opened False (c, w))
    (\<lambda>((s, c), w). gone (c, w)) (agg_rows aops gs es rows) (\<lambda>((s, c), w). agg_rem s)"
proof (unfold_locales, goal_cases)
  case (1 s w rw)
  then show ?case by (auto simp: agg_configure_def agg_is_def configure_law split: prod.splits)
next
  case (2 rw x)
  obtain s c w where x: "x = ((s, c), w)" by (cases x) auto
  with 2 have st: "agg_is aops gs es s" "\<not> agg_open s" "acc s = []" "acc_iter s = []" "agg_will_rewind s = rw" "closed False (c, w)"
    by simp_all
  obtain ac where ac: "foldM (merge_tuple_into_group s) [] rows = Some ac" "distinct (map fst ac)"
    "\<And>k. map_of ac k = group_entry aops gs es rows k"
    using merge_groups_law [OF st(1) agg_ok_groups [OF assms]] by blast
  obtain x1 where x1: "op_open ops (c, w) = Some (x1, Inr ())" "opened False x1" "rem x1 = rows"
    using open_law [OF st(6)] by blast
  obtain x2 where x2: "for_each ops (merge_tuple_into_group s) [] x1 = Some ((ac, x2), Inr ())" "opened False x2"
    using for_each_law [OF x1(2), of "merge_tuple_into_group s" "[]" ac] x1(3) ac(1) by auto
  obtain c1 w1 c2 w2 where xs: "x1 = (c1, w1)" "x2 = (c2, w2)" by (metis surj_pair)
  from st x1 x2 agg_final_law [OF assms ac(2,3)] show ?case
    by (simp add: x xs agg_open_op_def agg_opened_def agg_rem_def agg_is_def)
next
  case (3 rw x)
  then show ?case by (auto simp: agg_open_op_def agg_opened_def split: prod.splits)
next
  case (4 rw x)
  obtain s c w where x: "x = ((s, c), w)" by (cases x) auto
  show ?case
  proof (cases "agg_index s < length (acc_iter s)")
    case True
    then have "drop (agg_index s) (acc_iter s) = acc_iter s ! agg_index s # drop (Suc (agg_index s)) (acc_iter s)"
      by (simp add: Cons_nth_drop_Suc)
    with True 4 x show ?thesis by (auto simp: agg_next_def agg_opened_def agg_rem_def)
  next
    case False
    with 4 x show ?thesis by (auto simp: agg_next_def agg_opened_def agg_rem_def)
  qed
next
  case (5 x)
  then show ?case by (auto simp: agg_rewind_def agg_opened_def agg_rem_def split: prod.splits)
next
  case (6 rw x)
  obtain s c w where x: "x = ((s, c), w)" by (cases x) auto
  with 6 close_law [of False "(c, w)"] show ?case by (auto simp: agg_close_def)
qed

end

section \<open>Columns\<close>

text \<open>What a column of the result promises about the column of values in the group.\<close>

fun is_big :: "Field \<Rightarrow> bool" where
  "is_big (FBigInt _) = True"
| "is_big _ = False"

fun big_val :: "Field \<Rightarrow> int" where
  "big_val (FBigInt v) = sint v"
| "big_val (FInt v) = sint v"
| "big_val (FSmallInt v) = sint v"
| "big_val _ = 0"

text \<open>The fields that \<open>Field::add\<close> adds, with the number they stand for and their decimal places.\<close>

fun is_num :: "Field \<Rightarrow> bool" where
  "is_num (FBigInt _) = True"
| "is_num (FDecimal _ _) = True"
| "is_num _ = False"

fun num_val :: "Field \<Rightarrow> rat" where
  "num_val (FBigInt v) = of_int (sint v)"
| "num_val (FDecimal w s) = of_int (sint w) / 10 ^ unat s"
| "num_val _ = 0"

fun num_scale :: "Field \<Rightarrow> nat" where
  "num_scale (FDecimal w s) = unat s"
| "num_scale _ = 0"

text \<open>The field that is the sum of a column: an integer when every value is one, else a decimal with the largest scale
  of the column.\<close>

definition is_sum :: "Field list \<Rightarrow> Field \<Rightarrow> bool" where
  "is_sum col v \<longleftrightarrow> list_all is_num col \<and> is_num v \<and> is_big v = list_all is_big col \<and>
     num_scale v = fold max (map num_scale col) 0 \<and> num_val v = sum_list (map num_val col)"

text \<open>A column of several values has a sum or an average only when its values are numbers, or integers; the sum of
  one value is that value.\<close>

definition column_ok :: "AggOp \<Rightarrow> Field list \<Rightarrow> Field \<Rightarrow> bool" where
  "column_ok op col v = (case op of
     Count \<Rightarrow> is_big v \<and> big_val v = int (length col)
   | AggOp.Max \<Rightarrow> v \<in> set col \<and> list_all (\<lambda>x. x \<le> v) col
   | AggOp.Min \<Rightarrow> v \<in> set col \<and> list_all (\<lambda>x. v \<le> x) col
   | Sum \<Rightarrow> (if length col = 1 then v = hd col else is_sum col v)
   | Avg \<Rightarrow> (if length col = 1 then avg_sum (hd col) \<noteq> None else list_all is_big col) \<and>
       v = f_decimal (f64_div (rnd (of_int (sum_list (map big_val col)))) (rnd (of_nat (length col)))))"

definition col_step :: "AggOp \<Rightarrow> Field \<Rightarrow> Field \<Rightarrow> Field option" where
  "col_step op a v = ok_field (merge_fields op v a)"

lemma col_step_simps:
  "col_step Count (FBigInt n) v = map_option FBigInt (i64_add n 1)"
  "col_step AggOp.Max a v = Some (max a v)" "col_step AggOp.Min a v = Some (min a v)"
  by (auto simp: col_step_def merge_fields_def ok_field_def split: option.splits Option.bind_splits)

lemma merge_all_nth:
  "merge_all ops vs as = Some bs \<Longrightarrow> length as = length ops \<Longrightarrow> length vs = length ops \<Longrightarrow>
   length bs = length ops \<and> (\<forall>j < length ops. col_step (ops ! j) (as ! j) (vs ! j) = Some (bs ! j))"
proof (induction ops vs as arbitrary: bs rule: merge_all.induct)
  case (2 op ops v vs a as)
  then obtain b bs' where b: "col_step op a v = Some b" "merge_all ops vs as = Some bs'" "bs = b # bs'"
    by (auto simp: col_step_def [of op] split: Option.bind_splits)
  with 2(1) [of _ bs'] 2(3,4) show ?case by (auto simp: nth_Cons col_step_def split: nat.splits)
qed auto

lemma fold_columns:
  assumes "foldM (\<lambda>as v. merge_all ops v as) as vss = Some bs" "length as = length ops" "\<And>v. v \<in> set vss \<Longrightarrow> length v = length ops"
    "j < length ops"
  shows "length bs = length ops \<and> foldM (col_step (ops ! j)) (as ! j) (map (\<lambda>v. v ! j) vss) = Some (bs ! j)"
  using assms
proof (induction vss arbitrary: as)
  case (Cons v vss)
  then obtain as' where as': "merge_all ops v as = Some as'" "foldM (\<lambda>as v. merge_all ops v as) as' vss = Some bs"
    by (auto split: option.splits)
  with merge_all_nth [OF as'(1)] Cons show ?case by simp
qed simp

lemma col_step_Count: "foldM (col_step Count) (FBigInt n) vs = Some r \<Longrightarrow> is_big r \<and> big_val r = sint n + int (length vs)"
proof (induction vs arbitrary: n)
  case (Cons v vs)
  then obtain m where "i64_add n 1 = Some m" "foldM (col_step Count) (FBigInt m) vs = Some r"
    by (auto simp: col_step_simps split: option.splits)
  with Cons.IH [of m] show ?case by (auto simp: i64_add_def dest!: sint_checked_int)
qed auto

lemma col_step_Max: "foldM (col_step AggOp.Max) a vs = Some r \<Longrightarrow> r \<in> set (a # vs) \<and> list_all (\<lambda>x. x \<le> r) (a # vs)"
proof (induction vs arbitrary: a)
  case (Cons v vs)
  then have "foldM (col_step AggOp.Max) (max a v) vs = Some r" by (simp add: col_step_simps(2) [of a v])
  from Cons.IH [OF this] show ?case by (auto simp: max_def split: if_splits)
qed simp

lemma col_step_Min: "foldM (col_step AggOp.Min) a vs = Some r \<Longrightarrow> r \<in> set (a # vs) \<and> list_all (\<lambda>x. r \<le> x) (a # vs)"
proof (induction vs arbitrary: a)
  case (Cons v vs)
  then have "foldM (col_step AggOp.Min) (min a v) vs = Some r" by (simp add: col_step_simps(3) [of a v])
  from Cons.IH [OF this] show ?case by (auto simp: min_def split: if_splits)
qed simp

lemma ten_pow_val: "ten_pow d = Some f \<Longrightarrow> sint f = 10 ^ unat d"
  by (simp add: ten_pow_def sint_checked_int)

lemma i64_add_val: "i64_add a b = Some c \<Longrightarrow> sint c = sint a + sint b"
  by (simp add: i64_add_def sint_checked_int)

lemma i64_mul_val: "i64_mul a b = Some c \<Longrightarrow> sint c = sint a * sint b"
  by (simp add: i64_mul_def sint_checked_int)

lemma rescale: "n \<le> m \<Longrightarrow> (x * 10 ^ (m - n)) / 10 ^ m = x / (10 ^ n :: rat)"
  by (simp add: power_diff)

text \<open>Addition adds the numbers, and is defined on nothing else.\<close>

lemma field_add_num:
  assumes "field_add a b = Some (Inr c)"
  shows "is_num a \<and> is_num b \<and> is_num c \<and> is_big c = (is_big a \<and> is_big b) \<and>
    num_scale c = max (num_scale a) (num_scale b) \<and> num_val c = num_val a + num_val b"
  using assms
proof (cases "(a, b)" rule: field_add.cases)
  case (2 x s y t)
  let ?r = "if s > t then s else t"
  obtain d f x' e g y' z where
    z: "checked_sub ?r s = Some d" "ten_pow d = Some f" "i64_mul x f = Some x'"
      "checked_sub ?r t = Some e" "ten_pow e = Some g" "i64_mul y g = Some y'"
      "i64_add x' y' = Some z" "c = FDecimal z ?r"
    using assms 2 by (auto simp: Let_def split: Option.bind_splits)
  have le: "unat s \<le> unat ?r" "unat t \<le> unat ?r" by (auto simp: word_less_nat_alt)
  have "sint z = sint x * 10 ^ (unat ?r - unat s) + sint y * 10 ^ (unat ?r - unat t)"
    using z by (simp only: i64_add_val i64_mul_val ten_pow_val checked_sub_unat)
  then have "num_val c = (of_int (sint x) * 10 ^ (unat ?r - unat s)) / 10 ^ unat ?r + (of_int (sint y) * 10 ^ (unat ?r - unat t)) / 10 ^ unat ?r"
    using z(8) by (simp add: add_divide_distrib)
  then have "num_val c = num_val a + num_val b" using 2 by (simp only: rescale le num_val.simps prod.inject)
  with 2 z(8) show ?thesis by (auto simp: word_less_nat_alt max_def)
qed (auto split: Option.bind_splits dest!: i64_add_val i64_mul_val ten_pow_val simp: add_divide_distrib)

lemma is_sum_snoc:
  assumes "is_sum col v" "field_add v x = Some (Inr r)"
  shows "is_sum (col @ [x]) r"
  using assms field_add_num [OF assms(2)] by (auto simp: is_sum_def max.commute)

lemma is_sum_single: "is_num v \<Longrightarrow> is_sum [v] v"
  by (simp add: is_sum_def)

lemma col_step_add: "op = Sum \<or> op = Avg \<Longrightarrow> col_step op a v = Some b \<longleftrightarrow> field_add a v = Some (Inr b)"
  by (auto simp: col_step_def merge_fields_def ok_field_def split: option.splits Option.bind_splits sum.splits)

lemma col_step_Sum:
  assumes "foldM (col_step op) a vs = Some r" "op = Sum \<or> op = Avg" "vs \<noteq> []"
  shows "is_sum (a # vs) r"
  using assms(1,3)
proof (induction vs arbitrary: r rule: rev_induct)
  case (snoc v vs)
  obtain b where b: "foldM (col_step op) a vs = Some b" "field_add b v = Some (Inr r)"
    using snoc.prems(1) by (auto simp: foldM_append col_step_add [OF assms(2)] split: Option.bind_splits option.splits)
  have "is_sum (a # vs) b"
  proof (cases "vs = []")
    case True
    with b field_add_num [OF b(2)] show ?thesis by (simp add: is_sum_single)
  qed (use snoc.IH b in simp)
  from is_sum_snoc [OF this b(2)] show ?case by simp
qed simp

lemma sum_of_bigs: "list_all is_big col \<Longrightarrow> sum_list (map num_val col) = of_int (sum_list (map big_val col))"
proof (induction col)
  case (Cons x col)
  then show ?case by (cases x) auto
qed simp

text \<open>An average is defined for integers only: a sum with a decimal in it is a decimal, which the final division
  refuses.\<close>

lemma average_law:
  assumes "foldM (col_step Avg) v vs = Some a" "avg_sum a = Some s"
  shows "(if vs = [] then avg_sum v \<noteq> None else list_all is_big (v # vs)) \<and> s = rnd (of_int (sum_list (map big_val (v # vs))))"
proof (cases "vs = []")
  case True
  have small: "\<bar>sint (i :: i32)\<bar> < 2 ^ 53" "\<bar>sint (j :: i16)\<bar> < 2 ^ 53" for i j
    using sint_range_size [of i] sint_range_size [of j] by (auto simp: word_size)
  from True assms show ?thesis by (cases v) (auto simp: f64_of_i64_def rnd_of_int [OF small(1)] rnd_of_int [OF small(2)] simp del: of_int_sint)
next
  case False
  have sum: "is_sum (v # vs) a" using col_step_Sum [OF assms(1) _ False] by simp
  then obtain n where n: "a = FBigInt n" using assms(2) by (cases a) (auto simp: is_sum_def)
  with sum have big: "list_all is_big (v # vs)" by (simp add: is_sum_def)
  with sum n have "of_int (sint n) = (of_int (sum_list (map big_val (v # vs))) :: rat)"
    unfolding is_sum_def by (simp only: sum_of_bigs num_val.simps)
  then have "sint n = sum_list (map big_val (v # vs))" by (simp only: of_int_eq_iff)
  with n assms(2) False big show ?thesis by (auto simp: f64_of_i64_def)
qed

lemma final_all_nth:
  "final_all n xs = Some vs \<Longrightarrow> length vs = length xs \<and> (\<forall>j < length xs. final_val n (xs ! j) = Some (vs ! j))"
proof (induction xs arbitrary: vs)
  case (Cons x xs)
  then show ?case by (auto simp: nth_Cons split: Option.bind_splits nat.splits)
qed simp

lemma column_law:
  assumes "foldM (col_step op) (init_val (op, v)) vs = Some a" "final_val (Suc (length vs)) (op, a) = Some r"
  shows "column_ok op (v # vs) r"
proof (cases op)
  case Avg
  then obtain s where s: "avg_sum a = Some s" "r = f_decimal (f64_div s (rnd (of_nat (Suc (length vs)))))"
    using assms(2) by (auto simp: final_val_def)
  show ?thesis using average_law [of v vs a s] assms(1) s Avg by (simp add: column_ok_def init_val_def split: if_splits)
next
  case Count
  then show ?thesis using assms col_step_Count [of 1 vs a] by (simp add: column_ok_def init_val_def final_val_def)
next
  case Max
  then show ?thesis using assms col_step_Max [of v vs a] by (simp add: column_ok_def init_val_def final_val_def)
next
  case Min
  then show ?thesis using assms col_step_Min [of v vs a] by (simp add: column_ok_def init_val_def final_val_def)
next
  case Sum
  then show ?thesis using assms col_step_Sum [of op v vs a] by (cases "vs = []") (simp_all add: column_ok_def init_val_def final_val_def)
qed

lemma agg_row_columns:
  assumes "agg_row ops gs es ts k = Some r" "length es = length ops"
  shows "\<exists>vs. field_vals r = k @ vs \<and> length vs = length ops \<and>
    (\<forall>j < length ops. column_ok (ops ! j) (map (\<lambda>t. key_of es t ! j) (group_of gs ts k)) (vs ! j))"
proof -
  obtain t us as vs where g: "group_of gs ts k = t # us"
    "foldM (\<lambda>as v. merge_all ops v as) (map init_val (zip ops (key_of es t))) (map (key_of es) us) = Some as"
    "final_all (Suc (length us)) (zip ops as) = Some vs" "r = Tuple_new (k @ vs)"
    using assms(1) by (cases "group_of gs ts k") (auto simp: agg_row_def group_entry_def split: Option.bind_splits)
  have l: "length v = length ops" if "v \<in> set (map (key_of es) us)" for v using that assms(2) by auto
  have col: "length as = length ops \<and> foldM (col_step (ops ! j)) (init_val (ops ! j, key_of es t ! j)) (map (\<lambda>t. key_of es t ! j) us) = Some (as ! j)"
    if "j < length ops" for j
    using fold_columns [OF g(2) _ l that] that assms(2) by (simp add: comp_def)
  have len: "ops = [] \<or> length as = length ops" using col by (cases ops) auto
  then have "length vs = length ops" using final_all_nth [OF g(3)] by auto
  moreover have "column_ok (ops ! j) (map (\<lambda>t. key_of es t ! j) (group_of gs ts k)) (vs ! j)" if j: "j < length ops" for j
  proof -
    have "final_val (Suc (length us)) (ops ! j, as ! j) = Some (vs ! j)" using final_all_nth [OF g(3)] j len by auto
    then show ?thesis using column_law [of "ops ! j" "key_of es t ! j" "map (\<lambda>t. key_of es t ! j) us" "as ! j" "vs ! j"] col [OF j] g(1) by simp
  qed
  ultimately show ?thesis using g(4) by (auto simp: Tuple_new_def)
qed

end
