(* ===== verification/ByteCodeProps.thy ===== *)
theory ByteCodeProps
  imports ByteCode
begin

text \<open>
  Compiled expressions compute what the expression means, and the rewritings of the query translator keep
  the meaning. The meaning of an expression is its value under an assignment of fields to columns; \<open>None\<close>
  when the evaluation panics or the expression is not one the engine evaluates.
\<close>

fun bin_eval :: "BinaryOp \<Rightarrow> Field \<Rightarrow> Field \<Rightarrow> Field option" where
  "bin_eval Add l r = ok_field (field_add l r)"
| "bin_eval Sub l r = ok_field (field_sub l r)"
| "bin_eval Mul l r = ok_field (field_mul l r)"
| "bin_eval Div l r = ok_field (field_div l r)"
| "bin_eval Eq l r = Some (FBool (l = r))"
| "bin_eval Neq l r = Some (FBool (l \<noteq> r))"
| "bin_eval Lt l r = Some (FBool (l < r))"
| "bin_eval Gt l r = Some (FBool (l > r))"
| "bin_eval Le l r = Some (FBool (l \<le> r))"
| "bin_eval Ge l r = Some (FBool (l \<ge> r))"
| "bin_eval And l r = field_and l r"
| "bin_eval Or l r = field_or l r"

primrec expr_eval :: "(ColumnId \<Rightarrow> Field option) \<Rightarrow> 'p Expression \<Rightarrow> Field option" where
  "expr_eval env (ColRef c) = env c"
| "expr_eval env (Lit v) = Some v"
| "expr_eval env (Binary op l r) = do { a \<leftarrow> expr_eval env l; b \<leftarrow> expr_eval env r; bin_eval op a b }"
| "expr_eval env (CaseExpr _ _ _) = None"
| "expr_eval env (Subquery _) = None"

primrec supported :: "'p Expression \<Rightarrow> bool" where
  "supported (ColRef _) = True"
| "supported (Lit _) = True"
| "supported (Binary _ l r) = (supported l \<and> supported r)"
| "supported (CaseExpr _ _ _) = False"
| "supported (Subquery _) = False"

section \<open>The compiler is correct\<close>

lemma op_dispatch: "STATIC_DISPATCHER ! code_of (op_code op) = pop2 (bin_eval op)"
  by (cases op) (simp_all add: STATIC_DISPATCHER_def bc_add_def bc_sub_def bc_mul_def bc_div_def bc_eq_def
      bc_neq_def bc_lt_def bc_gt_def bc_lte_def bc_gte_def bc_and_def bc_or_def field_from_bool_def fun_eq_iff pop2_def split: list.splits)

lemma op_code_bound: "code_of c < 14"
  by (cases c) simp_all

lemma run_push_field:
  "run_code (pre @ 1 # c # post) (length pre) st lits rec = (case index rec c of
     None \<Rightarrow> None
   | Some v \<Rightarrow> run_code (pre @ 1 # c # post) (length pre + 2) (v # st) lits rec)"
  by (subst run_code.simps)
    (simp add: STATIC_DISPATCHER_def push_field_def nth_append bind_def split: option.splits)

lemma run_push_lit:
  "run_code (pre @ 0 # i # post) (length pre) st lits rec = (case index lits i of
     None \<Rightarrow> None
   | Some v \<Rightarrow> run_code (pre @ 0 # i # post) (length pre + 2) (v # st) lits rec)"
  by (subst run_code.simps)
    (simp add: STATIC_DISPATCHER_def push_lit_def nth_append bind_def split: option.splits)

lemma run_op:
  "run_code (pre @ code_of (op_code op) # post) (length pre) (r # l # st) lits rec = (case bin_eval op l r of
     None \<Rightarrow> None
   | Some v \<Rightarrow> run_code (pre @ code_of (op_code op) # post) (length pre + 1) (v # st) lits rec)"
  by (subst run_code.simps)
    (simp add: op_dispatch op_code_bound pop2_def nth_append bind_def split: option.splits)

lemma add_code_sel [simp]:
  "bytecodes (add_code b c) = bytecodes b @ [c]" "literals (add_code b c) = literals b"
  by (simp_all add: add_code_def)

text \<open>Code appended by the compiler pushes the value of the expression, whatever follows it.\<close>

definition pushes :: "'p Expression \<Rightarrow> ByteCodeExpr \<Rightarrow> ByteCodeExpr \<Rightarrow> bool" where
  "pushes e b b' \<longleftrightarrow> (\<exists>code lits. bytecodes b' = bytecodes b @ code \<and> literals b' = literals b @ lits \<and> code \<noteq> [] \<and>
     (\<forall>post more st rec. run_code (bytecodes b' @ post) (length (bytecodes b)) st (literals b' @ more) rec =
       (case expr_eval (index rec) e of
          None \<Rightarrow> None
        | Some v \<Rightarrow> run_code (bytecodes b' @ post) (length (bytecodes b')) (v # st) (literals b' @ more) rec)))"

lemma pushes_leaf:
  assumes "bytecodes b' = bytecodes b @ [c, i]" and "literals b' = literals b @ lits"
    and "\<And>post more st rec. run_code (bytecodes b @ c # i # post) (length (bytecodes b)) st (literals b @ lits @ more) rec =
       (case expr_eval (index rec) e of
          None \<Rightarrow> None
        | Some v \<Rightarrow> run_code (bytecodes b @ c # i # post) (length (bytecodes b) + 2) (v # st) (literals b @ lits @ more) rec)"
  shows "pushes e b b'"
  unfolding pushes_def using assms by (auto split: option.splits)

lemma pushes_binary:
  assumes l: "pushes l b b1" and r: "pushes r b1 b2"
  shows "pushes (Binary op l r) b (add_code b2 (code_of (op_code op)))"
proof -
  let ?o = "code_of (op_code op)"
  obtain c1 l1 where 1: "bytecodes b1 = bytecodes b @ c1" "literals b1 = literals b @ l1"
    and run1: "\<And>post more st rec. run_code (bytecodes b1 @ post) (length (bytecodes b)) st (literals b1 @ more) rec =
      (case expr_eval (index rec) l of None \<Rightarrow> None
       | Some v \<Rightarrow> run_code (bytecodes b1 @ post) (length (bytecodes b1)) (v # st) (literals b1 @ more) rec)"
    using l unfolding pushes_def by blast
  obtain c2 l2 where 2: "bytecodes b2 = bytecodes b1 @ c2" "literals b2 = literals b1 @ l2"
    and run2: "\<And>post more st rec. run_code (bytecodes b2 @ post) (length (bytecodes b1)) st (literals b2 @ more) rec =
      (case expr_eval (index rec) r of None \<Rightarrow> None
       | Some v \<Rightarrow> run_code (bytecodes b2 @ post) (length (bytecodes b2)) (v # st) (literals b2 @ more) rec)"
    using r unfolding pushes_def by blast
  have run: "run_code (bytecodes b2 @ ?o # post) (length (bytecodes b)) st (literals b2 @ more) rec =
      (case expr_eval (index rec) (Binary op l r) of None \<Rightarrow> None
       | Some v \<Rightarrow> run_code (bytecodes b2 @ ?o # post) (length (bytecodes b2) + 1) (v # st) (literals b2 @ more) rec)"
    for post more st rec
    using run1 [of "c2 @ ?o # post" st "l2 @ more" rec] run2 [of "?o # post" _ more rec]
      run_op [of "bytecodes b2" op post _ _ _ "literals b2 @ more" rec]
    by (simp add: 2 bind_def split: option.splits)
  show ?thesis
    unfolding pushes_def using run
    by (intro exI [of _ "c1 @ c2 @ [?o]"] exI [of _ "l1 @ l2"]) (simp add: 1 2 split: option.splits)
qed

lemma convert_inner_pushes:
  "supported e \<Longrightarrow> \<exists>b'. convert_expr_to_bytecode_inner e b = Inr b' \<and> pushes e b b'"
proof (induction e arbitrary: b)
  case (ColRef c)
  have "pushes (ColRef c) b (add_code (add_code b 1) c)"
    by (rule pushes_leaf [where c = 1 and i = c and lits = "[]"]) (simp_all add: run_push_field del: One_nat_def split: option.splits)
  then show ?case by simp
next
  case (Lit v)
  have "pushes (Lit v) b (add_code (add_code (b\<lparr>literals := literals b @ [v]\<rparr>) 0) (length (literals b)))"
    by (rule pushes_leaf [where c = 0 and i = "length (literals b)" and lits = "[v]"])
      (simp_all add: run_push_lit index_def)
  then show ?case by (simp add: add_literal_def)
next
  case (Binary op l r)
  then obtain b1 where 1: "convert_expr_to_bytecode_inner l b = Inr b1" "pushes l b b1" by auto
  from Binary obtain b2 where 2: "convert_expr_to_bytecode_inner r b1 = Inr b2" "pushes r b1 b2" by auto
  from 1 2 pushes_binary show ?case by auto
qed simp_all

lemma expr_eval_replace:
  "expr_eval env (expr_replace_variables pr m e) = expr_eval (\<lambda>c. env (ren m c)) e"
  by (induction e) simp_all

lemma supported_replace [simp]: "supported (expr_replace_variables pr m e) = supported e"
  by (induction e) simp_all

lemma compiled_eval:
  assumes "supported e" and "convert_expr_to_bytecode_inner e ByteCodeExpr_new = Inr b"
  shows "bytecode_eval b t = expr_eval (index (field_vals t)) e"
proof -
  from convert_inner_pushes [OF assms(1), of ByteCodeExpr_new] assms(2) have "pushes e ByteCodeExpr_new b" by simp
  then have ne: "bytecodes b \<noteq> []"
    and run: "run_code (bytecodes b @ post) 0 st (literals b @ more) rec =
      (case expr_eval (index rec) e of None \<Rightarrow> None
       | Some v \<Rightarrow> run_code (bytecodes b @ post) (length (bytecodes b)) (v # st) (literals b @ more) rec)" for post more st rec
    unfolding pushes_def by (auto simp: ByteCodeExpr_new_def)
  note run [of "[]" "[]" "[]" "field_vals t", simplified]
  moreover have "run_code (bytecodes b) (length (bytecodes b)) st (literals b) (field_vals t) = Some st" for st
    by (subst run_code.simps) simp
  ultimately show ?thesis using ne by (simp add: bytecode_eval_def split: option.splits)
qed

lemma compiled_value:
  assumes "supported e"
  shows "\<exists>b. convert_expr_to_bytecode pr e (Some m) = Inr b"
    and "convert_expr_to_bytecode pr e (Some m) = Inr b \<Longrightarrow>
      bytecode_eval b t = expr_eval (\<lambda>c. index (field_vals t) (ren m c)) e"
proof -
  have s: "supported (expr_replace_variables pr m e)" using assms by simp
  then show "\<exists>b. convert_expr_to_bytecode pr e (Some m) = Inr b"
    using convert_inner_pushes [of "expr_replace_variables pr m e" ByteCodeExpr_new] by (auto simp: convert_expr_to_bytecode_def)
  assume "convert_expr_to_bytecode pr e (Some m) = Inr b"
  then show "bytecode_eval b t = expr_eval (\<lambda>c. index (field_vals t) (ren m c)) e"
    using compiled_eval [OF s] by (simp add: expr_eval_replace convert_expr_to_bytecode_def)
qed

text \<open>C25: an expression without \<open>case\<close> and subqueries compiles, and its byte code run on a tuple gives the
  value of the expression, with every column looked up at the position the map assigns to it; it panics
  exactly when the expression has no value.\<close>

theorem compile_correct:
  assumes "supported e"
  shows "\<exists>b. convert_expr_to_bytecode pr e (Some m) = Inr b \<and>
    (\<forall>t. bytecode_eval b t = expr_eval (\<lambda>c. index (field_vals t) (ren m c)) e)"
  using compiled_value [OF assms, of pr m] by metis

theorem compile_correct_witness:
  "\<exists>b. convert_expr_to_bytecode (\<lambda>_ p. p) (Binary Lt (ColRef 7) (Lit (FBigInt 5)) :: unit Expression) (Some [7 \<mapsto> 0]) = Inr b \<and>
     bytecode_eval b (Tuple_new [FBigInt 3]) = Some (FBool True)"
proof -
  obtain b where b: "convert_expr_to_bytecode (\<lambda>_ p. p) (Binary Lt (ColRef 7) (Lit (FBigInt 5)) :: unit Expression) (Some [7 \<mapsto> 0]) = Inr b"
    "bytecode_eval b (Tuple_new [FBigInt 3]) =
       expr_eval (\<lambda>c. index (field_vals (Tuple_new [FBigInt 3])) (ren [7 \<mapsto> 0] c)) (Binary Lt (ColRef 7) (Lit (FBigInt 5)) :: unit Expression)"
    using compile_correct [of "Binary Lt (ColRef 7) (Lit (FBigInt 5)) :: unit Expression" "\<lambda>_ p. p" "[7 \<mapsto> 0]"] by auto
  then show ?thesis by (simp add: ren_def less_Field_def)
qed

section \<open>Rewriting expressions\<close>

lemma field_and_assoc:
  "(do { x \<leftarrow> field_and a b; field_and x c }) = (do { y \<leftarrow> field_and b c; field_and a y })"
  by (cases a; cases b; cases c) simp_all

lemma combine_Cons: "es \<noteq> [] \<Longrightarrow> combine_preds (e # es) = Binary And e (combine_preds es)"
  by (cases es) simp_all

lemma combine_append:
  assumes "xs \<noteq> []" and "ys \<noteq> []"
  shows "expr_eval env (combine_preds (xs @ ys)) = expr_eval env (Binary And (combine_preds xs) (combine_preds ys))"
  using assms(1)
proof (induction xs)
  case (Cons x xs)
  show ?case
  proof (cases "xs = []")
    case True
    with assms(2) show ?thesis by (simp add: combine_Cons)
  next
    case False
    with Cons.IH assms(2) have "expr_eval env (combine_preds (x # xs @ ys)) =
        (do { a \<leftarrow> expr_eval env x; b \<leftarrow> expr_eval env (combine_preds xs); c \<leftarrow> expr_eval env (combine_preds ys);
           y \<leftarrow> field_and b c; field_and a y })"
      by (simp add: combine_Cons)
    also have "\<dots> = (do { a \<leftarrow> expr_eval env x; b \<leftarrow> expr_eval env (combine_preds xs);
        c \<leftarrow> expr_eval env (combine_preds ys); z \<leftarrow> field_and a b; field_and z c })"
      by (simp add: field_and_assoc)
    also have "\<dots> = expr_eval env (Binary And (combine_preds (x # xs)) (combine_preds ys))"
      using False by (cases "expr_eval env x"; cases "expr_eval env (combine_preds xs)";
          cases "expr_eval env (combine_preds ys)") (simp_all add: combine_Cons)
    finally show ?thesis by simp
  qed
qed simp

lemma split_not_Nil [simp]: "split_conjunction e \<noteq> []"
  by (induction e rule: split_conjunction.induct) simp_all

lemma combine_split: "expr_eval env (combine_preds (split_conjunction e)) = expr_eval env e"
proof (induction e rule: split_conjunction.induct)
  case (1 l r)
  then show ?case by (simp only: split_conjunction.simps combine_append [OF split_not_Nil split_not_Nil] expr_eval.simps)
qed simp_all

lemma eval_replace_exprs:
  "expr_eval env (replace_variables_with_exprs m e) =
     expr_eval (\<lambda>c. case m c of Some e' \<Rightarrow> expr_eval env e' | None \<Rightarrow> env c) e"
  by (induction e) (simp_all split: option.splits)

lemma eval_free: "(\<forall>c \<in> expr_free pf e. env c = env' c) \<Longrightarrow> expr_eval env e = expr_eval env' e"
  by (induction e) simp_all

text \<open>C26: the rewritings of the translator keep the value of every expression under every assignment:
  splitting a conjunction and combining the parts again, panics included; replacing columns by
  expressions, which is evaluation with the columns bound to their values; and an expression depends
  only on the columns that \<open>free\<close> names.\<close>

theorem rewriting_preserves_value:
  "expr_eval env (combine_preds (split_conjunction e)) = expr_eval env e \<and>
   expr_eval env (replace_variables_with_exprs m e) =
     expr_eval (\<lambda>c. case m c of Some e' \<Rightarrow> expr_eval env e' | None \<Rightarrow> env c) e \<and>
   expr_eval (\<lambda>c. if c \<in> expr_free pf e then env c else None) e = expr_eval env e"
  using eval_free [of pf e "\<lambda>c. if c \<in> expr_free pf e then env c else None" env]
  by (simp add: combine_split eval_replace_exprs)

end
