(* ===== verification/QueryProps.thy ===== *)
theory QueryProps
  imports AggLaws ByteCodeProps
begin

text \<open>
  What plans compute: the operators run by \<open>Executor::execute\<close> over vectors of tuples, with the contract of
  the iterators interpreted for them. The three join algorithms agree; sorting and grouping give what
  they promise; and an operator that was closed cannot always be opened again.
\<close>

interpretation tup: op_iterator tuple_ops "\<lambda>(s, w). tup_fresh ts s \<and> W w" "\<lambda>rw (s, w). tup_closed ts rw s \<and> W w"
    "\<lambda>rw (s, w). tup_opened ts rw s \<and> W w" "\<lambda>(s, w). True \<and> W w" ts "\<lambda>(s, w). tup_rem s"
  for ts W
  using tuple_iterator [of ts W] by simp

interpretation two: join_children tuple_ops tuple_ops W "tup_fresh ls" "tup_closed ls" "tup_opened ls" "\<lambda>_. True" ls tup_rem
    "tup_fresh rs" "tup_closed rs" "tup_opened rs" "\<lambda>_. True" rs tup_rem
  for W ls rs
  by (intro join_children.intro tup.op_iterator_axioms)

lemma tup_fresh_new [simp]: "tup_fresh ts (TupleIterator_new ts sc)"
  by (simp add: tup_fresh_def TupleIterator_new_def)

section \<open>Selection and projection\<close>

text \<open>The value of an expression in a row, its columns at the positions the map assigns to them.\<close>

definition row_value :: "(ColumnId \<Rightarrow> ColumnId option) \<Rightarrow> Tuple \<Rightarrow> 'p Expression \<Rightarrow> Field option" where
  "row_value m t e = expr_eval (\<lambda>c. index (field_vals t) (ren m c)) e"

lemma compiled_row: "supported e \<Longrightarrow> convert_expr_to_bytecode pr e (Some m) = Inr b \<Longrightarrow> bytecode_eval b t = row_value m t e"
  by (simp add: row_value_def compiled_value(2))

lemma compiled_rows:
  assumes "list_all supported es" "list_all2 (\<lambda>e b. convert_expr_to_bytecode pr e (Some m) = Inr b) es bs"
  shows "map (\<lambda>b. the (bytecode_eval b t)) bs = map (\<lambda>e. the (row_value m t e)) es"
    and "eval_all bs t \<noteq> None \<longleftrightarrow> list_all (\<lambda>e. row_value m t e \<noteq> None) es"
  using assms(2,1) by (induction rule: list_all2_induct) (auto simp: compiled_row split: Option.bind_splits)

lemma select_project_run:
  assumes "is_pred p ts" "evaluable es (filter (holds p) ts)"
  shows "\<exists>x. execute (project_ops (filter_ops tuple_ops))
      (Project_new es sp (Filter_new p sf (TupleIterator_new ts st)), w) = Some (x, Inr (sp, map (project_tuple es) (filter (holds p) ts)))"
  using op_iterator.execute_law [OF op_iterator.project_iterator [OF tup.filter_iterator [OF assms(1), of "\<lambda>_. True"] assms(2)],
      of "Project_new es sp (Filter_new p sf (TupleIterator_new ts st))" w]
  by (auto simp: Project_new_def Filter_new_def)

text \<open>C27: compiling a predicate and a list of expressions and running the projection over the selection over a
  vector of tuples returns, in order and with the schema of the projection, exactly the tuples of
  expression values for the input tuples that satisfy the predicate.\<close>

theorem select_project_result:
  assumes "supported e" "list_all supported es"
    and "convert_expr_to_bytecode pr e (Some m) = Inr p"
    and "list_all2 (\<lambda>e b. convert_expr_to_bytecode pr e (Some m) = Inr b) es bs"
    and "list_all (\<lambda>t. row_value m t e = Some (FBool True) \<or> row_value m t e = Some (FBool False)) ts"
    and "list_all (\<lambda>t. list_all (\<lambda>e. row_value m t e \<noteq> None) es) ts"
  shows "\<exists>x. execute (project_ops (filter_ops tuple_ops))
      (Project_new bs sp (Filter_new p sf (TupleIterator_new ts st)), w) =
    Some (x, Inr (sp, map (\<lambda>t. Tuple_new (map (\<lambda>e. the (row_value m t e)) es))
      (filter (\<lambda>t. row_value m t e = Some (FBool True)) ts)))"
proof -
  have p: "bytecode_eval p t = row_value m t e" for t using compiled_row [OF assms(1,3)] .
  have "is_pred p ts" using assms(5) by (simp add: is_pred_def p)
  moreover have "evaluable bs (filter (holds p) ts)"
    using assms(6) compiled_rows(2) [OF assms(2,4)] by (auto simp: evaluable_def list_all_iff)
  moreover have "filter (holds p) ts = filter (\<lambda>t. row_value m t e = Some (FBool True)) ts" by (simp add: holds_def [abs_def] p)
  moreover have "project_tuple bs = (\<lambda>t. Tuple_new (map (\<lambda>e. the (row_value m t e)) es))"
    using compiled_rows(1) [OF assms(2,4)] by (simp add: project_tuple_def fun_eq_iff)
  ultimately show ?thesis using select_project_run [of p ts bs sp sf st w] by simp
qed

theorem select_project_witness:
  "\<exists>x. execute (project_ops (filter_ops tuple_ops))
      (Project_new [projr (convert_expr_to_bytecode (\<lambda>_ p. p) (Binary Add (ColRef 7) (Lit (FBigInt 1)) :: unit Expression) (Some [7 \<mapsto> 0]))]
        (TableSchema_new []) (Filter_new (projr (convert_expr_to_bytecode (\<lambda>_ p. p) (Binary Lt (ColRef 7) (Lit (FBigInt 5)) :: unit Expression) (Some [7 \<mapsto> 0])))
        (TableSchema_new []) (TupleIterator_new [Tuple_new [FBigInt 3], Tuple_new [FBigInt 8]] (TableSchema_new []))), ()) =
    Some (x, Inr (TableSchema_new [], [Tuple_new [FBigInt 4]]))"
proof -
  let ?e = "Binary Lt (ColRef 7) (Lit (FBigInt 5)) :: unit Expression"
  let ?f = "Binary Add (ColRef 7) (Lit (FBigInt 1)) :: unit Expression"
  let ?ts = "[Tuple_new [FBigInt 3], Tuple_new [FBigInt 8]]"
  have c: "convert_expr_to_bytecode (\<lambda>_ p. p) ?e (Some [7 \<mapsto> 0]) = Inr (projr (convert_expr_to_bytecode (\<lambda>_ p. p) ?e (Some [7 \<mapsto> 0])))"
    "convert_expr_to_bytecode (\<lambda>_ p. p) ?f (Some [7 \<mapsto> 0]) = Inr (projr (convert_expr_to_bytecode (\<lambda>_ p. p) ?f (Some [7 \<mapsto> 0])))"
    by (simp_all add: convert_expr_to_bytecode_def add_literal_def)
  have v: "map (\<lambda>t. row_value [7 \<mapsto> 0] t ?e) ?ts = [Some (FBool True), Some (FBool False)]"
    "map (\<lambda>t. row_value [7 \<mapsto> 0] t ?f) ?ts = [Some (FBigInt 4), Some (FBigInt 9)]"
    by code_simp+
  show ?thesis
    using select_project_result [of ?e "[?f]" "\<lambda>_ p. p" "[7 \<mapsto> 0]" _ "[_]" ?ts "TableSchema_new []" "TableSchema_new []" "TableSchema_new []" "()", OF _ _ c(1)] c(2) v
    by simp
qed

section \<open>Joins\<close>

lemma pairs_cong: "(\<And>l r. l \<in> set ls \<Longrightarrow> r \<in> set rs \<Longrightarrow> m l r = m' l r) \<Longrightarrow> pairs m ls rs = pairs m' ls rs"
  unfolding pairs_def by (intro arg_cong [where f = concat] map_cong filter_cong) auto

lemma mset_pairs_right:
  "mset (pairs m ls (r # rs)) = mset (map (\<lambda>l. merge_tuples l r) (filter (\<lambda>l. m l r) ls)) + mset (pairs m ls rs)"
  by (induction ls) (simp_all add: pairs_def)

lemma mset_hj_pairs:
  "mset (hj_pairs le re ls rs) = mset (pairs (\<lambda>l r. bytecode_eval le l = bytecode_eval re r) ls rs)"
proof (induction rs)
  case Nil
  show ?case by (induction ls) (simp_all add: pairs_def)
qed (simp add: mset_pairs_right)

lemma mset_kp: "mset (kp ls rs) =
    (\<Sum>l\<in>#mset ls. image_mset (\<lambda>r. merge_tuples (snd l) (snd r)) (filter_mset (\<lambda>r. fst r = fst l) (mset rs)))"
  by (induction ls) simp_all

lemma kp_with_keys: "kp (with_keys es ls) (with_keys fs rs) = pairs (\<lambda>l r. key_of fs r = key_of es l) ls rs"
  by (simp add: kp_def with_keys_def pairs_def comp_def filter_map)

lemma mset_merge_sides:
  "mset (kp (merge_side le ls) (merge_side re rs)) =
   mset (pairs (\<lambda>l r. key_of (map fst le) l = key_of (map fst re) r) ls rs)"
proof -
  have "mset (kp (merge_side le ls) (merge_side re rs)) = mset (kp (with_keys (map fst le) ls) (with_keys (map fst re) rs))"
    by (simp add: mset_kp merge_side_def)
  then show ?thesis by (simp add: kp_with_keys eq_commute)
qed

lemma evaluable_single: "evaluable [e] ts \<Longrightarrow> t \<in> set ts \<Longrightarrow> bytecode_eval e t = Some (the (bytecode_eval e t))"
  by (auto simp: evaluable_def list_all_iff split: Option.bind_splits)

lemma equi_cond:
  assumes "evaluable [le] ls" "evaluable [re] rs" "l \<in> set ls" "r \<in> set rs"
  shows "on_cond Eq le re l r = Some (bytecode_eval le l = bytecode_eval re r)"
    and "key_of [le] l = key_of [re] r \<longleftrightarrow> bytecode_eval le l = bytecode_eval re r"
proof -
  obtain a b where "bytecode_eval le l = Some a" "bytecode_eval re r = Some b"
    using evaluable_single [OF assms(1,3)] evaluable_single [OF assms(2,4)] by blast
  then show "on_cond Eq le re l r = Some (bytecode_eval le l = bytecode_eval re r)"
    and "key_of [le] l = key_of [re] r \<longleftrightarrow> bytecode_eval le l = bytecode_eval re r"
    by (simp_all add: on_cond_def key_of_def)
qed

lemma cross_run:
  "\<exists>x. execute (cross_ops tuple_ops tuple_ops) (CrossJoin_new sc (TupleIterator_new ls sl) (TupleIterator_new rs sr), w) =
     Some (x, Inr (sc, pairs (\<lambda>_ _. True) ls rs))"
  using op_iterator.execute_law [OF two.cross_iterator [of ls rs "\<lambda>_. True"], of "CrossJoin_new sc (TupleIterator_new ls sl) (TupleIterator_new rs sr)" w]
  by (auto simp: CrossJoin_new_def)

lemma nlj_run:
  assumes "comparable op le re ls rs"
  shows "\<exists>x. execute (nlj_ops tuple_ops tuple_ops) (NestedLoopJoin_new op le re (TupleIterator_new ls sl) (TupleIterator_new rs sr) sc, w) =
     Some (x, Inr (sc, pairs (\<lambda>l r. on_cond op le re l r = Some True) ls rs))"
  using op_iterator.execute_law [OF two.nlj_iterator [OF assms, of "\<lambda>_. True"], of "NestedLoopJoin_new op le re (TupleIterator_new ls sl) (TupleIterator_new rs sr) sc" w]
  by (auto simp: NestedLoopJoin_new_def nlj_is_def)

lemma hash_run:
  assumes "evaluable [le] ls" "evaluable [re] rs"
  shows "\<exists>x. execute (hash_ops tuple_ops tuple_ops) (HashEqJoin_new sc le re (TupleIterator_new ls sl) (TupleIterator_new rs sr), w) =
     Some (x, Inr (sc, hj_pairs le re ls rs))"
  using op_iterator.execute_law [OF two.hash_iterator [OF assms, of "\<lambda>_. True"], of "HashEqJoin_new sc le re (TupleIterator_new ls sl) (TupleIterator_new rs sr)" w]
  by (auto simp: HashEqJoin_new_def)

lemma merge_run:
  assumes "evaluable (map fst le) ls" "evaluable (map fst re) rs" "map snd re = map snd le" "le \<noteq> []"
  shows "\<exists>j x. SortMergeJoin_new sc le re (TupleIterator_new ls sl) (TupleIterator_new rs sr) = Inr j \<and>
     execute (merge_ops tuple_ops tuple_ops) (j, w) = Some (x, Inr (sc, kp (merge_side le ls) (merge_side re rs)))"
proof -
  have "length re = length le" using arg_cong [OF assms(3), of length] by simp
  then obtain j where j: "SortMergeJoin_new sc le re (TupleIterator_new ls sl) (TupleIterator_new rs sr) = Inr j"
    "smj_unread le re (fst j)" "snd j = (TupleIterator_new ls sl, TupleIterator_new rs sr)" "smj_schema (fst j) = sc"
    using assms(4) by (auto simp: SortMergeJoin_new_def smj_unread_def)
  then show ?thesis
    using op_iterator.execute_law [OF two.merge_iterator [OF assms(1-3), of "\<lambda>_. True"], of j w] by (cases j) auto
qed

text \<open>C28: the nested loop join with the equality condition, the hash join and the sort merge join return the same
  tuples, each as often: the nested loop join in the order of the two loops, the other two up to order.\<close>

theorem joins_agree:
  assumes "evaluable [le] ls" "evaluable [re] rs"
  shows "\<exists>x y z j r1 r2 r3.
    execute (nlj_ops tuple_ops tuple_ops) (NestedLoopJoin_new Eq le re (TupleIterator_new ls sl) (TupleIterator_new rs sr) sc, w) =
      Some (x, Inr (sc, r1)) \<and>
    execute (hash_ops tuple_ops tuple_ops) (HashEqJoin_new sc le re (TupleIterator_new ls sl) (TupleIterator_new rs sr), w) =
      Some (y, Inr (sc, r2)) \<and>
    SortMergeJoin_new sc [(le, asc)] [(re, asc)] (TupleIterator_new ls sl) (TupleIterator_new rs sr) = Inr j \<and>
    execute (merge_ops tuple_ops tuple_ops) (j, w) = Some (z, Inr (sc, r3)) \<and>
    r1 = concat (map (\<lambda>l. map (merge_tuples l) (filter (\<lambda>r. bytecode_eval le l = bytecode_eval re r) rs)) ls) \<and>
    mset r2 = mset r1 \<and> mset r3 = mset r1"
proof -
  let ?p = "pairs (\<lambda>l r. bytecode_eval le l = bytecode_eval re r) ls rs"
  have 1: "pairs (\<lambda>l r. on_cond Eq le re l r = Some True) ls rs = ?p" and
    2: "pairs (\<lambda>l r. key_of [le] l = key_of [re] r) ls rs = ?p"
    using equi_cond [OF assms] by (auto intro: pairs_cong)
  have c: "comparable Eq le re ls rs" using equi_cond(1) [OF assms] by (simp add: comparable_def list_all_iff)
  have "mset (kp (merge_side [(le, asc)] ls) (merge_side [(re, asc)] rs)) = mset ?p"
    using mset_merge_sides [of "[(le, asc)]" ls "[(re, asc)]" rs] 2 by simp
  with 1 nlj_run [OF c, of sl sr sc w] hash_run [OF assms, of sc sl sr w] mset_hj_pairs [of le re ls rs]
    merge_run [of "[(le, asc)]" ls "[(re, asc)]" rs sc sl sr w] assms
  show ?thesis by (simp add: pairs_def) blast
qed

theorem joins_agree_witness:
  "\<exists>x y z j r1 r2 r3.
    execute (nlj_ops tuple_ops tuple_ops) (NestedLoopJoin_new Eq (colidx_expr 0) (colidx_expr 0)
      (TupleIterator_new [Tuple_new [FBigInt 1]] (TableSchema_new [])) (TupleIterator_new [Tuple_new [FBigInt 1]] (TableSchema_new [])) (TableSchema_new []), ()) =
      Some (x, Inr (TableSchema_new [], r1)) \<and>
    execute (hash_ops tuple_ops tuple_ops) (HashEqJoin_new (TableSchema_new []) (colidx_expr 0) (colidx_expr 0)
      (TupleIterator_new [Tuple_new [FBigInt 1]] (TableSchema_new [])) (TupleIterator_new [Tuple_new [FBigInt 1]] (TableSchema_new [])), ()) =
      Some (y, Inr (TableSchema_new [], r2)) \<and>
    SortMergeJoin_new (TableSchema_new []) [(colidx_expr 0, True)] [(colidx_expr 0, True)]
      (TupleIterator_new [Tuple_new [FBigInt 1]] (TableSchema_new [])) (TupleIterator_new [Tuple_new [FBigInt 1]] (TableSchema_new [])) = Inr j \<and>
    execute (merge_ops tuple_ops tuple_ops) (j, ()) = Some (z, Inr (TableSchema_new [], r3)) \<and>
    length r1 = 1 \<and> mset r2 = mset r1 \<and> mset r3 = mset r1"
proof -
  let ?ts = "[Tuple_new [FBigInt 1]]"
  have "evaluable [colidx_expr 0] ?ts" by code_simp
  from joins_agree [OF this this, of "TableSchema_new []" "TableSchema_new []" "TableSchema_new []" "()" True]
  show ?thesis by fastforce
qed

text \<open>C29: the nested loop join returns the pairs of the cross join that satisfy its condition: the cross join
  returns every pair once, left tuples outermost, and the nested loop join the sublist where the comparison
  holds, for each of the six comparison operators.\<close>

theorem theta_join_result:
  assumes "op \<in> {Eq, Neq, Lt, Gt, Le, Ge}" "evaluable [le] ls" "evaluable [re] rs"
  shows "\<exists>x y. execute (cross_ops tuple_ops tuple_ops) (CrossJoin_new sc (TupleIterator_new ls sl) (TupleIterator_new rs sr), w) =
      Some (x, Inr (sc, map (\<lambda>(l, r). merge_tuples l r) (List.product ls rs))) \<and>
    execute (nlj_ops tuple_ops tuple_ops) (NestedLoopJoin_new op le re (TupleIterator_new ls sl) (TupleIterator_new rs sr) sc, w) =
      Some (y, Inr (sc, map (\<lambda>(l, r). merge_tuples l r)
        (filter (\<lambda>(l, r). compare_fields op (the (bytecode_eval le l)) (the (bytecode_eval re r)) = Some True) (List.product ls rs))))"
proof -
  have product: "pairs m ls rs = map (\<lambda>(l, r). merge_tuples l r) (filter (\<lambda>(l, r). m l r) (List.product ls rs))" for m
    by (induction ls) (simp_all add: pairs_def filter_map comp_def)
  have cond: "on_cond op le re l r = compare_fields op (the (bytecode_eval le l)) (the (bytecode_eval re r))"
    if lr: "l \<in> set ls" "r \<in> set rs" for l r
  proof -
    obtain a b where "bytecode_eval le l = Some a" "bytecode_eval re r = Some b"
      using evaluable_single [OF assms(2) lr(1)] evaluable_single [OF assms(3) lr(2)] by blast
    then show ?thesis by (simp add: on_cond_def)
  qed
  have "comparable op le re ls rs" using assms(1) by (auto simp: comparable_def list_all_iff cond)
  from nlj_run [OF this, of sl sr sc w] cross_run [of sc ls sl rs sr w] show ?thesis
    by (simp add: product cond cong: pairs_cong)
qed

theorem theta_join_witness:
  "\<exists>y. execute (nlj_ops tuple_ops tuple_ops) (NestedLoopJoin_new Lt (colidx_expr 0) (colidx_expr 0)
      (TupleIterator_new [Tuple_new [FBigInt 1]] (TableSchema_new []))
      (TupleIterator_new [Tuple_new [FBigInt 1], Tuple_new [FBigInt 2]] (TableSchema_new [])) (TableSchema_new []), ()) =
    Some (y, Inr (TableSchema_new [], [merge_tuples (Tuple_new [FBigInt 1]) (Tuple_new [FBigInt 2])]))"
proof -
  let ?l = "[Tuple_new [FBigInt 1]]" and ?r = "[Tuple_new [FBigInt 1], Tuple_new [FBigInt 2]]"
  have e: "evaluable [colidx_expr 0] ?l" "evaluable [colidx_expr 0] ?r" by code_simp+
  have "map (\<lambda>(l, r). merge_tuples l r) (filter (\<lambda>(l, r). compare_fields Lt (the (bytecode_eval (colidx_expr 0) l))
      (the (bytecode_eval (colidx_expr 0) r)) = Some True) (List.product ?l ?r)) = [merge_tuples (Tuple_new [FBigInt 1]) (Tuple_new [FBigInt 2])]"
    by code_simp
  with theta_join_result [OF _ e, of Lt "TableSchema_new []" "TableSchema_new []" "TableSchema_new []" "()"] show ?thesis by auto
qed

section \<open>Sorting\<close>

text \<open>C30: sorting returns a permutation of its input in which no tuple has a greater key than a later one, the
  keys compared position by position in the requested directions.\<close>

theorem sort_result:
  assumes "evaluable (map fst fs) ts"
  shows "\<exists>x rows. execute (sort_ops tuple_ops) (Sort_new fs sc (TupleIterator_new ts st), w) = Some (x, Inr (sc, rows)) \<and>
    mset rows = mset ts \<and>
    sorted_wrt (\<lambda>t u. compare_keys (key_of (map fst fs) t) (key_of (map fst fs) u) (map snd fs) \<noteq> Some Greater) rows"
  using op_iterator.execute_law [OF tup.sort_iterator [OF assms, of "\<lambda>_. True"], of "Sort_new fs sc (TupleIterator_new ts st)" w]
    sorted_rows_law [of fs ts]
  by (auto simp: Sort_new_def key_le_def)

theorem sort_result_witness:
  "\<exists>x rows. execute (sort_ops tuple_ops) (Sort_new [(colidx_expr 0, False)] (TableSchema_new [])
       (TupleIterator_new [Tuple_new [FBigInt 1], Tuple_new [FBigInt 2]] (TableSchema_new [])), ()) = Some (x, Inr (TableSchema_new [], rows)) \<and>
    mset rows = {#Tuple_new [FBigInt 1], Tuple_new [FBigInt 2]#}"
proof -
  have "evaluable (map fst [(colidx_expr 0, False)]) [Tuple_new [FBigInt 1], Tuple_new [FBigInt 2]]" by code_simp
  from sort_result [OF this, of "TableSchema_new []" "TableSchema_new []" "()"] show ?thesis by auto
qed

section \<open>Aggregation\<close>

text \<open>C31: aggregation returns one row for each value of the grouping expressions that occurs, in ascending order;
  the row starts with that value, and each further column holds the count, greatest, least, sum or average of the
  column's expression over the rows of the group. A sum over integers and decimals of any scales is exact, an
  integer when all values are and else a decimal of the largest scale; the sum of a single value is that value. An
  average is over integers and is their sum divided by their number in double precision, turned into a decimal.
  The hypothesis is that no expression and no sum of the group panics, by its types or by overflow.\<close>

theorem aggregate_result:
  assumes "agg_ok ops gs es ts" "Aggregate_new gs es ops sc (TupleIterator_new ts st) = Some a"
  shows "\<exists>x rows. execute (aggregate_ops tuple_ops) (a, w) = Some (x, Inr (sc, rows)) \<and>
    map (\<lambda>r. take (length gs) (field_vals r)) rows = sorted_list_of_set (key_of gs ` set ts) \<and>
    list_all (\<lambda>r. length (field_vals r) = length gs + length ops \<and>
      (\<forall>j < length ops. column_ok (ops ! j) (map (\<lambda>t. key_of es t ! j) (group_of gs ts (take (length gs) (field_vals r))))
        (field_vals r ! (length gs + j)))) rows"
proof -
  obtain s c where sc: "a = (s, c)" by (cases a)
  have len: "length es = length ops" and a: "a = (s, TupleIterator_new ts st)" "agg_is ops gs es s" "\<not> agg_open s"
    "acc s = []" "acc_iter s = []" "agg_schema s = sc"
    using assms(2) by (auto simp: sc Aggregate_new_def assert_that_def agg_is_def split: if_splits)
  let ?rows = "agg_rows ops gs es ts"
  have "\<exists>x. execute (aggregate_ops tuple_ops) (a, w) = Some (x, Inr (sc, ?rows))"
    using op_iterator.execute_law [OF tup.aggregate_iterator [OF assms(1), of "\<lambda>_. True"], of a w] a by auto
  moreover have row: "\<exists>vs. field_vals (the (agg_row ops gs es ts k)) = k @ vs \<and> length vs = length ops \<and> length k = length gs \<and>
      (\<forall>j < length ops. column_ok (ops ! j) (map (\<lambda>t. key_of es t ! j) (group_of gs ts k)) (vs ! j))"
    if k: "k \<in> key_of gs ` set ts" for k
  proof -
    obtain r where r: "agg_row ops gs es ts k = Some r" using assms(1) k by (auto simp: agg_ok_def list_all_iff)
    with agg_row_columns [OF r len] k show ?thesis by auto
  qed
  have keys: "k \<in> set (sorted_list_of_set (key_of gs ` set ts)) \<Longrightarrow> k \<in> key_of gs ` set ts" for k by simp
  have "take (length gs) (field_vals (the (agg_row ops gs es ts k))) = k" if "k \<in> key_of gs ` set ts" for k
    using row [OF that] by auto
  then have "map (\<lambda>r. take (length gs) (field_vals r)) ?rows = sorted_list_of_set (key_of gs ` set ts)"
    unfolding agg_rows_def map_map comp_def by (intro map_idI) (simp add: keys)
  moreover have "list_all (\<lambda>r. length (field_vals r) = length gs + length ops \<and>
      (\<forall>j < length ops. column_ok (ops ! j) (map (\<lambda>t. key_of es t ! j) (group_of gs ts (take (length gs) (field_vals r))))
        (field_vals r ! (length gs + j)))) ?rows"
    unfolding agg_rows_def list_all_iff set_map
  proof (intro ballI, elim imageE)
    fix r k assume k: "k \<in> set (sorted_list_of_set (key_of gs ` set ts))" and r: "r = the (agg_row ops gs es ts k)"
    from row [OF keys [OF k]] obtain vs where "field_vals r = k @ vs" "length vs = length ops" "length k = length gs"
      "\<forall>j < length ops. column_ok (ops ! j) (map (\<lambda>t. key_of es t ! j) (group_of gs ts k)) (vs ! j)" unfolding r by blast
    then show "length (field_vals r) = length gs + length ops \<and>
      (\<forall>j < length ops. column_ok (ops ! j) (map (\<lambda>t. key_of es t ! j) (group_of gs ts (take (length gs) (field_vals r))))
        (field_vals r ! (length gs + j)))" by (auto simp: nth_append)
  qed
  ultimately show ?thesis by blast
qed

theorem aggregate_result_witness:
  "\<exists>x a r. Aggregate_new [colidx_expr 0] [colidx_expr 1] [Sum] (TableSchema_new [])
       (TupleIterator_new [Tuple_new [FBigInt 1, FDecimal 15 1], Tuple_new [FBigInt 1, FBigInt 2]] (TableSchema_new [])) = Some a \<and>
     execute (aggregate_ops tuple_ops) (a, ()) = Some (x, Inr (TableSchema_new [], [r])) \<and>
     take 1 (field_vals r) = [FBigInt 1] \<and> num_val (field_vals r ! 1) = 7 / 2 \<and> num_scale (field_vals r ! 1) = 1"
proof -
  let ?ts = "[Tuple_new [FBigInt 1, FDecimal 15 1], Tuple_new [FBigInt 1, FBigInt 2]]"
  have ok: "agg_ok [Sum] [colidx_expr 0] [colidx_expr 1] ?ts" by code_simp
  obtain a where a: "Aggregate_new [colidx_expr 0] [colidx_expr 1] [Sum] (TableSchema_new []) (TupleIterator_new ?ts (TableSchema_new [])) = Some a"
    by (simp add: Aggregate_new_def assert_that_def)
  have keys: "key_of [colidx_expr 0] ` set ?ts = {[FBigInt 1]}" by code_simp
  obtain x rows where x: "execute (aggregate_ops tuple_ops) (a, ()) = Some (x, Inr (TableSchema_new [], rows))"
    "map (\<lambda>r. take 1 (field_vals r)) rows = [[FBigInt 1]]"
    "list_all (\<lambda>r. column_ok Sum (map (\<lambda>t. key_of [colidx_expr 1] t ! 0) (group_of [colidx_expr 0] ?ts (take 1 (field_vals r)))) (field_vals r ! 1)) rows"
    using aggregate_result [OF ok a, of "()"] keys by (auto simp: list_all_iff)
  then obtain r where r: "rows = [r]" "take 1 (field_vals r) = [FBigInt 1]" by auto
  have col: "map (\<lambda>t. key_of [colidx_expr 1] t ! 0) (group_of [colidx_expr 0] ?ts [FBigInt 1]) = [FDecimal 15 1, FBigInt 2]" by code_simp
  from x(3) have "column_ok Sum [FDecimal 15 1, FBigInt 2] (field_vals r ! 1)" unfolding r(1) list.pred_inject r(2) col by simp
  then have "is_sum [FDecimal 15 1, FBigInt 2] (field_vals r ! 1)" by (simp add: column_ok_def)
  then have "num_val (field_vals r ! 1) = 7 / 2 \<and> num_scale (field_vals r ! 1) = 1" by (simp add: is_sum_def)
  with a x(1) r show ?thesis by blast
qed

section \<open>Opening again\<close>

lemma tup_drain:
  "tup_open s \<Longrightarrow> \<not> tup_will_rewind s \<Longrightarrow>
   for_each tuple_ops (\<lambda>ts t. Some (ts @ [t])) a (s, w) = Some ((a @ rev (tuples s), s\<lparr>tuples := []\<rparr>, w), Inr ())"
proof (induction "tuples s" arbitrary: s a rule: rev_induct)
  case Nil
  then have "s\<lparr>tuples := []\<rparr> = s" by simp
  with Nil show ?case by (subst for_each.simps) (simp add: tup_next_def)
next
  case (snoc t ts)
  then have "tuples s = ts @ [t]" by simp
  with snoc.hyps(1) [of "s\<lparr>tuples := ts\<rparr>"] snoc.prems show ?case by (subst for_each.simps) (simp add: tup_next_def)
qed

lemma tup_execute:
  "\<not> tup_open s \<Longrightarrow> execute tuple_ops (s, w) =
     Some ((s\<lparr>tup_will_rewind := False, tuples := [], tup_index := 0\<rparr>, w), Inr (tup_schema s, rev (tuples s)))"
  by (simp add: execute_def tup_configure_def tup_open_op_def tup_drain tup_close_def)

text \<open>C32: the trait promises that \<open>open\<close> after \<open>close\<close> re-initialises an operator. A vector iterator that has been
  run and closed hands out nothing when it is run again, and a sort merge join closed in the middle of a
  pair of runs panics on the first \<open>next\<close> after it is opened again, without reading its children.\<close>

theorem reopen_after_close:
  fixes s :: SortMergeJoin
  assumes "smj_open s" "left_child_read s" "right_child_read s" "smj_match s"
  shows "(\<exists>it. execute tuple_ops (TupleIterator_new ts sc, w) = Some ((it, w), Inr (sc, ts)) \<and>
      (\<exists>it'. execute tuple_ops (it, w) = Some ((it', w), Inr (sc, [])))) \<and>
    (\<exists>x y. smj_close L R ((s, l, r), w) = Some (x, Inr ()) \<and> smj_open_op L R x = Some (y, Inr ()) \<and> smj_next L R y = None)"
proof
  show "\<exists>it. execute tuple_ops (TupleIterator_new ts sc, w) = Some ((it, w), Inr (sc, ts)) \<and>
      (\<exists>it'. execute tuple_ops (it, w) = Some ((it', w), Inr (sc, [])))"
    by (simp add: tup_execute TupleIterator_new_def)
  let ?s = "s\<lparr>r_first := 0, l_first := 0, right_sorted_data := [], left_sorted_data := [], smj_open := True\<rparr>"
  have "smj_match ?s" "smj_emit ?s = None" using assms(4) by (auto simp: smj_match_def smj_emit_def index_def)
  then have "smj_loop ?s = None" by (subst smj_loop.simps) simp
  with assms show "\<exists>x y. smj_close L R ((s, l, r), w) = Some (x, Inr ()) \<and> smj_open_op L R x = Some (y, Inr ()) \<and> smj_next L R y = None"
    by (auto simp: smj_close_def smj_open_op_def smj_read_left_def smj_read_right_def smj_next_def)
qed

theorem reopen_after_close_witness:
  "\<exists>j x y. SortMergeJoin_new (TableSchema_new []) [(colidx_expr 0, True)] [(colidx_expr 0, True)]
      (TupleIterator_new [] (TableSchema_new [])) (TupleIterator_new [] (TableSchema_new [])) = Inr j \<and>
    smj_close tuple_ops tuple_ops (((fst j)\<lparr>smj_open := True, left_child_read := True, right_child_read := True,
      left_sorted_data := [([FBigInt 1], Tuple_new [FBigInt 1])], right_sorted_data := [([FBigInt 1], Tuple_new [FBigInt 1])],
      l_end := 1, r_end := 1\<rparr>, snd j), ()) = Some (x, Inr ()) \<and>
    smj_open_op tuple_ops tuple_ops x = Some (y, Inr ()) \<and> smj_next tuple_ops tuple_ops y = None"
proof -
  obtain j where j: "SortMergeJoin_new (TableSchema_new []) [(colidx_expr 0, True)] [(colidx_expr 0, True)]
      (TupleIterator_new [] (TableSchema_new [])) (TupleIterator_new [] (TableSchema_new [])) = Inr j"
    "l_first (fst j) = 0" "r_first (fst j) = 0" "l_cursor (fst j) = 0" "r_cursor (fst j) = 0"
    by (simp add: SortMergeJoin_new_def)
  let ?s = "(fst j)\<lparr>smj_open := True, left_child_read := True, right_child_read := True,
      left_sorted_data := [([FBigInt 1], Tuple_new [FBigInt 1])], right_sorted_data := [([FBigInt 1], Tuple_new [FBigInt 1])],
      l_end := 1, r_end := 1\<rparr>"
  have "smj_match ?s" using j by (simp add: smj_match_def)
  with reopen_after_close [of ?s "[]" "TableSchema_new []" "()" tuple_ops tuple_ops "fst (snd j)" "snd (snd j)"] j(1) show ?thesis by auto
qed

end
