(* ===== verification/Plans.thy ===== *)
theory Plans
  imports ByteCode "HOL-Library.AList"
begin

text \<open>
  Logical and physical plans: common/src/query/logical_expr/logical_rel_expr.rs, rename.rs, aggregate.rs, scan.rs,
  query/join_type.rs and query/physical_expr/physical_rel_expr.rs. A \<open>HashMap\<close> of columns is an association list in
  the order in which it is iterated; where the code collects pairs into a map, \<open>collect_map\<close> keeps the last value
  of every key. The functions of \<open>Plan\<close> recurse through the plans in expressions with \<open>map_Expression\<close>.
\<close>

section \<open>Logical plans\<close>

datatype JoinType = Inner | LeftOuter | RightOuter | FullOuter | CrossJoinType

type_synonym TupleAssignments = "(nat \<times> Field) list"

datatype LogicalRelExpr =
    LScan ContainerId string "ColumnId list"
  | LIndexScan ContainerId string "ColumnId list" ContainerId "LogicalRelExpr Expression list"
  | LDelete ContainerId LogicalRelExpr
  | LUpdate ContainerId LogicalRelExpr TupleAssignments
  | LSelect LogicalRelExpr "LogicalRelExpr Expression list"
  | LJoin JoinType LogicalRelExpr LogicalRelExpr "LogicalRelExpr Expression list"
  | LProject LogicalRelExpr "ColumnId list"
  | LOrderBy LogicalRelExpr "(ColumnId \<times> bool \<times> bool) list"
  | LAggregate LogicalRelExpr "ColumnId list" "(ColumnId \<times> ColumnId \<times> AggOp) list"
  | LMap LogicalRelExpr "(ColumnId \<times> LogicalRelExpr Expression) list"
  | LFlatMap LogicalRelExpr LogicalRelExpr
  | LRename LogicalRelExpr "(ColumnId \<times> ColumnId) list"

definition collect_map :: "('k \<times> 'v) list \<Rightarrow> ('k \<times> 'v) list" where
  "collect_map xs = fold (\<lambda>(k, v). AList.update k v) xs []"

text \<open>Expressions whose plans have been replaced already.\<close>

abbreviation expr_columns :: "ColumnId set Expression \<Rightarrow> ColumnId set" where
  "expr_columns \<equiv> expr_free (\<lambda>s. s)"

abbreviation expr_rename :: "(ColumnId \<rightharpoonup> ColumnId) \<Rightarrow> 'p Expression \<Rightarrow> 'p Expression" where
  "expr_rename \<equiv> expr_replace_variables (\<lambda>_ p. p)"

primrec log_replace_variables :: "(ColumnId \<rightharpoonup> ColumnId) \<Rightarrow> LogicalRelExpr \<Rightarrow> LogicalRelExpr" where
  "log_replace_variables m (LScan cid name cols) = LScan cid name (map (ren m) cols)"
| "log_replace_variables m (LIndexScan cid name cols idx kvs) = LIndexScan cid name (map (ren m) cols) idx kvs"
| "log_replace_variables m (LDelete t src) = LDelete t (log_replace_variables m src)"
| "log_replace_variables m (LUpdate t src as) = LUpdate t (log_replace_variables m src) as"
| "log_replace_variables m (LSelect src ps) = LSelect (log_replace_variables m src)
     (map (expr_rename m) (map (map_Expression (log_replace_variables m)) ps))"
| "log_replace_variables m (LJoin jt l r ps) = LJoin jt (log_replace_variables m l) (log_replace_variables m r)
     (map (expr_rename m) (map (map_Expression (log_replace_variables m)) ps))"
| "log_replace_variables m (LProject src cols) = LProject (log_replace_variables m src) (map (ren m) cols)"
| "log_replace_variables m (LOrderBy src cols) =
     LOrderBy (log_replace_variables m src) (map (\<lambda>(c, asc, nulls). (ren m c, asc, nulls)) cols)"
| "log_replace_variables m (LAggregate src gb as) =
     LAggregate (log_replace_variables m src) (map (ren m) gb) (map (\<lambda>(d, s, op). (ren m d, ren m s, op)) as)"
| "log_replace_variables m (LMap src es) = LMap (log_replace_variables m src)
     (map (map_prod (ren m) (expr_rename m)) (map (map_prod (\<lambda>c. c) (map_Expression (log_replace_variables m))) es))"
| "log_replace_variables m (LFlatMap src f) = LFlatMap (log_replace_variables m src) (log_replace_variables m f)"
| "log_replace_variables m (LRename src sd) =
     LRename (log_replace_variables m src) (collect_map (map (map_prod (ren m) (ren m)) sd))"

text \<open>The attribute set. A rename removes and inserts the columns one after the other.\<close>

definition rename_att :: "(ColumnId \<times> ColumnId) list \<Rightarrow> ColumnId set \<Rightarrow> ColumnId set" where
  "rename_att sd A = fold (\<lambda>(s, d) A. insert d (A - {s})) sd A"

primrec log_att :: "LogicalRelExpr \<Rightarrow> ColumnId set" where
  "log_att (LScan cid name cols) = set cols"
| "log_att (LIndexScan cid name cols idx kvs) = set cols"
| "log_att (LDelete t src) = log_att src"
| "log_att (LUpdate t src as) = log_att src"
| "log_att (LSelect src ps) = log_att src"
| "log_att (LJoin jt l r ps) = log_att l \<union> log_att r"
| "log_att (LProject src cols) = set cols"
| "log_att (LOrderBy src cols) = log_att src"
| "log_att (LAggregate src gb as) = set gb \<union> set (map fst as)"
| "log_att (LMap src es) = log_att src \<union> set (map fst es)"
| "log_att (LFlatMap src f) = log_att src \<union> log_att f"
| "log_att (LRename src sd) = rename_att sd (log_att src)"

primrec log_free :: "LogicalRelExpr \<Rightarrow> ColumnId set" where
  "log_free (LScan cid name cols) = {}"
| "log_free (LIndexScan cid name cols idx kvs) = \<Union> (set (map expr_columns (map (map_Expression log_free) kvs)))"
| "log_free (LDelete t src) = log_free src"
| "log_free (LUpdate t src as) = log_free src"
| "log_free (LSelect src ps) =
     (log_free src \<union> \<Union> (set (map expr_columns (map (map_Expression log_free) ps)))) - log_att src"
| "log_free (LJoin jt l r ps) =
     (log_free l \<union> log_free r \<union> \<Union> (set (map expr_columns (map (map_Expression log_free) ps)))) - (log_att l \<union> log_att r)"
| "log_free (LProject src cols) = (log_free src \<union> set cols) - log_att src"
| "log_free (LOrderBy src cols) = (log_free src \<union> set (map fst cols)) - log_att src"
| "log_free (LAggregate src gb as) = (log_free src \<union> set gb \<union> set (map (fst \<circ> snd) as)) - log_att src"
| "log_free (LMap src es) =
     (log_free src \<union> \<Union> (set (map (expr_columns \<circ> snd) (map (map_prod (\<lambda>c. c) (map_Expression log_free)) es)))) - log_att src"
| "log_free (LFlatMap src f) = (log_free src \<union> log_free f) - log_att src"
| "log_free (LRename src sd) = log_free src"

definition logical_scan :: "ContainerId \<Rightarrow> string \<Rightarrow> ColumnId list \<Rightarrow> LogicalRelExpr" where
  "logical_scan cid name cols = LScan cid name cols"

definition aggregate :: "LogicalRelExpr \<Rightarrow> ColumnId list \<Rightarrow> (ColumnId \<times> ColumnId \<times> AggOp) list \<Rightarrow> LogicalRelExpr" where
  "aggregate p gb as = LAggregate p gb as"

fun rename_to :: "LogicalRelExpr \<Rightarrow> (ColumnId \<times> ColumnId) list \<Rightarrow> LogicalRelExpr" where
  "rename_to (LRename src existing) sd = rename_to src (map (map_prod (\<lambda>s. s) (ren (map_of sd))) existing)"
| "rename_to p sd = LRename p sd"

section \<open>Physical plans\<close>

datatype PhysicalRelExpr =
    PScan ContainerId string "ColumnId list" "u64 option"
  | PIndexScan ContainerId string "ColumnId list" ContainerId "PhysicalRelExpr Expression list" "u64 option"
  | PDelete ContainerId PhysicalRelExpr
  | PUpdate ContainerId PhysicalRelExpr TupleAssignments
  | PSelect PhysicalRelExpr "PhysicalRelExpr Expression list" "u64 option"
  | PCrossJoin JoinType PhysicalRelExpr PhysicalRelExpr "PhysicalRelExpr Expression list" "u64 option"
  | PNestedLoopJoin JoinType PhysicalRelExpr PhysicalRelExpr "PhysicalRelExpr Expression list" "u64 option"
  | PHashJoin JoinType PhysicalRelExpr PhysicalRelExpr "PhysicalRelExpr Expression list" "u64 option"
  | PSortMergeJoin JoinType PhysicalRelExpr PhysicalRelExpr "PhysicalRelExpr Expression list" "u64 option"
  | PProject PhysicalRelExpr "ColumnId list" "u64 option"
  | PSort PhysicalRelExpr "(ColumnId \<times> bool \<times> bool) list" "u64 option"
  | PHashAggregate PhysicalRelExpr "ColumnId list" "(ColumnId \<times> ColumnId \<times> AggOp) list" "u64 option"
  | PMap PhysicalRelExpr "(ColumnId \<times> PhysicalRelExpr Expression) list" "u64 option"
  | PFlatMap PhysicalRelExpr PhysicalRelExpr "u64 option"
  | PRename PhysicalRelExpr "(ColumnId \<times> ColumnId) list" "u64 option"

primrec phys_replace_variables :: "(ColumnId \<rightharpoonup> ColumnId) \<Rightarrow> PhysicalRelExpr \<Rightarrow> PhysicalRelExpr" where
  "phys_replace_variables m (PScan cid name cols h) = PScan cid name (map (ren m) cols) h"
| "phys_replace_variables m (PIndexScan cid name cols idx kvs h) = PIndexScan cid name (map (ren m) cols) idx kvs h"
| "phys_replace_variables m (PDelete t src) = PDelete t (phys_replace_variables m src)"
| "phys_replace_variables m (PUpdate t src as) = PUpdate t (phys_replace_variables m src) as"
| "phys_replace_variables m (PSelect src ps h) = PSelect (phys_replace_variables m src)
     (map (expr_rename m) (map (map_Expression (phys_replace_variables m)) ps)) h"
| "phys_replace_variables m (PCrossJoin jt l r ps h) = PCrossJoin jt (phys_replace_variables m l) (phys_replace_variables m r)
     (map (expr_rename m) (map (map_Expression (phys_replace_variables m)) ps)) h"
| "phys_replace_variables m (PNestedLoopJoin jt l r ps h) = PNestedLoopJoin jt (phys_replace_variables m l) (phys_replace_variables m r)
     (map (expr_rename m) (map (map_Expression (phys_replace_variables m)) ps)) h"
| "phys_replace_variables m (PHashJoin jt l r ps h) = PHashJoin jt (phys_replace_variables m l) (phys_replace_variables m r)
     (map (expr_rename m) (map (map_Expression (phys_replace_variables m)) ps)) h"
| "phys_replace_variables m (PSortMergeJoin jt l r ps h) = PSortMergeJoin jt (phys_replace_variables m l) (phys_replace_variables m r)
     (map (expr_rename m) (map (map_Expression (phys_replace_variables m)) ps)) h"
| "phys_replace_variables m (PProject src cols h) = PProject (phys_replace_variables m src) (map (ren m) cols) h"
| "phys_replace_variables m (PSort src cols h) =
     PSort (phys_replace_variables m src) (map (\<lambda>(c, asc, nulls). (ren m c, asc, nulls)) cols) h"
| "phys_replace_variables m (PHashAggregate src gb as h) =
     PHashAggregate (phys_replace_variables m src) (map (ren m) gb) (map (\<lambda>(d, s, op). (ren m d, ren m s, op)) as) h"
| "phys_replace_variables m (PMap src es h) = PMap (phys_replace_variables m src)
     (map (map_prod (ren m) (expr_rename m)) (map (map_prod (\<lambda>c. c) (map_Expression (phys_replace_variables m))) es)) h"
| "phys_replace_variables m (PFlatMap src f h) = PFlatMap (phys_replace_variables m src) (phys_replace_variables m f) h"
| "phys_replace_variables m (PRename src sd h) =
     PRename (phys_replace_variables m src) (collect_map (map (map_prod (ren m) (ren m)) sd)) h"

primrec phys_att :: "PhysicalRelExpr \<Rightarrow> ColumnId set" where
  "phys_att (PScan cid name cols h) = set cols"
| "phys_att (PIndexScan cid name cols idx kvs h) = set cols"
| "phys_att (PDelete t src) = phys_att src"
| "phys_att (PUpdate t src as) = phys_att src"
| "phys_att (PSelect src ps h) = phys_att src"
| "phys_att (PCrossJoin jt l r ps h) = phys_att l \<union> phys_att r"
| "phys_att (PNestedLoopJoin jt l r ps h) = phys_att l \<union> phys_att r"
| "phys_att (PHashJoin jt l r ps h) = phys_att l \<union> phys_att r"
| "phys_att (PSortMergeJoin jt l r ps h) = phys_att l \<union> phys_att r"
| "phys_att (PProject src cols h) = set cols"
| "phys_att (PSort src cols h) = phys_att src"
| "phys_att (PHashAggregate src gb as h) = set gb \<union> set (map fst as)"
| "phys_att (PMap src es h) = phys_att src \<union> set (map fst es)"
| "phys_att (PFlatMap src f h) = phys_att src \<union> phys_att f"
| "phys_att (PRename src sd h) = rename_att sd (phys_att src)"

primrec phys_free :: "PhysicalRelExpr \<Rightarrow> ColumnId set" where
  "phys_free (PScan cid name cols h) = {}"
| "phys_free (PIndexScan cid name cols idx kvs h) = \<Union> (set (map expr_columns (map (map_Expression phys_free) kvs)))"
| "phys_free (PDelete t src) = phys_free src"
| "phys_free (PUpdate t src as) = phys_free src"
| "phys_free (PSelect src ps h) =
     (phys_free src \<union> \<Union> (set (map expr_columns (map (map_Expression phys_free) ps)))) - phys_att src"
| "phys_free (PCrossJoin jt l r ps h) =
     (phys_free l \<union> phys_free r \<union> \<Union> (set (map expr_columns (map (map_Expression phys_free) ps)))) - (phys_att l \<union> phys_att r)"
| "phys_free (PNestedLoopJoin jt l r ps h) =
     (phys_free l \<union> phys_free r \<union> \<Union> (set (map expr_columns (map (map_Expression phys_free) ps)))) - (phys_att l \<union> phys_att r)"
| "phys_free (PHashJoin jt l r ps h) =
     (phys_free l \<union> phys_free r \<union> \<Union> (set (map expr_columns (map (map_Expression phys_free) ps)))) - (phys_att l \<union> phys_att r)"
| "phys_free (PSortMergeJoin jt l r ps h) =
     (phys_free l \<union> phys_free r \<union> \<Union> (set (map expr_columns (map (map_Expression phys_free) ps)))) - (phys_att l \<union> phys_att r)"
| "phys_free (PProject src cols h) = (phys_free src \<union> set cols) - phys_att src"
| "phys_free (PSort src cols h) = (phys_free src \<union> set (map fst cols)) - phys_att src"
| "phys_free (PHashAggregate src gb as h) = (phys_free src \<union> set gb \<union> set (map (fst \<circ> snd) as)) - phys_att src"
| "phys_free (PMap src es h) =
     (phys_free src \<union> \<Union> (set (map (expr_columns \<circ> snd) (map (map_prod (\<lambda>c. c) (map_Expression phys_free)) es)))) - phys_att src"
| "phys_free (PFlatMap src f h) = (phys_free src \<union> phys_free f) - phys_att src"
| "phys_free (PRename src sd h) = phys_free src"

primrec get_tables_involved :: "PhysicalRelExpr \<Rightarrow> ContainerId list \<Rightarrow> ContainerId list" where
  "get_tables_involved (PScan cid name cols h) cs = cs @ [cid]"
| "get_tables_involved (PIndexScan cid name cols idx kvs h) cs = cs @ [cid]"
| "get_tables_involved (PDelete t src) cs = get_tables_involved src cs"
| "get_tables_involved (PUpdate t src as) cs = get_tables_involved src cs"
| "get_tables_involved (PSelect src ps h) cs = get_tables_involved src cs"
| "get_tables_involved (PCrossJoin jt l r ps h) cs = get_tables_involved r (get_tables_involved l cs)"
| "get_tables_involved (PNestedLoopJoin jt l r ps h) cs = get_tables_involved r (get_tables_involved l cs)"
| "get_tables_involved (PHashJoin jt l r ps h) cs = get_tables_involved r (get_tables_involved l cs)"
| "get_tables_involved (PSortMergeJoin jt l r ps h) cs = get_tables_involved r (get_tables_involved l cs)"
| "get_tables_involved (PProject src cols h) cs = get_tables_involved src cs"
| "get_tables_involved (PSort src cols h) cs = get_tables_involved src cs"
| "get_tables_involved (PHashAggregate src gb as h) cs = get_tables_involved src cs"
| "get_tables_involved (PMap src es h) cs = get_tables_involved src cs"
| "get_tables_involved (PFlatMap src f h) cs = get_tables_involved f (get_tables_involved src cs)"
| "get_tables_involved (PRename src sd h) cs = get_tables_involved src cs"

text \<open>The translation: a join on one equality becomes a hash join, every other join a nested loop.\<close>

fun is_single_eq_predicate :: "'p Expression list \<Rightarrow> bool" where
  "is_single_eq_predicate [Binary Eq _ _] = True"
| "is_single_eq_predicate _ = False"

primrec to_physical_plan :: "LogicalRelExpr \<Rightarrow> PhysicalRelExpr" where
  "to_physical_plan (LScan cid name cols) = PScan cid name cols None"
| "to_physical_plan (LIndexScan cid name cols idx kvs) = PIndexScan cid name cols idx
     (map (to_physical_expression (\<lambda>p. p)) (map (map_Expression to_physical_plan) kvs)) None"
| "to_physical_plan (LDelete t src) = PDelete t (to_physical_plan src)"
| "to_physical_plan (LUpdate t src as) = PUpdate t (to_physical_plan src) as"
| "to_physical_plan (LSelect src ps) = PSelect (to_physical_plan src)
     (map (to_physical_expression (\<lambda>p. p)) (map (map_Expression to_physical_plan) ps)) None"
| "to_physical_plan (LJoin jt l r ps) =
     (let ps = [combine_preds (map (to_physical_expression (\<lambda>p. p)) (map (map_Expression to_physical_plan) ps))] in
      if jt = Inner \<and> is_single_eq_predicate ps
      then PHashJoin jt (to_physical_plan l) (to_physical_plan r) ps None
      else PNestedLoopJoin jt (to_physical_plan l) (to_physical_plan r) ps None)"
| "to_physical_plan (LProject src cols) = PProject (to_physical_plan src) cols None"
| "to_physical_plan (LOrderBy src cols) = PSort (to_physical_plan src) cols None"
| "to_physical_plan (LAggregate src gb as) = PHashAggregate (to_physical_plan src) gb as None"
| "to_physical_plan (LMap src es) = PMap (to_physical_plan src)
     (map (map_prod (\<lambda>c. c) (to_physical_expression (\<lambda>p. p))) (map (map_prod (\<lambda>c. c) (map_Expression to_physical_plan)) es)) None"
| "to_physical_plan (LFlatMap src f) = PFlatMap (to_physical_plan src) (to_physical_plan f) None"
| "to_physical_plan (LRename src sd) = PRename (to_physical_plan src) sd None"

end
