(* ===== verification/Rewrite.thy ===== *)
theory Rewrite
  imports Plans
begin

text \<open>
  The rewriting of logical plans while they are built: common/src/query/rules.rs, physical/col_id_generator.rs and
  select.rs, join.rs, map.rs, project.rs, flatmap.rs and hoist.rs of common/src/query/logical_expr. The methods call each
  other on the plans they build, so a call is a value, the body of each method takes the function \<open>f\<close> that
  answers calls, and \<open>rewrite\<close> ties the knot; \<open>None\<close> is a panic or a rewriting that does not end. The order in which
  a \<open>HashSet\<close> is iterated is the parameter \<open>it\<close>; the state is the counter of fresh column ids.
\<close>

section \<open>Rules and fresh columns\<close>

datatype Rule = Hoist | Decorrelate | SelectionPushdown | ProjectionPushdown

type_synonym Rules = "Rule set"

definition Rules_new :: Rules where "Rules_new = {}"

definition Rules_default :: Rules where "Rules_default = {Hoist, Decorrelate, SelectionPushdown, ProjectionPushdown}"

definition enable :: "Rules \<Rightarrow> Rule \<Rightarrow> Rules" where "enable ru r = insert r ru"

definition disable :: "Rules \<Rightarrow> Rule \<Rightarrow> Rules" where "disable ru r = ru - {r}"

definition is_enabled :: "Rules \<Rightarrow> Rule \<Rightarrow> bool" where "is_enabled ru r = (r \<in> ru)"

type_synonym ColIdGenerator = nat

definition ColIdGenerator_new :: ColIdGenerator where "ColIdGenerator_new = 10000"

definition col_id_next :: "ColIdGenerator \<Rightarrow> ColumnId \<times> ColIdGenerator" where "col_id_next g = (g, g + 1)"

section \<open>Calls\<close>

type_synonym expr = "LogicalRelExpr Expression"

datatype call =
    CSelect bool LogicalRelExpr "expr list"
  | CJoin bool JoinType LogicalRelExpr LogicalRelExpr "expr list"
  | CMap bool LogicalRelExpr "(ColumnId \<times> expr) list"
  | CProject bool LogicalRelExpr "ColumnId list" bool
  | CFlatmap bool LogicalRelExpr LogicalRelExpr
  | CHoist LogicalRelExpr ColumnId expr

type_synonym answer = "call \<Rightarrow> ColIdGenerator \<Rightarrow> (LogicalRelExpr \<times> ColIdGenerator) option"

type_synonym set_iter = "ColumnId set \<Rightarrow> ColumnId list"

abbreviation free_of :: "expr \<Rightarrow> ColumnId set" where "free_of \<equiv> expr_free log_free"

abbreviation bound :: "expr \<Rightarrow> LogicalRelExpr \<Rightarrow> bool" where "bound \<equiv> bound_by log_free log_att"

section \<open>Select\<close>

text \<open>A predicate that is a mapped column becomes the mapped expression.\<close>

definition inline_preds :: "LogicalRelExpr \<Rightarrow> (ColumnId \<times> expr) list \<Rightarrow> expr list \<Rightarrow> expr list" where
  "inline_preds src es ps =
     fold (\<lambda>(d, e). map (\<lambda>p. case p of ColRef c \<Rightarrow> if c = d \<and> bound e src then e else p | _ \<Rightarrow> p)) es ps"

definition select_body :: "Rules \<Rightarrow> answer \<Rightarrow> bool \<Rightarrow> LogicalRelExpr \<Rightarrow> expr list \<Rightarrow> ColIdGenerator \<Rightarrow>
    (LogicalRelExpr \<times> ColIdGenerator) option" where
  "select_body ru f opt p ps0 g =
     (if ps0 = [] then Some (p, g)
      else let ps = concat (map split_conjunction ps0) in
        if opt \<and> is_enabled ru SelectionPushdown then
          (case p of
             LSelect src qs \<Rightarrow> f (CSelect True src (qs @ ps)) g
           | LJoin jt l r qs \<Rightarrow> f (CJoin True jt l r (qs @ ps)) g
           | LAggregate src gb as \<Rightarrow> do {
               let (push, keep) = List.partition (\<lambda>e. free_of e \<subseteq> set gb) ps;
               (src, g) \<leftarrow> f (CSelect True src push) g;
               f (CSelect False (aggregate src gb as) keep) g }
           | LMap src es \<Rightarrow> do {
               let ps = inline_preds src es ps;
               let (push, keep) = List.partition (\<lambda>e. free_of e \<inter> set (map fst es) = {}) ps;
               (src, g) \<leftarrow> f (CSelect True src push) g;
               (m, g) \<leftarrow> f (CMap False src es) g;
               f (CSelect False m keep) g }
           | _ \<Rightarrow> f (CSelect False p ps) g)
        else Some (LSelect p ps, g))"

section \<open>Join\<close>

definition join_body :: "answer \<Rightarrow> bool \<Rightarrow> JoinType \<Rightarrow> LogicalRelExpr \<Rightarrow> LogicalRelExpr \<Rightarrow> expr list \<Rightarrow> ColIdGenerator \<Rightarrow>
    (LogicalRelExpr \<times> ColIdGenerator) option" where
  "join_body f opt jt l r ps0 g =
     (if ps0 = [] then Some (LJoin jt l r [], g)
      else let ps = concat (map split_conjunction ps0) in
        if opt then
          (let (pl, rest) = List.partition (\<lambda>p. bound p l) ps;
               (pr, keep) = List.partition (\<lambda>p. bound p r) rest in
           if jt \<in> {Inner, LeftOuter, CrossJoinType} \<and> (pl \<noteq> [] \<or> pr \<noteq> []) then do {
             let is_inner = list_all (\<lambda>e. intersect_with log_free log_att e r) keep;
             let jt = (if is_inner \<and> jt = CrossJoinType then Inner else jt);
             (l, g) \<leftarrow> f (CSelect True l pl) g;
             (r, g) \<leftarrow> f (CSelect True r pr) g;
             f (CJoin False jt l r keep) g }
           else let (push, keep) = List.partition (\<lambda>p. bound p r) ps in
             if jt \<in> {Inner, RightOuter, CrossJoinType} \<and> push \<noteq> [] then do {
               (r, g) \<leftarrow> f (CSelect True r push) g;
               f (CJoin False jt l r keep) g }
             else if jt = CrossJoinType then do {
               assert_that (\<Union> (set (map free_of ps)) \<subseteq> log_att l \<union> log_att r);
               f (CJoin False Inner l r ps) g }
             else Some (LJoin jt l r ps, g))
        else Some (LJoin jt l r ps, g))"

section \<open>Map\<close>

definition swap_remove :: "nat \<Rightarrow> 'a list \<Rightarrow> 'a list" where
  "swap_remove i xs = (if Suc i = length xs then butlast xs else (butlast xs)[i := last xs])"

fun find_subquery :: "(ColumnId \<times> expr) list \<Rightarrow> nat option" where
  "find_subquery [] = None"
| "find_subquery ((d, e) # es) = (if has_subquery e then Some 0 else map_option Suc (find_subquery es))"

text \<open>Each new expression may use the columns of the map below and the new ones before it.\<close>

definition merge_exprs :: "(ColumnId \<times> expr) list \<Rightarrow> (ColumnId \<times> expr) list \<Rightarrow> (ColumnId \<times> expr) list" where
  "merge_exprs existing es =
     fold (\<lambda>(d, e) ex. ex @ [(d, replace_variables_with_exprs (map_of (rev ex)) e)]) es existing"

definition map_body :: "Rules \<Rightarrow> answer \<Rightarrow> bool \<Rightarrow> LogicalRelExpr \<Rightarrow> (ColumnId \<times> expr) list \<Rightarrow> ColIdGenerator \<Rightarrow>
    (LogicalRelExpr \<times> ColIdGenerator) option" where
  "map_body ru f opt p es g =
     (if es = [] then Some (p, g)
      else if opt then
        (case if is_enabled ru Hoist then find_subquery es else None of
           Some i \<Rightarrow> do {
             let (d, e) = es ! i;
             (m, g) \<leftarrow> f (CMap True p (swap_remove i es)) g;
             f (CHoist m d e) g }
         | None \<Rightarrow>
             (case p of
                LMap src existing \<Rightarrow> do {
                  assert_that (list_all (\<lambda>(_, e). \<not> has_subquery e) existing);
                  assert_that (list_all (\<lambda>(_, e). \<not> has_subquery e) es);
                  f (CMap True src (merge_exprs existing es)) g }
              | _ \<Rightarrow> f (CMap False p es) g))
      else Some (LMap p es, g))"

section \<open>Project\<close>

definition union_cols :: "set_iter \<Rightarrow> ColumnId set \<Rightarrow> ColumnId list \<Rightarrow> ColumnId list" where
  "union_cols it fr cols = cols @ filter (\<lambda>c. c \<notin> set cols) (it fr)"

definition intersect_cols :: "ColumnId set \<Rightarrow> ColumnId list \<Rightarrow> ColumnId list" where
  "intersect_cols att cols = filter (\<lambda>c. c \<in> att) cols"

definition project_body :: "Rules \<Rightarrow> set_iter \<Rightarrow> answer \<Rightarrow> bool \<Rightarrow> LogicalRelExpr \<Rightarrow> ColumnId list \<Rightarrow> bool \<Rightarrow> ColIdGenerator \<Rightarrow>
    (LogicalRelExpr \<times> ColIdGenerator) option" where
  "project_body ru it f opt p cols is_wildcard g =
     (if is_wildcard then Some (p, g)
      else let outer_refs = log_free p in
        if opt \<and> is_enabled ru ProjectionPushdown then
          (case p of
             LProject src _ \<Rightarrow> f (CProject True src cols False) g
           | LMap src es \<Rightarrow> do {
               let es = filter (\<lambda>(d, _). d \<in> set cols) es;
               let fr = \<Union> (set (map (free_of \<circ> snd) es)) - outer_refs;
               let new_cols = filter (\<lambda>c. c \<notin> set (map fst es)) (union_cols it fr cols);
               (s, g) \<leftarrow> f (CProject True src new_cols False) g;
               (m, g) \<leftarrow> f (CMap True s es) g;
               f (CProject False m cols False) g }
           | LSelect src ps \<Rightarrow> do {
               let new_cols = union_cols it (\<Union> (set (map free_of ps))) cols;
               (s, g) \<leftarrow> f (CProject True src new_cols False) g;
               (s, g) \<leftarrow> f (CSelect True s ps) g;
               f (CProject False s cols False) g }
           | LJoin jt l r ps \<Rightarrow> do {
               let new_cols = union_cols it (\<Union> (set (map free_of ps))) cols;
               let left_proj = intersect_cols (log_att l) new_cols;
               let right_proj = intersect_cols (log_att r) new_cols;
               (l, g) \<leftarrow> f (CProject True l left_proj False) g;
               (r, g) \<leftarrow> f (CProject True r right_proj False) g;
               (j, g) \<leftarrow> f (CJoin True jt l r ps) g;
               f (CProject False j cols False) g }
           | LRename src sd \<Rightarrow> do {
               let sd = filter (\<lambda>(_, d). d \<in> set cols) sd;
               let rev = collect_map (map (\<lambda>(s, d). (d, s)) sd);
               let new_cols = map (ren (map_of rev)) cols;
               (s, g) \<leftarrow> f (CProject True src new_cols False) g;
               Some (rename_to s sd, g) }
           | LScan cid name names \<Rightarrow> Some (logical_scan cid name (filter (\<lambda>c. c \<in> set cols) names), g)
           | _ \<Rightarrow> f (CProject False p cols False) g)
        else Some (LProject p cols, g))"

section \<open>Flat map\<close>

definition rename :: "set_iter \<Rightarrow> LogicalRelExpr \<Rightarrow> ColIdGenerator \<Rightarrow> LogicalRelExpr \<times> (ColumnId \<times> ColumnId) list \<times> ColIdGenerator" where
  "rename it p g =
     (let (cols, g) = fold (\<lambda>c (cols, g). let (d, g) = col_id_next g in (cols @ [(c, d)], g)) (it (log_att p)) ([], g)
      in (rename_to p cols, cols, g))"

definition count_columns :: "(ColumnId \<times> ColumnId \<times> AggOp) list \<Rightarrow> ColumnId list" where
  "count_columns as = map fst (filter (\<lambda>(_, _, op). op = Count) as)"

definition flatmap_body :: "Rules \<Rightarrow> set_iter \<Rightarrow> answer \<Rightarrow> bool \<Rightarrow> LogicalRelExpr \<Rightarrow> LogicalRelExpr \<Rightarrow> ColIdGenerator \<Rightarrow>
    (LogicalRelExpr \<times> ColIdGenerator) option" where
  "flatmap_body ru it f opt p func g =
     (if opt \<and> is_enabled ru Decorrelate then
        if log_free func = {} then f (CJoin True CrossJoinType p func []) g
        else (case func of
             LProject src cols \<Rightarrow> do {
               (x, g) \<leftarrow> f (CFlatmap True p src) g;
               f (CProject True x (cols @ it (log_att p)) True) g }
           | LMap src es \<Rightarrow> do {
               (x, g) \<leftarrow> f (CFlatmap True p src) g;
               f (CMap True x es) g }
           | LSelect src ps \<Rightarrow> do {
               (x, g) \<leftarrow> f (CFlatmap True p src) g;
               f (CSelect True x ps) g }
           | LAggregate src gb as \<Rightarrow>
               (let counts = count_columns as in
                if counts = [] then do {
                  let gb = it (set gb \<union> log_att p);
                  (x, g) \<leftarrow> f (CFlatmap True p src) g;
                  Some (aggregate x gb as, g) }
                else do {
                  let (copy, new_col_ids, g) = rename it p g;
                  let copy_att = log_att copy;
                  let src = log_replace_variables (map_of new_col_ids) src;
                  (x, g) \<leftarrow> f (CFlatmap True copy src) g;
                  let copy = aggregate x (gb @ it copy_att) as;
                  (plan, g) \<leftarrow> f (CJoin True LeftOuter p copy
                    (map (\<lambda>(s, d). expr_eq (ColRef s) (ColRef d)) new_col_ids)) g;
                  let project_att = it (log_att plan - copy_att);
                  (plan, g) \<leftarrow> f (CProject True plan project_att False) g;
                  f (CMap True plan (map (\<lambda>c. (c, CaseExpr (ColRef c) [(Lit FNull, expr_int 0)] (ColRef c))) counts)) g })
           | _ \<Rightarrow> Some (LFlatMap p func, g))
      else Some (LFlatMap p func, g))"

section \<open>Hoist\<close>

definition hoist_body :: "set_iter \<Rightarrow> answer \<Rightarrow> LogicalRelExpr \<Rightarrow> ColumnId \<Rightarrow> expr \<Rightarrow> ColIdGenerator \<Rightarrow>
    (LogicalRelExpr \<times> ColIdGenerator) option" where
  "hoist_body it f p d e g = (case e of
     Subquery q \<Rightarrow>
       (case it (log_att q) of
          [c] \<Rightarrow> do {
            (rhs, g) \<leftarrow> f (CMap True q [(d, ColRef c)]) g;
            f (CFlatmap True p rhs) g }
        | _ \<Rightarrow> None)
   | Binary op l r \<Rightarrow> do {
       let (lhs_id, g) = col_id_next g;
       let (rhs_id, g) = col_id_next g;
       let att = it (log_att p);
       (x, g) \<leftarrow> f (CHoist p lhs_id l) g;
       (x, g) \<leftarrow> f (CHoist x rhs_id r) g;
       (x, g) \<leftarrow> f (CMap True x [(d, Binary op (ColRef lhs_id) (ColRef rhs_id))]) g;
       f (CProject True x (att @ [d]) False) g }
   | CaseExpr _ _ _ \<Rightarrow> None
   | _ \<Rightarrow> f (CMap True p [(d, e)]) g)"

section \<open>The knot\<close>

definition rewrite_body :: "Rules \<Rightarrow> set_iter \<Rightarrow> answer \<Rightarrow> call \<Rightarrow> ColIdGenerator \<Rightarrow> (LogicalRelExpr \<times> ColIdGenerator) option" where
  "rewrite_body ru it f c g = (case c of
     CSelect opt p ps \<Rightarrow> select_body ru f opt p ps g
   | CJoin opt jt l r ps \<Rightarrow> join_body f opt jt l r ps g
   | CMap opt p es \<Rightarrow> map_body ru f opt p es g
   | CProject opt p cols w \<Rightarrow> project_body ru it f opt p cols w g
   | CFlatmap opt p func \<Rightarrow> flatmap_body ru it f opt p func g
   | CHoist p d e \<Rightarrow> hoist_body it f p d e g)"

text \<open>The bodies are monotone in the answers.\<close>

definition ole :: "'a option \<Rightarrow> 'a option \<Rightarrow> bool" where
  "ole x y \<longleftrightarrow> x = None \<or> x = y"

lemma ole_refl [simp]: "ole x x" "ole None x"
  by (simp_all add: ole_def)

lemma ole_bind: "ole x y \<Longrightarrow> (\<And>a. ole (k a) (k' a)) \<Longrightarrow> ole (Option.bind x k) (Option.bind y k')"
  unfolding ole_def by (cases x; cases y) (simp, simp, simp, fastforce)

lemma ole_prod: "(\<And>a b. x = (a, b) \<Longrightarrow> ole (k a b) (k' a b)) \<Longrightarrow> ole (case x of (a, b) \<Rightarrow> k a b) (case x of (a, b) \<Rightarrow> k' a b)"
  by (cases x) simp

lemmas ole_intros = ole_bind ole_prod

lemma select_body_mono: "(\<And>c g. ole (f c g) (f' c g)) \<Longrightarrow> ole (select_body ru f opt p ps g) (select_body ru f' opt p ps g)"
  by (auto simp: select_body_def Let_def split: LogicalRelExpr.split intro!: ole_intros)

lemma join_body_mono: "(\<And>c g. ole (f c g) (f' c g)) \<Longrightarrow> ole (join_body f opt jt l r ps g) (join_body f' opt jt l r ps g)"
  by (auto simp: join_body_def Let_def intro!: ole_intros)

lemma map_body_mono: "(\<And>c g. ole (f c g) (f' c g)) \<Longrightarrow> ole (map_body ru f opt p es g) (map_body ru f' opt p es g)"
  by (auto simp: map_body_def Let_def split: LogicalRelExpr.split option.split intro!: ole_intros)

lemma project_body_mono:
  "(\<And>c g. ole (f c g) (f' c g)) \<Longrightarrow> ole (project_body ru it f opt p cols w g) (project_body ru it f' opt p cols w g)"
  by (auto simp: project_body_def Let_def split: LogicalRelExpr.split intro!: ole_intros)

lemma flatmap_body_mono:
  "(\<And>c g. ole (f c g) (f' c g)) \<Longrightarrow> ole (flatmap_body ru it f opt p q g) (flatmap_body ru it f' opt p q g)"
  by (auto simp: flatmap_body_def Let_def split: LogicalRelExpr.split intro!: ole_intros)

lemma hoist_body_mono: "(\<And>c g. ole (f c g) (f' c g)) \<Longrightarrow> ole (hoist_body it f p d e g) (hoist_body it f' p d e g)"
  by (auto simp: hoist_body_def Let_def split: Expression.split list.split intro!: ole_intros)

lemma rewrite_body_mono [partial_function_mono]:
  assumes "\<And>c g. mono_option (\<lambda>f. F f c g)"
  shows "mono_option (\<lambda>f. rewrite_body ru it (F f) c g)"
proof -
  have "ole (rewrite_body ru it (F f) c g) (rewrite_body ru it (F f') c g)" if "fun_ord option_ord f f'" for f f'
  proof -
    have "ole (F f c g) (F f' c g)" for c g
      using assms [of c g] that by (auto simp: monotone_def flat_ord_def ole_def)
    then show ?thesis
      by (cases c) (simp_all add: rewrite_body_def select_body_mono join_body_mono map_body_mono project_body_mono
          flatmap_body_mono hoist_body_mono)
  qed
  then show ?thesis by (auto simp: monotone_def flat_ord_def ole_def)
qed

partial_function (option) rewrite :: "Rules \<Rightarrow> set_iter \<Rightarrow> call \<Rightarrow> ColIdGenerator \<Rightarrow> (LogicalRelExpr \<times> ColIdGenerator) option" where
  "rewrite ru it c g = rewrite_body ru it (rewrite ru it) c g"

end
