(* ===== verification/PlanRows.thy ===== *)
theory PlanRows
  imports Rewrite AggLaws ByteCodeProps "HOL-Library.Option_ord" "HOL-Library.List_Lexorder"
begin

text \<open>
  What a logical plan means, as a reference for the rewritings. A row maps column ids to fields; a plan has, in an
  environment of outer columns, a list of rows. A predicate keeps the rows on which it is true.
\<close>

section \<open>Rows\<close>

type_synonym row = "ColumnId \<rightharpoonup> Field"

record db =
  db_rows :: "ContainerId \<Rightarrow> row list"
  db_index :: "ContainerId \<Rightarrow> Field option list \<Rightarrow> row list"

definition true_in :: "row \<Rightarrow> expr list \<Rightarrow> row \<Rightarrow> bool" where
  "true_in env ps r \<longleftrightarrow> list_all (\<lambda>p. expr_eval (env ++ r) p = Some (FBool True)) ps"

definition null_row :: "ColumnId set \<Rightarrow> row" where
  "null_row A = (\<lambda>c. if c \<in> A then Some FNull else None)"

definition inner_rows :: "(row \<Rightarrow> bool) \<Rightarrow> row list \<Rightarrow> row list \<Rightarrow> row list" where
  "inner_rows P ls rs = concat (map (\<lambda>x. filter P (map (\<lambda>y. x ++ y) rs)) ls)"

definition join_rows :: "JoinType \<Rightarrow> (row \<Rightarrow> bool) \<Rightarrow> ColumnId set \<Rightarrow> ColumnId set \<Rightarrow> row list \<Rightarrow> row list \<Rightarrow> row list" where
  "join_rows jt P al ar ls rs = (case jt of
     Inner \<Rightarrow> inner_rows P ls rs
   | CrossJoinType \<Rightarrow> inner_rows P ls rs
   | LeftOuter \<Rightarrow> concat (map (\<lambda>x. if inner_rows P [x] rs = [] then [x ++ null_row ar] else inner_rows P [x] rs) ls)
   | RightOuter \<Rightarrow> concat (map (\<lambda>y. if inner_rows P ls [y] = [] then [null_row al ++ y] else inner_rows P ls [y]) rs)
   | FullOuter \<Rightarrow>
       concat (map (\<lambda>x. if inner_rows P [x] rs = [] then [x ++ null_row ar] else inner_rows P [x] rs) ls) @
       map (\<lambda>y. null_row al ++ y) (filter (\<lambda>y. inner_rows P ls [y] = []) rs))"

definition map_row :: "row \<Rightarrow> (ColumnId \<times> expr) list \<Rightarrow> row \<Rightarrow> row" where
  "map_row env es r = (\<lambda>c. case map_of es c of Some e \<Rightarrow> expr_eval (env ++ r) e | None \<Rightarrow> r c)"

definition rename_row :: "(ColumnId \<times> ColumnId) list \<Rightarrow> row \<Rightarrow> row" where
  "rename_row sd r = (\<lambda>c. case map_of (map prod.swap sd) c of
     Some s \<Rightarrow> r s | None \<Rightarrow> if c \<in> fst ` set sd then None else r c)"

definition row_key :: "ColumnId list \<Rightarrow> row \<Rightarrow> Field option list" where
  "row_key cs r = map r cs"

fun agg_value :: "AggOp \<Rightarrow> Field option list \<Rightarrow> Field option" where
  "agg_value op [] = None"
| "agg_value op (v # vs) = (if None \<in> set (v # vs) then None
     else Option.bind (foldM (col_step op) (init_val (op, the v)) (map the vs)) (\<lambda>a. final_val (Suc (length vs)) (op, a)))"

definition key_row :: "ColumnId list \<Rightarrow> Field option list \<Rightarrow> row" where
  "key_row gb k = (\<lambda>c. case map_of (zip gb k) c of Some v \<Rightarrow> v | None \<Rightarrow> None)"

definition group_row :: "ColumnId list \<Rightarrow> (ColumnId \<times> ColumnId \<times> AggOp) list \<Rightarrow> row list \<Rightarrow> Field option list \<Rightarrow> row" where
  "group_row gb as rs k = (\<lambda>c. case map_of as c of
     Some (s, op) \<Rightarrow> agg_value op (map (\<lambda>r. r s) (filter (\<lambda>r. row_key gb r = k) rs))
   | None \<Rightarrow> key_row gb k c)"

definition group_rows :: "ColumnId list \<Rightarrow> (ColumnId \<times> ColumnId \<times> AggOp) list \<Rightarrow> row list \<Rightarrow> row list" where
  "group_rows gb as rs = map (group_row gb as rs) (sorted_list_of_set (row_key gb ` set rs))"

definition order_rows :: "(ColumnId \<times> bool \<times> bool) list \<Rightarrow> row list \<Rightarrow> row list" where
  "order_rows cols rs =
     sort_by (\<lambda>r s. key_le (map (fst \<circ> snd) cols) (map the (row_key (map fst cols) r)) (map the (row_key (map fst cols) s))) rs"

primrec plan_rows :: "db \<Rightarrow> LogicalRelExpr \<Rightarrow> row \<Rightarrow> row list" where
  "plan_rows db (LScan cid name cols) env = map (\<lambda>r. r |` set cols) (db_rows db cid)"
| "plan_rows db (LIndexScan cid name cols idx kvs) env =
     map (\<lambda>r. r |` set cols) (db_index db idx (map (expr_eval env) kvs))"
| "plan_rows db (LDelete t src) env = []"
| "plan_rows db (LUpdate t src as) env = []"
| "plan_rows db (LSelect src ps) env = filter (true_in env ps) (plan_rows db src env)"
| "plan_rows db (LJoin jt l r ps) env =
     join_rows jt (true_in env ps) (log_att l) (log_att r) (plan_rows db l env) (plan_rows db r env)"
| "plan_rows db (LProject src cols) env = map (\<lambda>r. r |` set cols) (plan_rows db src env)"
| "plan_rows db (LOrderBy src cols) env = order_rows cols (plan_rows db src env)"
| "plan_rows db (LAggregate src gb as) env = group_rows gb as (plan_rows db src env)"
| "plan_rows db (LMap src es) env = map (map_row env es) (plan_rows db src env)"
| "plan_rows db (LFlatMap src f) env =
     concat (map (\<lambda>x. map (\<lambda>y. x ++ y) (plan_rows db f (env ++ x))) (plan_rows db src env))"
| "plan_rows db (LRename src sd) env = map (rename_row sd) (plan_rows db src env)"

section \<open>Well-scoped plans\<close>

text \<open>Plans without subqueries and outer joins, in which every column is bound once: the two sides of a join have
  different columns, a map adds new columns, and a rename renames all columns to new ones.\<close>

definition exprs_ok :: "ColumnId set \<Rightarrow> expr list \<Rightarrow> bool" where
  "exprs_ok A es \<longleftrightarrow> list_all (\<lambda>e. supported e \<and> free_of e \<subseteq> A) es"

text \<open>All columns of a plan, also those that a projection or rename hides.\<close>

primrec log_cols :: "LogicalRelExpr \<Rightarrow> ColumnId set" where
  "log_cols (LScan cid name cols) = set cols"
| "log_cols (LIndexScan cid name cols idx kvs) = set cols"
| "log_cols (LDelete t src) = log_cols src"
| "log_cols (LUpdate t src as) = log_cols src"
| "log_cols (LSelect src ps) = log_cols src"
| "log_cols (LJoin jt l r ps) = log_cols l \<union> log_cols r"
| "log_cols (LProject src cols) = log_cols src \<union> set cols"
| "log_cols (LOrderBy src cols) = log_cols src"
| "log_cols (LAggregate src gb as) = log_cols src \<union> set gb \<union> fst ` set as"
| "log_cols (LMap src es) = log_cols src \<union> fst ` set es"
| "log_cols (LFlatMap src f) = log_cols src \<union> log_cols f"
| "log_cols (LRename src sd) = log_cols src \<union> snd ` set sd"

primrec plan_ok :: "LogicalRelExpr \<Rightarrow> bool" where
  "plan_ok (LScan cid name cols) = True"
| "plan_ok (LIndexScan cid name cols idx kvs) = exprs_ok {} kvs"
| "plan_ok (LDelete t src) = False"
| "plan_ok (LUpdate t src as) = False"
| "plan_ok (LSelect src ps) = (plan_ok src \<and> exprs_ok (log_att src) ps)"
| "plan_ok (LJoin jt l r ps) = (jt \<in> {Inner, CrossJoinType} \<and> plan_ok l \<and> plan_ok r \<and> log_att l \<inter> log_att r = {} \<and>
     exprs_ok (log_att l \<union> log_att r) ps)"
| "plan_ok (LProject src cols) = (plan_ok src \<and> set cols \<subseteq> log_att src)"
| "plan_ok (LOrderBy src cols) = (plan_ok src \<and> fst ` set cols \<subseteq> log_att src)"
| "plan_ok (LAggregate src gb as) = (plan_ok src \<and> set gb \<subseteq> log_att src \<and> (fst \<circ> snd) ` set as \<subseteq> log_att src \<and>
     fst ` set as \<inter> set gb = {})"
| "plan_ok (LMap src es) = (plan_ok src \<and> exprs_ok (log_att src) (map snd es) \<and> distinct (map fst es) \<and>
     fst ` set es \<inter> log_att src = {})"
| "plan_ok (LFlatMap src f) = False"
| "plan_ok (LRename src sd) = (plan_ok src \<and> fst ` set sd = log_att src \<and> distinct (map fst sd) \<and> distinct (map snd sd) \<and>
     snd ` set sd \<inter> log_cols src = {})"

lemma exprs_ok_simps [simp]: "exprs_ok A []" "exprs_ok A (e # es) \<longleftrightarrow> supported e \<and> free_of e \<subseteq> A \<and> exprs_ok A es"
  "exprs_ok A (es @ fs) \<longleftrightarrow> exprs_ok A es \<and> exprs_ok A fs"
  by (simp_all add: exprs_ok_def)

lemma true_in_simps [simp]: "true_in env [] r"
  "true_in env (p # ps) r \<longleftrightarrow> expr_eval (env ++ r) p = Some (FBool True) \<and> true_in env ps r"
  "true_in env (ps @ qs) r \<longleftrightarrow> true_in env ps r \<and> true_in env qs r"
  by (simp_all add: true_in_def)

section \<open>Expressions\<close>

lemma expr_free_map [simp]: "expr_columns (map_Expression f e) = expr_free f e"
  by (induction e) (auto simp: comp_def)

lemma supported_free: "supported e \<Longrightarrow> expr_free pf e = expr_free pf' e"
  by (induction e) auto

lemma split_ok: "supported e \<Longrightarrow> exprs_ok A (split_conjunction e) \<longleftrightarrow> free_of e \<subseteq> A"
  by (induction e rule: split_conjunction.induct) auto

lemma split_true: "supported e \<Longrightarrow> true_in env (split_conjunction e) r \<longleftrightarrow> expr_eval (env ++ r) e = Some (FBool True)"
proof (induction e rule: split_conjunction.induct)
  case (1 l r')
  have and_true: "bin_eval And a b = Some (FBool True) \<longleftrightarrow> a = FBool True \<and> b = FBool True" for a b
    by (cases a; cases b) auto
  with 1 show ?case by (auto simp: and_true split: Option.bind_splits)
qed auto

section \<open>Attributes\<close>

lemma rename_att_eq:
  assumes "fst ` set sd = A" "distinct (map fst sd)" "snd ` set sd \<inter> A = {}"
  shows "rename_att sd A = snd ` set sd"
proof -
  have "fold (\<lambda>(s, d) A. insert d (A - {s})) sd (X \<union> Y) = snd ` set sd \<union> Y"
    if "fst ` set sd = X" "distinct (map fst sd)" "snd ` set sd \<inter> X = {}" "Y \<inter> X = {}" for X Y
    using that
  proof (induction sd arbitrary: X Y)
    case (Cons p sd)
    obtain s d where p: "p = (s, d)" by (cases p)
    have "insert d (X \<union> Y - {s}) = (X - {s}) \<union> insert d Y" using Cons.prems p by auto
    moreover have "fold (\<lambda>(s, d) A. insert d (A - {s})) sd ((X - {s}) \<union> insert d Y) = snd ` set sd \<union> insert d Y"
      using Cons.prems p by (intro Cons.IH) auto
    ultimately show ?case by (auto simp: p)
  qed simp
  from this [of A "{}"] assms show ?thesis by (simp add: rename_att_def)
qed

lemma rename_att_subset: "rename_att sd A \<subseteq> A \<union> snd ` set sd"
  unfolding rename_att_def
proof (induction sd arbitrary: A)
  case (Cons p sd)
  then show ?case by (cases p) (force dest: subsetD [OF Cons.IH])
qed simp

lemma att_cols: "log_att p \<subseteq> log_cols p"
proof (induction p)
  case (LRename src sd)
  then show ?case using rename_att_subset [of sd "log_att src"] by auto
qed auto

lemma finite_att: "finite (log_att p)"
proof (induction p)
  case (LRename src sd)
  then show ?case using finite_subset [OF rename_att_subset [of sd "log_att src"]] by simp
qed auto

lemma plan_ok_rename_att: "plan_ok (LRename src sd) \<Longrightarrow> log_att (LRename src sd) = snd ` set sd"
  using att_cols [of src] rename_att_eq [of sd "log_att src"] by (simp add: Int_commute) blast

lemma exprs_ok_free: "exprs_ok A es \<Longrightarrow> \<Union> (set (map free_of es)) \<subseteq> A"
  by (auto simp: exprs_ok_def list_all_iff)

lemma plan_ok_closed: "plan_ok p \<Longrightarrow> log_free p = {}"
proof (induction p)
  case (LMap src es)
  then show ?case using exprs_ok_free [of "log_att src" "map snd es"] by (auto simp: comp_def)
next
  case (LIndexScan cid name cols idx kvs)
  then show ?case using exprs_ok_free [of "{}" kvs] by (auto simp: comp_def)
next
  case (LSelect src ps)
  then show ?case using exprs_ok_free [of "log_att src" ps] by (auto simp: comp_def)
next
  case (LJoin jt l r ps)
  then show ?case using exprs_ok_free [of "log_att l \<union> log_att r" ps] by (auto simp: comp_def)
qed auto

lemma map_of_dom: "map_of xs k = Some v \<Longrightarrow> k \<in> fst ` set xs"
  using map_of_SomeD by force

lemma dom_map_row: "dom (map_row env es r) \<subseteq> dom r \<union> fst ` set es"
  by (auto simp: map_row_def split: option.splits dest: map_of_dom)

lemma dom_key_row: "dom (key_row gb k) \<subseteq> set gb"
  by (auto simp: key_row_def split: option.splits dest!: map_of_SomeD set_zip_leftD)

lemma inner_rows_in: "r \<in> set (inner_rows P ls rs) \<Longrightarrow> \<exists>x \<in> set ls. \<exists>y \<in> set rs. r = x ++ y"
  by (auto simp: inner_rows_def)

lemma dom_group_row: "dom (group_row gb as rs k) \<subseteq> set gb \<union> fst ` set as"
proof
  fix c assume c: "c \<in> dom (group_row gb as rs k)"
  show "c \<in> set gb \<union> fst ` set as"
  proof (cases "map_of as c")
    case None
    then show ?thesis using c dom_key_row [of gb k] by (auto simp: group_row_def dom_def)
  next
    case (Some x)
    then show ?thesis using map_of_dom [OF Some] by force
  qed
qed

lemma dom_rename_row: "dom q \<subseteq> fst ` set sd \<Longrightarrow> dom (rename_row sd q) \<subseteq> snd ` set sd"
proof
  fix c assume q: "dom q \<subseteq> fst ` set sd" and c: "c \<in> dom (rename_row sd q)"
  show "c \<in> snd ` set sd"
  proof (cases "map_of (map prod.swap sd) c")
    case None
    with c have "c \<notin> fst ` set sd" "c \<in> dom q" by (simp_all add: rename_row_def dom_def split: if_splits)
    with q show ?thesis by blast
  next
    case (Some x)
    then show ?thesis using map_of_dom [OF Some] by force
  qed
qed

lemma rows_dom: "plan_ok p \<Longrightarrow> r \<in> set (plan_rows db p env) \<Longrightarrow> dom r \<subseteq> log_att p"
proof (induction p arbitrary: r env)
  case (LJoin jt l r' ps)
  then have "r \<in> set (inner_rows (true_in env ps) (plan_rows db l env) (plan_rows db r' env))"
    by (auto simp: join_rows_def)
  then obtain x y where xy: "x \<in> set (plan_rows db l env)" "y \<in> set (plan_rows db r' env)" "r = x ++ y"
    using inner_rows_in by blast
  with LJoin.IH(1) [OF _ xy(1)] LJoin.IH(2) [OF _ xy(2)] LJoin.prems(1) show ?case by auto
next
  case (LSelect src ps)
  then show ?case using LSelect.IH(1) [of r env] by simp
next
  case (LProject src cols)
  then obtain q where "r = q |` set cols" by auto
  then show ?case by simp
next
  case (LOrderBy src cols)
  then show ?case using LOrderBy.IH [of r env] by (simp add: order_rows_def)
next
  case (LMap src es)
  then obtain q where q: "q \<in> set (plan_rows db src env)" "r = map_row env es q" by auto
  have "dom q \<subseteq> log_att src" using LMap.IH(1) [OF _ q(1)] LMap.prems(1) by simp
  then show ?case using dom_map_row [of env es q] q(2) by simp blast
next
  case (LAggregate src gb as)
  then obtain k where "r = group_row gb as (plan_rows db src env) k" by (auto simp: group_rows_def)
  then show ?case using dom_group_row [of gb as "plan_rows db src env" k] by simp
next
  case (LRename src sd)
  then obtain q where q: "q \<in> set (plan_rows db src env)" "r = rename_row sd q" by auto
  have "dom q \<subseteq> fst ` set sd" using LRename.IH [OF _ q(1)] LRename.prems(1) by simp
  then show ?case using dom_rename_row plan_ok_rename_att [OF LRename.prems(1)] q(2) by simp
qed (auto simp: restrict_map_def split: if_splits)

end
