(* ===== verification/RewriteLaws.thy ===== *)
theory RewriteLaws
  imports PlanRows
begin

text \<open>
  The plans that the rewriting of select, join, map and project returns have the columns and the rows of the plan that
  was asked for. \<open>refines db p' p\<close> compares two plans, \<open>answers\<close> says that a call ends with a plan that refines
  the given one and takes no fresh column.
\<close>

section \<open>Refinement of plans\<close>

abbreviation rows :: "db \<Rightarrow> LogicalRelExpr \<Rightarrow> row list" where
  "rows db p \<equiv> plan_rows db p Map.empty"

definition refines :: "db \<Rightarrow> LogicalRelExpr \<Rightarrow> LogicalRelExpr \<Rightarrow> bool" where
  "refines db p' p \<longleftrightarrow> plan_ok p' \<and> log_att p' = log_att p \<and> log_cols p' \<subseteq> log_cols p \<and> rows db p' = rows db p"

lemma refinesI:
  "plan_ok p' \<Longrightarrow> log_att p' = log_att p \<Longrightarrow> log_cols p' \<subseteq> log_cols p \<Longrightarrow> rows db p' = rows db p \<Longrightarrow> refines db p' p"
  by (simp add: refines_def)

lemma refines_refl: "plan_ok p \<Longrightarrow> refines db p p"
  by (simp add: refines_def)

lemma refines_trans [trans]: "refines db a b \<Longrightarrow> refines db b c \<Longrightarrow> refines db a c"
  by (auto simp: refines_def)

lemma refines_select: "refines db s' s \<Longrightarrow> exprs_ok (log_att s) ps \<Longrightarrow> refines db (LSelect s' ps) (LSelect s ps)"
  by (simp add: refines_def)

lemma refines_project: "refines db s' s \<Longrightarrow> set cols \<subseteq> log_att s \<Longrightarrow> refines db (LProject s' cols) (LProject s cols)"
  by (auto simp: refines_def)

lemma refines_map: "refines db s' s \<Longrightarrow> plan_ok (LMap s es) \<Longrightarrow> refines db (LMap s' es) (LMap s es)"
  by (auto simp: refines_def)

lemma refines_aggregate: "refines db s' s \<Longrightarrow> plan_ok (LAggregate s gb as) \<Longrightarrow> refines db (LAggregate s' gb as) (LAggregate s gb as)"
  by (auto simp: refines_def)

lemma refines_join:
  "refines db l' l \<Longrightarrow> refines db r' r \<Longrightarrow> plan_ok (LJoin jt l r ps) \<Longrightarrow> refines db (LJoin jt l' r' ps) (LJoin jt l r ps)"
  by (auto simp: refines_def)

lemma refines_rename: "refines db s' s \<Longrightarrow> plan_ok (LRename s sd) \<Longrightarrow> refines db (LRename s' sd) (LRename s sd)"
  by (auto simp: refines_def)

definition answers :: "Rules \<Rightarrow> set_iter \<Rightarrow> db \<Rightarrow> call \<Rightarrow> ColIdGenerator \<Rightarrow> LogicalRelExpr \<Rightarrow> bool" where
  "answers ru it db c g p \<longleftrightarrow> (\<exists>p'. rewrite ru it c g = Some (p', g) \<and> refines db p' p)"

lemma answersI: "rewrite ru it c g = Some (p', g) \<Longrightarrow> refines db p' p \<Longrightarrow> answers ru it db c g p"
  by (auto simp: answers_def)

lemma answers_trans: "answers ru it db c g p \<Longrightarrow> refines db p q \<Longrightarrow> answers ru it db c g q"
  by (auto simp: answers_def intro: refines_trans)

lemma answersE:
  assumes "answers ru it db c g p"
  obtains p' where "rewrite ru it c g = Some (p', g)" "refines db p' p"
  using assms by (auto simp: answers_def)

lemma rewrite_simps:
  "rewrite ru it (CSelect opt p ps) g = select_body ru (rewrite ru it) opt p ps g"
  "rewrite ru it (CJoin opt jt l r ps) g = join_body (rewrite ru it) opt jt l r ps g"
  "rewrite ru it (CMap opt p es) g = map_body ru (rewrite ru it) opt p es g"
  "rewrite ru it (CProject opt p cols w) g = project_body ru it (rewrite ru it) opt p cols w g"
  by (subst rewrite.simps, simp add: rewrite_body_def)+

section \<open>Predicates\<close>

definition splits :: "expr list \<Rightarrow> expr list" where
  "splits ps = concat (map split_conjunction ps)"

lemma splits_ok: "exprs_ok A ps \<Longrightarrow> exprs_ok A (splits ps)"
  by (induction ps) (auto simp: splits_def split_ok)

lemma splits_true: "exprs_ok A ps \<Longrightarrow> true_in env (splits ps) r \<longleftrightarrow> true_in env ps r"
  by (induction ps) (auto simp: splits_def split_true)

lemma exprs_ok_mono: "exprs_ok A ps \<Longrightarrow> A \<subseteq> B \<Longrightarrow> exprs_ok B ps"
  by (auto simp: exprs_ok_def list_all_iff)

lemma exprs_ok_filter: "exprs_ok A ps \<Longrightarrow> exprs_ok A (filter P ps)"
  by (auto simp: exprs_ok_def list_all_iff)

lemma true_in_part: "true_in env ps r \<longleftrightarrow> true_in env (filter P ps) r \<and> true_in env (filter (\<lambda>p. \<not> P p) ps) r"
  by (auto simp: true_in_def list_all_iff)

lemma partition_eq: "List.partition P xs = (filter P xs, filter (\<lambda>x. \<not> P x) xs)"
  by (simp add: partition_filter_conv comp_def)

text \<open>Predicates only see the columns they name.\<close>

lemma true_in_cong: "exprs_ok A ps \<Longrightarrow> (\<And>c. c \<in> A \<Longrightarrow> r c = r' c) \<Longrightarrow> true_in Map.empty ps r = true_in Map.empty ps r'"
proof -
  assume "exprs_ok A ps" and c: "\<And>c. c \<in> A \<Longrightarrow> r c = r' c"
  then show ?thesis
  proof (induction ps)
    case (Cons p ps)
    then have "expr_eval r p = expr_eval r' p" by (intro eval_free [where pf = log_free]) auto
    with Cons show ?case by simp
  qed simp
qed

section \<open>Select and join without pushing\<close>

lemma splits_refines: "plan_ok (LSelect p ps) \<Longrightarrow> refines db (LSelect p (splits ps)) (LSelect p ps)"
  by (auto simp: refines_def splits_ok splits_true intro!: filter_cong)

lemma no_preds: "plan_ok p \<Longrightarrow> refines db p (LSelect p [])"
  by (simp add: refines_def)

lemma select_false: "plan_ok (LSelect p ps) \<Longrightarrow> answers ru it db (CSelect False p ps) g (LSelect p ps)"
  by (cases "ps = []") (auto intro!: answersI simp: no_preds rewrite_simps select_body_def splits_refines splits_def [symmetric])

lemma join_splits: "plan_ok (LJoin jt l r ps) \<Longrightarrow> refines db (LJoin jt l r (splits ps)) (LJoin jt l r ps)"
proof -
  assume p: "plan_ok (LJoin jt l r ps)"
  then have "true_in Map.empty (splits ps) = true_in Map.empty ps" by (auto simp: splits_true)
  with p show ?thesis by (simp add: refines_def splits_ok)
qed

lemma join_false: "plan_ok (LJoin jt l r ps) \<Longrightarrow> answers ru it db (CJoin False jt l r ps) g (LJoin jt l r ps)"
  by (rule answersI [where p' = "LJoin jt l r (splits ps)"])
    (simp_all add: rewrite_simps join_body_def join_splits splits_def [symmetric], simp add: splits_def)

lemma join_type: "plan_ok (LJoin jt l r ps) \<Longrightarrow> jt' \<in> {Inner, CrossJoinType} \<Longrightarrow> refines db (LJoin jt' l r ps) (LJoin jt l r ps)"
  by (auto simp: refines_def join_rows_def)

section \<open>Pushing predicates into a join\<close>

lemma inner_rows_push:
  assumes "\<And>x y. x \<in> set ls \<Longrightarrow> y \<in> set rs \<Longrightarrow> P (x ++ y) \<longleftrightarrow> A x \<and> B y \<and> C (x ++ y)"
  shows "inner_rows C (filter A ls) (filter B rs) = inner_rows P ls rs"
  using assms
proof (induction ls)
  case (Cons x ls)
  have "filter P (map (\<lambda>y. x ++ y) rs) = (if A x then filter C (map (\<lambda>y. x ++ y) (filter B rs)) else [])"
    using Cons.prems [of x] by (induction rs) auto
  with Cons show ?case by (simp add: inner_rows_def)
qed (simp add: inner_rows_def)

lemma join_push:
  assumes ok: "plan_ok (LJoin jt l r ps)" and pl: "exprs_ok (log_att l) pl" and pr: "exprs_ok (log_att r) pr"
    and keep: "exprs_ok (log_att l \<union> log_att r) keep"
    and parts: "\<And>q. true_in Map.empty ps q \<longleftrightarrow> true_in Map.empty pl q \<and> true_in Map.empty pr q \<and> true_in Map.empty keep q"
  shows "refines db (LJoin jt (LSelect l pl) (LSelect r pr) keep) (LJoin jt l r ps)"
proof -
  have "true_in Map.empty pl (x ++ y) = true_in Map.empty pl x" "true_in Map.empty pr (x ++ y) = true_in Map.empty pr y"
    if "x \<in> set (rows db l)" "y \<in> set (rows db r)" for x y
  proof -
    have d: "dom x \<subseteq> log_att l" "dom y \<subseteq> log_att r" using ok rows_dom that by auto
    with ok have "y c = None" if "c \<in> log_att l" for c using that by auto
    then show "true_in Map.empty pl (x ++ y) = true_in Map.empty pl x"
      by (intro true_in_cong [OF pl]) (simp add: map_add_def)
    have "x c = None" if "c \<in> log_att r" for c using d ok that by auto
    then show "true_in Map.empty pr (x ++ y) = true_in Map.empty pr y"
      by (intro true_in_cong [OF pr]) (simp add: map_add_def split: option.split)
  qed
  then have "inner_rows (true_in Map.empty keep) (rows db (LSelect l pl)) (rows db (LSelect r pr)) =
      inner_rows (true_in Map.empty ps) (rows db l) (rows db r)"
    by (simp add: inner_rows_push parts)
  with assms show ?thesis by (auto simp: refines_def join_rows_def)
qed

lemma is_bound: "exprs_ok A ps \<Longrightarrow> exprs_ok (log_att p) (filter (\<lambda>e. bound e p) ps)"
  by (auto simp: exprs_ok_def list_all_iff bound_by_def)

text \<open>The predicates of one side, of the other side, and the others.\<close>

definition left_preds :: "LogicalRelExpr \<Rightarrow> expr list \<Rightarrow> expr list" where
  "left_preds l qs = filter (\<lambda>p. bound p l) qs"

definition right_preds :: "LogicalRelExpr \<Rightarrow> LogicalRelExpr \<Rightarrow> expr list \<Rightarrow> expr list" where
  "right_preds l r qs = filter (\<lambda>p. \<not> bound p l \<and> bound p r) qs"

definition both_preds :: "LogicalRelExpr \<Rightarrow> LogicalRelExpr \<Rightarrow> expr list \<Rightarrow> expr list" where
  "both_preds l r qs = filter (\<lambda>p. \<not> bound p l \<and> \<not> bound p r) qs"

lemma join_step:
  assumes "ps \<noteq> []"
  shows "join_body f True jt l r ps g = (let qs = splits ps in
    if jt \<in> {Inner, LeftOuter, CrossJoinType} \<and> (left_preds l qs \<noteq> [] \<or> right_preds l r qs \<noteq> []) then do {
      let jt = (if list_all (\<lambda>e. intersect_with log_free log_att e r) (both_preds l r qs) \<and> jt = CrossJoinType then Inner else jt);
      (l', g) \<leftarrow> f (CSelect True l (left_preds l qs)) g;
      (r', g) \<leftarrow> f (CSelect True r (right_preds l r qs)) g;
      f (CJoin False jt l' r' (both_preds l r qs)) g }
    else if jt \<in> {Inner, RightOuter, CrossJoinType} \<and> left_preds r qs \<noteq> [] then do {
      (r', g) \<leftarrow> f (CSelect True r (left_preds r qs)) g;
      f (CJoin False jt l r' (filter (\<lambda>p. \<not> bound p r) qs)) g }
    else if jt = CrossJoinType then do {
      assert_that (\<Union> (set (map free_of qs)) \<subseteq> log_att l \<union> log_att r);
      f (CJoin False Inner l r qs) g }
    else Some (LJoin jt l r qs, g))"
  using assms by (simp add: join_body_def Let_def comp_def splits_def left_preds_def right_preds_def both_preds_def)

lemma preds_ok:
  assumes "exprs_ok A qs"
  shows "exprs_ok (log_att l) (left_preds l qs)" "exprs_ok (log_att r) (right_preds l r qs)" "exprs_ok A (both_preds l r qs)"
  using is_bound [OF assms, of l] is_bound [OF exprs_ok_filter [OF assms], of r "\<lambda>p. \<not> bound p l"] exprs_ok_filter [OF assms]
  by (simp_all add: left_preds_def right_preds_def both_preds_def)

lemma preds_push:
  assumes "plan_ok (LJoin jt l r qs)"
  shows "refines db (LJoin jt (LSelect l (left_preds l qs)) (LSelect r (right_preds l r qs)) (both_preds l r qs)) (LJoin jt l r qs)"
proof (rule join_push [OF assms])
  show "exprs_ok (log_att l) (left_preds l qs)" "exprs_ok (log_att r) (right_preds l r qs)"
    "exprs_ok (log_att l \<union> log_att r) (both_preds l r qs)" using assms preds_ok [of "log_att l \<union> log_att r" qs] by simp_all
  show "true_in Map.empty qs q \<longleftrightarrow> true_in Map.empty (left_preds l qs) q \<and> true_in Map.empty (right_preds l r qs) q \<and>
      true_in Map.empty (both_preds l r qs) q" for q
    by (auto simp: left_preds_def right_preds_def both_preds_def true_in_def list_all_iff)
qed

lemma join_nothing_to_push:
  assumes ok: "plan_ok (LJoin jt l r ps)" and ps: "ps \<noteq> []"
    and none: "left_preds l (splits ps) = []" "right_preds l r (splits ps) = []"
  shows "answers ru it db (CJoin True jt l r ps) g (LJoin jt l r ps)"
proof -
  have okq: "plan_ok (LJoin jt l r (splits ps))" using ok by (auto simp: splits_ok)
  have all: "left_preds r (splits ps) = []"
    using none by (auto simp: left_preds_def right_preds_def filter_empty_conv)
  show ?thesis
  proof (cases "jt = Inner")
    case True
    with none all ps have "rewrite ru it (CJoin True jt l r ps) g = Some (LJoin jt l r (splits ps), g)"
      by (simp add: rewrite_simps join_step Let_def)
    then show ?thesis using join_splits [OF ok] by (rule answersI)
  next
    case False
    then have "jt = CrossJoinType" using ok by simp
    moreover have "\<Union> (set (map free_of (splits ps))) \<subseteq> log_att l \<union> log_att r" using okq by (intro exprs_ok_free) simp
    ultimately have "rewrite ru it (CJoin True jt l r ps) g = rewrite ru it (CJoin False Inner l r (splits ps)) g"
      using none all ps by (simp add: rewrite_simps(2) [of _ _ True] join_step Let_def)
    moreover have "refines db (LJoin Inner l r (splits ps)) (LJoin jt l r ps)"
      using refines_trans [OF join_type [OF okq] join_splits [OF ok]] by simp
    ultimately show ?thesis using answers_trans [OF join_false] okq by (auto simp: answers_def)
  qed
qed

lemma join_pushed:
  assumes ok: "plan_ok (LJoin jt l r ps)" and ps: "ps \<noteq> []"
    and some: "left_preds l (splits ps) \<noteq> [] \<or> right_preds l r (splits ps) \<noteq> []"
    and l': "answers ru it db (CSelect True l (left_preds l (splits ps))) g (LSelect l (left_preds l (splits ps)))"
    and r': "answers ru it db (CSelect True r (right_preds l r (splits ps))) g (LSelect r (right_preds l r (splits ps)))"
  shows "answers ru it db (CJoin True jt l r ps) g (LJoin jt l r ps)"
proof -
  let ?qs = "splits ps" let ?keep = "both_preds l r ?qs"
  obtain lp where lp: "rewrite ru it (CSelect True l (left_preds l ?qs)) g = Some (lp, g)" "refines db lp (LSelect l (left_preds l ?qs))"
    by (rule answersE [OF l'])
  obtain rp where rp: "rewrite ru it (CSelect True r (right_preds l r ?qs)) g = Some (rp, g)"
    "refines db rp (LSelect r (right_preds l r ?qs))" by (rule answersE [OF r'])
  have jt: "jt = Inner \<or> jt = CrossJoinType" and okq: "plan_ok (LJoin jt l r ?qs)" using ok by (auto simp: splits_ok)
  define jt' where "jt' = (if list_all (\<lambda>e. intersect_with log_free log_att e r) ?keep \<and> jt = CrossJoinType then Inner else jt)"
  have call: "rewrite ru it (CJoin True jt l r ps) g = rewrite ru it (CJoin False jt' lp rp ?keep) g"
    using ps jt some lp(1) rp(1) unfolding rewrite_simps(2) [of _ _ True] join_step [OF ps] by (auto simp: Let_def jt'_def)
  have "jt' \<in> {Inner, CrossJoinType}" using jt by (auto simp: jt'_def)
  from join_type [OF okq this] have ty: "refines db (LJoin jt' l r ?qs) (LJoin jt l r ?qs)" .
  then have push: "refines db (LJoin jt' (LSelect l (left_preds l ?qs)) (LSelect r (right_preds l r ?qs)) ?keep) (LJoin jt' l r ?qs)"
    unfolding refines_def by (intro preds_push [unfolded refines_def]) blast
  then have j: "refines db (LJoin jt' lp rp ?keep) (LJoin jt' (LSelect l (left_preds l ?qs)) (LSelect r (right_preds l r ?qs)) ?keep)"
    using lp(2) rp(2) by (intro refines_join) (simp_all add: refines_def)
  then have "answers ru it db (CJoin False jt' lp rp ?keep) g (LJoin jt' lp rp ?keep)"
    by (intro join_false) (simp only: refines_def)
  from answers_trans [OF this refines_trans [OF refines_trans [OF j push] refines_trans [OF ty join_splits [OF ok]]]] call
  show ?thesis by (simp add: answers_def)
qed

lemma join_law:
  assumes ok: "plan_ok (LJoin jt l r ps)"
    and l: "\<And>qs. exprs_ok (log_att l) qs \<Longrightarrow> answers ru it db (CSelect True l qs) g (LSelect l qs)"
    and r: "\<And>qs. exprs_ok (log_att r) qs \<Longrightarrow> answers ru it db (CSelect True r qs) g (LSelect r qs)"
  shows "answers ru it db (CJoin True jt l r ps) g (LJoin jt l r ps)"
proof (cases "ps = []")
  case True
  then show ?thesis by (simp add: answers_def rewrite_simps join_body_def refines_refl [OF ok [unfolded True]])
next
  case False
  have "exprs_ok (log_att l \<union> log_att r) (splits ps)" using ok by (simp add: splits_ok)
  with l r have "answers ru it db (CSelect True l (left_preds l (splits ps))) g (LSelect l (left_preds l (splits ps)))"
    "answers ru it db (CSelect True r (right_preds l r (splits ps))) g (LSelect r (right_preds l r (splits ps)))"
    by (simp_all add: preds_ok)
  with ok False show ?thesis using join_pushed join_nothing_to_push by blast
qed

section \<open>Pushing predicates below a grouping\<close>

lemma key_row_of: "c \<in> set gb \<Longrightarrow> key_row gb (row_key gb r) c = r c"
  by (simp add: key_row_def row_key_def map_of_zip_map)

lemma sorted_keys_filter:
  fixes S :: "'a :: linorder set"
  assumes "finite S"
  shows "sorted_list_of_set {k \<in> S. Q k} = filter Q (sorted_list_of_set S)"
  by (rule sorted_distinct_set_unique) (auto simp: assms sorted_wrt_filter)

lemma group_rows_filter:
  assumes ok: "exprs_ok (set gb) ps" and new: "fst ` set as \<inter> set gb = {}"
  shows "group_rows gb as (filter (true_in Map.empty ps) rs) = filter (true_in Map.empty ps) (group_rows gb as rs)"
proof -
  let ?P = "true_in Map.empty ps" and ?Q = "\<lambda>k. true_in Map.empty ps (key_row gb k)" and ?ks = "sorted_list_of_set (row_key gb ` set rs)"
  have key: "?Q (row_key gb r) = ?P r" for r by (rule true_in_cong [OF ok]) (simp add: key_row_of)
  have "row_key gb ` set (filter ?P rs) = {k \<in> row_key gb ` set rs. ?Q k}" by (auto simp: key)
  then have ks: "sorted_list_of_set (row_key gb ` set (filter ?P rs)) = filter ?Q ?ks"
    by (simp add: sorted_keys_filter del: set_filter)
  have "map_of as c = None" if "c \<in> set gb" for c using new that by (auto simp: map_of_eq_None_iff)
  then have grp: "?P (group_row gb as rs k) = ?Q k" for k rs
    by (intro true_in_cong [OF ok]) (simp add: group_row_def)
  have same: "group_row gb as (filter ?P rs) k = group_row gb as rs k" if "?Q k" for k
  proof -
    have "?P r" if "row_key gb r = k" for r using key [of r] \<open>?Q k\<close> that by simp
    then have f: "filter (\<lambda>r. row_key gb r = k) (filter ?P rs) = filter (\<lambda>r. row_key gb r = k) rs"
      by (auto intro!: filter_cong)
    show ?thesis unfolding group_row_def f ..
  qed
  show ?thesis unfolding group_rows_def ks by (auto simp: filter_map comp_def grp same intro!: map_cong)
qed

lemma aggregate_push:
  assumes "plan_ok (LAggregate src gb as)" and "exprs_ok (set gb) push" and "exprs_ok (set gb \<union> fst ` set as) keep"
    and "\<And>q. true_in Map.empty ps q \<longleftrightarrow> true_in Map.empty push q \<and> true_in Map.empty keep q"
  shows "refines db (LSelect (LAggregate (LSelect src push) gb as) keep) (LSelect (LAggregate src gb as) ps)"
proof -
  have "true_in Map.empty ps = (\<lambda>q. true_in Map.empty push q \<and> true_in Map.empty keep q)" using assms(4) by auto
  with assms(1-3) show ?thesis by (auto simp: refines_def group_rows_filter intro: exprs_ok_mono)
qed

section \<open>Pushing predicates below a map\<close>

lemma map_row_other: "c \<notin> fst ` set es \<Longrightarrow> map_row env es r c = r c"
  by (auto simp: map_row_def split: option.split dest: map_of_dom)

lemma map_row_Nil [simp]: "map_row env [] = id"
  by (auto simp: map_row_def)

lemma map_row_eval:
  assumes "free_of e \<inter> fst ` set es = {}"
  shows "expr_eval (map_row env es r) e = expr_eval r e"
  using assms by (intro eval_free [where pf = log_free]) (auto intro: map_row_other)

lemma inline_preds_true:
  assumes "distinct (map fst es)" and "\<And>d e. (d, e) \<in> set es \<Longrightarrow> supported e \<and> free_of e \<inter> fst ` set es = {}"
    and "set ds \<subseteq> set es"
  shows "true_in Map.empty (inline_preds src ds ps) (map_row Map.empty es r) \<longleftrightarrow> true_in Map.empty ps (map_row Map.empty es r)"
  using assms(3)
proof (induction ds arbitrary: ps)
  case (Cons x ds)
  obtain d e where x: "x = (d, e)" by (cases x)
  with Cons.prems have de: "(d, e) \<in> set es" by simp
  then have "map_row Map.empty es r d = expr_eval (map_row Map.empty es r) e"
    using assms(1) assms(2) [of d e] map_row_eval [of e es] by (simp add: map_row_def)
  then have "true_in Map.empty (map (\<lambda>p. case p of ColRef c \<Rightarrow> if c = d \<and> bound e src then e else p | _ \<Rightarrow> p) ps)
      (map_row Map.empty es r) \<longleftrightarrow> true_in Map.empty ps (map_row Map.empty es r)"
    by (induction ps) (auto split: Expression.splits)
  with Cons show ?case by (simp add: inline_preds_def x)
qed (simp add: inline_preds_def)

lemma inline_preds_ok:
  assumes "exprs_ok A (map snd ds)" and "exprs_ok A ps"
  shows "exprs_ok A (inline_preds src ds ps)"
  using assms
proof (induction ds arbitrary: ps)
  case (Cons x ds)
  obtain d e where x: "x = (d, e)" by (cases x)
  with Cons.prems have "exprs_ok A (map (\<lambda>p. case p of ColRef c \<Rightarrow> if c = d \<and> bound e src then e else p | _ \<Rightarrow> p) ps)"
    by (induction ps) (auto split: Expression.splits)
  with Cons show ?case by (simp add: inline_preds_def x)
qed (simp add: inline_preds_def)

lemma map_push:
  assumes ok: "plan_ok (LMap src es)" and push: "exprs_ok (log_att src) push"
    and keep: "exprs_ok (log_att src \<union> fst ` set es) keep"
    and parts: "\<And>q. true_in Map.empty ps (map_row Map.empty es q) \<longleftrightarrow>
      true_in Map.empty push (map_row Map.empty es q) \<and> true_in Map.empty keep (map_row Map.empty es q)"
  shows "refines db (LSelect (LMap (LSelect src push) es) keep) (LSelect (LMap src es) ps)"
proof -
  have "true_in Map.empty push (map_row Map.empty es q) = true_in Map.empty push q" for q
    using ok by (intro true_in_cong [OF push] map_row_other) auto
  then have "rows db (LSelect (LMap (LSelect src push) es) keep) = rows db (LSelect (LMap src es) ps)"
    by (simp add: filter_map comp_def parts conj_commute)
  with ok push keep show ?thesis by (auto simp: refines_def)
qed

end
