(* ===== verification/SelectLaws.thy ===== *)
theory SelectLaws
  imports RewriteLaws
begin

text \<open>A select keeps the rows on which its predicates are true, wherever they are pushed: into the join, below the
  grouping or below the map, by induction on the plan.\<close>

section \<open>Select\<close>

lemma answers_call: "answers ru it db c' g p \<Longrightarrow> rewrite ru it c g = rewrite ru it c' g \<Longrightarrow> answers ru it db c g p"
  by (simp add: answers_def)

lemma select_plain:
  assumes "plan_ok (LSelect p ps)"
    and "ps = [] \<or> \<not> is_enabled ru SelectionPushdown \<or> rewrite ru it (CSelect True p ps) g = rewrite ru it (CSelect False p (splits ps)) g"
  shows "answers ru it db (CSelect True p ps) g (LSelect p ps)"
proof (cases "ps = [] \<or> \<not> is_enabled ru SelectionPushdown")
  case True
  then have "rewrite ru it (CSelect True p ps) g = rewrite ru it (CSelect False p ps) g" by (auto simp: rewrite_simps select_body_def)
  then show ?thesis by (rule answers_call [OF select_false [OF assms(1)]])
next
  case False
  have "answers ru it db (CSelect False p (splits ps)) g (LSelect p ps)"
    using answers_trans [OF select_false splits_refines] assms(1) splits_ok by auto
  with False assms(2) show ?thesis by (auto intro: answers_call)
qed

lemma select_step:
  assumes "ps \<noteq> []" "is_enabled ru SelectionPushdown"
  shows "rewrite ru it (CSelect True (LSelect src qs) ps) g = rewrite ru it (CSelect True src (qs @ splits ps)) g"
    and "rewrite ru it (CSelect True (LJoin jt l r qs) ps) g = rewrite ru it (CJoin True jt l r (qs @ splits ps)) g"
    and "rewrite ru it (CSelect True (LAggregate src gb as) ps) g = do {
         (src, g) \<leftarrow> rewrite ru it (CSelect True src (filter (\<lambda>e. free_of e \<subseteq> set gb) (splits ps))) g;
         rewrite ru it (CSelect False (LAggregate src gb as) (filter (\<lambda>e. \<not> free_of e \<subseteq> set gb) (splits ps))) g }"
    and "rewrite ru it (CSelect True (LMap src es) ps) g = do {
         let ps = inline_preds src es (splits ps);
         (src, g) \<leftarrow> rewrite ru it (CSelect True src (filter (\<lambda>e. free_of e \<inter> set (map fst es) = {}) ps)) g;
         (m, g) \<leftarrow> rewrite ru it (CMap False src es) g;
         rewrite ru it (CSelect False m (filter (\<lambda>e. free_of e \<inter> set (map fst es) \<noteq> {}) ps)) g }"
  using assms by (simp_all only: rewrite_simps(1) [of _ _ True "LSelect src qs"] rewrite_simps(1) [of _ _ True "LJoin jt l r qs"]
      rewrite_simps(1) [of _ _ True "LAggregate src gb as"] rewrite_simps(1) [of _ _ True "LMap src es"])
    (simp_all add: select_body_def splits_def Let_def comp_def aggregate_def)

lemma map_false: "plan_ok (LMap p es) \<Longrightarrow> answers ru it db (CMap False p es) g (LMap p es)"
  by (cases "es = []") (auto simp: answers_def rewrite_simps map_body_def refines_def)

lemma select_aggregate:
  assumes ok: "plan_ok (LSelect (LAggregate src gb as) ps)" and on: "ps \<noteq> []" "is_enabled ru SelectionPushdown"
    and src: "\<And>qs. exprs_ok (log_att src) qs \<Longrightarrow> answers ru it db (CSelect True src qs) g (LSelect src qs)"
  shows "answers ru it db (CSelect True (LAggregate src gb as) ps) g (LSelect (LAggregate src gb as) ps)"
proof -
  define push keep where "push = filter (\<lambda>e. free_of e \<subseteq> set gb) (splits ps)" and "keep = filter (\<lambda>e. \<not> free_of e \<subseteq> set gb) (splits ps)"
  have "exprs_ok (set gb \<union> fst ` set as) (splits ps)" using ok by (simp add: splits_ok)
  then have pok: "exprs_ok (set gb) push" by (auto simp: push_def exprs_ok_def list_all_iff)
  have kok: "exprs_ok (set gb \<union> fst ` set as) keep" using ok by (simp add: keep_def splits_ok exprs_ok_filter)
  have "exprs_ok (log_att src) push" using ok exprs_ok_mono [OF pok] by simp
  then obtain s where s: "rewrite ru it (CSelect True src push) g = Some (s, g)" "refines db s (LSelect src push)"
    using src by (auto elim: answersE)
  have "true_in Map.empty ps q \<longleftrightarrow> true_in Map.empty push q \<and> true_in Map.empty keep q" for q
    using ok splits_true [of "set gb \<union> fst ` set as" ps Map.empty q]
      true_in_part [of Map.empty "splits ps" q "\<lambda>e. free_of e \<subseteq> set gb"] by (simp add: push_def keep_def)
  then have "refines db (LSelect (LAggregate (LSelect src push) gb as) keep) (LSelect (LAggregate src gb as) ps)"
    using ok pok kok by (intro aggregate_push) simp_all
  moreover have "refines db (LAggregate s gb as) (LAggregate (LSelect src push) gb as)"
    using ok s(2) exprs_ok_mono [OF pok] by (intro refines_aggregate) auto
  ultimately have "refines db (LSelect (LAggregate s gb as) keep) (LSelect (LAggregate src gb as) ps)"
    using refines_trans [OF refines_select] kok by simp
  with on s show ?thesis
    by (intro answers_call [OF answers_trans [OF select_false]])
      (simp_all add: select_step push_def [symmetric] keep_def [symmetric] refines_def)
qed

lemma select_map:
  assumes ok: "plan_ok (LSelect (LMap src es) ps)" and on: "ps \<noteq> []" "is_enabled ru SelectionPushdown"
    and src: "\<And>qs. exprs_ok (log_att src) qs \<Longrightarrow> answers ru it db (CSelect True src qs) g (LSelect src qs)"
  shows "answers ru it db (CSelect True (LMap src es) ps) g (LSelect (LMap src es) ps)"
proof -
  define qs where "qs = inline_preds src es (splits ps)"
  define push keep where "push = filter (\<lambda>e. free_of e \<inter> set (map fst es) = {}) qs" and
    "keep = filter (\<lambda>e. free_of e \<inter> set (map fst es) \<noteq> {}) qs"
  have qok: "exprs_ok (log_att src \<union> fst ` set es) qs"
    using ok by (auto simp: qs_def intro!: inline_preds_ok splits_ok intro: exprs_ok_mono)
  then have pok: "exprs_ok (log_att src) push" and kok: "exprs_ok (log_att src \<union> fst ` set es) keep"
    by (fastforce simp: push_def exprs_ok_def list_all_iff) (simp add: keep_def exprs_ok_filter qok)
  obtain s where s: "rewrite ru it (CSelect True src push) g = Some (s, g)" "refines db s (LSelect src push)"
    using src [OF pok] by (auto elim: answersE)
  have "supported e \<and> free_of e \<inter> fst ` set es = {}" if "(d, e) \<in> set es" for d e
    using ok that by (fastforce simp: exprs_ok_def list_all_iff)
  then have "true_in Map.empty ps (map_row Map.empty es q) \<longleftrightarrow> true_in Map.empty qs (map_row Map.empty es q)" for q
    using ok splits_true [of "log_att src \<union> fst ` set es" ps Map.empty] inline_preds_true [of es es src "splits ps"]
    by (simp add: qs_def)
  then have "refines db (LSelect (LMap (LSelect src push) es) keep) (LSelect (LMap src es) ps)"
    using ok pok kok true_in_part [of Map.empty qs] by (intro map_push) (auto simp: push_def keep_def)
  moreover have sm: "refines db (LMap s es) (LMap (LSelect src push) es)"
    using ok s(2) pok by (intro refines_map) auto
  ultimately have fin: "refines db (LSelect (LMap s es) keep) (LSelect (LMap src es) ps)"
    using refines_trans [OF refines_select] kok by simp
  have "plan_ok (LMap s es)" using sm by (simp add: refines_def)
  then obtain m where m: "rewrite ru it (CMap False s es) g = Some (m, g)" "refines db m (LMap s es)"
    using map_false by (blast elim: answersE)
  have mk: "refines db (LSelect m keep) (LSelect (LMap s es) keep)"
    using m(2) sm kok by (intro refines_select) (auto simp: refines_def)
  show ?thesis
    using on s m refines_trans [OF mk fin] by (intro answers_call [OF answers_trans [OF select_false]])
      (simp_all add: select_step push_def [symmetric] keep_def [symmetric] qs_def [symmetric] refines_def del: set_map)
qed

lemma join_select:
  assumes ok: "plan_ok (LJoin jt l r (qs @ splits ps))" and ps: "plan_ok (LSelect (LJoin jt l r qs) ps)"
  shows "refines db (LJoin jt l r (qs @ splits ps)) (LSelect (LJoin jt l r qs) ps)"
proof -
  have "true_in Map.empty (qs @ splits ps) = (\<lambda>q. true_in Map.empty qs q \<and> true_in Map.empty ps q)"
    using ps splits_true by fastforce
  with ok ps show ?thesis by (auto simp: refines_def join_rows_def inner_rows_def filter_concat comp_def)
qed

lemma select_law: "plan_ok (LSelect p ps) \<Longrightarrow> answers ru it db (CSelect True p ps) g (LSelect p ps)"
proof (induction p arbitrary: ps)
  case (LSelect src qs)
  show ?case
  proof (cases "ps = [] \<or> \<not> is_enabled ru SelectionPushdown")
    case False
    have "refines db (LSelect src (qs @ splits ps)) (LSelect (LSelect src qs) ps)"
      using LSelect.prems by (auto simp: refines_def splits_ok splits_true intro!: filter_cong)
    moreover have "answers ru it db (CSelect True src (qs @ splits ps)) g (LSelect src (qs @ splits ps))"
      using LSelect.prems by (intro LSelect.IH) (simp add: splits_ok)
    ultimately show ?thesis using False by (auto intro: answers_call answers_trans simp: select_step)
  qed (use LSelect.prems select_plain in blast)
next
  case (LJoin jt l r qs)
  show ?case
  proof (cases "ps = [] \<or> \<not> is_enabled ru SelectionPushdown")
    case False
    have ok: "plan_ok (LJoin jt l r (qs @ splits ps))" using LJoin.prems by (simp add: splits_ok)
    then have "answers ru it db (CJoin True jt l r (qs @ splits ps)) g (LJoin jt l r (qs @ splits ps))"
      using LJoin.IH by (intro join_law) simp_all
    moreover have "refines db (LJoin jt l r (qs @ splits ps)) (LSelect (LJoin jt l r qs) ps)"
      by (rule join_select [OF ok LJoin.prems])
    ultimately show ?thesis using False by (auto intro: answers_call answers_trans simp: select_step)
  qed (use LJoin.prems select_plain in blast)
next
  case (LAggregate src gb as)
  then show ?case using select_plain select_aggregate [of src gb as ps]
    by (cases "ps = [] \<or> \<not> is_enabled ru SelectionPushdown") auto
next
  case (LMap src es)
  then show ?case using select_plain select_map [of src es ps]
    by (cases "ps = [] \<or> \<not> is_enabled ru SelectionPushdown") auto
qed (intro select_plain; simp add: rewrite_simps select_body_def splits_def)+

end
