(* ===== verification/MapLaws.thy ===== *)
theory MapLaws
  imports SelectLaws
begin

text \<open>Maps are merged and renames are composed without a change of the rows.\<close>

section \<open>Map\<close>

lemma supported_no_subquery: "supported e \<Longrightarrow> \<not> has_subquery e"
  by (induction e) auto

lemma ok_no_subquery:
  assumes "exprs_ok A (map snd es)"
  shows "find_subquery es = None" and "list_all (\<lambda>(_, e). \<not> has_subquery e) es"
  using assms by (induction es rule: find_subquery.induct) (auto simp: supported_no_subquery)

lemma exprs_okD: "exprs_ok A (map snd es) \<Longrightarrow> (d, e) \<in> set es \<Longrightarrow> supported e \<and> free_of e \<subseteq> A"
  unfolding exprs_ok_def list_all_iff by force

lemma replace_ok:
  assumes "supported e" and "\<And>c. c \<in> free_of e \<Longrightarrow> (case m c of Some e' \<Rightarrow> supported e' \<and> free_of e' \<subseteq> A | None \<Rightarrow> c \<in> A)"
  shows "supported (replace_variables_with_exprs m e) \<and> free_of (replace_variables_with_exprs m e) \<subseteq> A"
  using assms by (induction e) (auto split: option.splits)

lemma map_of_rev_distinct: "distinct (map fst xs) \<Longrightarrow> map_of (rev xs) = map_of xs"
proof (induction xs)
  case (Cons x xs)
  then have "map_of xs (fst x) = None" by (simp add: map_of_eq_None_iff)
  with Cons show ?case by (auto simp: fun_eq_iff map_add_def split: option.splits)
qed simp

lemma merge_Cons: "merge_exprs ac ((d, e) # es) = merge_exprs (ac @ [(d, replace_variables_with_exprs (map_of (rev ac)) e)]) es"
  by (simp add: merge_exprs_def)

lemma merge_dests: "map fst (merge_exprs ac es) = map fst ac @ map fst es"
  by (induction es arbitrary: ac) (auto simp: merge_Cons, simp add: merge_exprs_def)

lemma map_row_empty: "map_row Map.empty es r = (\<lambda>c. case map_of es c of Some e \<Rightarrow> expr_eval r e | None \<Rightarrow> r c)"
  by (auto simp: map_row_def split: option.split)

lemma map_row_add:
  assumes "d \<notin> fst ` set es" and "\<And>d' e'. (d', e') \<in> set es \<Longrightarrow> d \<notin> free_of e'" and "v = expr_eval r e"
  shows "map_row Map.empty es (r(d := v)) = map_row Map.empty ((d, e) # es) r"
proof
  fix c
  show "map_row Map.empty es (r(d := v)) c = map_row Map.empty ((d, e) # es) r c"
  proof (cases "map_of es c")
    case None
    then show ?thesis using assms by (auto simp: map_row_def)
  next
    case (Some e')
    then have "c \<noteq> d" "d \<notin> free_of e'" using assms(1,2) map_of_SomeD [OF Some] by force+
    moreover from this have "expr_eval (r(d := v)) e' = expr_eval r e'" by (intro eval_free [where pf = log_free]) auto
    ultimately show ?thesis using Some by (simp add: map_row_def)
  qed
qed

lemma map_row_snoc:
  assumes "d \<notin> fst ` set es"
  shows "map_row Map.empty (es @ [(d, e)]) r = (map_row Map.empty es r)(d := expr_eval r e)"
proof -
  have "map_of es d = None" using assms by (simp add: map_of_eq_None_iff)
  then show ?thesis by (auto simp: map_row_empty fun_eq_iff map_add_def split: option.splits)
qed

lemma merge_row:
  assumes "distinct (map fst ac @ map fst es)"
    and "\<And>d e. (d, e) \<in> set es \<Longrightarrow> supported e \<and> free_of e \<subseteq> B" and "B \<inter> fst ` set es = {}"
  shows "map_row Map.empty (merge_exprs ac es) r = map_row Map.empty es (map_row Map.empty ac r)"
  using assms
proof (induction es arbitrary: ac)
  case (Cons x es)
  obtain d e where x: "x = (d, e)" by (cases x)
  let ?e = "replace_variables_with_exprs (map_of (rev ac)) e"
  let ?X = "map_row Map.empty ac r"
  have "expr_eval r ?e = expr_eval ?X e"
    using Cons.prems(1) by (simp add: eval_replace_exprs map_of_rev_distinct map_row_empty)
  moreover have d: "d \<notin> fst ` set ac" "d \<notin> fst ` set es" using Cons.prems(1) x by auto
  ultimately have "map_row Map.empty (ac @ [(d, ?e)]) r = ?X(d := expr_eval ?X e)"
    by (simp add: map_row_snoc)
  moreover have "map_row Map.empty (merge_exprs (ac @ [(d, ?e)]) es) r = map_row Map.empty es (map_row Map.empty (ac @ [(d, ?e)]) r)"
    using Cons.prems x by (intro Cons.IH) auto
  moreover have "d \<notin> free_of e'" if "(d', e') \<in> set es" for d' e'
    using Cons.prems(2) [of d' e'] Cons.prems(3) that x by auto
  ultimately show ?case using d by (simp add: x merge_Cons map_row_add)
qed (simp add: merge_exprs_def)

lemma merge_ok:
  assumes "distinct (map fst ac)" and "exprs_ok A (map snd ac)" and "exprs_ok (A \<union> C) (map snd es)" and "C \<subseteq> fst ` set ac"
    and "distinct (map fst ac @ map fst es)" and "fst ` set ac \<inter> A = {}" "fst ` set es \<inter> (A \<union> C) = {}"
  shows "exprs_ok A (map snd (merge_exprs ac es))"
  using assms
proof (induction es arbitrary: ac)
  case (Cons x es)
  obtain d e where x: "x = (d, e)" by (cases x)
  let ?e = "replace_variables_with_exprs (map_of (rev ac)) e"
  have "supported ?e \<and> free_of ?e \<subseteq> A"
  proof (rule replace_ok)
    show "supported e" using Cons.prems x by simp
    fix c assume "c \<in> free_of e"
    then have c: "c \<in> A \<union> fst ` set ac" using Cons.prems x by auto
    show "case map_of (rev ac) c of Some e' \<Rightarrow> supported e' \<and> free_of e' \<subseteq> A | None \<Rightarrow> c \<in> A"
    proof (cases "map_of ac c")
      case None
      with c have "c \<in> A" by (simp add: map_of_eq_None_iff)
      with None Cons.prems(1) show ?thesis by (simp add: map_of_rev_distinct)
    next
      case (Some e')
      then show ?thesis using exprs_okD [OF Cons.prems(2) map_of_SomeD [OF Some]] Cons.prems(1) by (simp add: map_of_rev_distinct)
    qed
  qed
  moreover have "exprs_ok A (map snd (merge_exprs (ac @ [(d, ?e)]) es))"
    using Cons.prems x calculation by (intro Cons.IH) auto
  ultimately show ?case by (simp add: x merge_Cons)
qed (simp add: merge_exprs_def)

lemma map_merge:
  assumes ok: "plan_ok (LMap (LMap src ex) es)"
  shows "refines db (LMap src (merge_exprs ex es)) (LMap (LMap src ex) es)"
proof -
  have d: "distinct (map fst ex @ map fst es)" using ok by auto
  have "map_row Map.empty (merge_exprs ex es) r = map_row Map.empty es (map_row Map.empty ex r)" for r
  proof (rule merge_row [where B = "log_att src \<union> fst ` set ex"])
    show "supported e \<and> free_of e \<subseteq> log_att src \<union> fst ` set ex" if "(d, e) \<in> set es" for d e
      using ok by (intro exprs_okD [OF _ that]) simp
  qed (use ok d in auto)
  moreover have "exprs_ok (log_att src) (map snd (merge_exprs ex es))"
    using ok d by (intro merge_ok [where C = "fst ` set ex"]) auto
  moreover have dests: "fst ` set (merge_exprs ex es) = fst ` set ex \<union> fst ` set es"
    using merge_dests [of ex es] by (metis set_append set_map)
  ultimately show ?thesis using ok d merge_dests [of ex es] by (auto simp: refines_def comp_def)
qed

lemma map_step:
  assumes "es \<noteq> []" and ok: "plan_ok (LMap p es)"
  shows "map_body ru f True p es g = (case p of
      LMap src ex \<Rightarrow> f (CMap True src (merge_exprs ex es)) g
    | _ \<Rightarrow> f (CMap False p es) g)"
proof -
  have "find_subquery es = None" "list_all (\<lambda>(_, e). \<not> has_subquery e) es"
    using ok ok_no_subquery [of "log_att p" es] by simp_all
  moreover have "list_all (\<lambda>(_, e). \<not> has_subquery e) ex" if "p = LMap src ex" for src ex
    using ok that ok_no_subquery [of "log_att src" ex] by simp
  ultimately show ?thesis using assms(1) by (simp add: map_body_def assert_that_def split: LogicalRelExpr.split)
qed

lemma map_none: "plan_ok p \<Longrightarrow> answers ru it db (CMap True p []) g (LMap p [])"
  by (simp add: answers_def rewrite_simps map_body_def refines_def)

lemma map_any:
  assumes "plan_ok (LMap p es)" and "\<And>src ex. p \<noteq> LMap src ex"
  shows "answers ru it db (CMap True p es) g (LMap p es)"
proof (cases "es = []")
  case False
  with assms have "rewrite ru it (CMap True p es) g = rewrite ru it (CMap False p es) g"
    by (simp add: rewrite_simps(3) [of _ _ True] map_step split: LogicalRelExpr.split)
  then show ?thesis by (rule answers_call [OF map_false [OF assms(1)]])
qed (use assms map_none in auto)

lemma map_law: "plan_ok (LMap p es) \<Longrightarrow> answers ru it db (CMap True p es) g (LMap p es)"
proof (induction p arbitrary: es)
  case (LMap src ex)
  show ?case
  proof (cases "es = []")
    case False
    have r: "refines db (LMap src (merge_exprs ex es)) (LMap (LMap src ex) es)" by (rule map_merge [OF LMap.prems])
    then have "answers ru it db (CMap True src (merge_exprs ex es)) g (LMap src (merge_exprs ex es))"
      by (intro LMap.IH) (simp add: refines_def)
    then show ?thesis
      using False LMap.prems
      by (intro answers_call [OF answers_trans [OF _ r]]) (simp_all add: map_step rewrite_simps(3) [of _ _ True "LMap src ex"])
  qed (use LMap.prems map_none in auto)
qed (rule map_any; simp)+

section \<open>Rename\<close>

lemma map_of_iff: "distinct (map fst xs) \<Longrightarrow> map_of xs k = Some v \<longleftrightarrow> (k, v) \<in> set xs"
  using map_of_eq_Some_iff by metis

lemma fst_swap_eq [simp]: "fst \<circ> prod.swap = snd"
  by auto

text \<open>A rename of all columns reads every new column from its source.\<close>

lemma rename_row_Some:
  assumes "distinct (map snd sd)" and "(s, c) \<in> set sd"
  shows "rename_row sd q c = q s"
proof -
  have "map_of (map prod.swap sd) c = Some s" using assms by (subst map_of_iff) simp_all
  then show ?thesis by (simp add: rename_row_def)
qed

lemma rename_row_None:
  assumes "c \<notin> snd ` set sd" and "dom q \<subseteq> fst ` set sd"
  shows "rename_row sd q c = None"
proof -
  have "c \<notin> dom (rename_row sd q)" using assms dom_rename_row by blast
  then show ?thesis by (simp add: domIff)
qed

lemma rename_rows_eq:
  assumes "distinct (map snd sd)" and "dom q \<subseteq> fst ` set sd" and "\<And>s c. (s, c) \<in> set sd \<Longrightarrow> r c = q s"
    and "dom r \<subseteq> snd ` set sd"
  shows "rename_row sd q = r"
proof
  fix c
  show "rename_row sd q c = r c"
  proof (cases "c \<in> snd ` set sd")
    case True
    then obtain s where "(s, c) \<in> set sd" by auto
    then show ?thesis using rename_row_Some assms(1,3) by metis
  next
    case False
    then have "r c = None" using assms(4) by (auto simp: domIff)
    then show ?thesis using rename_row_None [OF False assms(2)] by simp
  qed
qed

definition compose_ren :: "(ColumnId \<times> ColumnId) list \<Rightarrow> (ColumnId \<times> ColumnId) list \<Rightarrow> (ColumnId \<times> ColumnId) list" where
  "compose_ren ex sd = map (map_prod (\<lambda>s. s) (ren (map_of sd))) ex"

lemma compose_fst: "map fst (compose_ren ex sd) = map fst ex" "fst ` set (compose_ren ex sd) = fst ` set ex"
  by (auto simp: compose_ren_def comp_def image_image)

lemma compose_iff:
  assumes "distinct (map fst sd)" and "fst ` set sd = snd ` set ex"
  shows "(s, c) \<in> set (compose_ren ex sd) \<longleftrightarrow> (\<exists>d. (s, d) \<in> set ex \<and> (d, c) \<in> set sd)"
proof -
  have "c = ren (map_of sd) d \<longleftrightarrow> (d, c) \<in> set sd" if "(s, d) \<in> set ex" for d
  proof -
    have "d \<in> fst ` set sd" using that assms(2) by force
    then obtain c' where "(d, c') \<in> set sd" by auto
    then have "map_of sd d = Some c'" using assms(1) by (simp add: map_of_iff)
    then show ?thesis using map_of_iff [OF assms(1), of d c] by (auto simp: ren_def)
  qed
  then show ?thesis by (force simp: compose_ren_def)
qed

lemma compose_snd:
  assumes "distinct (map fst sd)" and "fst ` set sd = snd ` set ex"
  shows "snd ` set (compose_ren ex sd) = snd ` set sd"
proof (intro equalityI subsetI)
  fix c assume "c \<in> snd ` set (compose_ren ex sd)"
  then show "c \<in> snd ` set sd" using compose_iff [OF assms] by force
next
  fix c assume "c \<in> snd ` set sd"
  then obtain d where d: "(d, c) \<in> set sd" by auto
  then obtain s where "(s, d) \<in> set ex" using assms(2) by force
  then show "c \<in> snd ` set (compose_ren ex sd)" using compose_iff [OF assms, of s c] d by force
qed

lemma compose_distinct:
  assumes "distinct (map fst sd)" "fst ` set sd = snd ` set ex" and "distinct (map snd sd)" "distinct (map snd ex)"
  shows "distinct (map snd (compose_ren ex sd))"
proof -
  have "ren (map_of sd) a = ren (map_of sd) b \<Longrightarrow> a = b" if "a \<in> snd ` set ex" "b \<in> snd ` set ex" for a b
  proof -
    have "(ren (map_of sd) d, d) \<in> set (map prod.swap sd)" if d: "d \<in> snd ` set ex" for d
    proof -
      obtain c where "(d, c) \<in> set sd" using assms(2) d by force
      then show ?thesis using assms(1) by (simp add: ren_def map_of_iff)
    qed
    then have "map_of (map prod.swap sd) (ren (map_of sd) d) = Some d" if "d \<in> snd ` set ex" for d
      using that assms(3) by (subst map_of_iff) simp_all
    then show "ren (map_of sd) a = ren (map_of sd) b \<Longrightarrow> a = b" using that by (metis option.inject)
  qed
  then show ?thesis using assms(4) by (simp add: compose_ren_def comp_def distinct_map inj_on_def)
qed

lemma compose_row:
  assumes sd: "distinct (map fst sd)" "fst ` set sd = snd ` set ex" and dist: "distinct (map snd sd)" "distinct (map snd ex)"
    and q: "dom q \<subseteq> fst ` set ex"
  shows "rename_row sd (rename_row ex q) = rename_row (compose_ren ex sd) q"
proof (rule rename_rows_eq)
  show "distinct (map snd sd)" by (rule dist)
  show "dom (rename_row ex q) \<subseteq> fst ` set sd" using dom_rename_row [OF q] sd(2) by simp
  show "dom (rename_row (compose_ren ex sd) q) \<subseteq> snd ` set sd"
    using dom_rename_row [of q "compose_ren ex sd"] q compose_snd [OF sd] by (simp add: compose_fst)
  fix d c assume d: "(d, c) \<in> set sd"
  then obtain s where s: "(s, d) \<in> set ex" using sd(2) by force
  then have "(s, c) \<in> set (compose_ren ex sd)" using compose_iff [OF sd] d by auto
  then show "rename_row (compose_ren ex sd) q c = rename_row ex q d"
    using s compose_distinct [OF sd dist] dist(2) by (simp add: rename_row_Some)
qed

lemma rename_compose:
  assumes ok: "plan_ok (LRename (LRename src ex) sd)"
  shows "refines db (LRename src (compose_ren ex sd)) (LRename (LRename src ex) sd)"
proof -
  have okr: "plan_ok (LRename src ex)" using ok by simp
  have sd: "distinct (map fst sd)" "fst ` set sd = snd ` set ex" using ok plan_ok_rename_att [OF okr] by simp_all
  have dist: "distinct (map snd sd)" "distinct (map snd ex)" using ok by simp_all
  have ok': "plan_ok (LRename src (compose_ren ex sd))"
    using ok compose_snd [OF sd] compose_distinct [OF sd dist] by (auto simp: compose_fst)
  have "rename_row sd (rename_row ex q) = rename_row (compose_ren ex sd) q" if "q \<in> set (rows db src)" for q
    using okr rows_dom [OF _ that] by (intro compose_row [OF sd dist]) simp
  moreover have "log_att (LRename src (compose_ren ex sd)) = log_att (LRename (LRename src ex) sd)"
    unfolding plan_ok_rename_att [OF ok'] plan_ok_rename_att [OF ok] by (rule compose_snd [OF sd])
  ultimately show ?thesis using ok' compose_snd [OF sd] by (auto simp: refines_def)
qed

lemma rename_to_law: "plan_ok (LRename p sd) \<Longrightarrow> refines db (rename_to p sd) (LRename p sd)"
proof (induction p sd rule: rename_to.induct)
  case (1 src ex sd)
  have r: "refines db (LRename src (compose_ren ex sd)) (LRename (LRename src ex) sd)" by (rule rename_compose [OF 1(2)])
  then have "plan_ok (LRename src (compose_ren ex sd))" unfolding refines_def by blast
  then have "refines db (rename_to (LRename src ex) sd) (LRename src (compose_ren ex sd))"
    using 1(1) by (simp add: compose_ren_def)
  then show ?case using r by (rule refines_trans)
qed (simp_all add: refines_refl)

end
