(* ===== verification/ProjectLaws.thy ===== *)
theory ProjectLaws
  imports MapLaws
begin

text \<open>A projection keeps its columns of every row, wherever it is pushed, by induction on the plan.\<close>

section \<open>Project\<close>

lemma project_false: "plan_ok (LProject p cols) \<Longrightarrow> answers ru it db (CProject False p cols False) g (LProject p cols)"
  by (rule answersI [OF _ refines_refl]) (simp_all add: rewrite_simps project_body_def Let_def)

lemma project_last:
  assumes "refines db s p" "set cols \<subseteq> log_att p"
  shows "answers ru it db (CProject False s cols False) g (LProject p cols)"
proof (rule answers_trans [OF project_false])
  show "refines db (LProject s cols) (LProject p cols)" by (rule refines_project [OF assms])
  then show "plan_ok (LProject s cols)" unfolding refines_def by blast
qed

lemma true_in_restrict:
  assumes "exprs_ok A ps" and "\<Union> (set (map free_of ps)) \<subseteq> C"
  shows "true_in Map.empty ps (r |` C) = true_in Map.empty ps r"
proof -
  have "exprs_ok C ps" using assms by (auto simp: exprs_ok_def list_all_iff)
  then show ?thesis by (rule true_in_cong) simp
qed

lemma project_select:
  assumes ok: "plan_ok (LProject (LSelect src ps) cols)" and nc: "set nc = set cols \<union> \<Union> (set (map free_of ps))"
  shows "refines db (LProject (LSelect (LProject src nc) ps) cols) (LProject (LSelect src ps) cols)"
proof -
  have pok: "exprs_ok (set nc) ps" using ok nc by (auto simp: exprs_ok_def list_all_iff)
  have sub: "set nc \<subseteq> log_att src" using ok nc exprs_ok_free [of "log_att src" ps] by auto
  have "true_in Map.empty ps (r |` set nc) = true_in Map.empty ps r" for r
    using nc by (intro true_in_restrict [OF pok]) auto
  moreover have "set nc \<inter> set cols = set cols" using nc by auto
  ultimately have "rows db (LProject (LSelect (LProject src nc) ps) cols) = rows db (LProject (LSelect src ps) cols)"
    by (simp add: filter_map comp_def)
  then show ?thesis using ok pok sub nc att_cols [of src] by (auto simp: refines_def)
qed

lemma restrict_add: "dom x \<subseteq> A \<Longrightarrow> dom y \<subseteq> B \<Longrightarrow> x |` (C \<inter> A) ++ y |` (C \<inter> B) = (x ++ y) |` C"
proof
  fix c assume "dom x \<subseteq> A" "dom y \<subseteq> B"
  then have "x c \<noteq> None \<Longrightarrow> c \<in> A" "y c \<noteq> None \<Longrightarrow> c \<in> B" by auto
  then show "(x |` (C \<inter> A) ++ y |` (C \<inter> B)) c = ((x ++ y) |` C) c"
    by (cases "x c"; cases "y c") (auto simp: restrict_map_def map_add_def)
qed

lemma inner_rows_map:
  assumes "\<And>x y. x \<in> set ls \<Longrightarrow> y \<in> set rs \<Longrightarrow> f x ++ g y = h (x ++ y) \<and> P (h (x ++ y)) = P (x ++ y)"
  shows "inner_rows P (map f ls) (map g rs) = map h (inner_rows P ls rs)"
  using assms
proof (induction ls)
  case (Cons x ls)
  have "filter P (map (\<lambda>y. f x ++ y) (map g rs)) = map h (filter P (map (\<lambda>y. x ++ y) rs))"
    using Cons.prems [of x] by (induction rs) auto
  with Cons show ?case by (simp add: inner_rows_def)
qed (simp add: inner_rows_def)

lemma project_join:
  assumes ok: "plan_ok (LProject (LJoin jt l r ps) cols)" and nc: "set nc = set cols \<union> \<Union> (set (map free_of ps))"
    and lc: "set lc = set nc \<inter> log_att l" and rc: "set rc = set nc \<inter> log_att r"
  shows "refines db (LProject (LJoin jt (LProject l lc) (LProject r rc) ps) cols) (LProject (LJoin jt l r ps) cols)"
proof -
  have pok: "exprs_ok (log_att l \<union> log_att r) ps" using ok by simp
  have sub: "set nc \<subseteq> log_att l \<union> log_att r" using ok nc exprs_ok_free [OF pok] by auto
  have pok': "exprs_ok (set lc \<union> set rc) ps"
    using pok nc lc rc sub by (auto simp: exprs_ok_def list_all_iff)
  have "inner_rows (true_in Map.empty ps) (map (\<lambda>r. r |` set lc) (rows db l)) (map (\<lambda>q. q |` set rc) (rows db r)) =
      map (\<lambda>q. q |` set nc) (inner_rows (true_in Map.empty ps) (rows db l) (rows db r))"
  proof (rule inner_rows_map, intro conjI)
    fix x y assume x: "x \<in> set (rows db l)" and y: "y \<in> set (rows db r)"
    have "dom x \<subseteq> log_att l" "dom y \<subseteq> log_att r" using ok rows_dom [OF _ x] rows_dom [OF _ y] by auto
    then show "x |` set lc ++ y |` set rc = (x ++ y) |` set nc" unfolding lc rc by (rule restrict_add)
    show "true_in Map.empty ps ((x ++ y) |` set nc) = true_in Map.empty ps (x ++ y)"
      using nc by (intro true_in_restrict [OF pok]) auto
  qed
  moreover have "set nc \<inter> set cols = set cols" using nc by auto
  moreover have "jt = Inner \<or> jt = CrossJoinType" using ok by simp
  ultimately have "rows db (LProject (LJoin jt (LProject l lc) (LProject r rc) ps) cols) = rows db (LProject (LJoin jt l r ps) cols)"
    by (auto simp: join_rows_def)
  moreover have "plan_ok (LJoin jt (LProject l lc) (LProject r rc) ps)" using ok pok' lc rc by auto
  moreover have "set cols \<subseteq> set lc \<union> set rc" using nc lc rc sub by auto
  ultimately show ?thesis using lc rc att_cols [of l] att_cols [of r] by (intro refinesI) auto
qed

lemma project_map:
  assumes ok: "plan_ok (LProject (LMap src es) cols)"
  defines "es1 \<equiv> filter (\<lambda>(d, _). d \<in> set cols) es"
  assumes nc: "set nc = (set cols \<union> \<Union> (set (map (free_of \<circ> snd) es1))) - fst ` set es1"
  shows "refines db (LProject (LMap (LProject src nc) es1) cols) (LProject (LMap src es) cols)"
proof -
  have eok: "exprs_ok (log_att src) (map snd es)" and dis: "distinct (map fst es)" and new: "fst ` set es \<inter> log_att src = {}"
    and cs: "set cols \<subseteq> log_att src \<union> fst ` set es" using ok by simp_all
  have sub: "set es1 \<subseteq> set es" and d1: "fst ` set es1 = fst ` set es \<inter> set cols" unfolding es1_def case_prod_unfold set_filter by blast+
  have dis1: "distinct (map fst es1)" using dis by (simp add: es1_def distinct_map_filter)
  have free: "supported e \<and> free_of e \<subseteq> set nc \<and> free_of e \<subseteq> log_att src" if "(d, e) \<in> set es1" for d e
  proof -
    have e: "supported e \<and> free_of e \<subseteq> log_att src" using that sub by (intro exprs_okD [OF eok]) auto
    moreover have "free_of e \<subseteq> \<Union> (set (map (free_of \<circ> snd) es1))" using UN_upper [OF that, of "free_of \<circ> snd"] by simp
    ultimately show ?thesis using nc d1 new by blast
  qed
  have "(map_row Map.empty es1 (q |` set nc)) |` set cols = (map_row Map.empty es q) |` set cols" for q
  proof
    fix c
    show "((map_row Map.empty es1 (q |` set nc)) |` set cols) c = ((map_row Map.empty es q) |` set cols) c"
    proof (cases "c \<in> set cols \<and> c \<in> fst ` set es")
      case True
      then obtain e where e: "(c, e) \<in> set es1" using d1 by force
      then have "map_of es1 c = Some e" "map_of es c = Some e" using dis dis1 sub by (auto simp: map_of_iff)
      moreover have "expr_eval (q |` set nc) e = expr_eval q e"
        using free [OF e] by (intro eval_free [where pf = log_free]) auto
      ultimately show ?thesis using True by (simp add: map_row_empty)
    next
      case False
      then have "c \<in> set cols \<Longrightarrow> c \<in> set nc" using nc d1 by auto
      moreover have "c \<in> set cols \<Longrightarrow> map_row Map.empty es1 (q |` set nc) c = (q |` set nc) c"
        "c \<in> set cols \<Longrightarrow> map_row Map.empty es q c = q c" using False d1 by (auto intro: map_row_other)
      ultimately show ?thesis by (simp add: restrict_map_def)
    qed
  qed
  then have rows: "rows db (LProject (LMap (LProject src nc) es1) cols) = rows db (LProject (LMap src es) cols)" by simp
  have free': "supported (snd x) \<and> free_of (snd x) \<subseteq> set nc \<and> free_of (snd x) \<subseteq> log_att src" if "x \<in> set es1" for x
    using free [of "fst x" "snd x"] that by simp
  then have fs: "\<Union> (set (map (free_of \<circ> snd) es1)) \<subseteq> log_att src" by (simp add: UN_subset_iff)
  have "F \<subseteq> log_att src \<Longrightarrow> (set cols \<union> F) - fst ` set es1 \<subseteq> log_att src" for F unfolding d1 using cs by blast
  from this [OF fs] have ncs: "set nc \<subseteq> log_att src" unfolding nc .
  have ecs: "exprs_ok (set nc) (map snd es1)" using free' by (simp add: exprs_ok_def list_all_iff)
  show ?thesis
  proof (rule refinesI [OF _ _ _ rows])
    have "fst ` set es1 \<inter> set nc = {}" "set cols \<subseteq> set nc \<union> fst ` set es1" using nc d1 by blast+
    then show "plan_ok (LProject (LMap (LProject src nc) es1) cols)" using ok dis1 ncs ecs by simp
    show "log_cols (LProject (LMap (LProject src nc) es1) cols) \<subseteq> log_cols (LProject (LMap src es) cols)"
      using ncs d1 att_cols [of src] by simp blast
  qed simp
qed

lemma project_rename:
  assumes ok: "plan_ok (LProject (LRename src sd) cols)"
  defines "sd1 \<equiv> filter (\<lambda>(_, d). d \<in> set cols) sd"
  assumes nc: "set nc = fst ` set sd1"
  shows "refines db (LRename (LProject src nc) sd1) (LProject (LRename src sd) cols)"
proof -
  have okr: "plan_ok (LRename src sd)" using ok by simp
  have sub: "set sd1 \<subseteq> set sd" by (auto simp: sd1_def)
  have s1: "snd ` set sd1 = set cols" using ok plan_ok_rename_att [OF okr] by (force simp: sd1_def)
  have dist: "distinct (map fst sd1)" "distinct (map snd sd1)" "distinct (map snd sd)"
    using okr by (simp_all add: sd1_def distinct_map_filter)
  have ncs: "set nc \<subseteq> log_att src" and snds: "snd ` set sd1 \<subseteq> snd ` set sd"
    using okr image_mono [OF sub, of fst] image_mono [OF sub, of snd] nc by simp_all
  have "snd ` set sd \<inter> log_cols src = {}" using okr by simp
  then have "snd ` set sd1 \<inter> (log_cols src \<union> set nc) = {}" using ncs snds att_cols [of src] by blast
  then have ok1: "plan_ok (LRename (LProject src nc) sd1)" using okr dist nc ncs by simp
  have "rename_row sd1 (q |` set nc) = (rename_row sd q) |` set cols" if "q \<in> set (rows db src)" for q
  proof (rule rename_rows_eq [OF dist(2)])
    show "dom (q |` set nc) \<subseteq> fst ` set sd1" using nc by auto
    show "dom (rename_row sd q |` set cols) \<subseteq> snd ` set sd1" using s1 by auto
    fix s c assume sc: "(s, c) \<in> set sd1"
    then have "c \<in> set cols" "s \<in> set nc" "(s, c) \<in> set sd" using s1 nc sub by force+
    then show "((rename_row sd q) |` set cols) c = (q |` set nc) s" using rename_row_Some [OF dist(3)] by simp
  qed
  then have rows: "rows db (LRename (LProject src nc) sd1) = rows db (LProject (LRename src sd) cols)" by simp
  have "log_cols (LRename (LProject src nc) sd1) \<subseteq> log_cols (LProject (LRename src sd) cols)"
    using ncs s1 att_cols [of src] by simp blast
  with ok1 rows show ?thesis using plan_ok_rename_att [OF ok1] s1 by (intro refinesI) simp_all
qed

lemma map_of_collect: "distinct (map fst xs) \<Longrightarrow> map_of (collect_map xs) = map_of xs"
proof -
  have "map_of (fold (\<lambda>(k, v). AList.update k v) xs al) = map_of al ++ map_of (rev xs)" for al :: "('a \<times> 'b) list"
    by (induction xs arbitrary: al) (auto simp: update_conv' map_add_def fun_eq_iff split: option.split)
  from this [of "[]"] show "distinct (map fst xs) \<Longrightarrow> ?thesis" by (simp add: collect_map_def map_of_rev_distinct)
qed

text \<open>The old names of the kept columns.\<close>

lemma old_names:
  assumes "distinct (map snd sd)" and "set cols \<subseteq> snd ` set sd"
  defines "sd1 \<equiv> filter (\<lambda>(_, d). d \<in> set cols) sd"
  shows "set (map (ren (map_of (collect_map (map (\<lambda>(s, d). (d, s)) sd1)))) cols) = fst ` set sd1"
proof -
  have sw: "map (\<lambda>(s, d). (d, s)) sd1 = map prod.swap sd1" by auto
  have dist: "distinct (map fst (map prod.swap sd1))" using assms(1) by (simp add: sd1_def distinct_map_filter)
  have m: "ren (map_of (collect_map (map prod.swap sd1))) d = s" if "(s, d) \<in> set sd1" for s d
  proof -
    have "map_of (map prod.swap sd1) d = Some s" using that dist by (simp add: map_of_iff del: map_map)
    then show ?thesis by (simp only: ren_def map_of_collect [OF dist] option.case)
  qed
  have "snd ` set sd1 = set cols" using assms(2) by (force simp: sd1_def)
  then have "(ren (map_of (collect_map (map prod.swap sd1)))) ` set cols = fst ` set sd1"
    using m by (force simp: image_iff)
  then show ?thesis unfolding sw by simp
qed

lemma set_union_cols: "set (it S) = S \<Longrightarrow> set (union_cols it S cols) = set cols \<union> S"
  by (auto simp: union_cols_def)

lemma finite_free: "exprs_ok A ps \<Longrightarrow> finite A \<Longrightarrow> finite (\<Union> (set (map free_of ps)))"
  using exprs_ok_free finite_subset by metis

lemma project_plain:
  assumes "plan_ok (LProject p cols)"
    and "\<not> is_enabled ru ProjectionPushdown \<or> rewrite ru it (CProject True p cols False) g = rewrite ru it (CProject False p cols False) g"
  shows "answers ru it db (CProject True p cols False) g (LProject p cols)"
proof (rule answers_call [OF project_false [OF assms(1)]])
  show "rewrite ru it (CProject True p cols False) g = rewrite ru it (CProject False p cols False) g"
    using assms(2) by (auto simp: rewrite_simps project_body_def)
qed

lemma project_step:
  assumes "is_enabled ru ProjectionPushdown"
  shows "project_body ru it f True (LProject src cs) cols False g = f (CProject True src cols False) g"
    and "plan_ok (LMap src es) \<Longrightarrow> project_body ru it f True (LMap src es) cols False g = (let
        es1 = filter (\<lambda>(d, _). d \<in> set cols) es;
        nc = filter (\<lambda>c. c \<notin> set (map fst es1)) (union_cols it (\<Union> (set (map (free_of \<circ> snd) es1))) cols) in do {
        (s, g) \<leftarrow> f (CProject True src nc False) g;
        (m, g) \<leftarrow> f (CMap True s es1) g;
        f (CProject False m cols False) g })"
    and "project_body ru it f True (LSelect src ps) cols False g = do {
        (s, g) \<leftarrow> f (CProject True src (union_cols it (\<Union> (set (map free_of ps))) cols) False) g;
        (s, g) \<leftarrow> f (CSelect True s ps) g;
        f (CProject False s cols False) g }"
    and "project_body ru it f True (LJoin jt l r ps) cols False g = (let
        nc = union_cols it (\<Union> (set (map free_of ps))) cols in do {
        (l', g) \<leftarrow> f (CProject True l (intersect_cols (log_att l) nc) False) g;
        (r', g) \<leftarrow> f (CProject True r (intersect_cols (log_att r) nc) False) g;
        (j, g) \<leftarrow> f (CJoin True jt l' r' ps) g;
        f (CProject False j cols False) g })"
    and "project_body ru it f True (LRename src sd) cols False g = (let
        sd1 = filter (\<lambda>(_, d). d \<in> set cols) sd in do {
        (s, g) \<leftarrow> f (CProject True src (map (ren (map_of (collect_map (map (\<lambda>(s, d). (d, s)) sd1)))) cols) False) g;
        Some (rename_to s sd1, g) })"
    and "project_body ru it f True (LScan cid name names) cols False g = Some (LScan cid name (filter (\<lambda>c. c \<in> set cols) names), g)"
  using assms plan_ok_closed [of "LMap src es"]
  by (simp_all add: project_body_def Let_def logical_scan_def del: log_free.simps)

lemma project_select_law:
  assumes ok: "plan_ok (LProject (LSelect src ps) cols)" and on: "is_enabled ru ProjectionPushdown"
    and it: "\<And>S. finite S \<Longrightarrow> set (it S) = S"
    and src: "\<And>cs. set cs \<subseteq> log_att src \<Longrightarrow> answers ru it db (CProject True src cs False) g (LProject src cs)"
  shows "answers ru it db (CProject True (LSelect src ps) cols False) g (LProject (LSelect src ps) cols)"
proof -
  define nc where "nc = union_cols it (\<Union> (set (map free_of ps))) cols"
  have pok: "exprs_ok (log_att src) ps" using ok by simp
  have nc: "set nc = set cols \<union> \<Union> (set (map free_of ps))"
    unfolding nc_def by (intro set_union_cols it finite_free [OF pok finite_att])
  have ncs: "set nc \<subseteq> log_att src" using ok nc exprs_ok_free [OF pok] by simp
  have pok': "exprs_ok (set nc) ps" using pok nc by (auto simp: exprs_ok_def list_all_iff)
  obtain s where s: "rewrite ru it (CProject True src nc False) g = Some (s, g)" "refines db s (LProject src nc)"
    by (rule answersE [OF src [OF ncs]])
  then have "plan_ok (LSelect s ps)" using pok' by (simp add: refines_def)
  then obtain q where q: "rewrite ru it (CSelect True s ps) g = Some (q, g)" "refines db q (LSelect s ps)"
    by (rule answersE [OF select_law])
  have "refines db q (LSelect (LProject src nc) ps)"
    using refines_trans [OF q(2) refines_select [OF s(2)]] pok' by simp
  then have "answers ru it db (CProject False q cols False) g (LProject (LSelect (LProject src nc) ps) cols)"
    using nc by (intro project_last) auto
  then show ?thesis
    using s(1) q(1) on by (intro answers_call [OF answers_trans [OF _ project_select [OF ok nc]]])
      (simp_all add: rewrite_simps(4) [of _ _ True "LSelect src ps"] project_step nc_def [symmetric] del: set_map)
qed

lemma project_join_law:
  assumes ok: "plan_ok (LProject (LJoin jt l r ps) cols)" and on: "is_enabled ru ProjectionPushdown"
    and it: "\<And>S. finite S \<Longrightarrow> set (it S) = S"
    and l: "\<And>cs. set cs \<subseteq> log_att l \<Longrightarrow> answers ru it db (CProject True l cs False) g (LProject l cs)"
    and r: "\<And>cs. set cs \<subseteq> log_att r \<Longrightarrow> answers ru it db (CProject True r cs False) g (LProject r cs)"
  shows "answers ru it db (CProject True (LJoin jt l r ps) cols False) g (LProject (LJoin jt l r ps) cols)"
proof -
  define nc where "nc = union_cols it (\<Union> (set (map free_of ps))) cols"
  define lc rc where "lc = intersect_cols (log_att l) nc" and "rc = intersect_cols (log_att r) nc"
  have pok: "exprs_ok (log_att l \<union> log_att r) ps" using ok by simp
  have nc: "set nc = set cols \<union> \<Union> (set (map free_of ps))"
    unfolding nc_def by (intro set_union_cols it finite_free [OF pok] finite_UnI finite_att)
  have lc: "set lc = set nc \<inter> log_att l" and rc: "set rc = set nc \<inter> log_att r" by (auto simp: lc_def rc_def intersect_cols_def)
  obtain l' where l': "rewrite ru it (CProject True l lc False) g = Some (l', g)" "refines db l' (LProject l lc)"
    using l [of lc] lc by (auto elim: answersE)
  obtain r' where r': "rewrite ru it (CProject True r rc False) g = Some (r', g)" "refines db r' (LProject r rc)"
    using r [of rc] rc by (auto elim: answersE)
  note fin = project_join [OF ok nc lc rc]
  then have okj: "plan_ok (LJoin jt (LProject l lc) (LProject r rc) ps)" and cs: "set cols \<subseteq> set lc \<union> set rc"
    unfolding refines_def by simp_all
  have j': "refines db (LJoin jt l' r' ps) (LJoin jt (LProject l lc) (LProject r rc) ps)"
    by (rule refines_join [OF l'(2) r'(2) okj])
  then have okj': "plan_ok (LJoin jt l' r' ps)" unfolding refines_def by blast
  then have "answers ru it db (CJoin True jt l' r' ps) g (LJoin jt l' r' ps)"
    by (intro join_law select_law) simp_all
  then obtain j where j: "rewrite ru it (CJoin True jt l' r' ps) g = Some (j, g)" "refines db j (LJoin jt l' r' ps)"
    by (rule answersE)
  have "answers ru it db (CProject False j cols False) g (LProject (LJoin jt (LProject l lc) (LProject r rc) ps) cols)"
    using cs by (intro project_last refines_trans [OF j(2) j']) simp
  then show ?thesis
    using l'(1) r'(1) j(1) on by (intro answers_call [OF answers_trans [OF _ fin]])
      (simp_all add: rewrite_simps(4) [of _ _ True "LJoin jt l r ps"] project_step Let_def nc_def [symmetric] lc_def [symmetric]
        rc_def [symmetric] del: set_map)
qed

lemma project_map_law:
  assumes ok: "plan_ok (LProject (LMap src es) cols)" and on: "is_enabled ru ProjectionPushdown"
    and it: "\<And>S. finite S \<Longrightarrow> set (it S) = S"
    and src: "\<And>cs. set cs \<subseteq> log_att src \<Longrightarrow> answers ru it db (CProject True src cs False) g (LProject src cs)"
  shows "answers ru it db (CProject True (LMap src es) cols False) g (LProject (LMap src es) cols)"
proof -
  define es1 where "es1 = filter (\<lambda>(d, _). d \<in> set cols) es"
  define nc where "nc = filter (\<lambda>c. c \<notin> set (map fst es1)) (union_cols it (\<Union> (set (map (free_of \<circ> snd) es1))) cols)"
  have "exprs_ok (log_att src) (map snd es1)" using ok by (auto simp: es1_def exprs_ok_def list_all_iff)
  from finite_free [OF this finite_att] have "finite (\<Union> (set (map (free_of \<circ> snd) es1)))" by simp
  from set_union_cols [of it, OF it [OF this]]
  have nc: "set nc = (set cols \<union> \<Union> (set (map (free_of \<circ> snd) es1))) - fst ` set es1"
    unfolding nc_def set_filter by simp blast
  note fin = project_map [OF ok, folded es1_def, OF nc]
  then have okm: "plan_ok (LMap (LProject src nc) es1)" and ncs: "set nc \<subseteq> log_att src" and cs: "set cols \<subseteq> set nc \<union> fst ` set es1"
    unfolding refines_def by simp_all
  obtain s where s: "rewrite ru it (CProject True src nc False) g = Some (s, g)" "refines db s (LProject src nc)"
    by (rule answersE [OF src [OF ncs]])
  have sm: "refines db (LMap s es1) (LMap (LProject src nc) es1)" by (rule refines_map [OF s(2) okm])
  then have "plan_ok (LMap s es1)" unfolding refines_def by blast
  then obtain m where m: "rewrite ru it (CMap True s es1) g = Some (m, g)" "refines db m (LMap s es1)"
    by (rule answersE [OF map_law])
  have "answers ru it db (CProject False m cols False) g (LProject (LMap (LProject src nc) es1) cols)"
    using cs by (intro project_last refines_trans [OF m(2) sm]) simp
  then show ?thesis
    using s(1) m(1) on ok by (intro answers_call [OF answers_trans [OF _ fin]])
      (simp_all add: rewrite_simps(4) [of _ _ True "LMap src es"] project_step Let_def es1_def [symmetric] nc_def [symmetric]
        del: set_map)
qed

lemma project_rename_law:
  assumes ok: "plan_ok (LProject (LRename src sd) cols)" and on: "is_enabled ru ProjectionPushdown"
    and src: "\<And>cs. set cs \<subseteq> log_att src \<Longrightarrow> answers ru it db (CProject True src cs False) g (LProject src cs)"
  shows "answers ru it db (CProject True (LRename src sd) cols False) g (LProject (LRename src sd) cols)"
proof -
  define sd1 where "sd1 = filter (\<lambda>(_, d). d \<in> set cols) sd"
  define nc where "nc = map (ren (map_of (collect_map (map (\<lambda>(s, d). (d, s)) sd1)))) cols"
  have okr: "plan_ok (LRename src sd)" using ok by simp
  then have nc: "set nc = fst ` set sd1"
    unfolding nc_def sd1_def using ok plan_ok_rename_att [OF okr] by (intro old_names) simp_all
  note fin = project_rename [OF ok, folded sd1_def, OF nc]
  then have okn: "plan_ok (LRename (LProject src nc) sd1)" and ncs: "set nc \<subseteq> log_att src" unfolding refines_def by simp_all
  obtain s where s: "rewrite ru it (CProject True src nc False) g = Some (s, g)" "refines db s (LProject src nc)"
    by (rule answersE [OF src [OF ncs]])
  have sr: "refines db (LRename s sd1) (LRename (LProject src nc) sd1)" by (rule refines_rename [OF s(2) okn])
  then have "plan_ok (LRename s sd1)" unfolding refines_def by blast
  then have "refines db (rename_to s sd1) (LRename s sd1)" by (rule rename_to_law)
  from refines_trans [OF refines_trans [OF this sr] fin]
  have r: "refines db (rename_to s sd1) (LProject (LRename src sd) cols)" .
  have "rewrite ru it (CProject True (LRename src sd) cols False) g = Some (rename_to s sd1, g)"
    using s(1) on by (simp add: rewrite_simps(4) [of _ _ True "LRename src sd"] project_step Let_def sd1_def [symmetric] nc_def [symmetric])
  then show ?thesis using r by (rule answersI)
qed

lemma project_law:
  assumes it: "\<And>S. finite S \<Longrightarrow> set (it S) = S"
  shows "plan_ok (LProject p cols) \<Longrightarrow> answers ru it db (CProject True p cols False) g (LProject p cols)"
proof (cases "is_enabled ru ProjectionPushdown")
  case on: True
  show "plan_ok (LProject p cols) \<Longrightarrow> ?thesis"
  proof (induction p arbitrary: cols)
    case (LScan cid name names)
    have "rewrite ru it (CProject True (LScan cid name names) cols False) g = Some (LScan cid name (filter (\<lambda>c. c \<in> set cols) names), g)"
      using on by (simp add: rewrite_simps project_step)
    moreover have "refines db (LScan cid name (filter (\<lambda>c. c \<in> set cols) names)) (LProject (LScan cid name names) cols)"
      using LScan.prems by (auto simp: refines_def Collect_conj_eq Int_commute)
    ultimately show ?case by (rule answersI)
  next
    case (LSelect src ps)
    show ?case using LSelect.prems by (intro project_select_law on it LSelect.IH(1)) simp_all
  next
    case (LJoin jt l r ps)
    show ?case using LJoin.prems by (intro project_join_law on it LJoin.IH(1,2)) simp_all
  next
    case (LMap src es)
    show ?case using LMap.prems by (intro project_map_law on it LMap.IH(1)) simp_all
  next
    case (LRename src sd)
    show ?case using LRename.prems by (intro project_rename_law on LRename.IH) simp_all
  next
    case (LProject src cs)
    have r: "refines db (LProject src cols) (LProject (LProject src cs) cols)"
      using LProject.prems by (auto simp: refines_def Int_absorb1)
    then have "answers ru it db (CProject True src cols False) g (LProject src cols)"
      by (intro LProject.IH) (simp only: refines_def)
    from answers_trans [OF this r] show ?case
      by (rule answers_call) (simp add: on rewrite_simps(4) [of _ _ True "LProject src cs"] project_step)
  qed (rule project_plain; simp add: rewrite_simps project_body_def)+
qed (rule project_plain, simp_all)

end
