(* ===== verification/OuterJoins.thy ===== *)
theory OuterJoins
  imports SelectLaws
begin

text \<open>
  What the rewriting of a join does to the rows, for every join type. A condition that only uses one side is pushed into
  that side as a filter. For an inner join, and for the side that an outer join may pad, that changes nothing; on the
  side whose rows an outer join must keep it removes the rows that fail the condition.
\<close>

section \<open>Rows of outer joins\<close>

lemma inner_rows_single: "inner_rows P [x] rs = filter P (map (\<lambda>y. x ++ y) rs)"
  by (simp add: inner_rows_def)

lemma inner_rows_singleton_right: "inner_rows P ls [y] = filter P (map (\<lambda>x. x ++ y) ls)"
  by (induction ls) (simp_all add: inner_rows_def)

lemma inner_rows_Nil [simp]: "inner_rows P [] rs = []" "inner_rows P ls [] = []"
  by (simp_all add: inner_rows_def)

lemma left_outer_push:
  assumes "\<And>x y. x \<in> set ls \<Longrightarrow> y \<in> set rs \<Longrightarrow> P (x ++ y) \<longleftrightarrow> A x \<and> B y \<and> C (x ++ y)"
    and "\<And>x y. x \<in> set ls \<Longrightarrow> y \<in> set rs \<Longrightarrow> F (x ++ y) = A x" and "\<And>x. x \<in> set ls \<Longrightarrow> F (x ++ null_row ar) = A x"
  shows "join_rows LeftOuter C al ar (filter A ls) (filter B rs) = filter F (join_rows LeftOuter P al ar ls rs)"
  using assms
proof (induction ls)
  case (Cons x ls)
  have rest: "join_rows LeftOuter C al ar (filter A ls) (filter B rs) = filter F (join_rows LeftOuter P al ar ls rs)"
    using Cons.prems by (intro Cons.IH) simp_all
  have one: "inner_rows C (filter A [x]) (filter B rs) = inner_rows P [x] rs"
    using Cons.prems(1) by (intro inner_rows_push) simp
  have all: "filter F (inner_rows P [x] rs) = (if A x then inner_rows P [x] rs else [])"
    using Cons.prems(2) [of x] by (auto simp: inner_rows_single filter_empty_conv intro!: filter_cong)
  show ?case
  proof (cases "A x")
    case True
    with rest one all Cons.prems(3) [of x] show ?thesis by (simp add: join_rows_def)
  next
    case False
    with one have "inner_rows P [x] rs = []" by simp
    with rest False Cons.prems(3) [of x] show ?thesis by (simp add: join_rows_def)
  qed
qed (simp add: join_rows_def)

lemma right_outer_push:
  assumes "\<And>x y. x \<in> set ls \<Longrightarrow> y \<in> set rs \<Longrightarrow> P (x ++ y) \<longleftrightarrow> B y \<and> C (x ++ y)"
    and "\<And>x y. x \<in> set ls \<Longrightarrow> y \<in> set rs \<Longrightarrow> F (x ++ y) = B y" and "\<And>y. y \<in> set rs \<Longrightarrow> F (null_row al ++ y) = B y"
  shows "join_rows RightOuter C al ar ls (filter B rs) = filter F (join_rows RightOuter P al ar ls rs)"
  using assms
proof (induction rs)
  case (Cons y rs)
  have rest: "join_rows RightOuter C al ar ls (filter B rs) = filter F (join_rows RightOuter P al ar ls rs)"
    using Cons.prems by (intro Cons.IH) simp_all
  have one: "inner_rows C (filter (\<lambda>_. True) ls) (filter B [y]) = inner_rows P ls [y]"
    using Cons.prems(1) by (intro inner_rows_push) simp
  have all: "filter F (inner_rows P ls [y]) = (if B y then inner_rows P ls [y] else [])"
    using Cons.prems(2) [of _ y] by (auto simp: inner_rows_singleton_right filter_empty_conv intro!: filter_cong)
  show ?case
  proof (cases "B y")
    case True
    with rest one all Cons.prems(3) [of y] show ?thesis by (simp add: join_rows_def)
  next
    case False
    with one have "inner_rows P ls [y] = []" by simp
    with rest False Cons.prems(3) [of y] show ?thesis by (simp add: join_rows_def)
  qed
qed (simp add: join_rows_def)

section \<open>The two sides\<close>

text \<open>What a join may be built from: two well-scoped plans with different columns, and conditions on these columns.\<close>

definition sides_ok :: "LogicalRelExpr \<Rightarrow> LogicalRelExpr \<Rightarrow> expr list \<Rightarrow> bool" where
  "sides_ok l r ps \<longleftrightarrow> plan_ok (LJoin Inner l r ps)"

lemma sides_plan_ok: "jt \<in> {Inner, CrossJoinType} \<Longrightarrow> sides_ok l r ps \<Longrightarrow> plan_ok (LJoin jt l r ps)"
  by (auto simp: sides_ok_def)

lemma side_preds:
  assumes "sides_ok l r qs" and "x \<in> set (rows db l)" "y \<in> set (rows db r)"
  shows "exprs_ok (log_att l) ps \<Longrightarrow> true_in Map.empty ps (x ++ y) = true_in Map.empty ps x"
    and "exprs_ok (log_att r) ps \<Longrightarrow> true_in Map.empty ps (x ++ y) = true_in Map.empty ps y"
proof -
  have d: "dom x \<subseteq> log_att l" "dom y \<subseteq> log_att r" using assms rows_dom by (auto simp: sides_ok_def)
  have "y c = None" if "c \<in> log_att l" for c using d that assms(1) by (auto simp: sides_ok_def)
  then show "exprs_ok (log_att l) ps \<Longrightarrow> true_in Map.empty ps (x ++ y) = true_in Map.empty ps x"
    by (erule_tac true_in_cong) (simp add: map_add_def)
  have "x c = None" if "c \<in> log_att r" for c using d that assms(1) by (auto simp: sides_ok_def)
  then show "exprs_ok (log_att r) ps \<Longrightarrow> true_in Map.empty ps (x ++ y) = true_in Map.empty ps y"
    by (erule_tac true_in_cong) (simp add: map_add_def split: option.split)
qed

lemma padded_preds:
  assumes "sides_ok l r qs"
  shows "exprs_ok (log_att l) ps \<Longrightarrow> true_in Map.empty ps (x ++ null_row (log_att r)) = true_in Map.empty ps x"
    and "y \<in> set (rows db r) \<Longrightarrow> exprs_ok (log_att r) ps \<Longrightarrow> true_in Map.empty ps (null_row (log_att l) ++ y) = true_in Map.empty ps y"
  using assms by (auto simp: sides_ok_def map_add_def null_row_def split: option.split elim!: true_in_cong)

text \<open>The conditions that are pushed into the side whose rows the join must keep.\<close>

definition preserved_preds :: "JoinType \<Rightarrow> LogicalRelExpr \<Rightarrow> LogicalRelExpr \<Rightarrow> expr list \<Rightarrow> expr list" where
  "preserved_preds jt l r qs = (case jt of LeftOuter \<Rightarrow> left_preds l qs | RightOuter \<Rightarrow> left_preds r qs | _ \<Rightarrow> [])"

lemma rows_splits: "exprs_ok A ps \<Longrightarrow> rows db (LJoin jt l r (splits ps)) = rows db (LJoin jt l r ps)"
proof -
  assume "exprs_ok A ps"
  then have "true_in Map.empty (splits ps) = true_in Map.empty ps" by (intro ext splits_true)
  then show ?thesis by simp
qed

lemma sides_splits: "sides_ok l r ps \<Longrightarrow> rows db (LJoin jt l r (splits ps)) = rows db (LJoin jt l r ps)"
  by (rule rows_splits [of "log_att l \<union> log_att r"]) (simp add: sides_ok_def)

lemma join_unpushed: "rewrite ru it (CJoin False jt l r ps) g = Some (LJoin jt l r (splits ps), g)"
  by (simp add: rewrite_simps join_body_def splits_def)

lemma left_outer_rewritten:
  assumes ok: "sides_ok l r ps" and ps: "ps \<noteq> []"
    and some: "left_preds l (splits ps) \<noteq> [] \<or> right_preds l r (splits ps) \<noteq> []"
  shows "\<exists>p. rewrite ru it (CJoin True LeftOuter l r ps) g = Some (p, g) \<and> log_att p = log_att l \<union> log_att r \<and>
    rows db p = filter (true_in Map.empty (left_preds l (splits ps))) (rows db (LJoin LeftOuter l r ps))"
proof -
  let ?qs = "splits ps" let ?pl = "left_preds l ?qs" and ?pr = "right_preds l r ?qs" and ?keep = "both_preds l r ?qs"
  have okq: "exprs_ok (log_att l \<union> log_att r) ?qs" using ok by (simp add: sides_ok_def splits_ok)
  note po = preds_ok(1) [OF okq, where l = l] preds_ok(2) [OF okq, where l = l and r = r] preds_ok(3) [OF okq, where l = l and r = r]
  obtain lp where lp: "rewrite ru it (CSelect True l ?pl) g = Some (lp, g)" "refines db lp (LSelect l ?pl)"
    using select_law [of l ?pl ru it db g] ok po by (auto simp: sides_ok_def elim: answersE)
  obtain rp where rp: "rewrite ru it (CSelect True r ?pr) g = Some (rp, g)" "refines db rp (LSelect r ?pr)"
    using select_law [of r ?pr ru it db g] ok po by (auto simp: sides_ok_def elim: answersE)
  have call: "rewrite ru it (CJoin True LeftOuter l r ps) g = Some (LJoin LeftOuter lp rp (splits ?keep), g)"
    using some lp(1) rp(1) unfolding rewrite_simps(2) [of _ _ True] join_step [OF ps] by (auto simp: Let_def join_unpushed)
  have "join_rows LeftOuter (true_in Map.empty ?keep) (log_att l) (log_att r)
      (filter (true_in Map.empty ?pl) (rows db l)) (filter (true_in Map.empty ?pr) (rows db r)) =
    filter (true_in Map.empty ?pl) (join_rows LeftOuter (true_in Map.empty ?qs) (log_att l) (log_att r) (rows db l) (rows db r))"
  proof (rule left_outer_push)
    show "true_in Map.empty ?pl (x ++ null_row (log_att r)) = true_in Map.empty ?pl x" for x by (rule padded_preds(1) [OF ok po(1)])
    fix x y assume xy: "x \<in> set (rows db l)" "y \<in> set (rows db r)"
    show "true_in Map.empty ?pl (x ++ y) = true_in Map.empty ?pl x" by (rule side_preds(1) [OF ok xy po(1)])
    moreover have "true_in Map.empty ?pr (x ++ y) = true_in Map.empty ?pr y" by (rule side_preds(2) [OF ok xy po(2)])
    moreover have "true_in Map.empty ?qs q \<longleftrightarrow> true_in Map.empty ?pl q \<and> true_in Map.empty ?pr q \<and> true_in Map.empty ?keep q" for q
      by (auto simp: left_preds_def right_preds_def both_preds_def true_in_def list_all_iff)
    ultimately show "true_in Map.empty ?qs (x ++ y) \<longleftrightarrow> true_in Map.empty ?pl x \<and> true_in Map.empty ?pr y \<and> true_in Map.empty ?keep (x ++ y)"
      by simp
  qed
  then have "rows db (LJoin LeftOuter lp rp ?keep) = filter (true_in Map.empty ?pl) (rows db (LJoin LeftOuter l r ?qs))"
    using lp(2) rp(2) by (simp add: refines_def)
  then have "rows db (LJoin LeftOuter lp rp (splits ?keep)) = filter (true_in Map.empty ?pl) (rows db (LJoin LeftOuter l r ps))"
    using ok unfolding rows_splits [OF po(3)] by (simp add: sides_splits del: plan_rows.simps)
  with call lp(2) rp(2) show ?thesis by (simp add: refines_def del: plan_rows.simps)
qed

lemma right_outer_rewritten:
  assumes ok: "sides_ok l r ps" and ps: "ps \<noteq> []" and some: "left_preds r (splits ps) \<noteq> []"
  shows "\<exists>p. rewrite ru it (CJoin True RightOuter l r ps) g = Some (p, g) \<and> log_att p = log_att l \<union> log_att r \<and>
    rows db p = filter (true_in Map.empty (left_preds r (splits ps))) (rows db (LJoin RightOuter l r ps))"
proof -
  let ?qs = "splits ps" let ?pr = "left_preds r ?qs" and ?keep = "filter (\<lambda>p. \<not> bound p r) ?qs"
  have okq: "exprs_ok (log_att l \<union> log_att r) ?qs" using ok by (simp add: sides_ok_def splits_ok)
  note po = preds_ok(1) [OF okq, where l = r] exprs_ok_filter [OF okq, of "\<lambda>p. \<not> bound p r"]
  obtain rp where rp: "rewrite ru it (CSelect True r ?pr) g = Some (rp, g)" "refines db rp (LSelect r ?pr)"
    using select_law [of r ?pr ru it db g] ok po by (auto simp: sides_ok_def elim: answersE)
  have call: "rewrite ru it (CJoin True RightOuter l r ps) g = Some (LJoin RightOuter l rp (splits ?keep), g)"
    using some rp(1) unfolding rewrite_simps(2) [of _ _ True] join_step [OF ps] by (auto simp: Let_def join_unpushed)
  have "join_rows RightOuter (true_in Map.empty ?keep) (log_att l) (log_att r) (rows db l) (filter (true_in Map.empty ?pr) (rows db r)) =
    filter (true_in Map.empty ?pr) (join_rows RightOuter (true_in Map.empty ?qs) (log_att l) (log_att r) (rows db l) (rows db r))"
  proof (rule right_outer_push)
    show "true_in Map.empty ?pr (null_row (log_att l) ++ y) = true_in Map.empty ?pr y" if "y \<in> set (rows db r)" for y
      by (rule padded_preds(2) [OF ok that po(1)])
    fix x y assume xy: "x \<in> set (rows db l)" "y \<in> set (rows db r)"
    show "true_in Map.empty ?pr (x ++ y) = true_in Map.empty ?pr y" by (rule side_preds(2) [OF ok xy po(1)])
    moreover have "true_in Map.empty ?qs q \<longleftrightarrow> true_in Map.empty ?pr q \<and> true_in Map.empty ?keep q" for q
      unfolding left_preds_def by (rule true_in_part)
    ultimately show "true_in Map.empty ?qs (x ++ y) \<longleftrightarrow> true_in Map.empty ?pr y \<and> true_in Map.empty ?keep (x ++ y)" by simp
  qed
  then have "rows db (LJoin RightOuter l rp ?keep) = filter (true_in Map.empty ?pr) (rows db (LJoin RightOuter l r ?qs))"
    using rp(2) by (simp add: refines_def)
  then have "rows db (LJoin RightOuter l rp (splits ?keep)) = filter (true_in Map.empty ?pr) (rows db (LJoin RightOuter l r ps))"
    using ok unfolding rows_splits [OF po(2)] by (simp add: sides_splits del: plan_rows.simps)
  with call rp(2) show ?thesis by (simp add: refines_def del: plan_rows.simps)
qed

text \<open>Without a condition to push, the join is built as it is.\<close>

lemma outer_unpushed:
  assumes ok: "sides_ok l r ps" and jt: "jt \<in> {LeftOuter, RightOuter, FullOuter}" and ps: "ps \<noteq> []"
    and "jt = LeftOuter \<Longrightarrow> left_preds l (splits ps) = [] \<and> right_preds l r (splits ps) = []"
    and "jt = RightOuter \<Longrightarrow> left_preds r (splits ps) = []"
  shows "rewrite ru it (CJoin True jt l r ps) g = Some (LJoin jt l r (splits ps), g) \<and>
    rows db (LJoin jt l r (splits ps)) = filter (true_in Map.empty (preserved_preds jt l r (splits ps))) (rows db (LJoin jt l r ps))"
proof
  show "rewrite ru it (CJoin True jt l r ps) g = Some (LJoin jt l r (splits ps), g)"
    using jt assms(4,5) unfolding rewrite_simps(2) [of _ _ True] join_step [OF ps] by (auto simp: Let_def)
  have "preserved_preds jt l r (splits ps) = []" using jt assms(4,5) by (auto simp: preserved_preds_def)
  with ok show "rows db (LJoin jt l r (splits ps)) =
      filter (true_in Map.empty (preserved_preds jt l r (splits ps))) (rows db (LJoin jt l r ps))"
    by (simp add: sides_splits del: plan_rows.simps)
qed

text \<open>The rows of a join that was built with rewriting: those asked for on which the pushed conditions of the
  preserved side are true.\<close>

lemma join_rewritten:
  assumes ok: "sides_ok l r ps"
  shows "\<exists>p. rewrite ru it (CJoin True jt l r ps) g = Some (p, g) \<and> log_att p = log_att l \<union> log_att r \<and>
    rows db p = filter (true_in Map.empty (preserved_preds jt l r (splits ps))) (rows db (LJoin jt l r ps))"
proof (cases "ps = []")
  case True
  then have "preserved_preds jt l r (splits ps) = []"
    by (simp add: preserved_preds_def left_preds_def splits_def split: JoinType.split)
  with True show ?thesis by (simp add: rewrite_simps join_body_def)
next
  case ps: False
  consider (inner) "jt \<in> {Inner, CrossJoinType}"
    | (left) "jt = LeftOuter" "left_preds l (splits ps) \<noteq> [] \<or> right_preds l r (splits ps) \<noteq> []"
    | (right) "jt = RightOuter" "left_preds r (splits ps) \<noteq> []"
    | (plain) "jt \<in> {LeftOuter, RightOuter, FullOuter}"
        "jt = LeftOuter \<Longrightarrow> left_preds l (splits ps) = [] \<and> right_preds l r (splits ps) = []"
        "jt = RightOuter \<Longrightarrow> left_preds r (splits ps) = []"
    by (cases jt) auto
  then show ?thesis
  proof cases
    case inner
    from sides_plan_ok [OF this ok] have "answers ru it db (CJoin True jt l r ps) g (LJoin jt l r ps)"
      by (intro join_law select_law) simp_all
    moreover have "preserved_preds jt l r (splits ps) = []" using inner by (auto simp: preserved_preds_def)
    ultimately show ?thesis by (auto simp: answers_def refines_def)
  next
    case left
    with left_outer_rewritten [OF ok ps left(2), of ru it g db] show ?thesis by (simp add: preserved_preds_def)
  next
    case right
    with right_outer_rewritten [OF ok ps right(2), of ru it g db] show ?thesis by (simp add: preserved_preds_def)
  next
    case plain
    from outer_unpushed [OF ok plain(1) ps plain(2,3), of ru it g db] show ?thesis by auto
  qed
qed

section \<open>When nothing is lost\<close>

text \<open>The rows that a join must keep.\<close>

definition preserved_rows :: "JoinType \<Rightarrow> row list \<Rightarrow> row list \<Rightarrow> row list" where
  "preserved_rows jt ls rs = (case jt of LeftOuter \<Rightarrow> ls | RightOuter \<Rightarrow> rs | _ \<Rightarrow> [])"

lemma list_all_concat_map: "(\<And>x. x \<in> set xs \<Longrightarrow> list_all F (f x) = G x) \<Longrightarrow> list_all F (concat (map f xs)) = list_all G xs"
  by (induction xs) simp_all

lemma left_outer_all:
  assumes "\<And>x y. x \<in> set ls \<Longrightarrow> y \<in> set rs \<Longrightarrow> F (x ++ y) = F x" and "\<And>x. F (x ++ null_row ar) = F x"
  shows "list_all F (join_rows LeftOuter P al ar ls rs) \<longleftrightarrow> list_all F ls"
proof -
  have "list_all F (if inner_rows P [x] rs = [] then [x ++ null_row ar] else inner_rows P [x] rs) \<longleftrightarrow> F x" if "x \<in> set ls" for x
    using assms that by (auto simp: inner_rows_single list_all_iff filter_empty_conv)
  then show ?thesis unfolding join_rows_def JoinType.case by (rule list_all_concat_map)
qed

lemma right_outer_all:
  assumes "\<And>x y. x \<in> set ls \<Longrightarrow> y \<in> set rs \<Longrightarrow> F (x ++ y) = F y" and "\<And>y. y \<in> set rs \<Longrightarrow> F (null_row al ++ y) = F y"
  shows "list_all F (join_rows RightOuter P al ar ls rs) \<longleftrightarrow> list_all F rs"
proof -
  have "list_all F (if inner_rows P ls [y] = [] then [null_row al ++ y] else inner_rows P ls [y]) \<longleftrightarrow> F y" if "y \<in> set rs" for y
    using assms that by (auto simp: inner_rows_singleton_right list_all_iff filter_empty_conv)
  then show ?thesis unfolding join_rows_def JoinType.case by (rule list_all_concat_map)
qed

lemma all_preserved:
  assumes ok: "sides_ok l r ps" and ps: "ps' = preserved_preds jt l r (splits ps)"
  shows "list_all (true_in Map.empty ps') (rows db (LJoin jt l r ps)) \<longleftrightarrow>
    list_all (true_in Map.empty ps') (preserved_rows jt (rows db l) (rows db r))"
proof -
  have okq: "exprs_ok (log_att l \<union> log_att r) (splits ps)" using ok by (simp add: sides_ok_def splits_ok)
  have true: "list_all (true_in Map.empty []) xs" for xs by (simp add: list_all_iff)
  show ?thesis
  proof (cases jt)
    case LeftOuter
    then have e: "exprs_ok (log_att l) ps'" using preds_ok(1) [OF okq] by (simp add: ps preserved_preds_def)
    show ?thesis unfolding LeftOuter preserved_rows_def JoinType.case plan_rows.simps
      by (intro left_outer_all padded_preds(1) [OF ok e] side_preds(1) [OF ok _ _ e])
  next
    case RightOuter
    then have e: "exprs_ok (log_att r) ps'" using preds_ok(1) [OF okq] by (simp add: ps preserved_preds_def)
    show ?thesis unfolding RightOuter preserved_rows_def JoinType.case plan_rows.simps
      by (intro right_outer_all padded_preds(2) [OF ok _ e] side_preds(2) [OF ok _ _ e])
  qed (simp_all add: ps preserved_preds_def preserved_rows_def true del: true_in_simps)
qed

end
