(* ===== verification/RewriteProps.thy ===== *)
theory RewriteProps
  imports ProjectLaws OuterJoins
begin

text \<open>The correctness of the rewriting of select, join, map and project, and what it does to the rows of outer joins.\<close>

text \<open>The plan that a call asks for, as it is built without any rewriting.\<close>

primrec asked :: "call \<Rightarrow> LogicalRelExpr" where
  "asked (CSelect opt p ps) = LSelect p ps"
| "asked (CJoin opt jt l r ps) = LJoin jt l r ps"
| "asked (CMap opt p es) = LMap p es"
| "asked (CProject opt p cols w) = (if w then p else LProject p cols)"
| "asked (CFlatmap opt p q) = LFlatMap p q"
| "asked (CHoist p d e) = LMap p [(d, e)]"

fun hoists :: "call \<Rightarrow> bool" where
  "hoists (CHoist p d e) = True"
| "hoists _ = False"

lemma rewrite_answers:
  assumes "plan_ok (asked c)" and "\<not> hoists c" and it: "\<And>S. finite S \<Longrightarrow> set (it S) = S"
  shows "answers ru it db c g (asked c)"
proof (cases c)
  case (CSelect opt p ps)
  then show ?thesis using assms select_law select_false by (cases opt) auto
next
  case (CJoin opt jt l r ps)
  have "answers ru it db (CJoin True jt l r ps) g (LJoin jt l r ps)" if "plan_ok (LJoin jt l r ps)"
    using that by (intro join_law select_law) simp_all
  then show ?thesis using CJoin assms join_false by (cases opt) auto
next
  case (CMap opt p es)
  then show ?thesis using assms map_law map_false by (cases opt) auto
next
  case (CProject opt p cols w)
  have "answers ru it db (CProject opt p cols True) g p" if "plan_ok p"
    by (rule answersI [OF _ refines_refl [OF that]]) (simp add: rewrite_simps project_body_def)
  then show ?thesis using CProject assms project_law [of it] project_false by (cases opt; cases w) auto
qed (use assms in simp_all)

text \<open>C33: building a select, join, map or projection over a plan without subqueries, outer joins and case expressions
  always returns a plan, whatever rules are enabled and in whatever order hash sets are iterated. The plan is
  well-scoped, has the set of columns of the plan that was asked for, and on every database the same rows, as maps from
  columns to values, in the same order: pushing predicates into joins, below groupings and maps, merging maps, composing
  renames and pushing projections down change nothing.\<close>

theorem rewriting_keeps_rows:
  assumes "plan_ok (asked c)" and "\<not> hoists c" and "\<And>S. finite S \<Longrightarrow> set (it S) = S"
  shows "\<exists>p. rewrite ru it c g = Some (p, g) \<and> plan_ok p \<and> log_att p = log_att (asked c) \<and>
    plan_rows db p Map.empty = plan_rows db (asked c) Map.empty"
  using rewrite_answers [OF assms, of ru db g] by (auto simp: answers_def refines_def)

definition two_tables :: db where
  "two_tables = \<lparr>db_rows = (\<lambda>cid. if cid = 0 then [[1 \<mapsto> FBigInt 7], [1 \<mapsto> FBigInt 8]] else [[2 \<mapsto> FBigInt 8]]), db_index = (\<lambda>_ _. [])\<rparr>"

definition eq_join :: call where
  "eq_join = CSelect True (LJoin CrossJoinType (LScan 0 ''l'' [1]) (LScan 1 ''r'' [2]) [])
     [Binary And (Binary Eq (ColRef 1) (ColRef 2)) (Binary Gt (ColRef 1) (Lit (FBigInt 7)))]"

theorem rewriting_keeps_rows_witness:
  "\<exists>p. rewrite Rules_default sorted_list_of_set eq_join 10000 = Some (p, 10000) \<and>
     plan_rows two_tables p Map.empty = [[1 \<mapsto> FBigInt 8, 2 \<mapsto> FBigInt 8]]"
proof -
  have "plan_ok (asked eq_join)" "\<not> hoists eq_join" by (simp_all add: eq_join_def)
  then obtain p where "rewrite Rules_default sorted_list_of_set eq_join 10000 = Some (p, 10000)"
    "plan_rows two_tables p Map.empty = plan_rows two_tables (asked eq_join) Map.empty"
    using rewriting_keeps_rows [of eq_join sorted_list_of_set Rules_default 10000 two_tables] by auto
  moreover have "plan_rows two_tables (asked eq_join) Map.empty = [[1 \<mapsto> FBigInt 8, 2 \<mapsto> FBigInt 8]]"
    by (auto simp: eq_join_def two_tables_def join_rows_def inner_rows_def true_in_def less_Field_def)
  ultimately show ?thesis by auto
qed

text \<open>C34: what building a join of any type does, over plans without subqueries and outer joins that have different
  columns. It returns a plan with the columns of both sides, whose rows are those of the join that was asked for,
  without the rows on which a condition fails that only uses the left side of a left outer join, or the right side of
  a right outer join: these conditions become filters of the side whose rows the join should keep and pad with nulls.
  So the plan has the rows asked for exactly when every row of that side satisfies them, and always when the join is
  inner, cross or full.\<close>

theorem join_rewriting_rows:
  assumes "sides_ok l r ps"
  shows "\<exists>p. rewrite ru it (CJoin True jt l r ps) g = Some (p, g) \<and> log_att p = log_att l \<union> log_att r \<and>
    plan_rows db p Map.empty =
      filter (true_in Map.empty (preserved_preds jt l r (splits ps))) (plan_rows db (LJoin jt l r ps) Map.empty) \<and>
    (plan_rows db p Map.empty = plan_rows db (LJoin jt l r ps) Map.empty \<longleftrightarrow>
      list_all (true_in Map.empty (preserved_preds jt l r (splits ps)))
        (preserved_rows jt (plan_rows db l Map.empty) (plan_rows db r Map.empty)))"
proof -
  obtain p where p: "rewrite ru it (CJoin True jt l r ps) g = Some (p, g)" "log_att p = log_att l \<union> log_att r"
    "rows db p = filter (true_in Map.empty (preserved_preds jt l r (splits ps))) (rows db (LJoin jt l r ps))"
    using join_rewritten [OF assms, of ru it jt g db] by blast
  have "filter F xs = xs \<longleftrightarrow> list_all F xs" for F and xs :: "row list" by (simp add: filter_id_conv list_all_iff)
  then have "rows db p = rows db (LJoin jt l r ps) \<longleftrightarrow> list_all (true_in Map.empty (preserved_preds jt l r (splits ps)))
      (preserved_rows jt (rows db l) (rows db r))"
    unfolding p(3) by (simp only: all_preserved [OF assms refl, of jt db])
  with p show ?thesis by blast
qed

text \<open>A left row that should be padded with nulls is missing.\<close>

theorem join_rewriting_rows_witness:
  "\<exists>p. rewrite Rules_default sorted_list_of_set (CJoin True LeftOuter (LScan 0 ''l'' [1]) (LScan 1 ''r'' [2])
       [Binary Gt (ColRef 1) (Lit (FBigInt 7))]) 10000 = Some (p, 10000) \<and>
     plan_rows two_tables p Map.empty = [[1 \<mapsto> FBigInt 8, 2 \<mapsto> FBigInt 8]] \<and>
     plan_rows two_tables (LJoin LeftOuter (LScan 0 ''l'' [1]) (LScan 1 ''r'' [2]) [Binary Gt (ColRef 1) (Lit (FBigInt 7))]) Map.empty =
       [[1 \<mapsto> FBigInt 7, 2 \<mapsto> FNull], [1 \<mapsto> FBigInt 8, 2 \<mapsto> FBigInt 8]]"
proof -
  let ?l = "LScan 0 ''l'' [1]" and ?r = "LScan 1 ''r'' [2]" and ?ps = "[Binary Gt (ColRef 1) (Lit (FBigInt 7))]"
  have ok: "sides_ok ?l ?r ?ps" by (simp add: sides_ok_def)
  have asked: "plan_rows two_tables (LJoin LeftOuter ?l ?r ?ps) Map.empty = [[1 \<mapsto> FBigInt 7, 2 \<mapsto> FNull], [1 \<mapsto> FBigInt 8, 2 \<mapsto> FBigInt 8]]"
    by (auto simp: two_tables_def join_rows_def inner_rows_def true_in_def less_Field_def null_row_def map_add_def)
  have preds: "preserved_preds LeftOuter ?l ?r (splits ?ps) = ?ps"
    by (simp add: preserved_preds_def left_preds_def splits_def bound_by_def)
  show ?thesis using join_rewriting_rows [OF ok, of Rules_default sorted_list_of_set LeftOuter 10000 two_tables]
    unfolding asked preds by (auto simp: less_Field_def)
qed

end
