(* ===== verification/MemStore.thy ===== *)
theory MemStore
  imports Errors Scalars
begin

text \<open>
  The in-memory storage manager, memstore/src/storage_manager.rs. A \<open>HashMap\<close> is an association list in the order in
  which it is iterated; locks are never contended. The file system maps paths to directories with named files and
  subdirectories; reading and writing files does not fail, and a subdirectory cannot be read or overwritten as a file. Files have the contents that serde_cbor, which is code outside the repository, writes
  and reads: the arguments \<open>to_cbor\<close> and \<open>from_cbor\<close>. \<open>None\<close> is a panic, overflow of a slot number included.
\<close>

section \<open>State\<close>

type_synonym ContainerMap = "(ValueId \<times> bytes) list"

record MemStore =
  ms_containers :: "(ContainerId \<times> ContainerMap) list"
  ms_last_insert :: "(ContainerId \<times> ValueId) list"
  ms_storage_dir :: "string option"
  ms_container_names :: "(string \<times> ContainerId) list"

datatype 'f entry = File 'f | Subdir

type_synonym 'f directory = "(string \<times> 'f entry) list"

type_synonym 'f file_system = "(string \<times> 'f directory) list"

text \<open>\<open>{:?}\<close> of a value id.\<close>

definition vid_debug :: "ValueId \<Rightarrow> string" where
  "vid_debug v = ''<c_id:'' @ dec_nat (unat (container_id v)) @
     (case segment_id v of Some s \<Rightarrow> '',seg_id:'' @ dec_nat (unat s) | None \<Rightarrow> []) @
     (case page_id v of Some p \<Rightarrow> '',p_id:'' @ dec_nat (unat p) | None \<Rightarrow> []) @
     (case slot_id v of Some s \<Rightarrow> '',slot_id:'' @ dec_nat (unat s) | None \<Rightarrow> []) @ ''>''"

section \<open>Operations\<close>

definition ms_new_test_sm :: MemStore where
  "ms_new_test_sm = \<lparr>ms_containers = [], ms_last_insert = [], ms_storage_dir = None, ms_container_names = []\<rparr>"

definition ms_insert_value :: "MemStore \<Rightarrow> ContainerId \<Rightarrow> bytes \<Rightarrow> (MemStore \<times> ValueId) option" where
  "ms_insert_value sm c v = do {
     vals \<leftarrow> map_of (ms_containers sm) c;
     next_slot \<leftarrow> (case map_of (ms_last_insert sm) c of
        None \<Rightarrow> Some 0
      | Some slot \<Rightarrow> do { s \<leftarrow> slot_id slot; checked_add s 1 });
     let rid = \<lparr>container_id = c, segment_id = None, page_id = None, slot_id = Some next_slot\<rparr>;
     Some (sm\<lparr>ms_containers := AList.update c (AList.update rid v vals) (ms_containers sm),
              ms_last_insert := AList.update c rid (ms_last_insert sm)\<rparr>, rid) }"

primrec ms_insert_values :: "MemStore \<Rightarrow> ContainerId \<Rightarrow> bytes list \<Rightarrow> (MemStore \<times> ValueId list) option" where
  "ms_insert_values sm c [] = Some (sm, [])"
| "ms_insert_values sm c (x # values) = do {
     (sm, rid) \<leftarrow> ms_insert_value sm c x;
     (sm, ret) \<leftarrow> ms_insert_values sm c values;
     Some (sm, rid # ret) }"

definition ms_delete_value :: "MemStore \<Rightarrow> ValueId \<Rightarrow> (MemStore, CrustyError, unit) run" where
  "ms_delete_value sm i = (case map_of (ms_containers sm) (container_id i) of
     None \<Rightarrow> Some (sm, Inl (CrustyError ''File ID not found for recordID''))
   | Some vals \<Rightarrow> Some (if map_of vals i = None then sm
       else sm\<lparr>ms_containers := AList.update (container_id i) (AList.delete i vals) (ms_containers sm)\<rparr>, Inr ()))"

definition ms_update_value :: "MemStore \<Rightarrow> bytes \<Rightarrow> ValueId \<Rightarrow> (MemStore, CrustyError, ValueId) run" where
  "ms_update_value sm v i = and_then (ms_delete_value sm i) (\<lambda>sm _. do {
     (sm, rid) \<leftarrow> ms_insert_value sm (container_id i) v;
     Some (sm, Inr rid) })"

definition ms_create_container ::
  "MemStore \<Rightarrow> ContainerId \<Rightarrow> string option \<Rightarrow> ContainerId list option \<Rightarrow> (MemStore, CrustyError, unit) run" where
  "ms_create_container sm c name deps =
     and_then (case name of
         None \<Rightarrow> Some (sm, Inr ())
       | Some n \<Rightarrow> if map_of (ms_container_names sm) n = None
           then Some (sm\<lparr>ms_container_names := AList.update n c (ms_container_names sm)\<rparr>, Inr ())
           else Some (sm, Inl (ExecutionError ''Container with name already exists'')))
       (\<lambda>sm _. do {
         assert_that (deps = None);
         Some (if map_of (ms_containers sm) c \<noteq> None then sm
               else sm\<lparr>ms_containers := AList.update c [] (ms_containers sm)\<rparr>, Inr ()) })"

definition ms_create_table :: "MemStore \<Rightarrow> ContainerId \<Rightarrow> (MemStore, CrustyError, unit) run" where
  "ms_create_table sm c = ms_create_container sm c None None"

definition ms_remove_container :: "MemStore \<Rightarrow> ContainerId \<Rightarrow> (MemStore, CrustyError, unit) run" where
  "ms_remove_container sm c = Some (if map_of (ms_containers sm) c = None then sm
     else sm\<lparr>ms_containers := AList.delete c (ms_containers sm)\<rparr>, Inr ())"

definition ms_get_value :: "MemStore \<Rightarrow> ValueId \<Rightarrow> (MemStore, CrustyError, bytes) run" where
  "ms_get_value sm i = (case map_of (ms_containers sm) (container_id i) of
     None \<Rightarrow> Some (sm, Inl (ExecutionError (''File ID not found '' @ vid_debug i)))
   | Some vals \<Rightarrow> (case map_of vals i of
       None \<Rightarrow> Some (sm, Inl (ExecutionError (''Record ID not found '' @ vid_debug i)))
     | Some v \<Rightarrow> Some (sm, Inr v)))"

definition ms_reset :: "MemStore \<Rightarrow> (MemStore, CrustyError, unit) run" where
  "ms_reset sm = Some (sm\<lparr>ms_containers := [], ms_last_insert := [], ms_container_names := []\<rparr>, Inr ())"

section \<open>Persistence\<close>

text \<open>The stem and the extension of a file name are split at its last dot, unless that is the first character.\<close>

definition split_name :: "string \<Rightarrow> string \<times> string option" where
  "split_name n = (let ext = takeWhile (\<lambda>c. c \<noteq> CHR ''.'') (rev n); stem = drop (Suc (length ext)) (rev n) in
     if stem = [] then (n, None) else (rev stem, Some (rev ext)))"

definition parse_unsigned :: "string \<Rightarrow> 'a::len word option" where
  "parse_unsigned s = do {
     n \<leftarrow> parse_digits (case s of c # t \<Rightarrow> if c = CHR ''+'' then t else s | [] \<Rightarrow> []);
     assert_that (n < 2 ^ LENGTH('a));
     Some (word_of_nat n) }"

definition ms_file_name :: "ContainerId \<Rightarrow> string" where
  "ms_file_name c = dec_nat (unat c) @ ''.ms''"

definition dir_of :: "'f file_system \<Rightarrow> string \<Rightarrow> 'f directory" where
  "dir_of fs d = (case map_of fs d of Some dir \<Rightarrow> dir | None \<Rightarrow> [])"

definition create_file :: "string \<Rightarrow> 'f \<Rightarrow> 'f directory \<Rightarrow> 'f directory option" where
  "create_file n f dir = (if map_of dir n = Some Subdir then None else Some (AList.update n (File f) dir))"

primrec ms_write_files :: "(ContainerMap \<Rightarrow> 'f) \<Rightarrow> (ContainerId \<times> ContainerMap) list \<Rightarrow> 'f directory \<Rightarrow> 'f directory option" where
  "ms_write_files to_cbor [] dir = Some dir"
| "ms_write_files to_cbor (x # xs) dir = do {
     dir \<leftarrow> create_file (ms_file_name (fst x)) (to_cbor (snd x)) dir;
     ms_write_files to_cbor xs dir }"

definition ms_shutdown :: "(ContainerMap \<Rightarrow> 'f) \<Rightarrow> MemStore \<Rightarrow> 'f file_system \<Rightarrow> 'f file_system option" where
  "ms_shutdown to_cbor sm fs = (case ms_storage_dir sm of
     None \<Rightarrow> Some fs
   | Some d \<Rightarrow> do {
       dir \<leftarrow> ms_write_files to_cbor (ms_containers sm) (dir_of fs d);
       Some (AList.update d dir fs) })"

text \<open>The largest key, by the slot.\<close>

definition max_key :: "ContainerId \<Rightarrow> ContainerMap \<Rightarrow> ValueId" where
  "max_key c vals = fold (\<lambda>(key, _) m. case slot_id key of
       Some s \<Rightarrow> if the (slot_id m) < s then key else m
     | None \<Rightarrow> m) vals \<lparr>container_id = c, segment_id = None, page_id = None, slot_id = Some 0\<rparr>"

primrec read_entry :: "('f \<Rightarrow> ContainerMap option) \<Rightarrow> 'f entry \<Rightarrow> ContainerMap option" where
  "read_entry from_cbor (File f) = from_cbor f"
| "read_entry from_cbor Subdir = None"

primrec ms_load_files :: "('f \<Rightarrow> ContainerMap option) \<Rightarrow> 'f directory \<Rightarrow>
    (ContainerId \<times> ContainerMap) list \<Rightarrow> (ContainerId \<times> ValueId) list \<Rightarrow>
    ((ContainerId \<times> ContainerMap) list \<times> (ContainerId \<times> ValueId) list) option" where
  "ms_load_files from_cbor [] cs ls = Some (cs, ls)"
| "ms_load_files from_cbor (entry # entries) cs ls = do {
     vals \<leftarrow> read_entry from_cbor (snd entry);
     c \<leftarrow> parse_unsigned (fst (split_name (fst entry)));
     ms_load_files from_cbor entries (AList.update c vals cs) (AList.update c (max_key c vals) ls) }"

text \<open>Every entry of the directory must have an extension, subdirectories included; the others than \<open>.ms\<close> are
  skipped.\<close>

definition ms_load :: "('f \<Rightarrow> ContainerMap option) \<Rightarrow> string \<Rightarrow> 'f directory \<Rightarrow> MemStore option" where
  "ms_load from_cbor d dir = do {
     assert_that (list_all (\<lambda>(n, _). snd (split_name n) \<noteq> None) dir);
     (cs, ls) \<leftarrow> ms_load_files from_cbor (filter (\<lambda>(n, _). snd (split_name n) = Some ''ms'') dir) [] [];
     Some \<lparr>ms_containers = cs, ms_last_insert = ls, ms_storage_dir = Some d, ms_container_names = []\<rparr> }"

definition ms_new :: "('f \<Rightarrow> ContainerMap option) \<Rightarrow> 'f file_system \<Rightarrow> string \<Rightarrow> MemStore option" where
  "ms_new from_cbor fs d = (case map_of fs d of
     Some dir \<Rightarrow> ms_load from_cbor d dir
   | None \<Rightarrow> Some \<lparr>ms_containers = [], ms_last_insert = [], ms_storage_dir = Some d, ms_container_names = []\<rparr>)"

section \<open>The iterator\<close>

text \<open>The iterator shares the map of its container, which is an argument here.\<close>

record ValueIterator =
  tracker :: ValueId
  vi_max :: u16
  current :: u16

definition ValueIterator_new :: "ContainerId \<Rightarrow> u16 \<Rightarrow> ValueIterator" where
  "ValueIterator_new c m = \<lparr>tracker = (ValueId_new c)\<lparr>slot_id := Some 0\<rparr>, vi_max = m, current = 0\<rparr>"

definition ms_get_iterator :: "MemStore \<Rightarrow> ContainerId \<Rightarrow> (ContainerMap \<times> ValueIterator) option" where
  "ms_get_iterator sm c = do {
     vals \<leftarrow> map_of (ms_containers sm) c;
     let last = (case map_of (ms_last_insert sm) c of Some i \<Rightarrow> i | None \<Rightarrow> ValueId_new c);
     Some (vals, ValueIterator_new c (case slot_id last of Some s \<Rightarrow> s | None \<Rightarrow> 0)) }"

definition vi_step :: "ValueIterator \<Rightarrow> ValueIterator option" where
  "vi_step it = do {
     s \<leftarrow> slot_id (tracker it);
     s' \<leftarrow> checked_add s 1;
     c' \<leftarrow> checked_add (current it) 1;
     Some (it\<lparr>tracker := (tracker it)\<lparr>slot_id := Some s'\<rparr>, current := c'\<rparr>) }"

lemma vi_step_measure:
  "vi_step it = Some it' \<Longrightarrow> vi_max it' = vi_max it \<and> unat (current it') = Suc (unat (current it))"
  by (auto simp: vi_step_def bind_eq_Some_conv checked_add_def unat_word_ariths split: if_splits)

function vi_next :: "ContainerMap \<Rightarrow> ValueIterator \<Rightarrow> (ValueIterator \<times> (bytes \<times> ValueId) option) option" where
  "vi_next vals it = (if current it \<le> vi_max it then
       (case vi_step it of
          None \<Rightarrow> None
        | Some it' \<Rightarrow> (case map_of vals (tracker it) of
            Some res \<Rightarrow> Some (it', Some (res, tracker it'))
          | None \<Rightarrow> vi_next vals it'))
     else Some (it, None))"
  by pat_completeness auto
termination
  by (relation "measure (\<lambda>(_, it). Suc (unat (vi_max it)) - unat (current it))")
    (auto simp: word_le_nat_alt dest!: vi_step_measure)

declare vi_next.simps [simp del]

end
