(* ===== verification/StorageSpec.thy ===== *)
theory StorageSpec
  imports Errors
begin

text \<open>
  What the query engine relies on in a storage manager, common/src/traits/storage_trait.rs: a store is a finite map from
  value ids to byte strings. The ids that a store uses are \<open>st_id\<close>; \<open>st_room\<close> says when an insertion into a container is
  accepted.
\<close>

locale storage =
  fixes st_ok :: "'s \<Rightarrow> bool" and st_view :: "'s \<Rightarrow> ValueId \<Rightarrow> bytes option" and st_id :: "ValueId \<Rightarrow> bool"
    and st_room :: "'s \<Rightarrow> ContainerId \<Rightarrow> bytes \<Rightarrow> bool"
    and st_insert :: "'s \<Rightarrow> ContainerId \<Rightarrow> bytes \<Rightarrow> ('s \<times> ValueId) option"
    and st_get :: "'s \<Rightarrow> ValueId \<Rightarrow> ('s, CrustyError, bytes) run"
    and st_delete :: "'s \<Rightarrow> ValueId \<Rightarrow> ('s, CrustyError, unit) run"
    and st_update :: "'s \<Rightarrow> bytes \<Rightarrow> ValueId \<Rightarrow> ('s, CrustyError, ValueId) run"
  assumes insert_law: "st_ok s \<Longrightarrow> st_room s c v \<Longrightarrow> \<exists>s' i. st_insert s c v = Some (s', i) \<and> st_ok s' \<and> st_id i \<and>
      container_id i = c \<and> st_view s i = None \<and> st_view s' = (st_view s)(i \<mapsto> v)"
    and get_law: "st_ok s \<Longrightarrow> st_id i \<Longrightarrow> \<exists>s' r. st_get s i = Some (s', r) \<and> st_ok s' \<and> st_view s' = st_view s \<and>
      (case st_view s i of Some v \<Rightarrow> r = Inr v | None \<Rightarrow> \<exists>e. r = Inl e)"
    and delete_law: "st_ok s \<Longrightarrow> st_id i \<Longrightarrow> st_view s i \<noteq> None \<Longrightarrow> \<exists>s'. st_delete s i = Some (s', Inr ()) \<and> st_ok s' \<and>
      st_view s' = (st_view s)(i := None)"
    and update_law: "st_ok s \<Longrightarrow> st_id i \<Longrightarrow> st_view s i \<noteq> None \<Longrightarrow> st_room s (container_id i) v \<Longrightarrow>
      \<exists>s' j. st_update s v i = Some (s', Inr j) \<and> st_ok s' \<and> st_id j \<and> container_id j = container_id i \<and>
        (j = i \<or> st_view s j = None) \<and> st_view s' = (st_view s)(i := None, j \<mapsto> v)"
begin

text \<open>Reading back what was written, under the id the store returned.\<close>

lemma read_inserted:
  assumes "st_ok s" and "st_room s c v"
  shows "\<exists>s' i s''. st_insert s c v = Some (s', i) \<and> st_ok s' \<and> st_view s i = None \<and> st_get s' i = Some (s'', Inr v)"
proof -
  obtain s' i where i: "st_insert s c v = Some (s', i)" "st_ok s'" "st_id i" "st_view s i = None" "st_view s' = (st_view s)(i \<mapsto> v)"
    using insert_law [OF assms] by auto
  with get_law [OF i(2,3)] show ?thesis by auto
qed

lemma read_updated:
  assumes "st_ok s" and "st_id i" and "st_view s i \<noteq> None" and "st_room s (container_id i) v"
  shows "\<exists>s' j s''. st_update s v i = Some (s', Inr j) \<and> st_ok s' \<and> st_get s' j = Some (s'', Inr v)"
proof -
  obtain s' j where j: "st_update s v i = Some (s', Inr j)" "st_ok s'" "st_id j" "st_view s' = (st_view s)(i := None, j \<mapsto> v)"
    using update_law [OF assms] by auto
  with get_law [OF j(2,3)] show ?thesis by auto
qed

lemma read_deleted:
  assumes "st_ok s" and "st_id i" and "st_view s i \<noteq> None"
  shows "\<exists>s' s'' e. st_delete s i = Some (s', Inr ()) \<and> st_ok s' \<and> st_get s' i = Some (s'', Inl e)"
proof -
  obtain s' where d: "st_delete s i = Some (s', Inr ())" "st_ok s'" "st_view s' = (st_view s)(i := None)"
    using delete_law [OF assms] by auto
  with get_law [OF d(2) assms(2)] show ?thesis by auto
qed

text \<open>A value stays readable while others are inserted, deleted or updated.\<close>

lemma read_other:
  assumes "st_ok s" and "st_id i" and "st_view s i = Some v" and "st_room s c w"
  shows "\<exists>s' j s''. st_insert s c w = Some (s', j) \<and> j \<noteq> i \<and> st_get s' i = Some (s'', Inr v)"
proof -
  obtain s' j where j: "st_insert s c w = Some (s', j)" "st_ok s'" "st_view s j = None" "st_view s' = (st_view s)(j \<mapsto> w)"
    using insert_law [OF assms(1,4)] by auto
  then have "j \<noteq> i" using assms(3) by auto
  with j get_law [OF j(2) assms(2)] assms(3) show ?thesis by auto
qed

end

end
