(* ===== verification/MemStoreProps.thy ===== *)
theory MemStoreProps
  imports MemStore StorageSpec Iteration
begin

text \<open>The in-memory store keeps the contract of a storage manager, survives a restart, and its iterator returns
  every value, each with the id of the slot after it.\<close>

section \<open>The invariant\<close>

definition ms_id :: "ContainerId \<Rightarrow> SlotId \<Rightarrow> ValueId" where
  "ms_id c s = \<lparr>container_id = c, segment_id = None, page_id = None, slot_id = Some s\<rparr>"

lemma ms_id_sel [simp]: "container_id (ms_id c s) = c" "slot_id (ms_id c s) = Some s" "ms_id c s = ms_id c' s' \<longleftrightarrow> c = c' \<and> s = s'"
  by (auto simp: ms_id_def)

definition ms_next :: "MemStore \<Rightarrow> ContainerId \<Rightarrow> nat" where
  "ms_next sm c = (case map_of (ms_last_insert sm) c of
     None \<Rightarrow> 0 | Some i \<Rightarrow> (case slot_id i of None \<Rightarrow> 0 | Some s \<Rightarrow> Suc (unat s)))"

definition vals_ok :: "ContainerId \<Rightarrow> nat \<Rightarrow> ContainerMap \<Rightarrow> bool" where
  "vals_ok c n vals \<longleftrightarrow> (\<forall>i \<in> fst ` set vals. \<exists>s. i = ms_id c s \<and> unat s < n)"

definition ms_ok :: "MemStore \<Rightarrow> bool" where
  "ms_ok sm \<longleftrightarrow> (\<forall>(c, vals) \<in> set (ms_containers sm). vals_ok c (ms_next sm c) vals) \<and>
     (\<forall>(c, i) \<in> set (ms_last_insert sm). slot_id i \<noteq> None) \<and> distinct (map fst (ms_containers sm))"

definition ms_view :: "MemStore \<Rightarrow> ValueId \<Rightarrow> bytes option" where
  "ms_view sm i = Option.bind (map_of (ms_containers sm) (container_id i)) (\<lambda>vals. map_of vals i)"

definition ms_room :: "MemStore \<Rightarrow> ContainerId \<Rightarrow> bytes \<Rightarrow> bool" where
  "ms_room sm c v \<longleftrightarrow> map_of (ms_containers sm) c \<noteq> None \<and> ms_next sm c < 2 ^ 16"

lemma ms_okI:
  "(\<And>c vals. (c, vals) \<in> set (ms_containers sm) \<Longrightarrow> vals_ok c (ms_next sm c) vals) \<Longrightarrow>
   (\<And>c i. (c, i) \<in> set (ms_last_insert sm) \<Longrightarrow> slot_id i \<noteq> None) \<Longrightarrow> distinct (map fst (ms_containers sm)) \<Longrightarrow> ms_ok sm"
  by (auto simp: ms_ok_def)

lemma set_update: "set (AList.update k v xs) \<subseteq> insert (k, v) (set xs)"
  by (induction xs) auto

lemma set_delete: "set (AList.delete k xs) \<subseteq> set xs"
  by (auto simp: AList.delete_eq)

lemma vals_ok_mono: "vals_ok c n vals \<Longrightarrow> n \<le> m \<Longrightarrow> vals_ok c m vals"
  by (fastforce simp: vals_ok_def)

lemma vals_ok_fresh: "vals_ok c n vals \<Longrightarrow> n \<le> unat s \<Longrightarrow> map_of vals (ms_id c s) = None"
  by (auto simp: vals_ok_def map_of_eq_None_iff)

lemma ms_insert_law:
  assumes ok: "ms_ok sm" and room: "ms_room sm c v"
  shows "\<exists>sm' i. ms_insert_value sm c v = Some (sm', i) \<and> ms_ok sm' \<and> container_id i = c \<and>
    ms_view sm i = None \<and> ms_view sm' = (ms_view sm)(i \<mapsto> v)"
proof -
  obtain vals where vals: "map_of (ms_containers sm) c = Some vals" and n: "ms_next sm c < 2 ^ 16"
    using room by (auto simp: ms_room_def)
  define s :: SlotId where "s = word_of_nat (ms_next sm c)"
  have us: "unat s = ms_next sm c" using n by (simp add: s_def unat_of_nat)
  have vok: "vals_ok c (ms_next sm c) vals" using ok map_of_SomeD [OF vals] by (auto simp: ms_ok_def)
  have slot: "(case map_of (ms_last_insert sm) c of None \<Rightarrow> Some 0 | Some slot \<Rightarrow> do { s \<leftarrow> slot_id slot; checked_add s 1 }) = Some s"
  proof (cases "map_of (ms_last_insert sm) c")
    case None
    then show ?thesis by (simp add: s_def ms_next_def)
  next
    case (Some i)
    then obtain t where t: "slot_id i = Some t" using ok map_of_SomeD [OF Some] by (fastforce simp: ms_ok_def)
    with Some n have "unat t + 1 < 2 ^ 16" "s = t + 1" by (simp_all add: ms_next_def s_def)
    with Some t show ?thesis by (simp add: checked_add_def)
  qed
  let ?i = "ms_id c s" and ?vals = "AList.update (ms_id c s) v vals"
  let ?sm = "sm\<lparr>ms_containers := AList.update c ?vals (ms_containers sm), ms_last_insert := AList.update c ?i (ms_last_insert sm)\<rparr>"
  have run: "ms_insert_value sm c v = Some (?sm, ?i)" using vals slot by (simp add: ms_insert_value_def ms_id_def Let_def)
  have nx: "ms_next ?sm d = (if d = c then Suc (ms_next sm c) else ms_next sm d)" for d
    using us by (simp add: ms_next_def update_conv')
  have "vals_ok c (Suc (ms_next sm c)) ?vals"
    using vok set_update [of ?i v vals] us by (fastforce simp: vals_ok_def)
  moreover have "vals_ok d (ms_next ?sm d) w" if "(d, w) \<in> set (ms_containers sm)" for d w
  proof -
    have "vals_ok d (ms_next sm d) w" using ok that unfolding ms_ok_def by blast
    then show ?thesis using vals_ok_mono [of d "ms_next sm d" w] nx [of d] by (cases "d = c") simp_all
  qed
  ultimately have "vals_ok d (ms_next ?sm d) w" if "(d, w) \<in> set (AList.update c ?vals (ms_containers sm))" for d w
  proof -
    have "(d, w) = (c, ?vals) \<or> (d, w) \<in> set (ms_containers sm)" using that set_update [of c ?vals "ms_containers sm"] by blast
    then show ?thesis
    proof
      assume "(d, w) = (c, ?vals)"
      then show ?thesis using \<open>vals_ok c (Suc (ms_next sm c)) ?vals\<close> nx [of c] by simp
    qed (rule \<open>\<And>w d. (d, w) \<in> set (ms_containers sm) \<Longrightarrow> vals_ok d (ms_next ?sm d) w\<close>)
  qed
  moreover have "slot_id i \<noteq> None" if "(d, i) \<in> set (AList.update c ?i (ms_last_insert sm))" for d i
    using that set_update [of c ?i "ms_last_insert sm"] ok by (auto simp: ms_ok_def)
  moreover have "distinct (map fst (AList.update c ?vals (ms_containers sm)))" using ok by (simp add: ms_ok_def distinct_update)
  ultimately have "ms_ok ?sm" by (auto simp: ms_ok_def)
  moreover have "ms_view sm ?i = None" using vals_ok_fresh [OF vok, of s] us vals by (simp add: ms_view_def)
  moreover have "ms_view ?sm = (ms_view sm)(?i \<mapsto> v)" using vals by (auto simp: ms_view_def fun_eq_iff update_conv')
  ultimately show ?thesis using run by auto
qed

lemma ms_get_law:
  "\<exists>sm' r. ms_get_value sm i = Some (sm', r) \<and> sm' = sm \<and> (case ms_view sm i of Some v \<Rightarrow> r = Inr v | None \<Rightarrow> \<exists>e. r = Inl e)"
  by (auto simp: ms_get_value_def ms_view_def split: option.split)

lemma ms_get_eq:
  "ms_view sm i = Some v \<Longrightarrow> ms_get_value sm i = Some (sm, Inr v)" "ms_view sm i = None \<Longrightarrow> \<exists>e. ms_get_value sm i = Some (sm, Inl e)"
  using ms_get_law [of sm i] by auto

lemma ms_delete_law:
  assumes ok: "ms_ok sm" and c: "map_of (ms_containers sm) (container_id i) \<noteq> None"
  shows "\<exists>sm'. ms_delete_value sm i = Some (sm', Inr ()) \<and> ms_ok sm' \<and> ms_view sm' = (ms_view sm)(i := None) \<and>
    dom (map_of (ms_containers sm')) = dom (map_of (ms_containers sm)) \<and> ms_last_insert sm' = ms_last_insert sm"
proof -
  obtain vals where vals: "map_of (ms_containers sm) (container_id i) = Some vals" using c by auto
  let ?sm = "if map_of vals i = None then sm
    else sm\<lparr>ms_containers := AList.update (container_id i) (AList.delete i vals) (ms_containers sm)\<rparr>"
  have run: "ms_delete_value sm i = Some (?sm, Inr ())" using vals by (simp add: ms_delete_value_def)
  have nx: "ms_next ?sm = ms_next sm" by (simp add: ms_next_def fun_eq_iff)
  have "vals_ok (container_id i) (ms_next sm (container_id i)) (AList.delete i vals)"
    using ok map_of_SomeD [OF vals] set_delete [of i vals] by (fastforce simp: ms_ok_def vals_ok_def)
  then have "ms_ok ?sm"
    using ok nx set_update [of "container_id i" "AList.delete i vals" "ms_containers sm"] by (auto simp: ms_ok_def distinct_update)
  moreover have "ms_view ?sm = (ms_view sm)(i := None)"
    using vals by (auto simp: ms_view_def fun_eq_iff update_conv' delete_conv')
  moreover have "dom (map_of (ms_containers ?sm)) = dom (map_of (ms_containers sm))" "ms_last_insert ?sm = ms_last_insert sm"
    using vals by (auto simp: update_conv')
  ultimately show ?thesis using run by blast
qed

lemma ms_update_law:
  assumes ok: "ms_ok sm" and i: "ms_view sm i \<noteq> None" and room: "ms_room sm (container_id i) v"
  shows "\<exists>sm' j. ms_update_value sm v i = Some (sm', Inr j) \<and> ms_ok sm' \<and> container_id j = container_id i \<and>
    (j = i \<or> ms_view sm j = None) \<and> ms_view sm' = (ms_view sm)(i := None, j \<mapsto> v)"
proof -
  have "map_of (ms_containers sm) (container_id i) \<noteq> None" using room by (simp add: ms_room_def)
  then obtain d where d: "ms_delete_value sm i = Some (d, Inr ())" "ms_ok d" "ms_view d = (ms_view sm)(i := None)"
    "dom (map_of (ms_containers d)) = dom (map_of (ms_containers sm))" "ms_last_insert d = ms_last_insert sm"
    using ms_delete_law [OF ok] by blast
  then have "ms_room d (container_id i) v" using room by (auto simp: ms_room_def ms_next_def dom_def)
  then obtain sm' j where "ms_insert_value d (container_id i) v = Some (sm', j)" "ms_ok sm'" "container_id j = container_id i"
    "ms_view d j = None" "ms_view sm' = (ms_view d)(j \<mapsto> v)"
    using ms_insert_law [OF d(2)] by blast
  with d show ?thesis by (auto simp: ms_update_value_def split: if_splits)
qed

interpretation mem: storage ms_ok ms_view "\<lambda>_. True" ms_room ms_insert_value ms_get_value ms_delete_value ms_update_value
proof unfold_locales
  fix s i assume s: "ms_ok s"
  show "\<exists>s' r. ms_get_value s i = Some (s', r) \<and> ms_ok s' \<and> ms_view s' = ms_view s \<and>
      (case ms_view s i of Some v \<Rightarrow> r = Inr v | None \<Rightarrow> \<exists>e. r = Inl e)"
    using s ms_get_law [of s i] by auto
  show "ms_view s i \<noteq> None \<Longrightarrow> \<exists>s'. ms_delete_value s i = Some (s', Inr ()) \<and> ms_ok s' \<and> ms_view s' = (ms_view s)(i := None)"
    using ms_delete_law [OF s, of i] by (cases "map_of (ms_containers s) (container_id i)") (auto simp: ms_view_def)
qed (use ms_insert_law ms_update_law in simp_all)

section \<open>The iterator\<close>

definition vi_inv :: "ValueIterator \<Rightarrow> bool" where
  "vi_inv it \<longleftrightarrow> tracker it = ms_id (container_id (tracker it)) (current it) \<and> Suc (unat (vi_max it)) < 2 ^ 16 \<and>
     unat (current it) \<le> Suc (unat (vi_max it))"

text \<open>The remaining items: the values of the slots, each with the id of the next slot.\<close>

definition vi_items :: "ContainerMap \<Rightarrow> ContainerId \<Rightarrow> nat list \<Rightarrow> (bytes \<times> ValueId) list" where
  "vi_items vals c ns = map (\<lambda>n. (the (map_of vals (ms_id c (word_of_nat n))), ms_id c (word_of_nat (Suc n))))
     (filter (\<lambda>n. map_of vals (ms_id c (word_of_nat n)) \<noteq> None) ns)"

definition vi_rem :: "ContainerMap \<Rightarrow> ValueIterator \<Rightarrow> (bytes \<times> ValueId) list" where
  "vi_rem vals it = vi_items vals (container_id (tracker it)) [unat (current it)..<Suc (unat (vi_max it))]"

lemma vi_step_law:
  assumes inv: "vi_inv it" and le: "current it \<le> vi_max it"
  shows "\<exists>it'. vi_step it = Some it' \<and> vi_inv it' \<and> vi_max it' = vi_max it \<and> unat (current it') = Suc (unat (current it)) \<and>
    tracker it' = ms_id (container_id (tracker it)) (word_of_nat (Suc (unat (current it))))"
proof -
  have c: "unat (current it) + 1 < 2 ^ 16" using inv le by (simp add: vi_inv_def word_le_nat_alt)
  have t: "slot_id (tracker it) = Some (current it)" using inv by (metis ms_id_sel(2) vi_inv_def)
  let ?it = "it\<lparr>tracker := (tracker it)\<lparr>slot_id := Some (current it + 1)\<rparr>, current := current it + 1\<rparr>"
  have u: "unat (current it + 1) = Suc (unat (current it))" using c by (simp add: unat_word_ariths)
  have tr: "(tracker it)\<lparr>slot_id := Some (current it + 1)\<rparr> = ms_id (container_id (tracker it)) (current it + 1)"
    using inv by (simp add: vi_inv_def ms_id_def) (metis ValueId.update_convs(4))
  have "vi_step it = Some ?it" using t c by (simp add: vi_step_def checked_add_def)
  moreover have "vi_inv ?it" using inv u tr le by (simp add: vi_inv_def word_le_nat_alt)
  moreover have "word_of_nat (Suc (unat (current it))) = current it + 1" by (simp add: add.commute)
  ultimately show ?thesis using u tr by auto
qed

lemma vi_next_law:
  "vi_inv it \<Longrightarrow> \<exists>it'. vi_next vals it = Some (it', case vi_rem vals it of [] \<Rightarrow> None | x # _ \<Rightarrow> Some x) \<and> vi_inv it' \<and>
    vi_rem vals it' = tl (vi_rem vals it)"
proof (induction vals it rule: vi_next.induct)
  case (1 vals it)
  show ?case
  proof (cases "current it \<le> vi_max it")
    case False
    then have "vi_rem vals it = []" by (simp add: vi_rem_def vi_items_def word_le_nat_alt)
    with False 1(2) show ?thesis by (simp add: vi_next.simps)
  next
    case True
    obtain it' where st: "vi_step it = Some it'" "vi_inv it'" "vi_max it' = vi_max it" "unat (current it') = Suc (unat (current it))"
      "tracker it' = ms_id (container_id (tracker it)) (word_of_nat (Suc (unat (current it))))"
      using vi_step_law [OF 1(2) True] by blast
    have t: "tracker it = ms_id (container_id (tracker it)) (current it)" using 1(2) by (simp add: vi_inv_def)
    have ns: "[unat (current it)..<Suc (unat (vi_max it))] = unat (current it) # [unat (current it')..<Suc (unat (vi_max it'))]"
      using True st(3,4) by (simp add: upt_conv_Cons word_le_nat_alt)
    have rem: "vi_rem vals it = (case map_of vals (tracker it) of Some v \<Rightarrow> [(v, tracker it')] | None \<Rightarrow> []) @ vi_rem vals it'"
      unfolding vi_rem_def ns using t st(5) by (simp add: vi_items_def split: option.split)
    show ?thesis
    proof (cases "map_of vals (tracker it)")
      case None
      with 1(1) [OF True st(1) None st(2)] rem True st(1) show ?thesis by (subst vi_next.simps) simp
    next
      case (Some v)
      with rem True st(1,2) show ?thesis by (subst vi_next.simps) simp
    qed
  qed
qed

interpretation vi: iterator "vi_next vals" vi_inv "vi_rem vals" for vals
proof unfold_locales
  show "\<exists>it'. vi_next vals it = Some (it', None) \<and> vi_inv it' \<and> vi_rem vals it' = []" if "vi_inv it" "vi_rem vals it = []" for it
    using vi_next_law [OF that(1), of vals] that(2) by simp
  show "\<exists>it'. vi_next vals it = Some (it', Some x) \<and> vi_inv it' \<and> vi_rem vals it' = xs" if "vi_inv it" "vi_rem vals it = x # xs" for it x xs
    using vi_next_law [OF that(1), of vals] that(2) by simp
qed

section \<open>Restart\<close>

lemma split_file_name [simp]: "split_name (ms_file_name c) = (dec_nat (unat c), Some ''ms'')"
  by (simp add: split_name_def ms_file_name_def Let_def)

lemma parse_dec_nat: "n < 2 ^ LENGTH('a) \<Longrightarrow> parse_unsigned (dec_nat n) = Some (word_of_nat n :: 'a::len word)"
proof -
  assume n: "n < 2 ^ LENGTH('a)"
  obtain c t where ct: "dec_nat n = c # t" by (cases "dec_nat n") simp_all
  have "c \<noteq> CHR ''+''" using hd_dec_nat [OF ct] by (auto simp: is_digit_def)
  then have "(case dec_nat n of c # t \<Rightarrow> if c = CHR ''+'' then t else dec_nat n | [] \<Rightarrow> []) = dec_nat n" by (simp add: ct)
  then show "parse_unsigned (dec_nat n) = Some (word_of_nat n :: 'a::len word)" using n by (simp add: parse_unsigned_def)
qed

lemma parse_file_name [simp]: "parse_unsigned (dec_nat (unat c)) = Some (c :: ContainerId)"
  using unsigned_less [of c, where 'a = nat] by (simp add: parse_dec_nat)

lemma file_name_inject [simp]: "ms_file_name c = ms_file_name d \<longleftrightarrow> c = d"
  by (metis fst_conv option.inject parse_file_name split_file_name)

lemma max_key_law:
  assumes "vals_ok c n vals"
  shows "\<exists>s. slot_id (max_key c vals) = Some s \<and> vals_ok c (Suc (unat s)) vals"
proof -
  let ?f = "\<lambda>(key :: ValueId, _ :: bytes) m. case slot_id key of Some s \<Rightarrow> if the (slot_id m) < s then key else m | None \<Rightarrow> m"
  have "\<exists>s. slot_id (fold ?f xs m) = Some s \<and> a \<le> s \<and> (\<forall>i \<in> fst ` set xs. \<forall>t. slot_id i = Some t \<longrightarrow> t \<le> s)"
    if "slot_id m = Some a" for xs m a
    using that
  proof (induction xs arbitrary: m a)
    case (Cons x xs)
    obtain k v where x: "x = (k, v)" by (cases x)
    obtain b where b: "slot_id (?f x m) = Some b" "a \<le> b" "\<forall>t. slot_id k = Some t \<longrightarrow> t \<le> b"
    proof (cases "slot_id k")
      case (Some t)
      show ?thesis by (rule that [of "if a < t then t else a"]) (use Cons.prems x Some in auto)
    qed (use Cons.prems x that in auto)
    obtain s where "slot_id (fold ?f xs (?f x m)) = Some s" "b \<le> s" "\<forall>i \<in> fst ` set xs. \<forall>t. slot_id i = Some t \<longrightarrow> t \<le> s"
      using Cons.IH [OF b(1)] by blast
    with b x show ?case by fastforce
  qed simp
  from this [of "\<lparr>container_id = c, segment_id = None, page_id = None, slot_id = Some 0\<rparr>" 0 vals]
  obtain s where s: "slot_id (max_key c vals) = Some s" "\<forall>i \<in> fst ` set vals. \<forall>t. slot_id i = Some t \<longrightarrow> t \<le> s"
    unfolding max_key_def by auto
  have "vals_ok c (Suc (unat s)) vals" unfolding vals_ok_def
  proof
    fix i assume i: "i \<in> fst ` set vals"
    then obtain t where "i = ms_id c t" using assms by (auto simp: vals_ok_def)
    with s(2) i show "\<exists>t. i = ms_id c t \<and> unat t < Suc (unat s)" by (auto simp: word_le_nat_alt less_Suc_eq_le)
  qed
  with s(1) show ?thesis by blast
qed

text \<open>The files of a store, read back.\<close>

abbreviation is_ms :: "string \<Rightarrow> bool" where
  "is_ms n \<equiv> snd (split_name n) = Some ''ms''"

lemma load_files:
  assumes "\<forall>(n, e) \<in> set dir. \<exists>c vals. n = ms_file_name c \<and> read_entry from_cbor e = Some vals" and "distinct (map fst dir)"
  shows "\<exists>cs' ls'. ms_load_files from_cbor dir cs ls = Some (cs', ls') \<and>
    (\<forall>c. map_of cs' c = (case map_of dir (ms_file_name c) of Some e \<Rightarrow> read_entry from_cbor e | None \<Rightarrow> map_of cs c)) \<and>
    (\<forall>c. map_of ls' c = (case map_of dir (ms_file_name c) of Some e \<Rightarrow> Some (max_key c (the (read_entry from_cbor e))) | None \<Rightarrow> map_of ls c)) \<and>
    (distinct (map fst cs) \<longrightarrow> distinct (map fst cs')) \<and> (distinct (map fst ls) \<longrightarrow> distinct (map fst ls'))"
  using assms
proof (induction dir arbitrary: cs ls)
  case (Cons x dir)
  obtain n f where x: "x = (n, f)" by (cases x)
  then obtain c vals where c: "n = ms_file_name c" "read_entry from_cbor f = Some vals" using Cons.prems(1) by auto
  have new: "map_of dir (ms_file_name c) = None" using Cons.prems(2) x c(1) by (auto simp: map_of_eq_None_iff)
  obtain cs' ls' where l: "ms_load_files from_cbor dir (AList.update c vals cs) (AList.update c (max_key c vals) ls) = Some (cs', ls')"
    "\<forall>d. map_of cs' d = (case map_of dir (ms_file_name d) of Some e \<Rightarrow> read_entry from_cbor e | None \<Rightarrow> map_of (AList.update c vals cs) d)"
    "\<forall>d. map_of ls' d = (case map_of dir (ms_file_name d) of Some e \<Rightarrow> Some (max_key d (the (read_entry from_cbor e)))
       | None \<Rightarrow> map_of (AList.update c (max_key c vals) ls) d)"
    "distinct (map fst (AList.update c vals cs)) \<longrightarrow> distinct (map fst cs')"
    "distinct (map fst (AList.update c (max_key c vals) ls)) \<longrightarrow> distinct (map fst ls')"
    using Cons.IH [of "AList.update c vals cs" "AList.update c (max_key c vals) ls"] Cons.prems by auto
  have "ms_load_files from_cbor (x # dir) cs ls = Some (cs', ls')" using l(1) c x by simp
  moreover have "map_of cs' d = (case map_of (x # dir) (ms_file_name d) of Some e \<Rightarrow> read_entry from_cbor e | None \<Rightarrow> map_of cs d)" for d
    using l(2) new c x by (cases "d = c") (simp_all add: update_conv' split: option.split)
  moreover have "map_of ls' d = (case map_of (x # dir) (ms_file_name d) of Some e \<Rightarrow> Some (max_key d (the (read_entry from_cbor e))) | None \<Rightarrow> map_of ls d)" for d
    using l(3) new c x by (cases "d = c") (simp_all add: update_conv' split: option.split)
  ultimately show ?case using l(4,5) by (simp add: distinct_update)
qed simp

lemma write_files:
  assumes "distinct (map fst cs)" and "distinct (map fst dir)" and "\<And>c. c \<in> fst ` set cs \<Longrightarrow> map_of dir (ms_file_name c) \<noteq> Some Subdir"
  shows "\<exists>dir'. ms_write_files to_cbor cs dir = Some dir' \<and> distinct (map fst dir') \<and>
    fst ` set dir' = fst ` set dir \<union> ms_file_name ` fst ` set cs \<and>
    (\<forall>c. map_of dir' (ms_file_name c) = (case map_of cs c of Some vals \<Rightarrow> Some (File (to_cbor vals)) | None \<Rightarrow> map_of dir (ms_file_name c)))"
  using assms
proof (induction cs arbitrary: dir)
  case (Cons x cs)
  obtain d vals where x: "x = (d, vals)" by (cases x)
  let ?dir = "AList.update (ms_file_name d) (File (to_cbor vals)) dir"
  have "distinct (map fst ?dir)" "\<And>c. c \<in> fst ` set cs \<Longrightarrow> map_of ?dir (ms_file_name c) \<noteq> Some Subdir"
    using Cons.prems by (auto simp: distinct_update update_conv')
  then obtain dir' where ih: "ms_write_files to_cbor cs ?dir = Some dir'" "distinct (map fst dir')"
    "fst ` set dir' = fst ` set ?dir \<union> ms_file_name ` fst ` set cs"
    "\<forall>c. map_of dir' (ms_file_name c) = (case map_of cs c of Some vals \<Rightarrow> Some (File (to_cbor vals)) | None \<Rightarrow> map_of ?dir (ms_file_name c))"
    using Cons.IH [of ?dir] Cons.prems(1) by auto
  have none: "map_of cs d = None" using Cons.prems x by (auto simp: map_of_eq_None_iff)
  have "map_of dir' (ms_file_name c) = (case map_of (x # cs) c of Some vals \<Rightarrow> Some (File (to_cbor vals)) | None \<Rightarrow> map_of dir (ms_file_name c))" for c
    using ih(4) none x by (cases "c = d") (simp_all add: update_conv' split: option.split)
  moreover have "ms_write_files to_cbor (x # cs) dir = Some dir'" using Cons.prems(3) [of d] ih(1) x by (simp add: create_file_def)
  ultimately show ?case using ih(2,3) x by (simp add: dom_update)
qed simp

text \<open>The files with the extension \<open>.ms\<close> in the directory of a store are files of its containers.\<close>

definition own_files :: "MemStore \<Rightarrow> 'f directory \<Rightarrow> bool" where
  "own_files sm dir \<longleftrightarrow> distinct (map fst dir) \<and> list_all (\<lambda>(n, e). is_ms n \<longrightarrow>
     n \<in> ms_file_name ` fst ` set (ms_containers sm) \<and> e \<noteq> Subdir) dir"

lemma shutdown_dir:
  assumes ok: "ms_ok sm" and d: "ms_storage_dir sm = Some d" and own: "own_files sm (dir_of fs d)"
  obtains fs' dir where "ms_shutdown to_cbor sm fs = Some fs'" "map_of fs' d = Some dir" "distinct (map fst dir)"
    "fst ` set dir = fst ` set (dir_of fs d) \<union> ms_file_name ` fst ` set (ms_containers sm)"
    "\<And>c. map_of dir (ms_file_name c) = map_option (\<lambda>vals. File (to_cbor vals)) (map_of (ms_containers sm) c)"
    "\<And>n e. (n, e) \<in> set dir \<Longrightarrow> is_ms n \<Longrightarrow> \<exists>c vals. n = ms_file_name c \<and> map_of (ms_containers sm) c = Some vals \<and> e = File (to_cbor vals)"
proof -
  let ?dir = "dir_of fs d" and ?cs = "ms_containers sm"
  have d0: "distinct (map fst ?dir)" and owned: "(n, e) \<in> set ?dir \<Longrightarrow> is_ms n \<Longrightarrow> n \<in> ms_file_name ` fst ` set ?cs \<and> e \<noteq> Subdir" for n e
    using own by (auto simp: own_files_def list_all_iff)
  have dc: "distinct (map fst ?cs)" using ok by (simp add: ms_ok_def)
  have "map_of ?dir (ms_file_name c) \<noteq> Some Subdir" for c using owned [of "ms_file_name c" Subdir] by (auto dest: map_of_SomeD)
  then obtain dir where w: "ms_write_files to_cbor ?cs ?dir = Some dir" "distinct (map fst dir)"
    "fst ` set dir = fst ` set ?dir \<union> ms_file_name ` fst ` set ?cs"
    "\<forall>c. map_of dir (ms_file_name c) = (case map_of ?cs c of Some vals \<Rightarrow> Some (File (to_cbor vals)) | None \<Rightarrow> map_of ?dir (ms_file_name c))"
    using write_files [OF dc d0, of to_cbor] by blast
  have fl: "map_of dir (ms_file_name c) = map_option (\<lambda>vals. File (to_cbor vals)) (map_of ?cs c)" for c
  proof (cases "map_of ?cs c")
    case None
    then have "ms_file_name c \<notin> ms_file_name ` fst ` set ?cs" by (simp add: map_of_eq_None_iff image_iff)
    then have "map_of ?dir (ms_file_name c) = None" using owned [of "ms_file_name c"] by (cases "map_of ?dir (ms_file_name c)") (auto dest: map_of_SomeD)
    then show ?thesis using w(4) None by simp
  qed (simp add: w(4))
  have names: "\<exists>c vals. n = ms_file_name c \<and> map_of ?cs c = Some vals \<and> e = File (to_cbor vals)" if ne: "(n, e) \<in> set dir" "is_ms n" for n e
  proof -
    have "n \<in> fst ` set ?dir \<union> ms_file_name ` fst ` set ?cs" using ne(1) by (subst w(3) [symmetric]) force
    then have "n \<in> ms_file_name ` fst ` set ?cs" using owned [of n] ne(2) by force
    then obtain c where c: "n = ms_file_name c" by blast
    moreover have "map_of dir n = Some e" using ne(1) w(2) by simp
    ultimately show ?thesis using fl [of c] by auto
  qed
  show thesis
    by (rule that [OF _ _ w(2,3) fl names, of "AList.update d dir fs"]) (simp_all add: ms_shutdown_def d w(1) update_conv')
qed

lemma map_of_filter_key: "map_of (filter (\<lambda>(k, _). P k) xs) k = (if P k then map_of xs k else None)"
  by (induction xs) auto

lemma load_dir:
  assumes "\<And>n e. (n, e) \<in> set dir \<Longrightarrow> is_ms n \<Longrightarrow> \<exists>c vals. n = ms_file_name c \<and> read_entry from_cbor e = Some vals"
    and "distinct (map fst dir)" and "map_of fs d = Some dir" and "list_all (\<lambda>(n, _). snd (split_name n) \<noteq> None) dir"
  obtains sm where "ms_new from_cbor fs d = Some sm" "distinct (map fst (ms_containers sm))" "distinct (map fst (ms_last_insert sm))"
    "\<And>c. map_of (ms_containers sm) c = Option.bind (map_of dir (ms_file_name c)) (read_entry from_cbor)"
    "\<And>c. map_of (ms_last_insert sm) c = map_option (\<lambda>e. max_key c (the (read_entry from_cbor e))) (map_of dir (ms_file_name c))"
proof -
  let ?dir = "filter (\<lambda>(n, _). is_ms n) dir"
  have "\<forall>(n, e) \<in> set ?dir. \<exists>c vals. n = ms_file_name c \<and> read_entry from_cbor e = Some vals" using assms(1) by auto
  from load_files [OF this, of "[]" "[]"] obtain cs ls where l: "ms_load_files from_cbor ?dir [] [] = Some (cs, ls)"
    "\<forall>c. map_of cs c = (case map_of ?dir (ms_file_name c) of Some e \<Rightarrow> read_entry from_cbor e | None \<Rightarrow> map_of [] c)"
    "\<forall>c. map_of ls c = (case map_of ?dir (ms_file_name c) of Some e \<Rightarrow> Some (max_key c (the (read_entry from_cbor e))) | None \<Rightarrow> map_of [] c)"
    "distinct (map fst cs)" "distinct (map fst ls)"
    using assms(2) distinct_map_filter [OF assms(2)] by auto
  then have "ms_new from_cbor fs d = Some \<lparr>ms_containers = cs, ms_last_insert = ls, ms_storage_dir = Some d, ms_container_names = []\<rparr>"
    using assms(3,4) by (simp add: ms_new_def ms_load_def)
  then show thesis by (rule that) (use l in \<open>simp_all add: map_of_filter_key split: option.split\<close>)
qed

lemma vals_ok_map: "map_of vals' = map_of vals \<Longrightarrow> vals_ok c n vals' = vals_ok c n vals"
  by (simp add: vals_ok_def flip: dom_map_of_conv_image_fst)

lemma ms_restart:
  assumes cbor: "\<And>vals. \<exists>vals'. from_cbor (to_cbor vals) = Some vals' \<and> map_of vals' = map_of vals"
    and ok: "ms_ok sm" and d: "ms_storage_dir sm = Some d" and own: "own_files sm (dir_of fs d)"
    and ext: "list_all (\<lambda>(n, _). snd (split_name n) \<noteq> None) (dir_of fs d)"
  shows "\<exists>fs' sm'. ms_shutdown to_cbor sm fs = Some fs' \<and> ms_new from_cbor fs' d = Some sm' \<and> ms_ok sm' \<and> ms_view sm' = ms_view sm \<and>
    dom (map_of (ms_containers sm')) = dom (map_of (ms_containers sm))"
proof -
  obtain fs' dr where sh: "ms_shutdown to_cbor sm fs = Some fs'" and dr: "map_of fs' d = Some dr" "distinct (map fst dr)"
    "\<And>c. map_of dr (ms_file_name c) = map_option (\<lambda>vals. File (to_cbor vals)) (map_of (ms_containers sm) c)"
    "\<And>n e. (n, e) \<in> set dr \<Longrightarrow> is_ms n \<Longrightarrow> \<exists>c vals. n = ms_file_name c \<and> map_of (ms_containers sm) c = Some vals \<and> e = File (to_cbor vals)"
    and names: "fst ` set dr = fst ` set (dir_of fs d) \<union> ms_file_name ` fst ` set (ms_containers sm)"
    by (rule shutdown_dir [where to_cbor = to_cbor, OF ok d own]) blast
  have good: "\<exists>c vals. n = ms_file_name c \<and> read_entry from_cbor e = Some vals" if "(n, e) \<in> set dr" "is_ms n" for n e
    using dr(4) [OF that] cbor by fastforce
  have "list_all (\<lambda>n. snd (split_name n) \<noteq> None) (map fst dr)" using names ext by (auto simp: list_all_iff)
  then have ext': "list_all (\<lambda>(n, _). snd (split_name n) \<noteq> None) dr" by (auto simp: list_all_iff)
  obtain sm' where s: "ms_new from_cbor fs' d = Some sm'" "distinct (map fst (ms_containers sm'))"
    "distinct (map fst (ms_last_insert sm'))" "\<And>c. map_of (ms_containers sm') c = Option.bind (map_of dr (ms_file_name c)) (read_entry from_cbor)"
    "\<And>c. map_of (ms_last_insert sm') c = map_option (\<lambda>e. max_key c (the (read_entry from_cbor e))) (map_of dr (ms_file_name c))"
    by (rule load_dir [OF good dr(2,1) ext']) blast+
  have conv: "\<exists>vals'. map_of (ms_containers sm') c = Some vals' \<and> map_of vals' = map_of vals \<and>
      map_of (ms_last_insert sm') c = Some (max_key c vals')" if "map_of (ms_containers sm) c = Some vals" for c vals
    using cbor [of vals] s(4,5) dr(3) that by auto
  have none: "map_of (ms_containers sm') c = None \<and> map_of (ms_last_insert sm') c = None" if "map_of (ms_containers sm) c = None" for c
    using s(4,5) dr(3) that by simp
  have vok: "\<exists>t. slot_id (max_key c vals') = Some t \<and> vals_ok c (Suc (unat t)) vals'"
    if "map_of (ms_containers sm) c = Some vals" "map_of vals' = map_of vals" for c vals vals'
  proof (rule max_key_law)
    have "vals_ok c (ms_next sm c) vals" using ok map_of_SomeD [OF that(1)] unfolding ms_ok_def by blast
    then show "vals_ok c (ms_next sm c) vals'" using vals_ok_map [OF that(2)] by simp
  qed
  have "ms_ok sm'"
  proof (rule ms_okI)
    fix c vals' assume "(c, vals') \<in> set (ms_containers sm')"
    then have m: "map_of (ms_containers sm') c = Some vals'" using s(2) by simp
    then obtain vals where v: "map_of (ms_containers sm) c = Some vals" using none by (cases "map_of (ms_containers sm) c") auto
    with conv [OF v] m vok [OF v] show "vals_ok c (ms_next sm' c) vals'" by (fastforce simp: ms_next_def)
  next
    fix c i assume "(c, i) \<in> set (ms_last_insert sm')"
    then have m: "map_of (ms_last_insert sm') c = Some i" using s(3) by simp
    then obtain vals where v: "map_of (ms_containers sm) c = Some vals" using none by (cases "map_of (ms_containers sm) c") auto
    with conv [OF v] m vok [OF v] show "slot_id i \<noteq> None" by fastforce
  qed (rule s(2))
  moreover have "ms_view sm' i = ms_view sm i" for i
    using conv [of "container_id i"] none [of "container_id i"] by (cases "map_of (ms_containers sm) (container_id i)") (auto simp: ms_view_def)
  then have "ms_view sm' = ms_view sm" ..
  moreover have "dom (map_of (ms_containers sm')) = dom (map_of (ms_containers sm))"
    using conv none by (force simp: dom_def)
  ultimately show ?thesis using sh s(1) by blast
qed

text \<open>A file or subdirectory without an extension in the directory, before or after the shutdown, makes the load panic.\<close>

lemma load_panics:
  assumes "map_of fs d = Some dir" and "\<not> list_all (\<lambda>(n, _). snd (split_name n) \<noteq> None) dir"
  shows "ms_new from_cbor fs d = None"
  using assms by (simp add: ms_new_def ms_load_def assert_that_def)

section \<open>Properties\<close>

text \<open>C35: the in-memory store refines a map from ids to values. Reading an id returns its value, or an error when it
  has none, and changes nothing. An insertion into an existing container in which fewer than 2^16 slot numbers were
  used returns an id that no value has and adds exactly this value; a deletion removes exactly the value of the id; an
  update, under the same condition, moves one value to the id it returns, which is the old one or had no value.\<close>

theorem memstore_refines_map:
  assumes "ms_ok sm"
  shows "(\<forall>i. \<exists>r. ms_get_value sm i = Some (sm, r) \<and> (case ms_view sm i of Some v \<Rightarrow> r = Inr v | None \<Rightarrow> \<exists>e. r = Inl e)) \<and>
    (\<forall>c v. ms_room sm c v \<longrightarrow> (\<exists>sm' i. ms_insert_value sm c v = Some (sm', i) \<and> ms_ok sm' \<and> container_id i = c \<and>
      ms_view sm i = None \<and> ms_view sm' = (ms_view sm)(i \<mapsto> v))) \<and>
    (\<forall>i. ms_view sm i \<noteq> None \<longrightarrow> (\<exists>sm'. ms_delete_value sm i = Some (sm', Inr ()) \<and> ms_ok sm' \<and>
      ms_view sm' = (ms_view sm)(i := None))) \<and>
    (\<forall>i v. ms_view sm i \<noteq> None \<and> ms_room sm (container_id i) v \<longrightarrow> (\<exists>sm' j. ms_update_value sm v i = Some (sm', Inr j) \<and>
      ms_ok sm' \<and> container_id j = container_id i \<and> (j = i \<or> ms_view sm j = None) \<and>
      ms_view sm' = (ms_view sm)(i := None, j \<mapsto> v)))"
  using ms_get_law [of sm] mem.insert_law [OF assms] mem.delete_law [OF assms TrueI] mem.update_law [OF assms TrueI] by simp

text \<open>One container with the values [1], [2], [3], of which the second was deleted.\<close>

definition three_values :: "MemStore option" where
  "three_values = do {
     (sm, _) \<leftarrow> ms_create_table (ms_new_test_sm\<lparr>ms_storage_dir := Some ''db''\<rparr>) 5;
     (sm, _) \<leftarrow> ms_insert_values sm 5 [[1], [2], [3]];
     (sm, _) \<leftarrow> ms_delete_value sm (ms_id 5 1);
     Some sm }"

lemma three_values_eq: "three_values = Some \<lparr>ms_containers = [(5, [(ms_id 5 0, [1]), (ms_id 5 2, [3])])],
    ms_last_insert = [(5, ms_id 5 2)], ms_storage_dir = Some ''db'', ms_container_names = []\<rparr>"
  by (simp add: three_values_def ms_create_table_def ms_create_container_def ms_new_test_sm_def ms_insert_value_def
      ms_delete_value_def ms_id_def checked_add_def Let_def)

lemma three_values_ok:
  "three_values = Some sm \<Longrightarrow> ms_ok sm \<and> ms_room sm 5 v \<and> ms_view sm (ms_id 5 0) = Some [1] \<and> ms_storage_dir sm = Some ''db''"
  by (auto simp: three_values_eq ms_ok_def vals_ok_def ms_next_def ms_room_def ms_view_def)

theorem memstore_refines_map_witness:
  "\<exists>sm sm' i. three_values = Some sm \<and> ms_insert_value sm 5 [9] = Some (sm', i) \<and> ms_view sm' i = Some [9] \<and>
     ms_view sm' (ms_id 5 0) = Some [1] \<and> ms_get_value sm (ms_id 5 0) = Some (sm, Inr [1])"
proof -
  obtain sm where sm: "three_values = Some sm" by (simp add: three_values_eq)
  have ok: "ms_ok sm" "ms_room sm 5 [9]" "ms_view sm (ms_id 5 0) = Some [1]" using three_values_ok [OF sm] by blast+
  obtain sm' i where i: "ms_insert_value sm 5 [9] = Some (sm', i)" "ms_view sm i = None" "ms_view sm' = (ms_view sm)(i \<mapsto> [9])"
    using memstore_refines_map [OF ok(1)] ok(2) by blast
  obtain r where "ms_get_value sm (ms_id 5 0) = Some (sm, r)" "case ms_view sm (ms_id 5 0) of Some v \<Rightarrow> r = Inr v | None \<Rightarrow> \<exists>e. r = Inl e"
    using memstore_refines_map [OF ok(1)] by blast
  then have "ms_get_value sm (ms_id 5 0) = Some (sm, Inr [1])" using ok(3) by simp
  moreover have "ms_view sm' i = Some [9]" "ms_view sm' (ms_id 5 0) = Some [1]" using i(2,3) ok(3) by auto
  ultimately show ?thesis using sm i(1) by blast
qed

text \<open>C36: what a restart brings back, if reading inverts writing in the serialisation library and the files with the
  extension \<open>.ms\<close> in the directory of the store are files of its containers. The shutdown writes every container.
  When every other file and subdirectory there has an extension, a store created on the directory has the same
  containers with every value under its id, and a consistent state; a file or subdirectory without an extension makes
  the creation panic.\<close>

theorem memstore_restart:
  assumes "\<And>vals. \<exists>vals'. from_cbor (to_cbor vals) = Some vals' \<and> map_of vals' = map_of vals"
    and "ms_ok sm" and "ms_storage_dir sm = Some d" and "own_files sm (dir_of fs d)"
  shows "\<exists>fs'. ms_shutdown to_cbor sm fs = Some fs' \<and>
    (if list_all (\<lambda>(n, _). snd (split_name n) \<noteq> None) (dir_of fs d)
     then \<exists>sm'. ms_new from_cbor fs' d = Some sm' \<and> ms_ok sm' \<and> ms_view sm' = ms_view sm \<and>
       dom (map_of (ms_containers sm')) = dom (map_of (ms_containers sm))
     else ms_new from_cbor fs' d = None)"
proof (cases "list_all (\<lambda>(n, _). snd (split_name n) \<noteq> None) (dir_of fs d)")
  case True
  with ms_restart [OF assms True] show ?thesis by auto
next
  case False
  obtain fs' dir where fs': "ms_shutdown to_cbor sm fs = Some fs'" "map_of fs' d = Some dir"
    "fst ` set dir = fst ` set (dir_of fs d) \<union> ms_file_name ` fst ` set (ms_containers sm)"
    by (rule shutdown_dir [where to_cbor = to_cbor, OF assms(2-4)]) blast
  obtain n where n: "n \<in> fst ` set dir" "snd (split_name n) = None" using False fs'(3) by (force simp: list_all_iff)
  then have "\<not> list_all (\<lambda>(n, _). snd (split_name n) \<noteq> None) dir" by (fastforce simp: list_all_iff)
  with load_panics [OF fs'(2)] fs'(1) False show ?thesis by simp
qed

text \<open>A log file beside the containers does no harm; a subdirectory as the server creates it does.\<close>

theorem memstore_restart_witness:
  "\<exists>sm fs sm'. three_values = Some sm \<and> ms_shutdown (\<lambda>vals. vals) sm [(''db'', [(''a.log'', File [])])] = Some fs \<and>
     ms_new Some fs ''db'' = Some sm' \<and> ms_view sm' (ms_id 5 0) = Some [1] \<and>
     (\<exists>fs'. ms_shutdown (\<lambda>vals. vals) sm [(''db'', [(''server_state'', Subdir)])] = Some fs' \<and> ms_new Some fs' ''db'' = None)"
proof -
  obtain sm where sm: "three_values = Some sm" by (simp add: three_values_eq)
  have ok: "ms_ok sm" "ms_storage_dir sm = Some ''db''" "ms_view sm (ms_id 5 0) = Some [1]" using three_values_ok [OF sm] by blast+
  have ext: "split_name ''a.log'' = (''a'', Some ''log'')" "split_name ''server_state'' = (''server_state'', None)" by (simp_all add: split_name_def)
  let ?good = "[(''db'', [(''a.log'', File ([] :: ContainerMap))])]" and ?bad = "[(''db'', [(''server_state'', Subdir :: ContainerMap entry)])]"
  have own: "own_files sm (dir_of ?good ''db'')" "own_files sm (dir_of ?bad ''db'')" by (simp_all add: own_files_def dir_of_def ext)
  have cbor: "\<exists>vals'. Some vals = Some vals' \<and> map_of vals' = map_of vals" for vals :: ContainerMap by simp
  obtain fs where fs: "ms_shutdown (\<lambda>vals. vals) sm ?good = Some fs" "\<exists>sm'. ms_new Some fs ''db'' = Some sm' \<and> ms_view sm' = ms_view sm"
    using memstore_restart [OF cbor ok(1,2) own(1)] by (auto simp: dir_of_def ext)
  obtain fs' where "ms_shutdown (\<lambda>vals. vals) sm ?bad = Some fs'" "ms_new Some fs' ''db'' = None"
    using memstore_restart [OF cbor ok(1,2) own(2)] by (auto simp: dir_of_def ext)
  with fs sm ok(3) show ?thesis by auto
qed

text \<open>C37: a scan of a container returns the values of all its records in the order of their slots, but each with the
  id of the slot after it, not with its own id.\<close>

theorem memstore_scan:
  assumes "ms_ok sm" and "map_of (ms_containers sm) c = Some vals" and "map_of (ms_last_insert sm) c = Some i"
    and "slot_id i = Some m" and "Suc (unat m) < 2 ^ 16" and "unat m + 1 < n"
  shows "\<exists>it it'. ms_get_iterator sm c = Some (vals, it) \<and>
    drain (vi_next vals) n it = Some (it', map (\<lambda>s. (the (ms_view sm (ms_id c (word_of_nat s))), ms_id c (word_of_nat (Suc s))))
      (filter (\<lambda>s. ms_view sm (ms_id c (word_of_nat s)) \<noteq> None) [0..<Suc (unat m)]))"
proof -
  let ?it = "ValueIterator_new c m"
  have it: "ms_get_iterator sm c = Some (vals, ?it)" using assms by (simp add: ms_get_iterator_def)
  have inv: "vi_inv ?it" using assms(5) by (simp add: vi_inv_def ValueIterator_new_def ms_id_def ValueId_new_def)
  have rem: "vi_rem vals ?it = vi_items vals c [0..<Suc (unat m)]" by (simp add: vi_rem_def ValueIterator_new_def ValueId_new_def)
  have "length (vi_items vals c [0..<Suc (unat m)]) \<le> Suc (unat m)"
    unfolding vi_items_def length_map by (rule order_trans [OF length_filter_le]) simp
  then obtain it' where "drain (vi_next vals) n ?it = Some (it', vi_rem vals ?it)"
    using vi.drain_rem [OF inv, of vals n] assms(6) rem by auto
  moreover have "ms_view sm (ms_id c s) = map_of vals (ms_id c s)" for s using assms(2) by (simp add: ms_view_def)
  ultimately show ?thesis using it rem by (simp add: vi_items_def)
qed

theorem memstore_scan_witness:
  "\<exists>sm vals it it'. three_values = Some sm \<and> ms_get_iterator sm 5 = Some (vals, it) \<and>
     drain (vi_next vals) 9 it = Some (it', [([1], ms_id 5 1), ([3], ms_id 5 3)])"
proof -
  obtain sm where sm: "three_values = Some sm" by (simp add: three_values_eq)
  then have m: "map_of (ms_containers sm) 5 = Some [(ms_id 5 0, [1]), (ms_id 5 2, [3])]" "map_of (ms_last_insert sm) 5 = Some (ms_id 5 2)"
    by (auto simp: three_values_eq)
  have up: "[0..<Suc (unat (2 :: u16))] = [0, 1, 2]" by (simp add: upt_rec)
  have "ms_ok sm" using three_values_ok [OF sm] by blast
  from memstore_scan [OF this m, of 2 9] sm m(1) show ?thesis unfolding up by (simp add: ms_view_def) blast
qed

end
