(* ===== verification/HeapStorage.thy ===== *)
theory HeapStorage
  imports StorageManager StorageSpec
begin

text \<open>The heap storage manager keeps the contract of a storage manager, as the in-memory store does.\<close>

definition hs_view :: "('f \<Rightarrow> bytes) \<Rightarrow> 'f StorageManager \<Rightarrow> ValueId \<Rightarrow> bytes option" where
  "hs_view content sm i = (case (segment_id i, page_id i, slot_id i) of
     (None, Some p, Some s) \<Rightarrow> sm_view content sm (container_id i, p, s) | _ \<Rightarrow> None)"

definition hs_id :: "ValueId \<Rightarrow> bool" where
  "hs_id i \<longleftrightarrow> (\<exists>c p s. i = ValueId_new_slot c p s)"

definition hs_room :: "'f posix \<Rightarrow> 'f StorageManager \<Rightarrow> ContainerId \<Rightarrow> bytes \<Rightarrow> bool" where
  "hs_room ps sm c v \<longleftrightarrow> map_of (cid_heapfile_map sm) c \<noteq> None \<and> v \<noteq> [] \<and> length v < 4068 \<and> 0 < bp_free (sm_bp sm) \<and>
     unat (get_num_pages ps sm c) + 1 < 2 ^ 32"

lemma hs_view_slot [simp]: "hs_view content sm (ValueId_new_slot c p s) = sm_view content sm (c, p, s)"
  by (simp add: hs_view_def ValueId_new_slot_def)

lemma hs_view_upd:
  assumes "\<And>k. sm_view content sm' k = (if k = (c, p, s) then x else sm_view content sm k)"
  shows "hs_view content sm' = (hs_view content sm)(ValueId_new_slot c p s := x)"
  using assms by (auto simp: fun_eq_iff hs_view_def ValueId_new_slot_def split: option.splits)

lemma sm_delete_law:
  assumes px: "posix_ok ps content" and ok: "sm_ok ps content sm" and v: "sm_view content sm (c, p, s) \<noteq> None"
  shows "\<exists>sm'. sm_delete_value ps sm (ValueId_new_slot c p s) = Some (sm', Inr ()) \<and> sm_ok ps content sm' \<and>
    sm_view content sm' = (sm_view content sm)((c, p, s) := None)"
proof -
  let ?mp = "bp_pool ps" and ?P = "bp_page content" and ?bp = "sm_bp sm"
  obtain hf where hf: "map_of (cid_heapfile_map sm) c = Some hf" "hf_view ?P hf ?bp (p, s) \<noteq> None"
    using v by (auto simp: sm_view_def bind_eq_Some_conv)
  have h: "hf_ok ?mp (pool_ok content) ?P hf ?bp" using ok hf(1) by (simp add: sm_ok_def)
  have "\<not> num_pages ?mp ?bp hf \<le> p" using mem_pool.view_outside [OF bp_mem_pool [OF px] h, of p s] hf(2) by auto
  then obtain bp where bp: "delete_val ?mp ?bp hf p s = Some (bp, Inr ())" "hf_kept ?mp (pool_ok content) ?P bp_free hf ?bp bp"
    "hf_view ?P hf bp = (hf_view ?P hf ?bp)((p, s) := None)"
    using mem_pool.delete_val_law [OF bp_mem_pool [OF px] h, of p s] hf(2) by auto
  note k = hf_keptD [OF bp(2)]
  have "sm_view content (sm\<lparr>sm_bp := bp\<rparr>) = (sm_view content sm)((c, p, s) := None)"
    using sm_step(2) [OF ok hf(1) k(1,2)] bp(3) hf(1) by (auto simp: fun_eq_iff sm_view_def)
  then show ?thesis
    using sm_step(1) [OF ok hf(1) k(1,2)] bp(1) hf(1)
    by (auto simp: sm_delete_value_def with_id_def ValueId_new_slot_def get_heapfile_def on_pool_def)
qed

lemma sm_update_law:
  assumes px: "posix_ok ps content" and ok: "sm_ok ps content sm" and view: "sm_view content sm (c, p, s) \<noteq> None"
    and v: "v \<noteq> []" "length v < 4068" and room: "0 < bp_free (sm_bp sm)" "unat (get_num_pages ps sm c) + 1 < 2 ^ 32"
  shows "\<exists>sm' p' s'. sm_update_value ps sm v (ValueId_new_slot c p s) = Some (sm', Inr (ValueId_new_slot c p' s')) \<and> sm_ok ps content sm' \<and>
    ((p', s') = (p, s) \<or> sm_view content sm (c, p', s') = None) \<and>
    sm_view content sm' = (sm_view content sm)((c, p, s) := None, (c, p', s') \<mapsto> v)"
proof -
  let ?mp = "bp_pool ps" and ?P = "bp_page content" and ?bp = "sm_bp sm"
  obtain hf where hf: "map_of (cid_heapfile_map sm) c = Some hf" "hf_view ?P hf ?bp (p, s) \<noteq> None"
    using view by (auto simp: sm_view_def bind_eq_Some_conv)
  have h: "hf_ok ?mp (pool_ok content) ?P hf ?bp" "hf_c_id hf = c" using ok hf(1) by (simp_all add: sm_ok_def)
  have room': "unat (num_pages ?mp ?bp hf) + 1 < 2 ^ 32" using room(2) hf(1) by (simp add: get_num_pages_def get_heapfile_def)
  have "\<not> num_pages ?mp ?bp hf \<le> p" using mem_pool.view_outside [OF bp_mem_pool [OF px] h(1), of p s] hf(2) by auto
  then obtain bp p' s' where bp: "update_val ?mp ?bp hf p s v = Some (bp, Inr (ValueId_new_slot c p' s'))"
    "hf_ok ?mp (pool_ok content) ?P hf bp" "others_same ?mp ?P hf ?bp bp"
    "(p', s') = (p, s) \<or> hf_view ?P hf ?bp (p', s') = None"
    "hf_view ?P hf bp = (hf_view ?P hf ?bp)((p, s) := None, (p', s') \<mapsto> v)"
    using mem_pool.update_val_law [OF bp_mem_pool [OF px] h(1) v room(1) room', of p s] hf(2) h(2) by auto
  have "sm_view content (sm\<lparr>sm_bp := bp\<rparr>) = (sm_view content sm)((c, p, s) := None, (c, p', s') \<mapsto> v)"
    using sm_step(2) [OF ok hf(1) bp(2,3)] bp(5) hf(1) by (auto simp: fun_eq_iff sm_view_def)
  then show ?thesis
    using sm_step(1) [OF ok hf(1) bp(2,3)] bp(1,4) hf(1)
    by (auto simp: sm_update_value_def with_id_def ValueId_new_slot_def get_heapfile_def on_pool_def sm_view_def)
qed

lemma heap_storage:
  assumes px: "posix_ok ps content"
  shows "storage (sm_ok ps content) (hs_view content) hs_id (hs_room ps) (sm_insert_value ps) (sm_get_value ps) (sm_delete_value ps)
    (sm_update_value ps)"
proof unfold_locales
  fix s c v assume s: "sm_ok ps content s"
  assume r: "hs_room ps s c v"
  then obtain hf where hf: "map_of (cid_heapfile_map s) c = Some hf" by (auto simp: hs_room_def)
  with sm_insert_law [OF px s hf] r obtain s' p q where i: "sm_insert_value ps s c v = Some (s', ValueId_new_slot c p q)"
    "sm_ok ps content s'" "sm_view content s (c, p, q) = None" "sm_view content s' = (sm_view content s)((c, p, q) \<mapsto> v)"
    unfolding hs_room_def by blast
  have "hs_view content s' = (hs_view content s)(ValueId_new_slot c p q \<mapsto> v)" by (rule hs_view_upd) (simp add: i(4))
  with i show "\<exists>s' i. sm_insert_value ps s c v = Some (s', i) \<and> sm_ok ps content s' \<and> hs_id i \<and>
      container_id i = c \<and> hs_view content s i = None \<and> hs_view content s' = (hs_view content s)(i \<mapsto> v)"
    by (intro exI [of _ s'] exI [of _ "ValueId_new_slot c p q"]) (auto simp: hs_id_def)
next
  fix s i assume s: "sm_ok ps content s" and "hs_id i"
  then obtain c p q where i: "i = ValueId_new_slot c p q" by (auto simp: hs_id_def)
  show "\<exists>s' r. sm_get_value ps s i = Some (s', r) \<and> sm_ok ps content s' \<and> hs_view content s' = hs_view content s \<and>
      (case hs_view content s i of Some v \<Rightarrow> r = Inr v | None \<Rightarrow> \<exists>e. r = Inl e)"
  proof -
    obtain s' r where g: "sm_get_value ps s i = Some (s', r)" "sm_ok ps content s'" "sm_view content s' = sm_view content s"
      "case sm_view content s (c, p, q) of Some v \<Rightarrow> r = Inr v | None \<Rightarrow> \<exists>e. r = Inl e"
      using sm_get_law [OF px s, of c p q] unfolding i by blast
    have "hs_view content s' = hs_view content s" unfolding hs_view_def [abs_def] g(3) ..
    with g show ?thesis unfolding i by auto
  qed
  show "\<exists>s'. sm_delete_value ps s i = Some (s', Inr ()) \<and> sm_ok ps content s' \<and> hs_view content s' = (hs_view content s)(i := None)"
    if ne: "hs_view content s i \<noteq> None"
  proof -
    obtain s' where d: "sm_delete_value ps s i = Some (s', Inr ())" "sm_ok ps content s'" "sm_view content s' = (sm_view content s)((c, p, q) := None)"
      using sm_delete_law [OF px s, of c p q] ne unfolding i by auto
    have "hs_view content s' = (hs_view content s)(i := None)" unfolding i by (rule hs_view_upd) (simp add: d(3))
    with d show ?thesis by blast
  qed
  show "\<exists>s' j. sm_update_value ps s v i = Some (s', Inr j) \<and> sm_ok ps content s' \<and> hs_id j \<and> container_id j = container_id i \<and>
      (j = i \<or> hs_view content s j = None) \<and> hs_view content s' = (hs_view content s)(i := None, j \<mapsto> v)"
    if ne: "hs_view content s i \<noteq> None" and room: "hs_room ps s (container_id i) v" for v
  proof -
    obtain s' p' q' where u: "sm_update_value ps s v i = Some (s', Inr (ValueId_new_slot c p' q'))" "sm_ok ps content s'"
      "(p', q') = (p, q) \<or> sm_view content s (c, p', q') = None"
      "sm_view content s' = (sm_view content s)((c, p, q) := None, (c, p', q') \<mapsto> v)"
      using sm_update_law [OF px s, of c p q v] ne room unfolding i hs_room_def by auto
    have "hs_view content s' = (hs_view content s)(i := None, ValueId_new_slot c p' q' \<mapsto> v)"
      unfolding i using u(4) by (auto simp: fun_eq_iff hs_view_def ValueId_new_slot_def split: option.splits)
    with u i show ?thesis by (intro exI [of _ s'] exI [of _ "ValueId_new_slot c p' q'"]) (auto simp: hs_id_def)
  qed
qed

interpretation heap: storage "sm_ok posix_mem (\<lambda>f. f)" "hs_view (\<lambda>f. f)" hs_id "hs_room posix_mem" "sm_insert_value posix_mem"
  "sm_get_value posix_mem" "sm_delete_value posix_mem" "sm_update_value posix_mem"
  by (rule heap_storage [OF posix_mem_ok])

end
