(* ===== verification/BTree.thy ===== *)
theory BTree
  imports MemPool HeapPageSpec Ids Datatypes "HOL-Library.Option_ord"
begin

text \<open>
  The B+ tree index, index/src/tree.rs. Every node is a slotted page of a pool; page 0 is a header page with the id of
  the root. Entries are encoded with serde_cbor, code outside the repository, which is the record \<open>cbor\<close>. A loop over
  the entries of a page is \<open>for_page\<close> with the number of slot ids as a bound on its rounds; descents and walks along the
  leaves are partial functions, as nothing in the code bounds them. A guard is the index of its frame and is dropped
  where it goes out of scope, on an early return too.
\<close>

section \<open>Entries\<close>

type_synonym IndexKey = "Field list"
type_synonym RidKey = "ContainerId \<times> PageId option \<times> SlotId option"

definition rid_key :: "ValueId \<Rightarrow> RidKey" where
  "rid_key v = (container_id v, page_id v, slot_id v)"

datatype NodeEntry =
    Meta bool "PageId option" "PageId option"
  | Internal "IndexKey option" PageId
  | Leaf IndexKey ValueId

record cbor =
  to_vec :: "NodeEntry \<Rightarrow> string + bytes"
  from_slice :: "bytes \<Rightarrow> string + NodeEntry"

definition encode :: "cbor \<Rightarrow> NodeEntry \<Rightarrow> CrustyError + bytes" where
  "encode cb e = (case to_vec cb e of Inl s \<Rightarrow> Inl (c_err (''index entry encode error: '' @ s)) | Inr b \<Rightarrow> Inr b)"

definition decode :: "cbor \<Rightarrow> bytes \<Rightarrow> CrustyError + NodeEntry" where
  "decode cb b = (case from_slice cb b of Inl s \<Rightarrow> Inl (c_err (''index entry decode error: '' @ s)) | Inr e \<Rightarrow> Inr e)"

text \<open>A loop over the entries of a page. The body continues with a new state or leaves the loop with a result.\<close>

primrec for_entries :: "nat \<Rightarrow> ('s \<Rightarrow> bytes \<Rightarrow> SlotId \<Rightarrow> 'r + 's) \<Rightarrow> HeapPageIter \<Rightarrow> 's \<Rightarrow> ('r + 's) option" where
  "for_entries 0 body it s = None"
| "for_entries (Suc n) body it s = do {
     (it, x) \<leftarrow> heap_iter_next it;
     (case x of
        None \<Rightarrow> Some (Inr s)
      | Some (b, sid) \<Rightarrow> (case body s b sid of
          Inl r \<Rightarrow> Some (Inl r)
        | Inr s \<Rightarrow> for_entries n body it s)) }"

definition for_page :: "('s \<Rightarrow> bytes \<Rightarrow> SlotId \<Rightarrow> 'r + 's) \<Rightarrow> Page \<Rightarrow> 's \<Rightarrow> ('r + 's) option" where
  "for_page body pg s = for_entries 65537 body (heap_iter pg) s"

section \<open>Reading a node\<close>

definition read_is_leaf :: "cbor \<Rightarrow> Page \<Rightarrow> (CrustyError + bool) option" where
  "read_is_leaf cb pg = do {
     r \<leftarrow> for_page (\<lambda>_ b _. case decode cb b of
         Inl e \<Rightarrow> Inl (Inl e)
       | Inr (Meta is_leaf _ _) \<Rightarrow> Inl (Inr is_leaf)
       | Inr _ \<Rightarrow> Inr ()) pg ();
     Some (case r of Inl x \<Rightarrow> x | Inr _ \<Rightarrow> Inl (c_err ''index node missing meta entry'')) }"

definition read_internal_entries :: "cbor \<Rightarrow> Page \<Rightarrow> (CrustyError + (IndexKey option \<times> PageId) list) option" where
  "read_internal_entries cb pg = do {
     r \<leftarrow> for_page (\<lambda>es b _. case decode cb b of
         Inl e \<Rightarrow> Inl e
       | Inr (Internal k child) \<Rightarrow> Inr (es @ [(k, child)])
       | Inr _ \<Rightarrow> Inr es) pg [];
     Some (case r of Inl e \<Rightarrow> Inl e | Inr es \<Rightarrow> Inr (sort_key fst es)) }"

type_synonym leaf_entries = "PageId option \<times> PageId option \<times> (IndexKey \<times> ValueId) list"

definition leaf_order :: "IndexKey \<times> ValueId \<Rightarrow> IndexKey \<times> RidKey" where
  "leaf_order e = (fst e, rid_key (snd e))"

definition read_leaf_entries :: "cbor \<Rightarrow> Page \<Rightarrow> (CrustyError + leaf_entries) option" where
  "read_leaf_entries cb pg = do {
     r \<leftarrow> for_page (\<lambda>(ls, rs, es) b _. case decode cb b of
         Inl e \<Rightarrow> Inl e
       | Inr (Meta _ ls rs) \<Rightarrow> Inr (ls, rs, es)
       | Inr (Leaf k rid) \<Rightarrow> Inr (ls, rs, es @ [(k, rid)])
       | Inr (Internal _ _) \<Rightarrow> Inl (c_err ''expected leaf node'')) pg (None, None, []);
     Some (case r of Inl e \<Rightarrow> Inl e | Inr (ls, rs, es) \<Rightarrow> Inr (ls, rs, sort_key leaf_order es)) }"

text \<open>The loop of \<open>find_child\<close>; an empty slice panics at \<open>entries[0]\<close>.\<close>

fun find_child_loop :: "(IndexKey option \<times> PageId) list \<Rightarrow> IndexKey \<Rightarrow> PageId \<Rightarrow> PageId" where
  "find_child_loop [] k result = result"
| "find_child_loop ((None, child) # es) k result = find_child_loop es k child"
| "find_child_loop ((Some k', child) # es) k result =
     (if k' \<le> k then find_child_loop es k child else result)"

definition find_child :: "(IndexKey option \<times> PageId) list \<Rightarrow> IndexKey \<Rightarrow> PageId option" where
  "find_child es k = map_option (\<lambda>e. find_child_loop es k (snd e)) (index es 0)"

definition last_matches :: "(IndexKey \<times> ValueId) list \<Rightarrow> IndexKey \<Rightarrow> bool" where
  "last_matches es k = (es \<noteq> [] \<and> fst (last es) = k)"

section \<open>Changing a node\<close>

text \<open>Entries are added without a look at the result; an encoding error leaves the rest out.\<close>

primrec add_entries :: "cbor \<Rightarrow> NodeEntry list \<Rightarrow> Page \<Rightarrow> (Page \<times> (CrustyError + unit)) option" where
  "add_entries cb [] pg = Some (pg, Inr ())"
| "add_entries cb (e # es) pg = (case encode cb e of
     Inl x \<Rightarrow> Some (pg, Inl x)
   | Inr b \<Rightarrow> do { (pg, _) \<leftarrow> add_value pg b; add_entries cb es pg })"

primrec delete_slots :: "SlotId list \<Rightarrow> Page \<Rightarrow> Page option" where
  "delete_slots [] pg = Some pg"
| "delete_slots (s # ss) pg = do { (pg, _) \<leftarrow> delete_value pg s; delete_slots ss pg }"

definition drain_leaf :: "cbor \<Rightarrow> Page \<Rightarrow> (Page \<times> (CrustyError + leaf_entries)) option" where
  "drain_leaf cb pg = do {
     r \<leftarrow> for_page (\<lambda>(ls, rs, es, ss) b sid. case decode cb b of
         Inl e \<Rightarrow> Inl e
       | Inr (Meta _ ls rs) \<Rightarrow> Inr (ls, rs, es, ss @ [sid])
       | Inr (Leaf k rid) \<Rightarrow> Inr (ls, rs, es @ [(k, rid)], ss @ [sid])
       | Inr (Internal _ _) \<Rightarrow> Inl (c_err ''expected leaf node'')) pg (None, None, [], []);
     (case r of
        Inl e \<Rightarrow> Some (pg, Inl e)
      | Inr (ls, rs, es, ss) \<Rightarrow> do { pg \<leftarrow> delete_slots ss pg; Some (pg, Inr (ls, rs, es)) }) }"

definition drain_internal :: "cbor \<Rightarrow> Page \<Rightarrow> (Page \<times> (CrustyError + (IndexKey option \<times> PageId) list)) option" where
  "drain_internal cb pg = do {
     r \<leftarrow> for_page (\<lambda>(es, ss) b sid. case decode cb b of
         Inl e \<Rightarrow> Inl e
       | Inr (Internal k child) \<Rightarrow> Inr (es @ [(k, child)], ss @ [sid])
       | Inr _ \<Rightarrow> Inr (es, ss @ [sid])) pg ([], []);
     (case r of
        Inl e \<Rightarrow> Some (pg, Inl e)
      | Inr (es, ss) \<Rightarrow> do { pg \<leftarrow> delete_slots ss pg; Some (pg, Inr (sort_key fst es)) }) }"

text \<open>The body of \<open>set_leaf_left_sibling\<close> on the page.\<close>

definition rethread :: "cbor \<Rightarrow> PageId option \<Rightarrow> Page \<Rightarrow> (Page \<times> (CrustyError + unit)) option" where
  "rethread cb new_left pg = do {
     r \<leftarrow> for_page (\<lambda>_ b sid. case decode cb b of
         Inl e \<Rightarrow> Inl (Inl e)
       | Inr (Meta is_leaf _ rs) \<Rightarrow> Inl (Inr (sid, is_leaf, rs))
       | Inr _ \<Rightarrow> Inr ()) pg ();
     (case r of
        Inr _ \<Rightarrow> Some (pg, Inl (c_err ''index node missing meta entry''))
      | Inl (Inl e) \<Rightarrow> Some (pg, Inl e)
      | Inl (Inr (sid, is_leaf, rs)) \<Rightarrow> (case encode cb (Meta is_leaf new_left rs) of
          Inl e \<Rightarrow> Some (pg, Inl e)
        | Inr b \<Rightarrow> do {
            (pg, u) \<leftarrow> update_value pg sid b;
            Some (pg, if u = None then Inl (c_err ''failed to re-thread leaf sibling pointer'') else Inr ()) })) }"

section \<open>Guards\<close>

record TreeIndex =
  ti_c_id :: ContainerId

definition ti_get_page_for_read :: "'m mem_pool_ops \<Rightarrow> 'm \<Rightarrow> TreeIndex \<Rightarrow> PageId \<Rightarrow> ('m, CrustyError, nat) run" where
  "ti_get_page_for_read mp m t pid =
     map_err (\<lambda>e. c_err (''index page read error: '' @ status_debug e)) (mp_read mp m (PageFrameId_new (ti_c_id t) pid))"

definition ti_get_page_for_write :: "'m mem_pool_ops \<Rightarrow> 'm \<Rightarrow> TreeIndex \<Rightarrow> PageId \<Rightarrow> ('m, CrustyError, nat) run" where
  "ti_get_page_for_write mp m t pid =
     map_err (\<lambda>e. c_err (''index page write error: '' @ status_debug e)) (mp_write mp m (PageFrameId_new (ti_c_id t) pid))"

definition ti_create :: "'m mem_pool_ops \<Rightarrow> 'm \<Rightarrow> ContainerId \<Rightarrow> ('m, CrustyError, nat) run" where
  "ti_create mp m c = map_err (\<lambda>e. c_err (status_debug e)) (mp_create mp m c)"

text \<open>A block that reads a page and ends with the drop of its guard.\<close>

definition reading :: "'m mem_pool_ops \<Rightarrow> 'm \<Rightarrow> TreeIndex \<Rightarrow> PageId \<Rightarrow>
    (Page \<Rightarrow> (CrustyError + 'a) option) \<Rightarrow> ('m, CrustyError, 'a) run" where
  "reading mp m t pid f = and_then (ti_get_page_for_read mp m t pid) (\<lambda>m i. do {
     r \<leftarrow> f (mp_page mp m i);
     Some (mp_drop_read mp m i, r) })"

text \<open>A change of the page behind a write guard; an error drops the guard.\<close>

definition changing :: "'m mem_pool_ops \<Rightarrow> 'm \<Rightarrow> nat \<Rightarrow>
    (Page \<Rightarrow> (Page \<times> (CrustyError + 'a)) option) \<Rightarrow> ('m, CrustyError, 'a) run" where
  "changing mp m i f = do {
     (pg, r) \<leftarrow> f (mp_page mp m i);
     let m = mp_set_page mp m i pg;
     Some (case r of Inl e \<Rightarrow> (mp_drop_write mp m i, Inl e) | Inr x \<Rightarrow> (m, Inr x)) }"

text \<open>A block that changes a page and ends with the drop of its guard.\<close>

definition writing :: "'m mem_pool_ops \<Rightarrow> 'm \<Rightarrow> TreeIndex \<Rightarrow> PageId \<Rightarrow>
    (Page \<Rightarrow> (Page \<times> (CrustyError + 'a)) option) \<Rightarrow> ('m, CrustyError, 'a) run" where
  "writing mp m t pid f = and_then (ti_get_page_for_write mp m t pid) (\<lambda>m i.
     and_then (changing mp m i f) (\<lambda>m x. Some (mp_drop_write mp m i, Inr x)))"

text \<open>An early return with an error while guard \<open>i\<close> is held.\<close>

definition holding :: "'m mem_pool_ops \<Rightarrow> nat \<Rightarrow> ('m, CrustyError, 'a) run \<Rightarrow> ('m, CrustyError, 'a) run" where
  "holding mp i r = (case r of Some (m, Inl e) \<Rightarrow> Some (mp_drop_write mp m i, Inl e) | _ \<Rightarrow> r)"

section \<open>New trees\<close>

definition init_node :: "cbor \<Rightarrow> NodeEntry list \<Rightarrow> Page \<Rightarrow> (Page \<times> (CrustyError + unit)) option" where
  "init_node cb es pg = do { pg \<leftarrow> init_heap_page pg; add_entries cb es pg }"

text \<open>A new page with the given entries, its guard dropped.\<close>

definition new_node :: "'m mem_pool_ops \<Rightarrow> cbor \<Rightarrow> 'm \<Rightarrow> ContainerId \<Rightarrow> NodeEntry list \<Rightarrow> ('m, CrustyError, PageId) run" where
  "new_node mp cb m c es = and_then (ti_create mp m c) (\<lambda>m i.
     and_then (changing mp m i (init_node cb es)) (\<lambda>m _. do {
       pid \<leftarrow> get_page_id (mp_page mp m i);
       Some (mp_drop_write mp m i, Inr pid) }))"

definition TreeIndex_new :: "'m mem_pool_ops \<Rightarrow> cbor \<Rightarrow> 'm \<Rightarrow> ContainerId \<Rightarrow> ('m, CrustyError, TreeIndex) run" where
  "TreeIndex_new mp cb m c = and_then (ti_create mp m c) (\<lambda>m h. do {
     pg \<leftarrow> init_heap_page (mp_page mp m h);
     let m = mp_set_page mp m h pg;
     and_then (holding mp h (new_node mp cb m c [Meta True None None])) (\<lambda>m root_id. do {
       (pg, _) \<leftarrow> add_value (mp_page mp m h) (to_le_bytes root_id);
       Some (mp_drop_write mp (mp_set_page mp m h pg) h, Inr \<lparr>ti_c_id = c\<rparr>) }) })"

definition TreeIndex_load :: "ContainerId \<Rightarrow> TreeIndex" where
  "TreeIndex_load c = \<lparr>ti_c_id = c\<rparr>"

definition get_root_page_id :: "'m mem_pool_ops \<Rightarrow> 'm \<Rightarrow> TreeIndex \<Rightarrow> ('m, CrustyError, PageId) run" where
  "get_root_page_id mp m t = reading mp m t 0 (\<lambda>pg. do {
     v \<leftarrow> get_value pg 0;
     Some (case v of
        None \<Rightarrow> Inl (c_err ''index header missing root pointer'')
      | Some bs \<Rightarrow> (case from_le_bytes bs of
          None \<Rightarrow> Inl (c_err ''corrupt index header'')
        | Some root_id \<Rightarrow> Inr root_id)) })"

definition set_root_page_id :: "'m mem_pool_ops \<Rightarrow> 'm \<Rightarrow> TreeIndex \<Rightarrow> PageId \<Rightarrow> ('m, CrustyError, unit) run" where
  "set_root_page_id mp m t new_root = writing mp m t 0 (\<lambda>pg. do {
     (pg, u) \<leftarrow> update_value pg 0 (to_le_bytes new_root);
     Some (pg, if u = None then Inl (c_err ''failed to update index root pointer'') else Inr ()) })"

definition set_leaf_left_sibling ::
  "'m mem_pool_ops \<Rightarrow> cbor \<Rightarrow> 'm \<Rightarrow> TreeIndex \<Rightarrow> PageId \<Rightarrow> PageId option \<Rightarrow> ('m, CrustyError, unit) run" where
  "set_leaf_left_sibling mp cb m t leaf_id new_left = writing mp m t leaf_id (rethread cb new_left)"

section \<open>Lookup\<close>

lemma and_then_bind:
  "and_then m k = Option.bind m (\<lambda>sr. case_sum (\<lambda>e. Some (fst sr, Inl e)) (k (fst sr)) (snd sr))"
  by (simp add: and_then_def split: option.split prod.split sum.split)

lemma and_then_mono [partial_function_mono]:
  assumes "mono_option F" and "\<And>s x. mono_option (\<lambda>f. G f s x)"
  shows "mono_option (\<lambda>f. and_then (F f) (G f))"
proof -
  have "mono_option (\<lambda>f. case_sum (\<lambda>e. Some (fst sr, Inl e)) (G f (fst sr)) (snd sr))" for sr
    using assms(2) by (cases "snd sr") (simp_all add: option.const_mono)
  then show ?thesis unfolding and_then_bind using assms(1) by (intro bind_mono)
qed

text \<open>What one level of the descent reads: \<open>None\<close> for a leaf, otherwise the child for the key.\<close>

definition child_for :: "cbor \<Rightarrow> IndexKey \<Rightarrow> Page \<Rightarrow> (CrustyError + PageId option) option" where
  "child_for cb k pg = do {
     r \<leftarrow> read_is_leaf cb pg;
     (case r of
        Inl e \<Rightarrow> Some (Inl e)
      | Inr True \<Rightarrow> Some (Inr None)
      | Inr False \<Rightarrow> do {
          r \<leftarrow> read_internal_entries cb pg;
          (case r of
             Inl e \<Rightarrow> Some (Inl e)
           | Inr es \<Rightarrow> do { child \<leftarrow> find_child es k; Some (Inr (Some child)) }) }) }"

partial_function (option) find_leaf ::
  "'m mem_pool_ops \<Rightarrow> cbor \<Rightarrow> 'm \<Rightarrow> TreeIndex \<Rightarrow> PageId \<Rightarrow> IndexKey \<Rightarrow> ('m, CrustyError, PageId) run" where
  "find_leaf mp cb m t pid k = and_then (reading mp m t pid (child_for cb k)) (\<lambda>m child.
     case child of None \<Rightarrow> Some (m, Inr pid) | Some c \<Rightarrow> find_leaf mp cb m t c k)"

definition left_sibling_of :: "cbor \<Rightarrow> Page \<Rightarrow> (CrustyError + PageId option) option" where
  "left_sibling_of cb pg = map_option (map_sum id fst) (read_leaf_entries cb pg)"

definition ends_with :: "cbor \<Rightarrow> IndexKey \<Rightarrow> Page \<Rightarrow> (CrustyError + bool) option" where
  "ends_with cb k pg = map_option (map_sum id (\<lambda>(_, _, es). last_matches es k)) (read_leaf_entries cb pg)"

partial_function (option) leftmost_run_leaf ::
  "'m mem_pool_ops \<Rightarrow> cbor \<Rightarrow> 'm \<Rightarrow> TreeIndex \<Rightarrow> PageId \<Rightarrow> IndexKey \<Rightarrow> ('m, CrustyError, PageId) run" where
  "leftmost_run_leaf mp cb m t current k = and_then (reading mp m t current (left_sibling_of cb)) (\<lambda>m ls.
     case ls of
       None \<Rightarrow> Some (m, Inr current)
     | Some prev_id \<Rightarrow> and_then (reading mp m t prev_id (ends_with cb k)) (\<lambda>m prev_matches.
         if prev_matches then leftmost_run_leaf mp cb m t prev_id k else Some (m, Inr current)))"

partial_function (option) search_loop ::
  "'m mem_pool_ops \<Rightarrow> cbor \<Rightarrow> 'm \<Rightarrow> TreeIndex \<Rightarrow> IndexKey \<Rightarrow> PageId option \<Rightarrow> ValueId list \<Rightarrow> ('m, CrustyError, ValueId list) run" where
  "search_loop mp cb m t k current results = (case current of
     None \<Rightarrow> Some (m, Inr results)
   | Some pid \<Rightarrow> and_then (reading mp m t pid (read_leaf_entries cb)) (\<lambda>m (_, rs, es).
       search_loop mp cb m t k (if last_matches es k then rs else None)
         (results @ map snd (filter (\<lambda>e. fst e = k) es))))"

definition bt_search ::
  "'m mem_pool_ops \<Rightarrow> cbor \<Rightarrow> 'm \<Rightarrow> TreeIndex \<Rightarrow> IndexKey \<Rightarrow> ('m, CrustyError, ValueId list) run" where
  "bt_search mp cb m t k = and_then (get_root_page_id mp m t) (\<lambda>m root_id.
     and_then (find_leaf mp cb m t root_id k) (\<lambda>m landed.
     and_then (leftmost_run_leaf mp cb m t landed k) (\<lambda>m current.
     search_loop mp cb m t k (Some current) [])))"

section \<open>Insertion\<close>

text \<open>The result of an insertion into a node: the separator and the page of a new right sibling.\<close>

type_synonym split_result = "(IndexKey \<times> PageId) option"

text \<open>The part of \<open>insert_into_leaf\<close> after the entry did not fit.\<close>

definition split_leaf :: "'m mem_pool_ops \<Rightarrow> cbor \<Rightarrow> 'm \<Rightarrow> TreeIndex \<Rightarrow> PageId \<Rightarrow> nat \<Rightarrow> IndexKey \<Rightarrow> ValueId \<Rightarrow>
    ('m, CrustyError, split_result) run" where
  "split_leaf mp cb m t pid i k rid = and_then (changing mp m i (drain_leaf cb)) (\<lambda>m (ls, old_rs, es). do {
     let es = sort_key leaf_order (es @ [(k, rid)]);
     let mid = length es div 2;
     e \<leftarrow> index (drop mid es) 0;
     and_then (holding mp i (new_node mp cb m (ti_c_id t)
         (Meta True (Some pid) old_rs # map (\<lambda>(k, v). Leaf k v) (drop mid es)))) (\<lambda>m right_id.
     and_then (changing mp m i (add_entries cb
         (Meta True ls (Some right_id) # map (\<lambda>(k, v). Leaf k v) (take mid es)))) (\<lambda>m _.
     and_then (case old_rs of
         None \<Rightarrow> Some (mp_drop_write mp m i, Inr ())
       | Some old_right_id \<Rightarrow> set_leaf_left_sibling mp cb (mp_drop_write mp m i) t old_right_id (Some right_id)) (\<lambda>m _.
     Some (m, Inr (Some (fst e, right_id)))))) })"

definition insert_into_leaf :: "'m mem_pool_ops \<Rightarrow> cbor \<Rightarrow> 'm \<Rightarrow> TreeIndex \<Rightarrow> PageId \<Rightarrow> IndexKey \<Rightarrow> ValueId \<Rightarrow>
    ('m, CrustyError, split_result) run" where
  "insert_into_leaf mp cb m t pid k rid = and_then (ti_get_page_for_write mp m t pid) (\<lambda>m i.
     case encode cb (Leaf k rid) of
       Inl e \<Rightarrow> Some (mp_drop_write mp m i, Inl e)
     | Inr b \<Rightarrow> do {
         (pg, s) \<leftarrow> add_value (mp_page mp m i) b;
         let m = mp_set_page mp m i pg;
         if s \<noteq> None then Some (mp_drop_write mp m i, Inr None)
         else split_leaf mp cb m t pid i k rid })"

text \<open>The part of \<open>insert_into_internal\<close> after the entry did not fit.\<close>

definition split_internal :: "'m mem_pool_ops \<Rightarrow> cbor \<Rightarrow> 'm \<Rightarrow> TreeIndex \<Rightarrow> nat \<Rightarrow> IndexKey \<Rightarrow> PageId \<Rightarrow>
    ('m, CrustyError, split_result) run" where
  "split_internal mp cb m t i sep_key new_child = and_then (changing mp m i (drain_internal cb)) (\<lambda>m es. do {
     let es = sort_key fst (es @ [(Some sep_key, new_child)]);
     let mid = length es div 2;
     (mid_key, mid_child) \<leftarrow> index es mid;
     (case mid_key of
        None \<Rightarrow> Some (mp_drop_write mp m i, Inl (c_err ''internal split picked the leftmost sentinel as separator''))
      | Some separator \<Rightarrow>
          and_then (holding mp i (new_node mp cb m (ti_c_id t) (Meta False None None # Internal None mid_child #
            map (\<lambda>(k, c). Internal k c) (drop (mid + 1) es)))) (\<lambda>m right_id.
          and_then (changing mp m i (add_entries cb (Meta False None None #
            map (\<lambda>(k, c). Internal k c) (take mid es)))) (\<lambda>m _.
          Some (mp_drop_write mp m i, Inr (Some (separator, right_id)))))) })"

definition insert_into_internal :: "'m mem_pool_ops \<Rightarrow> cbor \<Rightarrow> 'm \<Rightarrow> TreeIndex \<Rightarrow> PageId \<Rightarrow> IndexKey \<Rightarrow> PageId \<Rightarrow>
    ('m, CrustyError, split_result) run" where
  "insert_into_internal mp cb m t pid sep_key new_child = and_then (ti_get_page_for_write mp m t pid) (\<lambda>m i.
     case encode cb (Internal (Some sep_key) new_child) of
       Inl e \<Rightarrow> Some (mp_drop_write mp m i, Inl e)
     | Inr b \<Rightarrow> do {
         (pg, s) \<leftarrow> add_value (mp_page mp m i) b;
         let m = mp_set_page mp m i pg;
         if s \<noteq> None then Some (mp_drop_write mp m i, Inr None)
         else split_internal mp cb m t i sep_key new_child })"

definition internal_child :: "cbor \<Rightarrow> IndexKey \<Rightarrow> Page \<Rightarrow> (CrustyError + PageId) option" where
  "internal_child cb k pg = do {
     r \<leftarrow> read_internal_entries cb pg;
     (case r of Inl e \<Rightarrow> Some (Inl e) | Inr es \<Rightarrow> map_option Inr (find_child es k)) }"

partial_function (option) insert_recursive :: "'m mem_pool_ops \<Rightarrow> cbor \<Rightarrow> 'm \<Rightarrow> TreeIndex \<Rightarrow> PageId \<Rightarrow> IndexKey \<Rightarrow> ValueId \<Rightarrow>
    ('m, CrustyError, split_result) run" where
  "insert_recursive mp cb m t pid k rid = and_then (reading mp m t pid (read_is_leaf cb)) (\<lambda>m is_leaf.
     if is_leaf then insert_into_leaf mp cb m t pid k rid
     else and_then (reading mp m t pid (internal_child cb k)) (\<lambda>m child_id.
       and_then (insert_recursive mp cb m t child_id k rid) (\<lambda>m r.
         case r of
           None \<Rightarrow> Some (m, Inr None)
         | Some (sep_key, new_child) \<Rightarrow> insert_into_internal mp cb m t pid sep_key new_child)))"

definition bt_insert ::
  "'m mem_pool_ops \<Rightarrow> cbor \<Rightarrow> 'm \<Rightarrow> TreeIndex \<Rightarrow> IndexKey \<Rightarrow> ValueId \<Rightarrow> ('m, CrustyError, unit) run" where
  "bt_insert mp cb m t k rid = and_then (get_root_page_id mp m t) (\<lambda>m root_id.
     and_then (insert_recursive mp cb m t root_id k rid) (\<lambda>m r.
     case r of
       None \<Rightarrow> Some (m, Inr ())
     | Some (sep_key, new_page_id) \<Rightarrow>
         and_then (new_node mp cb m (ti_c_id t)
           [Meta False None None, Internal None root_id, Internal (Some sep_key) new_page_id]) (\<lambda>m new_root_id.
         set_root_page_id mp m t new_root_id)))"

section \<open>Deletion\<close>

text \<open>What a round of the loop reads: the slot of the entry, whether the last key matches, the right sibling.\<close>

definition find_entry :: "cbor \<Rightarrow> IndexKey \<Rightarrow> ValueId \<Rightarrow> Page \<Rightarrow> (CrustyError + SlotId option \<times> bool \<times> PageId option) option" where
  "find_entry cb k rid pg = do {
     r \<leftarrow> for_page (\<lambda>_ b sid. case decode cb b of
         Inl e \<Rightarrow> Inl (Inl e)
       | Inr (Leaf k' r) \<Rightarrow> if k' = k \<and> r = rid then Inl (Inr sid) else Inr ()
       | Inr _ \<Rightarrow> Inr ()) pg ();
     (case r of
        Inl (Inl e) \<Rightarrow> Some (Inl e)
      | _ \<Rightarrow> map_option (map_sum id (\<lambda>(_, rs, es).
          (case r of Inl (Inr sid) \<Rightarrow> Some sid | _ \<Rightarrow> None, last_matches es k, rs))) (read_leaf_entries cb pg)) }"

partial_function (option) delete_loop ::
  "'m mem_pool_ops \<Rightarrow> cbor \<Rightarrow> 'm \<Rightarrow> TreeIndex \<Rightarrow> IndexKey \<Rightarrow> ValueId \<Rightarrow> PageId \<Rightarrow> ('m, CrustyError, unit) run" where
  "delete_loop mp cb m t k rid current = and_then (reading mp m t current (find_entry cb k rid)) (\<lambda>m (found, last_match, rs).
     case found of
       Some sid \<Rightarrow> writing mp m t current (\<lambda>pg. map_option (\<lambda>(pg, _). (pg, Inr ())) (delete_value pg sid))
     | None \<Rightarrow> (case rs of
         Some next \<Rightarrow> if last_match then delete_loop mp cb m t k rid next else Some (m, Inr ())
       | None \<Rightarrow> Some (m, Inr ())))"

definition bt_delete ::
  "'m mem_pool_ops \<Rightarrow> cbor \<Rightarrow> 'm \<Rightarrow> TreeIndex \<Rightarrow> IndexKey \<Rightarrow> ValueId \<Rightarrow> ('m, CrustyError, unit) run" where
  "bt_delete mp cb m t k rid = and_then (get_root_page_id mp m t) (\<lambda>m root_id.
     and_then (find_leaf mp cb m t root_id k) (\<lambda>m landed.
     and_then (leftmost_run_leaf mp cb m t landed k) (\<lambda>m current.
     delete_loop mp cb m t k rid current)))"

end
