(* ===== verification/NestedGuards.thy ===== *)
theory NestedGuards
  imports InMemPool
begin

text \<open>
  Two write guards at once: a client that holds the guard of a page and creates another page. The contract of
  \<open>MemPool\<close> is extended by what such a client relies on, and both pools satisfy it: a page is created in a frame
  other than the one that is held, and dropping the two guards leaves both pages stored.
\<close>

definition carries :: "Page \<Rightarrow> PageId \<Rightarrow> bool" where
  "carries pg n \<longleftrightarrow> page_wf pg \<and> get_page_id pg = Some n"

definition blank_page :: "Page \<Rightarrow> PageId \<Rightarrow> bool" where
  "blank_page pg n \<longleftrightarrow> carries pg n \<and> slice (data pg) 16 8 = replicate 8 0"

definition next_id :: "'m mem_pool_ops \<Rightarrow> 'm \<Rightarrow> ContainerId \<Rightarrow> PageId" where
  "next_id mp m c = (case mp_max_page_id mp m c of None \<Rightarrow> 0 | Some n \<Rightarrow> n)"

locale nested_pool = mem_pool +
  assumes set_set: "mp_set_page mp (mp_set_page mp m i a) i b = mp_set_page mp m i b"
    and write_guard: "inv m \<Longrightarrow> pages m (p_key pk) = Some pg \<Longrightarrow> mp_write mp m pk = Some (q, Inr i) \<Longrightarrow>
      mp_page mp (mp_set_page mp q i a) i = a"
    and create_guard: "inv m \<Longrightarrow> 0 < free m \<Longrightarrow> unat (next_id mp m c) + 1 < 2 ^ 32 \<Longrightarrow>
      mp_create mp m c = Some (q, Inr i) \<Longrightarrow> mp_page mp (mp_set_page mp q i a) i = a"
    and write_create: "inv m \<Longrightarrow> pages m (p_key pk) = Some pg \<Longrightarrow> mp_write mp m pk = Some (q, Inr i) \<Longrightarrow>
      0 < free m \<Longrightarrow> n = next_id mp m c \<Longrightarrow> unat n + 1 < 2 ^ 32 \<Longrightarrow>
      \<exists>s j. mp_create mp (mp_set_page mp q i pg0) c = Some (s, Inr j) \<and> blank_page (mp_page mp s j) n \<and>
        (\<forall>a. mp_page mp (mp_set_page mp s j a) j = a) \<and>
        (\<forall>pg1. carries pg1 n \<longrightarrow> mp_page mp (mp_put mp s j pg1) i = pg0 \<and>
          (\<forall>pg2 r. carries pg2 (snd (p_key pk)) \<longrightarrow> r = mp_put mp (mp_put mp s j pg1) i pg2 \<longrightarrow>
             inv r \<and> pages r = (pages m)((c, n) \<mapsto> pg1, p_key pk \<mapsto> pg2) \<and> free m \<le> Suc (free r) \<and>
             mp_max_page_id mp r = (mp_max_page_id mp m)(c \<mapsto> n + 1)))"
    and create_create: "inv m \<Longrightarrow> mp_create mp m c = Some (q, Inr i) \<Longrightarrow>
      1 < free m \<Longrightarrow> n = next_id mp m c \<Longrightarrow> unat n + 2 < 2 ^ 32 \<Longrightarrow>
      \<exists>s j. mp_create mp (mp_set_page mp q i pg0) c = Some (s, Inr j) \<and> blank_page (mp_page mp s j) (n + 1) \<and>
        (\<forall>a. mp_page mp (mp_set_page mp s j a) j = a) \<and>
        (\<forall>pg1. carries pg1 (n + 1) \<longrightarrow> mp_page mp (mp_put mp s j pg1) i = pg0 \<and>
          (\<forall>pg2 r. carries pg2 n \<longrightarrow> r = mp_put mp (mp_put mp s j pg1) i pg2 \<longrightarrow>
             inv r \<and> pages r = (pages m)((c, n) \<mapsto> pg2, (c, n + 1) \<mapsto> pg1) \<and> free m \<le> free r + 2 \<and>
             mp_max_page_id mp r = (mp_max_page_id mp m)(c \<mapsto> n + 2)))"

section \<open>The buffer pool\<close>

text \<open>Creating a page looks only at the frame of the first hint: it commutes with any change of another frame.\<close>

lemma create_in_hint:
  assumes h: "eviction_hints bp = j # hs" "j < length (frames bp)" "latch (frames bp ! j) = 0" "key (frames bp ! j) = None"
    and l: "bp_latch bp = 0"
  shows "bp_create_new_page_for_write ps bp c = do {
     (cat, _) \<leftarrow> get_container ps (cfc bp) c;
     (cat, pid) \<leftarrow> inc_page_count cat c 1;
     m \<leftarrow> ptf_insert (page_to_frame bp) (c, pid) (unat (frame_id (frames bp ! j)));
     pg \<leftarrow> set_page_id (page (frames bp ! j)) pid;
     Some (bp\<lparr>cfc := cat, eviction_hints := hs, page_to_frame := m, frames := (frames bp)[j :=
       (frames bp ! j)\<lparr>latch := - 1, page := pg, key := Some (c, pid), is_dirty := True\<rparr>]\<rparr>, Inr j) }"
proof -
  let ?v = "bp\<lparr>frames := (frames bp)[j := (frames bp ! j)\<lparr>latch := - 1\<rparr>], eviction_hints := hs\<rparr>"
  have rel: "bp_release_exclusive (?v\<lparr>bp_latch := - 1, cfc := cat, page_to_frame := m\<rparr>) = ?v\<lparr>cfc := cat, page_to_frame := m\<rparr>"
    for cat m using l by (simp add: bp_release_exclusive_def release_exclusive_def)
  show ?thesis
    using choose_victim_hint [OF h(1-3)] write_victim_empty [of j ?v ps] h bp_exclusive_free [of ?v] l rel
    by (simp add: bp_create_new_page_for_write_def forget_old_def bind_page_def upd_frame_def bind_eq_None_conv
        split: Option.bind_splits)
qed

lemma create_other_frame:
  assumes h: "eviction_hints bp = j # hs" "j < length (frames bp)" "latch (frames bp ! j) = 0" "key (frames bp ! j) = None"
    and l: "bp_latch bp = 0" and i: "i \<noteq> j" and run: "bp_create_new_page_for_write ps bp c = Some (r, Inr j')"
  shows "bp_create_new_page_for_write ps (upd_frame bp i g) c = Some (upd_frame r i g, Inr j')"
    "j' = j" "frames r ! i = frames bp ! i" "length (frames r) = length (frames bp)"
proof -
  have h': "eviction_hints (upd_frame bp i g) = j # hs" "j < length (frames (upd_frame bp i g))"
    "latch (frames (upd_frame bp i g) ! j) = 0" "key (frames (upd_frame bp i g) ! j) = None" "bp_latch (upd_frame bp i g) = 0"
    using h l i by simp_all
  show "bp_create_new_page_for_write ps (upd_frame bp i g) c = Some (upd_frame r i g, Inr j')"
    "j' = j" "frames r ! i = frames bp ! i" "length (frames r) = length (frames bp)"
    using run i unfolding create_in_hint [OF h'] create_in_hint [OF h l]
    by (auto simp: upd_frame_def list_update_swap split: Option.bind_splits)
qed

abbreviation put_frame :: "'f BufferPool \<Rightarrow> nat \<Rightarrow> Page \<Rightarrow> 'f BufferPool" where
  "put_frame bp i pg \<equiv> upd_frame bp i (\<lambda>fr. fr\<lparr>page := pg, latch := 0\<rparr>)"

text \<open>The guard of frame \<open>i\<close> is held and stores \<open>pg0\<close>; a page is created; both guards are dropped. The outcome is that of
  dropping the first guard before the creation.\<close>

lemma create_while_held:
  assumes px: "posix_ok ps content" and i: "i < length (frames q)" "key (frames q ! i) = Some k"
    and ok: "pool_ok content (put_frame q i pg2)" "0 < bp_free (put_frame q i pg2)"
    and n: "n = next_id (bp_pool ps) (put_frame q i pg2) c" "unat n + 1 < 2 ^ 32"
  shows "\<exists>s j. bp_create_new_page_for_write ps (upd_frame q i (\<lambda>fr. fr\<lparr>page := pg0\<rparr>)) c = Some (s, Inr j) \<and>
    blank_page (page (frames s ! j)) n \<and> j < length (frames s) \<and> i \<noteq> j \<and> i < length (frames s) \<and> page (frames s ! i) = pg0 \<and>
    (\<forall>pg1. carries pg1 n \<longrightarrow> (let r = put_frame (put_frame s j pg1) i pg2; b = put_frame q i pg2 in
       pool_ok content r \<and> bp_page content r = (bp_page content b)((c, n) \<mapsto> pg1) \<and> bp_free b \<le> Suc (bp_free r) \<and>
       bp_get_max_page_id r = (bp_get_max_page_id b)(c \<mapsto> n + 1)))"
proof -
  let ?b = "put_frame q i pg2" and ?F = "(frames q ! i)\<lparr>page := pg0\<rparr>"
  have bo: "bp_ok content ?b" using ok(1) by (simp add: pool_ok_def)
  have "card {x. is_pkey ?b x} < length (frames ?b)" using ok(2) by (simp add: bp_free_def)
  then obtain j hs where h: "eviction_hints ?b = j # hs" "j < length (frames ?b)" "key (frames ?b ! j) = None"
    using hint_frame [OF bo hint_available_new [OF bo]] by blast
  have ij: "i \<noteq> j" using h(3) i by auto
  have lj: "latch (frames ?b ! j) = 0" and lb: "bp_latch ?b = 0" using bp_okD(5) [OF bo h(2)] bp_okD(1) [OF bo] by simp_all
  have n': "n = (case bp_get_max_page_id ?b c of None \<Rightarrow> 0 | Some n \<Rightarrow> n)"
    using n(1) by (simp add: next_id_def bp_pool_def)
  obtain r j' where r: "bp_create_new_page_for_write ps ?b c = Some (r, Inr j')" "page_wf (page (frames r ! j'))"
    "get_page_id (page (frames r ! j')) = Some n" "slice (data (page (frames r ! j'))) 16 8 = replicate 8 0"
    "\<And>pg1. page_wf pg1 \<Longrightarrow> get_page_id pg1 = Some n \<Longrightarrow> (let r = mp_put (bp_pool ps) r j' pg1 in
      pool_ok content r \<and> bp_page content r = (bp_page content ?b)((c, n) \<mapsto> pg1) \<and> bp_free ?b \<le> Suc (bp_free r) \<and>
      bp_get_max_page_id r = (bp_get_max_page_id ?b)(c \<mapsto> n + 1))"
    using bp_create_law [OF px ok n' n(2)] by blast
  note co = create_other_frame [OF h(1,2) lj h(3) lb ij r(1)]
  have held: "upd_frame q i (\<lambda>fr. fr\<lparr>page := pg0\<rparr>) = upd_frame ?b i (\<lambda>_. ?F)" using i(1) by (simp add: upd_frame_def)
  let ?s = "upd_frame r i (\<lambda>_. ?F)"
  have len: "length (frames r) = length (frames q)" using co(4) by simp
  have both: "put_frame (put_frame ?s j pg1) i pg2 = put_frame r j pg1" for pg1
  proof -
    have "frames r ! i = ?F\<lparr>page := pg2, latch := 0\<rparr>" using co(3) i(1) by simp
    then have "(frames r)[i := ?F, j := x, i := ?F\<lparr>page := pg2, latch := 0\<rparr>] = (frames r)[j := x]" for x
      using ij by (metis list_update_id list_update_overwrite list_update_swap)
    then show ?thesis using ij i(1) len by (simp add: upd_frame_def)
  qed
  have "page (frames ?s ! j) = page (frames r ! j)" using ij by simp
  then show ?thesis
    unfolding held using co(1) [of "\<lambda>_. ?F"] co(2) r(2-4) r(5) [unfolded put_eq Let_def] h(2) len ij i(1) both
    by (intro exI [of _ ?s] exI [of _ j]) (simp add: blank_page_def carries_def Let_def)
qed

lemma bp_write_create:
  assumes px: "posix_ok ps content" and ok: "pool_ok content m" and pg: "bp_page content m (p_key pk) = Some pg"
    and run: "bp_get_page_for_write ps m pk = Some (q, Inr i)" and free: "0 < bp_free m"
    and n: "n = next_id (bp_pool ps) m c" "unat n + 1 < 2 ^ 32"
  shows "\<exists>s j. bp_create_new_page_for_write ps (upd_frame q i (\<lambda>fr. fr\<lparr>page := pg0\<rparr>)) c = Some (s, Inr j) \<and>
    blank_page (page (frames s ! j)) n \<and> j < length (frames s) \<and> i \<noteq> j \<and> i < length (frames s) \<and> page (frames s ! i) = pg0 \<and>
    (\<forall>pg1 pg2. carries pg1 n \<longrightarrow> carries pg2 (snd (p_key pk)) \<longrightarrow> (let r = put_frame (put_frame s j pg1) i pg2 in
       pool_ok content r \<and> bp_page content r = (bp_page content m)((c, n) \<mapsto> pg1, p_key pk \<mapsto> pg2) \<and>
       bp_free m \<le> Suc (bp_free r) \<and> bp_get_max_page_id r = (bp_get_max_page_id m)(c \<mapsto> n + 1)))"
proof -
  have bo: "bp_ok content m" using ok by (simp add: pool_ok_def)
  obtain q' i' where "bp_get_page_for_write ps m pk = Some (q', Inr i')" "fetched content m (p_key pk) (- 1) True q' i'"
    by (rule get_page_for_write_ok [OF px bo pkey_page [OF pg] refl])
  then have i: "i < length (frames q)" "key (frames q ! i) = Some (p_key pk)" using run by (simp_all add: fetched_def)
  have put: "pool_ok content (put_frame q i pg2)" "bp_page content (put_frame q i pg2) = (bp_page content m)(p_key pk \<mapsto> pg2)"
    "bp_free (put_frame q i pg2) = bp_free m" "bp_get_max_page_id (put_frame q i pg2) = bp_get_max_page_id m"
    if "carries pg2 (snd (p_key pk))" for pg2
    using bp_write_law [OF px ok pg] run that by (auto simp: carries_def put_eq Let_def)
  have pgc: "carries pg (snd (p_key pk))" using bp_page_Some [OF bo pkey_page [OF pg]] pg by (auto simp: carries_def)
  have ne: "p_key pk \<noteq> (c, n)"
  proof
    assume "p_key pk = (c, n)"
    then have "\<exists>k. bp_get_max_page_id m c = Some k \<and> n < k" using bp_page_key [OF bo, of c n] pg by simp
    then show False using n(1) by (auto simp: next_id_def bp_pool_def)
  qed
  have nx: "n = next_id (bp_pool ps) (put_frame q i pg2) c" if "carries pg2 (snd (p_key pk))" for pg2
    using n(1) put(4) [OF that] by (simp add: next_id_def bp_pool_def)
  obtain s j where s: "bp_create_new_page_for_write ps (upd_frame q i (\<lambda>fr. fr\<lparr>page := pg0\<rparr>)) c = Some (s, Inr j)"
    "blank_page (page (frames s ! j)) n" "j < length (frames s)" "i \<noteq> j" "i < length (frames s)" "page (frames s ! i) = pg0"
    using create_while_held [OF px i put(1) [OF pgc] _ nx [OF pgc] n(2), of pg0] put(3) [OF pgc] free by auto
  have "let r = put_frame (put_frame s j pg1) i pg2 in
       pool_ok content r \<and> bp_page content r = (bp_page content m)((c, n) \<mapsto> pg1, p_key pk \<mapsto> pg2) \<and>
       bp_free m \<le> Suc (bp_free r) \<and> bp_get_max_page_id r = (bp_get_max_page_id m)(c \<mapsto> n + 1)"
    if "carries pg1 n" "carries pg2 (snd (p_key pk))" for pg1 pg2
    using create_while_held [OF px i put(1) [OF that(2)] _ nx [OF that(2)] n(2), of pg0] put [OF that(2)] free s(1) that(1) ne
    by (auto simp: Let_def fun_upd_twist)
  then show ?thesis using s by blast
qed

lemma bp_create_create:
  assumes px: "posix_ok ps content" and ok: "pool_ok content m"
    and run: "bp_create_new_page_for_write ps m c = Some (q, Inr i)" and free: "1 < bp_free m"
    and n: "n = next_id (bp_pool ps) m c" "unat n + 2 < 2 ^ 32"
  shows "\<exists>s j. bp_create_new_page_for_write ps (upd_frame q i (\<lambda>fr. fr\<lparr>page := pg0\<rparr>)) c = Some (s, Inr j) \<and>
    blank_page (page (frames s ! j)) (n + 1) \<and> j < length (frames s) \<and> i \<noteq> j \<and> i < length (frames s) \<and> page (frames s ! i) = pg0 \<and>
    (\<forall>pg1 pg2. carries pg1 (n + 1) \<longrightarrow> carries pg2 n \<longrightarrow> (let r = put_frame (put_frame s j pg1) i pg2 in
       pool_ok content r \<and> bp_page content r = (bp_page content m)((c, n) \<mapsto> pg2, (c, n + 1) \<mapsto> pg1) \<and>
       bp_free m \<le> bp_free r + 2 \<and> bp_get_max_page_id r = (bp_get_max_page_id m)(c \<mapsto> n + 2)))"
proof -
  have bo: "bp_ok content m" using ok by (simp add: pool_ok_def)
  have n': "n = (case bp_get_max_page_id m c of None \<Rightarrow> 0 | Some n \<Rightarrow> n)" "unat n + 1 < 2 ^ 32"
    "unat (n + 1) + 1 < 2 ^ 32" "n + 1 + 1 = n + 2"
    using n by (simp_all add: next_id_def bp_pool_def unat_word_ariths)
  have np: "next_page m c n"
    using n'(1) by (auto simp: next_page_def bp_get_max_page_id_def get_container_page_count_def split: option.splits)
  have card: "card {x. is_pkey m x} < length (frames m)" and f0: "0 < bp_free m" using free by (simp_all add: bp_free_def)
  obtain q' i' where "bp_create_new_page_for_write ps m c = Some (q', Inr i')" "created content m (c, n) q' i'"
    by (rule create_new_page_ok [OF px bo card np n'(2)])
  then have i: "i < length (frames q)" "key (frames q ! i) = Some (c, n)" and pgc: "carries (page (frames q ! i)) n"
    using run by (simp_all add: created_def carries_def)
  have put: "pool_ok content (put_frame q i pg2)" "bp_page content (put_frame q i pg2) = (bp_page content m)((c, n) \<mapsto> pg2)"
    "bp_free m \<le> Suc (bp_free (put_frame q i pg2))" "bp_get_max_page_id (put_frame q i pg2) = (bp_get_max_page_id m)(c \<mapsto> n + 1)"
    if "carries pg2 n" for pg2
    using bp_create_law [OF px ok f0 n'(1,2)] run that by (auto simp: carries_def put_eq Let_def)
  have nx: "n + 1 = next_id (bp_pool ps) (put_frame q i pg2) c" and fr: "0 < bp_free (put_frame q i pg2)" if "carries pg2 n" for pg2
    using put(3,4) [OF that] free by (simp_all add: next_id_def bp_pool_def)
  obtain s j where s: "bp_create_new_page_for_write ps (upd_frame q i (\<lambda>fr. fr\<lparr>page := pg0\<rparr>)) c = Some (s, Inr j)"
    "blank_page (page (frames s ! j)) (n + 1)" "j < length (frames s)" "i \<noteq> j" "i < length (frames s)" "page (frames s ! i) = pg0"
    using create_while_held [OF px i put(1) [OF pgc] fr [OF pgc] nx [OF pgc] n'(3), of pg0] by auto
  have "let r = put_frame (put_frame s j pg1) i pg2 in
       pool_ok content r \<and> bp_page content r = (bp_page content m)((c, n) \<mapsto> pg2, (c, n + 1) \<mapsto> pg1) \<and>
       bp_free m \<le> bp_free r + 2 \<and> bp_get_max_page_id r = (bp_get_max_page_id m)(c \<mapsto> n + 2)"
    if c: "carries pg1 (n + 1)" "carries pg2 n" for pg1 pg2
    using create_while_held [OF px i put(1) [OF c(2)] fr [OF c(2)] nx [OF c(2)] n'(3), of pg0] put [OF c(2)] s(1) c(1) n'(4)
    by (auto simp: Let_def)
  then show ?thesis using s by blast
qed

lemma bp_nested_pool:
  assumes px: "posix_ok ps content"
  shows "nested_pool (bp_pool ps) (pool_ok content) (bp_page content) bp_free"
proof (intro nested_pool.intro bp_mem_pool [OF px] nested_pool_axioms.intro)
  have ops: "mp_create (bp_pool ps) = bp_create_new_page_for_write ps" "mp_write (bp_pool ps) = bp_get_page_for_write ps"
    "mp_max_page_id (bp_pool ps) = bp_get_max_page_id" "\<And>m i pg. mp_set_page (bp_pool ps) m i pg = upd_frame m i (\<lambda>fr. fr\<lparr>page := pg\<rparr>)"
    "\<And>m i. mp_page (bp_pool ps) m i = page (frames m ! i)"
    by (simp_all add: bp_pool_def)
  {
    fix m i a b
    show "mp_set_page (bp_pool ps) (mp_set_page (bp_pool ps) m i a) i b = mp_set_page (bp_pool ps) m i b"
      by (cases "i < length (frames m)") (simp_all add: bp_pool_def upd_frame_def list_update_beyond)
  next
    fix m pk pg q i a
    assume m: "pool_ok content m" "bp_page content m (p_key pk) = Some pg" and r: "mp_write (bp_pool ps) m pk = Some (q, Inr i)"
    have bo: "bp_ok content m" using m(1) by (simp add: pool_ok_def)
    obtain q' i' where "bp_get_page_for_write ps m pk = Some (q', Inr i')" "fetched content m (p_key pk) (- 1) True q' i'"
      by (rule get_page_for_write_ok [OF px bo pkey_page [OF m(2)] refl])
    then show "mp_page (bp_pool ps) (mp_set_page (bp_pool ps) q i a) i = a" using r by (simp add: ops fetched_def)
  next
    fix m c q i a
    assume m: "pool_ok content m" "0 < bp_free m" and n: "unat (next_id (bp_pool ps) m c) + 1 < 2 ^ 32"
      and r: "mp_create (bp_pool ps) m c = Some (q, Inr i)"
    have bo: "bp_ok content m" using m(1) by (simp add: pool_ok_def)
    have np: "next_page m c (next_id (bp_pool ps) m c)"
      by (auto simp: next_page_def ops next_id_def bp_get_max_page_id_def get_container_page_count_def split: option.splits)
    have card: "card {x. is_pkey m x} < length (frames m)" using m(2) by (simp add: bp_free_def)
    obtain q' i' where "bp_create_new_page_for_write ps m c = Some (q', Inr i')"
      "created content m (c, next_id (bp_pool ps) m c) q' i'"
      by (rule create_new_page_ok [OF px bo card np n])
    then show "mp_page (bp_pool ps) (mp_set_page (bp_pool ps) q i a) i = a" using r by (simp add: ops created_def)
  next
    fix m pk pg q i n c pg0
    assume m: "pool_ok content m" "bp_page content m (p_key pk) = Some pg" "mp_write (bp_pool ps) m pk = Some (q, Inr i)"
      "0 < bp_free m" "n = next_id (bp_pool ps) m c" "unat n + 1 < 2 ^ 32"
    obtain s j where s: "bp_create_new_page_for_write ps (upd_frame q i (\<lambda>fr. fr\<lparr>page := pg0\<rparr>)) c = Some (s, Inr j)"
      "blank_page (page (frames s ! j)) n" "j < length (frames s)" "i \<noteq> j" "page (frames s ! i) = pg0"
      and put: "\<And>pg1 pg2 r. carries pg1 n \<Longrightarrow> carries pg2 (snd (p_key pk)) \<Longrightarrow> r = put_frame (put_frame s j pg1) i pg2 \<Longrightarrow>
         pool_ok content r \<and> bp_page content r = (bp_page content m)((c, n) \<mapsto> pg1, p_key pk \<mapsto> pg2) \<and>
         bp_free m \<le> Suc (bp_free r) \<and> bp_get_max_page_id r = (bp_get_max_page_id m)(c \<mapsto> n + 1)"
      using bp_write_create [OF px m(1,2) _ m(4-6), of q i pg0] m(3) unfolding ops Let_def by blast
    then show "\<exists>s j. mp_create (bp_pool ps) (mp_set_page (bp_pool ps) q i pg0) c = Some (s, Inr j) \<and>
        blank_page (mp_page (bp_pool ps) s j) n \<and> (\<forall>a. mp_page (bp_pool ps) (mp_set_page (bp_pool ps) s j a) j = a) \<and>
        (\<forall>pg1. carries pg1 n \<longrightarrow> mp_page (bp_pool ps) (mp_put (bp_pool ps) s j pg1) i = pg0 \<and>
          (\<forall>pg2 r. carries pg2 (snd (p_key pk)) \<longrightarrow> r = mp_put (bp_pool ps) (mp_put (bp_pool ps) s j pg1) i pg2 \<longrightarrow>
             pool_ok content r \<and> bp_page content r = (bp_page content m)((c, n) \<mapsto> pg1, p_key pk \<mapsto> pg2) \<and>
             bp_free m \<le> Suc (bp_free r) \<and> mp_max_page_id (bp_pool ps) r = (mp_max_page_id (bp_pool ps) m)(c \<mapsto> n + 1)))"
      unfolding put_eq unfolding ops by (intro exI [of _ s] exI [of _ j]) simp
  next
    fix m c q i n pg0
    assume m: "pool_ok content m" "mp_create (bp_pool ps) m c = Some (q, Inr i)"
      "1 < bp_free m" "n = next_id (bp_pool ps) m c" "unat n + 2 < 2 ^ 32"
    obtain s j where s: "bp_create_new_page_for_write ps (upd_frame q i (\<lambda>fr. fr\<lparr>page := pg0\<rparr>)) c = Some (s, Inr j)"
      "blank_page (page (frames s ! j)) (n + 1)" "j < length (frames s)" "i \<noteq> j" "page (frames s ! i) = pg0"
      and put: "\<And>pg1 pg2 r. carries pg1 (n + 1) \<Longrightarrow> carries pg2 n \<Longrightarrow> r = put_frame (put_frame s j pg1) i pg2 \<Longrightarrow>
         pool_ok content r \<and> bp_page content r = (bp_page content m)((c, n) \<mapsto> pg2, (c, n + 1) \<mapsto> pg1) \<and>
         bp_free m \<le> bp_free r + 2 \<and> bp_get_max_page_id r = (bp_get_max_page_id m)(c \<mapsto> n + 2)"
      using bp_create_create [OF px m(1) _ m(3-5), of q i pg0] m(2) unfolding ops Let_def by blast
    then show "\<exists>s j. mp_create (bp_pool ps) (mp_set_page (bp_pool ps) q i pg0) c = Some (s, Inr j) \<and>
        blank_page (mp_page (bp_pool ps) s j) (n + 1) \<and> (\<forall>a. mp_page (bp_pool ps) (mp_set_page (bp_pool ps) s j a) j = a) \<and>
        (\<forall>pg1. carries pg1 (n + 1) \<longrightarrow> mp_page (bp_pool ps) (mp_put (bp_pool ps) s j pg1) i = pg0 \<and>
          (\<forall>pg2 r. carries pg2 n \<longrightarrow> r = mp_put (bp_pool ps) (mp_put (bp_pool ps) s j pg1) i pg2 \<longrightarrow>
             pool_ok content r \<and> bp_page content r = (bp_page content m)((c, n) \<mapsto> pg2, (c, n + 1) \<mapsto> pg1) \<and>
             bp_free m \<le> bp_free r + 2 \<and> mp_max_page_id (bp_pool ps) r = (mp_max_page_id (bp_pool ps) m)(c \<mapsto> n + 2)))"
      unfolding put_eq unfolding ops by (intro exI [of _ s] exI [of _ j]) simp
  }
qed

interpretation bpn: nested_pool "bp_pool posix_mem" "pool_ok (\<lambda>f. f)" "bp_page (\<lambda>f. f)" bp_free
  by (rule bp_nested_pool [OF posix_mem_ok])

section \<open>The in-memory pool\<close>

abbreviation im_set :: "InMemPool \<Rightarrow> nat \<Rightarrow> BufferFrame \<Rightarrow> InMemPool" where
  "im_set m i fr \<equiv> m\<lparr>im_frames := (im_frames m)[i := fr]\<rparr>"

lemma im_put_eq: "mp_put im_pool q i pg = im_set q i ((im_frames q ! i)\<lparr>page := pg, latch := 0\<rparr>)"
  by (cases "i < length (im_frames q)")
    (simp_all add: im_pool_def write_guard_drop_def release_exclusive_def list_update_beyond)

lemma im_create_other_frame:
  assumes i: "i < length (im_frames m)" and run: "im_create_new_page_for_write m c = Some (r, Inr j)"
  shows "im_create_new_page_for_write (im_set m i fr) c = Some (im_set r i fr, Inr j)"
    "j = length (im_frames m)" "im_frames r ! i = im_frames m ! i" "length (im_frames r) = Suc (length (im_frames m))"
  using i run
  by (auto simp: im_create_new_page_for_write_def im_exclusive_def count_pages_def push_frame_def init_frame_def Let_def
      im_release_exclusive_def list_update_append nth_append split: Option.bind_splits option.splits)

lemma im_create_while_held:
  assumes i: "i < length (im_frames q)" and ok: "im_ok (mp_put im_pool q i pg2)"
    and n: "n = next_id im_pool (mp_put im_pool q i pg2) c" "unat n + 1 < 2 ^ 32"
  shows "\<exists>s j. mp_create im_pool (mp_set_page im_pool q i pg0) c = Some (s, Inr j) \<and>
    blank_page (mp_page im_pool s j) n \<and> (\<forall>a. mp_page im_pool (mp_set_page im_pool s j a) j = a) \<and>
    (\<forall>pg1. mp_page im_pool (mp_put im_pool s j pg1) i = pg0) \<and>
    (\<forall>pg1. carries pg1 n \<longrightarrow> (let r = mp_put im_pool (mp_put im_pool s j pg1) i pg2; b = mp_put im_pool q i pg2 in
       im_ok r \<and> im_page r = (im_page b)((c, n) \<mapsto> pg1) \<and> mp_max_page_id im_pool r = (mp_max_page_id im_pool b)(c \<mapsto> n + 1)))"
proof -
  let ?b = "mp_put im_pool q i pg2" and ?F = "(im_frames q ! i)\<lparr>page := pg0\<rparr>"
  have b: "?b = im_set q i ((im_frames q ! i)\<lparr>page := pg2, latch := 0\<rparr>)" by (rule im_put_eq)
  have n': "n = (case im_get_max_page_id ?b c of None \<Rightarrow> 0 | Some n \<Rightarrow> n)" using n(1) by (simp add: next_id_def im_pool_def)
  obtain r j where r: "im_create_new_page_for_write ?b c = Some (r, Inr j)" "blank_page (page (im_frames r ! j)) n"
    "\<And>pg1. carries pg1 n \<Longrightarrow> im_ok (mp_put im_pool r j pg1) \<and> im_page (mp_put im_pool r j pg1) = (im_page ?b)((c, n) \<mapsto> pg1) \<and>
       im_get_max_page_id (mp_put im_pool r j pg1) = (im_get_max_page_id ?b)(c \<mapsto> n + 1)"
    using im_create_law [OF ok n' n(2)] unfolding blank_page_def carries_def by blast
  have ib: "i < length (im_frames ?b)" using i by (simp add: b)
  note co = im_create_other_frame [OF ib r(1)]
  have held: "mp_set_page im_pool q i pg0 = im_set ?b i ?F" using i by (simp add: b) (simp add: im_pool_def)
  let ?s = "im_set r i ?F"
  have ij: "i \<noteq> j" "i < length (im_frames r)" "j < length (im_frames r)" using co(2,4) i by (simp_all add: b)
  have fi: "im_frames r ! i = ?F\<lparr>page := pg2, latch := 0\<rparr>" using co(3) i by (simp add: b)
  then have "(im_frames r)[i := ?F, j := x, i := ?F\<lparr>page := pg2, latch := 0\<rparr>] = (im_frames r)[j := x]" for x
    using ij by (metis list_update_id list_update_overwrite list_update_swap)
  then have both: "mp_put im_pool (mp_put im_pool ?s j pg1) i pg2 = mp_put im_pool r j pg1" for pg1
    using ij by (simp add: im_put_eq)
  have run: "mp_create im_pool (mp_set_page im_pool q i pg0) c = Some (?s, Inr j)"
    unfolding held using co(1) [of ?F] by (simp add: im_pool_def)
  have "mp_page im_pool (mp_put im_pool ?s j pg1) i = pg0" "mp_page im_pool ?s j = page (im_frames r ! j)"
    "mp_page im_pool (mp_set_page im_pool ?s j pg1) j = pg1" for pg1
    unfolding im_put_eq using ij by (simp_all add: im_pool_def)
  moreover have "mp_max_page_id im_pool = im_get_max_page_id" by (simp add: im_pool_def)
  ultimately show ?thesis using run r(2,3) both by (intro exI [of _ ?s] exI [of _ j]) (simp add: Let_def)
qed

lemma im_write_bound: "mp_write im_pool m pk = Some (q, Inr i) \<Longrightarrow> i < length (im_frames q)"
  by (auto simp: im_pool_def im_get_page_for_write_def im_release_shared_def index_def Let_def
      split: Option.bind_splits option.splits prod.splits if_splits)

lemma im_create_bound: "mp_create im_pool m c = Some (q, Inr i) \<Longrightarrow> i < length (im_frames q)"
  by (auto simp: im_pool_def im_create_new_page_for_write_def init_frame_def im_release_exclusive_def index_def
      split: Option.bind_splits prod.splits if_splits)

lemma im_page_set: "i < length (im_frames q) \<Longrightarrow> mp_page im_pool (mp_set_page im_pool q i a) i = a"
  by (simp add: im_pool_def)

lemma im_nested_pool: "nested_pool im_pool im_ok im_page (\<lambda>_. n)"
proof (intro nested_pool.intro im_mem_pool nested_pool_axioms.intro)
  fix m i a b
  show "mp_set_page im_pool (mp_set_page im_pool m i a) i b = mp_set_page im_pool m i b"
    by (cases "i < length (im_frames m)") (simp_all add: im_pool_def list_update_beyond)
next
  fix m pk pg q i a
  assume m: "im_ok m" "im_page m (p_key pk) = Some pg" "mp_write im_pool m pk = Some (q, Inr i)"
  then show "mp_page im_pool (mp_set_page im_pool q i a) i = a"
    using im_page_set im_write_bound by blast
next
  show "mp_page im_pool (mp_set_page im_pool q i a) i = a" if "mp_create im_pool m c = Some (q, Inr i)" for m c q i a
    using im_page_set im_create_bound that by blast
next
  fix m pk pg q i k c pg0
  assume m: "im_ok m" "im_page m (p_key pk) = Some pg" "mp_write im_pool m pk = Some (q, Inr i)"
    "k = next_id im_pool m c" "unat k + 1 < 2 ^ 32"
  show "\<exists>s j. mp_create im_pool (mp_set_page im_pool q i pg0) c = Some (s, Inr j) \<and>
      blank_page (mp_page im_pool s j) k \<and> (\<forall>a. mp_page im_pool (mp_set_page im_pool s j a) j = a) \<and>
      (\<forall>pg1. carries pg1 k \<longrightarrow> mp_page im_pool (mp_put im_pool s j pg1) i = pg0 \<and>
        (\<forall>pg2 r. carries pg2 (snd (p_key pk)) \<longrightarrow> r = mp_put im_pool (mp_put im_pool s j pg1) i pg2 \<longrightarrow>
           im_ok r \<and> im_page r = (im_page m)((c, k) \<mapsto> pg1, p_key pk \<mapsto> pg2) \<and>
           n \<le> Suc n \<and> mp_max_page_id im_pool r = (mp_max_page_id im_pool m)(c \<mapsto> k + 1)))"
  proof -
    have i: "i < length (im_frames q)" by (rule im_write_bound [OF m(3)])
    have put: "im_ok (mp_put im_pool q i pg2)" "im_page (mp_put im_pool q i pg2) = (im_page m)(p_key pk \<mapsto> pg2)"
      "mp_max_page_id im_pool (mp_put im_pool q i pg2) = mp_max_page_id im_pool m" if "carries pg2 (snd (p_key pk))" for pg2
      using im_write_law [OF m(1,2)] m(3) that by (auto simp: carries_def im_pool_def)
    have pgc: "carries pg (snd (p_key pk))" using im_fetch [OF m(1,2)] unfolding carries_def by blast
    have ne: "p_key pk \<noteq> (c, k)"
      using mem_pool.page_key [OF im_mem_pool m(1), of c k] m(2,4) by (auto simp: next_id_def)
    have nx: "k = next_id im_pool (mp_put im_pool q i pg2) c" if "carries pg2 (snd (p_key pk))" for pg2
      using m(4) put(3) [OF that] by (simp add: next_id_def)
    note held = im_create_while_held [OF i put(1) nx m(5), of _ pg0]
    obtain s j where s: "mp_create im_pool (mp_set_page im_pool q i pg0) c = Some (s, Inr j)" "blank_page (mp_page im_pool s j) k"
      "\<forall>a. mp_page im_pool (mp_set_page im_pool s j a) j = a" "\<forall>pg1. mp_page im_pool (mp_put im_pool s j pg1) i = pg0"
      using held [OF pgc pgc] by blast
    have "im_ok r \<and> im_page r = (im_page m)((c, k) \<mapsto> pg1, p_key pk \<mapsto> pg2) \<and> n \<le> Suc n \<and>
        mp_max_page_id im_pool r = (mp_max_page_id im_pool m)(c \<mapsto> k + 1)"
      if "carries pg1 k" "carries pg2 (snd (p_key pk))" "r = mp_put im_pool (mp_put im_pool s j pg1) i pg2" for pg1 pg2 r
      using held [OF that(2) that(2)] put [OF that(2)] s(1) that(1,3) ne by (auto simp: Let_def fun_upd_twist)
    then show ?thesis using s by blast
  qed
next
  fix m c q i k pg0
  assume m: "im_ok m" "mp_create im_pool m c = Some (q, Inr i)" "k = next_id im_pool m c" "unat k + 2 < 2 ^ 32"
  show "\<exists>s j. mp_create im_pool (mp_set_page im_pool q i pg0) c = Some (s, Inr j) \<and>
      blank_page (mp_page im_pool s j) (k + 1) \<and> (\<forall>a. mp_page im_pool (mp_set_page im_pool s j a) j = a) \<and>
      (\<forall>pg1. carries pg1 (k + 1) \<longrightarrow> mp_page im_pool (mp_put im_pool s j pg1) i = pg0 \<and>
        (\<forall>pg2 r. carries pg2 k \<longrightarrow> r = mp_put im_pool (mp_put im_pool s j pg1) i pg2 \<longrightarrow>
           im_ok r \<and> im_page r = (im_page m)((c, k) \<mapsto> pg2, (c, k + 1) \<mapsto> pg1) \<and>
           n \<le> n + 2 \<and> mp_max_page_id im_pool r = (mp_max_page_id im_pool m)(c \<mapsto> k + 2)))"
  proof -
    have i: "i < length (im_frames q)" by (rule im_create_bound [OF m(2)])
    have k: "k = (case im_get_max_page_id m c of None \<Rightarrow> 0 | Some n \<Rightarrow> n)" "unat k + 1 < 2 ^ 32" "unat (k + 1) + 1 < 2 ^ 32"
      "k + 1 + 1 = k + 2"
      using m(3,4) by (simp_all add: next_id_def im_pool_def unat_word_ariths)
    have put: "im_ok (mp_put im_pool q i pg2)" "im_page (mp_put im_pool q i pg2) = (im_page m)((c, k) \<mapsto> pg2)"
      "mp_max_page_id im_pool (mp_put im_pool q i pg2) = (mp_max_page_id im_pool m)(c \<mapsto> k + 1)" if "carries pg2 k" for pg2
      using im_create_law [OF m(1) k(1,2)] m(2) that by (auto simp: carries_def im_pool_def)
    obtain pgc where pgc: "carries pgc k"
      using im_create_law [OF m(1) k(1,2)] by (auto simp: carries_def)
    have nx: "k + 1 = next_id im_pool (mp_put im_pool q i pg2) c" if "carries pg2 k" for pg2
      using put(3) [OF that] by (simp add: next_id_def)
    note held = im_create_while_held [OF i put(1) nx k(3), of _ pg0]
    obtain s j where s: "mp_create im_pool (mp_set_page im_pool q i pg0) c = Some (s, Inr j)" "blank_page (mp_page im_pool s j) (k + 1)"
      "\<forall>a. mp_page im_pool (mp_set_page im_pool s j a) j = a" "\<forall>pg1. mp_page im_pool (mp_put im_pool s j pg1) i = pg0"
      using held [OF pgc pgc] by blast
    have "im_ok r \<and> im_page r = (im_page m)((c, k) \<mapsto> pg2, (c, k + 1) \<mapsto> pg1) \<and> n \<le> n + 2 \<and>
        mp_max_page_id im_pool r = (mp_max_page_id im_pool m)(c \<mapsto> k + 2)"
      if "carries pg1 (k + 1)" "carries pg2 k" "r = mp_put im_pool (mp_put im_pool s j pg1) i pg2" for pg1 pg2 r
      using held [OF that(2) that(2)] put [OF that(2)] s(1) that(1,3) k(4) by (auto simp: Let_def)
    then show ?thesis using s by blast
  qed
qed

interpretation imn: nested_pool im_pool im_ok im_page "\<lambda>_. 2 ^ 48"
  by (rule im_nested_pool)

end
