(* ===== verification/BTreeNodes.thy ===== *)
theory BTreeNodes
  imports BTree NestedGuards "HOL-Library.Multiset"
begin

text \<open>
  Nodes of the B+ tree as bags of entries. The slotted page is first described by the bag of the values it stores and by
  the bytes these take; then every operation on a node is described by what it does to the bag of its entries, in
  whatever slots they lie.
\<close>

section \<open>Loops over the entries of a page\<close>

primrec fold_until :: "('s \<Rightarrow> 'a \<Rightarrow> 'r + 's) \<Rightarrow> 'a list \<Rightarrow> 's \<Rightarrow> 'r + 's" where
  "fold_until f [] s = Inr s"
| "fold_until f (x # xs) s = (case f s x of Inl r \<Rightarrow> Inl r | Inr s \<Rightarrow> fold_until f xs s)"

lemma for_entries_fold:
  assumes "layout_ok (data (iter_page it))" and "length (entries_from (iter_page it) (unat (current_slot it))) < n"
  shows "for_entries n body it s =
    Some (fold_until (\<lambda>s (b, sid). body s b sid) (entries_from (iter_page it) (unat (current_slot it))) s)"
  using assms
proof (induction n arbitrary: it s)
  case (Suc n)
  show ?case
  proof (cases "entries_from (iter_page it) (unat (current_slot it))")
    case Nil
    with page_iter.nxt_Nil [OF Suc.prems(1)] show ?thesis by auto
  next
    case (Cons x xs)
    with page_iter.nxt_Cons [OF Suc.prems(1)] obtain it' where
      it': "heap_iter_next it = Some (it', Some x)" "layout_ok (data (iter_page it'))"
      "entries_from (iter_page it') (unat (current_slot it')) = xs" by blast
    with Suc.IH [OF it'(2)] Suc.prems(2) Cons show ?thesis by (auto split: prod.split sum.split)
  qed
qed simp

lemma for_page_fold:
  assumes ok: "layout_ok (data pg)"
  shows "for_page body pg s = Some (fold_until (\<lambda>s (b, sid). body s b sid) (entries pg) s)"
proof -
  have "length (entries pg) \<le> nslots (data pg)"
    using length_filter_le [of "\<lambda>i. slot_len (data pg) i \<noteq> 0" "[0..<nslots (data pg)]"] by (simp add: entries_def entries_from_def)
  then have "length (entries pg) < 65537" using nslots_bound [OF ok] by simp
  then show ?thesis
    using for_entries_fold [of "heap_iter pg" 65537 body s] ok by (simp add: for_page_def heap_iter_def entries_def)
qed

section \<open>The bag of values of a page\<close>

definition stored :: "Page \<Rightarrow> bytes multiset" where
  "stored p = image_mset fst (mset (entries p))"

definition slots_of :: "Page \<Rightarrow> (bytes \<times> SlotId) set" where
  "slots_of p = {(v, s). heap_view p s = Some v}"

lemma mset_entries:
  assumes ok: "layout_ok (data p)"
  shows "mset (entries p) = mset_set (slots_of p)" "finite (slots_of p)"
proof -
  have "distinct (map snd (entries p))"
    using sorted_entries [OF ok] strict_sorted_iff by blast
  then have "distinct (entries p)" by (simp add: distinct_map)
  then show "mset (entries p) = mset_set (slots_of p)"
    using set_entries [OF ok] by (metis mset_set_set slots_of_def)
  show "finite (slots_of p)" using set_entries [OF ok] by (metis List.finite_set slots_of_def)
qed

lemma stored_put:
  assumes ok: "layout_ok (data p)" "layout_ok (data q)" and v: "heap_view p s = None" "heap_view q = (heap_view p)(s \<mapsto> v)"
  shows "stored q = add_mset v (stored p)"
proof -
  have "slots_of q = insert (v, s) (slots_of p)" "(v, s) \<notin> slots_of p" using v by (auto simp: slots_of_def)
  then show ?thesis using mset_entries [OF ok(1)] mset_entries [OF ok(2)] by (simp add: stored_def)
qed

lemma stored_remove:
  assumes ok: "layout_ok (data p)" "layout_ok (data q)" and v: "heap_view p s = Some v" "heap_view q = (heap_view p)(s := None)"
  shows "stored p = add_mset v (stored q)"
  using v by (intro stored_put [OF ok(2,1), of s]) (auto simp: fun_eq_iff)

text \<open>The bytes and the slots that the values take.\<close>

definition weight :: "bytes multiset \<Rightarrow> nat" where
  "weight V = sum_mset (image_mset length V)"

lemma weight_simps [simp]:
  "weight {#} = 0" "weight (add_mset v V) = length v + weight V" "weight (U + V) = weight U + weight V"
  by (simp_all add: weight_def)

lemma length_slot_val: "layout_ok d \<Longrightarrow> i < nslots d \<Longrightarrow> slot_len d i \<noteq> 0 \<Longrightarrow> length (slot_val d i) = slot_len d i"
  using layout_okD(1,6) [of d] by (simp add: slot_val_def)

lemma sum_filter_nz: "sum_list (map f (filter (\<lambda>i. f i \<noteq> 0) [0..<n])) = (\<Sum>i<n. f i)" for f :: "nat \<Rightarrow> nat"
  by (induction n) auto

lemma weight_stored:
  assumes ok: "layout_ok (data p)"
  shows "weight (stored p) = (\<Sum>i<nslots (data p). slot_len (data p) i)"
proof -
  let ?d = "data p"
  have "weight (stored p) = sum_list (map (\<lambda>i. length (slot_val ?d i)) (filter (\<lambda>i. slot_len ?d i \<noteq> 0) [0..<nslots ?d]))"
    unfolding weight_def stored_def entries_def entries_from_def
    by (simp flip: sum_mset_sum_list add: comp_def multiset.map_comp)
  also have "\<dots> = sum_list (map (slot_len ?d) (filter (\<lambda>i. slot_len ?d i \<noteq> 0) [0..<nslots ?d]))"
    using length_slot_val [OF ok] by (intro arg_cong [of _ _ sum_list] map_cong) auto
  finally show ?thesis unfolding sum_filter_nz .
qed

lemma free_bytes_stored:
  assumes ok: "layout_ok (data p)"
  shows "free_bytes p = 4072 - 4 * nslots (data p) - weight (stored p)" "4 * nslots (data p) + weight (stored p) \<le> 4072"
  using layout_okD(2,4) [OF ok] weight_stored [OF ok] by (simp_all add: free_bytes_def hdr_def)

lemma size_stored:
  assumes ok: "layout_ok (data p)"
  shows "size (stored p) \<le> nslots (data p)" "add_slot p < nslots (data p) \<longleftrightarrow> size (stored p) < nslots (data p)"
proof -
  let ?P = "\<lambda>i. slot_len (data p) i \<noteq> 0" and ?xs = "[0..<nslots (data p)]"
  have sz: "size (stored p) = length (filter ?P ?xs)"
    unfolding stored_def entries_def entries_from_def size_image_mset size_mset length_map ..
  show le: "size (stored p) \<le> nslots (data p)" using length_filter_le [of ?P ?xs] by (simp add: sz)
  have "\<not> add_slot p < nslots (data p) \<longleftrightarrow> (\<forall>i<nslots (data p). ?P i)"
    using add_slot_lowest [of p] unfolding lowest_free_def by (metis not_less order_less_le_trans)
  also have "\<dots> \<longleftrightarrow> filter ?P ?xs = ?xs" by (auto simp: filter_id_conv)
  also have "\<dots> \<longleftrightarrow> length (filter ?P ?xs) = length ?xs"
    by (metis filter_id_conv length_filter_less less_irrefl)
  finally show "add_slot p < nslots (data p) \<longleftrightarrow> size (stored p) < nslots (data p)" using le sz by auto
qed

section \<open>Encoded entries\<close>

text \<open>The keys \<open>K\<close> are those whose entries are encoded in 20 to 150 bytes and decoded again. An encoding with the names of
  the variants and fields, as serde_cbor has it, takes at least 23 bytes for an entry, and leaves some 80 bytes for a
  key.\<close>

fun entry_in :: "IndexKey set \<Rightarrow> NodeEntry \<Rightarrow> bool" where
  "entry_in K (Meta b l r) = True"
| "entry_in K (Internal k c) = (case k of None \<Rightarrow> True | Some k \<Rightarrow> k \<in> K)"
| "entry_in K (Leaf k v) = (k \<in> K)"

definition cbor_ok :: "cbor \<Rightarrow> IndexKey set \<Rightarrow> bool" where
  "cbor_ok cb K \<longleftrightarrow> (\<forall>e. entry_in K e \<longrightarrow>
     (\<exists>b. to_vec cb e = Inr b \<and> from_slice cb b = Inr e \<and> 20 \<le> length b \<and> length b \<le> 150))"

definition enc :: "cbor \<Rightarrow> NodeEntry \<Rightarrow> bytes" where
  "enc cb e = (case to_vec cb e of Inl _ \<Rightarrow> [] | Inr b \<Rightarrow> b)"

lemma cbor_okD:
  assumes "cbor_ok cb K" and "entry_in K e"
  shows "encode cb e = Inr (enc cb e)" "decode cb (enc cb e) = Inr e" "20 \<le> length (enc cb e)" "length (enc cb e) \<le> 150"
    "enc cb e \<noteq> []"
  using assms by (force simp: cbor_ok_def encode_def decode_def enc_def)+

abbreviation encs :: "cbor \<Rightarrow> NodeEntry multiset \<Rightarrow> bytes multiset" where
  "encs cb E \<equiv> image_mset (enc cb) E"

lemma weight_encs:
  assumes "cbor_ok cb K" and "\<forall>e\<in>#E. entry_in K e"
  shows "20 * size E \<le> weight (encs cb E)" "weight (encs cb E) \<le> 150 * size E"
  using assms(2) by (induction E) (use cbor_okD(3,4) [OF assms(1)] in \<open>fastforce+\<close>)

text \<open>A node: a well-formed page with the entries \<open>E\<close>. A page has never held more than fit at once, which bounds its slots.\<close>

definition node :: "cbor \<Rightarrow> IndexKey set \<Rightarrow> Page \<Rightarrow> NodeEntry multiset \<Rightarrow> bool" where
  "node cb K pg E \<longleftrightarrow> heap_wf pg \<and> 24 * nslots (data pg) \<le> 4072 \<and> stored pg = encs cb E \<and> (\<forall>e\<in>#E. entry_in K e)"

lemma node_layout: "node cb K pg E \<Longrightarrow> layout_ok (data pg)"
  by (simp add: node_def heap_wf_iff)

lemma node_room:
  assumes "node cb K pg E"
  shows "free_bytes pg = 4072 - 4 * nslots (data pg) - weight (encs cb E)"
    "4 * nslots (data pg) + weight (encs cb E) \<le> 4072" "size E \<le> nslots (data pg)"
    "add_slot pg < nslots (data pg) \<longleftrightarrow> size E < nslots (data pg)" "24 * nslots (data pg) \<le> 4072"
  using free_bytes_stored [OF node_layout [OF assms]] size_stored [OF node_layout [OF assms]] assms
  by (simp_all add: node_def)

lemma node_list:
  assumes cb: "cbor_ok cb K" and n: "node cb K pg E"
  obtains es where "mset es = E" "map fst (entries pg) = map (enc cb) es"
proof -
  let ?es = "map (\<lambda>b. projr (from_slice cb b)) (map fst (entries pg))"
  have inv: "projr (from_slice cb (enc cb e)) = e" if "e \<in># E" for e
    using cb n that by (force simp: cbor_ok_def node_def enc_def)
  have st: "mset (map fst (entries pg)) = encs cb E" using n by (simp add: node_def stored_def)
  have "mset ?es = image_mset (\<lambda>b. projr (from_slice cb b)) (encs cb E)" unfolding st [symmetric] by (simp only: mset_map)
  also have "\<dots> = image_mset id E" unfolding multiset.map_comp using inv by (intro image_mset_cong) simp
  finally have es: "mset ?es = E" by simp
  have "b = enc cb (projr (from_slice cb b))" if "b \<in> set (map fst (entries pg))" for b
  proof -
    have "b \<in># encs cb E" using that st by (metis set_mset_mset)
    then show ?thesis using inv by auto
  qed
  then have "map fst (entries pg) = map (enc cb) ?es" by (simp add: list.map_comp comp_def cong: map_cong)
  with es show thesis by (rule that)
qed

section \<open>Adding and removing entries\<close>

lemma node_add:
  assumes cb: "cbor_ok cb K" and n: "node cb K pg E" and e: "entry_in K e"
  obtains (added) pg' s where "add_value pg (enc cb e) = Some (pg', Some s)" "node cb K pg' (add_mset e E)" "same_header pg pg'"
      "add_fits pg (enc cb e)" "nslots (data pg') = (if size E < nslots (data pg) then nslots (data pg) else Suc (nslots (data pg)))"
      "holes (data pg') \<le> holes (data pg)"
    | (full) "add_value pg (enc cb e) = Some (pg, None)" "\<not> add_fits pg (enc cb e)"
proof -
  note c = cbor_okD [OF cb e] and r = node_room [OF n]
  have wf: "heap_wf pg" using n by (simp add: node_def)
  obtain pg' where p: "add_value pg (enc cb e) = Some (pg', if add_fits pg (enc cb e) then Some (word_of_nat (add_slot pg)) else None)"
    "heap_wf pg'" "heap_view pg' = (if add_fits pg (enc cb e) then (heap_view pg)(word_of_nat (add_slot pg) \<mapsto> enc cb e) else heap_view pg)"
    "same_header pg pg'" "\<not> add_fits pg (enc cb e) \<Longrightarrow> pg' = pg"
    "nslots (data pg') = nslots (data pg) + (if add_fits pg (enc cb e) \<and> \<not> add_slot pg < nslots (data pg) then 1 else 0)"
    "holes (data pg') \<le> holes (data pg)"
    using add_value_ok [OF wf c(5)] by metis
  show thesis
  proof (cases "add_fits pg (enc cb e)")
    case True
    have "stored pg' = add_mset (enc cb e) (stored pg)"
      using p(2,3) True by (intro stored_put [OF node_layout [OF n] _ add_slot_fresh(1) [OF node_layout [OF n]]]) (simp_all add: heap_wf_iff)
    moreover have "24 * nslots (data pg') \<le> 4072"
    proof (cases "add_slot pg < nslots (data pg)")
      case False
      then have "size E = nslots (data pg)" "length (enc cb e) + 4 < free_bytes pg" using True r(3,4) by (auto simp: add_fits_def)
      then show ?thesis using weight_encs(1) [OF cb, of E] n c(3) r(1) p(6) True False by (simp add: node_def)
    qed (use p(6) r(5) in simp)
    ultimately have "node cb K pg' (add_mset e E)" using n p(2) e by (simp add: node_def)
    then show thesis using added p(1,4,6,7) True r(3,4) by simp
  qed (use full p(1,5) in simp)
qed

lemma node_add_fits:
  assumes cb: "cbor_ok cb K" and n: "node cb K pg E" and e: "entry_in K e" and fits: "add_fits pg (enc cb e)"
  obtains pg' s where "add_value pg (enc cb e) = Some (pg', Some s)" "node cb K pg' (add_mset e E)" "same_header pg pg'"
    "nslots (data pg') = (if size E < nslots (data pg) then nslots (data pg) else Suc (nslots (data pg)))"
    "holes (data pg') \<le> holes (data pg)"
  by (rule node_add [OF cb n e]) (use fits that in auto)

text \<open>Filling a page whose slots are there already, and a page without holes that gets a slot for every entry.\<close>

lemma fill_drained:
  assumes cb: "cbor_ok cb K"
  shows "node cb K pg E \<Longrightarrow> \<forall>e\<in>set es. entry_in K e \<Longrightarrow> size E + length es \<le> nslots (data pg) \<Longrightarrow>
    4 * nslots (data pg) + weight (encs cb E) + weight (encs cb (mset es)) < 4072 \<Longrightarrow>
    \<exists>pg'. add_entries cb es pg = Some (pg', Inr ()) \<and> node cb K pg' (E + mset es) \<and> same_header pg pg'"
proof (induction es arbitrary: pg E)
  case Nil
  then show ?case by (simp add: same_header_def)
next
  case (Cons e es)
  have e: "entry_in K e" using Cons.prems(2) by simp
  have "add_fits pg (enc cb e)"
    using node_room [OF Cons.prems(1)] Cons.prems(3,4) by (simp add: add_fits_def)
  then obtain p s where p: "add_value pg (enc cb e) = Some (p, Some s)" "node cb K p (add_mset e E)" "same_header pg p"
    "nslots (data p) = nslots (data pg)"
    using node_add_fits [OF cb Cons.prems(1) e] Cons.prems(3) by (metis add_lessD1 length_Cons less_add_Suc1 less_le_trans add_Suc_right less_eq_Suc_le)
  obtain p' where "add_entries cb es p = Some (p', Inr ())" "node cb K p' (add_mset e E + mset es)" "same_header p p'"
    using Cons.IH [OF p(2)] Cons.prems p(4) by auto
  then show ?case using p(1,3) cbor_okD(1) [OF cb e] same_header_trans by fastforce
qed

lemma fill_fresh:
  assumes cb: "cbor_ok cb K"
  shows "node cb K pg E \<Longrightarrow> \<forall>e\<in>set es. entry_in K e \<Longrightarrow> size E = nslots (data pg) \<Longrightarrow> holes (data pg) = 0 \<Longrightarrow>
    4 * (size E + length es) + weight (encs cb E) + weight (encs cb (mset es)) < 4072 \<Longrightarrow>
    \<exists>pg'. add_entries cb es pg = Some (pg', Inr ()) \<and> node cb K pg' (E + mset es) \<and> same_header pg pg'"
proof (induction es arbitrary: pg E)
  case Nil
  then show ?case by (simp add: same_header_def)
next
  case (Cons e es)
  have e: "entry_in K e" using Cons.prems(2) by simp
  have ok: "layout_ok (data pg)" by (rule node_layout [OF Cons.prems(1)])
  have "fsp_of (data pg) - hdr (data pg) = free_bytes pg"
    using layout_okD(4) [OF ok] Cons.prems(4) by (simp add: free_bytes_def)
  then have "add_fits pg (enc cb e)"
    using node_room [OF Cons.prems(1)] Cons.prems(3,5) by (auto simp: add_fits_def)
  then obtain p s where p: "add_value pg (enc cb e) = Some (p, Some s)" "node cb K p (add_mset e E)" "same_header pg p"
    "nslots (data p) = Suc (nslots (data pg))" "holes (data p) = 0"
    using node_add_fits [OF cb Cons.prems(1) e] Cons.prems(3,4) by (metis le_zero_eq less_irrefl)
  obtain p' where "add_entries cb es p = Some (p', Inr ())" "node cb K p' (add_mset e E + mset es)" "same_header p p'"
    using Cons.IH [OF p(2)] Cons.prems p(4,5) by auto
  then show ?case using p(1,3) cbor_okD(1) [OF cb e] same_header_trans by fastforce
qed

lemma init_node_ok:
  assumes cb: "cbor_ok cb K" and pg: "blank_page pg n" and es: "\<forall>e\<in>set es. entry_in K e"
    and fits: "4 * length es + weight (encs cb (mset es)) < 4072"
  obtains pg' where "init_node cb es pg = Some (pg', Inr ())" "node cb K pg' (mset es)" "carries pg' n"
proof -
  have wf: "page_wf pg" "get_page_id pg = Some n" "slice (data pg) 16 8 = replicate 8 0" using pg by (simp_all add: blank_page_def carries_def)
  obtain q where q: "init_heap_page pg = Some q" "heap_wf q" "heap_view q = Map.empty" "same_header pg q"
    "nslots (data q) = 0" "fsp_of (data q) = 4096"
    using init_heap_page_ok [OF wf(1,3)] by blast
  have ok: "layout_ok (data q)" using q(2) by (simp add: heap_wf_iff)
  have "holes (data q) = 0" using layout_okD(4) [OF ok] q(5,6) by simp
  moreover have "node cb K q {#}" using q(2,5) size_stored(1) [OF ok] by (simp add: node_def)
  ultimately obtain p where p: "add_entries cb es q = Some (p, Inr ())" "node cb K p (mset es)" "same_header q p"
    using fill_fresh [OF cb, of q "{#}" es] es fits q(5) by auto
  have "page_wf p" using node_layout [OF p(2)] layout_ok_wf by blast
  then have "carries p n"
    using get_page_id_same_header [OF wf(1) _ same_header_trans [OF q(4) p(3)]] wf(2) by (simp add: carries_def)
  then show thesis using that p(1,2) q(1) by (simp add: init_node_def)
qed

lemma delete_slots_ok:
  "heap_wf pg \<Longrightarrow> \<exists>pg'. delete_slots ss pg = Some pg' \<and> heap_wf pg' \<and>
     heap_view pg' = (\<lambda>s. if s \<in> set ss then None else heap_view pg s) \<and> same_header pg pg' \<and> nslots (data pg') = nslots (data pg)"
proof (induction ss arbitrary: pg)
  case Nil
  then show ?case by (simp add: same_header_def)
next
  case (Cons s ss)
  obtain p r where p: "delete_value pg s = Some (p, r)" "heap_wf p" "heap_view p = (heap_view pg)(s := None)" "same_header pg p"
    "nslots (data p) = nslots (data pg)"
    using delete_value_ok [OF Cons.prems, of s] by metis
  obtain q where "delete_slots ss p = Some q" "heap_wf q" "heap_view q = (\<lambda>s. if s \<in> set ss then None else heap_view p s)"
    "same_header p q" "nslots (data q) = nslots (data p)"
    using Cons.IH [OF p(2)] by blast
  then show ?case using p same_header_trans by (intro exI [of _ q]) (auto simp: fun_eq_iff)
qed

lemma drained:
  assumes n: "node cb K pg E"
  obtains pg' where "delete_slots (map snd (entries pg)) pg = Some pg'" "node cb K pg' {#}" "same_header pg pg'"
    "nslots (data pg') = nslots (data pg)"
proof -
  obtain q where q: "delete_slots (map snd (entries pg)) pg = Some q" "heap_wf q"
    "heap_view q = (\<lambda>s. if s \<in> set (map snd (entries pg)) then None else heap_view pg s)" "same_header pg q" "nslots (data q) = nslots (data pg)"
    using delete_slots_ok [of pg "map snd (entries pg)"] n by (auto simp: node_def)
  have "heap_view q s = None" for s
    using q(3) set_entries [OF node_layout [OF n]] by (cases "heap_view pg s") (force simp: image_iff)+
  then have "slots_of q = {}" by (simp add: slots_of_def)
  then have "stored q = {#}" using mset_entries(1) [of q] q(2) by (simp add: stored_def heap_wf_iff)
  then show thesis using that q n by (simp add: node_def)
qed

section \<open>Reading a node\<close>

fun is_meta :: "NodeEntry \<Rightarrow> bool" where
  "is_meta (Meta _ _ _) = True"
| "is_meta _ = False"

definition leaves :: "NodeEntry list \<Rightarrow> (IndexKey \<times> ValueId) list" where
  "leaves es = concat (map (\<lambda>e. case e of Leaf k v \<Rightarrow> [(k, v)] | _ \<Rightarrow> []) es)"

definition children :: "NodeEntry list \<Rightarrow> (IndexKey option \<times> PageId) list" where
  "children es = concat (map (\<lambda>e. case e of Internal k c \<Rightarrow> [(k, c)] | _ \<Rightarrow> []) es)"

lemma leaves_simps [simp]:
  "leaves [] = []" "leaves (Meta b l r # es) = leaves es" "leaves (Internal ko c # es) = leaves es"
  "leaves (Leaf k v # es) = (k, v) # leaves es" "leaves (es @ fs) = leaves es @ leaves fs"
  by (simp_all add: leaves_def)

lemma children_simps [simp]:
  "children [] = []" "children (Meta b l r # es) = children es" "children (Internal ko c # es) = (ko, c) # children es"
  "children (Leaf k v # es) = children es" "children (es @ fs) = children es @ children fs"
  by (simp_all add: children_def)

lemma fold_until_append:
  "fold_until f (xs @ ys) s = (case fold_until f xs s of Inl r \<Rightarrow> Inl r | Inr s \<Rightarrow> fold_until f ys s)"
  by (induction xs arbitrary: s) (auto split: sum.split)

lemma for_node:
  assumes cb: "cbor_ok cb K" and n: "node cb K pg E" and es: "mset es = E" "map fst (entries pg) = map (enc cb) es"
  shows "for_page (\<lambda>s b sid. f s (decode cb b) sid) pg s =
    Some (fold_until (\<lambda>s (e, sid). f s (Inr e) sid) (zip es (map snd (entries pg))) s)"
proof -
  have "fold_until (\<lambda>s (b, sid). f s (decode cb b) sid) (zip (map (enc cb) xs) ss) s =
      fold_until (\<lambda>s (e, sid). f s (Inr e) sid) (zip xs ss) s" if "set xs \<subseteq> set es" for xs ss s
    using that
  proof (induction xs arbitrary: ss s)
    case (Cons x xs)
    have "x \<in># E" using Cons.prems es(1) by auto
    then have "entry_in K x" using n by (simp add: node_def)
    then show ?case using Cons cbor_okD(2) [OF cb] by (cases ss) (auto split: sum.split)
  qed simp
  then have "fold_until (\<lambda>s (b, sid). f s (decode cb b) sid) (entries pg) s =
      fold_until (\<lambda>s (e, sid). f s (Inr e) sid) (zip es (map snd (entries pg))) s"
    using es(2) by (metis order_refl zip_map_fst_snd)
  then show ?thesis unfolding for_page_fold [OF node_layout [OF n]] by simp
qed

text \<open>The first place of an entry in the order of the slots; a node with one meta entry.\<close>

lemma entry_split:
  assumes cb: "cbor_ok cb K" and n: "node cb K pg E" and e: "e \<in># E"
  obtains es xs ys ss sid ts where "mset es = E" "map fst (entries pg) = map (enc cb) es"
    "es = xs @ e # ys" "map snd (entries pg) = ss @ sid # ts" "length ss = length xs" "length ts = length ys"
    "e \<notin> set xs" "heap_view pg sid = Some (enc cb e)"
proof -
  obtain es where es: "mset es = E" "map fst (entries pg) = map (enc cb) es" by (rule node_list [OF cb n])
  have "e \<in> set es" using es(1) e by (metis set_mset_mset)
  then obtain xs ys where xy: "es = xs @ e # ys" "e \<notin> set xs" by (meson split_list_first)
  have len: "length (entries pg) = length xs + Suc (length ys)" using arg_cong [OF es(2), of length] xy by simp
  define ss where "ss = take (length xs) (map snd (entries pg))"
  define ts where "ts = drop (Suc (length xs)) (map snd (entries pg))"
  define sid where "sid = map snd (entries pg) ! length xs"
  have sp: "map snd (entries pg) = ss @ sid # ts"
    unfolding ss_def sid_def ts_def by (rule id_take_nth_drop) (use len in simp)
  have "entries pg ! length xs = (enc cb e, sid)"
    using arg_cong [OF es(2), of "\<lambda>zs. zs ! length xs"] len xy by (simp add: sid_def prod_eq_iff nth_append)
  then have "(enc cb e, sid) \<in> set (entries pg)" using len by (metis nth_mem less_add_Suc1 add_Suc_right)
  then have "heap_view pg sid = Some (enc cb e)" using set_entries [OF node_layout [OF n]] by simp
  then show thesis using that [OF es xy(1) sp _ _ xy(2)] len by (simp add: ss_def ts_def)
qed

lemma meta_split:
  assumes cb: "cbor_ok cb K" and n: "node cb K pg (add_mset (Meta b l r) F)" and F: "\<forall>e\<in>#F. \<not> is_meta e"
  obtains es xs ys ss sid ts where "mset es = add_mset (Meta b l r) F" "map fst (entries pg) = map (enc cb) es"
    "es = xs @ Meta b l r # ys" "map snd (entries pg) = ss @ sid # ts" "length ss = length xs" "length ts = length ys"
    "\<forall>e\<in>set (xs @ ys). \<not> is_meta e" "mset (xs @ ys) = F" "heap_view pg sid = Some (enc cb (Meta b l r))"
proof -
  obtain es xs ys ss sid ts where m: "mset es = add_mset (Meta b l r) F" "map fst (entries pg) = map (enc cb) es"
    "es = xs @ Meta b l r # ys" "map snd (entries pg) = ss @ sid # ts" "length ss = length xs" "length ts = length ys"
    "heap_view pg sid = Some (enc cb (Meta b l r))"
    by (rule entry_split [OF cb n, of "Meta b l r"]) simp
  have F': "mset (xs @ ys) = F" using m(1,3) by simp
  then have "\<forall>e\<in>set (xs @ ys). \<not> is_meta e" using F by (metis set_mset_mset)
  then show thesis using that [OF m(1-6) _ F' m(7)] by blast
qed

lemma fold_first:
  "\<forall>x\<in>set xs. f () x = Inr () \<Longrightarrow> f () y = Inl r \<Longrightarrow> fold_until f (xs @ y # ys) () = Inl r"
  "\<forall>x\<in>set xs. f () x = Inr () \<Longrightarrow> fold_until f xs () = Inr ()"
  by (induction xs) auto

lemma zip_members: "(\<And>x y. x \<in> set xs \<Longrightarrow> P (x, y)) \<Longrightarrow> \<forall>p\<in>set (zip xs ys). P p"
  by (auto dest: set_zip_leftD)

lemma read_is_leaf_node:
  assumes cb: "cbor_ok cb K" and n: "node cb K pg (add_mset (Meta b l r) F)" and F: "\<forall>e\<in>#F. \<not> is_meta e"
  shows "read_is_leaf cb pg = Some (Inr b)"
proof -
  let ?f = "\<lambda>_ x _. case x of Inl e \<Rightarrow> Inl (Inl e) | Inr (Meta b _ _) \<Rightarrow> Inl (Inr b) | Inr _ \<Rightarrow> Inr ()"
  obtain es xs ys ss sid ts where m: "mset es = add_mset (Meta b l r) F" "map fst (entries pg) = map (enc cb) es"
    "es = xs @ Meta b l r # ys" "map snd (entries pg) = ss @ sid # ts" "length ss = length xs"
    "\<forall>e\<in>set (xs @ ys). \<not> is_meta e"
    by (rule meta_split [OF cb n F])
  have "\<forall>p\<in>set (zip xs ss). (\<lambda>s (e, sid). ?f s (Inr e) sid) () p = (Inr () :: (CrustyError + bool) + unit)"
  proof (intro zip_members)
    fix e sid assume "e \<in> set xs"
    then have "\<not> is_meta e" using m(6) by simp
    then show "(\<lambda>s (e, sid). ?f s (Inr e) sid) () (e, sid) = (Inr () :: (CrustyError + bool) + unit)" by (cases e) simp_all
  qed
  then have "fold_until (\<lambda>s (e, sid). ?f s (Inr e) sid) (zip es (map snd (entries pg))) () = (Inl (Inr b) :: (CrustyError + bool) + unit)"
    unfolding m(3,4) using m(5) by (simp add: fold_first(1))
  then show ?thesis unfolding read_is_leaf_def for_node [OF cb n m(1,2), of ?f] by simp
qed

lemma leaf_entries_bag:
  assumes "mset es = image_mset (\<lambda>(k, v). Leaf k v) M"
  shows "\<forall>e\<in>set es. \<exists>k v. e = Leaf k v" "mset (leaves es) = M"
proof -
  have "set es = (\<lambda>(k, v). Leaf k v) ` set_mset M" using arg_cong [OF assms, of set_mset] by simp
  then show lf: "\<forall>e\<in>set es. \<exists>k v. e = Leaf k v" by (simp only:) auto
  have "image_mset (\<lambda>(k, v). Leaf k v) (mset (leaves zs)) = mset zs" if "\<forall>e\<in>set zs. \<exists>k v. e = Leaf k v" for zs
    using that by (induction zs) auto
  then have "image_mset (\<lambda>(k, v). Leaf k v) (mset (leaves es)) = image_mset (\<lambda>(k, v). Leaf k v) M" using lf assms by simp
  then show "mset (leaves es) = M" by (rule injD [OF multiset.inj_map, rotated]) (auto simp: inj_def)
qed

lemma leaf_loop:
  assumes "length ss = length xs" and "\<forall>e\<in>set xs. \<exists>k v. e = Leaf k v"
  shows "fold_until (\<lambda>(ls, rs, es) (e, sid). case e of Meta _ ls rs \<Rightarrow> Inr (ls, rs, es) | Leaf k v \<Rightarrow> Inr (ls, rs, es @ [(k, v)])
     | Internal _ _ \<Rightarrow> Inl err) (zip xs ss) (ls, rs, acc) = Inr (ls, rs, acc @ leaves xs)"
  using assms by (induction xs arbitrary: ss acc) (auto simp: length_Suc_conv)

lemma read_leaf_entries_node:
  assumes cb: "cbor_ok cb K" and n: "node cb K pg (add_mset (Meta b l r) (image_mset (\<lambda>(k, v). Leaf k v) M))"
  obtains es where "read_leaf_entries cb pg = Some (Inr (l, r, sort_key leaf_order es))" "mset es = M"
proof -
  let ?F = "image_mset (\<lambda>(k, v). Leaf k v) M"
  let ?f = "\<lambda>(ls, rs, es) x _. case x of Inl e \<Rightarrow> Inl e | Inr (Meta _ ls rs) \<Rightarrow> Inr (ls, rs, es)
     | Inr (Leaf k rid) \<Rightarrow> Inr (ls, rs, es @ [(k, rid)]) | Inr (Internal _ _) \<Rightarrow> Inl (c_err ''expected leaf node'')"
  have body: "(\<lambda>(ls, rs, es) b (_ :: SlotId). case decode cb b of Inl e \<Rightarrow> Inl e | Inr (Meta _ ls rs) \<Rightarrow> Inr (ls, rs, es)
     | Inr (Leaf k rid) \<Rightarrow> Inr (ls, rs, es @ [(k, rid)]) | Inr (Internal _ _) \<Rightarrow> Inl (c_err ''expected leaf node'')) =
     (\<lambda>s b sid. ?f s (decode cb b) sid)"
    by (auto simp: fun_eq_iff)
  obtain es xs ys ss sid ts where m: "mset es = add_mset (Meta b l r) ?F" "map fst (entries pg) = map (enc cb) es"
    "es = xs @ Meta b l r # ys" "map snd (entries pg) = ss @ sid # ts" "length ss = length xs" "length ts = length ys"
    "mset (xs @ ys) = ?F"
    by (rule meta_split [OF cb n]) auto
  note lf = leaf_entries_bag [OF m(7)]
  have fld: "fold_until (\<lambda>s (e, sid). ?f s (Inr e) sid) (zip es (map snd (entries pg))) (None, None, []) = Inr (l, r, leaves (xs @ ys))"
  proof -
    have eq: "(\<lambda>s (e, sid). ?f s (Inr e) sid) = (\<lambda>(ls, rs, es) (e, sid). case e of Meta _ ls rs \<Rightarrow> Inr (ls, rs, es)
        | Leaf k v \<Rightarrow> Inr (ls, rs, es @ [(k, v)]) | Internal _ _ \<Rightarrow> Inl (c_err ''expected leaf node''))"
      by (auto simp: fun_eq_iff split: NodeEntry.split)
    show ?thesis unfolding eq m(3,4) using m(5) lf(1) by (simp add: fold_until_append leaf_loop m(6))
  qed
  have "read_leaf_entries cb pg = Some (Inr (l, r, sort_key leaf_order (leaves (xs @ ys))))"
    unfolding read_leaf_entries_def body for_node [OF cb n m(1,2), of ?f] fld by simp
  then show thesis using that lf(2) by blast
qed

lemma children_loop:
  assumes "length ss = length xs"
  shows "fold_until (\<lambda>es (e, sid). case e of Internal k c \<Rightarrow> Inr (es @ [(k, c)]) | _ \<Rightarrow> Inr es) (zip xs ss) acc = Inr (acc @ children xs)"
    "fold_until (\<lambda>(es, ss) (e, sid). case e of Internal k c \<Rightarrow> Inr (es @ [(k, c)], ss @ [sid]) | _ \<Rightarrow> Inr (es, ss @ [sid]))
       (zip xs ss) (acc, sacc) = Inr (acc @ children xs, sacc @ ss)"
  using assms
  by (induction xs arbitrary: ss acc sacc) (auto simp: length_Suc_conv split: NodeEntry.split)

lemma mset_children:
  "mset es = add_mset (Meta b l r) (image_mset (\<lambda>(k, c). Internal k c) M) \<Longrightarrow> mset (children es) = M"
proof -
  let ?g = "\<lambda>e. case e of Internal k c \<Rightarrow> {#(k, c)#} | _ \<Rightarrow> {#}"
  assume "mset es = add_mset (Meta b l r) (image_mset (\<lambda>(k, c). Internal k c) M)"
  moreover have "mset (children es) = \<Sum>\<^sub># (image_mset ?g (mset es))"
    by (induction es) (auto split: NodeEntry.split)
  moreover have "\<Sum>\<^sub># (image_mset ?g (image_mset (\<lambda>(k, c). Internal k c) M)) = M" by (induction M) auto
  ultimately show ?thesis by simp
qed

lemma read_internal_entries_node:
  assumes cb: "cbor_ok cb K" and n: "node cb K pg (add_mset (Meta b l r) (image_mset (\<lambda>(k, c). Internal k c) M))"
  obtains es where "read_internal_entries cb pg = Some (Inr (sort_key fst es))" "mset es = M"
proof -
  let ?f = "\<lambda>es x _. case x of Inl e \<Rightarrow> Inl e | Inr (Internal k c) \<Rightarrow> Inr (es @ [(k, c)]) | Inr _ \<Rightarrow> Inr es"
  obtain es where es: "mset es = add_mset (Meta b l r) (image_mset (\<lambda>(k, c). Internal k c) M)" "map fst (entries pg) = map (enc cb) es"
    by (rule node_list [OF cb n])
  have len: "length (map snd (entries pg)) = length es" using arg_cong [OF es(2), of length] by simp
  have "read_internal_entries cb pg = Some (Inr (sort_key fst (children es)))"
    unfolding read_internal_entries_def for_node [OF cb n es, of ?f] by (simp add: children_loop(1) [OF len])
  then show thesis using that mset_children [OF es(1)] by blast
qed

lemma drain_internal_node:
  assumes cb: "cbor_ok cb K" and n: "node cb K pg (add_mset (Meta b l r) (image_mset (\<lambda>(k, c). Internal k c) M))"
  obtains pg' es where "drain_internal cb pg = Some (pg', Inr (sort_key fst es))" "mset es = M" "node cb K pg' {#}"
    "same_header pg pg'" "nslots (data pg') = nslots (data pg)"
proof -
  let ?f = "\<lambda>(es, ss) x sid. case x of Inl e \<Rightarrow> Inl e | Inr (Internal k c) \<Rightarrow> Inr (es @ [(k, c)], ss @ [sid]) | Inr _ \<Rightarrow> Inr (es, ss @ [sid])"
  obtain es where es: "mset es = add_mset (Meta b l r) (image_mset (\<lambda>(k, c). Internal k c) M)" "map fst (entries pg) = map (enc cb) es"
    by (rule node_list [OF cb n])
  obtain p where p: "delete_slots (map snd (entries pg)) pg = Some p" "node cb K p {#}" "same_header pg p"
    "nslots (data p) = nslots (data pg)"
    by (rule drained [OF n])
  have len: "length (map snd (entries pg)) = length es" using arg_cong [OF es(2), of length] by simp
  have eq: "(\<lambda>s (e, sid). ?f s (Inr e) sid) = (\<lambda>(es, ss) (e, sid). case e of Internal k c \<Rightarrow> Inr (es @ [(k, c)], ss @ [sid])
      | _ \<Rightarrow> Inr (es, ss @ [sid]))"
    by (auto simp: fun_eq_iff split: NodeEntry.split)
  have body: "(\<lambda>(es, ss) b sid. case decode cb b of Inl e \<Rightarrow> Inl e | Inr (Internal k c) \<Rightarrow> Inr (es @ [(k, c)], ss @ [sid])
      | Inr _ \<Rightarrow> Inr (es, ss @ [sid])) = (\<lambda>s b sid. ?f s (decode cb b) sid)"
    by (auto simp: fun_eq_iff)
  have "drain_internal cb pg = Some (p, Inr (sort_key fst (children es)))"
    unfolding drain_internal_def body for_node [OF cb n es, of ?f] eq children_loop(2) [OF len] by (simp add: p(1))
  then show thesis using that mset_children [OF es(1)] p(2-4) by blast
qed

lemma drain_leaf_loop:
  assumes "length ss = length xs" and "\<forall>e\<in>set xs. \<exists>k v. e = Leaf k v"
  shows "fold_until (\<lambda>(ls, rs, es, ss) (e, sid). case e of Meta _ ls rs \<Rightarrow> Inr (ls, rs, es, ss @ [sid])
     | Leaf k v \<Rightarrow> Inr (ls, rs, es @ [(k, v)], ss @ [sid]) | Internal _ _ \<Rightarrow> Inl err) (zip xs ss) (ls, rs, acc, sacc) =
     Inr (ls, rs, acc @ leaves xs, sacc @ ss)"
  using assms by (induction xs arbitrary: ss acc sacc) (auto simp: length_Suc_conv)

lemma drain_leaf_node:
  assumes cb: "cbor_ok cb K" and n: "node cb K pg (add_mset (Meta b l r) (image_mset (\<lambda>(k, v). Leaf k v) M))"
  obtains pg' es where "drain_leaf cb pg = Some (pg', Inr (l, r, es))" "mset es = M" "node cb K pg' {#}"
    "same_header pg pg'" "nslots (data pg') = nslots (data pg)"
proof -
  let ?F = "image_mset (\<lambda>(k, v). Leaf k v) M"
  let ?f = "\<lambda>(ls, rs, es, ss) x sid. case x of Inl e \<Rightarrow> Inl e | Inr (Meta _ ls rs) \<Rightarrow> Inr (ls, rs, es, ss @ [sid])
     | Inr (Leaf k rid) \<Rightarrow> Inr (ls, rs, es @ [(k, rid)], ss @ [sid]) | Inr (Internal _ _) \<Rightarrow> Inl (c_err ''expected leaf node'')"
  have body: "(\<lambda>(ls, rs, es, ss) b sid. case decode cb b of Inl e \<Rightarrow> Inl e | Inr (Meta _ ls rs) \<Rightarrow> Inr (ls, rs, es, ss @ [sid])
     | Inr (Leaf k rid) \<Rightarrow> Inr (ls, rs, es @ [(k, rid)], ss @ [sid]) | Inr (Internal _ _) \<Rightarrow> Inl (c_err ''expected leaf node'')) =
     (\<lambda>s b sid. ?f s (decode cb b) sid)"
    by (auto simp: fun_eq_iff)
  obtain es xs ys ss sid ts where m: "mset es = add_mset (Meta b l r) ?F" "map fst (entries pg) = map (enc cb) es"
    "es = xs @ Meta b l r # ys" "map snd (entries pg) = ss @ sid # ts" "length ss = length xs" "length ts = length ys"
    "mset (xs @ ys) = ?F"
    by (rule meta_split [OF cb n]) auto
  obtain p where p: "delete_slots (map snd (entries pg)) pg = Some p" "node cb K p {#}" "same_header pg p"
    "nslots (data p) = nslots (data pg)"
    by (rule drained [OF n])
  note lf = leaf_entries_bag [OF m(7)]
  have eq: "(\<lambda>s (e, sid). ?f s (Inr e) sid) = (\<lambda>(ls, rs, es, ss) (e, sid). case e of Meta _ ls rs \<Rightarrow> Inr (ls, rs, es, ss @ [sid])
     | Leaf k v \<Rightarrow> Inr (ls, rs, es @ [(k, v)], ss @ [sid]) | Internal _ _ \<Rightarrow> Inl (c_err ''expected leaf node''))"
    by (auto simp: fun_eq_iff split: NodeEntry.split)
  have fld: "fold_until (\<lambda>s (e, sid). ?f s (Inr e) sid) (zip es (map snd (entries pg))) (None, None, [], []) =
      Inr (l, r, leaves (xs @ ys), map snd (entries pg))"
    unfolding eq m(3,4) using m(5) lf(1) by (simp add: fold_until_append drain_leaf_loop m(6))
  have "drain_leaf cb pg = Some (p, Inr (l, r, leaves (xs @ ys)))"
    unfolding drain_leaf_def body for_node [OF cb n m(1,2), of ?f] fld by (simp add: p(1))
  then show thesis using that lf(2) p(2-4) by blast
qed

text \<open>Room for a new left pointer in the place of the old meta entry.\<close>

definition meta_fits :: "cbor \<Rightarrow> Page \<Rightarrow> bool \<Rightarrow> PageId option \<Rightarrow> PageId option \<Rightarrow> PageId option \<Rightarrow> bool" where
  "meta_fits cb pg b l r l' \<longleftrightarrow> length (enc cb (Meta b l' r)) \<le> length (enc cb (Meta b l r)) \<or>
     length (enc cb (Meta b l' r)) < free_bytes pg + length (enc cb (Meta b l r))"

lemma update_value_fits:
  assumes "heap_wf p" and "v \<noteq> []" and "update_fits p s v"
  shows "\<exists>p'. update_value p s v = Some (p', Some ()) \<and> heap_wf p' \<and> heap_view p' = (heap_view p)(s \<mapsto> v) \<and>
    same_header p p' \<and> nslots (data p') = nslots (data p)"
  by (rule update_value_ok [OF assms(1,2), of s]) (use assms(3) in auto)

lemma rethread_node:
  assumes cb: "cbor_ok cb K" and n: "node cb K pg (add_mset (Meta b l r) F)" and F: "\<forall>e\<in>#F. \<not> is_meta e"
    and fits: "meta_fits cb pg b l r l'"
  obtains pg' where "rethread cb l' pg = Some (pg', Inr ())" "node cb K pg' (add_mset (Meta b l' r) F)" "same_header pg pg'"
    "nslots (data pg') = nslots (data pg)"
proof -
  let ?f = "\<lambda>_ x sid. case x of Inl e \<Rightarrow> Inl (Inl e) | Inr (Meta b _ r) \<Rightarrow> Inl (Inr (sid, b, r)) | Inr _ \<Rightarrow> Inr ()"
  obtain es xs ys ss sid ts where m: "mset es = add_mset (Meta b l r) F" "map fst (entries pg) = map (enc cb) es"
    "es = xs @ Meta b l r # ys" "map snd (entries pg) = ss @ sid # ts" "length ss = length xs"
    "\<forall>e\<in>set (xs @ ys). \<not> is_meta e" "heap_view pg sid = Some (enc cb (Meta b l r))"
    by (rule meta_split [OF cb n F])
  have "\<forall>p\<in>set (zip xs ss). (\<lambda>s (e, sid). ?f s (Inr e) sid) () p = (Inr () :: (CrustyError + SlotId \<times> bool \<times> PageId option) + unit)"
  proof (intro zip_members)
    fix e sid assume "e \<in> set xs"
    then have "\<not> is_meta e" using m(6) by simp
    then show "(\<lambda>s (e, sid). ?f s (Inr e) sid) () (e, sid) = (Inr () :: (CrustyError + SlotId \<times> bool \<times> PageId option) + unit)"
      by (cases e) simp_all
  qed
  then have fld: "fold_until (\<lambda>s (e, sid). ?f s (Inr e) sid) (zip es (map snd (entries pg))) () =
      (Inl (Inr (sid, b, r)) :: (CrustyError + SlotId \<times> bool \<times> PageId option) + unit)"
    unfolding m(3,4) using m(5) by (simp add: fold_first(1))
  have c: "entry_in K (Meta b l' r)" by simp
  note cc = cbor_okD [OF cb c]
  have uf: "update_fits pg sid (enc cb (Meta b l' r))" using m(7) fits by (simp add: update_fits_def meta_fits_def)
  have wf: "heap_wf pg" using n by (simp add: node_def)
  obtain p where p: "update_value pg sid (enc cb (Meta b l' r)) = Some (p, Some ())" "heap_wf p"
    "heap_view p = (heap_view pg)(sid \<mapsto> enc cb (Meta b l' r))" "same_header pg p" "nslots (data p) = nslots (data pg)"
    using update_value_fits [OF wf cc(5) uf] by blast
  obtain q r' where q: "delete_value pg sid = Some (q, r')" "heap_wf q" "heap_view q = (heap_view pg)(sid := None)"
    using delete_value_ok [OF wf, of sid] by metis
  have lay: "layout_ok (data pg)" "layout_ok (data p)" "layout_ok (data q)" using wf p(2) q(2) by (simp_all add: heap_wf_iff)
  have "stored pg = add_mset (enc cb (Meta b l r)) (stored q)" by (rule stored_remove [OF lay(1,3) m(7) q(3)])
  moreover have "stored p = add_mset (enc cb (Meta b l' r)) (stored q)"
    by (rule stored_put [OF lay(3,2), of sid]) (use p(3) q(3) in auto)
  ultimately have "node cb K p (add_mset (Meta b l' r) F)" using n p(2,5) by (simp add: node_def)
  moreover have "rethread cb l' pg = Some (p, Inr ())"
    unfolding rethread_def for_node [OF cb n m(1,2), of ?f] fld using cc(1) p(1) by simp
  ultimately show thesis using that p(4,5) by blast
qed

end
