(* ===== verification/BTreeSplit.thy ===== *)
theory BTreeSplit
  imports BTreeNodes
begin

text \<open>
  Leaves and internal nodes of the B+ tree: a node with one meta entry and its entries in the order of their keys. Reading
  a node returns them in that order; an entry is added in place or the node is full; a full node is drained and its
  entries fit into the old page and a new one.
\<close>

section \<open>Leaves and internal nodes\<close>

text \<open>A leaf that never held an entry is the first root: it has no holes and no left sibling.\<close>

definition leaf_node :: "cbor \<Rightarrow> IndexKey set \<Rightarrow> Page \<Rightarrow> PageId option \<Rightarrow> PageId option \<Rightarrow> (IndexKey \<times> ValueId) list \<Rightarrow> bool" where
  "leaf_node cb K pg l r kvs \<longleftrightarrow> sorted_wrt (<) (map fst kvs) \<and>
     (2 \<le> nslots (data pg) \<or> holes (data pg) = 0 \<and> l = None) \<and>
     node cb K pg (add_mset (Meta True l r) (image_mset (\<lambda>(k, v). Leaf k v) (mset kvs)))"

definition internal_node :: "cbor \<Rightarrow> IndexKey set \<Rightarrow> Page \<Rightarrow> (IndexKey option \<times> PageId) list \<Rightarrow> bool" where
  "internal_node cb K pg cs \<longleftrightarrow> sorted_wrt (<) (map fst cs) \<and>
     node cb K pg (add_mset (Meta False None None) (image_mset (\<lambda>(k, c). Internal k c) (mset cs)))"

lemma sort_by_key:
  fixes f :: "'a :: linorder \<times> 'b \<Rightarrow> 'c :: linorder"
  assumes "mset xs = mset ys" and "sorted_wrt (<) (map fst ys)" and "\<And>p q. fst p < fst q \<Longrightarrow> f p < f q"
  shows "sort_key f xs = ys"
proof (rule sort_key_inj_key_eq [OF assms(1)])
  have "sorted_wrt (<) (map f ys)"
    unfolding sorted_wrt_map by (rule sorted_wrt_mono_rel [OF _ assms(2) [unfolded sorted_wrt_map]]) (rule assms(3))
  then have "distinct (map f ys)" "sorted (map f ys)" using strict_sorted_iff by blast+
  then show "inj_on f (set xs)" "sorted (map f ys)" using mset_eq_setD [OF assms(1)] by (simp_all add: distinct_map)
qed

lemma leaf_order_less: "fst p < fst q \<Longrightarrow> leaf_order p < leaf_order q"
  by (simp add: leaf_order_def less_prod_def)

lemma leaf_node_reads:
  assumes cb: "cbor_ok cb K" and n: "leaf_node cb K pg l r kvs"
  shows "read_is_leaf cb pg = Some (Inr True)" "read_leaf_entries cb pg = Some (Inr (l, r, kvs))"
proof -
  have nd: "node cb K pg (add_mset (Meta True l r) (image_mset (\<lambda>(k, v). Leaf k v) (mset kvs)))"
    and so: "sorted_wrt (<) (map fst kvs)" using n by (simp_all add: leaf_node_def)
  show "read_is_leaf cb pg = Some (Inr True)" by (rule read_is_leaf_node [OF cb nd]) auto
  obtain es where es: "read_leaf_entries cb pg = Some (Inr (l, r, sort_key leaf_order es))" "mset es = mset kvs"
    by (rule read_leaf_entries_node [OF cb nd])
  then show "read_leaf_entries cb pg = Some (Inr (l, r, kvs))"
    using sort_by_key [OF es(2) so, of leaf_order] leaf_order_less by simp
qed

lemma internal_node_reads:
  assumes cb: "cbor_ok cb K" and n: "internal_node cb K pg cs"
  shows "read_is_leaf cb pg = Some (Inr False)" "read_internal_entries cb pg = Some (Inr cs)"
proof -
  have nd: "node cb K pg (add_mset (Meta False None None) (image_mset (\<lambda>(k, c). Internal k c) (mset cs)))"
    and so: "sorted_wrt (<) (map fst cs)" using n by (simp_all add: internal_node_def)
  show "read_is_leaf cb pg = Some (Inr False)" by (rule read_is_leaf_node [OF cb nd]) auto
  obtain es where es: "read_internal_entries cb pg = Some (Inr (sort_key fst es))" "mset es = mset cs"
    by (rule read_internal_entries_node [OF cb nd])
  then show "read_internal_entries cb pg = Some (Inr cs)" using sort_by_key [OF es(2) so, of fst] by simp
qed

lemma find_entry_node:
  assumes cb: "cbor_ok cb K" and n: "leaf_node cb K pg l r kvs"
  shows "(k, v) \<in> set kvs \<Longrightarrow> \<exists>sid. find_entry cb k v pg = Some (Inr (Some sid, last_matches kvs k, r)) \<and>
      heap_view pg sid = Some (enc cb (Leaf k v))"
    "(k, v) \<notin> set kvs \<Longrightarrow> find_entry cb k v pg = Some (Inr (None, last_matches kvs k, r))"
proof -
  let ?E = "add_mset (Meta True l r) (image_mset (\<lambda>(k, v). Leaf k v) (mset kvs))"
  let ?f = "\<lambda>_ x sid. case x of Inl e \<Rightarrow> Inl (Inl e) | Inr (Leaf k' r) \<Rightarrow> if k' = k \<and> r = v then Inl (Inr sid) else Inr ()
    | Inr _ \<Rightarrow> Inr ()"
  have nd: "node cb K pg ?E" using n by (simp add: leaf_node_def)
  have skip: "\<forall>p\<in>set (zip xs ss). (\<lambda>s (e, sid). ?f s (Inr e) sid) () p = (Inr () :: (CrustyError + SlotId) + unit)"
    if "Leaf k v \<notin> set xs" for xs :: "NodeEntry list" and ss
  proof (intro zip_members)
    fix e sid assume "e \<in> set xs"
    then have "e \<noteq> Leaf k v" using that by blast
    then show "(\<lambda>s (e, sid). ?f s (Inr e) sid) () (e, sid) = (Inr () :: (CrustyError + SlotId) + unit)" by (cases e) simp_all
  qed
  note reads = leaf_node_reads(2) [OF cb n]
  {
    assume "(k, v) \<in> set kvs"
    then have "Leaf k v \<in># ?E" by force
    then obtain es xs ys ss sid ts where m: "mset es = ?E" "map fst (entries pg) = map (enc cb) es"
      "es = xs @ Leaf k v # ys" "map snd (entries pg) = ss @ sid # ts" "length ss = length xs" "Leaf k v \<notin> set xs"
      "heap_view pg sid = Some (enc cb (Leaf k v))"
      by (rule entry_split [OF cb nd])
    have "fold_until (\<lambda>s (e, sid). ?f s (Inr e) sid) (zip es (map snd (entries pg))) () =
        (Inl (Inr sid) :: (CrustyError + SlotId) + unit)"
      unfolding m(3,4) using m(5) skip [OF m(6), of ss] by (simp add: fold_first(1))
    then have "find_entry cb k v pg = Some (Inr (Some sid, last_matches kvs k, r))"
      unfolding find_entry_def for_node [OF cb nd m(1,2), of ?f] by (simp add: reads)
    with m(7) show "\<exists>sid. find_entry cb k v pg = Some (Inr (Some sid, last_matches kvs k, r)) \<and>
        heap_view pg sid = Some (enc cb (Leaf k v))" by blast
  next
    assume a: "(k, v) \<notin> set kvs"
    obtain es where es: "mset es = ?E" "map fst (entries pg) = map (enc cb) es" by (rule node_list [OF cb nd])
    have "Leaf k v \<notin># ?E" using a by auto
    then have "Leaf k v \<notin> set es" using es(1) by (metis set_mset_mset)
    then have "fold_until (\<lambda>s (e, sid). ?f s (Inr e) sid) (zip es (map snd (entries pg))) () =
        (Inr () :: (CrustyError + SlotId) + unit)"
      by (intro fold_first(2) skip)
    then show "find_entry cb k v pg = Some (Inr (None, last_matches kvs k, r))"
      unfolding find_entry_def for_node [OF cb nd es, of ?f] by (simp add: reads)
  }
qed

section \<open>Room for a split\<close>

lemma weight_entries:
  assumes "cbor_ok cb K" and "\<forall>e\<in>set es. entry_in K e"
  shows "20 * length es \<le> weight (encs cb (mset es))" "weight (encs cb (mset es)) \<le> 150 * length es"
  using weight_encs [OF assms(1), of "mset es"] assms(2) by simp_all

text \<open>The entries of a full node and one more, in two halves: the first half fits into the slots of the drained page, the
  second into a new page, with room to spare for one longer entry.\<close>

lemma split_room:
  assumes cb: "cbor_ok cb K" and n: "node cb K pg (add_mset m0 Old)" and e: "entry_in K e" and m: "entry_in K m"
    and xy: "mset (xs @ ys) = add_mset e Old" "length xs = length (xs @ ys) div 2"
  shows "1 + length xs \<le> nslots (data pg)" "4 * nslots (data pg) + weight (encs cb (mset (m # xs))) < 4072"
    "4 * length (m # ys) + weight (encs cb (mset (m # ys))) + 130 < 4072" "\<forall>x\<in>set (xs @ ys). entry_in K x"
proof -
  note r = node_room [OF n]
  have all: "\<forall>x\<in>set (xs @ ys). entry_in K x"
  proof
    fix x assume "x \<in> set (xs @ ys)"
    then have "x \<in># add_mset e Old" using xy(1) by (metis set_mset_mset)
    then show "entry_in K x" using n e by (auto simp: node_def)
  qed
  then have wx: "20 * length xs \<le> weight (encs cb (mset xs))" "weight (encs cb (mset xs)) \<le> 150 * length xs"
    and wy: "20 * length ys \<le> weight (encs cb (mset ys))" "weight (encs cb (mset ys)) \<le> 150 * length ys"
    using weight_entries [OF cb, of xs] weight_entries [OF cb, of ys] by simp_all
  have we: "length (enc cb e) \<le> 150" "20 \<le> length (enc cb m)" "length (enc cb m) \<le> 150" "20 \<le> length (enc cb m0)"
    using cbor_okD(3,4) [OF cb] e m n by (simp_all add: node_def)
  have sum: "weight (encs cb (mset xs)) + weight (encs cb (mset ys)) = length (enc cb e) + weight (encs cb Old)"
    using arg_cong [OF xy(1), of "\<lambda>E. weight (encs cb E)"] by simp
  have sz: "length xs + length ys = Suc (size Old)" using arg_cong [OF xy(1), of size] by simp
  have half: "length ys = length xs \<or> length ys = Suc (length xs)" using xy(2) by auto
  show "1 + length xs \<le> nslots (data pg)" using r(3) sz half by auto
  show "4 * nslots (data pg) + weight (encs cb (mset (m # xs))) < 4072"
    using r(2,5) wx wy we sum half by (cases "length xs \<le> 21") auto
  show "4 * length (m # ys) + weight (encs cb (mset (m # ys))) + 130 < 4072"
    using r(2,3) sz wx wy we sum half by (cases "length xs \<le> 22") auto
  show "\<forall>x\<in>set (xs @ ys). entry_in K x" by (rule all)
qed

section \<open>Insertion into a node\<close>

lemma strict_insort:
  fixes xs :: "('a :: linorder \<times> 'b) list"
  assumes "sorted_wrt (<) (map fst xs)" and "k \<notin> fst ` set xs"
  shows "sorted_wrt (<) (map fst (insort_key fst (k, v) xs))"
proof -
  have "distinct (map fst (insort_key fst (k, v) xs)) \<longleftrightarrow> distinct (map fst ((k, v) # xs))"
    by (rule mset_eq_imp_distinct_iff) (simp add: mset_insort)
  then show ?thesis using assms by (simp add: strict_sorted_iff sorted_insort_key)
qed

lemma leaf_add:
  assumes cb: "cbor_ok cb K" and n: "leaf_node cb K pg l r kvs" and k: "k \<in> K" "k \<notin> fst ` set kvs"
  obtains (added) pg' s where "add_value pg (enc cb (Leaf k v)) = Some (pg', Some s)"
      "leaf_node cb K pg' l r (insort_key fst (k, v) kvs)" "same_header pg pg'"
    | (full) "add_value pg (enc cb (Leaf k v)) = Some (pg, None)" "kvs \<noteq> []"
proof -
  let ?E = "add_mset (Meta True l r) (image_mset (\<lambda>(k, v). Leaf k v) (mset kvs))"
  have nd: "node cb K pg ?E" and so: "sorted_wrt (<) (map fst kvs)"
    and hs: "2 \<le> nslots (data pg) \<or> holes (data pg) = 0 \<and> l = None"
    using n by (simp_all add: leaf_node_def)
  have e: "entry_in K (Leaf k v)" "entry_in K (Meta True l r)" using k by simp_all
  note room = node_room [OF nd]
  show thesis
  proof (rule node_add [OF cb nd e(1)])
    fix p s
    assume p: "add_value pg (enc cb (Leaf k v)) = Some (p, Some s)" "node cb K p (add_mset (Leaf k v) ?E)" "same_header pg p"
      "nslots (data p) = (if size ?E < nslots (data pg) then nslots (data pg) else Suc (nslots (data pg)))"
      "holes (data p) \<le> holes (data pg)"
    have "leaf_node cb K p l r (insort_key fst (k, v) kvs)"
      using p(2,4,5) hs room(3) strict_insort [OF so k(2)] by (simp add: leaf_node_def mset_insort add_mset_commute)
    then show thesis by (rule added [OF p(1) _ p(3)])
  next
    assume a: "add_value pg (enc cb (Leaf k v)) = Some (pg, None)" "\<not> add_fits pg (enc cb (Leaf k v))"
    have "kvs \<noteq> []"
    proof
      assume nil: "kvs = []"
      have ok: "layout_ok (data pg)" by (rule node_layout [OF nd])
      have fb: "free_bytes pg > 154" using room(1,5) cbor_okD(4) [OF cb e(2)] nil by simp
      have le: "length (enc cb (Leaf k v)) \<le> 150" by (rule cbor_okD(4) [OF cb e(1)])
      show False
      proof (cases "2 \<le> nslots (data pg)")
        case True
        then show ?thesis using a(2) room(4) nil fb le by (simp add: add_fits_def)
      next
        case False
        then have "fsp_of (data pg) - hdr (data pg) = free_bytes pg"
          using hs layout_okD(4) [OF ok] by (simp add: free_bytes_def)
        then show ?thesis using a(2) room(3,4) nil False fb le by (simp add: add_fits_def)
      qed
    qed
    then show thesis by (rule full [OF a(1)])
  qed
qed

text \<open>What a split of a leaf does to the two pages.\<close>

lemma leaf_split:
  assumes cb: "cbor_ok cb K" and n: "leaf_node cb K pg l r kvs" and k: "k \<in> K" "k \<notin> fst ` set kvs" "kvs \<noteq> []"
    and es: "es = insort_key fst (k, v) kvs" and mid: "mid = length es div 2"
  obtains pgd ds where "drain_leaf cb pg = Some (pgd, Inr (l, r, ds))" "sort_key leaf_order (ds @ [(k, v)]) = es"
    "same_header pg pgd" "0 < mid" "mid < length es"
    "\<And>p n pid. blank_page p n \<Longrightarrow> \<exists>p'. init_node cb (Meta True (Some pid) r # map (\<lambda>(k, v). Leaf k v) (drop mid es)) p = Some (p', Inr ()) \<and>
       leaf_node cb K p' (Some pid) r (drop mid es) \<and> carries p' n"
    "\<And>rid. \<exists>p'. add_entries cb (Meta True l (Some rid) # map (\<lambda>(k, v). Leaf k v) (take mid es)) pgd = Some (p', Inr ()) \<and>
       leaf_node cb K p' l (Some rid) (take mid es) \<and> same_header pg p'"
proof -
  let ?L = "\<lambda>(k, v). Leaf k v"
  have nd: "node cb K pg (add_mset (Meta True l r) (image_mset ?L (mset kvs)))" and so: "sorted_wrt (<) (map fst kvs)"
    using n by (simp_all add: leaf_node_def)
  have e: "entry_in K (Leaf k v)" using k by simp
  have ses: "sorted_wrt (<) (map fst es)" unfolding es by (rule strict_insort [OF so k(2)])
  have me: "mset es = add_mset (k, v) (mset kvs)" by (simp add: es mset_insort)
  have len: "length es = Suc (length kvs)" by (simp add: es length_insort)
  then have m: "0 < mid" "mid < length es" using k(3) mid by (cases kvs; simp)+
  obtain pgd ds where d: "drain_leaf cb pg = Some (pgd, Inr (l, r, ds))" "mset ds = mset kvs" "node cb K pgd {#}"
    "same_header pg pgd" "nslots (data pgd) = nslots (data pg)"
    by (rule drain_leaf_node [OF cb nd])
  have srt: "sort_key leaf_order (ds @ [(k, v)]) = es"
    by (rule sort_by_key [OF _ ses]) (use d(2) me leaf_order_less in simp_all)
  have xy: "mset (map ?L (take mid es) @ map ?L (drop mid es)) = add_mset (Leaf k v) (image_mset ?L (mset kvs))"
    "length (map ?L (take mid es)) = length (map ?L (take mid es) @ map ?L (drop mid es)) div 2"
    using me mid m by (simp_all flip: map_append add: mset_map del: mset_append)
  note room = split_room [OF cb nd e _ xy]
  have sd: "sorted_wrt (<) (map fst (drop mid es))" "sorted_wrt (<) (map fst (take mid es))"
    using ses by (simp_all flip: drop_map take_map add: sorted_wrt_drop sorted_wrt_take)
  have right: "\<exists>p'. init_node cb (Meta True (Some pid) r # map ?L (drop mid es)) p = Some (p', Inr ()) \<and>
      leaf_node cb K p' (Some pid) r (drop mid es) \<and> carries p' n" if b: "blank_page p n" for p n pid
  proof -
    let ?m = "Meta True (Some pid) r"
    obtain p' where p': "init_node cb (?m # map ?L (drop mid es)) p = Some (p', Inr ())"
      "node cb K p' (mset (?m # map ?L (drop mid es)))" "carries p' n"
      using init_node_ok [OF cb b, of "?m # map ?L (drop mid es)"] room(3) [of ?m] room(4) [of ?m] by auto
    have "leaf_node cb K p' (Some pid) r (drop mid es)"
      using p'(2) sd(1) node_room(3) [OF p'(2)] m(2) by (simp add: leaf_node_def)
    then show ?thesis using p' by blast
  qed
  have left: "\<exists>p'. add_entries cb (Meta True l (Some rid) # map ?L (take mid es)) pgd = Some (p', Inr ()) \<and>
      leaf_node cb K p' l (Some rid) (take mid es) \<and> same_header pg p'" for rid
  proof -
    let ?m = "Meta True l (Some rid)"
    obtain p' where p': "add_entries cb (?m # map ?L (take mid es)) pgd = Some (p', Inr ())"
      "node cb K p' (mset (?m # map ?L (take mid es)))" "same_header pgd p'"
      using fill_drained [OF cb d(3), of "?m # map ?L (take mid es)"] room(1,2) [of ?m] room(4) [of ?m] d(5) by auto
    have "leaf_node cb K p' l (Some rid) (take mid es)"
      using p'(2) sd(2) node_room(3) [OF p'(2)] m by (simp add: leaf_node_def)
    then show ?thesis using p'(1,3) same_header_trans [OF d(4)] by blast
  qed
  show thesis by (rule that [OF d(1) srt d(4) m right left])
qed

lemma internal_add:
  assumes cb: "cbor_ok cb K" and n: "internal_node cb K pg cs" and k: "k \<in> K" "Some k \<notin> fst ` set cs"
  obtains (added) pg' s where "add_value pg (enc cb (Internal (Some k) c)) = Some (pg', Some s)"
      "internal_node cb K pg' (insort_key fst (Some k, c) cs)" "same_header pg pg'"
    | (full) "add_value pg (enc cb (Internal (Some k) c)) = Some (pg, None)"
proof -
  let ?E = "add_mset (Meta False None None) (image_mset (\<lambda>(k, c). Internal k c) (mset cs))"
  have nd: "node cb K pg ?E" and so: "sorted_wrt (<) (map fst cs)" using n by (simp_all add: internal_node_def)
  have e: "entry_in K (Internal (Some k) c)" using k by simp
  show thesis
  proof (rule node_add [OF cb nd e])
    fix p s
    assume p: "add_value pg (enc cb (Internal (Some k) c)) = Some (p, Some s)" "node cb K p (add_mset (Internal (Some k) c) ?E)"
      "same_header pg p"
    have "internal_node cb K p (insort_key fst (Some k, c) cs)"
      using p(2) strict_insort [OF so k(2)] by (simp add: internal_node_def mset_insort add_mset_commute)
    then show thesis by (rule added [OF p(1) _ p(3)])
  qed (rule full)
qed

lemma None_first: "sorted_wrt (<) (map fst ((ko, c) # cs)) \<Longrightarrow> x \<in> set cs \<Longrightarrow> None < fst x"
  by (cases ko) (auto simp: less_option_def split: option.splits)

lemma internal_split:
  assumes cb: "cbor_ok cb K" and n: "internal_node cb K pg cs" and k: "k \<in> K" "Some k \<notin> fst ` set cs" "cs \<noteq> []"
    and es: "es = insort_key fst (Some k, c) cs" and mid: "mid = length es div 2"
  obtains pgd ds where "drain_internal cb pg = Some (pgd, Inr ds)" "sort_key fst (ds @ [(Some k, c)]) = es"
    "same_header pg pgd" "0 < mid" "mid < length es"
    "\<And>p n. blank_page p n \<Longrightarrow> \<exists>p'. init_node cb (Meta False None None # Internal None (snd (es ! mid)) #
         map (\<lambda>(k, c). Internal k c) (drop (mid + 1) es)) p = Some (p', Inr ()) \<and>
       internal_node cb K p' ((None, snd (es ! mid)) # drop (mid + 1) es) \<and> carries p' n"
    "\<exists>p'. add_entries cb (Meta False None None # map (\<lambda>(k, c). Internal k c) (take mid es)) pgd = Some (p', Inr ()) \<and>
       internal_node cb K p' (take mid es) \<and> same_header pg p'"
proof -
  let ?I = "\<lambda>(k, c). Internal k c" and ?m = "Meta False None None"
  have nd: "node cb K pg (add_mset ?m (image_mset ?I (mset cs)))" and so: "sorted_wrt (<) (map fst cs)"
    using n by (simp_all add: internal_node_def)
  have e: "entry_in K (Internal (Some k) c)" "entry_in K ?m" using k by simp_all
  have ses: "sorted_wrt (<) (map fst es)" unfolding es by (rule strict_insort [OF so k(2)])
  have me: "mset es = add_mset (Some k, c) (mset cs)" by (simp add: es mset_insort)
  have len: "length es = Suc (length cs)" by (simp add: es length_insort)
  then have m: "0 < mid" "mid < length es" using k(3) mid by (cases cs; simp)+
  obtain pgd ds where d: "drain_internal cb pg = Some (pgd, Inr (sort_key fst ds))" "mset ds = mset cs" "node cb K pgd {#}"
    "same_header pg pgd" "nslots (data pgd) = nslots (data pg)"
    by (rule drain_internal_node [OF cb nd])
  have srt: "sort_key fst (sort_key fst ds @ [(Some k, c)]) = es"
    by (rule sort_by_key [OF _ ses]) (use d(2) me in simp_all)
  have xy: "mset (map ?I (take mid es) @ map ?I (drop mid es)) = add_mset (Internal (Some k) c) (image_mset ?I (mset cs))"
    "length (map ?I (take mid es)) = length (map ?I (take mid es) @ map ?I (drop mid es)) div 2"
    using me mid m by (simp_all flip: map_append add: mset_map del: mset_append)
  note room = split_room [OF cb nd e xy]
  have cut: "drop mid es = es ! mid # drop (mid + 1) es" using m(2) by (simp add: Cons_nth_drop_Suc)
  let ?r = "?m # Internal None (snd (es ! mid)) # map ?I (drop (mid + 1) es)"
  have sd: "sorted_wrt (<) (map fst (drop mid es))" "sorted_wrt (<) (map fst (take mid es))"
    using ses by (simp_all flip: drop_map take_map add: sorted_wrt_drop sorted_wrt_take)
  have sr: "sorted_wrt (<) (map fst ((None, snd (es ! mid)) # drop (mid + 1) es))"
    using sd(1) None_first [of "fst (es ! mid)" "snd (es ! mid)"] unfolding cut by simp
  have len_mid: "20 \<le> length (enc cb (?I (es ! mid)))" "length (enc cb (Internal None (snd (es ! mid)))) \<le> 150"
    using room(4) cbor_okD(3,4) [OF cb] unfolding cut by simp_all
  have fit: "4 * length ?r + weight (encs cb (mset ?r)) < 4072"
    using room(3) len_mid unfolding cut by simp
  have all: "\<forall>x\<in>set ?r. entry_in K x" using room(4) unfolding cut by simp
  have right: "\<exists>p'. init_node cb ?r p = Some (p', Inr ()) \<and>
      internal_node cb K p' ((None, snd (es ! mid)) # drop (mid + 1) es) \<and> carries p' n" if b: "blank_page p n" for p n
  proof -
    obtain p' where p': "init_node cb ?r p = Some (p', Inr ())" "node cb K p' (mset ?r)" "carries p' n"
      using init_node_ok [OF cb b all fit] by blast
    then show ?thesis using sr by (auto simp: internal_node_def)
  qed
  obtain p' where p': "add_entries cb (?m # map ?I (take mid es)) pgd = Some (p', Inr ())"
    "node cb K p' (mset (?m # map ?I (take mid es)))" "same_header pgd p'"
    using fill_drained [OF cb d(3), of "?m # map ?I (take mid es)"] room(1,2,4) d(5) by auto
  then have left: "\<exists>p'. add_entries cb (?m # map ?I (take mid es)) pgd = Some (p', Inr ()) \<and>
      internal_node cb K p' (take mid es) \<and> same_header pg p'"
    using sd(2) same_header_trans [OF d(4)] by (auto simp: internal_node_def)
  show thesis by (rule that [OF d(1) srt d(4) m right left])
qed

lemma leaf_delete:
  assumes n: "leaf_node cb K pg l r kvs" and kv: "(k, v) \<in> set kvs" "heap_view pg sid = Some (enc cb (Leaf k v))"
  obtains pg' u where "delete_value pg sid = Some (pg', u)" "leaf_node cb K pg' l r (filter (\<lambda>e. fst e \<noteq> k) kvs)" "same_header pg pg'"
proof -
  let ?L = "\<lambda>(k, v). Leaf k v"
  have nd: "node cb K pg (add_mset (Meta True l r) (image_mset ?L (mset kvs)))" and so: "sorted_wrt (<) (map fst kvs)"
    and hs: "2 \<le> nslots (data pg) \<or> holes (data pg) = 0 \<and> l = None"
    using n by (simp_all add: leaf_node_def)
  have wf: "heap_wf pg" using nd by (simp add: node_def)
  obtain p u where p: "delete_value pg sid = Some (p, u)" "heap_wf p" "heap_view p = (heap_view pg)(sid := None)"
    "same_header pg p" "nslots (data p) = nslots (data pg)"
    using delete_value_ok [OF wf, of sid] by metis
  have st: "stored pg = add_mset (enc cb (Leaf k v)) (stored p)"
    by (rule stored_remove [OF _ _ kv(2) p(3)]) (use wf p(2) in \<open>simp_all add: heap_wf_iff\<close>)
  obtain xs ys where xy: "kvs = xs @ (k, v) # ys" using kv(1) by (meson split_list)
  have "distinct (map fst kvs)" using so strict_sorted_iff by blast
  then have "k \<notin> fst ` set xs" "k \<notin> fst ` set ys" unfolding xy by simp_all
  then have "\<forall>e\<in>set xs. fst e \<noteq> k" "\<forall>e\<in>set ys. fst e \<noteq> k" by blast+
  then have fil: "filter (\<lambda>e. fst e \<noteq> k) kvs = xs @ ys" unfolding xy by (simp add: filter_id_conv)
  have "stored p = encs cb (add_mset (Meta True l r) (image_mset ?L (mset (xs @ ys))))"
    using st nd unfolding xy by (simp add: node_def)
  moreover have "sorted_wrt (<) (map fst (xs @ ys))" using so unfolding xy by (auto simp: sorted_wrt_append)
  moreover have "2 \<le> nslots (data pg)" using node_room(3) [OF nd] unfolding xy by simp
  ultimately have "leaf_node cb K p l r (xs @ ys)"
    using nd p(2,5) unfolding xy by (auto simp: leaf_node_def node_def)
  then show thesis using that p(1,4) fil by simp
qed

lemma leaf_rethread:
  assumes cb: "cbor_ok cb K" and n: "leaf_node cb K pg (Some l) r kvs" and fits: "meta_fits cb pg True (Some l) r l'"
  obtains pg' where "rethread cb l' pg = Some (pg', Inr ())" "leaf_node cb K pg' l' r kvs" "same_header pg pg'"
proof -
  have nd: "node cb K pg (add_mset (Meta True (Some l) r) (image_mset (\<lambda>(k, v). Leaf k v) (mset kvs)))"
    and hs: "2 \<le> nslots (data pg)" using n by (simp_all add: leaf_node_def)
  show thesis
  proof (rule rethread_node [OF cb nd _ fits])
    fix p assume p: "rethread cb l' pg = Some (p, Inr ())"
      "node cb K p (add_mset (Meta True l' r) (image_mset (\<lambda>(k, v). Leaf k v) (mset kvs)))" "same_header pg p"
      "nslots (data p) = nslots (data pg)"
    show thesis
      by (rule that [OF p(1) _ p(3)]) (use p(2,4) n in \<open>simp add: leaf_node_def\<close>)
  qed auto
qed

end
