(* ===== verification/BTreeShape.thy ===== *)
theory BTreeShape
  imports BTreeSplit
begin

text \<open>
  The shape of the tree. Every page of a tree has a label: its level and the interval of the keys below it. The invariant is
  local: the entries of an internal node name the pages of the next level whose intervals make up its own, the siblings
  of a leaf are the leaves whose intervals end and begin where its interval begins and ends, and two pages of one level
  have no key in common.
\<close>

section \<open>Labels\<close>

type_synonym bound = "IndexKey option"
type_synonym labels = "PageId \<Rightarrow> (nat \<times> bound \<times> bound) option"

definition between :: "bound \<Rightarrow> bound \<Rightarrow> IndexKey \<Rightarrow> bool" where
  "between lo hi k \<longleftrightarrow> (\<forall>a. lo = Some a \<longrightarrow> a \<le> k) \<and> (\<forall>b. hi = Some b \<longrightarrow> k < b)"

lemma between_simps [simp]:
  "between None None k" "between (Some a) None k \<longleftrightarrow> a \<le> k" "between None (Some b) k \<longleftrightarrow> k < b"
  "between (Some a) (Some b) k \<longleftrightarrow> a \<le> k \<and> k < b"
  by (simp_all add: between_def)

lemma between_cut:
  "between lo hi s \<Longrightarrow> between lo (Some s) k \<longleftrightarrow> between lo hi k \<and> k < s"
  "between lo hi s \<Longrightarrow> between (Some s) hi k \<longleftrightarrow> between lo hi k \<and> s \<le> k"
  by (auto simp: between_def)

definition labels_ok :: "labels \<Rightarrow> bool" where
  "labels_ok L \<longleftrightarrow> (\<forall>p h lo hi. L p = Some (h, lo, hi) \<longrightarrow> p \<noteq> 0 \<and> (\<exists>k. between lo hi k)) \<and>
     (\<forall>p q h lo hi lo' hi' k. L p = Some (h, lo, hi) \<longrightarrow> L q = Some (h, lo', hi') \<longrightarrow>
        between lo hi k \<longrightarrow> between lo' hi' k \<longrightarrow> p = q)"

lemma labels_okD:
  assumes "labels_ok L" and "L p = Some (h, lo, hi)"
  shows "p \<noteq> 0" "\<exists>k. between lo hi k"
    "L q = Some (h, lo', hi') \<Longrightarrow> between lo hi k \<Longrightarrow> between lo' hi' k \<Longrightarrow> p = q"
  using assms unfolding labels_ok_def by blast+

text \<open>A page split at \<open>s\<close>: it keeps the keys below, the new page \<open>q\<close> gets the others.\<close>

abbreviation split_label :: "labels \<Rightarrow> PageId \<Rightarrow> PageId \<Rightarrow> nat \<Rightarrow> bound \<Rightarrow> bound \<Rightarrow> IndexKey \<Rightarrow> labels" where
  "split_label L p q h lo hi s \<equiv> L(p \<mapsto> (h, lo, Some s), q \<mapsto> (h, Some s, hi))"

lemma labels_ok_split:
  assumes L: "labels_ok L" and p: "L p = Some (h, lo, hi)" and q: "L q = None" "q \<noteq> 0"
    and s: "between lo hi s" "\<exists>k. between lo (Some s) k"
  shows "labels_ok (split_label L p q h lo hi s)"
proof -
  have pq: "p \<noteq> q" using p q by auto
  note cut = between_cut [OF s(1)]
  have own: "\<exists>lo' hi'. L (if x = q then p else x) = Some (j, lo', hi') \<and> (\<forall>k. between a b k \<longrightarrow> between lo' hi' k)"
    if "split_label L p q h lo hi s x = Some (j, a, b)" for x j a b
    using that p pq cut by (auto split: if_splits)
  show ?thesis
    unfolding labels_ok_def
  proof (intro conjI allI impI)
    fix x j a b assume x: "split_label L p q h lo hi s x = Some (j, a, b)"
    show "x \<noteq> 0" using x q(2) labels_okD(1) [OF L] p by (auto split: if_splits)
    show "\<exists>k. between a b k" using x s labels_okD(2) [OF L] cut(2) by (auto split: if_splits)
  next
    fix x y j a b a' b' k
    assume x: "split_label L p q h lo hi s x = Some (j, a, b)" "split_label L p q h lo hi s y = Some (j, a', b')"
      and k: "between a b k" "between a' b' k"
    obtain u v u' v' where o: "L (if x = q then p else x) = Some (j, u, v)" "between u v k"
      "L (if y = q then p else y) = Some (j, u', v')" "between u' v' k"
      using own [OF x(1)] own [OF x(2)] k by blast
    have eq: "(if x = q then p else x) = (if y = q then p else y)" by (rule labels_okD(3) [OF L o(1,3,2,4)])
    show "x = y"
    proof (rule ccontr)
      assume ne: "x \<noteq> y"
      with eq have "x = q \<and> y = p \<or> x = p \<and> y = q" by (auto split: if_splits)
      then have "between (Some s) hi k \<and> between lo (Some s) k" using x k pq by auto
      then show False using cut by auto
    qed
  qed
qed

section \<open>Leaves and internal nodes at their places\<close>

definition siblings :: "labels \<Rightarrow> bound \<Rightarrow> bound \<Rightarrow> PageId option \<Rightarrow> PageId option \<Rightarrow> bool" where
  "siblings L lo hi l r \<longleftrightarrow>
     (case l of None \<Rightarrow> lo = None | Some x \<Rightarrow> lo \<noteq> None \<and> (\<exists>a. L x = Some (0, a, lo))) \<and>
     (case r of None \<Rightarrow> hi = None | Some y \<Rightarrow> hi \<noteq> None \<and> (\<exists>b. L y = Some (0, hi, b)))"

definition leaf_ok :: "cbor \<Rightarrow> IndexKey set \<Rightarrow> (PageId \<Rightarrow> Page option) \<Rightarrow> labels \<Rightarrow> PageId \<Rightarrow> bound \<Rightarrow> bound \<Rightarrow> bool" where
  "leaf_ok cb K F L p lo hi \<longleftrightarrow> (\<exists>pg l r kvs. F p = Some pg \<and> leaf_node cb K pg l r kvs \<and>
     (\<forall>e\<in>set kvs. between lo hi (fst e)) \<and> siblings L lo hi l r)"

lemma leaf_okI:
  "F p = Some pg \<Longrightarrow> leaf_node cb K pg l r kvs \<Longrightarrow> (\<And>e. e \<in> set kvs \<Longrightarrow> between lo hi (fst e)) \<Longrightarrow>
     siblings L lo hi l r \<Longrightarrow> leaf_ok cb K F L p lo hi"
  unfolding leaf_ok_def by blast

text \<open>The children of an internal node of level \<open>Suc h\<close> divide its interval at the keys.\<close>

fun spans :: "labels \<Rightarrow> nat \<Rightarrow> bound \<Rightarrow> bound \<Rightarrow> PageId \<Rightarrow> (IndexKey \<times> PageId) list \<Rightarrow> bool" where
  "spans L h lo hi c [] = (L c = Some (h, lo, hi))"
| "spans L h lo hi c ((k, d) # cs) = (L c = Some (h, lo, Some k) \<and> spans L h (Some k) hi d cs)"

abbreviation entries_of :: "PageId \<Rightarrow> (IndexKey \<times> PageId) list \<Rightarrow> (IndexKey option \<times> PageId) list" where
  "entries_of c cs \<equiv> (None, c) # map (\<lambda>(k, d). (Some k, d)) cs"

definition internal_ok :: "cbor \<Rightarrow> IndexKey set \<Rightarrow> (PageId \<Rightarrow> Page option) \<Rightarrow> labels \<Rightarrow> nat \<Rightarrow> PageId \<Rightarrow> bound \<Rightarrow> bound \<Rightarrow> bool" where
  "internal_ok cb K F L h p lo hi \<longleftrightarrow> (\<exists>pg c cs. F p = Some pg \<and> internal_node cb K pg (entries_of c cs) \<and> spans L h lo hi c cs)"

text \<open>The tree up to level \<open>j\<close>.\<close>

definition tree_upto :: "cbor \<Rightarrow> IndexKey set \<Rightarrow> (PageId \<Rightarrow> Page option) \<Rightarrow> labels \<Rightarrow> nat \<Rightarrow> bool" where
  "tree_upto cb K F L j \<longleftrightarrow> labels_ok L \<and> (\<forall>p lo hi. L p = Some (0, lo, hi) \<longrightarrow> leaf_ok cb K F L p lo hi) \<and>
     (\<forall>h p lo hi. h < j \<longrightarrow> L p = Some (Suc h, lo, hi) \<longrightarrow> internal_ok cb K F L h p lo hi)"

definition contents :: "cbor \<Rightarrow> IndexKey set \<Rightarrow> (PageId \<Rightarrow> Page option) \<Rightarrow> labels \<Rightarrow> (IndexKey \<times> ValueId) set" where
  "contents cb K F L = {e. \<exists>p lo hi pg l r kvs. L p = Some (0, lo, hi) \<and> F p = Some pg \<and> leaf_node cb K pg l r kvs \<and> e \<in> set kvs}"

lemma leaf_node_unique:
  assumes cb: "cbor_ok cb K" and "leaf_node cb K pg l r kvs" and "leaf_node cb K pg l' r' kvs'"
  shows "l = l'" "r = r'" "kvs = kvs'"
  using leaf_node_reads(2) [OF cb assms(2)] leaf_node_reads(2) [OF cb assms(3)] by simp_all

section \<open>Descent\<close>

abbreviation kids :: "PageId \<Rightarrow> (IndexKey \<times> PageId) list \<Rightarrow> PageId set" where
  "kids c cs \<equiv> insert c (snd ` set cs)"

lemma spans_child:
  assumes "spans L h lo hi c cs" and "between lo hi k"
  shows "\<exists>x a b. find_child (entries_of c cs) k = Some x \<and> x \<in> kids c cs \<and> L x = Some (h, a, b) \<and> between a b k"
proof -
  have "\<exists>x a b. find_child_loop (map (\<lambda>(k, d). (Some k, d)) cs) k c = x \<and> x \<in> kids c cs \<and> L x = Some (h, a, b) \<and> between a b k"
    using assms
  proof (induction cs arbitrary: lo c)
    case (Cons x cs)
    obtain k' d where x: "x = (k', d)" by (cases x)
    show ?case
    proof (cases "k' \<le> k")
      case True
      then have "between (Some k') hi k" using Cons.prems(2) by (simp add: between_def)
      then show ?thesis using Cons.IH [of "Some k'" d] Cons.prems(1) True by (auto simp: x)
    next
      case False
      then have "between lo (Some k') k" using Cons.prems(2) by (simp add: between_def)
      then show ?thesis using Cons.prems(1) False by (auto simp: x)
    qed
  qed simp
  then show ?thesis by (simp add: find_child_def index_def)
qed

lemma spans_label: "spans L h lo hi c cs \<Longrightarrow> x \<in> kids c cs \<Longrightarrow> \<exists>a b. L x = Some (h, a, b)"
proof (induction cs arbitrary: lo c)
  case (Cons y cs)
  obtain k d where y: "y = (k, d)" by (cases y)
  show ?case
  proof (cases "x = c")
    case False
    then have "x \<in> kids d cs" using Cons.prems(2) by (simp add: y)
    then show ?thesis using Cons.IH [of "Some k" d] Cons.prems(1) by (simp add: y)
  qed (use Cons.prems(1) y in simp)
qed simp

lemma spans_within:
  assumes L: "labels_ok L"
  shows "spans L h lo hi c cs \<Longrightarrow> x \<in> kids c cs \<Longrightarrow> L x = Some (h, a, b) \<Longrightarrow> between a b j \<Longrightarrow> between lo hi j"
proof (induction cs arbitrary: lo c x a b j)
  case (Cons y cs)
  obtain k d where y: "y = (k, d)" by (cases y)
  have c: "L c = Some (h, lo, Some k)" and sp: "spans L h (Some k) hi d cs" using Cons.prems(1) by (simp_all add: y)
  obtain i where i: "between lo (Some k) i" using labels_okD(2) [OF L c] by blast
  obtain a' b' i' where "L d = Some (h, a', b')" "between a' b' i'" using spans_label [OF sp, of d] labels_okD(2) [OF L] by blast
  then have i': "between (Some k) hi i'" using Cons.IH [OF sp, of d] by blast
  show ?case
  proof (cases "x = c")
    case True
    then show ?thesis using Cons.prems(3,4) c i' by (auto simp: between_def)
  next
    case False
    then have "between (Some k) hi j" using Cons.IH [OF sp _ Cons.prems(3,4)] Cons.prems(2) by (auto simp: y)
    then show ?thesis using i by (auto simp: between_def)
  qed
qed simp

lemma spans_cong: "(\<And>x. x \<in> kids c cs \<Longrightarrow> L' x = L x) \<Longrightarrow> spans L' h lo hi c cs = spans L h lo hi c cs"
  by (induction cs arbitrary: lo c) auto

lemma spans_append:
  "spans L h lo hi c (xs @ (s, d) # ys) \<longleftrightarrow> spans L h lo (Some s) c xs \<and> spans L h (Some s) hi d ys"
  by (induction xs arbitrary: lo c) auto

text \<open>A child that is split: the new page goes behind it.\<close>

lemma spans_insert:
  assumes L: "labels_ok L" and q: "L q = None" and x: "L x = Some (h, a, b)" and s: "between a b s" "\<exists>k. between a (Some s) k"
  shows "spans L h lo hi c cs \<Longrightarrow> x \<in> kids c cs \<Longrightarrow>
    spans (split_label L x q h a b s) h lo hi c (insort_key fst (s, q) cs)"
proof (induction cs arbitrary: lo c)
  case Nil
  then show ?case using x q by auto
next
  case (Cons y cs)
  obtain k d where y: "y = (k, d)" by (cases y)
  define L' where "L' = split_label L x q h a b s"
  have c: "L c = Some (h, lo, Some k)" and sp: "spans L h (Some k) hi d cs" using Cons.prems(1) by (simp_all add: y)
  have nq: "z \<noteq> q" if "z \<in> kids d cs" for z using spans_label [OF sp that] q by auto
  have xq: "x \<noteq> q" "c \<noteq> q" using x q c by auto
  show ?case
  proof (cases "x = c")
    case True
    then have ab: "a = lo" "b = Some k" using x c by auto
    have "x \<notin> kids d cs"
    proof
      assume d: "x \<in> kids d cs"
      have "between (Some k) hi s" by (rule spans_within [OF L sp d x s(1)])
      then show False using s(1) ab by (auto simp: between_def)
    qed
    then have "spans L' h (Some k) hi d cs = spans L h (Some k) hi d cs" unfolding L'_def using nq by (intro spans_cong) auto
    moreover have "s \<le> k" using s(1) ab by (auto simp: between_def)
    moreover have "L' c = Some (h, lo, Some s)" "L' q = Some (h, Some s, Some k)" using xq True ab by (simp_all add: L'_def)
    ultimately show ?thesis using sp unfolding L'_def [symmetric] by (simp add: y)
  next
    case False
    then have d: "x \<in> kids d cs" using Cons.prems(2) by (auto simp: y)
    obtain j where j: "between a (Some s) j" using s(2) by blast
    have "between (Some k) hi j" by (rule spans_within [OF L sp d x]) (use j s(1) between_cut(1) in blast)
    then have "\<not> s \<le> k" using j by (auto simp: between_def)
    moreover have "L' c = L c" using False xq by (simp add: L'_def)
    ultimately show ?thesis using Cons.IH [OF sp d] c unfolding L'_def [symmetric] by (simp add: y)
  qed
qed

section \<open>The entries of a tree\<close>

lemma tree_uptoD:
  assumes "tree_upto cb K F L j"
  shows "labels_ok L" "L p = Some (0, lo, hi) \<Longrightarrow> leaf_ok cb K F L p lo hi"
    "h < j \<Longrightarrow> L p = Some (Suc h, lo, hi) \<Longrightarrow> internal_ok cb K F L h p lo hi"
  using assms unfolding tree_upto_def by blast+

lemma tree_uptoI:
  assumes "labels_ok L" and "\<And>p lo hi. L p = Some (0, lo, hi) \<Longrightarrow> leaf_ok cb K F L p lo hi"
    and "\<And>h p lo hi. h < j \<Longrightarrow> L p = Some (Suc h, lo, hi) \<Longrightarrow> internal_ok cb K F L h p lo hi"
  shows "tree_upto cb K F L j"
  using assms unfolding tree_upto_def by blast

lemma leaf_at:
  assumes "tree_upto cb K F L j" and "L p = Some (0, lo, hi)"
  obtains pg l r kvs where "F p = Some pg" "leaf_node cb K pg l r kvs" "\<And>e. e \<in> set kvs \<Longrightarrow> between lo hi (fst e)"
    "siblings L lo hi l r"
  using tree_uptoD(2) [OF assms] unfolding leaf_ok_def by blast

lemma leaf_key:
  assumes cb: "cbor_ok cb K" and t: "tree_upto cb K F L j" and p: "L p = Some (0, lo, hi)" "F p = Some pg" "leaf_node cb K pg l r kvs"
    and e: "e \<in> set kvs"
  shows "between lo hi (fst e)"
  by (rule leaf_at [OF t p(1)]) (use p(2) e leaf_node_unique(3) [OF cb p(3)] in fastforce)

lemma leaf_contents:
  assumes cb: "cbor_ok cb K" and t: "tree_upto cb K F L j" and p: "L p = Some (0, lo, hi)" "between lo hi k"
    and pg: "F p = Some pg" "leaf_node cb K pg l r kvs"
  shows "(k, v) \<in> contents cb K F L \<longleftrightarrow> (k, v) \<in> set kvs"
proof
  assume "(k, v) \<in> contents cb K F L"
  then obtain q a b pg' l' r' kvs' where q: "L q = Some (0, a, b)" "F q = Some pg'" "leaf_node cb K pg' l' r' kvs'" "(k, v) \<in> set kvs'"
    unfolding contents_def by blast
  have "between a b k" using leaf_key [OF cb t q] by simp
  then have "q = p" using labels_okD(3) [OF tree_uptoD(1) [OF t] q(1) p(1)] p(2) by blast
  then have "pg' = pg" using q(2) pg(1) by simp
  then show "(k, v) \<in> set kvs" using leaf_node_unique(3) [OF cb q(3)] pg(2) q(4) by blast
next
  assume "(k, v) \<in> set kvs"
  then show "(k, v) \<in> contents cb K F L" using p(1) pg unfolding contents_def by blast
qed

text \<open>A sibling has no key of a leaf.\<close>

lemma sibling_keys:
  assumes cb: "cbor_ok cb K" and t: "tree_upto cb K F L j" and p: "L p = Some (0, lo, hi)" "between lo hi k"
    and x: "L x = Some (0, a, lo) \<and> lo \<noteq> None \<or> L x = Some (0, hi, b) \<and> hi \<noteq> None" and pg: "F x = Some pg" "leaf_node cb K pg l r kvs"
  shows "k \<notin> fst ` set kvs" "x \<noteq> p"
proof -
  have "\<not> between a lo k" if "lo \<noteq> None" using p(2) that by (auto simp: between_def)
  moreover have "\<not> between hi b k" if "hi \<noteq> None" using p(2) that by (auto simp: between_def)
  ultimately obtain a' b' where x': "L x = Some (0, a', b')" "\<not> between a' b' k" using x by blast
  show "k \<notin> fst ` set kvs"
    using leaf_key [OF cb t x'(1) pg] x'(2) by auto
  show "x \<noteq> p" using x' p by auto
qed

section \<open>A leaf changed in place\<close>

lemma tree_leaf_put:
  assumes cb: "cbor_ok cb K" and t: "tree_upto cb K F L j" and p: "L p = Some (0, lo, hi)"
    and pg: "F p = Some pg" "leaf_node cb K pg l r kvs" and pg': "leaf_node cb K pg' l r kvs'" "\<And>e. e \<in> set kvs' \<Longrightarrow> between lo hi (fst e)"
  shows "tree_upto cb K (F(p \<mapsto> pg')) L j"
    "contents cb K (F(p \<mapsto> pg')) L = {e \<in> contents cb K F L. \<not> between lo hi (fst e)} \<union> set kvs'"
proof -
  let ?F = "F(p \<mapsto> pg')"
  show "tree_upto cb K ?F L j"
  proof (rule tree_uptoI)
    fix x a b assume x: "L x = Some (0, a, b)"
    show "leaf_ok cb K ?F L x a b"
    proof (cases "x = p")
      case True
      then have ab: "a = lo" "b = hi" using x p by simp_all
      show ?thesis
      proof (rule leaf_at [OF t p])
        fix pg0 l0 r0 kvs0
        assume o: "F p = Some pg0" "leaf_node cb K pg0 l0 r0 kvs0" "siblings L lo hi l0 r0"
        then have "l0 = l" "r0 = r" using leaf_node_unique(1,2) [OF cb _ pg(2)] pg(1) by auto
        then show ?thesis using o(3) pg' True ab by (intro leaf_okI [of ?F x pg' cb K l r kvs']) simp_all
      qed
    qed (use tree_uptoD(2) [OF t x] in \<open>simp add: leaf_ok_def\<close>)
  next
    fix h x a b assume "h < j" "L x = Some (Suc h, a, b)"
    then show "internal_ok cb K ?F L h x a b" using tree_uptoD(3) [OF t] p by (auto simp: internal_ok_def)
  qed (rule tree_uptoD(1) [OF t])
  show "contents cb K ?F L = {e \<in> contents cb K F L. \<not> between lo hi (fst e)} \<union> set kvs'"
  proof (intro equalityI subsetI)
    fix e assume "e \<in> contents cb K ?F L"
    then obtain x a b pgx lx rx kx where x: "L x = Some (0, a, b)" "?F x = Some pgx" "leaf_node cb K pgx lx rx kx" "e \<in> set kx"
      unfolding contents_def by blast
    show "e \<in> {e \<in> contents cb K F L. \<not> between lo hi (fst e)} \<union> set kvs'"
    proof (cases "x = p")
      case True
      then have "kx = kvs'" using x(2) leaf_node_unique(3) [OF cb x(3)] pg'(1) by simp
      then show ?thesis using x(4) by simp
    next
      case False
      then have Fx: "F x = Some pgx" using x(2) by simp
      then have "between a b (fst e)" using leaf_key [OF cb t x(1) _ x(3,4)] by blast
      then have "\<not> between lo hi (fst e)" using labels_okD(3) [OF tree_uptoD(1) [OF t] x(1) p] False by blast
      moreover have "e \<in> contents cb K F L" using x(1,3,4) Fx unfolding contents_def by blast
      ultimately show ?thesis by simp
    qed
  next
    fix e assume "e \<in> {e \<in> contents cb K F L. \<not> between lo hi (fst e)} \<union> set kvs'"
    then consider "e \<in> set kvs'" | "e \<in> contents cb K F L" "\<not> between lo hi (fst e)" by blast
    then show "e \<in> contents cb K ?F L"
    proof cases
      case 1
      moreover have "?F p = Some pg'" by simp
      ultimately show ?thesis using p pg'(1) unfolding contents_def by blast
    next
      case 2
      then obtain x a b pgx lx rx kx where x: "L x = Some (0, a, b)" "F x = Some pgx" "leaf_node cb K pgx lx rx kx" "e \<in> set kx"
        unfolding contents_def by blast
      have "x \<noteq> p" using leaf_key [OF cb t x] 2(2) x(1) p by auto
      then have "?F x = Some pgx" using x(2) by simp
      then show ?thesis using x(1,3,4) unfolding contents_def by blast
    qed
  qed
qed

section \<open>A leaf that is split\<close>

definition ents :: "cbor \<Rightarrow> IndexKey set \<Rightarrow> (PageId \<Rightarrow> Page option) \<Rightarrow> PageId \<Rightarrow> (IndexKey \<times> ValueId) set" where
  "ents cb K F x = {e. \<exists>pg l r kvs. F x = Some pg \<and> leaf_node cb K pg l r kvs \<and> e \<in> set kvs}"

lemma contents_ents: "contents cb K F L = (\<Union>x\<in>{x. \<exists>lo hi. L x = Some (0, lo, hi)}. ents cb K F x)"
  unfolding contents_def ents_def by blast

lemma ents_leaf:
  assumes "cbor_ok cb K" and "F x = Some pg" and "leaf_node cb K pg l r kvs"
  shows "ents cb K F x = set kvs"
proof (intro equalityI subsetI)
  fix e assume "e \<in> ents cb K F x"
  then obtain l' r' kvs' where "leaf_node cb K pg l' r' kvs'" "e \<in> set kvs'" unfolding ents_def using assms(2) by auto
  then show "e \<in> set kvs" using leaf_node_unique(3) [OF assms(1) assms(3)] by blast
qed (use assms(2,3) in \<open>auto simp: ents_def\<close>)

lemma same_lower:
  assumes L: "labels_ok L" and x: "L x = Some (h, Some a, b)" and y: "L y = Some (h, Some a, b')"
  shows "x = y"
proof -
  have "between (Some a) b a" "between (Some a) b' a"
    using labels_okD(2) [OF L x] labels_okD(2) [OF L y] by (auto simp: between_def)
  then show ?thesis by (rule labels_okD(3) [OF L x y])
qed

lemma tree_leaf_split:
  assumes cb: "cbor_ok cb K" and t: "tree_upto cb K F L j" and p: "L p = Some (0, lo, hi)"
    and pg: "F p = Some pg" "leaf_node cb K pg l r kvs"
    and q: "L q = None" "q \<noteq> 0" and s: "between lo hi s" "\<exists>k. between lo (Some s) k"
    and left: "F' p = Some pgl" "leaf_node cb K pgl l (Some q) xs" "\<And>e. e \<in> set xs \<Longrightarrow> between lo (Some s) (fst e)"
    and right: "F' q = Some pgr" "leaf_node cb K pgr (Some p) r ys" "\<And>e. e \<in> set ys \<Longrightarrow> between (Some s) hi (fst e)"
    and other: "\<And>x. x \<noteq> p \<Longrightarrow> x \<noteq> q \<Longrightarrow> r \<noteq> Some x \<Longrightarrow> F' x = F x"
    and nxt: "\<And>y pgy ly ry ky. r = Some y \<Longrightarrow> F y = Some pgy \<Longrightarrow> leaf_node cb K pgy ly ry ky \<Longrightarrow>
      \<exists>pgy'. F' y = Some pgy' \<and> leaf_node cb K pgy' (Some q) ry ky"
  shows "tree_upto cb K F' (split_label L p q 0 lo hi s) 0"
proof (rule tree_uptoI)
  define L' where "L' = split_label L p q 0 lo hi s"
  have pq: "p \<noteq> q" using p q by auto
  have L'pq: "L' p = Some (0, lo, Some s)" "L' q = Some (0, Some s, hi)" using pq by (simp_all add: L'_def)
  have L'x: "L' x = L x" if "x \<noteq> p" "x \<noteq> q" for x using that by (simp add: L'_def)
  have lower: "\<exists>b. L' x = Some (0, a, b)" if "L x = Some (0, a, b)" for x a b
    using that p q L'pq L'x by (cases "x = p"; cases "x = q") auto
  note L = tree_uptoD(1) [OF t]
  show "labels_ok L'" unfolding L'_def by (rule labels_ok_split [OF L p q s])
  have sib: "siblings L lo hi l r"
    by (rule leaf_at [OF t p]) (use pg leaf_node_unique(1,2) [OF cb pg(2)] in auto)
  fix x a b assume x: "L' x = Some (0, a, b)"
  consider "x = p" | "x = q" | "x \<noteq> p" "x \<noteq> q" "r = Some x" | "x \<noteq> p" "x \<noteq> q" "r \<noteq> Some x" by blast
  then show "leaf_ok cb K F' L' x a b"
  proof cases
    case 1
    have "\<exists>a. L' z = Some (0, a, lo)" if z: "l = Some z" for z
    proof -
      obtain a where a: "L z = Some (0, a, lo)" "lo \<noteq> None" using sib z by (auto simp: siblings_def)
      obtain k where k: "between a lo k" using labels_okD(2) [OF L a(1)] by blast
      have "z \<noteq> p"
      proof
        assume "z = p"
        then have "a = lo" using a(1) p by simp
        then show False using k a(2) by (auto simp: between_def)
      qed
      moreover have "z \<noteq> q" using a(1) q(1) by auto
      ultimately show ?thesis using a(1) L'x [of z] by simp
    qed
    then have "siblings L' lo (Some s) l (Some q)" using sib L'pq(2) by (auto simp: siblings_def split: option.splits)
    then show ?thesis using x 1 L'pq(1) left by (intro leaf_okI [of F' x pgl cb K l "Some q" xs]) simp_all
  next
    case 2
    have "siblings L' (Some s) hi (Some p) r" using sib L'pq(1) lower by (auto simp: siblings_def split: option.splits)
    then show ?thesis using x 2 L'pq(2) right by (intro leaf_okI [of F' x pgr cb K "Some p" r ys]) simp_all
  next
    case 3
    have Lx: "L x = Some (0, a, b)" using x L'x 3(1,2) by simp
    then have a: "a = hi" "hi \<noteq> None" using sib 3(3) by (auto simp: siblings_def)
    obtain pgy ly ry ky where y: "F x = Some pgy" "leaf_node cb K pgy ly ry ky" "\<And>e. e \<in> set ky \<Longrightarrow> between a b (fst e)"
      "siblings L a b ly ry" by (rule leaf_at [OF t Lx]) blast
    obtain pgy' where y': "F' x = Some pgy'" "leaf_node cb K pgy' (Some q) ry ky" using nxt [OF 3(3) y(1,2)] by blast
    have "siblings L' a b (Some q) ry" using y(4) a L'pq(2) lower by (auto simp: siblings_def split: option.splits)
    then show ?thesis using y' y(3) by (intro leaf_okI [of F' x pgy' cb K "Some q" ry ky])
  next
    case 4
    have Lx: "L x = Some (0, a, b)" using x L'x 4(1,2) by simp
    obtain pgx lx rx kx where y: "F x = Some pgx" "leaf_node cb K pgx lx rx kx" "\<And>e. e \<in> set kx \<Longrightarrow> between a b (fst e)"
      "siblings L a b lx rx" by (rule leaf_at [OF t Lx]) blast
    have "\<exists>c. L' z = Some (0, c, a)" if z: "lx = Some z" for z
    proof -
      obtain c where c: "L z = Some (0, c, a)" "a \<noteq> None" using y(4) z by (auto simp: siblings_def)
      have "z \<noteq> p"
      proof
        assume "z = p"
        then have "a = hi" using c(1) p by simp
        then obtain w h' where w: "r = Some w" "L w = Some (0, a, h')" using sib c(2) by (auto simp: siblings_def split: option.splits)
        then show False using same_lower [OF L, of w 0 _ h' x b] Lx c(2) 4(3) by auto
      qed
      moreover have "z \<noteq> q" using c(1) q(1) by auto
      ultimately show ?thesis using c(1) L'x [of z] by simp
    qed
    then have "siblings L' a b lx rx" using y(4) lower by (auto simp: siblings_def split: option.splits)
    moreover have "F' x = Some pgx" using other 4 y(1) by simp
    ultimately show ?thesis using y(2,3) by (intro leaf_okI [of F' x pgx cb K lx rx kx])
  qed
qed simp

lemma contents_leaf_split:
  assumes cb: "cbor_ok cb K" and t: "tree_upto cb K F L j" and p: "L p = Some (0, lo, hi)"
    and pg: "F p = Some pg" "leaf_node cb K pg l r kvs" and q: "L q = None"
    and left: "F' p = Some pgl" "leaf_node cb K pgl l (Some q) xs" and right: "F' q = Some pgr" "leaf_node cb K pgr (Some p) r ys"
    and other: "\<And>x. x \<noteq> p \<Longrightarrow> x \<noteq> q \<Longrightarrow> r \<noteq> Some x \<Longrightarrow> F' x = F x"
    and nxt: "\<And>y pgy ly ry ky. r = Some y \<Longrightarrow> F y = Some pgy \<Longrightarrow> leaf_node cb K pgy ly ry ky \<Longrightarrow>
      \<exists>pgy'. F' y = Some pgy' \<and> leaf_node cb K pgy' (Some q) ry ky"
    and xy: "set xs \<union> set ys = insert e (set kvs)"
  shows "contents cb K F' (split_label L p q 0 lo hi s) = insert e (contents cb K F L)"
proof -
  let ?I = "{x. \<exists>lo hi. L x = Some (0, lo, hi)} - {p}"
  have pq: "p \<noteq> q" "q \<notin> ?I" using p q by auto
  have same: "ents cb K F' x = ents cb K F x" if x: "x \<in> ?I" for x
  proof (cases "r = Some x")
    case True
    obtain a b where "L x = Some (0, a, b)" using x by blast
    then obtain pgy ly ry ky where y: "F x = Some pgy" "leaf_node cb K pgy ly ry ky" by (rule leaf_at [OF t])
    obtain pgy' where y': "F' x = Some pgy'" "leaf_node cb K pgy' (Some q) ry ky" using nxt [OF True y] by blast
    show ?thesis using ents_leaf [of cb K F', OF cb y'] ents_leaf [of cb K F, OF cb y] by simp
  next
    case False
    then have "F' x = F x" using other x pq(2) by blast
    then show ?thesis by (simp add: ents_def)
  qed
  have "{x. \<exists>a b. split_label L p q 0 lo hi s x = Some (0, a, b)} = insert p (insert q ?I)" using pq(1) by auto
  then have "contents cb K F' (split_label L p q 0 lo hi s) = set xs \<union> set ys \<union> (\<Union>x\<in>?I. ents cb K F x)"
    unfolding contents_ents using same ents_leaf [of cb K F', OF cb left] ents_leaf [of cb K F', OF cb right] by auto
  moreover have I: "{x. \<exists>a b. L x = Some (0, a, b)} = insert p ?I" using p by auto
  have "contents cb K F L = set kvs \<union> (\<Union>x\<in>?I. ents cb K F x)"
    unfolding contents_ents by (subst I) (simp only: UN_insert ents_leaf [of cb K F, OF cb pg])
  ultimately show ?thesis using xy by auto
qed

section \<open>The levels above\<close>

text \<open>The labels of the levels from \<open>h\<close> on.\<close>

definition upper :: "labels \<Rightarrow> nat \<Rightarrow> labels" where
  "upper L h = (\<lambda>p. case L p of Some (j, lo, hi) \<Rightarrow> if h \<le> j then Some (j, lo, hi) else None | None \<Rightarrow> None)"

lemma upper_Some: "h \<le> j \<Longrightarrow> upper L h p = Some (j, lo, hi) \<longleftrightarrow> L p = Some (j, lo, hi)"
  by (auto simp: upper_def split: option.splits if_splits)

lemma upper_upper: "upper (upper L h) (Suc h) = upper L (Suc h)"
  by (auto simp: upper_def fun_eq_iff split: option.splits)

lemma upper_split: "h \<le> j \<Longrightarrow> upper (split_label L p q j lo hi s) h = split_label (upper L h) p q j lo hi s"
  by (auto simp: upper_def fun_eq_iff)

lemma upper_cong: "upper L h = upper L' h \<Longrightarrow> h \<le> j \<Longrightarrow> L p = Some (j, lo, hi) \<longleftrightarrow> L' p = Some (j, lo, hi)"
  using upper_Some by metis

lemma spans_upper: "upper L h = upper L' h \<Longrightarrow> spans L h lo hi c cs = spans L' h lo hi c cs"
  by (induction cs arbitrary: lo c) (auto simp: upper_cong)

lemma tree_above:
  assumes t: "tree_upto cb K F L (Suc h)" and t1: "tree_upto cb K F1 L1 h" and u: "upper L1 h = upper L h"
    and F: "\<And>p lo hi. L p = Some (Suc h, lo, hi) \<Longrightarrow> F1 p = F p"
  shows "tree_upto cb K F1 L1 (Suc h)"
proof (rule tree_uptoI)
  fix g p lo hi assume g: "g < Suc h" and p: "L1 p = Some (Suc g, lo, hi)"
  show "internal_ok cb K F1 L1 g p lo hi"
  proof (cases "g < h")
    case True
    then show ?thesis using tree_uptoD(3) [OF t1] p by blast
  next
    case False
    then have gh: "g = h" using g by simp
    then have Lp: "L p = Some (Suc h, lo, hi)" using p upper_cong [OF u, of "Suc h"] by simp
    then show ?thesis using tree_uptoD(3) [OF t, of h p lo hi] F [OF Lp] spans_upper [OF u] by (simp add: internal_ok_def gh)
  qed
qed (use tree_uptoD(1,2) [OF t1] in blast)+

lemma contents_cong:
  assumes "\<And>x lo hi. L x = Some (0, lo, hi) \<longleftrightarrow> L' x = Some (0, lo, hi)" and "\<And>x lo hi. L x = Some (0, lo, hi) \<Longrightarrow> F x = F' x"
  shows "contents cb K F L = contents cb K F' L'"
proof -
  have "ents cb K F x = ents cb K F' x" if "L x = Some (0, lo, hi)" for x lo hi using assms(2) [OF that] by (simp add: ents_def)
  then show ?thesis using assms(1) unfolding contents_ents by (intro SUP_cong) auto
qed

lemma spans_level:
  "(\<And>x a b. L x = Some (h, a, b) \<longleftrightarrow> L' x = Some (h, a, b)) \<Longrightarrow> spans L h lo hi c cs = spans L' h lo hi c cs"
  by (induction cs arbitrary: lo c) auto

lemma upper_parent:
  assumes "L x = Some (h, a, b)" and "L q = None" and "upper L1 h = split_label (upper L h) x q h a b s"
  shows "upper L1 (Suc h) = upper L (Suc h)"
proof -
  have "upper (split_label L x q h a b s) (Suc h) = upper L (Suc h)" using assms(1,2) by (auto simp: upper_def fun_eq_iff)
  then show ?thesis
    using upper_upper [of L1 h] assms(3) upper_split [of h h L x a s q b] upper_upper [of "split_label L x q h a b s" h] by simp
qed

text \<open>A child \<open>x\<close> of \<open>p\<close> has been split: the children of \<open>p\<close> with the new page, and the other nodes of the level.\<close>

lemma parent_spans:
  assumes t: "tree_upto cb K F L (Suc h)" and sp: "spans L h lo hi c cs" and x: "x \<in> kids c cs" "L x = Some (h, a, b)"
    and q: "L q = None" and s: "between a b s" "\<exists>k. between a (Some s) k" and u: "upper L1 h = split_label (upper L h) x q h a b s"
  shows "spans L1 h lo hi c (insort_key fst (s, q) cs)"
proof -
  have "upper L1 h = upper (split_label L x q h a b s) h" using u upper_split [of h h L x a s q b] by simp
  then show ?thesis
    using spans_upper spans_insert [OF tree_uptoD(1) [OF t] q x(2) s sp x(1)] by blast
qed

lemma others_ok:
  assumes t: "tree_upto cb K F L (Suc h)" and p: "L p = Some (Suc h, lo, hi)" and sp: "spans L h lo hi c cs"
    and x: "x \<in> kids c cs" "L x = Some (h, a, b)" and q: "L q = None" and u: "upper L1 h = split_label (upper L h) x q h a b s"
    and p': "L p' = Some (Suc h, lo', hi')" "p' \<noteq> p" and F: "F1 p' = F p'"
  shows "internal_ok cb K F1 L1 h p' lo' hi'"
proof -
  note L = tree_uptoD(1) [OF t]
  obtain pg c' cs' where o: "F p' = Some pg" "internal_node cb K pg (entries_of c' cs')" "spans L h lo' hi' c' cs'"
    using tree_uptoD(3) [OF t _ p'(1)] unfolding internal_ok_def by auto
  obtain k where k: "between a b k" using labels_okD(2) [OF L x(2)] by blast
  have "x \<notin> kids c' cs'"
  proof
    assume "x \<in> kids c' cs'"
    then have "between lo' hi' k" "between lo hi k" using spans_within [OF L o(3) _ x(2) k] spans_within [OF L sp x k] by blast+
    then show False using labels_okD(3) [OF L p'(1) p] p'(2) by blast
  qed
  moreover have "q \<notin> kids c' cs'" using spans_label [OF o(3), of q] q by auto
  ultimately have "spans (split_label L x q h a b s) h lo' hi' c' cs' = spans L h lo' hi' c' cs'"
    by (intro spans_cong) auto
  moreover have "upper L1 h = upper (split_label L x q h a b s) h" using u upper_split [of h h L x a s q b] by simp
  ultimately have "spans L1 h lo' hi' c' cs'" using spans_upper o(3) by blast
  then show ?thesis using o(1,2) F unfolding internal_ok_def by auto
qed

lemma tree_parent_add:
  assumes t: "tree_upto cb K F L (Suc h)" and t1: "tree_upto cb K F1 L1 h" and p: "L p = Some (Suc h, lo, hi)" and sp: "spans L h lo hi c cs"
    and x: "x \<in> kids c cs" "L x = Some (h, a, b)" and q: "L q = None" and s: "between a b s" "\<exists>k. between a (Some s) k"
    and u: "upper L1 h = split_label (upper L h) x q h a b s" and F: "\<And>p lo hi. L p = Some (Suc h, lo, hi) \<Longrightarrow> F1 p = F p"
    and pg: "internal_node cb K pg (entries_of c (insort_key fst (s, q) cs))"
  shows "tree_upto cb K (F1(p \<mapsto> pg)) L1 (Suc h)" "upper L1 (Suc h) = upper L (Suc h)"
    "contents cb K (F1(p \<mapsto> pg)) L1 = contents cb K F1 L1"
proof -
  let ?F = "F1(p \<mapsto> pg)"
  show up: "upper L1 (Suc h) = upper L (Suc h)" by (rule upper_parent [OF x(2) q u])
  have lev: "L1 p' = Some (Suc h, lo', hi') \<longleftrightarrow> L p' = Some (Suc h, lo', hi')" for p' lo' hi' by (rule upper_cong [OF up]) simp
  have Lp: "L1 p = Some (Suc h, lo, hi)" using p lev by simp
  show "contents cb K ?F L1 = contents cb K F1 L1"
    by (rule contents_cong) (use Lp in auto)
  show "tree_upto cb K ?F L1 (Suc h)"
  proof (rule tree_uptoI)
    fix x' a' b' assume x': "L1 x' = Some (0, a', b')"
    then have "x' \<noteq> p" using Lp by auto
    then show "leaf_ok cb K ?F L1 x' a' b'" using tree_uptoD(2) [OF t1 x'] by (simp add: leaf_ok_def)
  next
    fix g p' lo' hi' assume g: "g < Suc h" and p': "L1 p' = Some (Suc g, lo', hi')"
    show "internal_ok cb K ?F L1 g p' lo' hi'"
    proof (cases "g < h")
      case True
      then have "p' \<noteq> p" using Lp p' by auto
      then show ?thesis using tree_uptoD(3) [OF t1 True p'] by (simp add: internal_ok_def)
    next
      case False
      then have gh: "g = h" using g by simp
      then have Lp': "L p' = Some (Suc h, lo', hi')" using p' lev by simp
      show ?thesis
      proof (cases "p' = p")
        case True
        then have "lo' = lo" "hi' = hi" using Lp' p by auto
        then show ?thesis using pg parent_spans [OF t sp x q s u] True gh by (auto simp: internal_ok_def)
      next
        case False
        have "internal_ok cb K F1 L1 h p' lo' hi'" by (rule others_ok [OF t p sp x q u Lp' False]) (rule F [OF Lp'])
        then show ?thesis using False gh by (simp add: internal_ok_def)
      qed
    qed
  qed (rule tree_uptoD(1) [OF t1])
qed

lemma tree_parent_split:
  assumes t: "tree_upto cb K F L (Suc h)" and t1: "tree_upto cb K F1 L1 h" and p: "L p = Some (Suc h, lo, hi)" and sp: "spans L h lo hi c cs"
    and x: "x \<in> kids c cs" "L x = Some (h, a, b)" and q: "L q = None" and s: "between a b s" "\<exists>k. between a (Some s) k"
    and u: "upper L1 h = split_label (upper L h) x q h a b s" and F: "\<And>p lo hi. L p = Some (Suc h, lo, hi) \<Longrightarrow> F1 p = F p"
    and cut: "insort_key fst (s, q) cs = us @ (s', d) # vs" and n: "L1 n = None" "n \<noteq> 0"
    and pg: "internal_node cb K pgl (entries_of c us)" "internal_node cb K pgr (entries_of d vs)"
  shows "tree_upto cb K (F1(n \<mapsto> pgr, p \<mapsto> pgl)) (split_label L1 p n (Suc h) lo hi s') (Suc h)"
    "upper (split_label L1 p n (Suc h) lo hi s') (Suc h) = split_label (upper L (Suc h)) p n (Suc h) lo hi s'"
    "contents cb K (F1(n \<mapsto> pgr, p \<mapsto> pgl)) (split_label L1 p n (Suc h) lo hi s') = contents cb K F1 L1"
    "between lo hi s'" "\<exists>k. between lo (Some s') k"
proof -
  let ?F = "F1(n \<mapsto> pgr, p \<mapsto> pgl)"
  define L2 where "L2 = split_label L1 p n (Suc h) lo hi s'"
  have up: "upper L1 (Suc h) = upper L (Suc h)" by (rule upper_parent [OF x(2) q u])
  have lev: "L1 p' = Some (Suc h, lo', hi') \<longleftrightarrow> L p' = Some (Suc h, lo', hi')" for p' lo' hi' by (rule upper_cong [OF up]) simp
  have Lp: "L1 p = Some (Suc h, lo, hi)" using p lev by simp
  have pn: "p \<noteq> n" using Lp n by auto
  show up2: "upper (split_label L1 p n (Suc h) lo hi s') (Suc h) = split_label (upper L (Suc h)) p n (Suc h) lo hi s'"
    using up by (simp add: upper_split)
  note L1 = tree_uptoD(1) [OF t1]
  have "spans L1 h lo hi c (us @ (s', d) # vs)" using parent_spans [OF t sp x q s u] cut by simp
  then have l: "spans L1 h lo (Some s') c us" and r: "spans L1 h (Some s') hi d vs" by (simp_all add: spans_append)
  have k: "\<exists>k. between lo (Some s') k" "\<exists>k. between (Some s') hi k"
    using spans_label [OF l, of c] spans_within [OF L1 l, of c] spans_label [OF r, of d] spans_within [OF L1 r, of d] labels_okD(2) [OF L1]
    by (metis insertI1)+
  then show s': "between lo hi s'" "\<exists>k. between lo (Some s') k" by (auto simp: between_def)
  have L2: "labels_ok L2" unfolding L2_def by (rule labels_ok_split [OF L1 Lp n s'])
  have low: "L2 y = Some (g, a', b') \<longleftrightarrow> L1 y = Some (g, a', b')" if "g < Suc h" for g y a' b'
    using that Lp n pn by (auto simp: L2_def)
  have same: "?F y = F1 y" if "L1 y = Some (g, a', b')" "y \<noteq> p" for g y a' b' using that n by auto
  show "contents cb K ?F (split_label L1 p n (Suc h) lo hi s') = contents cb K F1 L1"
    unfolding L2_def [symmetric] by (rule contents_cong [symmetric]) (use low same Lp in auto)
  have sps: "spans L2 g lo' hi' c' cs' \<longleftrightarrow> spans L1 g lo' hi' c' cs'" if "g < Suc h" for g lo' hi' c' cs'
    by (rule spans_level) (use low that in blast)
  show "tree_upto cb K ?F (split_label L1 p n (Suc h) lo hi s') (Suc h)"
    unfolding L2_def [symmetric]
  proof (rule tree_uptoI [OF L2])
    fix y a' b' assume "L2 y = Some (0, a', b')"
    then have y: "L1 y = Some (0, a', b')" using low by simp
    then have "?F y = F1 y" using same Lp by auto
    moreover have "siblings L2 a' b' l' r' = siblings L1 a' b' l' r'" for l' r' using low by (simp add: siblings_def split: option.split)
    ultimately show "leaf_ok cb K ?F L2 y a' b'" using tree_uptoD(2) [OF t1 y] unfolding leaf_ok_def by simp
  next
    fix g p' lo' hi' assume g: "g < Suc h" and p': "L2 p' = Some (Suc g, lo', hi')"
    have sb: "p' \<noteq> p \<Longrightarrow> p' \<noteq> n \<Longrightarrow> internal_ok cb K ?F L2 g p' lo' hi'" if "internal_ok cb K F1 L1 g p' lo' hi'"
      using that sps [OF g] by (simp add: internal_ok_def)
    consider "g < h" | "g = h" "p' = p" | "g = h" "p' = n" | "g = h" "p' \<noteq> p" "p' \<noteq> n" using g by fastforce
    then show "internal_ok cb K ?F L2 g p' lo' hi'"
    proof cases
      case 1
      then have "L1 p' = Some (Suc g, lo', hi')" using p' low by simp
      then show ?thesis using tree_uptoD(3) [OF t1 1] sb Lp n 1 by fastforce
    next
      case 2
      then have "lo' = lo" "hi' = Some s'" using p' pn by (auto simp: L2_def)
      then show ?thesis using 2 l pg(1) sps [OF g] by (auto simp: internal_ok_def)
    next
      case 3
      then have "lo' = Some s'" "hi' = hi" using p' pn by (auto simp: L2_def)
      then show ?thesis using 3 r pg(2) sps [OF g] pn by (auto simp: internal_ok_def)
    next
      case 4
      then have "L p' = Some (Suc h, lo', hi')" using p' lev by (simp add: L2_def)
      then have "internal_ok cb K F1 L1 h p' lo' hi'" using F by (intro others_ok [OF t p sp x q u _ 4(2)])
      then show ?thesis using sb 4 by blast
    qed
  qed
qed

section \<open>Keys of an internal node\<close>

lemma spans_sorted:
  assumes L: "labels_ok L"
  shows "spans L h lo hi c cs \<Longrightarrow> sorted_wrt (<) (map fst cs) \<and> (\<forall>e\<in>set cs. \<exists>k. between lo (Some (fst e)) k)"
proof (induction cs arbitrary: lo c)
  case (Cons y cs)
  obtain k d where y: "y = (k, d)" by (cases y)
  have c: "L c = Some (h, lo, Some k)" and sp: "spans L h (Some k) hi d cs" using Cons.prems(1) by (simp_all add: y)
  have ih: "sorted_wrt (<) (map fst cs)" "\<forall>e\<in>set cs. \<exists>j. between (Some k) (Some (fst e)) j" using Cons.IH [OF sp] by blast+
  have less: "\<forall>e\<in>set cs. k < fst e" using ih(2) by fastforce
  obtain i where i: "between lo (Some k) i" using labels_okD(2) [OF L c] by blast
  then have "\<forall>e\<in>set cs. between lo (Some (fst e)) i" using less by (auto simp: between_def)
  then show ?case using ih(1) less i by (auto simp: y)
qed simp

lemma entries_insort: "insort_key fst (Some s, q) (entries_of c cs) = entries_of c (insort_key fst (s, q) cs)"
proof -
  have "insort_key fst (Some s, q) (map (\<lambda>(k, d). (Some k, d)) cs) = map (\<lambda>(k, d). (Some k, d)) (insort_key fst (s, q) cs)"
    by (induction cs) auto
  then show ?thesis by simp
qed

lemma insort_new_key:
  assumes "sorted_wrt (<) (map fst (insort_key fst (s, q) cs))"
  shows "s \<notin> fst ` set cs"
proof -
  have "distinct (map fst (insort_key fst (s, q) cs))" using assms strict_sorted_iff by blast
  moreover have "mset (map fst (insort_key fst (s, q) cs)) = mset (s # map fst cs)" by (simp add: mset_insort)
  ultimately have "distinct (s # map fst cs)" by (metis mset_eq_imp_distinct_iff)
  then show ?thesis by simp
qed

lemma tree_upto_mono: "tree_upto cb K F L j \<Longrightarrow> i \<le> j \<Longrightarrow> tree_upto cb K F L i"
  by (auto simp: tree_upto_def)

end
