(* ===== verification/BTreePool.thy ===== *)
theory BTreePool
  imports BTreeShape
begin

text \<open>
  The calls of the B+ tree on a pool: what reading, changing and creating a node does to the pages of the container of the
  tree, under the contract \<open>nested_pool\<close>.
\<close>

section \<open>Pages of one container\<close>

abbreviation cpages :: "('m \<Rightarrow> ContainerPageId \<Rightarrow> Page option) \<Rightarrow> ContainerId \<Rightarrow> 'm \<Rightarrow> PageId \<Rightarrow> Page option" where
  "cpages pages c m \<equiv> (\<lambda>p. pages m (c, p))"

text \<open>\<open>m'\<close> is reached from \<open>m\<close>: container \<open>c\<close> has the pages \<open>P\<close> and the next page id \<open>n\<close>, at most \<open>d\<close> pages were created,
  the other containers are as before.\<close>

definition pool_to :: "'m mem_pool_ops \<Rightarrow> ('m \<Rightarrow> bool) \<Rightarrow> ('m \<Rightarrow> ContainerPageId \<Rightarrow> Page option) \<Rightarrow> ('m \<Rightarrow> nat) \<Rightarrow>
    ContainerId \<Rightarrow> (PageId \<Rightarrow> Page option) \<Rightarrow> PageId \<Rightarrow> nat \<Rightarrow> 'm \<Rightarrow> 'm \<Rightarrow> bool" where
  "pool_to mp J pages free c P n d m m' \<longleftrightarrow> J m' \<and> cpages pages c m' = P \<and> next_id mp m' c = n \<and> free m \<le> free m' + d \<and>
     (\<forall>c' p. c' \<noteq> c \<longrightarrow> pages m' (c', p) = pages m (c', p) \<and> mp_max_page_id mp m' c' = mp_max_page_id mp m c')"

abbreviation pool_keeps :: "'m mem_pool_ops \<Rightarrow> ('m \<Rightarrow> bool) \<Rightarrow> ('m \<Rightarrow> ContainerPageId \<Rightarrow> Page option) \<Rightarrow> ('m \<Rightarrow> nat) \<Rightarrow>
    ContainerId \<Rightarrow> 'm \<Rightarrow> 'm \<Rightarrow> bool" where
  "pool_keeps mp J pages free c m m' \<equiv> pool_to mp J pages free c (cpages pages c m) (next_id mp m c) 0 m m'"

lemma pool_toD:
  assumes "pool_to mp J pages free c P n d m m'"
  shows "J m'" "cpages pages c m' = P" "next_id mp m' c = n" "free m \<le> free m' + d" "pages m' (c, x) = P x"
  using assms by (auto simp: pool_to_def)

lemma pool_to_refl: "J m \<Longrightarrow> pool_to mp J pages free c (cpages pages c m) (next_id mp m c) 0 m m"
  by (simp add: pool_to_def)

lemma pool_to_trans:
  "pool_to mp J pages free c P n d m m1 \<Longrightarrow> pool_to mp J pages free c P' n' d' m1 m2 \<Longrightarrow>
     pool_to mp J pages free c P' n' (d + d') m m2"
  by (simp add: pool_to_def)

lemma pool_keeps_trans:
  assumes "pool_keeps mp J pages free c m m1"
  shows "pool_keeps mp J pages free c m1 m2 \<Longrightarrow> pool_keeps mp J pages free c m m2"
    "pool_to mp J pages free c P n d m1 m2 \<Longrightarrow> pool_to mp J pages free c P n d m m2"
  using assms by (auto simp: pool_to_def)

lemma pool_to_more: "pool_to mp J pages free c P n d m m' \<Longrightarrow> d \<le> d' \<Longrightarrow> pool_to mp J pages free c P n d' m m'"
  by (auto simp: pool_to_def)

lemma carries_same:
  assumes "same_header pg pg'" and "carries pg n" and "page_wf pg'"
  shows "carries pg' n"
  using assms get_page_id_same_header [of pg pg'] by (simp add: carries_def)

section \<open>Blocks that read, change or create a page\<close>

context nested_pool
begin

lemma page_carries: "inv m \<Longrightarrow> pages m (c, p) = Some pg \<Longrightarrow> carries pg p"
  using page_ok [of m "(c, p)" pg] by (simp add: carries_def)

lemma id_unused: "inv m \<Longrightarrow> pages m (c, p) = Some pg \<Longrightarrow> pages m (c, next_id mp m c) = None"
  using page_key [of m c p] page_key [of m c "next_id mp m c"] by (auto simp: next_id_def split: option.splits)

lemma reading_law:
  assumes m: "inv m" and pg: "pages m (ti_c_id t, pid) = Some pg" and f: "f pg = Some r"
  obtains m' where "reading mp m t pid f = Some (m', r)"
    "pool_keeps mp inv pages free (ti_c_id t) m m'"
proof -
  let ?pk = "PageFrameId_new (ti_c_id t) pid"
  obtain q i where q: "mp_read mp m ?pk = Some (q, Inr i)" "mp_page mp q i = pg"
    "inv (mp_drop_read mp q i)" "pages (mp_drop_read mp q i) = pages m" "free (mp_drop_read mp q i) = free m"
    "mp_max_page_id mp (mp_drop_read mp q i) = mp_max_page_id mp m"
    using read_law [OF m, of ?pk pg] pg by (auto simp: PageFrameId_new_def)
  show thesis
    by (rule that [of "mp_drop_read mp q i"])
      (use q f in \<open>simp_all add: reading_def ti_get_page_for_read_def map_err_def pool_to_def next_id_def\<close>)
qed

lemma write_guard_law:
  assumes m: "inv m" and pg: "pages m (ti_c_id t, pid) = Some pg"
  obtains q i where "mp_write mp m (PageFrameId_new (ti_c_id t) pid) = Some (q, Inr i)"
    "ti_get_page_for_write mp m t pid = Some (q, Inr i)" "mp_page mp q i = pg"
    "\<And>a. mp_page mp (mp_set_page mp q i a) i = a"
    "\<And>pg'. carries pg' pid \<Longrightarrow> pool_to mp inv pages free (ti_c_id t) ((cpages pages (ti_c_id t) m)(pid \<mapsto> pg'))
       (next_id mp m (ti_c_id t)) 0 m (mp_put mp q i pg')"
proof -
  let ?pk = "PageFrameId_new (ti_c_id t) pid"
  have k: "p_key ?pk = (ti_c_id t, pid)" by (simp add: PageFrameId_new_def)
  obtain q i where q: "mp_write mp m ?pk = Some (q, Inr i)" "mp_page mp q i = pg"
    "\<forall>pg'. page_wf pg' \<longrightarrow> get_page_id pg' = Some pid \<longrightarrow>
       inv (mp_put mp q i pg') \<and> pages (mp_put mp q i pg') = (pages m)((ti_c_id t, pid) \<mapsto> pg') \<and>
       free (mp_put mp q i pg') = free m \<and> mp_max_page_id mp (mp_put mp q i pg') = mp_max_page_id mp m"
    using write_law [OF m, of ?pk pg] pg unfolding k by auto
  have a: "mp_page mp (mp_set_page mp q i a) i = a" for a
    by (rule write_guard [OF m _ q(1)]) (use pg k in simp)
  show thesis
    by (rule that [OF q(1) _ q(2) a])
      (use q in \<open>auto simp: ti_get_page_for_write_def map_err_def pool_to_def next_id_def carries_def fun_eq_iff\<close>)
qed

lemma writing_law:
  assumes m: "inv m" and pg: "pages m (ti_c_id t, pid) = Some pg" and f: "f pg = Some (pg', Inr x)" "carries pg' pid"
  obtains m' where "writing mp m t pid f = Some (m', Inr x)"
    "pool_to mp inv pages free (ti_c_id t) ((cpages pages (ti_c_id t) m)(pid \<mapsto> pg')) (next_id mp m (ti_c_id t)) 0 m m'"
proof (rule write_guard_law [OF m pg])
  fix q i
  assume q: "ti_get_page_for_write mp m t pid = Some (q, Inr i)" "mp_page mp q i = pg"
    "\<And>pg'. carries pg' pid \<Longrightarrow> pool_to mp inv pages free (ti_c_id t) ((cpages pages (ti_c_id t) m)(pid \<mapsto> pg'))
       (next_id mp m (ti_c_id t)) 0 m (mp_put mp q i pg')"
  show thesis
    by (rule that [OF _ q(3) [OF f(2)]]) (use q(1,2) f in \<open>simp add: writing_def changing_def\<close>)
qed

lemma new_node_law:
  assumes m: "inv m" and room: "0 < free m" "n = next_id mp m c" "unat n + 1 < 2 ^ 32"
    and es: "\<And>p. blank_page p n \<Longrightarrow> \<exists>p'. init_node cb es p = Some (p', Inr ()) \<and> Q p' \<and> carries p' n"
  obtains m' pg where "new_node mp cb m c es = Some (m', Inr n)" "Q pg" "carries pg n"
    "pool_to mp inv pages free c ((cpages pages c m)(n \<mapsto> pg)) (n + 1) 1 m m'"
proof -
  obtain q i where q: "mp_create mp m c = Some (q, Inr i)" "blank_page (mp_page mp q i) n"
    "\<forall>pg'. page_wf pg' \<longrightarrow> get_page_id pg' = Some n \<longrightarrow>
       inv (mp_put mp q i pg') \<and> pages (mp_put mp q i pg') = (pages m)((c, n) \<mapsto> pg') \<and>
       free m \<le> Suc (free (mp_put mp q i pg')) \<and> mp_max_page_id mp (mp_put mp q i pg') = (mp_max_page_id mp m)(c \<mapsto> n + 1)"
    using create_law [OF m room(1), of n c] room(2,3) unfolding next_id_def blank_page_def carries_def by blast
  obtain pg where pg: "init_node cb es (mp_page mp q i) = Some (pg, Inr ())" "Q pg" "carries pg n" using es [OF q(2)] by blast
  have a: "mp_page mp (mp_set_page mp q i pg) i = pg"
    by (rule create_guard [OF m room(1) _ q(1)]) (use room in simp)
  show thesis
    by (rule that [of "mp_put mp q i pg" pg])
      (use q pg a in \<open>auto simp: new_node_def ti_create_def map_err_def changing_def carries_def pool_to_def next_id_def fun_eq_iff\<close>)
qed

text \<open>A page is created while the guard of another page is held.\<close>

lemma held_new_node_law:
  assumes m: "inv m" and pg: "pages m (c, pid) = Some pg" and q: "mp_write mp m (PageFrameId_new c pid) = Some (q, Inr i)"
    and room: "0 < free m" "n = next_id mp m c" "unat n + 1 < 2 ^ 32"
    and es: "\<And>p. blank_page p n \<Longrightarrow> \<exists>p'. init_node cb es p = Some (p', Inr ()) \<and> Q p' \<and> carries p' n"
  obtains m' pg1 where "new_node mp cb (mp_set_page mp q i pg0) c es = Some (m', Inr n)" "Q pg1" "mp_page mp m' i = pg0"
    "\<And>pg2. carries pg2 pid \<Longrightarrow>
       pool_to mp inv pages free c ((cpages pages c m)(n \<mapsto> pg1, pid \<mapsto> pg2)) (n + 1) 1 m (mp_put mp m' i pg2)"
proof -
  have k: "p_key (PageFrameId_new c pid) = (c, pid)" by (simp add: PageFrameId_new_def)
  obtain s j where s: "mp_create mp (mp_set_page mp q i pg0) c = Some (s, Inr j)" "blank_page (mp_page mp s j) n"
    "\<forall>a. mp_page mp (mp_set_page mp s j a) j = a"
    "\<forall>pg1. carries pg1 n \<longrightarrow> mp_page mp (mp_put mp s j pg1) i = pg0 \<and>
       (\<forall>pg2 r. carries pg2 pid \<longrightarrow> r = mp_put mp (mp_put mp s j pg1) i pg2 \<longrightarrow>
          inv r \<and> pages r = (pages m)((c, n) \<mapsto> pg1, (c, pid) \<mapsto> pg2) \<and> free m \<le> Suc (free r) \<and>
          mp_max_page_id mp r = (mp_max_page_id mp m)(c \<mapsto> n + 1))"
    using write_create [OF m _ q room, of pg pg0] pg unfolding k by auto
  obtain pg1 where p: "init_node cb es (mp_page mp s j) = Some (pg1, Inr ())" "Q pg1" "carries pg1 n" using es [OF s(2)] by blast
  show thesis
    by (rule that [of "mp_put mp s j pg1" pg1])
      (use s p in \<open>auto simp: new_node_def ti_create_def map_err_def changing_def carries_def pool_to_def next_id_def fun_eq_iff\<close>)
qed

end

end
