(* ===== verification/BTreeLookup.thy ===== *)
theory BTreeLookup
  imports BTreePool HeapFileLaws
begin

text \<open>
  Descent, lookup and deletion in a tree whose pages are those of a pool: the descent ends at the leaf for the key, the walk to
  the left and to the right stays there.
\<close>

lemma last_matches_in: "last_matches es k \<Longrightarrow> k \<in> fst ` set es"
  by (auto simp: last_matches_def intro!: image_eqI [of _ fst "last es"])

lemma filter_key:
  fixes kvs :: "(IndexKey \<times> ValueId) list"
  assumes "sorted_wrt (<) (map fst kvs)" and "(k, v) \<in> set kvs"
  shows "filter (\<lambda>e. fst e = k) kvs = [(k, v)]"
  using assms
proof (induction kvs)
  case (Cons e kvs)
  show ?case
  proof (cases "e = (k, v)")
    case True
    then have "\<forall>e\<in>set kvs. k < fst e" using Cons.prems(1) by simp
    then have "\<forall>e\<in>set kvs. fst e \<noteq> k" by (metis less_irrefl)
    then show ?thesis using True by (simp add: filter_empty_conv)
  next
    case False
    then have "(k, v) \<in> set kvs" using Cons.prems(2) by simp
    moreover from this have "fst e \<noteq> k" using Cons.prems(1) by fastforce
    ultimately show ?thesis using Cons.IH Cons.prems(1) by simp
  qed
qed simp

lemma child_for_law:
  assumes cb: "cbor_ok cb K" and t: "tree_upto cb K F L j"
  shows "L p = Some (0, lo, hi) \<Longrightarrow> \<exists>pg. F p = Some pg \<and> child_for cb k pg = Some (Inr None) \<and> read_is_leaf cb pg = Some (Inr True)"
    "L p = Some (Suc h, lo, hi) \<Longrightarrow> h < j \<Longrightarrow> between lo hi k \<Longrightarrow>
      \<exists>pg c cs x a b. F p = Some pg \<and> internal_node cb K pg (entries_of c cs) \<and> spans L h lo hi c cs \<and>
        child_for cb k pg = Some (Inr (Some x)) \<and> internal_child cb k pg = Some (Inr x) \<and>
        read_is_leaf cb pg = Some (Inr False) \<and> x \<in> kids c cs \<and> L x = Some (h, a, b) \<and> between a b k"
proof -
  assume p: "L p = Some (0, lo, hi)"
  show "\<exists>pg. F p = Some pg \<and> child_for cb k pg = Some (Inr None) \<and> read_is_leaf cb pg = Some (Inr True)"
    by (rule leaf_at [OF t p]) (use leaf_node_reads(1) [OF cb] in \<open>simp add: child_for_def\<close>)
next
  assume p: "L p = Some (Suc h, lo, hi)" "h < j" and k: "between lo hi k"
  obtain pg c cs where n: "F p = Some pg" "internal_node cb K pg (entries_of c cs)" "spans L h lo hi c cs"
    using tree_uptoD(3) [OF t p(2,1)] unfolding internal_ok_def by blast
  note r = internal_node_reads [OF cb n(2)]
  obtain x a b where "find_child (entries_of c cs) k = Some x" "x \<in> kids c cs" "L x = Some (h, a, b)" "between a b k"
    using spans_child [OF n(3) k] by blast
  then show "\<exists>pg c cs x a b. F p = Some pg \<and> internal_node cb K pg (entries_of c cs) \<and> spans L h lo hi c cs \<and>
        child_for cb k pg = Some (Inr (Some x)) \<and> internal_child cb k pg = Some (Inr x) \<and>
        read_is_leaf cb pg = Some (Inr False) \<and> x \<in> kids c cs \<and> L x = Some (h, a, b) \<and> between a b k"
    using n r by (intro exI [of _ pg] exI [of _ c] exI [of _ cs] exI [of _ x] exI [of _ a] exI [of _ b])
      (simp add: child_for_def internal_child_def)
qed

text \<open>What the siblings of the leaf for a key hold.\<close>

lemma left_leaf:
  assumes cb: "cbor_ok cb K" and t: "tree_upto cb K F L j" and p: "L p = Some (0, lo, hi)" "between lo hi k"
    and s: "siblings L lo hi (Some x) r"
  obtains pg l' r' kvs where "F x = Some pg" "leaf_node cb K pg l' r' kvs" "k \<notin> fst ` set kvs"
proof -
  obtain a where x: "lo \<noteq> None" "L x = Some (0, a, lo)" using s by (auto simp: siblings_def)
  obtain pg l' r' kvs where pg: "F x = Some pg" "leaf_node cb K pg l' r' kvs" by (rule leaf_at [OF t x(2)])
  show thesis by (rule that [OF pg sibling_keys(1) [OF cb t p _ pg]]) (use x in auto)
qed

lemma right_leaf:
  assumes cb: "cbor_ok cb K" and t: "tree_upto cb K F L j" and p: "L p = Some (0, lo, hi)" "between lo hi k"
    and s: "siblings L lo hi l (Some x)"
  obtains pg l' r' kvs where "F x = Some pg" "leaf_node cb K pg l' r' kvs" "k \<notin> fst ` set kvs"
proof -
  obtain b where x: "hi \<noteq> None" "L x = Some (0, hi, b)" using s by (auto simp: siblings_def)
  obtain pg l' r' kvs where pg: "F x = Some pg" "leaf_node cb K pg l' r' kvs" by (rule leaf_at [OF t x(2)])
  show thesis by (rule that [OF pg sibling_keys(1) [OF cb t p _ pg]]) (use x in auto)
qed

context nested_pool
begin

lemma find_leaf_law:
  assumes cb: "cbor_ok cb K"
  shows "inv m \<Longrightarrow> tree_upto cb K (cpages pages (ti_c_id t) m) L h \<Longrightarrow> L p = Some (h, lo, hi) \<Longrightarrow> between lo hi k \<Longrightarrow>
    \<exists>m' x a b. find_leaf mp cb m t p k = Some (m', Inr x) \<and> pool_keeps mp inv pages free (ti_c_id t) m m' \<and>
      L x = Some (0, a, b) \<and> between a b k"
proof (induction h arbitrary: m p lo hi)
  case 0
  obtain pg where pg: "pages m (ti_c_id t, p) = Some pg" "child_for cb k pg = Some (Inr None)"
    using child_for_law(1) [OF cb 0(2,3)] by blast
  obtain m' where "reading mp m t p (child_for cb k) = Some (m', Inr None)" "pool_keeps mp inv pages free (ti_c_id t) m m'"
    by (rule reading_law [where f = "child_for cb k", OF 0(1) pg])
  then show ?case using 0 by (subst find_leaf.simps) auto
next
  case (Suc h)
  obtain pg x a b where pg: "pages m (ti_c_id t, p) = Some pg" "child_for cb k pg = Some (Inr (Some x))"
    and x: "L x = Some (h, a, b)" "between a b k"
    using child_for_law(2) [OF cb Suc.prems(2,3) _ Suc.prems(4)] by blast
  obtain m1 where m1: "reading mp m t p (child_for cb k) = Some (m1, Inr (Some x))" "pool_keeps mp inv pages free (ti_c_id t) m m1"
    by (rule reading_law [where f = "child_for cb k", OF Suc.prems(1) pg])
  have "tree_upto cb K (cpages pages (ti_c_id t) m1) L h"
    using tree_upto_mono [OF Suc.prems(2)] pool_toD(2) [OF m1(2)] by simp
  from Suc.IH [OF pool_toD(1) [OF m1(2)] this x] show ?case
    using m1(1) pool_keeps_trans(1) [OF m1(2)] by (subst find_leaf.simps) fastforce
qed

lemma leftmost_run_leaf_law:
  assumes cb: "cbor_ok cb K" and m: "inv m" and t: "tree_upto cb K (cpages pages (ti_c_id t) m) L j"
    and p: "L p = Some (0, lo, hi)" "between lo hi k"
  obtains m' where "leftmost_run_leaf mp cb m t p k = Some (m', Inr p)" "pool_keeps mp inv pages free (ti_c_id t) m m'"
proof -
  obtain pg l r kvs where pg: "pages m (ti_c_id t, p) = Some pg" "leaf_node cb K pg l r kvs" "siblings L lo hi l r"
    by (rule leaf_at [OF t p(1)])
  have "left_sibling_of cb pg = Some (Inr l)" using leaf_node_reads(2) [OF cb pg(2)] by (simp add: left_sibling_of_def)
  then obtain m1 where m1: "reading mp m t p (left_sibling_of cb) = Some (m1, Inr l)" "pool_keeps mp inv pages free (ti_c_id t) m m1"
    by (rule reading_law [where f = "left_sibling_of cb", OF m pg(1)])
  show thesis
  proof (cases l)
    case None
    then show ?thesis using that [OF _ m1(2)] m1(1) by (simp add: leftmost_run_leaf.simps)
  next
    case (Some x)
    obtain pgx l' r' kx where x: "pages m (ti_c_id t, x) = Some pgx" "leaf_node cb K pgx l' r' kx" "k \<notin> fst ` set kx"
      by (rule left_leaf [OF cb t p pg(3) [unfolded Some]])
    have e: "ends_with cb k pgx = Some (Inr False)"
      using leaf_node_reads(2) [OF cb x(2)] x(3) last_matches_in [of kx k] by (auto simp: ends_with_def)
    have px: "pages m1 (ti_c_id t, x) = Some pgx" using x(1) pool_toD(5) [OF m1(2)] by simp
    obtain m2 where "reading mp m1 t x (ends_with cb k) = Some (m2, Inr False)" "pool_keeps mp inv pages free (ti_c_id t) m1 m2"
      by (rule reading_law [where f = "ends_with cb k", OF pool_toD(1) [OF m1(2)] px e])
    then show ?thesis using that [OF _ pool_keeps_trans(1) [OF m1(2)]] m1(1) Some by (simp add: leftmost_run_leaf.simps)
  qed
qed

lemma search_loop_law:
  assumes cb: "cbor_ok cb K" and m: "inv m" and t: "tree_upto cb K (cpages pages (ti_c_id t) m) L j"
    and p: "L p = Some (0, lo, hi)" "between lo hi k" and pg: "pages m (ti_c_id t, p) = Some pg" "leaf_node cb K pg l r kvs"
  obtains m' where "search_loop mp cb m t k (Some p) [] = Some (m', Inr (map snd (filter (\<lambda>e. fst e = k) kvs)))"
    "pool_keeps mp inv pages free (ti_c_id t) m m'"
proof -
  have s: "siblings L lo hi l r"
    by (rule leaf_at [OF t p(1)]) (use pg leaf_node_unique(1,2) [OF cb pg(2)] in auto)
  obtain m1 where m1: "reading mp m t p (read_leaf_entries cb) = Some (m1, Inr (l, r, kvs))" "pool_keeps mp inv pages free (ti_c_id t) m m1"
    by (rule reading_law [where f = "read_leaf_entries cb", OF m pg(1) leaf_node_reads(2) [OF cb pg(2)]])
  show thesis
  proof (cases "last_matches kvs k \<and> r \<noteq> None")
    case False
    then show ?thesis using that [OF _ m1(2)] m1(1) by (simp add: search_loop.simps)
  next
    case True
    then obtain x where r: "r = Some x" by blast
    obtain pgx l' r' kx where x: "pages m (ti_c_id t, x) = Some pgx" "leaf_node cb K pgx l' r' kx" "k \<notin> fst ` set kx"
      by (rule right_leaf [OF cb t p s [unfolded r]])
    have px: "pages m1 (ti_c_id t, x) = Some pgx" using x(1) pool_toD(5) [OF m1(2)] by simp
    obtain m2 where m2: "reading mp m1 t x (read_leaf_entries cb) = Some (m2, Inr (l', r', kx))" "pool_keeps mp inv pages free (ti_c_id t) m1 m2"
      by (rule reading_law [where f = "read_leaf_entries cb", OF pool_toD(1) [OF m1(2)] px leaf_node_reads(2) [OF cb x(2)]])
    have "\<not> last_matches kx k" "filter (\<lambda>e. fst e = k) kx = []" using x(3) last_matches_in by (auto simp: filter_empty_conv)
    then show ?thesis using that [OF _ pool_keeps_trans(1) [OF m1(2) m2(2)]] m1(1) m2(1) True r by (simp add: search_loop.simps)
  qed
qed

lemma delete_found_law:
  assumes cb: "cbor_ok cb K" and m: "inv m" and pg: "pages m (ti_c_id t, p) = Some pg" "leaf_node cb K pg l r kvs"
    and kv: "(k, v) \<in> set kvs"
  obtains m' pg' where "delete_loop mp cb m t k v p = Some (m', Inr ())" "leaf_node cb K pg' l r (filter (\<lambda>e. fst e \<noteq> k) kvs)"
    "pool_to mp inv pages free (ti_c_id t) ((cpages pages (ti_c_id t) m)(p \<mapsto> pg')) (next_id mp m (ti_c_id t)) 0 m m'"
proof -
  obtain sid where sid: "find_entry cb k v pg = Some (Inr (Some sid, last_matches kvs k, r))" "heap_view pg sid = Some (enc cb (Leaf k v))"
    using find_entry_node(1) [OF cb pg(2) kv] by blast
  obtain m1 where m1: "reading mp m t p (find_entry cb k v) = Some (m1, Inr (Some sid, last_matches kvs k, r))"
    "pool_keeps mp inv pages free (ti_c_id t) m m1"
    by (rule reading_law [where f = "find_entry cb k v", OF m pg(1) sid(1)])
  obtain pg' u where d: "delete_value pg sid = Some (pg', u)" "leaf_node cb K pg' l r (filter (\<lambda>e. fst e \<noteq> k) kvs)" "same_header pg pg'"
    by (rule leaf_delete [OF pg(2) kv sid(2)])
  have c: "carries pg' p"
    using carries_same [OF d(3) page_carries [OF m pg(1)]] d(2) heap_wf_page_wf by (simp add: leaf_node_def node_def)
  let ?f = "\<lambda>pg. map_option (\<lambda>(pg, _). (pg, Inr ())) (delete_value pg sid)"
  have f: "?f pg = Some (pg', Inr ())" using d(1) by simp
  have p1: "pages m1 (ti_c_id t, p) = Some pg" using pg(1) pool_toD(5) [OF m1(2)] by simp
  obtain m2 where m2: "writing mp m1 t p ?f = Some (m2, Inr ())"
    "pool_to mp inv pages free (ti_c_id t) ((cpages pages (ti_c_id t) m1)(p \<mapsto> pg')) (next_id mp m1 (ti_c_id t)) 0 m1 m2"
    by (rule writing_law [where f = ?f, OF pool_toD(1) [OF m1(2)] p1 f c])
  show thesis
    by (rule that [OF _ d(2) pool_keeps_trans(2) [OF m1(2)]])
      (use m1(1) m2 pool_toD(2,3) [OF m1(2)] in \<open>simp_all add: delete_loop.simps\<close>)
qed

lemma delete_absent_law:
  assumes cb: "cbor_ok cb K" and m: "inv m" and t: "tree_upto cb K (cpages pages (ti_c_id t) m) L j"
    and p: "L p = Some (0, lo, hi)" "between lo hi k" and pg: "pages m (ti_c_id t, p) = Some pg" "leaf_node cb K pg l r kvs"
    and kv: "(k, v) \<notin> set kvs"
  obtains m' where "delete_loop mp cb m t k v p = Some (m', Inr ())" "pool_keeps mp inv pages free (ti_c_id t) m m'"
proof -
  have s: "siblings L lo hi l r"
    by (rule leaf_at [OF t p(1)]) (use pg leaf_node_unique(1,2) [OF cb pg(2)] in auto)
  obtain m1 where m1: "reading mp m t p (find_entry cb k v) = Some (m1, Inr (None, last_matches kvs k, r))" "pool_keeps mp inv pages free (ti_c_id t) m m1"
    by (rule reading_law [where f = "find_entry cb k v", OF m pg(1) find_entry_node(2) [OF cb pg(2) kv]])
  show thesis
  proof (cases "last_matches kvs k \<and> r \<noteq> None")
    case False
    then have "delete_loop mp cb m t k v p = Some (m1, Inr ())" using m1(1) by (subst delete_loop.simps) (auto split: option.split)
    then show ?thesis by (rule that [OF _ m1(2)])
  next
    case True
    then obtain x where r: "r = Some x" by blast
    obtain pgx l' r' kx where x: "pages m (ti_c_id t, x) = Some pgx" "leaf_node cb K pgx l' r' kx" "k \<notin> fst ` set kx"
      by (rule right_leaf [OF cb t p s [unfolded r]])
    have px: "pages m1 (ti_c_id t, x) = Some pgx" using x(1) pool_toD(5) [OF m1(2)] by simp
    have "(k, v) \<notin> set kx" "\<not> last_matches kx k" using x(3) last_matches_in by force+
    then have f: "find_entry cb k v pgx = Some (Inr (None, False, r'))" using find_entry_node(2) [OF cb x(2)] by simp
    obtain m2 where m2: "reading mp m1 t x (find_entry cb k v) = Some (m2, Inr (None, False, r'))" "pool_keeps mp inv pages free (ti_c_id t) m1 m2"
      by (rule reading_law [where f = "find_entry cb k v", OF pool_toD(1) [OF m1(2)] px f])
    have "delete_loop mp cb m1 t k v x = Some (m2, Inr ())" using m2(1) by (subst delete_loop.simps) (simp split: option.split)
    then have "delete_loop mp cb m t k v p = Some (m2, Inr ())" using m1(1) True r by (subst delete_loop.simps) simp
    then show ?thesis by (rule that [OF _ pool_keeps_trans(1) [OF m1(2) m2(2)]])
  qed
qed

end

end
