(* ===== verification/Spec2Isabelle.thy ===== *)
theory Spec2Isabelle
  imports HeapPageProps RwLatch BufferPoolProps NoEviction InMemPool HeapFileProps StorageManager DatatypesProps QueryProps RewriteProps MemStoreProps HeapStorage BTreeLookup
begin

text \<open>
  CrustyDB: a relational database engine in Rust. This library models its storage engine and its query
  engine and proves what they promise to their clients.

  \<^bold>\<open>The program and its models.\<close> Each theory models the source file of the same name under src/src and keeps the
  names of its functions.

  \<^item> \<open>Ids\<close>, \<open>Errors\<close> (common/src/ids.rs, error.rs): record ids with their packed byte encoding, errors.
  \<^item> \<open>Page\<close>, \<open>HeapPage\<close> (heapstore/src/page.rs, heap_page.rs): the 4096-byte page and the slotted layout: header, slot
    table growing up, values growing down, compaction, checksum; \<open>Iteration\<close> its iterators. \<open>HeapPageLaws\<close> has the
    layout invariant and its preservation, \<open>HeapPageSpec\<close> the page as a map from slots to values.
  \<^item> \<open>RwLatch\<close> (common/src/rwlatch.rs): the spin latch as a step relation of interleaved threads.
  \<^item> \<open>BaseFile\<close>, \<open>BufferFrame\<close>, \<open>BufferPool\<close> (heapstore/src/base_file.rs, buffer_pool/, container_file_catalog.rs): page
    files over the system calls pread, pwrite and friends, which are parameters; frames with latches and dirty
    flags; the pool with its page table, eviction and write back. \<open>BufferPoolLaws\<close> has its invariant, \<open>NoEviction\<close>
    what a pool does that was never told which frames may be evicted.
  \<^item> \<open>MemPool\<close>, \<open>InMemPool\<close> (buffer_pool/mem_pool_trait.rs, in_mem_pool.rs): the trait as a record of functions with the
    locale \<open>mem_pool\<close> as its contract, interpreted for both pools.
  \<^item> \<open>HeapFile\<close> (heapstore/src/heap_file.rs) with \<open>HeapFileLaws\<close>, \<open>HeapFileScan\<close>: heap files over any pool with the
    contract, and their scans. \<open>StorageManager\<close> (heapstore/src/storage_manager.rs): containers of heap files, restart.
  \<^item> \<open>StorageSpec\<close> (common/src/traits/storage_trait.rs): the storage trait as the locale \<open>storage\<close>, a map from record ids
    to values, interpreted for the heap storage manager in \<open>HeapStorage\<close> and for the in-memory one in \<open>MemStoreProps\<close>;
    \<open>MemStore\<close> (memstore/src/storage_manager.rs) is the latter, with its files.
  \<^item> \<open>Scalars\<close>, \<open>F64\<close>, \<open>Datatypes\<close> (common/src/datatypes.rs, attribute.rs, query/operation.rs): fields with order,
    arithmetic, bytes and text. A double is a rational rounded to nearest even; dates belong to chrono, whose date type
    and functions are the parameter \<open>chrono\<close>.
  \<^item> \<open>Tuples\<close>, \<open>ByteCode\<close> (common/src/tuple.rs, table.rs, query/expr.rs, query/bytecode_expr.rs, planner.rs): tuples and
    schemas; expressions, their compiler and the stack machine.
  \<^item> \<open>Operators\<close>, \<open>Joins\<close>, \<open>SortOps\<close> (queryexe/src/opiterator/, query/executor.rs): the iterator trait as a record of
    functions over the operator's state and the shared managers, and its operators. \<open>OpContract\<close> has the contract of an
    iterator as the locale \<open>op_iterator\<close>; \<open>JoinLaws\<close>, \<open>SortLaws\<close>, \<open>MergeLaws\<close> and \<open>AggLaws\<close> show that each operator
    keeps it when its children do.
  \<^item> \<open>Plans\<close>, \<open>Rewrite\<close> (common/src/query/logical_expr/, physical_expr/, rules.rs): logical and physical plans, and the
    rewriting of logical plans while they are built. \<open>PlanRows\<close> says which rows a logical plan has; \<open>RewriteLaws\<close>,
    \<open>SelectLaws\<close>, \<open>MapLaws\<close>, \<open>ProjectLaws\<close> and \<open>OuterJoins\<close> show what each rewriting does to them.
  \<^item> \<open>BTree\<close> (index/src/tree.rs): the B+ tree over any pool. \<open>NestedGuards\<close> extends the contract of a pool to several
    pages held at once; \<open>BTreeNodes\<close> and \<open>BTreeSplit\<close> show what reading, filling and splitting a node do,
    \<open>BTreeShape\<close> and \<open>BTreePool\<close> have the shape of a tree in the pages of a pool, \<open>BTreeLookup\<close> the lookup.

  \<^bold>\<open>Conventions.\<close> A panic is \<open>None\<close>; a fallible call returns the new state with \<open>Inl\<close> of the error or \<open>Inr\<close> of the
  result. Machine integers are words of their width, with checked arithmetic where the debug build checks, and
  \<open>usize\<close> is \<open>nat\<close>. Guards are frame indices that the code drops explicitly. Loops that the code does not bound are
  \<open>partial_function (option)\<close>, and the theorems show that they return.

  \<^bold>\<open>What is shown.\<close> \<open>HeapPageProps\<close>: a page behaves as a finite map under every sequence of operations, with the exact
  conditions under which a value is refused. \<open>RwLatch\<close>: mutual exclusion under every interleaving. \<open>BufferPoolProps\<close>:
  the pool behaves as lists of pages whatever is evicted, and flushed pages survive. \<open>NoEviction\<close>: a pool whose frames
  are all used refuses every further page until it is given eviction hints. \<open>InMemPool\<close>: both pools give the same results. \<open>HeapFileProps\<close>, \<open>StorageManager\<close>: heap files and storage
  managers are maps from record ids to values, scans return every value once, restarts lose nothing.
  \<open>DatatypesProps\<close>: encodings are inverse, decimal arithmetic is correctly rounded, with the exceptions found.
  \<open>ByteCodeProps\<close>: compiled expressions compute the value of the expression. \<open>QueryProps\<close>: plans return what the
  relational operators mean, the three joins agree, sort and aggregation are correct. \<open>RewriteProps\<close>: rewriting keeps
  the rows of plans without subqueries and outer joins, and exactly which rows it drops from an outer join.
  \<open>MemStoreProps\<close>: the in-memory store is a map from record ids to values that survives a restart, except when its
  directory has entries without an extension, and its scan returns every value with the id of the next slot.

  \<^bold>\<open>Bounds.\<close> The laws of a pool hold while all pages of its containers fit into its frames, which \<open>pool_ok\<close> includes, and
  the laws of an operation that needs pages ask for as many free frames. Values that a heap file must accept are shorter
  than 4068 bytes, what an empty page holds. Decimal products and quotients are exact up to rounding below 2^52, where
  doubles represent the operands. Drains of iterators take a number of steps as fuel; the theorems say how many suffice.

  \<^bold>\<open>Not modelled.\<close> The SQL translation, the optimizer and its cost model, the statistics, the index manager, scans and
  updates of stored tables, the server with its network protocol and command parsing, and the client: they call libraries
  or other processes, or only pass work between the components above. Serialisation by serde_cbor, dates by chrono and
  the system calls on files are code outside the repository and appear as parameters with named hypotheses.
\<close>

end
